(* ===== verification/Prelude.thy ===== *)
theory Prelude
  imports Main "HOL-Library.Word" "HOL-Library.Char_ord" "HOL-Library.List_Lexorder"
begin

text \<open>
  Shared vocabulary of the development.  It models the parts of the Rust language and of its
  standard library that the vaultx crates use: \<open>Result\<close>, the fixed-width unsigned integers, byte
  predicates on ASCII characters, and the \<open>str\<close> operations on UTF-8 byte strings.

  A Rust \<open>String\<close> or \<open>&str\<close> is the list of its UTF-8 bytes (\<^typ>\<open>string\<close>, whose
  characters are bytes), so that \<open>len\<close> is \<^const>\<open>length\<close> and the byte order of
  \<open>List_Lexorder\<close> is the \<open>Ord\<close> instance of \<open>String\<close>.  Operations that look at \<open>char\<close>
  values go through \<open>uchars\<close>, which cuts a string into the byte groups of its code points.
\<close>

section \<open>Results and machine integers\<close>

datatype ('a, 'e) result = Ok 'a | Err 'e

type_synonym u8 = "8 word"
type_synonym u16 = "16 word"
type_synonym u64 = "64 word"

named_theorems str_simps \<open>evaluation of the string operations\<close>
named_theorems result_intros \<open>facts about successful results\<close>

primrec is_ok :: "('a, 'e) result \<Rightarrow> bool" where
  "is_ok (Ok _) = True"
| "is_ok (Err _) = False"

definition is_err :: "('a, 'e) result \<Rightarrow> bool" where
  "is_err r \<longleftrightarrow> \<not> is_ok r"

primrec and_then :: "('a, 'e) result \<Rightarrow> ('a \<Rightarrow> ('b, 'e) result) \<Rightarrow> ('b, 'e) result" where
  "and_then (Ok a) f = f a"
| "and_then (Err e) f = Err e"

primrec map_err :: "('e \<Rightarrow> 'f) \<Rightarrow> ('a, 'e) result \<Rightarrow> ('a, 'f) result" where
  "map_err f (Ok a) = Ok a"
| "map_err f (Err e) = Err (f e)"

primrec ok_or :: "'e \<Rightarrow> 'a option \<Rightarrow> ('a, 'e) result" where
  "ok_or e None = Err e"
| "ok_or e (Some a) = Ok a"

text \<open>The body of a \<open>for\<close> loop that returns early on the first error (\<open>?\<close>).\<close>

primrec try_each :: "('a \<Rightarrow> (unit, 'e) result) \<Rightarrow> 'a list \<Rightarrow> (unit, 'e) result" where
  "try_each f [] = Ok ()"
| "try_each f (x # xs) = (case f x of Ok _ \<Rightarrow> try_each f xs | Err e \<Rightarrow> Err e)"

definition saturating_add :: "u64 \<Rightarrow> u64 \<Rightarrow> u64" where
  "saturating_add a b = (if unat a + unat b < 2 ^ 64 then a + b else - 1)"

section \<open>Bytes\<close>

abbreviation byte_of :: "char \<Rightarrow> nat" where
  "byte_of c \<equiv> of_char c"

definition is_ascii_lowercase :: "char \<Rightarrow> bool" where
  "is_ascii_lowercase c \<longleftrightarrow> 97 \<le> byte_of c \<and> byte_of c \<le> 122"

definition is_ascii_uppercase :: "char \<Rightarrow> bool" where
  "is_ascii_uppercase c \<longleftrightarrow> 65 \<le> byte_of c \<and> byte_of c \<le> 90"

definition is_ascii_digit :: "char \<Rightarrow> bool" where
  "is_ascii_digit c \<longleftrightarrow> 48 \<le> byte_of c \<and> byte_of c \<le> 57"

definition is_ascii_alphanumeric :: "char \<Rightarrow> bool" where
  "is_ascii_alphanumeric c \<longleftrightarrow> is_ascii_lowercase c \<or> is_ascii_uppercase c \<or> is_ascii_digit c"

definition is_ascii_hexdigit :: "char \<Rightarrow> bool" where
  "is_ascii_hexdigit c \<longleftrightarrow> is_ascii_digit c \<or> 97 \<le> byte_of c \<and> byte_of c \<le> 102
     \<or> 65 \<le> byte_of c \<and> byte_of c \<le> 70"

definition is_ascii_byte :: "char \<Rightarrow> bool" where
  "is_ascii_byte c \<longleftrightarrow> byte_of c < 128"

definition to_ascii_lower :: "char \<Rightarrow> char" where
  "to_ascii_lower c = (if is_ascii_uppercase c then char_of (byte_of c + 32) else c)"

definition to_ascii_upper :: "char \<Rightarrow> char" where
  "to_ascii_upper c = (if is_ascii_lowercase c then char_of (byte_of c - 32) else c)"

lemmas ascii_defs = is_ascii_lowercase_def is_ascii_uppercase_def is_ascii_digit_def
  is_ascii_alphanumeric_def is_ascii_hexdigit_def is_ascii_byte_def

declare ascii_defs [str_simps] to_ascii_lower_def [str_simps] to_ascii_upper_def [str_simps]

section \<open>Operations of \<open>str\<close>\<close>

definition to_ascii_lowercase :: "string \<Rightarrow> string" where
  "to_ascii_lowercase s = map to_ascii_lower s"

definition eq_ignore_ascii_case :: "string \<Rightarrow> string \<Rightarrow> bool" where
  "eq_ignore_ascii_case s t \<longleftrightarrow> to_ascii_lowercase s = to_ascii_lowercase t"

definition is_ascii :: "string \<Rightarrow> bool" where
  "is_ascii s \<longleftrightarrow> list_all is_ascii_byte s"

fun strip_prefix :: "string \<Rightarrow> string \<Rightarrow> string option" where
  "strip_prefix [] s = Some s"
| "strip_prefix (p # ps) [] = None"
| "strip_prefix (p # ps) (c # cs) = (if p = c then strip_prefix ps cs else None)"

definition strip_suffix :: "string \<Rightarrow> string \<Rightarrow> string option" where
  "strip_suffix p s = map_option rev (strip_prefix (rev p) (rev s))"

definition starts_with :: "string \<Rightarrow> string \<Rightarrow> bool" where
  "starts_with p s \<longleftrightarrow> strip_prefix p s \<noteq> None"

definition ends_with :: "string \<Rightarrow> string \<Rightarrow> bool" where
  "ends_with p s \<longleftrightarrow> strip_suffix p s \<noteq> None"

fun contains_str :: "string \<Rightarrow> string \<Rightarrow> bool" where
  "contains_str p [] = (p = [])"
| "contains_str p (c # cs) = (starts_with p (c # cs) \<or> contains_str p cs)"

text \<open>\<open>str::split\<close> on a one-byte separator: never empty, one more piece than separators.\<close>

fun split_on :: "char \<Rightarrow> string \<Rightarrow> string list" where
  "split_on d [] = [[]]"
| "split_on d (c # cs) =
     (if c = d then [] # split_on d cs
      else (case split_on d cs of [] \<Rightarrow> [[c]] | p # ps \<Rightarrow> (c # p) # ps))"

fun join_with :: "string \<Rightarrow> string list \<Rightarrow> string" where
  "join_with sep [] = []"
| "join_with sep [p] = p"
| "join_with sep (p # q # ps) = p @ sep @ join_with sep (q # ps)"

text \<open>\<open>str::split_once\<close> on a string separator.\<close>

fun split_once :: "string \<Rightarrow> string \<Rightarrow> (string \<times> string) option" where
  "split_once sep [] = (if sep = [] then Some ([], []) else None)"
| "split_once sep (c # cs) =
     (case strip_prefix sep (c # cs) of
        Some rest \<Rightarrow> Some ([], rest)
      | None \<Rightarrow> map_option (\<lambda>(a, b). (c # a, b)) (split_once sep cs))"

text \<open>Error messages put names between backquotes.\<close>

definition backquoted :: "string \<Rightarrow> string" where
  "backquoted s = [CHR 0x60] @ s @ [CHR 0x60]"

section \<open>UTF-8 code points\<close>

text \<open>
  The number of bytes of the code point that a byte starts, and the groups of bytes of a string.
  On a well-formed UTF-8 string (every Rust \<open>str\<close> is one) the groups are exactly the encodings of
  its \<open>char\<close>s.
\<close>

definition utf8_width :: "char \<Rightarrow> nat" where
  "utf8_width c =
     (if byte_of c < 128 then 1 else if byte_of c < 224 then 2 else if byte_of c < 240 then 3
      else 4)"

function uchars :: "string \<Rightarrow> string list" where
  "uchars [] = []"
| "uchars (c # cs) = (c # take (utf8_width c - 1) cs) # uchars (drop (utf8_width c - 1) cs)"
  by pat_completeness auto
termination
  by (relation "measure length") auto

fun code_point :: "string \<Rightarrow> nat" where
  "code_point [a] = byte_of a"
| "code_point [a, b] = (byte_of a mod 32) * 64 + byte_of b mod 64"
| "code_point [a, b, c] = (byte_of a mod 16) * 4096 + (byte_of b mod 64) * 64 + byte_of c mod 64"
| "code_point [a, b, c, d] =
     (byte_of a mod 8) * 262144 + (byte_of b mod 64) * 4096 + (byte_of c mod 64) * 64
     + byte_of d mod 64"
| "code_point _ = 65533"

definition char_count :: "string \<Rightarrow> nat" where
  "char_count s = length (uchars s)"

text \<open>\<open>char::is_control\<close> is the Unicode category Cc, \<open>char::is_whitespace\<close> the property White\_Space.\<close>

definition is_control_cp :: "nat \<Rightarrow> bool" where
  "is_control_cp n \<longleftrightarrow> n < 32 \<or> 127 \<le> n \<and> n \<le> 159"

definition is_whitespace_cp :: "nat \<Rightarrow> bool" where
  "is_whitespace_cp n \<longleftrightarrow> 9 \<le> n \<and> n \<le> 13 \<or> n = 32 \<or> n = 133 \<or> n = 160 \<or> n = 5760
     \<or> 8192 \<le> n \<and> n \<le> 8202 \<or> n = 8232 \<or> n = 8233 \<or> n = 8239 \<or> n = 8287 \<or> n = 12288"

definition any_char :: "(nat \<Rightarrow> bool) \<Rightarrow> string \<Rightarrow> bool" where
  "any_char p s \<longleftrightarrow> list_ex (\<lambda>g. p (code_point g)) (uchars s)"

definition trim :: "string \<Rightarrow> string" where
  "trim s =
     (let ws = (\<lambda>g. is_whitespace_cp (code_point g))
      in concat (rev (dropWhile ws (rev (dropWhile ws (uchars s))))))"

text \<open>
  \<open>String::from_utf8_lossy\<close>: well-formed sequences are kept, every maximal ill-formed prefix of one
  becomes the replacement character U+FFFD.
\<close>

definition REPLACEMENT :: string where
  "REPLACEMENT = [CHR 0xEF, CHR 0xBF, CHR 0xBD]"

definition is_continuation :: "char \<Rightarrow> bool" where
  "is_continuation c \<longleftrightarrow> 128 \<le> byte_of c \<and> byte_of c < 192"

definition second_byte_ok :: "char \<Rightarrow> char \<Rightarrow> bool" where
  "second_byte_ok c d \<longleftrightarrow>
     (if byte_of c = 224 then 160 \<le> byte_of d \<and> byte_of d < 192
      else if byte_of c = 237 then 128 \<le> byte_of d \<and> byte_of d < 160
      else if byte_of c = 240 then 144 \<le> byte_of d \<and> byte_of d < 192
      else if byte_of c = 244 then 128 \<le> byte_of d \<and> byte_of d < 144
      else is_continuation d)"

function utf8_lossy :: "string \<Rightarrow> string" where
  "utf8_lossy [] = []"
| "utf8_lossy (c # s) =
     (if byte_of c < 128 then c # utf8_lossy s
      else if byte_of c < 194 \<or> 244 < byte_of c then REPLACEMENT @ utf8_lossy s
      else (case s of
          [] \<Rightarrow> REPLACEMENT
        | d # s1 \<Rightarrow>
            if \<not> second_byte_ok c d then REPLACEMENT @ utf8_lossy (d # s1)
            else if byte_of c < 224 then c # d # utf8_lossy s1
            else (case s1 of
                [] \<Rightarrow> REPLACEMENT
              | e # s2 \<Rightarrow>
                  if \<not> is_continuation e then REPLACEMENT @ utf8_lossy (e # s2)
                  else if byte_of c < 240 then c # d # e # utf8_lossy s2
                  else (case s2 of
                      [] \<Rightarrow> REPLACEMENT
                    | f # s3 \<Rightarrow>
                        if \<not> is_continuation f then REPLACEMENT @ utf8_lossy (f # s3)
                        else c # d # e # f # utf8_lossy s3))))"
  by pat_completeness auto
termination
  by (relation "measure length") auto

definition is_utf8 :: "string \<Rightarrow> bool" where
  "is_utf8 s \<longleftrightarrow> utf8_lossy s = s"

abbreviation newline :: char where
  "newline \<equiv> CHR 0x0A"

section \<open>Decimal rendering\<close>

fun digit_char :: "nat \<Rightarrow> char" where
  "digit_char n = char_of (48 + n)"

fun dec_of_nat :: "nat \<Rightarrow> string" where
  "dec_of_nat n = (if n < 10 then [digit_char n] else dec_of_nat (n div 10) @ [digit_char (n mod 10)])"

declare dec_of_nat.simps [simp del]

section \<open>Lemmas\<close>

lemma and_then_Ok_iff [simp]: "and_then r f = Ok b \<longleftrightarrow> (\<exists>a. r = Ok a \<and> f a = Ok b)"
  by (cases r) auto

lemma is_ok_iff: "is_ok r \<longleftrightarrow> (\<exists>a. r = Ok a)"
  by (cases r) auto

lemma is_err_simps [simp]: "is_err (Err e)" "\<not> is_err (Ok a)"
  by (simp_all add: is_err_def)

lemma ok_or_Ok_iff [simp]: "ok_or e x = Ok a \<longleftrightarrow> x = Some a"
  by (cases x) auto

lemma map_err_Ok_iff [simp]: "map_err f r = Ok a \<longleftrightarrow> r = Ok a"
  by (cases r) auto

lemma try_each_Ok_iff: "try_each f xs = Ok () \<longleftrightarrow> (\<forall>x \<in> set xs. f x = Ok ())"
  by (induction xs) (auto split: result.splits)

lemma try_each_Err:
  "try_each f xs = Err e \<Longrightarrow> \<exists>x \<in> set xs. f x = Err e"
  by (induction xs) (auto split: result.splits)

lemma unat_saturating_add: "unat (saturating_add a b) = min (unat a + unat b) (2 ^ 64 - 1)"
proof (cases "unat a + unat b < 2 ^ 64")
  case True
  then show ?thesis by (simp add: saturating_add_def unat_word_ariths)
next
  case False
  moreover have "unat (- 1 :: u64) = 2 ^ 64 - 1"
    by (simp add: unsigned_minus_1_eq_mask mask_eq_exp_minus_1)
  ultimately show ?thesis by (simp add: saturating_add_def)
qed

lemma strip_prefix_Some_iff: "strip_prefix p s = Some t \<longleftrightarrow> s = p @ t"
  by (induction p s rule: strip_prefix.induct) auto

lemma strip_prefix_None_iff: "strip_prefix p s = None \<longleftrightarrow> (\<forall>t. s \<noteq> p @ t)"
  using strip_prefix_Some_iff [of p s] by (metis option.exhaust option.distinct(1))

lemma strip_prefix_append [simp]: "strip_prefix p (p @ t) = Some t"
  by (simp add: strip_prefix_Some_iff)

lemma starts_with_iff: "starts_with p s \<longleftrightarrow> (\<exists>t. s = p @ t)"
  by (auto simp: starts_with_def strip_prefix_Some_iff)

lemma strip_suffix_Some_iff: "strip_suffix p s = Some t \<longleftrightarrow> s = t @ p"
proof -
  have "strip_suffix p s = Some t \<longleftrightarrow> strip_prefix (rev p) (rev s) = Some (rev t)"
    by (cases "strip_prefix (rev p) (rev s)") (auto simp: strip_suffix_def)
  also have "\<dots> \<longleftrightarrow> s = t @ p"
    by (simp add: strip_prefix_Some_iff flip: rev_append)
  finally show ?thesis .
qed

lemma ends_with_iff: "ends_with p s \<longleftrightarrow> (\<exists>t. s = t @ p)"
  by (auto simp: ends_with_def strip_suffix_Some_iff)

lemma contains_str_iff: "contains_str p s \<longleftrightarrow> (\<exists>a b. s = a @ p @ b)"
proof (induction s)
  case Nil
  then show ?case by auto
next
  case (Cons c cs)
  have "contains_str p (c # cs) \<longleftrightarrow> (\<exists>b. c # cs = p @ b) \<or> (\<exists>a b. cs = a @ p @ b)"
    by (simp add: Cons.IH starts_with_iff)
  also have "\<dots> \<longleftrightarrow> (\<exists>a b. c # cs = a @ p @ b)"
    by (metis append_Cons append_Nil list.exhaust list.inject)
  finally show ?case .
qed

lemma split_on_not_Nil [simp]: "split_on d s \<noteq> []"
  by (induction s) (auto split: list.splits)

lemma join_split_on [simp]: "join_with [d] (split_on d s) = s"
proof (induction s)
  case Nil
  then show ?case by simp
next
  case (Cons c cs)
  obtain p ps where eq: "split_on d cs = p # ps" by (cases "split_on d cs") auto
  with Cons show ?case by (cases ps) auto
qed

lemma split_on_no_sep: "p \<in> set (split_on d s) \<Longrightarrow> d \<notin> set p"
proof (induction s arbitrary: p)
  case Nil
  then show ?case by simp
next
  case (Cons c cs)
  obtain q qs where eq: "split_on d cs = q # qs" by (cases "split_on d cs") auto
  with Cons show ?case by (auto split: if_splits)
qed

lemma split_on_no_sep_id: "d \<notin> set s \<Longrightarrow> split_on d s = [s]"
  by (induction s) auto

lemma split_on_append_sep:
  "d \<notin> set p \<Longrightarrow> split_on d (p @ d # s) = p # split_on d s"
  by (induction p) auto

lemma split_on_join:
  "ps \<noteq> [] \<Longrightarrow> \<forall>p \<in> set ps. d \<notin> set p \<Longrightarrow> split_on d (join_with [d] ps) = ps"
proof (induction "[d]" ps rule: join_with.induct)
  case 1
  then show ?case by simp
next
  case (2 p)
  then show ?case by (simp add: split_on_no_sep_id)
next
  case (3 p q ps)
  then show ?case by (simp add: split_on_append_sep)
qed

lemma split_once_Some: "split_once sep s = Some (a, b) \<Longrightarrow> s = a @ sep @ b"
proof (induction s arbitrary: a)
  case Nil
  then show ?case by (simp split: if_splits)
next
  case (Cons c cs)
  then show ?case
    by (auto split: option.splits simp: strip_prefix_Some_iff)
qed

lemma concat_uchars [simp]: "concat (uchars s) = s"
  by (induction s rule: uchars.induct) (simp_all only: uchars.simps concat.simps append_Cons
      append_take_drop_id)

lemma uchars_ascii: "is_ascii s \<Longrightarrow> uchars s = map (\<lambda>c. [c]) s"
  by (induction s) (auto simp: is_ascii_def is_ascii_byte_def utf8_width_def)

lemma char_count_ascii: "is_ascii s \<Longrightarrow> char_count s = length s"
  by (simp add: char_count_def uchars_ascii)

lemma utf8_lossy_ascii: "is_ascii s \<Longrightarrow> utf8_lossy s = s"
  by (induction s) (auto simp: is_ascii_def is_ascii_byte_def)

lemma byte_of_lower: "byte_of (to_ascii_lower c) = (if is_ascii_uppercase c then byte_of c + 32 else byte_of c)"
  by (auto simp: to_ascii_lower_def is_ascii_uppercase_def)

lemma to_ascii_lower_not_upper: "\<not> is_ascii_uppercase (to_ascii_lower c)"
  by (simp add: is_ascii_uppercase_def byte_of_lower)

lemma to_ascii_lower_idem [simp]: "to_ascii_lower (to_ascii_lower c) = to_ascii_lower c"
  using to_ascii_lower_not_upper [of c] by (simp add: to_ascii_lower_def [of "to_ascii_lower c"])

lemma to_ascii_lowercase_idem [simp]:
  "to_ascii_lowercase (to_ascii_lowercase s) = to_ascii_lowercase s"
  by (simp add: to_ascii_lowercase_def)

lemma to_ascii_lower_id: "\<not> is_ascii_uppercase c \<Longrightarrow> to_ascii_lower c = c"
  by (simp add: to_ascii_lower_def)

lemma to_ascii_lowercase_id:
  "list_all (\<lambda>c. \<not> is_ascii_uppercase c) s \<Longrightarrow> to_ascii_lowercase s = s"
  by (induction s) (auto simp: to_ascii_lowercase_def to_ascii_lower_id)

lemma length_to_ascii_lowercase [simp]: "length (to_ascii_lowercase s) = length s"
  by (simp add: to_ascii_lowercase_def)

lemma eq_ignore_ascii_case_lower [simp]:
  "eq_ignore_ascii_case s (to_ascii_lowercase t) = eq_ignore_ascii_case s t"
  "eq_ignore_ascii_case (to_ascii_lowercase s) t = eq_ignore_ascii_case s t"
  by (simp_all add: eq_ignore_ascii_case_def)

lemma eq_ignore_ascii_case_refl [simp]: "eq_ignore_ascii_case s s"
  by (simp add: eq_ignore_ascii_case_def)

lemma eq_ignore_ascii_case_sym: "eq_ignore_ascii_case s t \<longleftrightarrow> eq_ignore_ascii_case t s"
  by (auto simp: eq_ignore_ascii_case_def)

end
