(* ===== verification/Ids.thy ===== *)
theory Ids
  imports Prelude
begin

text \<open>
  The crate \<open>vaultx-types\<close>: the grammars of identifiers (\<open>ids.rs\<close>) and names (\<open>names.rs\<close>).  The
  newtypes wrap a validated string, so a value of a newtype is the string itself and the \<open>parse\<close>
  functions are the only constructors.  The macros \<open>define_prefixed_id!\<close> and \<open>define_plain_id!\<close>
  become functions of the prefix and of the length bound they are instantiated with.
\<close>

section \<open>Data\<close>

datatype type_error =
    Empty
  | InvalidPrefix string
  | InvalidCharacters
  | TooLong nat

datatype variable_kind = Config | Secret | Brokered | Dynamic

type_synonym session_id = string
type_synonym agent_id = string
type_synonym environment_id = string
type_synonym project_id = string
type_synonym credential_ref = string
type_synonym commit_id = string
type_synonym object_id = string
type_synonym secret_revision_id = string
type_synonym policy_name = string
type_synonym variable_name = string

section \<open>Identifiers\<close>

definition MAX_ID_CONTENT_LEN :: nat where
  "MAX_ID_CONTENT_LEN = 64"

definition ID_PREFIXES :: "string list" where
  "ID_PREFIXES =
     [''sec_rev_'', ''ws_'', ''proj_'', ''env_'', ''cmt_'', ''obj_'', ''sec_'', ''pol_'',
      ''agent_'', ''sess_'', ''aud_'']"

definition is_id_char :: "char \<Rightarrow> bool" where
  "is_id_char c \<longleftrightarrow> is_ascii_lowercase c \<or> is_ascii_digit c \<or> c = CHR ''-'' \<or> c = CHR ''_''"

definition is_valid_id_content :: "string \<Rightarrow> bool" where
  "is_valid_id_content value \<longleftrightarrow> value \<noteq> [] \<and> list_all is_id_char value"

definition claimed_by_longer_registered_prefix :: "string \<Rightarrow> string \<Rightarrow> bool" where
  "claimed_by_longer_registered_prefix value own \<longleftrightarrow>
     list_ex (\<lambda>p. length own < length p \<and> starts_with p value) ID_PREFIXES"

definition content_starts_with_registered_prefix :: "string \<Rightarrow> bool" where
  "content_starts_with_registered_prefix content \<longleftrightarrow>
     list_ex (\<lambda>p. starts_with p content) ID_PREFIXES"

definition parse_prefixed_id :: "string \<Rightarrow> string \<Rightarrow> (string, type_error) result" where
  "parse_prefixed_id prefix value =
     (if value = [] then Err Empty
      else (case strip_prefix prefix value of
          None \<Rightarrow> Err (InvalidPrefix prefix)
        | Some content \<Rightarrow>
            if content = [] then Err Empty
            else if \<not> is_valid_id_content content
                 \<or> claimed_by_longer_registered_prefix value prefix
                 \<or> content_starts_with_registered_prefix content
            then Err InvalidCharacters
            else if MAX_ID_CONTENT_LEN < char_count content then Err (TooLong MAX_ID_CONTENT_LEN)
            else Ok value))"

definition parse_plain_id :: "nat \<Rightarrow> string \<Rightarrow> (string, type_error) result" where
  "parse_plain_id max_len value =
     (if value = [] then Err Empty
      else if \<not> is_valid_id_content value then Err InvalidCharacters
      else if max_len < char_count value then Err (TooLong max_len)
      else Ok value)"

abbreviation parse_session_id :: "string \<Rightarrow> (session_id, type_error) result" where
  "parse_session_id \<equiv> parse_prefixed_id ''sess_''"

abbreviation parse_commit_id :: "string \<Rightarrow> (commit_id, type_error) result" where
  "parse_commit_id \<equiv> parse_prefixed_id ''cmt_''"

abbreviation parse_object_id :: "string \<Rightarrow> (object_id, type_error) result" where
  "parse_object_id \<equiv> parse_prefixed_id ''obj_''"

abbreviation parse_audit_event_id :: "string \<Rightarrow> (string, type_error) result" where
  "parse_audit_event_id \<equiv> parse_prefixed_id ''aud_''"

section \<open>Names\<close>

definition is_forbidden_control_char :: "nat \<Rightarrow> bool" where
  "is_forbidden_control_char c \<longleftrightarrow> c < 32 \<or> c = 127"

definition is_variable_head :: "char \<Rightarrow> bool" where
  "is_variable_head c \<longleftrightarrow> is_ascii_uppercase c \<or> c = CHR ''_''"

definition parse_variable_name :: "string \<Rightarrow> (variable_name, type_error) result" where
  "parse_variable_name value =
     (case value of
        [] \<Rightarrow> Err Empty
      | c # cs \<Rightarrow>
          if \<not> is_variable_head c then Err InvalidCharacters
          else if \<not> list_all (\<lambda>c. is_ascii_uppercase c \<or> is_ascii_digit c \<or> c = CHR ''_'') cs
          then Err InvalidCharacters
          else if 128 < char_count value then Err (TooLong 128)
          else Ok value)"

definition parse_provider_name :: "string \<Rightarrow> (string, type_error) result" where
  "parse_provider_name value =
     (if value = [] then Err Empty
      else if \<not> list_all (\<lambda>c. is_ascii_lowercase c \<or> is_ascii_digit c \<or> c = CHR ''-'') value
      then Err InvalidCharacters
      else if 64 < char_count value then Err (TooLong 64)
      else Ok value)"

definition parse_policy_name :: "string \<Rightarrow> (policy_name, type_error) result" where
  "parse_policy_name value =
     (if \<not> is_valid_id_content value
      then (if value = [] then Err Empty else Err InvalidCharacters)
      else if 128 < char_count value then Err (TooLong 128)
      else Ok value)"

definition parse_branch_ref :: "string \<Rightarrow> (string, type_error) result" where
  "parse_branch_ref value =
     (if value = [] then Err Empty
      else if starts_with ''/'' value \<or> ends_with ''/'' value \<or> contains_str ''//'' value
      then Err InvalidCharacters
      else if contains_str ''..'' value \<or> any_char is_forbidden_control_char value
      then Err InvalidCharacters
      else if 255 < length value then Err (TooLong 255)
      else Ok value)"

definition parse_identity_ref :: "string \<Rightarrow> (string, type_error) result" where
  "parse_identity_ref value =
     (if value = [] then Err Empty
      else if any_char is_forbidden_control_char value then Err InvalidCharacters
      else if 255 < char_count value then Err (TooLong 255)
      else Ok value)"

section \<open>Facts about the grammars\<close>

lemma is_id_char_ascii: "list_all is_id_char s \<Longrightarrow> is_ascii s"
  by (induction s)
     (auto simp: is_id_char_def is_ascii_def is_ascii_byte_def is_ascii_lowercase_def is_ascii_digit_def)

lemma parse_prefixed_id_Ok_iff:
  "parse_prefixed_id prefix value = Ok v \<longleftrightarrow>
     v = value \<and> value \<noteq> []
     \<and> (\<exists>content. value = prefix @ content \<and> is_valid_id_content content
          \<and> \<not> claimed_by_longer_registered_prefix value prefix
          \<and> \<not> content_starts_with_registered_prefix content
          \<and> length content \<le> MAX_ID_CONTENT_LEN)"
  by (auto simp: parse_prefixed_id_def strip_prefix_Some_iff is_valid_id_content_def
      char_count_ascii is_id_char_ascii split: option.splits if_splits)

lemma parse_prefixed_id_id: "parse_prefixed_id prefix value = Ok v \<Longrightarrow> v = value"
  by (simp add: parse_prefixed_id_Ok_iff)

lemma append_eq_prefix:
  assumes "p @ a = q @ b" "length p \<le> length q"
  shows "\<exists>r. q = p @ r"
  using assms by (auto simp: append_eq_append_conv2)

lemma families_disjoint_aux:
  assumes "q \<in> set ID_PREFIXES" "p \<noteq> q" "length p \<le> length q"
    and "parse_prefixed_id p value = Ok v"
  shows "parse_prefixed_id q value \<noteq> Ok w"
proof
  assume "parse_prefixed_id q value = Ok w"
  then obtain b where b: "value = q @ b" by (auto simp: parse_prefixed_id_Ok_iff)
  from assms(4) obtain a where a: "value = p @ a"
    and nc: "\<not> claimed_by_longer_registered_prefix value p"
    by (auto simp: parse_prefixed_id_Ok_iff)
  obtain r where "q = p @ r" using append_eq_prefix [of p a q b] a b assms(3) by auto
  then have "length p < length q" using assms(2) by (cases r) auto
  with b assms(1) have "claimed_by_longer_registered_prefix value p"
    by (auto simp: claimed_by_longer_registered_prefix_def list_ex_iff starts_with_iff)
  with nc show False ..
qed

lemma parse_branch_ref_Ok_iff:
  "parse_branch_ref value = Ok v \<longleftrightarrow>
     v = value \<and> value \<noteq> [] \<and> \<not> starts_with ''/'' value \<and> \<not> ends_with ''/'' value
     \<and> \<not> contains_str ''//'' value \<and> \<not> contains_str ''..'' value
     \<and> \<not> any_char is_forbidden_control_char value \<and> length value \<le> 255"
  by (auto simp: parse_branch_ref_def)

section \<open>Properties\<close>

text \<open>
  An identifier string belongs to at most one registered family: parsing it with the prefix of one
  family excludes every other one, including the nested pair \<open>sec_\<close> and \<open>sec_rev_\<close>.
\<close>

lemma id_families_disjoint:
  assumes "p \<in> set ID_PREFIXES" "q \<in> set ID_PREFIXES" "p \<noteq> q"
    and "is_ok (parse_prefixed_id p value)"
  shows "\<not> is_ok (parse_prefixed_id q value)"
proof -
  from assms(4) obtain v where v: "parse_prefixed_id p value = Ok v" by (auto simp: is_ok_iff)
  show ?thesis
  proof (cases "length p \<le> length q")
    case True
    from families_disjoint_aux [OF assms(2,3) True v] show ?thesis by (auto simp: is_ok_iff)
  next
    case False
    with families_disjoint_aux [OF assms(1), of q "value"] assms(3) v show ?thesis
      by (auto simp: is_ok_iff)
  qed
qed

lemma id_families_disjoint_witness:
  "is_ok (parse_prefixed_id ''sec_rev_'' ''sec_rev_01'')
   \<and> \<not> is_ok (parse_prefixed_id ''sec_'' ''sec_rev_01'')"
proof -
  have "is_ok (parse_prefixed_id ''sec_rev_'' ''sec_rev_01'')" by code_simp
  with id_families_disjoint [of "''sec_rev_''" "''sec_''" "''sec_rev_01''"]
  show ?thesis by (simp add: ID_PREFIXES_def)
qed

end
