(* ===== verification/Net_Policy.thy ===== *)
theory Net_Policy
  imports Ids
begin

unbundle bit_operations_syntax

text \<open>
  \<open>vaultx-http/src/netpolicy.rs\<close>: classification of IP addresses and the egress guard.

  Addresses are the octets and segments the standard library hands out.  The textual address
  parser of \<open>std::net\<close>, which \<open>EgressGuard::check_host\<close> and the URL canonicalizer call, is
  modelled as the recursive-descent parser it is: decimal octets without leading zeros, groups of
  at most four hexadecimal digits, one \<open>::\<close> and an optional trailing dotted IPv4 part.
\<close>

section \<open>Addresses\<close>

datatype ipv4 = Ipv4 u8 u8 u8 u8

datatype ipv6 = Ipv6 u16 u16 u16 u16 u16 u16 u16 u16

datatype ip_addr = V4 ipv4 | V6 ipv6

fun octet_hi :: "u16 \<Rightarrow> u8" where
  "octet_hi s = ucast (drop_bit 8 s)"

fun octet_lo :: "u16 \<Rightarrow> u8" where
  "octet_lo s = ucast s"

text \<open>\<open>Ipv6Addr::to_ipv4_mapped\<close>: the last four octets of an address in \<open>::ffff:0:0/96\<close>.\<close>

fun to_ipv4_mapped :: "ipv6 \<Rightarrow> ipv4 option" where
  "to_ipv4_mapped (Ipv6 a b c d e f g h) =
     (if [a, b, c, d, e, f] = [0, 0, 0, 0, 0, 0xffff]
      then Some (Ipv4 (octet_hi g) (octet_lo g) (octet_hi h) (octet_lo h)) else None)"

section \<open>The address parser of \<open>std::net\<close>\<close>

definition to_digit :: "nat \<Rightarrow> char \<Rightarrow> nat option" where
  "to_digit radix c =
     (let d = (if is_ascii_digit c then Some (byte_of c - 48)
               else if is_ascii_lowercase c then Some (byte_of c - 87)
               else if is_ascii_uppercase c then Some (byte_of c - 55)
               else None)
      in case d of None \<Rightarrow> None | Some v \<Rightarrow> if v < radix then Some v else None)"

text \<open>Digits in a radix; the bound is the largest value of the integer type being read.\<close>

fun read_digits :: "nat \<Rightarrow> int \<Rightarrow> nat \<Rightarrow> nat \<Rightarrow> nat \<Rightarrow> string \<Rightarrow> (nat \<times> nat \<times> string) option" where
  "read_digits radix max_val max_digits count acc [] = Some (acc, count, [])"
| "read_digits radix max_val max_digits count acc (c # cs) =
     (case to_digit radix c of
        None \<Rightarrow> Some (acc, count, c # cs)
      | Some d \<Rightarrow>
          if max_val < int (acc * radix + d) \<or> max_digits < count + 1 then None
          else read_digits radix max_val max_digits (count + 1) (acc * radix + d) cs)"

definition read_number :: "nat \<Rightarrow> int \<Rightarrow> nat \<Rightarrow> bool \<Rightarrow> string \<Rightarrow> (nat \<times> string) option" where
  "read_number radix max_val max_digits allow_zero_prefix s =
     (case read_digits radix max_val max_digits 0 0 s of
        None \<Rightarrow> None
      | Some (v, n, rest) \<Rightarrow>
          if n = 0 then None
          else if \<not> allow_zero_prefix \<and> starts_with ''0'' s \<and> 1 < n then None
          else Some (v, rest))"

definition read_separator :: "char \<Rightarrow> bool \<Rightarrow> (string \<Rightarrow> 'a option) \<Rightarrow> string \<Rightarrow> 'a option" where
  "read_separator sep needed p s =
     (if needed then (case s of c # cs \<Rightarrow> if c = sep then p cs else None | [] \<Rightarrow> None) else p s)"

definition read_octet :: "bool \<Rightarrow> string \<Rightarrow> (nat \<times> string) option" where
  "read_octet needed = read_separator (CHR ''.'') needed (read_number 10 255 3 False)"

definition read_ipv4_addr :: "string \<Rightarrow> (ipv4 \<times> string) option" where
  "read_ipv4_addr s0 =
     (case read_octet False s0 of None \<Rightarrow> None | Some (a, s1) \<Rightarrow>
      (case read_octet True s1 of None \<Rightarrow> None | Some (b, s2) \<Rightarrow>
       (case read_octet True s2 of None \<Rightarrow> None | Some (c, s3) \<Rightarrow>
        (case read_octet True s3 of None \<Rightarrow> None | Some (d, s4) \<Rightarrow>
          Some (Ipv4 (of_nat a) (of_nat b) (of_nat c) (of_nat d), s4)))))"

definition join_octets :: "u8 \<Rightarrow> u8 \<Rightarrow> u16" where
  "join_octets hi lo = push_bit 8 (ucast hi) OR ucast lo"

fun read_groups :: "nat \<Rightarrow> bool \<Rightarrow> string \<Rightarrow> u16 list \<times> bool \<times> string" where
  "read_groups 0 needed s = ([], False, s)"
| "read_groups (Suc n) needed s =
     (case (if n = 0 then None else read_separator (CHR '':'') needed read_ipv4_addr s) of
        Some (Ipv4 a b c d, rest) \<Rightarrow> ([join_octets a b, join_octets c d], True, rest)
      | None \<Rightarrow>
          (case read_separator (CHR '':'') needed (read_number 16 65535 4 True) s of
             Some (g, rest) \<Rightarrow>
               (let (gs, v4, rest') = read_groups n True rest in (of_nat g # gs, v4, rest'))
           | None \<Rightarrow> ([], False, s)))"

fun ipv6_of_groups :: "u16 list \<Rightarrow> ipv6 option" where
  "ipv6_of_groups [a, b, c, d, e, f, g, h] = Some (Ipv6 a b c d e f g h)"
| "ipv6_of_groups _ = None"

definition read_ipv6_addr :: "string \<Rightarrow> (ipv6 \<times> string) option" where
  "read_ipv6_addr s =
     (let (head, head_v4, rest) = read_groups 8 False s
      in if length head = 8 then map_option (\<lambda>ip. (ip, rest)) (ipv6_of_groups head)
         else if head_v4 then None
         else (case strip_prefix ''::'' rest of
             None \<Rightarrow> None
           | Some rest' \<Rightarrow>
               (let (tail, _, rest'') = read_groups (8 - (length head + 1)) False rest';
                    zeros = replicate (8 - (length head + length tail)) 0
                in map_option (\<lambda>ip. (ip, rest'')) (ipv6_of_groups (head @ zeros @ tail)))))"

definition parse_ipv6 :: "string \<Rightarrow> ipv6 option" where
  "parse_ipv6 s = (case read_ipv6_addr s of Some (ip, []) \<Rightarrow> Some ip | _ \<Rightarrow> None)"

definition parse_ip :: "string \<Rightarrow> ip_addr option" where
  "parse_ip s =
     (case read_ipv4_addr s of
        Some (ip, rest) \<Rightarrow> if rest = [] then Some (V4 ip) else None
      | None \<Rightarrow> map_option V6 (parse_ipv6 s))"

text \<open>\<open>Display\<close> of an IPv4 address.\<close>

fun show_ipv4 :: "ipv4 \<Rightarrow> string" where
  "show_ipv4 (Ipv4 a b c d) =
     join_with ''.'' [dec_of_nat (unat a), dec_of_nat (unat b), dec_of_nat (unat c), dec_of_nat (unat d)]"

section \<open>Classification\<close>

datatype classification =
    Loopback | LinkLocal | Private | Multicast | Unspecified | MetadataService | Global

fun show_classification :: "classification \<Rightarrow> string" where
  "show_classification Loopback = ''loopback''"
| "show_classification LinkLocal = ''link-local''"
| "show_classification Private = ''private''"
| "show_classification Multicast = ''multicast''"
| "show_classification Unspecified = ''unspecified''"
| "show_classification MetadataService = ''metadata-service''"
| "show_classification Global = ''global''"

definition METADATA_V4_1 :: ipv4 where
  "METADATA_V4_1 = Ipv4 169 254 169 254"

definition METADATA_V4_2 :: ipv4 where
  "METADATA_V4_2 = Ipv4 169 254 170 2"

definition classify_v4 :: "ipv4 \<Rightarrow> classification" where
  "classify_v4 v4 =
     (case v4 of Ipv4 o0 o1 o2 o3 \<Rightarrow>
        if v4 = METADATA_V4_1 \<or> v4 = METADATA_V4_2 then MetadataService
        else if o0 = 127 then Loopback
        else if o0 = 169 \<and> o1 = 254 then LinkLocal
        else if o0 = 0 then Unspecified
        else if o0 = 10 \<or> o0 = 172 \<and> 0x10 \<le> o1 \<and> o1 \<le> 0x1f \<or> o0 = 192 \<and> o1 = 168
                \<or> o0 = 100 \<and> o1 AND 0xc0 = 0x40
        then Private
        else if o0 = 192 \<and> o1 = 0 \<and> o2 = 0 then Private
        else if o0 = 198 \<and> (o1 = 18 \<or> o1 = 19) then Private
        else if o0 AND 0xf0 = 0xe0 then Multicast
        else Global)"

definition classify_ip :: "ip_addr \<Rightarrow> classification" where
  "classify_ip ip =
     (case ip of
        V4 v4 \<Rightarrow> classify_v4 v4
      | V6 v6 \<Rightarrow>
          (case to_ipv4_mapped v6 of
             Some v4 \<Rightarrow> classify_v4 v4
           | None \<Rightarrow>
               (case v6 of Ipv6 a b c d e f g h \<Rightarrow>
                  if [a, b, c, d, e, f] = [0x0064, 0xff9b, 0, 0, 0, 0]
                  then classify_v4 (Ipv4 (octet_hi g) (octet_lo g) (octet_hi h) (octet_lo h))
                  else if v6 = Ipv6 0 0 0 0 0 0 0 1 then Loopback
                  else if v6 = Ipv6 0 0 0 0 0 0 0 0 then Unspecified
                  else if v6 = Ipv6 0xfd00 0x0ec2 0 0 0 0 0 0x254 then MetadataService
                  else if 0xfe80 \<le> a \<and> a \<le> 0xfebf then LinkLocal
                  else if a AND 0xfe00 = 0xfc00 then Private
                  else if a AND 0xff00 = 0xff00 then Multicast
                  else Global)))"

fun is_egress_allowed :: "classification \<Rightarrow> bool \<Rightarrow> bool" where
  "is_egress_allowed Global allow_private = True"
| "is_egress_allowed MetadataService allow_private = False"
| "is_egress_allowed _ allow_private = allow_private"

section \<open>The egress guard\<close>

record egress_guard =
  allow_private :: bool

text \<open>\<open>HttpPolicyError\<close>, the error type of the crate.\<close>

datatype http_policy_error =
    InvalidUrl string
  | UnsupportedScheme string
  | UserInfoDisallowed
  | InsecureSchemeDisallowed
  | InvalidPort string
  | PrivateDestination classification
  | DisallowedHeader string
  | RedirectDenied string
  | HttpBodyTooLarge u64 u64
  | HttpResponseTooLarge u64 u64
  | InvalidHeaderValue string

definition ensure_allowed :: "egress_guard \<Rightarrow> classification \<Rightarrow> (unit, http_policy_error) result" where
  "ensure_allowed g class =
     (if is_egress_allowed class (allow_private g) then Ok () else Err (PrivateDestination class))"

definition unbracket :: "string \<Rightarrow> string" where
  "unbracket host =
     (case strip_prefix ''['' host of
        None \<Rightarrow> host
      | Some h \<Rightarrow> (case strip_suffix '']'' h of None \<Rightarrow> host | Some inner \<Rightarrow> inner))"

definition check_host :: "egress_guard \<Rightarrow> string \<Rightarrow> (classification, http_policy_error) result" where
  "check_host g host =
     (case parse_ip (unbracket host) of
        Some ip \<Rightarrow>
          (case ensure_allowed g (classify_ip ip) of
             Ok _ \<Rightarrow> Ok (classify_ip ip) | Err e \<Rightarrow> Err e)
      | None \<Rightarrow> Ok Global)"

definition recheck_resolved :: "egress_guard \<Rightarrow> ip_addr list \<Rightarrow> (unit, http_policy_error) result" where
  "recheck_resolved g ips = try_each (\<lambda>ip. ensure_allowed g (classify_ip ip)) ips"

section \<open>Reference definitions\<close>

text \<open>The reserved IPv4 blocks in CIDR form, in the order in which they are consulted.\<close>

fun addr_nat :: "ipv4 \<Rightarrow> nat" where
  "addr_nat (Ipv4 a b c d) = ((unat a * 256 + unat b) * 256 + unat c) * 256 + unat d"

definition in_cidr :: "ipv4 \<Rightarrow> nat \<Rightarrow> ipv4 \<Rightarrow> bool" where
  "in_cidr base len ip \<longleftrightarrow> addr_nat ip div 2 ^ (32 - len) = addr_nat base div 2 ^ (32 - len)"

definition RESERVED_BLOCKS :: "(ipv4 \<times> nat \<times> classification) list" where
  "RESERVED_BLOCKS =
     [(METADATA_V4_1, 32, MetadataService), (METADATA_V4_2, 32, MetadataService),
      (Ipv4 127 0 0 0, 8, Loopback), (Ipv4 169 254 0 0, 16, LinkLocal),
      (Ipv4 0 0 0 0, 8, Unspecified), (Ipv4 10 0 0 0, 8, Private), (Ipv4 172 16 0 0, 12, Private),
      (Ipv4 192 168 0 0, 16, Private), (Ipv4 100 64 0 0, 10, Private),
      (Ipv4 192 0 0 0, 24, Private), (Ipv4 198 18 0 0, 15, Private),
      (Ipv4 224 0 0 0, 4, Multicast)]"

definition classify_by_blocks :: "ipv4 \<Rightarrow> classification" where
  "classify_by_blocks ip =
     (case find (\<lambda>(base, len, _). in_cidr base len ip) RESERVED_BLOCKS of
        Some (_, _, class) \<Rightarrow> class | None \<Rightarrow> Global)"


text \<open>The IPv4-mapped (\<open>::ffff:0:0/96\<close>) and NAT64 (\<open>64:ff9b::/96\<close>) spellings of an IPv4 address.\<close>

fun mapped_of :: "ipv4 \<Rightarrow> ipv6" where
  "mapped_of (Ipv4 a b c d) = Ipv6 0 0 0 0 0 0xffff (join_octets a b) (join_octets c d)"

fun nat64_of :: "ipv4 \<Rightarrow> ipv6" where
  "nat64_of (Ipv4 a b c d) = Ipv6 0x64 0xff9b 0 0 0 0 (join_octets a b) (join_octets c d)"

definition no_digit :: "string \<Rightarrow> bool" where
  "no_digit s \<longleftrightarrow> (case s of [] \<Rightarrow> True | c # _ \<Rightarrow> to_digit 10 c = None)"

section \<open>Lemmas: the guard and the address parser\<close>

lemma unat_u8_less: "unat (a :: u8) < 256"
  using unsigned_less [of a, where 'a=nat] by simp

lemma ensure_allowed_Ok [simp]:
  "ensure_allowed g c = Ok u \<longleftrightarrow> is_egress_allowed c (allow_private g)"
  by (simp add: ensure_allowed_def)

lemma is_egress_allowed_iff:
  "is_egress_allowed c p \<longleftrightarrow> c = Global \<or> c \<noteq> MetadataService \<and> p"
  by (cases c) auto

lemma recheck_resolved_Ok_iff:
  "recheck_resolved g ips = Ok () \<longleftrightarrow>
     (\<forall>ip \<in> set ips. is_egress_allowed (classify_ip ip) (allow_private g))"
  by (simp add: recheck_resolved_def try_each_Ok_iff)

text \<open>Round trip of a decimal octet.\<close>

lemma to_digit_digit_char: "d < 10 \<Longrightarrow> to_digit 10 (digit_char d) = Some d"
  by (simp add: to_digit_def is_ascii_digit_def)

lemma digit_char_0: "0 < n \<Longrightarrow> n < 10 \<Longrightarrow> digit_char n \<noteq> CHR ''0''"
proof
  assume "0 < n" "n < 10" "digit_char n = CHR ''0''"
  then have "byte_of (digit_char n) = (48 :: nat)" by simp
  with \<open>0 < n\<close> \<open>n < 10\<close> show False by simp
qed

lemma dec_of_nat_1: "n < 10 \<Longrightarrow> dec_of_nat n = [digit_char n]"
  by (simp add: dec_of_nat.simps)

lemma dec_of_nat_2: "10 \<le> n \<Longrightarrow> n < 100 \<Longrightarrow> dec_of_nat n = [digit_char (n div 10), digit_char (n mod 10)]"
  by (subst dec_of_nat.simps) (simp add: dec_of_nat_1)

lemma dec_of_nat_3:
  "100 \<le> n \<Longrightarrow> n < 1000 \<Longrightarrow>
     dec_of_nat n = [digit_char (n div 100), digit_char (n div 10 mod 10), digit_char (n mod 10)]"
  by (subst dec_of_nat.simps) (simp add: dec_of_nat_2 div_mult2_eq [symmetric])

lemma read_digits_stop: "no_digit rest \<Longrightarrow> read_digits 10 mv md n acc rest = Some (acc, n, rest)"
  by (cases rest) (auto simp: no_digit_def)

lemma read_digits_step:
  "d < 10 \<Longrightarrow> int (acc * 10 + d) \<le> mv \<Longrightarrow> n < md \<Longrightarrow>
     read_digits 10 mv md n acc (digit_char d # cs) = read_digits 10 mv md (n + 1) (acc * 10 + d) cs"
  by (simp add: to_digit_digit_char del: digit_char.simps)

lemma read_number_dec:
  assumes "n < 256" "no_digit rest"
  shows "read_number 10 255 3 False (dec_of_nat n @ rest) = Some (n, rest)"
proof -
  note rd = read_digits_step read_digits_stop [OF assms(2)]
  consider "n < 10" | "10 \<le> n" "n < 100" | "100 \<le> n" "n < 1000" using assms(1) by linarith
  then show ?thesis
  proof cases
    case 1
    then show ?thesis by (simp add: dec_of_nat_1 read_number_def rd del: digit_char.simps read_digits.simps)
  next
    case 2
    define a b where "a = n div 10" and "b = n mod 10"
    have n: "n = a * 10 + b" and b: "b < 10" and a: "0 < a" "a < 10"
      using 2 by (auto simp: a_def b_def)
    have "dec_of_nat n = [digit_char a, digit_char b]" using 2 by (simp add: dec_of_nat_2 a_def b_def)
    moreover have "digit_char a \<noteq> CHR ''0''" using a by (rule digit_char_0)
    ultimately show ?thesis using n a b
      by (simp add: read_number_def rd starts_with_def del: digit_char.simps read_digits.simps)
  next
    case 3
    define a b c where "a = n div 100" and "b = n div 10 mod 10" and "c = n mod 10"
    have n: "n = (a * 10 + b) * 10 + c" using div_mod_decomp [of n 10] div_mod_decomp [of "n div 10" 10]
      by (simp add: a_def b_def c_def div_mult2_eq [symmetric])
    have le: "(a * 10 + b) * 10 + c \<le> 255" using n assms(1) by simp
    have bc: "b < 10" "c < 10" by (auto simp: b_def c_def)
    have a: "0 < a" "a < 10" using 3 by (simp_all add: a_def div_greater_zero_iff less_mult_imp_div_less)
    have dig: "dec_of_nat n = [digit_char a, digit_char b, digit_char c]"
      unfolding a_def b_def c_def using 3 by (rule dec_of_nat_3)
    have "read_digits 10 255 3 0 0 (dec_of_nat n @ rest) = Some (n, 3, rest)"
      using read_digits_step [of a 0 255 0 3 "digit_char b # digit_char c # rest"]
        read_digits_step [of b a 255 1 3 "digit_char c # rest"]
        read_digits_step [of c "a * 10 + b" 255 2 3 rest] le a bc
      unfolding dig by (simp add: n numeral_2_eq_2 [symmetric] read_digits_stop [OF assms(2)]
          del: digit_char.simps read_digits.simps)
    moreover have "digit_char a \<noteq> CHR ''0''" using a by (rule digit_char_0)
    ultimately show ?thesis
      by (simp add: read_number_def starts_with_def dig del: digit_char.simps read_digits.simps)
  qed
qed

lemma no_digit_simps [simp]: "no_digit []" "no_digit (CHR ''.'' # s)"
  by (simp_all add: no_digit_def to_digit_def str_simps)

lemma read_octet_dec:
  assumes "no_digit rest"
  shows "read_octet False (dec_of_nat (unat (a :: u8)) @ rest) = Some (unat a, rest)"
    and "read_octet True (CHR ''.'' # dec_of_nat (unat a) @ rest) = Some (unat a, rest)"
  using read_number_dec [OF unat_u8_less assms] by (simp_all add: read_octet_def read_separator_def)

lemma parse_ip_show_ipv4: "parse_ip (show_ipv4 a) = Some (V4 a)"
proof (cases a)
  case (Ipv4 w x y z)
  have "read_octet True (CHR ''.'' # dec_of_nat (unat z)) = Some (unat z, [])"
    using read_octet_dec(2) [of "[]" z] by simp
  then have "read_ipv4_addr (show_ipv4 a) = Some (a, [])"
    by (simp add: Ipv4 read_ipv4_addr_def read_octet_dec)
  then show ?thesis by (simp add: parse_ip_def)
qed


section \<open>Lemmas: the reserved blocks\<close>

lemma all_u8: "(\<forall>w :: u8. P w) \<longleftrightarrow> list_all (\<lambda>n. P (word_of_nat n)) [0..<256]"
proof
  assume *: "list_all (\<lambda>n. P (word_of_nat n)) [0..<256]"
  show "\<forall>w :: u8. P w"
  proof
    fix w :: u8
    have "unat w < 256" using unsigned_less [of w, where 'a=nat] by simp
    with * have "P (word_of_nat (unat w))"
      unfolding list_all_iff by (metis atLeastLessThan_iff le0 set_upt)
    then show "P w" by simp
  qed
qed (simp add: list_all_iff)

lemma mask_c0: "(w :: u8) AND 0xc0 = 0x40 \<longleftrightarrow> unat w div 64 = 1"
proof -
  have "\<forall>w :: u8. w AND 0xc0 = 0x40 \<longleftrightarrow> unat w div 64 = 1"
    unfolding all_u8 by code_simp
  then show ?thesis by blast
qed

lemma mask_f0: "(w :: u8) AND 0xf0 = 0xe0 \<longleftrightarrow> unat w div 16 = 14"
proof -
  have "\<forall>w :: u8. w AND 0xf0 = 0xe0 \<longleftrightarrow> unat w div 16 = 14"
    unfolding all_u8 by code_simp
  then show ?thesis by blast
qed

lemma div_peel: "d < 256 \<Longrightarrow> (x * 256 + d) div 256 = (x :: nat)"
  by simp

lemma addr_div:
  assumes "a < 256" "b < 256" "c < 256" "d < (256::nat)"
  defines "n \<equiv> ((a * 256 + b) * 256 + c) * 256 + d"
  shows "n div 256 = (a * 256 + b) * 256 + c" "n div 65536 = a * 256 + b" "n div 16777216 = a"
proof -
  show 1: "n div 256 = (a * 256 + b) * 256 + c" using assms by (simp add: n_def)
  have "n div 65536 = n div 256 div 256" by (simp add: div_mult2_eq [symmetric])
  also have "\<dots> = a * 256 + b" using assms(3) by (simp only: 1 div_peel)
  finally show 2: "n div 65536 = a * 256 + b" .
  have "n div 16777216 = n div 65536 div 256" by (simp add: div_mult2_eq [symmetric])
  also have "\<dots> = a" using assms(2) by (simp only: 2 div_peel)
  finally show "n div 16777216 = a" .
qed

lemma addr_nat_inj: "addr_nat x = addr_nat y \<longleftrightarrow> x = y"
proof (cases x; cases y)
  fix a b c d a' b' c' d' :: u8
  assume xy: "x = Ipv4 a b c d" "y = Ipv4 a' b' c' d'"
  have lt: "unat w < 256" for w :: u8 using unsigned_less [of w, where 'a=nat] by simp
  note div = addr_div [OF lt lt lt lt]
  show ?thesis
  proof
    assume eq: "addr_nat x = addr_nat y"
    have "unat a = unat a'" using arg_cong [OF eq, of "\<lambda>n. n div 16777216"] by (simp only: xy addr_nat.simps div)
    moreover from this have "unat b = unat b'"
      using arg_cong [OF eq, of "\<lambda>n. n div 65536"] by (simp only: xy addr_nat.simps div)
    moreover from calculation have "unat c = unat c'"
      using arg_cong [OF eq, of "\<lambda>n. n div 256"] by (simp only: xy addr_nat.simps div)
    moreover from calculation have "unat d = unat d'" using eq by (simp add: xy)
    ultimately show "x = y" by (simp add: xy word_unat_eq_iff)
  qed simp
qed

lemma in_cidr_32: "in_cidr base 32 ip \<longleftrightarrow> ip = base"
  by (simp add: in_cidr_def addr_nat_inj)

lemma scaled_pair:
  "z < k \<Longrightarrow> r < k \<Longrightarrow> x * k + z = p * k + r \<longleftrightarrow> x = p \<and> z = (r :: nat)"
  by (metis div_mult_self3 div_less add_0_right mod_mult_self3 mod_less not_less_zero)

lemma addr_nat_div:
  "addr_nat (Ipv4 x y z w) div 256 = (unat x * 256 + unat y) * 256 + unat z"
  "addr_nat (Ipv4 x y z w) div 65536 = unat x * 256 + unat y"
  "addr_nat (Ipv4 x y z w) div 16777216 = unat x"
  unfolding addr_nat.simps by (rule addr_div [OF unat_u8_less unat_u8_less unat_u8_less unat_u8_less])+

lemma addr_nat_div_block:
  "addr_nat (Ipv4 x y z w) div 1048576 = unat x * 16 + unat y div 16"
  "addr_nat (Ipv4 x y z w) div 4194304 = unat x * 4 + unat y div 64"
  "addr_nat (Ipv4 x y z w) div 131072 = unat x * 128 + unat y div 2"
  "addr_nat (Ipv4 x y z w) div 268435456 = unat x div 16"
proof -
  have "n div 1048576 = n div 65536 div 16" "n div 4194304 = n div 65536 div 64"
    "n div 131072 = n div 65536 div 2" "n div 268435456 = n div 16777216 div 16" for n :: nat
    by (simp_all add: div_mult2_eq [symmetric])
  then show "addr_nat (Ipv4 x y z w) div 1048576 = unat x * 16 + unat y div 16"
    "addr_nat (Ipv4 x y z w) div 4194304 = unat x * 4 + unat y div 64"
    "addr_nat (Ipv4 x y z w) div 131072 = unat x * 128 + unat y div 2"
    "addr_nat (Ipv4 x y z w) div 268435456 = unat x div 16"
    by (simp_all add: addr_nat_div del: addr_nat.simps)
qed

lemma in_cidr_blocks:
  fixes a b c d :: u8
  shows "in_cidr (Ipv4 p 0 0 0) 8 (Ipv4 a b c d) \<longleftrightarrow> a = p"
    and "in_cidr (Ipv4 p q 0 0) 16 (Ipv4 a b c d) \<longleftrightarrow> a = p \<and> b = q"
    and "in_cidr (Ipv4 192 0 0 0) 24 (Ipv4 a b c d) \<longleftrightarrow> a = 192 \<and> b = 0 \<and> c = 0"
    and "in_cidr (Ipv4 172 16 0 0) 12 (Ipv4 a b c d) \<longleftrightarrow> a = 172 \<and> 0x10 \<le> b \<and> b \<le> 0x1f"
    and "in_cidr (Ipv4 100 64 0 0) 10 (Ipv4 a b c d) \<longleftrightarrow> a = 100 \<and> b AND 0xc0 = 0x40"
    and "in_cidr (Ipv4 198 18 0 0) 15 (Ipv4 a b c d) \<longleftrightarrow> a = 198 \<and> (b = 18 \<or> b = 19)"
    and "in_cidr (Ipv4 224 0 0 0) 4 (Ipv4 a b c d) \<longleftrightarrow> a AND 0xf0 = 0xe0"
proof -
  have eq: "v = 0 \<longleftrightarrow> unat v = 0" "v = 192 \<longleftrightarrow> unat v = 192" "v = 172 \<longleftrightarrow> unat v = 172"
    "v = 100 \<longleftrightarrow> unat v = 100" "v = 198 \<longleftrightarrow> unat v = 198" "v = 18 \<longleftrightarrow> unat v = 18"
    "v = 19 \<longleftrightarrow> unat v = 19" for v :: u8
    by (simp_all add: word_unat_eq_iff)
  note cidr = in_cidr_def addr_nat_div addr_nat_div_block and sp = scaled_pair [OF unat_u8_less]
  have lt: "unat b div 16 < 16" "unat b div 64 < 4" "unat b div 2 < 128"
    using unat_u8_less [of b] by simp_all
  show "in_cidr (Ipv4 p 0 0 0) 8 (Ipv4 a b c d) \<longleftrightarrow> a = p"
    by (simp add: cidr word_unat_eq_iff del: addr_nat.simps)
  show "in_cidr (Ipv4 p q 0 0) 16 (Ipv4 a b c d) \<longleftrightarrow> a = p \<and> b = q"
    by (simp add: cidr sp unat_u8_less word_unat_eq_iff del: addr_nat.simps)
  show "in_cidr (Ipv4 192 0 0 0) 24 (Ipv4 a b c d) \<longleftrightarrow> a = 192 \<and> b = 0 \<and> c = 0"
    unfolding eq using sp [of 0 "unat a * 256 + unat b" c "192 * 256"] sp [of 0 "unat a" b 192]
    by (simp add: cidr del: addr_nat.simps)
  show "in_cidr (Ipv4 172 16 0 0) 12 (Ipv4 a b c d) \<longleftrightarrow> a = 172 \<and> 0x10 \<le> b \<and> b \<le> 0x1f"
    unfolding eq word_le_nat_alt using scaled_pair [OF lt(1), of 1 "unat a" 172]
    by (simp add: cidr del: addr_nat.simps) auto
  show "in_cidr (Ipv4 100 64 0 0) 10 (Ipv4 a b c d) \<longleftrightarrow> a = 100 \<and> b AND 0xc0 = 0x40"
    unfolding eq mask_c0 using scaled_pair [OF lt(2), of 1 "unat a" 100]
    by (simp add: cidr del: addr_nat.simps)
  show "in_cidr (Ipv4 198 18 0 0) 15 (Ipv4 a b c d) \<longleftrightarrow> a = 198 \<and> (b = 18 \<or> b = 19)"
    unfolding eq using scaled_pair [OF lt(3), of 9 "unat a" 198]
    by (simp add: cidr del: addr_nat.simps) auto
  show "in_cidr (Ipv4 224 0 0 0) 4 (Ipv4 a b c d) \<longleftrightarrow> a AND 0xf0 = 0xe0"
    unfolding mask_f0 by (simp add: cidr del: addr_nat.simps)
qed

lemma classify_v4_blocks: "classify_v4 ip = classify_by_blocks ip"
proof (cases ip)
  case (Ipv4 a b c d)
  show ?thesis
    unfolding Ipv4 classify_by_blocks_def RESERVED_BLOCKS_def find.simps prod.case in_cidr_32
      in_cidr_blocks classify_v4_def ipv4.case
    by (simp split: if_split) blast
qed

section \<open>Lemmas: embedded addresses\<close>

lemma octets_join [simp]: "octet_hi (join_octets a b) = a" "octet_lo (join_octets a b) = b"
proof -
  have "\<not> bit b (8 + n)" for n using bit_imp_le_length [of b "8 + n"] by auto
  then show "octet_hi (join_octets a b) = a" "octet_lo (join_octets a b) = b"
    by (auto simp: join_octets_def bit_simps intro!: bit_word_eqI)
qed

declare octet_hi.simps [simp del] octet_lo.simps [simp del]

lemma classify_ip_V4: "classify_ip (V4 a) = classify_v4 a"
  by (simp add: classify_ip_def)

lemma classify_ip_embedded:
  "classify_ip (V6 (mapped_of a)) = classify_v4 a" "classify_ip (V6 (nat64_of a)) = classify_v4 a"
  by (cases a; simp add: classify_ip_def)+

lemma classify_metadata:
  "classify_v4 METADATA_V4_1 = MetadataService" "classify_v4 METADATA_V4_2 = MetadataService"
  by (simp_all add: classify_v4_def METADATA_V4_1_def METADATA_V4_2_def)

lemma digit_char_not_bracket: "d < 10 \<Longrightarrow> digit_char d \<noteq> CHR ''[''"
proof
  assume "d < 10" "digit_char d = CHR ''[''"
  then have "byte_of (digit_char d) = (91 :: nat)" by simp
  with \<open>d < 10\<close> show False by simp
qed

lemma dec_of_nat_head: "\<exists>d ds. d < 10 \<and> dec_of_nat n = digit_char d # ds"
proof (induction n rule: dec_of_nat.induct)
  case (1 n)
  show ?case
  proof (cases "n < 10")
    case True
    then show ?thesis by (auto simp: dec_of_nat_1 simp del: digit_char.simps)
  next
    case False
    with 1 show ?thesis by (subst dec_of_nat.simps) (auto simp del: digit_char.simps)
  qed
qed

lemma unbracket_show_ipv4: "unbracket (show_ipv4 a) = show_ipv4 a"
proof (cases a)
  case (Ipv4 w x y z)
  obtain d ds where "d < 10" "dec_of_nat (unat w) = digit_char d # ds"
    using dec_of_nat_head by blast
  with digit_char_not_bracket [of d] show ?thesis
    by (simp add: Ipv4 unbracket_def del: digit_char.simps)
qed

section \<open>Properties\<close>

text \<open>
  The octet tests of \<open>classify_ip\<close> are the IANA block table: an IPv4 address, written plainly, as
  an IPv4-mapped IPv6 address or behind the NAT64 prefix, gets the class of the first reserved CIDR
  block that contains it, and \<open>Global\<close> when none does.
\<close>

lemma classify_ip_is_block_table:
  "classify_ip (V4 a) = classify_by_blocks a \<and> classify_ip (V6 (mapped_of a)) = classify_by_blocks a
   \<and> classify_ip (V6 (nat64_of a)) = classify_by_blocks a"
  by (simp add: classify_ip_embedded classify_ip_V4 classify_v4_blocks)



text \<open>
  The textual host check decides on the address the text denotes: for the dotted-decimal text of
  any IPv4 address, \<open>check_host\<close> parses back exactly that address and answers with its class,
  refusing it when the class is not allowed by the guard.
\<close>

lemma check_host_ipv4_literal:
  "check_host g (show_ipv4 a) =
     (if is_egress_allowed (classify_by_blocks a) (allow_private g) then Ok (classify_by_blocks a)
      else Err (PrivateDestination (classify_by_blocks a)))"
  by (simp add: check_host_def unbracket_show_ipv4 parse_ip_show_ipv4 classify_ip_def
      ensure_allowed_def classify_v4_blocks)

end
