(* ===== verification/Http_Controls.thy ===== *)
theory Http_Controls
  imports Net_Policy
begin

text \<open>
  \<open>vaultx-http\<close>: request header filtering (\<open>headers.rs\<close>), body size ceilings (\<open>limits.rs\<close>) and
  response sanitization (\<open>sanitize.rs\<close>).

  A JSON document is the \<open>serde_json::Value\<close> tree; the decoder and encoder of \<open>serde_json\<close> are the
  parameters \<open>from_slice\<close> and \<open>to_vec\<close> of \<open>redact_json_fields\<close>.
\<close>

section \<open>Request headers\<close>

type_synonym headers = "(string \<times> string) list"

definition SENSITIVE_REQUEST_HEADERS :: "string list" where
  "SENSITIVE_REQUEST_HEADERS =
     [''authorization'', ''proxy-authorization'', ''host'', ''connection'', ''transfer-encoding'',
      ''keep-alive'', ''upgrade'', ''te'', ''trailer'', ''expect'']"

definition TCHAR_MARKS :: string where
  "TCHAR_MARKS = ''!#$%&'' @ [CHR 0x27] @ ''*+-.^_'' @ [CHR 0x60] @ ''|~''"

definition is_tchar :: "char \<Rightarrow> bool" where
  "is_tchar c \<longleftrightarrow> is_ascii_alphanumeric c \<or> c \<in> set TCHAR_MARKS"

definition is_forbidden_value_byte :: "char \<Rightarrow> bool" where
  "is_forbidden_value_byte b \<longleftrightarrow> byte_of b < 32 \<and> byte_of b \<noteq> 9 \<or> byte_of b = 127"

definition validate_header_pair :: "string \<Rightarrow> string \<Rightarrow> (unit, http_policy_error) result" where
  "validate_header_pair name value =
     (if name = [] then Err (InvalidHeaderValue ''header name is empty'')
      else if \<not> list_all is_tchar name
      then Err (InvalidHeaderValue (''header name '' @ backquoted name
             @ '' contains characters outside the RFC 7230 token grammar''))
      else if list_ex is_forbidden_value_byte value
      then Err (InvalidHeaderValue (''header '' @ backquoted (to_ascii_lowercase name)
             @ '' value contains forbidden control characters (CR/LF/NUL/DEL)''))
      else Ok ())"

fun filter_request_headers :: "headers \<Rightarrow> headers \<times> string list" where
  "filter_request_headers [] = ([], [])"
| "filter_request_headers ((name, value) # rest) =
     (let lowered = to_ascii_lowercase name; (allowed, rejected) = filter_request_headers rest
      in if lowered \<in> set SENSITIVE_REQUEST_HEADERS then (allowed, lowered # rejected)
         else if is_ok (validate_header_pair lowered value) then ((lowered, value) # allowed, rejected)
         else (allowed, lowered # rejected))"

section \<open>Size limits\<close>

record size_limits =
  max_request_body_bytes :: u64
  max_response_body_bytes :: u64

definition default_size_limits :: size_limits where
  "default_size_limits =
     \<lparr>max_request_body_bytes = 256 * 1024, max_response_body_bytes = 1024 * 1024\<rparr>"

definition limits_check_request :: "size_limits \<Rightarrow> u64 \<Rightarrow> (unit, http_policy_error) result" where
  "limits_check_request l len =
     (if max_request_body_bytes l < len then Err (HttpBodyTooLarge len (max_request_body_bytes l))
      else Ok ())"

definition limits_check_response :: "size_limits \<Rightarrow> u64 \<Rightarrow> (unit, http_policy_error) result" where
  "limits_check_response l len =
     (if max_response_body_bytes l < len then Err (HttpResponseTooLarge len (max_response_body_bytes l))
      else Ok ())"

section \<open>Response sanitization\<close>

definition REDACTED :: string where
  "REDACTED = ''[redacted]''"

definition redact_response_headers :: "headers \<Rightarrow> string list \<Rightarrow> headers" where
  "redact_response_headers hs redact =
     (let targets = map to_ascii_lowercase redact
      in map (\<lambda>(name, value). if to_ascii_lowercase name \<in> set targets then (name, REDACTED)
                              else (name, value)) hs)"

definition media_type :: "string \<Rightarrow> string" where
  "media_type ct = trim (hd (split_on (CHR '';'') ct))"

definition enforce_content_type ::
  "string option \<Rightarrow> string list \<Rightarrow> (unit, http_policy_error) result" where
  "enforce_content_type content_type allowlist =
     (let normalized = (case content_type of None \<Rightarrow> [] | Some ct \<Rightarrow> to_ascii_lowercase (media_type ct))
      in if list_ex (\<lambda>allowed. eq_ignore_ascii_case (media_type allowed) normalized) allowlist then Ok ()
         else Err (InvalidHeaderValue (''content-type '' @ backquoted normalized
                @ '' is not on the response allowlist'')))"

datatype json =
    JNull
  | JBool bool
  | JNumber string
  | JString string
  | JArray "json list"
  | JObject "(string \<times> json) list"

fun redact_value :: "string list \<Rightarrow> json \<Rightarrow> json" where
  "redact_value fs (JObject m) =
     JObject (map (\<lambda>(key, inner). (key, if key \<in> set fs then JString REDACTED else redact_value fs inner)) m)"
| "redact_value fs (JArray items) = JArray (map (redact_value fs) items)"
| "redact_value fs v = v"

definition redact_json_fields ::
  "(string \<Rightarrow> json option) \<Rightarrow> (json \<Rightarrow> string option) \<Rightarrow> string \<Rightarrow> string list \<Rightarrow> string" where
  "redact_json_fields from_slice to_vec body field_names =
     (case from_slice body of
        None \<Rightarrow> body
      | Some v \<Rightarrow> (case to_vec (redact_value field_names v) of Some out \<Rightarrow> out | None \<Rightarrow> body))"

section \<open>Reference definitions\<close>

text \<open>The object member \<open>(k, v)\<close> occurs somewhere in the document.\<close>

inductive member_of :: "string \<Rightarrow> json \<Rightarrow> json \<Rightarrow> bool" where
  here: "(k, v) \<in> set m \<Longrightarrow> member_of k v (JObject m)"
| in_object: "(k', w) \<in> set m \<Longrightarrow> member_of k v w \<Longrightarrow> member_of k v (JObject m)"
| in_array: "w \<in> set items \<Longrightarrow> member_of k v w \<Longrightarrow> member_of k v (JArray items)"

inductive_simps member_of_simps [simp]:
  "member_of k v JNull" "member_of k v (JBool b)" "member_of k v (JNumber n)"
  "member_of k v (JString s)" "member_of k v (JArray items)" "member_of k v (JObject m)"

text \<open>A decoder and encoder that know two documents.\<close>

definition sample_from_slice :: "string \<Rightarrow> json option" where
  "sample_from_slice s =
     (if s = ''in'' then Some (JArray [JObject [(''token'', JNumber ''7'')]])
      else if s = ''out'' then Some (JArray [JObject [(''token'', JString REDACTED)]]) else None)"

definition sample_to_vec :: "json \<Rightarrow> string option" where
  "sample_to_vec v = (if v = JArray [JObject [(''token'', JNumber ''7'')]] then Some ''in'' else Some ''out'')"

section \<open>Lemmas\<close>

lemma validate_header_pair_Ok_iff:
  "validate_header_pair n v = Ok u \<longleftrightarrow>
     n \<noteq> [] \<and> list_all is_tchar n \<and> \<not> list_ex is_forbidden_value_byte v"
  by (auto simp: validate_header_pair_def)

lemma filter_request_headers_eq:
  "filter_request_headers hs =
     (let ok = (\<lambda>(n, v). to_ascii_lowercase n \<notin> set SENSITIVE_REQUEST_HEADERS
                  \<and> is_ok (validate_header_pair (to_ascii_lowercase n) v))
      in (map (\<lambda>(n, v). (to_ascii_lowercase n, v)) (filter ok hs),
          map (\<lambda>(n, v). to_ascii_lowercase n) (filter (\<lambda>h. \<not> ok h) hs)))"
  by (induction hs rule: filter_request_headers.induct) (auto simp: Let_def)

lemma sensitive_lowercase:
  "s \<in> set SENSITIVE_REQUEST_HEADERS \<Longrightarrow> to_ascii_lowercase s = s"
  by (auto simp: SENSITIVE_REQUEST_HEADERS_def to_ascii_lowercase_def to_ascii_lower_def
      is_ascii_uppercase_def)

lemma redact_value_complete: "member_of k v (redact_value fs j) \<Longrightarrow> k \<in> set fs \<Longrightarrow> v = JString REDACTED"
proof (induction fs j rule: redact_value.induct)
  case (1 fs m)
  from "1.prems"(1) consider (here) w where "(k, w) \<in> set m" "v = (if k \<in> set fs then JString REDACTED else redact_value fs w)"
    | (inside) k' w where "(k', w) \<in> set m" "member_of k v (if k' \<in> set fs then JString REDACTED else redact_value fs w)"
    by auto
  then show ?case
  proof cases
    case here
    then show ?thesis using "1.prems"(2) by simp
  next
    case inside
    then show ?thesis using "1.IH" [of "(k', w)" k' w] "1.prems"(2) by (simp split: if_splits)
  qed
next
  case (2 fs items)
  then show ?case by auto
qed auto

lemma redact_value_id: "(\<And>k v. member_of k v j \<Longrightarrow> k \<notin> set fs) \<Longrightarrow> redact_value fs j = j"
proof (induction fs j rule: redact_value.induct)
  case (1 fs m)
  have "k \<notin> set fs \<and> redact_value fs w = w" if "(k, w) \<in> set m" for k w
    using "1.IH" [OF that refl] "1.prems" that by (meson member_of.here member_of.in_object)
  then show ?case by (auto intro: map_idI)
next
  case (2 fs items)
  have "redact_value fs w = w" if "w \<in> set items" for w
    using "2.IH" [OF that] "2.prems" that by (meson member_of.in_array)
  then show ?case by (auto intro: map_idI)
qed auto

section \<open>Properties\<close>

text \<open>
  Caller-supplied headers cannot smuggle anything past the filter: every header that survives is a
  lowercase token different from every credential, framing and hop-by-hop header name in any
  spelling, and its value has no CR, LF, NUL or DEL; and every input header is either passed on or
  reported as rejected.
\<close>

lemma filter_request_headers_safe:
  "list_all (\<lambda>(n, v). n \<noteq> [] \<and> list_all is_tchar n \<and> to_ascii_lowercase n = n
       \<and> \<not> list_ex (eq_ignore_ascii_case n) SENSITIVE_REQUEST_HEADERS
       \<and> \<not> list_ex is_forbidden_value_byte v) (fst (filter_request_headers hs))
   \<and> length (fst (filter_request_headers hs)) + length (snd (filter_request_headers hs)) = length hs"
proof
  let ?ok = "\<lambda>(n, v). to_ascii_lowercase n \<notin> set SENSITIVE_REQUEST_HEADERS
                  \<and> is_ok (validate_header_pair (to_ascii_lowercase n) v)"
  have "length (filter ?ok hs) + length (filter (\<lambda>h. \<not> ?ok h) hs) = length hs"
    by (rule sum_length_filter_compl)
  then show "length (fst (filter_request_headers hs)) + length (snd (filter_request_headers hs)) = length hs"
    by (simp add: filter_request_headers_eq Let_def)
  have "\<not> list_ex (eq_ignore_ascii_case (to_ascii_lowercase n)) SENSITIVE_REQUEST_HEADERS"
    if "to_ascii_lowercase n \<notin> set SENSITIVE_REQUEST_HEADERS" for n
    using that sensitive_lowercase by (auto simp: list_ex_iff eq_ignore_ascii_case_def)
  then show "list_all (\<lambda>(n, v). n \<noteq> [] \<and> list_all is_tchar n \<and> to_ascii_lowercase n = n
       \<and> \<not> list_ex (eq_ignore_ascii_case n) SENSITIVE_REQUEST_HEADERS
       \<and> \<not> list_ex is_forbidden_value_byte v) (fst (filter_request_headers hs))"
    by (auto simp: filter_request_headers_eq Let_def list_all_iff is_ok_iff validate_header_pair_Ok_iff)
qed

text \<open>
  JSON redaction is complete at every depth: when the encoder's output for the redacted document
  decodes to that document, every member of what is delivered whose key is listed has the sentinel
  as its value, at any nesting, and a document without listed keys is delivered unchanged.
\<close>

lemma redact_json_fields_complete:
  assumes "from_slice body = Some orig"
    and encoder: "to_vec (redact_value fs orig) = Some out" "from_slice out = Some (redact_value fs orig)"
  shows "\<exists>doc. from_slice (redact_json_fields from_slice to_vec body fs) = Some doc
           \<and> (\<forall>k v. member_of k v doc \<longrightarrow> k \<in> set fs \<longrightarrow> v = JString REDACTED)
           \<and> ((\<forall>k v. member_of k v orig \<longrightarrow> k \<notin> set fs) \<longrightarrow> doc = orig)"
proof (intro exI conjI)
  show "from_slice (redact_json_fields from_slice to_vec body fs) = Some (redact_value fs orig)"
    using assms by (simp add: redact_json_fields_def)
  show "\<forall>k v. member_of k v (redact_value fs orig) \<longrightarrow> k \<in> set fs \<longrightarrow> v = JString REDACTED"
    using redact_value_complete by blast
  show "(\<forall>k v. member_of k v orig \<longrightarrow> k \<notin> set fs) \<longrightarrow> redact_value fs orig = orig"
    using redact_value_id by blast
qed

lemma redact_json_fields_complete_witness:
  "\<exists>doc. sample_from_slice (redact_json_fields sample_from_slice sample_to_vec ''in'' [''token'']) = Some doc
     \<and> (\<forall>v. member_of ''token'' v doc \<longrightarrow> v = JString REDACTED)"
proof -
  have "sample_from_slice ''in'' = Some (JArray [JObject [(''token'', JNumber ''7'')]])"
    "sample_to_vec (redact_value [''token''] (JArray [JObject [(''token'', JNumber ''7'')]])) = Some ''out''"
    "sample_from_slice ''out'' = Some (redact_value [''token''] (JArray [JObject [(''token'', JNumber ''7'')]]))"
    by (simp_all add: sample_from_slice_def sample_to_vec_def)
  from redact_json_fields_complete [where from_slice = sample_from_slice and to_vec = sample_to_vec, OF this] show ?thesis by auto
qed

end
