(* ===== verification/Canonical_Url.thy ===== *)
theory Canonical_Url
  imports Http_Controls
begin

text \<open>
  \<open>vaultx-http\<close>: URL canonicalization (\<open>canonical.rs\<close>) and the evaluation of one redirect hop
  (\<open>redirect.rs\<close>).

  The \<open>url\<close> crate is the parameter record \<open>url_api\<close> over an arbitrary type of parsed URLs; the crate's
  own checks around it are definitions.  A canonical URL is the parsed URL it wraps.
\<close>

section \<open>The \<open>url\<close> crate\<close>

text \<open>A parse error with its display text; only the port error is told apart.\<close>

datatype url_parse_error = UrlInvalidPort string | UrlOther string

record 'u url_api =
  url_parse :: "string \<Rightarrow> ('u, url_parse_error) result"
  url_scheme :: "'u \<Rightarrow> string"
  url_port :: "'u \<Rightarrow> u16 option"
  url_username :: "'u \<Rightarrow> string"
  url_password :: "'u \<Rightarrow> string option"
  url_host_str :: "'u \<Rightarrow> string option"
  url_drop_fragment :: "'u \<Rightarrow> 'u"
  url_as_str :: "'u \<Rightarrow> string"
  url_path :: "'u \<Rightarrow> string"
  url_query :: "'u \<Rightarrow> string option"
  url_query_pairs :: "'u \<Rightarrow> (string \<times> string) list"
  url_port_or_known_default :: "'u \<Rightarrow> u16 option"
  url_join :: "'u \<Rightarrow> string \<Rightarrow> ('u, string) result"

section \<open>Host grammar and percent escapes\<close>

definition check_label :: "string \<Rightarrow> string \<Rightarrow> (unit, http_policy_error) result" where
  "check_label host label =
     (if label = []
      then Err (InvalidUrl (''hostname contains an empty label: '' @ backquoted host))
      else if CHR ''_'' \<in> set label
      then Err (InvalidUrl (''hostname labels may not contain '' @ backquoted ''_'' @ '': '' @ backquoted host))
      else if \<not> list_all (\<lambda>c. is_ascii_alphanumeric c \<or> c = CHR ''-'') label
      then Err (InvalidUrl (''hostname contains characters outside [a-z0-9-]: '' @ backquoted host))
      else Ok ())"

definition bracketed :: "string \<Rightarrow> string option" where
  "bracketed host =
     (case strip_prefix ''['' host of None \<Rightarrow> None | Some h \<Rightarrow> strip_suffix '']'' h)"

definition validate_host :: "string \<Rightarrow> (unit, http_policy_error) result" where
  "validate_host host =
     (case bracketed host of
        Some inner \<Rightarrow>
          if parse_ipv6 inner \<noteq> None then Ok ()
          else Err (InvalidUrl (''invalid ipv6 literal '' @ backquoted inner))
      | None \<Rightarrow>
          if \<not> is_ascii host then Err (InvalidUrl (''hostname must be ASCII: '' @ backquoted host))
          else try_each (check_label host) (split_on (CHR ''.'') host))"

fun normalize_percent_case :: "string \<Rightarrow> string" where
  "normalize_percent_case (c # h # l # rest) =
     (if c = CHR ''%'' \<and> is_ascii_hexdigit h \<and> is_ascii_hexdigit l
      then CHR ''%'' # to_ascii_upper h # to_ascii_upper l # normalize_percent_case rest
      else c # normalize_percent_case (h # l # rest))"
| "normalize_percent_case short = short"

definition take_until :: "string \<Rightarrow> string \<Rightarrow> string" where
  "take_until stops s = takeWhile (\<lambda>c. c \<notin> set stops) s"

text \<open>\<open>rsplit_once(':')\<close> on the text after a bracketed host.\<close>

definition offending_port_token :: "string \<Rightarrow> string" where
  "offending_port_token raw =
     (case split_once ''://'' raw of
        None \<Rightarrow> ''*''
      | Some (_, rest) \<Rightarrow>
          (let authority = take_until [CHR ''/'', CHR ''?'', CHR ''#'', CHR 0x5C] rest;
               tail = (if starts_with ''['' authority \<and> CHR '']'' \<in> set authority
                       then drop 1 (dropWhile (\<lambda>c. c \<noteq> CHR '']'') authority) else authority)
           in if CHR '':'' \<in> set tail \<and> last (split_on (CHR '':'') tail) \<noteq> []
              then concat (take 16 (uchars (last (split_on (CHR '':'') tail))))
              else ''*''))"

section \<open>Canonicalization\<close>

definition check_raw_authority :: "string \<Rightarrow> (unit, http_policy_error) result" where
  "check_raw_authority raw =
     (case split_once ''://'' raw of
        None \<Rightarrow> Ok ()
      | Some (_, rest) \<Rightarrow>
          (let authority = take_until [CHR ''/'', CHR ''?'', CHR ''#''] rest
           in if \<not> is_ascii authority \<or> CHR ''%'' \<in> set authority
              then Err (InvalidUrl ''hostnames must be pre-encoded ASCII (no unicode or percent escapes)'')
              else if CHR ''@'' \<in> set authority then Err UserInfoDisallowed
              else Ok ()))"

definition canonical_parse :: "'u url_api \<Rightarrow> string \<Rightarrow> ('u, http_policy_error) result" where
  "canonical_parse api raw =
     and_then (check_raw_authority raw) (\<lambda>_.
     and_then (map_err (\<lambda>err. case err of
                   UrlInvalidPort _ \<Rightarrow> InvalidPort (offending_port_token raw)
                 | UrlOther msg \<Rightarrow> InvalidUrl msg) (url_parse api raw)) (\<lambda>parsed.
       if url_scheme api parsed \<noteq> ''https'' then Err (UnsupportedScheme (url_scheme api parsed))
       else if url_port api parsed = Some 0 then Err (InvalidPort ''0'')
       else if url_username api parsed \<noteq> [] \<or> url_password api parsed \<noteq> None then Err UserInfoDisallowed
       else (case url_host_str api parsed of
           None \<Rightarrow> Err (InvalidUrl ''missing host'')
         | Some host \<Rightarrow>
             and_then (validate_host host) (\<lambda>_.
               map_err (\<lambda>err. case err of
                     UrlInvalidPort msg \<Rightarrow> InvalidUrl msg
                   | UrlOther msg \<Rightarrow> InvalidUrl msg)
                 (url_parse api (normalize_percent_case (url_as_str api (url_drop_fragment api parsed))))))))"

definition from_parts ::
  "'u url_api \<Rightarrow> string \<Rightarrow> u16 option \<Rightarrow> string \<Rightarrow> ('u, http_policy_error) result" where
  "from_parts api host port path_and_query =
     (if port = Some 0 then Err (InvalidPort ''0'')
      else if path_and_query \<noteq> [] \<and> \<not> starts_with ''/'' path_and_query
      then Err (InvalidUrl (''path must start with '' @ backquoted ''/'' @ '': '' @ path_and_query))
      else canonical_parse api
             (''https://'' @ host
              @ (case port of None \<Rightarrow> [] | Some p \<Rightarrow> '':'' @ dec_of_nat (unat p))
              @ (if path_and_query = [] then ''/'' else path_and_query)))"

definition canonical_host :: "'u url_api \<Rightarrow> 'u \<Rightarrow> string" where
  "canonical_host api u = (case url_host_str api u of None \<Rightarrow> [] | Some h \<Rightarrow> h)"

definition port_or_default :: "'u url_api \<Rightarrow> 'u \<Rightarrow> u16" where
  "port_or_default api u = (case url_port_or_known_default api u of None \<Rightarrow> 443 | Some p \<Rightarrow> p)"

section \<open>Redirects\<close>

datatype 'u redirect_decision = Follow 'u | RedirectDeny string

record redirect_policy =
  max_hops :: u8

definition show_http_policy_error :: "http_policy_error \<Rightarrow> string" where
  "show_http_policy_error e =
     (case e of
        InvalidUrl m \<Rightarrow> ''invalid url: '' @ m
      | UnsupportedScheme m \<Rightarrow> ''unsupported url scheme '' @ backquoted m @ ''; only https is allowed''
      | UserInfoDisallowed \<Rightarrow> ''userinfo ('' @ backquoted ''user:pass@'' @ '') is disallowed in urls''
      | InsecureSchemeDisallowed \<Rightarrow> ''insecure http scheme is disallowed''
      | InvalidPort m \<Rightarrow> ''invalid port '' @ backquoted m
      | PrivateDestination c \<Rightarrow>
          ''destination address class is not permitted for egress: '' @ show_classification c
      | DisallowedHeader m \<Rightarrow> ''request header '' @ backquoted m @ '' may not be set by callers''
      | RedirectDenied m \<Rightarrow> ''redirect denied: '' @ m
      | HttpBodyTooLarge l m \<Rightarrow> ''request body too large: '' @ dec_of_nat (unat l) @ '' bytes exceeds ''
          @ dec_of_nat (unat m) @ '' byte limit''
      | HttpResponseTooLarge l m \<Rightarrow> ''response body too large: '' @ dec_of_nat (unat l) @ '' bytes exceeds ''
          @ dec_of_nat (unat m) @ '' byte limit''
      | InvalidHeaderValue m \<Rightarrow> ''invalid header value or name: '' @ m)"

definition evaluate_redirect ::
  "'u url_api \<Rightarrow> redirect_policy \<Rightarrow> 'u \<Rightarrow> string \<Rightarrow> u8 \<Rightarrow> ('u \<Rightarrow> 'u \<Rightarrow> bool) \<Rightarrow> 'u redirect_decision" where
  "evaluate_redirect api policy original location_value hop_count authorize_redirect =
     (if max_hops policy \<le> hop_count
      then RedirectDeny (''redirect hop limit '' @ dec_of_nat (unat (max_hops policy)) @ '' reached at hop ''
             @ dec_of_nat (unat hop_count))
      else (case url_join api original location_value of
          Err err \<Rightarrow> RedirectDeny (''unresolvable redirect location: '' @ err)
        | Ok joined \<Rightarrow>
            (case canonical_parse api (url_as_str api joined) of
               Err err \<Rightarrow>
                 (case err of
                    UnsupportedScheme scheme \<Rightarrow>
                      RedirectDeny (''redirect downgrades or changes scheme to '' @ backquoted scheme)
                  | _ \<Rightarrow> RedirectDeny (''redirect target rejected by canonicalization: ''
                           @ show_http_policy_error err))
             | Ok next \<Rightarrow>
                 if authorize_redirect original next then Follow next
                 else RedirectDeny (''redirect target '' @ backquoted (url_as_str api next) @ '' not authorized''))))"

section \<open>Reference definitions\<close>

text \<open>
  What the code relies on of the \<open>url\<close> crate: re-parsing a serialization whose percent escapes were
  put in upper case gives the same scheme, authority and port (escapes occur in path and query only).
\<close>

definition percent_case_neutral :: "'u url_api \<Rightarrow> bool" where
  "percent_case_neutral api \<longleftrightarrow>
     (\<forall>u v. url_parse api (normalize_percent_case (url_as_str api (url_drop_fragment api u))) = Ok v \<longrightarrow>
        url_scheme api v = url_scheme api u \<and> url_port api v = url_port api u
        \<and> url_username api v = url_username api u \<and> url_password api v = url_password api u
        \<and> url_host_str api v = url_host_str api u)"

text \<open>Percent escapes all of whose hexadecimal digits are in upper case.\<close>

fun upper_escapes :: "string \<Rightarrow> bool" where
  "upper_escapes (c # h # l # rest) =
     ((c = CHR ''%'' \<longrightarrow> is_ascii_hexdigit h \<longrightarrow> is_ascii_hexdigit l \<longrightarrow>
         \<not> is_ascii_lowercase h \<and> \<not> is_ascii_lowercase l)
      \<and> upper_escapes (h # l # rest))"
| "upper_escapes short = True"

text \<open>A sample crate whose URLs are the strings \<open>https://api.example.com/...\<close>.\<close>

definition sample_url_api :: "string url_api" where
  "sample_url_api =
     \<lparr>url_parse = (\<lambda>s. if starts_with ''https://api.example.com/'' s then Ok s else Err (UrlOther ''no'')),
      url_scheme = (\<lambda>_. ''https''), url_port = (\<lambda>_. None), url_username = (\<lambda>_. []),
      url_password = (\<lambda>_. None), url_host_str = (\<lambda>_. Some ''api.example.com''),
      url_drop_fragment = (\<lambda>u. take_until [CHR ''#''] u), url_as_str = (\<lambda>u. u),
      url_path = (\<lambda>u. drop 23 (take_until [CHR ''?''] u)),
      url_query = (\<lambda>u. if CHR ''?'' \<in> set u then Some (drop 1 (dropWhile (\<lambda>c. c \<noteq> CHR ''?'') u)) else None),
      url_query_pairs = (\<lambda>_. []),
      url_port_or_known_default = (\<lambda>_. Some 443),
      url_join = (\<lambda>_ loc. Ok (''https://api.example.com'' @ loc))\<rparr>"

section \<open>Lemmas\<close>

lemma validate_host_plain:
  "bracketed h = None \<Longrightarrow> validate_host h = Ok () \<longleftrightarrow>
     is_ascii h \<and> (\<forall>label \<in> set (split_on (CHR ''.'') h). label \<noteq> []
        \<and> list_all (\<lambda>c. is_ascii_alphanumeric c \<or> c = CHR ''-'') label)"
proof -
  have "check_label h l = Ok () \<longleftrightarrow> l \<noteq> [] \<and> list_all (\<lambda>c. is_ascii_alphanumeric c \<or> c = CHR ''-'') l" for l
    by (auto simp: check_label_def list_all_iff str_simps)
  then show "bracketed h = None \<Longrightarrow> ?thesis" by (simp add: validate_host_def try_each_Ok_iff)
qed

lemma canonical_parse_Ok:
  assumes "canonical_parse api raw = Ok c"
  shows "\<exists>u host. check_raw_authority raw = Ok () \<and> url_parse api raw = Ok u
    \<and> url_scheme api u = ''https'' \<and> url_port api u \<noteq> Some 0 \<and> url_username api u = []
    \<and> url_password api u = None \<and> url_host_str api u = Some host \<and> validate_host host = Ok ()
    \<and> url_parse api (normalize_percent_case (url_as_str api (url_drop_fragment api u))) = Ok c"
  using assms by (auto simp: canonical_parse_def split: if_splits option.splits)

lemma hexdigit_upper:
  "is_ascii_hexdigit c \<Longrightarrow> is_ascii_hexdigit (to_ascii_upper c) \<and> \<not> is_ascii_lowercase (to_ascii_upper c)"
  by (auto simp: str_simps)

lemma upper_id: "\<not> is_ascii_lowercase c \<Longrightarrow> to_ascii_upper c = c"
  by (simp add: to_ascii_upper_def)

lemma percent_not_hex: "\<not> is_ascii_hexdigit (CHR ''%'')"
  by (simp add: str_simps)

lemma length_normalize_percent_case [simp]: "length (normalize_percent_case s) = length s"
  by (induction s rule: normalize_percent_case.induct) auto

lemma normalize_Cons: "c \<noteq> CHR ''%'' \<Longrightarrow> normalize_percent_case (c # s) = c # normalize_percent_case s"
  by (cases s rule: normalize_percent_case.cases; cases s) auto

lemma normalize_hd: "\<exists>t. normalize_percent_case (c # s) = c # t"
  by (cases "c # s" rule: normalize_percent_case.cases) auto

lemma upper_escapes_Cons: "c \<noteq> CHR ''%'' \<Longrightarrow> upper_escapes (c # s) = upper_escapes s"
  by (cases "c # s" rule: upper_escapes.cases) auto

lemma upper_escapes_tl: "upper_escapes (c # s) \<Longrightarrow> upper_escapes s"
  by (cases "c # s" rule: upper_escapes.cases) auto

lemma upper_escapes_normalize: "upper_escapes (normalize_percent_case s)"
proof (induction s rule: normalize_percent_case.induct)
  case (1 c h l rest)
  show ?case
  proof (cases "c = CHR ''%'' \<and> is_ascii_hexdigit h \<and> is_ascii_hexdigit l")
    case True
    then have "to_ascii_upper h \<noteq> CHR ''%''" "to_ascii_upper l \<noteq> CHR ''%''"
      using hexdigit_upper percent_not_hex by metis+
    with True 1 hexdigit_upper show ?thesis by (simp add: upper_escapes_Cons)
  next
    case False
    obtain t where t: "normalize_percent_case (h # l # rest) = h # t"
      using normalize_hd by blast
    have ih: "upper_escapes (h # t)" using 1 False t by auto
    have "c = CHR ''%'' \<Longrightarrow> is_ascii_hexdigit h \<Longrightarrow> \<exists>t'. t = l # t'"
      using normalize_Cons [of h "l # rest"] normalize_hd [of l rest] percent_not_hex t by auto
    then have "upper_escapes (c # h # t)"
      using False ih by (cases t) auto
    with False t show ?thesis by auto
  qed
qed auto

lemma normalize_upper_escapes: "upper_escapes s \<Longrightarrow> normalize_percent_case s = s"
proof (induction s rule: normalize_percent_case.induct)
  case (1 c h l rest)
  then show ?case
    using upper_escapes_tl [of h "l # rest"] upper_escapes_tl [of l rest]
    by (auto simp: upper_id)
qed auto

lemma normalize_idem: "normalize_percent_case (normalize_percent_case s) = normalize_percent_case s"
  by (rule normalize_upper_escapes [OF upper_escapes_normalize])

lemma read_ipv4_excludes_ipv6: "parse_ipv6 s = Some ip \<Longrightarrow> read_ipv4_addr s = None"
proof (rule ccontr)
  assume ip: "parse_ipv6 s = Some ip" and "read_ipv4_addr s \<noteq> None"
  then obtain a b c d rest where v4: "read_ipv4_addr s = Some (Ipv4 a b c d, rest)"
    by (metis ipv4.exhaust option.exhaust prod.exhaust)
  have "read_groups 8 False s = ([join_octets a b, join_octets c d], True, rest)"
    by (simp add: eval_nat_numeral read_separator_def v4)
  then have "read_ipv6_addr s = None" by (simp add: read_ipv6_addr_def)
  with ip show False by (simp add: parse_ipv6_def)
qed

lemma unbracket_bracketed: "bracketed h = Some inner \<Longrightarrow> unbracket h = inner"
  by (auto simp: bracketed_def unbracket_def split: option.splits)

lemma canonical_parse_facts:
  assumes "percent_case_neutral api" "canonical_parse api raw = Ok c"
  shows "url_scheme api c = ''https'' \<and> url_port api c \<noteq> Some 0 \<and> url_username api c = []
         \<and> url_password api c = None \<and> validate_host (canonical_host api c) = Ok ()
         \<and> check_raw_authority raw = Ok ()"
proof -
  obtain u host where u: "check_raw_authority raw = Ok ()" "url_scheme api u = ''https''"
      "url_port api u \<noteq> Some 0" "url_username api u = []" "url_password api u = None"
      "url_host_str api u = Some host" "validate_host host = Ok ()"
      "url_parse api (normalize_percent_case (url_as_str api (url_drop_fragment api u))) = Ok c"
    using canonical_parse_Ok [OF assms(2)] by blast
  with assms(1) have "url_scheme api c = url_scheme api u \<and> url_port api c = url_port api u
        \<and> url_username api c = url_username api u \<and> url_password api c = url_password api u
        \<and> url_host_str api c = url_host_str api u"
    unfolding percent_case_neutral_def by blast
  with u show ?thesis by (simp add: canonical_host_def)
qed

lemma percent_case_neutral_sample: "percent_case_neutral sample_url_api"
  by (simp add: percent_case_neutral_def sample_url_api_def)

section \<open>Properties\<close>

text \<open>
  A canonical destination keeps the restrictions it was checked for: it is \<open>https\<close>, has no user
  information and no port 0, its host passes the host grammar, and the raw text had no percent escape,
  non-ASCII byte or \<open>@\<close> in its authority.  (The URL crate re-parses its own serialization to the same
  authority.)
\<close>

lemma canonical_parse_restricts:
  assumes "percent_case_neutral api" "canonical_parse api raw = Ok c"
  shows "url_scheme api c = ''https'' \<and> url_port api c \<noteq> Some 0 \<and> url_username api c = []
         \<and> url_password api c = None \<and> validate_host (canonical_host api c) = Ok ()
         \<and> check_raw_authority raw = Ok ()"
  using canonical_parse_facts [OF assms] .

lemma canonical_parse_restricts_witness:
  "validate_host (canonical_host sample_url_api ''https://api.example.com/a%2Fb'') = Ok ()
   \<and> canonical_parse sample_url_api ''https://api.example.com/a%2fb#top'' = Ok ''https://api.example.com/a%2Fb''"
proof -
  have p: "canonical_parse sample_url_api ''https://api.example.com/a%2fb#top'' = Ok ''https://api.example.com/a%2Fb''"
    by code_simp
  from canonical_parse_restricts [OF percent_case_neutral_sample p] p show ?thesis by simp
qed

text \<open>
  Percent normalization gives one spelling: it keeps the length, leaves no escape with a lower-case
  digit, and changes nothing when applied again, so the canonical string is a fixed point.
\<close>

lemma normalize_percent_case_canonical:
  "upper_escapes (normalize_percent_case s) \<and> length (normalize_percent_case s) = length s
   \<and> normalize_percent_case (normalize_percent_case s) = normalize_percent_case s"
  by (simp add: upper_escapes_normalize normalize_idem)

text \<open>
  No bracketed host literal reaches transport unclassified: a host that canonicalization accepts as
  an IPv6 literal is parsed as that address by the egress guard, which answers with its class or
  refuses it; it is never passed through as an opaque name.
\<close>

lemma ipv6_literal_is_classified:
  assumes "validate_host host = Ok ()" "bracketed host = Some inner"
  shows "\<exists>ip. parse_ipv6 inner = Some ip
           \<and> check_host g host =
               (if is_egress_allowed (classify_ip (V6 ip)) (allow_private g) then Ok (classify_ip (V6 ip))
                else Err (PrivateDestination (classify_ip (V6 ip))))"
proof -
  obtain ip where ip: "parse_ipv6 inner = Some ip"
    using assms by (auto simp: validate_host_def split: if_splits)
  then have "parse_ip inner = Some (V6 ip)"
    using read_ipv4_excludes_ipv6 [OF ip] by (simp add: parse_ip_def)
  with ip unbracket_bracketed [OF assms(2)] show ?thesis
    by (simp add: check_host_def ensure_allowed_def)
qed

lemma ipv6_literal_is_classified_witness:
  "validate_host ''[::1]'' = Ok ()
   \<and> (\<exists>ip. check_host \<lparr>allow_private = False\<rparr> ''[::1]'' =
          Err (PrivateDestination (classify_ip (V6 ip))))"
proof -
  have h: "validate_host ''[::1]'' = Ok ()" by code_simp
  have b: "bracketed ''[::1]'' = Some ''::1''" by code_simp
  have p: "parse_ipv6 ''::1'' = Some (Ipv6 0 0 0 0 0 0 0 1)" by code_simp
  have "\<not> is_egress_allowed (classify_ip (V6 (Ipv6 0 0 0 0 0 0 0 1))) False"
    by (simp add: classify_ip_def)
  with p ipv6_literal_is_classified [OF h b, of "\<lparr>allow_private = False\<rparr>"] h show ?thesis by auto
qed

text \<open>
  A redirect is followed only within the hop budget and only to the exact canonical target that the
  authorizer approved: the target is the canonical form of the location resolved against the request's
  URL, so it is \<open>https\<close> again and passes the host grammar.
\<close>

lemma redirect_followed_only_if_approved:
  assumes "percent_case_neutral api"
    and "evaluate_redirect api policy original location hops authorizer = Follow target"
  shows "hops < max_hops policy \<and> authorizer original target
         \<and> (\<exists>joined. url_join api original location = Ok joined
              \<and> canonical_parse api (url_as_str api joined) = Ok target)
         \<and> url_scheme api target = ''https'' \<and> validate_host (canonical_host api target) = Ok ()"
proof -
  obtain joined where j: "url_join api original location = Ok joined" "hops < max_hops policy"
      "canonical_parse api (url_as_str api joined) = Ok target" "authorizer original target"
    using assms(2)
    by (auto simp: evaluate_redirect_def split: if_splits result.splits http_policy_error.splits)
  from canonical_parse_facts [OF assms(1) j(3)] j show ?thesis by blast
qed

lemma redirect_followed_only_if_approved_witness:
  "\<exists>target. evaluate_redirect sample_url_api \<lparr>max_hops = 3\<rparr> ''https://api.example.com/a'' ''/b'' 0
       (\<lambda>_ t. t = ''https://api.example.com/b'') = Follow target \<and> url_scheme sample_url_api target = ''https''"
proof -
  have f: "evaluate_redirect sample_url_api \<lparr>max_hops = 3\<rparr> ''https://api.example.com/a'' ''/b'' 0
       (\<lambda>_ t. t = ''https://api.example.com/b'') = Follow ''https://api.example.com/b''" by code_simp
  from redirect_followed_only_if_approved [OF percent_case_neutral_sample f] f show ?thesis by blast
qed

end
