(* ===== verification/Ordered_Map.thy ===== *)
theory Ordered_Map
  imports Prelude
begin

text \<open>
  The standard library's ordered containers.  A \<open>BTreeMap\<close> is an association list whose keys are
  strictly ascending, a \<open>BTreeSet\<close> the strictly ascending list of its elements; iteration is list
  traversal.  \<open>HashMap\<close>s whose iteration order the code never exposes use the same representation.

  The locale \<open>finite_map\<close> is the contract the clients rely on.  It is interpreted on the
  association lists, and the clients reason through the interpretation's facts.
\<close>

section \<open>Representation\<close>

type_synonym ('k, 'v) bt_map = "('k \<times> 'v) list"

definition bt_empty :: "('k, 'v) bt_map" where
  "bt_empty = []"

definition bt_get :: "('k, 'v) bt_map \<Rightarrow> 'k \<Rightarrow> 'v option" where
  "bt_get m = map_of m"

fun bt_insert :: "'k::linorder \<Rightarrow> 'v \<Rightarrow> ('k, 'v) bt_map \<Rightarrow> ('k, 'v) bt_map" where
  "bt_insert k v [] = [(k, v)]"
| "bt_insert k v ((a, b) # m) =
     (if k < a then (k, v) # (a, b) # m
      else if k = a then (k, v) # m
      else (a, b) # bt_insert k v m)"

fun bt_remove :: "'k::linorder \<Rightarrow> ('k, 'v) bt_map \<Rightarrow> ('k, 'v) bt_map" where
  "bt_remove k [] = []"
| "bt_remove k ((a, b) # m) = (if k = a then m else (a, b) # bt_remove k m)"

definition bt_keys :: "('k, 'v) bt_map \<Rightarrow> 'k list" where
  "bt_keys m = map fst m"

definition bt_inv :: "('k::linorder, 'v) bt_map \<Rightarrow> bool" where
  "bt_inv m \<longleftrightarrow> sorted_wrt (<) (map fst m)"

text \<open>Collecting an iterator into a \<open>BTreeSet\<close>.\<close>

definition btset_of :: "'k::linorder list \<Rightarrow> 'k list" where
  "btset_of xs = sort (remdups xs)"

section \<open>The map contract\<close>

locale finite_map =
  fixes empty :: "'m"
    and get :: "'m \<Rightarrow> 'k \<Rightarrow> 'v option"
    and insert :: "'k \<Rightarrow> 'v \<Rightarrow> 'm \<Rightarrow> 'm"
    and remove :: "'k \<Rightarrow> 'm \<Rightarrow> 'm"
    and inv :: "'m \<Rightarrow> bool"
  assumes get_empty: "get empty = Map.empty"
    and get_insert: "inv m \<Longrightarrow> get (insert k v m) = (get m)(k \<mapsto> v)"
    and get_remove: "inv m \<Longrightarrow> get (remove k m) = (get m)(k := None)"
    and inv_empty: "inv empty"
    and inv_insert: "inv m \<Longrightarrow> inv (insert k v m)"
    and inv_remove: "inv m \<Longrightarrow> inv (remove k m)"
    and finite_dom: "finite (dom (get m))"
    and ext_eq: "inv m \<Longrightarrow> inv n \<Longrightarrow> get m = get n \<Longrightarrow> m = n"
begin

lemma get_insert_same: "inv m \<Longrightarrow> get (insert k v m) k = Some v"
  by (simp add: get_insert)

lemma get_insert_other: "inv m \<Longrightarrow> j \<noteq> k \<Longrightarrow> get (insert k v m) j = get m j"
  by (simp add: get_insert)

lemma insert_commute:
  "inv m \<Longrightarrow> j \<noteq> k \<Longrightarrow> insert j u (insert k v m) = insert k v (insert j u m)"
  by (rule ext_eq) (auto simp: inv_insert get_insert fun_upd_twist)

lemma insert_shadow: "inv m \<Longrightarrow> insert k v (insert k u m) = insert k v m"
  by (rule ext_eq) (auto simp: inv_insert get_insert)

lemma insert_same: "inv m \<Longrightarrow> get m k = Some v \<Longrightarrow> insert k v m = m"
  by (rule ext_eq) (auto simp: inv_insert get_insert)

lemma remove_absent: "inv m \<Longrightarrow> get m k = None \<Longrightarrow> remove k m = m"
  by (rule ext_eq) (auto simp: inv_remove get_remove)

lemma remove_insert: "inv m \<Longrightarrow> get m k = None \<Longrightarrow> remove k (insert k v m) = m"
  by (rule ext_eq) (auto simp: inv_remove get_remove inv_insert get_insert fun_upd_idem)

end

section \<open>The ascending association lists satisfy it\<close>

lemma bt_inv_Nil [simp]: "bt_inv []"
  by (simp add: bt_inv_def)

lemma bt_inv_Cons [simp]:
  "bt_inv ((k, v) # m) \<longleftrightarrow> (\<forall>j \<in> fst ` set m. k < j) \<and> bt_inv m"
  by (auto simp: bt_inv_def)

lemma fst_set_bt_insert: "fst ` set (bt_insert k v m) = insert k (fst ` set m)"
  by (induction k v m rule: bt_insert.induct) auto

lemma bt_inv_insert [simp]: "bt_inv m \<Longrightarrow> bt_inv (bt_insert k v m)"
  by (induction k v m rule: bt_insert.induct) (auto simp: fst_set_bt_insert)

lemma fst_set_bt_remove: "fst ` set (bt_remove k m) \<subseteq> fst ` set m"
  by (induction k m rule: bt_remove.induct) auto

lemma bt_inv_remove [simp]: "bt_inv m \<Longrightarrow> bt_inv (bt_remove k m)"
  using fst_set_bt_remove by (induction k m rule: bt_remove.induct) fastforce+

lemma bt_get_None_iff: "bt_get m k = None \<longleftrightarrow> k \<notin> fst ` set m"
  by (simp add: bt_get_def map_of_eq_None_iff)

lemma bt_get_insert: "bt_get (bt_insert k v m) = (bt_get m)(k \<mapsto> v)"
  by (induction k v m rule: bt_insert.induct) (auto simp: bt_get_def fun_eq_iff)

lemma bt_get_remove: "bt_inv m \<Longrightarrow> bt_get (bt_remove k m) = (bt_get m)(k := None)"
proof (induction k m rule: bt_remove.induct)
  case (2 k a b m)
  have "k = a \<Longrightarrow> bt_get m k = None"
    using "2.prems" by (fastforce simp: bt_get_None_iff)
  with 2 show ?case by (auto simp: bt_get_def fun_eq_iff)
qed (simp add: bt_get_def)

lemma bt_ext: "bt_inv m \<Longrightarrow> bt_inv n \<Longrightarrow> bt_get m = bt_get n \<Longrightarrow> m = n"
proof (induction m arbitrary: n)
  case Nil
  then show ?case by (cases n) (auto simp: bt_get_def fun_eq_iff split: if_splits)
next
  case (Cons p m)
  obtain k v where p: "p = (k, v)" by force
  show ?case
  proof (cases n)
    case Nil
    with Cons.prems(3) p show ?thesis by (auto simp: bt_get_def dest!: fun_cong [of _ _ k])
  next
    case (Cons q n')
    obtain j w where q: "q = (j, w)" by force
    have eq: "map_of ((k, v) # m) x = map_of ((j, w) # n') x" for x
      using Cons.prems(3) p q Cons by (simp add: bt_get_def fun_eq_iff)
    have lt_m: "x \<in> fst ` set m \<Longrightarrow> k < x" and lt_n: "x \<in> fst ` set n' \<Longrightarrow> j < x" for x
      using Cons.prems p q Cons by auto
    have dom: "insert k (fst ` set m) = insert j (fst ` set n')"
      using Cons.prems(3) p q Cons by (metis (no_types, lifting) bt_get_def dom_map_of_conv_image_fst
          fst_conv image_insert list.simps(15) ext)
    have "k = j"
      using dom lt_m lt_n by (metis insert_iff order_less_asym)
    with eq [of k] have "v = w" by simp
    have "bt_get m = bt_get n'"
    proof
      fix x show "bt_get m x = bt_get n' x"
      proof (cases "x = k")
        case True
        then have "x \<notin> fst ` set m" "x \<notin> fst ` set n'" using lt_m lt_n \<open>k = j\<close> by auto
        then show ?thesis by (metis bt_get_None_iff)
      next
        case False
        with eq [of x] \<open>k = j\<close> show ?thesis by (simp add: bt_get_def)
      qed
    qed
    with Cons.IH [of n'] Cons.prems p q Cons \<open>k = j\<close> \<open>v = w\<close> show ?thesis by simp
  qed
qed

lemma bt_get_empty: "bt_get bt_empty = Map.empty"
  by (simp add: bt_get_def bt_empty_def)

lemma bt_inv_empty [simp]: "bt_inv bt_empty"
  by (simp add: bt_empty_def)

lemma finite_dom_bt_get: "finite (dom (bt_get m))"
  by (simp add: bt_get_def finite_dom_map_of)

interpretation btm: finite_map bt_empty bt_get bt_insert bt_remove bt_inv
  by unfold_locales (auto simp: bt_get_empty bt_get_insert bt_get_remove finite_dom_bt_get
      intro: bt_ext)

lemma bt_get_Nil [simp]: "bt_get [] k = None"
  by (simp add: bt_get_def)

lemma bt_get_Cons [simp]: "bt_get ((j, v) # m) k = (if k = j then Some v else bt_get m k)"
  by (simp add: bt_get_def)

lemma set_bt_keys: "set (bt_keys m) = dom (bt_get m)"
  by (simp add: bt_keys_def bt_get_def dom_map_of_conv_image_fst)

lemma in_bt_keys_iff: "k \<in> set (bt_keys m) \<longleftrightarrow> (\<exists>v. bt_get m k = Some v)"
  by (auto simp: set_bt_keys)

lemma bt_get_Some_iff: "bt_inv m \<Longrightarrow> bt_get m k = Some v \<longleftrightarrow> (k, v) \<in> set m"
proof -
  assume "bt_inv m"
  then have "distinct (map fst m)"
    by (simp add: bt_inv_def strict_sorted_imp_sorted strict_sorted_iff)
  then show ?thesis by (simp add: bt_get_def)
qed

lemma set_btset_of [simp]: "set (btset_of xs) = set xs"
  by (simp add: btset_of_def)

lemma sorted_btset_of: "sorted_wrt (<) (btset_of xs)"
  by (simp add: btset_of_def strict_sorted_iff)

lemma distinct_btset_of [simp]: "distinct (btset_of xs)"
  by (simp add: btset_of_def)

lemma btset_of_id: "sorted_wrt (<) xs \<Longrightarrow> btset_of xs = xs"
  by (simp add: btset_of_def strict_sorted_iff distinct_remdups_id sorted_sort_id)

end
