(* ===== verification/Policy_Model.thy ===== *)
theory Policy_Model
  imports Ids Ordered_Map
begin

text \<open>
  \<open>vaultx-policy\<close>: the authorization model (\<open>model.rs\<close>), path and host matching (\<open>matcher.rs\<close>) and
  the semantic validation of policy documents (\<open>loader.rs\<close>).

  The text of an error message is a constructor of \<open>policy_reason\<close>.  YAML decoding is the
  function \<open>from_yaml\<close>, a parameter of \<open>parse_policy_yaml\<close>.
\<close>

section \<open>Errors\<close>

datatype policy_reason =
    MustNotBeEmpty
  | TooManyBytes nat
  | UnknownScheme
  | EmptyIdentity
  | ControlCharacters
  | NeedsEntry
  | NeedsRule
  | NeedsMethod
  | NeedsPattern
  | MustBePositive
  | NotHeaderToken string
  | PortNotAllowed string
  | NotHostname string

datatype policy_error =
    ParseError string
  | InvalidPolicy string policy_reason
  | InvalidPattern string
  | DuplicatePolicyName policy_name

section \<open>The request side of the model\<close>

type_synonym principal = string

definition PRINCIPAL_AGENT_PREFIX :: string where
  "PRINCIPAL_AGENT_PREFIX = ''agent:''"

definition PRINCIPAL_SESSION_PREFIX :: string where
  "PRINCIPAL_SESSION_PREFIX = ''session:''"

definition PRINCIPAL_MAX_LEN :: nat where
  "PRINCIPAL_MAX_LEN = 255"

definition parse_principal :: "string \<Rightarrow> (principal, policy_error) result" where
  "parse_principal value =
     (let invalid = InvalidPolicy ''principal''
      in if value = [] then Err (invalid MustNotBeEmpty)
         else if PRINCIPAL_MAX_LEN < length value then Err (invalid (TooManyBytes PRINCIPAL_MAX_LEN))
         else (case (case strip_prefix PRINCIPAL_AGENT_PREFIX value of
                       Some r \<Rightarrow> Some r | None \<Rightarrow> strip_prefix PRINCIPAL_SESSION_PREFIX value) of
             None \<Rightarrow> Err (invalid UnknownScheme)
           | Some remainder \<Rightarrow>
               if remainder = [] then Err (invalid EmptyIdentity)
               else if any_char is_control_cp remainder then Err (invalid ControlCharacters)
               else Ok value))"

datatype action = HttpRequest

datatype http_method = GET | POST | PUT | PATCH | DELETE | HEAD | OPTIONS

fun method_str :: "http_method \<Rightarrow> string" where
  "method_str GET = ''GET''"
| "method_str POST = ''POST''"
| "method_str PUT = ''PUT''"
| "method_str PATCH = ''PATCH''"
| "method_str DELETE = ''DELETE''"
| "method_str HEAD = ''HEAD''"
| "method_str OPTIONS = ''OPTIONS''"

record authorization_context =
  ctx_host :: string
  ctx_method :: http_method
  ctx_path :: string
  ctx_query :: "(string, string) bt_map"
  ctx_body_len_bytes :: u64
  ctx_environment :: "environment_id option"

datatype context_error = InvalidHost string | InvalidPath string

definition is_valid_hostname :: "string \<Rightarrow> bool" where
  "is_valid_hostname host \<longleftrightarrow>
     \<not> (host = [] \<or> starts_with ''.'' host \<or> ends_with ''.'' host)
     \<and> list_all (\<lambda>c. is_ascii_lowercase c \<or> is_ascii_digit c \<or> c = CHR ''.'' \<or> c = CHR ''-'') host
     \<and> list_all (\<lambda>label. label \<noteq> [] \<and> \<not> starts_with ''-'' label \<and> \<not> ends_with ''-'' label)
         (split_on (CHR ''.'') host)"

definition is_canonical_path :: "string \<Rightarrow> bool" where
  "is_canonical_path path \<longleftrightarrow>
     starts_with ''/'' path
     \<and> (path = ''/''
        \<or> list_all (\<lambda>segment. segment \<noteq> [] \<and> segment \<noteq> ''.'' \<and> segment \<noteq> ''..'')
            (split_on (CHR ''/'') (drop 1 path)))"

definition validate_context :: "authorization_context \<Rightarrow> (unit, context_error) result" where
  "validate_context c =
     (if \<not> is_valid_hostname (ctx_host c) then Err (InvalidHost (ctx_host c))
      else if \<not> is_canonical_path (ctx_path c) then Err (InvalidPath (ctx_path c))
      else Ok ())"

section \<open>Policy documents\<close>

record method_path_rule =
  methods :: "http_method list"
  paths :: "string list"

record http_rules =
  hosts :: "string list"
  allow_rules :: "method_path_rule list"
  deny_rules :: "method_path_rule list"

record request_constraints =
  req_max_body_bytes :: "u64 option"
  deny_headers :: "string list"

record response_constraints =
  resp_max_body_bytes :: "u64 option"
  redact_headers :: "string list"

record policy_document =
  doc_name :: policy_name
  doc_principal :: principal
  doc_credential :: credential_ref
  doc_environment :: "environment_id list"
  doc_http :: http_rules
  doc_request :: request_constraints
  doc_response :: response_constraints

section \<open>Path and host matching\<close>

definition split_segments :: "string \<Rightarrow> string list" where
  "split_segments value =
     split_on (CHR ''/'') (case strip_prefix ''/'' value of Some v \<Rightarrow> v | None \<Rightarrow> value)"

text \<open>The loop of \<open>validate_pattern\<close>; the last segment is the one with no successors.\<close>

fun valid_segments :: "string list \<Rightarrow> bool" where
  "valid_segments [] = True"
| "valid_segments (segment # rest) =
     (if segment = [] then False
      else if segment = ''..'' then False
      else if segment = ''**'' \<and> rest \<noteq> [] then False
      else valid_segments rest)"

definition validate_pattern :: "string \<Rightarrow> (unit, policy_error) result" where
  "validate_pattern pattern =
     (if pattern = [] \<or> \<not> starts_with ''/'' pattern then Err (InvalidPattern pattern)
      else if valid_segments (split_segments pattern) then Ok ()
      else Err (InvalidPattern pattern))"

definition segment_matches :: "string \<Rightarrow> string \<Rightarrow> bool" where
  "segment_matches pattern_segment path_segment \<longleftrightarrow>
     (if pattern_segment = ''*'' then path_segment \<noteq> [] else pattern_segment = path_segment)"

fun match_segments :: "string list \<Rightarrow> string list \<Rightarrow> bool" where
  "match_segments [] path = (path = [])"
| "match_segments (segment # rest) path =
     (if segment = ''**'' then True
      else (case path of
          head # tail \<Rightarrow> if segment_matches segment head then match_segments rest tail else False
        | [] \<Rightarrow> False))"

definition path_matches :: "string \<Rightarrow> string \<Rightarrow> bool" where
  "path_matches pattern path \<longleftrightarrow>
     (if is_err (validate_pattern pattern) then False
      else match_segments (split_segments pattern) (split_segments path))"

definition host_matches :: "string list \<Rightarrow> string \<Rightarrow> bool" where
  "host_matches host_list host \<longleftrightarrow>
     list_ex (\<lambda>candidate. eq_ignore_ascii_case candidate (to_ascii_lowercase host)) host_list"

section \<open>Validation of documents\<close>

text \<open>Error fields such as \<open>http.allow[2].methods\<close>.\<close>

definition indexed_field :: "string \<Rightarrow> nat \<Rightarrow> string \<Rightarrow> string" where
  "indexed_field prefix i field = prefix @ ''['' @ dec_of_nat i @ '']'' @ field"

fun validate_rules :: "string \<Rightarrow> nat \<Rightarrow> method_path_rule list \<Rightarrow> (unit, policy_error) result" where
  "validate_rules prefix i [] = Ok ()"
| "validate_rules prefix i (rule # rest) =
     (if methods rule = [] then Err (InvalidPolicy (indexed_field prefix i ''.methods'') NeedsMethod)
      else if paths rule = [] then Err (InvalidPolicy (indexed_field prefix i ''.paths'') NeedsPattern)
      else and_then (try_each validate_pattern (paths rule)) (\<lambda>_. validate_rules prefix (i + 1) rest))"

definition HEADER_TOKEN_EXTRA_CHARS :: string where
  "HEADER_TOKEN_EXTRA_CHARS = ''!#$%&'' @ [CHR 0x27] @ ''*+-.^_'' @ [CHR 0x60] @ ''|~''"

definition is_lowercase_header_token :: "string \<Rightarrow> bool" where
  "is_lowercase_header_token name \<longleftrightarrow>
     name \<noteq> []
     \<and> list_all (\<lambda>c. is_ascii_lowercase c \<or> is_ascii_digit c \<or> c \<in> set HEADER_TOKEN_EXTRA_CHARS) name"

definition validate_header_names :: "string \<Rightarrow> string list \<Rightarrow> (unit, policy_error) result" where
  "validate_header_names field names =
     try_each (\<lambda>name. if \<not> is_lowercase_header_token name
                      then Err (InvalidPolicy field (NotHeaderToken name)) else Ok ()) names"

definition validate_hostname :: "string \<Rightarrow> (unit, policy_error) result" where
  "validate_hostname host =
     (if is_valid_hostname host then Ok ()
      else Err (InvalidPolicy ''http.hosts''
                  (if CHR '':'' \<in> set host then PortNotAllowed host else NotHostname host)))"

definition validate_policy :: "policy_document \<Rightarrow> (unit, policy_error) result" where
  "validate_policy d =
     (if hosts (doc_http d) = [] then Err (InvalidPolicy ''http.hosts'' NeedsEntry)
      else and_then (try_each validate_hostname (hosts (doc_http d))) (\<lambda>_.
        if allow_rules (doc_http d) = [] then Err (InvalidPolicy ''http.allow'' NeedsRule)
        else and_then (validate_rules ''http.allow'' 0 (allow_rules (doc_http d))) (\<lambda>_.
          and_then (validate_rules ''http.deny'' 0 (deny_rules (doc_http d))) (\<lambda>_.
            if req_max_body_bytes (doc_request d) = Some 0
            then Err (InvalidPolicy ''request.max_body_bytes'' MustBePositive)
            else and_then (validate_header_names ''request.deny_headers'' (deny_headers (doc_request d))) (\<lambda>_.
              if resp_max_body_bytes (doc_response d) = Some 0
              then Err (InvalidPolicy ''response.max_body_bytes'' MustBePositive)
              else validate_header_names ''response.redact_headers'' (redact_headers (doc_response d)))))))"

definition parse_policy_yaml ::
  "(string \<Rightarrow> (policy_document, string) result) \<Rightarrow> string \<Rightarrow> (policy_document, policy_error) result" where
  "parse_policy_yaml from_yaml text =
     and_then (map_err ParseError (from_yaml text))
       (\<lambda>document. and_then (validate_policy document) (\<lambda>_. Ok document))"

section \<open>Reference definitions\<close>

text \<open>
  What a pattern means, without the matcher's recursion: a literal prefix of segments, and with a
  trailing \<open>**\<close> any continuation of it.
\<close>

definition pattern_denotes :: "string list \<Rightarrow> string list \<Rightarrow> bool" where
  "pattern_denotes ps xs \<longleftrightarrow>
     (if ps \<noteq> [] \<and> last ps = ''**''
      then length (butlast ps) \<le> length xs
           \<and> list_all2 segment_matches (butlast ps) (take (length (butlast ps)) xs)
      else list_all2 segment_matches ps xs)"

definition valid_rules :: "method_path_rule list \<Rightarrow> bool" where
  "valid_rules rs \<longleftrightarrow>
     (\<forall>r \<in> set rs. methods r \<noteq> [] \<and> paths r \<noteq> [] \<and> (\<forall>p \<in> set (paths r). is_ok (validate_pattern p)))"

definition well_formed_policy :: "policy_document \<Rightarrow> bool" where
  "well_formed_policy d \<longleftrightarrow>
     hosts (doc_http d) \<noteq> [] \<and> (\<forall>h \<in> set (hosts (doc_http d)). is_valid_hostname h)
     \<and> allow_rules (doc_http d) \<noteq> [] \<and> valid_rules (allow_rules (doc_http d) @ deny_rules (doc_http d))
     \<and> req_max_body_bytes (doc_request d) \<noteq> Some 0 \<and> resp_max_body_bytes (doc_response d) \<noteq> Some 0
     \<and> (\<forall>n \<in> set (deny_headers (doc_request d) @ redact_headers (doc_response d)).
          is_lowercase_header_token n)"

section \<open>Lemmas\<close>

lemma validate_context_Ok_iff:
  "validate_context c = Ok u \<longleftrightarrow> is_valid_hostname (ctx_host c) \<and> is_canonical_path (ctx_path c)"
  by (simp add: validate_context_def)

lemma validate_pattern_Ok_iff:
  "validate_pattern p = Ok u \<longleftrightarrow> starts_with ''/'' p \<and> valid_segments (split_segments p)"
  by (auto simp: validate_pattern_def starts_with_def)

lemma is_err_validate_pattern:
  "is_err (validate_pattern p) \<longleftrightarrow> \<not> (starts_with ''/'' p \<and> valid_segments (split_segments p))"
  by (auto simp: validate_pattern_def is_err_def starts_with_def)

lemma path_matches_iff:
  "path_matches p x \<longleftrightarrow>
     starts_with ''/'' p \<and> valid_segments (split_segments p)
     \<and> match_segments (split_segments p) (split_segments x)"
  by (auto simp: path_matches_def is_err_validate_pattern)

lemma pattern_denotes_simps:
  "pattern_denotes [] xs \<longleftrightarrow> xs = []"
  "pattern_denotes [''**''] xs"
  "s \<noteq> ''**'' \<Longrightarrow> \<not> pattern_denotes (s # ps) []"
  "s \<noteq> ''**'' \<Longrightarrow> pattern_denotes (s # ps) (x # xs) \<longleftrightarrow> segment_matches s x \<and> pattern_denotes ps xs"
  by (auto simp: pattern_denotes_def) (cases ps; auto)+

lemma match_segments_denotes:
  "valid_segments ps \<Longrightarrow> match_segments ps xs \<longleftrightarrow> pattern_denotes ps xs"
proof (induction ps xs rule: match_segments.induct)
  case (1 path)
  then show ?case by (simp add: pattern_denotes_simps)
next
  case (2 segment rest path)
  then show ?case
    by (cases path) (auto simp: pattern_denotes_simps split: if_splits)
qed

lemma valid_segments_iff:
  "valid_segments ps \<longleftrightarrow> [] \<notin> set ps \<and> ''..'' \<notin> set ps \<and> ''**'' \<notin> set (butlast ps)"
  by (induction ps) auto

lemma host_matches_iff:
  "host_matches hs h \<longleftrightarrow> (\<exists>x \<in> set hs. to_ascii_lowercase x = to_ascii_lowercase h)"
  by (auto simp: host_matches_def list_ex_iff eq_ignore_ascii_case_def)

lemma validate_rules_Ok_iff: "validate_rules f i rs = Ok () \<longleftrightarrow> valid_rules rs"
  by (induction rs arbitrary: i) (auto simp: valid_rules_def try_each_Ok_iff is_ok_iff)

lemma validate_header_names_Ok_iff:
  "validate_header_names f ns = Ok () \<longleftrightarrow> (\<forall>n \<in> set ns. is_lowercase_header_token n)"
  by (auto simp: validate_header_names_def try_each_Ok_iff)

lemma validate_policy_Ok_iff: "validate_policy d = Ok () \<longleftrightarrow> well_formed_policy d"
proof -
  have split: "valid_rules (xs @ ys) \<longleftrightarrow> valid_rules xs \<and> valid_rules ys" for xs ys
    by (auto simp: valid_rules_def)
  have host: "validate_hostname h = Ok () \<longleftrightarrow> is_valid_hostname h" for h
    by (simp add: validate_hostname_def)
  show ?thesis
    by (simp add: validate_policy_def well_formed_policy_def validate_rules_Ok_iff
        validate_header_names_Ok_iff try_each_Ok_iff host split) blast
qed

lemma valid_hostname_lower: "is_valid_hostname h \<Longrightarrow> to_ascii_lowercase h = h"
  by (rule to_ascii_lowercase_id)
     (auto simp: is_valid_hostname_def list_all_iff is_ascii_uppercase_def is_ascii_lowercase_def
       is_ascii_digit_def)

section \<open>Properties\<close>

text \<open>
  The recursive matcher decides the documented pattern language: a pattern matches a path
  exactly when it is absolute, has no empty, \<open>..\<close> or inner \<open>**\<close> segment, and its segments (\<open>*\<close>
  for any one non-empty segment) are those of the path, or of a prefix of it when the pattern ends
  in \<open>**\<close>.
\<close>

lemma path_matches_denotation:
  "path_matches pattern path \<longleftrightarrow>
     starts_with ''/'' pattern
     \<and> (let ps = split_segments pattern
        in [] \<notin> set ps \<and> ''..'' \<notin> set ps \<and> ''**'' \<notin> set (butlast ps)
           \<and> pattern_denotes ps (split_segments path))"
  by (auto simp: path_matches_iff match_segments_denotes valid_segments_iff Let_def)

text \<open>
  Loading a policy succeeds exactly on the well-formed documents the decoder returns: hosts and
  allow rules present, every hostname and header name lowercase and valid, every pattern in the
  grammar, no zero size limit; every other document is refused with an error.
\<close>

lemma parse_policy_yaml_Ok_iff:
  "parse_policy_yaml from_yaml text = Ok d \<longleftrightarrow> from_yaml text = Ok d \<and> well_formed_policy d"
  by (auto simp: parse_policy_yaml_def simp flip: validate_policy_Ok_iff)

end
