(* ===== verification/Policy_Engine.thy ===== *)
theory Policy_Engine
  imports Policy_Model
begin

text \<open>
  \<open>vaultx-policy/src/engine.rs\<close>: the rule engine behind the \<open>Authorizer\<close> trait.

  A compiled policy is the validated document itself.  \<open>evaluate\<close> takes the optional trace of the
  source and returns it extended.  The locale \<open>authorizer\<close> is the contract of the trait that the
  broker relies on; it is interpreted on the rule engine.
\<close>

section \<open>Requests, decisions and explanations\<close>

record authorization_request =
  req_principal :: principal
  req_action :: action
  req_resource :: credential_ref
  req_context :: authorization_context

datatype deny_reason =
    NoMatchingPolicy | ExplicitDeny | NoMatchingAllow | EnvironmentDenied | BodyTooLarge
  | InvalidContext

datatype authorization_decision =
    Allow policy_name
  | Deny deny_reason "policy_name option"

fun deny_reason_str :: "deny_reason \<Rightarrow> string" where
  "deny_reason_str NoMatchingPolicy = ''no_matching_policy''"
| "deny_reason_str ExplicitDeny = ''explicit_deny''"
| "deny_reason_str NoMatchingAllow = ''no_matching_allow''"
| "deny_reason_str EnvironmentDenied = ''environment_denied''"
| "deny_reason_str BodyTooLarge = ''body_too_large''"
| "deny_reason_str InvalidContext = ''invalid_context''"

datatype candidate_outcome =
    Allowed | DeniedByEnvironment | DeniedByHost | DeniedByExplicitDeny | DeniedByMissingAllow
  | DeniedByBodyLimit

record candidate_evaluation =
  ce_policy :: policy_name
  ce_outcome :: candidate_outcome

record policy_explanation =
  pe_decision :: authorization_decision
  pe_considered :: "candidate_evaluation list"

section \<open>The engine\<close>

record rule_engine =
  policies :: "policy_document list"

definition new_engine :: rule_engine where
  "new_engine = \<lparr>policies = []\<rparr>"

definition compile :: "policy_document \<Rightarrow> (policy_document, policy_error) result" where
  "compile document = and_then (validate_policy document) (\<lambda>_. Ok document)"

definition push :: "rule_engine \<Rightarrow> policy_document \<Rightarrow> (rule_engine, policy_error) result" where
  "push e document =
     and_then (compile document) (\<lambda>compiled.
       if list_ex (\<lambda>existing. doc_name existing = doc_name compiled) (policies e)
       then Err (DuplicatePolicyName (doc_name compiled))
       else Ok (e\<lparr>policies := policies e @ [compiled]\<rparr>))"

fun push_all :: "rule_engine \<Rightarrow> policy_document list \<Rightarrow> (rule_engine, policy_error) result" where
  "push_all e [] = Ok e"
| "push_all e (d # ds) = and_then (push e d) (\<lambda>e'. push_all e' ds)"

definition from_documents :: "policy_document list \<Rightarrow> (rule_engine, policy_error) result" where
  "from_documents documents = push_all new_engine documents"

definition is_candidate :: "policy_document \<Rightarrow> authorization_request \<Rightarrow> bool" where
  "is_candidate doc r \<longleftrightarrow> doc_principal doc = req_principal r \<and> doc_credential doc = req_resource r"

definition rules_match :: "method_path_rule list \<Rightarrow> http_method \<Rightarrow> string \<Rightarrow> bool" where
  "rules_match rules m path \<longleftrightarrow>
     list_ex (\<lambda>rule. m \<in> set (methods rule)
                     \<and> list_ex (\<lambda>pattern. path_matches pattern path) (paths rule)) rules"

datatype gate_outcome = GateAllowed | GateFailed deny_reason candidate_outcome

definition evaluate_gates :: "policy_document \<Rightarrow> authorization_context \<Rightarrow> gate_outcome" where
  "evaluate_gates doc c =
     (if doc_environment doc \<noteq> []
         \<and> \<not> (case ctx_environment c of
                Some env \<Rightarrow> list_ex (\<lambda>allowed. allowed = env) (doc_environment doc) | None \<Rightarrow> False)
      then GateFailed EnvironmentDenied DeniedByEnvironment
      else if \<not> host_matches (hosts (doc_http doc)) (ctx_host c)
      then GateFailed NoMatchingAllow DeniedByHost
      else if \<not> rules_match (allow_rules (doc_http doc)) (ctx_method c) (ctx_path c)
      then GateFailed NoMatchingAllow DeniedByMissingAllow
      else (case req_max_body_bytes (doc_request doc) of
          Some max_bytes \<Rightarrow>
            if max_bytes < ctx_body_len_bytes c then GateFailed BodyTooLarge DeniedByBodyLimit
            else GateAllowed
        | None \<Rightarrow> GateAllowed))"

type_synonym trace = "candidate_evaluation list option"

definition trace_push :: "policy_name \<Rightarrow> candidate_outcome \<Rightarrow> trace \<Rightarrow> trace" where
  "trace_push p out t = map_option (\<lambda>entries. entries @ [\<lparr>ce_policy = p, ce_outcome = out\<rparr>]) t"

text \<open>The first loop of \<open>evaluate\<close>: the first candidate with a matching deny rule.\<close>

fun deny_pass :: "policy_document list \<Rightarrow> authorization_request \<Rightarrow> policy_name option" where
  "deny_pass [] r = None"
| "deny_pass (doc # rest) r =
     (if \<not> is_candidate doc r then deny_pass rest r
      else if rules_match (deny_rules (doc_http doc)) (ctx_method (req_context r)) (ctx_path (req_context r))
      then Some (doc_name doc)
      else deny_pass rest r)"

text \<open>The second loop, with \<open>first_failure\<close> and the trace as its state.\<close>

fun allow_pass ::
  "policy_document list \<Rightarrow> authorization_request \<Rightarrow> (deny_reason \<times> policy_name) option \<Rightarrow> trace
   \<Rightarrow> authorization_decision \<times> trace" where
  "allow_pass [] r first_failure t =
     ((case first_failure of
         None \<Rightarrow> Deny NoMatchingPolicy None
       | Some (reason, policy) \<Rightarrow> Deny reason (Some policy)), t)"
| "allow_pass (doc # rest) r first_failure t =
     (if \<not> is_candidate doc r then allow_pass rest r first_failure t
      else (case evaluate_gates doc (req_context r) of
          GateAllowed \<Rightarrow> (Allow (doc_name doc), trace_push (doc_name doc) Allowed t)
        | GateFailed reason outcome \<Rightarrow>
            allow_pass rest r
              (if first_failure = None then Some (reason, doc_name doc) else first_failure)
              (trace_push (doc_name doc) outcome t)))"

definition evaluate ::
  "rule_engine \<Rightarrow> authorization_request \<Rightarrow> trace \<Rightarrow> authorization_decision \<times> trace" where
  "evaluate e r t =
     (if is_err (validate_context (req_context r)) then (Deny InvalidContext None, t)
      else if policies e = [] then (Deny NoMatchingPolicy None, t)
      else (case deny_pass (policies e) r of
          Some p \<Rightarrow> (Deny ExplicitDeny (Some p), trace_push p DeniedByExplicitDeny t)
        | None \<Rightarrow> allow_pass (policies e) r None t))"

definition authorize :: "rule_engine \<Rightarrow> authorization_request \<Rightarrow> authorization_decision" where
  "authorize e r = fst (evaluate e r None)"

definition explain :: "rule_engine \<Rightarrow> authorization_request \<Rightarrow> policy_explanation" where
  "explain e r =
     (let (decision, t) = evaluate e r (Some [])
      in \<lparr>pe_decision = decision, pe_considered = (case t of Some entries \<Rightarrow> entries | None \<Rightarrow> [])\<rparr>)"

section \<open>Reference definitions\<close>

text \<open>The decision as a statement about the set of documents, without order or loops.\<close>

definition denies :: "policy_document \<Rightarrow> authorization_request \<Rightarrow> bool" where
  "denies d r \<longleftrightarrow>
     is_candidate d r
     \<and> (\<exists>rule \<in> set (deny_rules (doc_http d)). ctx_method (req_context r) \<in> set (methods rule)
          \<and> (\<exists>p \<in> set (paths rule). path_matches p (ctx_path (req_context r))))"

definition grants :: "policy_document \<Rightarrow> authorization_request \<Rightarrow> bool" where
  "grants d r \<longleftrightarrow>
     is_candidate d r
     \<and> (doc_environment d = [] \<or> (\<exists>env \<in> set (doc_environment d). ctx_environment (req_context r) = Some env))
     \<and> (\<exists>h \<in> set (hosts (doc_http d)). to_ascii_lowercase h = to_ascii_lowercase (ctx_host (req_context r)))
     \<and> (\<exists>rule \<in> set (allow_rules (doc_http d)). ctx_method (req_context r) \<in> set (methods rule)
          \<and> (\<exists>p \<in> set (paths rule). path_matches p (ctx_path (req_context r))))
     \<and> (\<forall>m. req_max_body_bytes (doc_request d) = Some m \<longrightarrow> ctx_body_len_bytes (req_context r) \<le> m)"

definition permitted :: "policy_document set \<Rightarrow> authorization_request \<Rightarrow> bool" where
  "permitted D r \<longleftrightarrow>
     validate_context (req_context r) = Ok () \<and> (\<forall>d \<in> D. \<not> denies d r) \<and> (\<exists>d \<in> D. grants d r)"

definition engine_inv :: "rule_engine \<Rightarrow> bool" where
  "engine_inv e \<longleftrightarrow>
     distinct (map doc_name (policies e)) \<and> (\<forall>d \<in> set (policies e). well_formed_policy d)"

text \<open>The verdict of one candidate's gates, as the explanation reports it.\<close>

definition verdict :: "authorization_request \<Rightarrow> policy_document \<Rightarrow> candidate_evaluation" where
  "verdict r d =
     \<lparr>ce_policy = doc_name d,
      ce_outcome = (case evaluate_gates d (req_context r) of
                      GateAllowed \<Rightarrow> Allowed | GateFailed _ out \<Rightarrow> out)\<rparr>"

abbreviation candidates :: "rule_engine \<Rightarrow> authorization_request \<Rightarrow> policy_document list" where
  "candidates e r \<equiv> filter (\<lambda>d. is_candidate d r) (policies e)"

section \<open>Sample documents\<close>

definition sample_deny_rule :: method_path_rule where
  "sample_deny_rule = \<lparr>methods = [DELETE, POST], paths = [''/repos/*/secrets'']\<rparr>"

definition sample_doc :: policy_document where
  "sample_doc =
     \<lparr>doc_name = ''ci'', doc_principal = ''agent:ci'', doc_credential = ''github'', doc_environment = [],
      doc_http = \<lparr>hosts = [''api.github.com''],
                  allow_rules = [\<lparr>methods = [GET, POST], paths = [''/repos/**'']\<rparr>],
                  deny_rules = [sample_deny_rule]\<rparr>,
      doc_request = \<lparr>req_max_body_bytes = Some 1024, deny_headers = []\<rparr>,
      doc_response = \<lparr>resp_max_body_bytes = None, redact_headers = []\<rparr>\<rparr>"

definition sample_request :: "http_method \<Rightarrow> string \<Rightarrow> authorization_request" where
  "sample_request m path =
     \<lparr>req_principal = ''agent:ci'', req_action = HttpRequest, req_resource = ''github'',
      req_context = \<lparr>ctx_host = ''api.github.com'', ctx_method = m, ctx_path = path, ctx_query = [],
                     ctx_body_len_bytes = 10, ctx_environment = None\<rparr>\<rparr>"

definition other_doc :: policy_document where
  "other_doc = sample_doc\<lparr>doc_name := ''ops'', doc_principal := ''agent:ops''\<rparr>"

section \<open>The authorizer contract\<close>

locale authorizer =
  fixes decide :: "authorization_request \<Rightarrow> authorization_decision"
    and documents :: "policy_document set"
  assumes allow_iff_permitted: "(\<exists>p. decide r = Allow p) \<longleftrightarrow> permitted documents r"
    and allow_names_granting:
      "decide r = Allow p \<Longrightarrow> \<exists>d \<in> documents. doc_name d = p \<and> grants d r"
begin

lemma default_deny:
  assumes "\<forall>d \<in> documents. \<not> is_candidate d r"
  shows "\<exists>reason p. decide r = Deny reason p"
  using allow_iff_permitted [of r] assms
  by (cases "decide r") (auto simp: permitted_def grants_def)

lemma deny_overrides:
  assumes "d \<in> documents" "denies d r"
  shows "\<exists>reason p. decide r = Deny reason p"
  using allow_iff_permitted [of r] assms by (cases "decide r") (auto simp: permitted_def)

lemma allow_canonical: "decide r = Allow p \<Longrightarrow> validate_context (req_context r) = Ok ()"
  using allow_iff_permitted [of r] by (auto simp: permitted_def)

end

section \<open>Lemmas\<close>

lemma rules_match_iff:
  "rules_match rules m path \<longleftrightarrow>
     (\<exists>rule \<in> set rules. m \<in> set (methods rule) \<and> (\<exists>p \<in> set (paths rule). path_matches p path))"
  by (simp add: rules_match_def list_ex_iff)

lemma denies_iff:
  "denies d r \<longleftrightarrow> is_candidate d r
     \<and> rules_match (deny_rules (doc_http d)) (ctx_method (req_context r)) (ctx_path (req_context r))"
  by (simp add: denies_def rules_match_iff)

lemma grants_iff:
  "grants d r \<longleftrightarrow> is_candidate d r \<and> evaluate_gates d (req_context r) = GateAllowed"
  by (auto simp: grants_def evaluate_gates_def rules_match_iff host_matches_iff list_ex_iff not_less
      split: option.splits)

lemma deny_pass_None_iff: "deny_pass ds r = None \<longleftrightarrow> (\<forall>d \<in> set ds. \<not> denies d r)"
  by (induction ds r rule: deny_pass.induct) (auto simp: denies_iff)

lemma deny_pass_Some: "deny_pass ds r = Some p \<Longrightarrow> \<exists>d \<in> set ds. denies d r \<and> doc_name d = p"
  by (induction ds r rule: deny_pass.induct) (auto simp: denies_iff split: if_splits)

lemma allow_pass_Allow:
  "fst (allow_pass ds r ff t) = Allow p \<Longrightarrow> \<exists>d \<in> set ds. grants d r \<and> doc_name d = p"
  by (induction ds r ff t rule: allow_pass.induct)
     (auto simp: grants_iff split: if_splits gate_outcome.splits option.splits)

lemma allow_pass_grants:
  "d \<in> set ds \<Longrightarrow> grants d r \<Longrightarrow> \<exists>p. fst (allow_pass ds r ff t) = Allow p"
  by (induction ds r ff t rule: allow_pass.induct) (auto simp: grants_iff split: gate_outcome.splits)

lemma allow_pass_trace_irrelevant: "fst (allow_pass ds r ff t) = fst (allow_pass ds r ff t')"
proof (induction ds arbitrary: ff t t')
  case (Cons d ds)
  show ?case
    by (cases "is_candidate d r"; cases "evaluate_gates d (req_context r)")
       (simp_all add: Cons.IH [of _ "trace_push _ _ t" "trace_push _ _ t'"] Cons.IH [of _ t t'])
qed simp

lemma evaluate_trace_irrelevant: "fst (evaluate e r t) = fst (evaluate e r t')"
  using allow_pass_trace_irrelevant by (auto simp: evaluate_def split: option.splits)

lemma authorize_Allow_iff: "(\<exists>p. authorize e r = Allow p) \<longleftrightarrow> permitted (set (policies e)) r"
proof
  assume "\<exists>p. authorize e r = Allow p"
  then show "permitted (set (policies e)) r"
    by (auto simp: authorize_def evaluate_def permitted_def is_err_def is_ok_iff deny_pass_None_iff
        dest!: allow_pass_Allow split: if_splits option.splits)
next
  assume *: "permitted (set (policies e)) r"
  then obtain d where "d \<in> set (policies e)" "grants d r" by (auto simp: permitted_def)
  with * allow_pass_grants [of d "policies e" r] show "\<exists>p. authorize e r = Allow p"
    by (auto simp: authorize_def evaluate_def permitted_def is_err_def simp flip: deny_pass_None_iff)
qed

lemma authorize_Allow_names:
  "authorize e r = Allow p \<Longrightarrow> \<exists>d \<in> set (policies e). doc_name d = p \<and> grants d r"
  by (auto simp: authorize_def evaluate_def split: if_splits option.splits dest!: allow_pass_Allow)

interpretation re: authorizer "authorize e" "set (policies e)" for e
  by unfold_locales (auto simp: authorize_Allow_iff dest: authorize_Allow_names)

lemma authorize_explicit_deny:
  assumes "validate_context (req_context r) = Ok ()" "d \<in> set (policies e)" "denies d r"
  shows "\<exists>d' \<in> set (policies e). denies d' r \<and> authorize e r = Deny ExplicitDeny (Some (doc_name d'))"
proof -
  obtain p where p: "deny_pass (policies e) r = Some p"
    using assms(2,3) deny_pass_None_iff [of "policies e" r] by (cases "deny_pass (policies e) r") auto
  with deny_pass_Some [OF p] assms show ?thesis
    by (auto simp: authorize_def evaluate_def)
qed

lemma push_Ok_iff:
  "push e d = Ok e' \<longleftrightarrow>
     well_formed_policy d \<and> doc_name d \<notin> doc_name ` set (policies e)
     \<and> e' = e\<lparr>policies := policies e @ [d]\<rparr>"
  by (auto simp: push_def compile_def list_ex_iff image_iff simp flip: validate_policy_Ok_iff)
     metis

lemma push_all_inv: "push_all e ds = Ok e' \<Longrightarrow> engine_inv e \<Longrightarrow> engine_inv e'"
proof (induction ds arbitrary: e)
  case (Cons d ds)
  then obtain e1 where "push e d = Ok e1" "push_all e1 ds = Ok e'" by auto
  moreover from this have "engine_inv e1" using Cons.prems(2) by (auto simp: push_Ok_iff engine_inv_def)
  ultimately show ?case using Cons.IH by blast
qed simp

lemma push_all_policies: "push_all e ds = Ok e' \<Longrightarrow> policies e' = policies e @ ds"
  by (induction ds arbitrary: e) (fastforce simp: push_Ok_iff)+

lemma push_all_complete:
  "engine_inv (e\<lparr>policies := policies e @ ds\<rparr>) \<Longrightarrow> \<exists>e'. push_all e ds = Ok e'"
proof (induction ds arbitrary: e)
  case (Cons d ds)
  have "push e d = Ok (e\<lparr>policies := policies e @ [d]\<rparr>)"
    using Cons.prems by (auto simp: push_Ok_iff engine_inv_def)
  with Cons.IH [of "e\<lparr>policies := policies e @ [d]\<rparr>"] Cons.prems show ?case by simp
qed simp

text \<open>The deny pass and the allow pass look at candidates only.\<close>

lemma deny_pass_filter: "deny_pass ds r = deny_pass (filter (\<lambda>d. is_candidate d r) ds) r"
  by (induction ds) auto

lemma allow_pass_filter:
  "allow_pass ds r ff t = allow_pass (filter (\<lambda>d. is_candidate d r) ds) r ff t"
  by (induction ds arbitrary: ff t) (auto split: gate_outcome.splits)

lemma authorize_by_candidates:
  "authorize e r =
     (if is_err (validate_context (req_context r)) then Deny InvalidContext None
      else (let cs = filter (\<lambda>d. is_candidate d r) (policies e)
            in case deny_pass cs r of
                 Some p \<Rightarrow> Deny ExplicitDeny (Some p)
               | None \<Rightarrow> fst (allow_pass cs r None None)))"
proof (cases "policies e = []")
  case True
  then show ?thesis by (simp add: authorize_def evaluate_def Let_def)
next
  case False
  then show ?thesis
    using deny_pass_filter [of "policies e" r] allow_pass_filter [of "policies e" r None None]
    by (auto simp: authorize_def evaluate_def Let_def split: option.splits)
qed



lemma allow_pass_trace:
  "\<forall>d \<in> set ds. is_candidate d r \<Longrightarrow>
     \<exists>n. snd (allow_pass ds r ff (Some es)) = Some (es @ map (verdict r) (take n ds))
         \<and> (\<forall>d \<in> set (take (n - 1) ds). \<not> grants d r)
         \<and> (n = length ds \<or> (\<exists>p. fst (allow_pass ds r ff (Some es)) = Allow p))"
proof (induction ds arbitrary: ff es)
  case (Cons d ds)
  show ?case
  proof (cases "evaluate_gates d (req_context r)")
    case GateAllowed
    then show ?thesis
      using Cons.prems by (intro exI [of _ 1]) (simp add: trace_push_def verdict_def)
  next
    case (GateFailed reason out)
    let ?ff = "if ff = None then Some (reason, doc_name d) else ff"
    obtain n where n: "snd (allow_pass ds r ?ff (Some (es @ [verdict r d])))
          = Some ((es @ [verdict r d]) @ map (verdict r) (take n ds))"
        "\<forall>d \<in> set (take (n - 1) ds). \<not> grants d r"
        "n = length ds \<or> (\<exists>p. fst (allow_pass ds r ?ff (Some (es @ [verdict r d]))) = Allow p)"
      using Cons.IH Cons.prems by (metis list.set_intros(2))
    have ng: "\<not> grants d r" using GateFailed by (simp add: grants_iff)
    then have "\<forall>d \<in> set (take n (d # ds)). \<not> grants d r"
      using n(2) by (cases n) auto
    with n GateFailed Cons.prems show ?thesis
      by (intro exI [of _ "Suc n"]) (simp add: trace_push_def verdict_def)
  qed
qed simp

lemma explain_considered:
  assumes "validate_context (req_context r) = Ok ()" "deny_pass (policies e) r = None"
  shows "\<exists>n. pe_considered (explain e r) = map (verdict r) (take n (candidates e r))
             \<and> (\<forall>d \<in> set (take (n - 1) (candidates e r)). \<not> grants d r)
             \<and> (n = length (candidates e r) \<or> (\<exists>p. authorize e r = Allow p))"
proof (cases "policies e = []")
  case True
  then show ?thesis using assms by (simp add: explain_def evaluate_def)
next
  case False
  obtain n where n: "snd (allow_pass (candidates e r) r None (Some [])) =
        Some (map (verdict r) (take n (candidates e r)))"
      "\<forall>d \<in> set (take (n - 1) (candidates e r)). \<not> grants d r"
      "n = length (candidates e r) \<or> (\<exists>p. fst (allow_pass (candidates e r) r None (Some [])) = Allow p)"
    using allow_pass_trace [of "candidates e r" r None "[]"] by auto
  then have "evaluate e r (Some []) = allow_pass (candidates e r) r None (Some [])"
    using False assms allow_pass_filter [of "policies e" r] by (simp add: evaluate_def)
  with n evaluate_trace_irrelevant [of e r "Some []" None] show ?thesis
    by (intro exI [of _ n]) (auto simp: explain_def authorize_def split: prod.splits)
qed

lemma distinct_map_same_set:
  assumes "distinct (map f xs)" "set ys = set xs" "length ys = length xs"
  shows "distinct (map f ys)"
  using assms by (metis card_distinct distinct_card distinct_map)

section \<open>Properties\<close>

text \<open>
  C27. The engine decides the set-level specification: a request is allowed exactly when its context
  is canonical, no candidate document denies it and some candidate grants it (environment, host,
  allow rule and body limit); an allow names a granting document of the engine.
\<close>

theorem authorize_correct:
  "case authorize e r of
     Allow p \<Rightarrow> permitted (set (policies e)) r \<and> (\<exists>d \<in> set (policies e). doc_name d = p \<and> grants d r)
   | Deny _ _ \<Rightarrow> \<not> permitted (set (policies e)) r"
proof (cases "authorize e r")
  case (Allow p)
  then show ?thesis
    using re.allow_iff_permitted [of e r] re.allow_names_granting [OF Allow] by auto
next
  case (Deny reason p)
  then show ?thesis using re.allow_iff_permitted [of e r] by auto
qed

text \<open>
  An explicit deny rule of any candidate wins over every allow, whatever the insertion order and
  whatever the environment and host gates say, and the decision names a denying document.
\<close>

lemma explicit_deny_wins:
  assumes "validate_context (req_context r) = Ok ()" "d \<in> set (policies e)" "denies d r"
  shows "\<exists>d' \<in> set (policies e). denies d' r \<and> authorize e r = Deny ExplicitDeny (Some (doc_name d'))"
  using assms by (rule authorize_explicit_deny)

lemma explicit_deny_wins_witness:
  "authorize \<lparr>policies = [sample_doc]\<rparr> (sample_request POST ''/repos/acme/secrets'')
   = Deny ExplicitDeny (Some ''ci'')"
proof -
  have "validate_context (req_context (sample_request POST ''/repos/acme/secrets'')) = Ok ()"
    by code_simp
  moreover have "denies sample_doc (sample_request POST ''/repos/acme/secrets'')"
    unfolding denies_iff by code_simp
  moreover have "doc_name sample_doc = ''ci''" by code_simp
  ultimately show ?thesis
    using explicit_deny_wins [of "sample_request POST ''/repos/acme/secrets''" sample_doc
        "\<lparr>policies = [sample_doc]\<rparr>"] by simp
qed

text \<open>
  Building an engine accepts exactly the document lists whose names are distinct and whose
  documents are well formed, and the engine then holds those documents in that order.
\<close>

lemma from_documents_Ok_iff:
  "from_documents ds = Ok e \<longleftrightarrow> engine_inv e \<and> policies e = ds"
proof
  assume "from_documents ds = Ok e"
  then show "engine_inv e \<and> policies e = ds"
    using push_all_inv [of new_engine ds e] push_all_policies [of new_engine ds e]
    by (simp add: from_documents_def engine_inv_def new_engine_def)
next
  assume *: "engine_inv e \<and> policies e = ds"
  then have e: "e = new_engine\<lparr>policies := policies new_engine @ ds\<rparr>"
    by (simp add: new_engine_def)
  then obtain e' where e': "push_all new_engine ds = Ok e'" using * push_all_complete by metis
  from push_all_policies [OF this] e have "e' = e" by (simp add: new_engine_def)
  with e' show "from_documents ds = Ok e" by (simp add: from_documents_def)
qed

text \<open>
  The order in which documents are loaded does not matter for what is allowed: the same documents
  in any order build an engine that allows exactly the same requests.
\<close>

lemma load_order_irrelevant:
  assumes "push_all new_engine ds = Ok e" "set ds' = set ds" "length ds' = length ds"
  shows "\<exists>e'. push_all new_engine ds' = Ok e'
            \<and> ((\<exists>p. authorize e' r = Allow p) \<longleftrightarrow> (\<exists>p. authorize e r = Allow p))"
proof -
  have inv: "engine_inv e" "policies e = ds"
    using push_all_inv [OF assms(1)] push_all_policies [OF assms(1)]
    by (simp_all add: engine_inv_def new_engine_def)
  then have "engine_inv (new_engine\<lparr>policies := policies new_engine @ ds'\<rparr>)"
    using distinct_map_same_set [of doc_name ds ds'] assms by (simp add: engine_inv_def new_engine_def)
  then obtain e' where e': "push_all new_engine ds' = Ok e'" using push_all_complete by blast
  moreover have "policies e' = ds'" using push_all_policies [OF e'] by (simp add: new_engine_def)
  ultimately show ?thesis using inv assms(2) by (auto simp: re.allow_iff_permitted)
qed

lemma load_order_irrelevant_witness:
  "\<exists>e'. push_all new_engine [other_doc, sample_doc] = Ok e'"
proof -
  have "push_all new_engine [sample_doc, other_doc] = Ok \<lparr>policies = [sample_doc, other_doc]\<rparr>"
    by code_simp
  from load_order_irrelevant [OF this, of "[other_doc, sample_doc]"] show ?thesis
    by (simp add: insert_commute) blast
qed

text \<open>
  A policy for another principal or another credential never changes a decision: adding it leaves
  the answer to every request it is not a candidate for as it was, reason and policy name included.
\<close>

lemma push_frame:
  assumes "push e d = Ok e'" "\<not> is_candidate d r"
  shows "authorize e' r = authorize e r"
  using assms by (auto simp: push_Ok_iff authorize_by_candidates)

lemma push_frame_witness:
  "authorize \<lparr>policies = [sample_doc, other_doc]\<rparr> (sample_request GET ''/repos/acme'')
   = authorize \<lparr>policies = [sample_doc]\<rparr> (sample_request GET ''/repos/acme'')"
proof (rule push_frame)
  show "push \<lparr>policies = [sample_doc]\<rparr> other_doc = Ok \<lparr>policies = [sample_doc, other_doc]\<rparr>" by code_simp
  show "\<not> is_candidate other_doc (sample_request GET ''/repos/acme'')" by code_simp
qed

text \<open>
  \<open>policy explain\<close> reports the decision that \<open>authorize\<close> takes, and its trace is honest: an
  explicit deny is the only entry when there is one; otherwise the trace lists the verdicts of the
  candidates in order, stopping early only at the candidate that allows the request.
\<close>

lemma explain_faithful:
  "pe_decision (explain e r) = authorize e r
   \<and> (if is_err (validate_context (req_context r)) then pe_considered (explain e r) = []
      else (case deny_pass (policies e) r of
          Some p \<Rightarrow> pe_considered (explain e r) = [\<lparr>ce_policy = p, ce_outcome = DeniedByExplicitDeny\<rparr>]
        | None \<Rightarrow>
            (\<exists>n. pe_considered (explain e r) = map (verdict r) (take n (candidates e r))
               \<and> (n = length (candidates e r) \<or> (\<exists>p. authorize e r = Allow p)))))"
proof -
  have "pe_decision (explain e r) = authorize e r"
    using evaluate_trace_irrelevant [of e r "Some []" None]
    by (auto simp: explain_def authorize_def split: prod.splits)
  moreover have "pe_considered (explain e r) = []" if "validate_context (req_context r) = Err x" for x
    using that by (simp add: explain_def evaluate_def)
  moreover have "pe_considered (explain e r) = [\<lparr>ce_policy = p, ce_outcome = DeniedByExplicitDeny\<rparr>]"
    if "validate_context (req_context r) = Ok ()" "deny_pass (policies e) r = Some p" for p
    using that by (auto simp: explain_def evaluate_def trace_push_def)
  ultimately show ?thesis
    using explain_considered [of r e]
    by (cases "validate_context (req_context r)"; cases "deny_pass (policies e) r") (simp_all, blast)
qed

end
