(* ===== verification/Session_Constraints.thy ===== *)
theory Session_Constraints
  imports Policy_Model
begin

text \<open>
  \<open>vaultx-broker/src/session.rs\<close>, first half: the narrowing constraints of delegated sessions, their
  intersection and the check of one request against them.  A \<open>BTreeSet\<close> is the ascending list of its
  elements.
\<close>

section \<open>Data\<close>

record session_constraints =
  sc_credentials :: "string list option"
  sc_environments :: "string list option"
  sc_hosts :: "string list option"
  sc_methods :: "string list option"
  sc_paths :: "string list option"
  sc_remaining :: "u64 option"

definition is_unconstrained :: "session_constraints \<Rightarrow> bool" where
  "is_unconstrained c \<longleftrightarrow>
     sc_credentials c = None \<and> sc_environments c = None \<and> sc_hosts c = None
     \<and> sc_methods c = None \<and> sc_paths c = None \<and> sc_remaining c = None"

section \<open>Narrowing\<close>

fun narrow_set :: "string list option \<Rightarrow> string list option \<Rightarrow> string list option" where
  "narrow_set (Some a) (Some b) = Some (filter (\<lambda>x. x \<in> set b) a)"
| "narrow_set only None = only"
| "narrow_set None only = only"

text \<open>The inner function \<open>split\<close> of \<open>glob_subsumes\<close>: the segments and whether they end in \<open>**\<close>.\<close>

definition split_glob :: "string \<Rightarrow> (string list \<times> bool) option" where
  "split_glob pattern =
     (if is_err (validate_pattern pattern) then None
      else (let segments = split_segments pattern;
                starred = (segments \<noteq> [] \<and> last segments = ''**'')
            in Some (if starred then butlast segments else segments, starred)))"

definition covered_prefix :: "string list \<Rightarrow> string list \<Rightarrow> bool" where
  "covered_prefix ps cs \<longleftrightarrow> list_all (\<lambda>(p, c). p = ''*'' \<or> p = c) (zip ps cs)"

definition glob_subsumes :: "string \<Rightarrow> string \<Rightarrow> bool" where
  "glob_subsumes parent child \<longleftrightarrow>
     (case split_glob parent of
        None \<Rightarrow> False
      | Some (p_segments, p_star) \<Rightarrow>
          (case split_glob child of
             None \<Rightarrow> False
           | Some (c_segments, c_star) \<Rightarrow>
               if p_segments = [] \<and> p_star then True
               else if c_segments = [] \<and> c_star then False
               else if p_star
               then length p_segments \<le> length c_segments \<and> covered_prefix p_segments c_segments
               else if c_star then False
               else length p_segments = length c_segments \<and> covered_prefix p_segments c_segments))"

fun narrow_paths :: "string list option \<Rightarrow> string list option \<Rightarrow> string list option" where
  "narrow_paths (Some kept) (Some wanted) =
     Some (filter (\<lambda>child. list_ex (\<lambda>pattern. glob_subsumes pattern child) kept) wanted)"
| "narrow_paths only None = only"
| "narrow_paths None only = only"

fun narrow_budget :: "u64 option \<Rightarrow> u64 option \<Rightarrow> u64 option" where
  "narrow_budget (Some parent) (Some child) = Some (min parent child)"
| "narrow_budget only None = only"
| "narrow_budget None only = only"

definition narrow :: "session_constraints \<Rightarrow> session_constraints \<Rightarrow> session_constraints" where
  "narrow self requested =
     \<lparr>sc_credentials = narrow_set (sc_credentials self) (sc_credentials requested),
      sc_environments = narrow_set (sc_environments self) (sc_environments requested),
      sc_hosts = narrow_set (sc_hosts self) (sc_hosts requested),
      sc_methods = narrow_set (sc_methods self) (sc_methods requested),
      sc_paths = narrow_paths (sc_paths self) (sc_paths requested),
      sc_remaining = narrow_budget (sc_remaining self) (sc_remaining requested)\<rparr>"

section \<open>Checking a request\<close>

definition check_request ::
  "session_constraints \<Rightarrow> string \<Rightarrow> string \<Rightarrow> string \<Rightarrow> string \<Rightarrow> string \<Rightarrow> (unit, string) result" where
  "check_request self credential environment host m path =
     (let gate = (\<lambda>dim ok. case dim of None \<Rightarrow> True | Some xs \<Rightarrow> ok xs)
      in if \<not> gate (sc_credentials self) (\<lambda>xs. credential \<in> set xs) then Err ''credential''
         else if \<not> gate (sc_environments self) (\<lambda>xs. environment \<in> set xs) then Err ''environment''
         else if \<not> gate (sc_hosts self)
                (list_ex (\<lambda>candidate. eq_ignore_ascii_case candidate (to_ascii_lowercase host)))
         then Err ''host''
         else if \<not> gate (sc_methods self) (list_ex (\<lambda>allowed. eq_ignore_ascii_case allowed m))
         then Err ''method''
         else if \<not> gate (sc_paths self) (list_ex (\<lambda>pattern. path_matches pattern path))
         then Err ''path''
         else Ok ())"

section \<open>Reference definitions\<close>

text \<open>One dimension of a constraint set: absent means unrestricted.\<close>

definition within :: "('a list) option \<Rightarrow> ('a \<Rightarrow> bool) \<Rightarrow> bool" where
  "within dim P \<longleftrightarrow> (\<forall>xs. dim = Some xs \<longrightarrow> (\<exists>x \<in> set xs. P x))"

text \<open>The budgets \<open>None\<close> and \<open>Some n\<close> as a number of requests, unlimited included.\<close>

definition budget_le :: "u64 option \<Rightarrow> u64 option \<Rightarrow> bool" where
  "budget_le a b \<longleftrightarrow> (\<forall>n. b = Some n \<longrightarrow> (\<exists>m. a = Some m \<and> m \<le> n))"

section \<open>Lemmas\<close>

lemma check_request_Ok_iff:
  "check_request c cred env host m path = Ok u \<longleftrightarrow>
     within (sc_credentials c) (\<lambda>x. x = cred) \<and> within (sc_environments c) (\<lambda>x. x = env)
     \<and> within (sc_hosts c) (\<lambda>x. eq_ignore_ascii_case x host)
     \<and> within (sc_methods c) (\<lambda>x. eq_ignore_ascii_case x m)
     \<and> within (sc_paths c) (\<lambda>p. path_matches p path)"
  by (auto simp: check_request_def within_def Let_def list_ex_iff split: option.splits)

lemma within_narrow_set: "within (narrow_set a b) P \<Longrightarrow> within a P \<and> within b P"
  by (cases "(a, b)" rule: narrow_set.cases) (auto simp: within_def)

lemma split_glob_Some:
  "split_glob p = Some (ss, starred) \<longleftrightarrow>
     is_ok (validate_pattern p)
     \<and> starred = (split_segments p \<noteq> [] \<and> last (split_segments p) = ''**'')
     \<and> ss = (if starred then butlast (split_segments p) else split_segments p)"
  by (auto simp: split_glob_def Let_def is_err_def)

lemma covered_prefix_matches:
  assumes "covered_prefix ps cs" "length ps \<le> length cs" "length cs \<le> length xs"
    and "list_all2 segment_matches cs (take (length cs) xs)" "[] \<notin> set cs"
  shows "list_all2 segment_matches ps (take (length ps) xs)"
  using assms
proof (induction ps arbitrary: cs xs)
  case (Cons p ps)
  then obtain c cs' where cs: "cs = c # cs'" by (cases cs) auto
  with Cons.prems obtain x xs' where xs: "xs = x # xs'" by (cases xs) auto
  have "segment_matches p x"
    using Cons.prems cs xs by (auto simp: covered_prefix_def segment_matches_def split: if_splits)
  moreover have "list_all2 segment_matches ps (take (length ps) xs')"
    using Cons.prems cs xs by (intro Cons.IH [of cs' xs']) (auto simp: covered_prefix_def)
  ultimately show ?case by (simp add: xs)
qed simp

lemma pattern_denotes_split:
  assumes "split_glob p = Some (ss, starred)"
  shows "pattern_denotes (split_segments p) xs \<longleftrightarrow>
     (if starred then length ss \<le> length xs \<and> list_all2 segment_matches ss (take (length ss) xs)
      else list_all2 segment_matches ss xs)"
  using assms unfolding split_glob_Some pattern_denotes_def by simp

lemma glob_subsumes_sound:
  assumes "glob_subsumes parent child" "path_matches child path"
  shows "path_matches parent path"
proof -
  obtain ps p_star cs c_star where p: "split_glob parent = Some (ps, p_star)"
    and c: "split_glob child = Some (cs, c_star)"
    using assms(1) by (auto simp: glob_subsumes_def split: option.splits)
  let ?xs = "split_segments path"
  have valid: "starts_with ''/'' parent" "valid_segments (split_segments parent)"
    "valid_segments (split_segments child)" "[] \<notin> set (split_segments child)"
    using p c by (auto simp: split_glob_Some is_ok_iff validate_pattern_Ok_iff valid_segments_iff)
  have nonempty: "[] \<notin> set cs"
    using c valid(4) by (auto simp: split_glob_Some dest: in_set_butlastD)
  have "pattern_denotes (split_segments child) ?xs"
    using assms(2) valid(3) by (simp add: path_matches_iff match_segments_denotes)
  then have cm: "length cs \<le> length ?xs \<and> list_all2 segment_matches cs (take (length cs) ?xs)
      \<and> (\<not> c_star \<longrightarrow> length ?xs = length cs)"
    unfolding pattern_denotes_split [OF c]
    using list_all2_lengthD [of segment_matches cs ?xs] by (cases c_star) auto
  have sub: "p_star \<and> length ps \<le> length cs \<and> covered_prefix ps cs
      \<or> \<not> p_star \<and> \<not> c_star \<and> length ps = length cs \<and> covered_prefix ps cs"
    using assms(1) p c by (auto simp: glob_subsumes_def covered_prefix_def split: if_splits)
  then have "list_all2 segment_matches ps (take (length ps) ?xs)"
    using covered_prefix_matches [of ps cs ?xs] cm nonempty by auto
  with sub cm have "pattern_denotes (split_segments parent) ?xs"
    unfolding pattern_denotes_split [OF p] by auto
  with valid show ?thesis by (simp add: path_matches_iff match_segments_denotes)
qed

lemma within_narrow_paths:
  "within (narrow_paths a b) (\<lambda>p. path_matches p x) \<Longrightarrow>
     within a (\<lambda>p. path_matches p x) \<and> within b (\<lambda>p. path_matches p x)"
  by (cases "(a, b)" rule: narrow_paths.cases)
     (auto simp: within_def list_ex_iff intro: glob_subsumes_sound)

lemma narrow_check_request:
  "check_request (narrow a b) cred env host m path = Ok u \<Longrightarrow>
     check_request a cred env host m path = Ok u \<and> check_request b cred env host m path = Ok u"
  by (auto simp: check_request_Ok_iff narrow_def dest: within_narrow_set within_narrow_paths)

lemma narrow_budget_le: "budget_le (narrow_budget a b) a" "budget_le (narrow_budget a b) b"
  by (cases "(a, b)" rule: narrow_budget.cases; auto simp: budget_le_def)+

section \<open>Properties\<close>

text \<open>
  The syntactic subsumption test between path globs is sound: when \<open>glob_subsumes\<close> accepts a child
  pattern under a parent pattern, every path the child matches is matched by the parent.
\<close>

lemma glob_subsumes_is_inclusion:
  assumes "glob_subsumes parent child"
  shows "{path. path_matches child path} \<subseteq> {path. path_matches parent path}"
  using assms glob_subsumes_sound by blast

lemma glob_subsumes_is_inclusion_witness:
  "{path. path_matches ''/repos/acme/**'' path} \<subseteq> {path. path_matches ''/repos/*/**'' path}"
proof (rule glob_subsumes_is_inclusion)
  show "glob_subsumes ''/repos/*/**'' ''/repos/acme/**''" by code_simp
qed

text \<open>
  Narrowing only narrows: a request that passes the intersection of two constraint sets passes both
  of them, and the budget of the intersection is at most either budget.
\<close>

lemma narrow_is_intersection:
  "{(cred, env, host, m, path). check_request (narrow a b) cred env host m path = Ok ()}
     \<subseteq> {(cred, env, host, m, path). check_request a cred env host m path = Ok ()
          \<and> check_request b cred env host m path = Ok ()}
   \<and> budget_le (sc_remaining (narrow a b)) (sc_remaining a)
   \<and> budget_le (sc_remaining (narrow a b)) (sc_remaining b)"
proof (intro conjI subsetI)
  fix x assume "x \<in> {(cred, env, host, m, path). check_request (narrow a b) cred env host m path = Ok ()}"
  then show "x \<in> {(cred, env, host, m, path). check_request a cred env host m path = Ok ()
      \<and> check_request b cred env host m path = Ok ()}"
    by (clarsimp dest!: narrow_check_request)
qed (simp_all add: narrow_def narrow_budget_le)

end
