(* ===== verification/Session_Store.thy ===== *)
theory Session_Store
  imports Session_Constraints
begin

text \<open>
  \<open>vaultx-broker/src/session.rs\<close>, second half: session records, the in-memory session store and its
  operations.

  Every operation runs under the store's mutex, so it is a function from state to state.  What the
  operations take from outside is an argument: \<open>sha\<close> is the SHA-256 digest, \<open>now\<close> the clock reading of
  the call, and an \<open>entropy\<close> value holds the two results of \<open>random_hex\<close> (16 bytes for the
  identifier, 32 for the token).  The two \<open>HashMap\<close>s are ordered association lists; nothing depends on
  their iteration order, since \<open>list_for_agent\<close> sorts.
\<close>

section \<open>Data\<close>

datatype broker_error =
    ProtocolUnsupported u16
  | InvalidSession
  | SessionRevoked
  | BudgetExhausted
  | InvalidDelegation string
  | UnknownCredential string
  | AuthorizationDenied string "string option"
  | DestinationDenied string
  | TemplateUnsupported string
  | TransportFailure string
  | ResponseTooLarge
  | SanitizationFailed string
  | InjectionError string
  | Entropy string
  | Serialization string

type_synonym token_hash = string

record agent_session_record =
  session_id :: session_id
  agent :: agent_id
  environment :: environment_id
  token_hash :: token_hash
  revoked :: bool
  expires_at_secs :: "u64 option"
  parent_session :: "session_id option"
  constraints :: "session_constraints option"

record in_memory_state =
  sessions :: "(session_id, agent_session_record) bt_map"
  by_hash :: "(token_hash, session_id) bt_map"

datatype delegation_parent = ById session_id | ByToken string

record entropy =
  ent_id :: "(string, broker_error) result"
  ent_token :: "(string, broker_error) result"

definition empty_store :: in_memory_state where
  "empty_store = \<lparr>sessions = bt_empty, by_hash = bt_empty\<rparr>"

section \<open>Liveness\<close>

definition is_dead :: "u64 \<Rightarrow> agent_session_record \<Rightarrow> bool" where
  "is_dead now record \<longleftrightarrow>
     revoked record \<or> (case expires_at_secs record of Some expiry \<Rightarrow> expiry \<le> now | None \<Rightarrow> False)"

text \<open>The loop of \<open>ancestors_live\<close>; each round adds a stored identifier to \<open>seen\<close>.\<close>

function ancestors_walk ::
  "(session_id, agent_session_record) bt_map \<Rightarrow> u64 \<Rightarrow> session_id list \<Rightarrow> session_id option \<Rightarrow> bool" where
  "ancestors_walk m now seen None = True"
| "ancestors_walk m now seen (Some sid) =
     (if sid \<in> set seen then False
      else (case bt_get m sid of
          None \<Rightarrow> False
        | Some parent \<Rightarrow>
            if is_dead now parent then False
            else ancestors_walk m now (sid # seen) (parent_session parent)))"
  by pat_completeness auto
termination
proof (relation "measure (\<lambda>(m, _, seen, _). card (dom (bt_get m) - set seen))", goal_cases)
  case (2 m now seen sid parent)
  then have "sid \<in> dom (bt_get m) - set seen" by auto
  then have "card (dom (bt_get m) - set (sid # seen)) < card (dom (bt_get m) - set seen)"
    by (intro psubset_card_mono) (auto simp: finite_dom_bt_get)
  then show ?case by simp
qed simp

definition ancestors_live :: "in_memory_state \<Rightarrow> u64 \<Rightarrow> agent_session_record \<Rightarrow> bool" where
  "ancestors_live s now record = ancestors_walk (sessions s) now [] (parent_session record)"

section \<open>Operations\<close>

text \<open>The identifier and token of a fresh session: the first statements of \<open>create_impl\<close>.\<close>

definition fresh_session_id :: "entropy \<Rightarrow> (session_id, broker_error) result" where
  "fresh_session_id ent =
     and_then (ent_id ent) (\<lambda>hex.
       map_err (\<lambda>_. Entropy ''generated session id failed validation'')
         (parse_session_id (''sess_'' @ hex)))"

definition insert_session :: "in_memory_state \<Rightarrow> agent_session_record \<Rightarrow> in_memory_state" where
  "insert_session s record =
     s\<lparr>sessions := bt_insert (session_id record) record (sessions s),
       by_hash := bt_insert (token_hash record) (session_id record) (by_hash s)\<rparr>"

definition create_impl ::
  "(string \<Rightarrow> token_hash) \<Rightarrow> in_memory_state \<Rightarrow> u64 \<Rightarrow> entropy \<Rightarrow> agent_id \<Rightarrow> environment_id \<Rightarrow> u64 option
   \<Rightarrow> (session_id \<times> string, broker_error) result \<times> in_memory_state" where
  "create_impl sha s now ent ag env ttl_secs =
     (case fresh_session_id ent of
        Err e \<Rightarrow> (Err e, s)
      | Ok sid \<Rightarrow>
          (case ent_token ent of
             Err e \<Rightarrow> (Err e, s)
           | Ok raw_token \<Rightarrow>
               if bt_get (by_hash s) (sha raw_token) \<noteq> None
               then (Err (Entropy ''session token verifier collision''), s)
               else (Ok (sid, raw_token),
                     insert_session s
                       \<lparr>session_id = sid, agent = ag, environment = env, token_hash = sha raw_token,
                        revoked = False,
                        expires_at_secs = map_option (\<lambda>ttl. saturating_add now ttl) ttl_secs,
                        parent_session = None, constraints = None\<rparr>)))"

abbreviation create ::
  "(string \<Rightarrow> token_hash) \<Rightarrow> in_memory_state \<Rightarrow> u64 \<Rightarrow> entropy \<Rightarrow> agent_id \<Rightarrow> environment_id
   \<Rightarrow> (session_id \<times> string, broker_error) result \<times> in_memory_state" where
  "create sha s now ent ag env \<equiv> create_impl sha s now ent ag env None"

definition validate ::
  "(string \<Rightarrow> token_hash) \<Rightarrow> in_memory_state \<Rightarrow> u64 \<Rightarrow> string \<Rightarrow> (agent_session_record, broker_error) result" where
  "validate sha s now raw_token =
     (case bt_get (by_hash s) (sha raw_token) of
        None \<Rightarrow> Err InvalidSession
      | Some sid \<Rightarrow>
          (case bt_get (sessions s) sid of
             None \<Rightarrow> Err InvalidSession
           | Some record \<Rightarrow>
               if token_hash record \<noteq> sha raw_token then Err InvalidSession
               else if is_dead now record then Err SessionRevoked
               else if \<not> ancestors_live s now record then Err SessionRevoked
               else Ok record))"

definition revoke ::
  "in_memory_state \<Rightarrow> session_id \<Rightarrow> (unit, broker_error) result \<times> in_memory_state" where
  "revoke s sid =
     (case bt_get (sessions s) sid of
        None \<Rightarrow> (Err InvalidSession, s)
      | Some record \<Rightarrow>
          (Ok (), s\<lparr>sessions := bt_insert sid (record\<lparr>revoked := True\<rparr>) (sessions s)\<rparr>))"

definition list_for_agent :: "in_memory_state \<Rightarrow> agent_id \<Rightarrow> agent_session_record list" where
  "list_for_agent s ag =
     sort_key session_id (filter (\<lambda>record. agent record = ag) (map snd (sessions s)))"

definition find_parent ::
  "(string \<Rightarrow> token_hash) \<Rightarrow> in_memory_state \<Rightarrow> delegation_parent \<Rightarrow> agent_session_record option" where
  "find_parent sha s parent =
     (case parent of
        ById sid \<Rightarrow> bt_get (sessions s) sid
      | ByToken token \<Rightarrow>
          (case bt_get (by_hash s) (sha token) of
             None \<Rightarrow> None | Some sid \<Rightarrow> bt_get (sessions s) sid))"

definition check_patterns :: "session_constraints \<Rightarrow> (unit, broker_error) result" where
  "check_patterns requested =
     try_each (\<lambda>pattern. if is_err (validate_pattern pattern)
                         then Err (InvalidDelegation (''invalid path pattern '' @ backquoted pattern)) else Ok ())
       (case sc_paths requested of None \<Rightarrow> [] | Some ps \<Rightarrow> ps)"

definition child_constraints :: "agent_session_record \<Rightarrow> session_constraints \<Rightarrow> session_constraints" where
  "child_constraints parent_record requested =
     (case constraints parent_record of
        Some parent_constraints \<Rightarrow> narrow parent_constraints requested
      | None \<Rightarrow> requested)"

definition child_record ::
  "agent_session_record \<Rightarrow> session_id \<Rightarrow> token_hash \<Rightarrow> session_constraints \<Rightarrow> agent_session_record" where
  "child_record parent_record sid h narrowed =
     \<lparr>session_id = sid, agent = agent parent_record, environment = environment parent_record,
      token_hash = h, revoked = False, expires_at_secs = None,
      parent_session = Some (session_id parent_record), constraints = Some narrowed\<rparr>"

definition delegate ::
  "(string \<Rightarrow> token_hash) \<Rightarrow> in_memory_state \<Rightarrow> u64 \<Rightarrow> entropy \<Rightarrow> delegation_parent \<Rightarrow> session_constraints
   \<Rightarrow> (session_id \<times> string, broker_error) result \<times> in_memory_state" where
  "delegate sha s now ent parent requested =
     (case check_patterns requested of Err e \<Rightarrow> (Err e, s) | Ok _ \<Rightarrow>
      (case find_parent sha s parent of None \<Rightarrow> (Err InvalidSession, s) | Some parent_record \<Rightarrow>
        if is_dead now parent_record then (Err SessionRevoked, s)
        else (let narrowed = child_constraints parent_record requested
              in if is_unconstrained narrowed
                 then (Err (InvalidDelegation
                        ''delegation narrows nothing; at least one constraint dimension is required''), s)
                 else (case fresh_session_id ent of Err e \<Rightarrow> (Err e, s) | Ok sid \<Rightarrow>
                       (case ent_token ent of Err e \<Rightarrow> (Err e, s) | Ok raw_token \<Rightarrow>
                          if bt_get (by_hash s) (sha raw_token) \<noteq> None
                          then (Err (Entropy ''session token verifier collision''), s)
                          else (Ok (sid, raw_token),
                                insert_session s (child_record parent_record sid (sha raw_token) narrowed)))))))"

text \<open>\<open>consume_budget_inner\<close>; the Boolean says whether the store changed.\<close>

definition consume_budget ::
  "(string \<Rightarrow> token_hash) \<Rightarrow> in_memory_state \<Rightarrow> u64 \<Rightarrow> string \<Rightarrow> (bool, broker_error) result \<times> in_memory_state" where
  "consume_budget sha s now raw_token =
     (case bt_get (by_hash s) (sha raw_token) of None \<Rightarrow> (Err InvalidSession, s) | Some sid \<Rightarrow>
      (case bt_get (sessions s) sid of None \<Rightarrow> (Err InvalidSession, s) | Some record \<Rightarrow>
        if is_dead now record \<or> \<not> ancestors_live s now record then (Err SessionRevoked, s)
        else (case constraints record of
            None \<Rightarrow> (Ok False, s)
          | Some c \<Rightarrow>
              (case sc_remaining c of
                 None \<Rightarrow> (Ok False, s)
               | Some remaining \<Rightarrow>
                   if remaining = 0 then (Err BudgetExhausted, s)
                   else (Ok True,
                         s\<lparr>sessions := bt_insert sid
                             (record\<lparr>constraints := Some (c\<lparr>sc_remaining := Some (remaining - 1)\<rparr>)\<rparr>)
                             (sessions s)\<rparr>)))))"

section \<open>The store as a state machine\<close>

datatype session_call =
    Create agent_id environment_id "u64 option"
  | Validate string
  | Revoke session_id
  | ListForAgent agent_id
  | Delegate delegation_parent session_constraints
  | ConsumeBudget string

text \<open>The state after one call, made at a clock reading and with the entropy it draws.\<close>

fun call_state ::
  "(string \<Rightarrow> token_hash) \<Rightarrow> in_memory_state \<Rightarrow> u64 \<times> entropy \<times> session_call \<Rightarrow> in_memory_state" where
  "call_state sha s (now, ent, Create ag env ttl) = snd (create_impl sha s now ent ag env ttl)"
| "call_state sha s (now, ent, Validate tok) = s"
| "call_state sha s (now, ent, Revoke sid) = snd (revoke s sid)"
| "call_state sha s (now, ent, ListForAgent ag) = s"
| "call_state sha s (now, ent, Delegate parent requested) = snd (delegate sha s now ent parent requested)"
| "call_state sha s (now, ent, ConsumeBudget tok) = snd (consume_budget sha s now tok)"

text \<open>
  A session identifier carries 128 random bits and the store does not look for an existing record
  under it.  \<open>fresh_call\<close> says that a call's entropy does not repeat a stored identifier.
\<close>

definition fresh_call :: "in_memory_state \<Rightarrow> u64 \<times> entropy \<times> session_call \<Rightarrow> bool" where
  "fresh_call s c = (case c of (_, ent, _) \<Rightarrow>
     (case fresh_session_id ent of Ok sid \<Rightarrow> bt_get (sessions s) sid = None | Err _ \<Rightarrow> True))"

inductive session_step ::
  "(string \<Rightarrow> token_hash) \<Rightarrow> in_memory_state \<Rightarrow> in_memory_state \<Rightarrow> bool" for sha where
  step: "call_state sha s c = s' \<Longrightarrow> session_step sha s s'"

inductive session_steps ::
  "(string \<Rightarrow> token_hash) \<Rightarrow> in_memory_state \<Rightarrow> in_memory_state \<Rightarrow> bool" for sha where
  refl: "session_steps sha s s"
| trans: "session_steps sha s s' \<Longrightarrow> session_step sha s' s'' \<Longrightarrow> session_steps sha s s''"

inductive fresh_steps ::
  "(string \<Rightarrow> token_hash) \<Rightarrow> in_memory_state \<Rightarrow> in_memory_state \<Rightarrow> bool" for sha where
  fresh_refl: "fresh_steps sha s s"
| fresh_trans: "fresh_steps sha s s' \<Longrightarrow> fresh_call s' c \<Longrightarrow> fresh_steps sha s (call_state sha s' c)"

abbreviation reachable :: "(string \<Rightarrow> token_hash) \<Rightarrow> in_memory_state \<Rightarrow> bool" where
  "reachable sha s \<equiv> fresh_steps sha empty_store s"

inductive_cases session_stepE: "session_step sha s s'"

section \<open>Reference definitions\<close>

text \<open>
  A chain of live ancestors of a given length, as a least fixed point: a cyclic or broken chain has
  none.
\<close>

inductive live_chain ::
  "(session_id, agent_session_record) bt_map \<Rightarrow> u64 \<Rightarrow> nat \<Rightarrow> session_id option \<Rightarrow> bool" for m now where
  chain_end: "live_chain m now 0 None"
| chain_link: "bt_get m sid = Some r \<Longrightarrow> \<not> is_dead now r \<Longrightarrow> live_chain m now n (parent_session r)
     \<Longrightarrow> live_chain m now (Suc n) (Some sid)"

inductive_cases live_chain_NoneE: "live_chain m now n None"
inductive_cases live_chain_SomeE: "live_chain m now n (Some sid)"

text \<open>The session \<open>x\<close> was delegated, in one or more steps, from the session \<open>a\<close>.\<close>

inductive descends :: "(session_id, agent_session_record) bt_map \<Rightarrow> session_id \<Rightarrow> session_id \<Rightarrow> bool" for m where
  direct: "bt_get m x = Some r \<Longrightarrow> parent_session r = Some a \<Longrightarrow> descends m x a"
| via: "bt_get m x = Some r \<Longrightarrow> parent_session r = Some y \<Longrightarrow> descends m y a \<Longrightarrow> descends m x a"

definition session_inv :: "in_memory_state \<Rightarrow> bool" where
  "session_inv s \<longleftrightarrow>
     bt_inv (sessions s) \<and> bt_inv (by_hash s)
     \<and> (\<forall>sid r. bt_get (sessions s) sid = Some r \<longrightarrow>
          session_id r = sid \<and> bt_get (by_hash s) (token_hash r) = Some sid)
     \<and> (\<forall>h sid. bt_get (by_hash s) h = Some sid \<longrightarrow> (\<exists>r. bt_get (sessions s) sid = Some r))
     \<and> (\<forall>sid r p. bt_get (sessions s) sid = Some r \<longrightarrow> parent_session r = Some p \<longrightarrow>
          (\<exists>pr. bt_get (sessions s) p = Some pr))"

text \<open>What a record admits of a request; a session minted directly has no constraints.\<close>

definition admits ::
  "agent_session_record \<Rightarrow> string \<Rightarrow> string \<Rightarrow> string \<Rightarrow> string \<Rightarrow> string \<Rightarrow> bool" where
  "admits r cred env host m path \<longleftrightarrow>
     (\<forall>c. constraints r = Some c \<longrightarrow> check_request c cred env host m path = Ok ())"

definition child_of :: "agent_session_record \<Rightarrow> agent_session_record \<Rightarrow> bool" where
  "child_of p r \<longleftrightarrow>
     agent r = agent p \<and> environment r = environment p \<and> parent_session r = Some (session_id p)
     \<and> (\<exists>req. constraints r = Some (child_constraints p req))"

text \<open>A record that a creation or a delegation stores.\<close>

definition inserts :: "(string \<Rightarrow> token_hash) \<Rightarrow> in_memory_state \<Rightarrow> agent_session_record \<Rightarrow> bool" where
  "inserts sha s r \<longleftrightarrow>
     bt_get (by_hash s) (token_hash r) = None \<and> \<not> revoked r
     \<and> (parent_session r = None \<and> constraints r = None
        \<or> (\<exists>p sid. bt_get (sessions s) sid = Some p \<and> child_of p r))"

text \<open>What no call ever changes of a stored record, and in which direction the rest may move.\<close>

definition same_binding :: "agent_session_record \<Rightarrow> agent_session_record \<Rightarrow> bool" where
  "same_binding r r' \<longleftrightarrow>
     session_id r' = session_id r \<and> agent r' = agent r \<and> environment r' = environment r
     \<and> token_hash r' = token_hash r \<and> expires_at_secs r' = expires_at_secs r
     \<and> parent_session r' = parent_session r \<and> (revoked r \<longrightarrow> revoked r')
     \<and> (\<forall>cred env host m path. admits r' cred env host m path = admits r cred env host m path)
     \<and> (\<forall>c. constraints r = Some c \<longrightarrow>
          (\<exists>c'. constraints r' = Some c' \<and> budget_le (sc_remaining c') (sc_remaining c)))"

definition attenuated :: "in_memory_state \<Rightarrow> bool" where
  "attenuated s \<longleftrightarrow>
     (\<forall>x r a ar. bt_get (sessions s) x = Some r \<longrightarrow> parent_session r = Some a \<longrightarrow>
        bt_get (sessions s) a = Some ar \<longrightarrow>
        agent r = agent ar \<and> environment r = environment ar
        \<and> (\<forall>cred env host m path. admits r cred env host m path \<longrightarrow> admits ar cred env host m path))"

text \<open>A token whose session was revoked, or whose record was replaced under the same identifier.\<close>

definition dead_token :: "(string \<Rightarrow> token_hash) \<Rightarrow> in_memory_state \<Rightarrow> string \<Rightarrow> bool" where
  "dead_token sha s tok \<longleftrightarrow>
     (\<exists>sid r. bt_get (by_hash s) (sha tok) = Some sid \<and> bt_get (sessions s) sid = Some r
        \<and> (token_hash r \<noteq> sha tok \<or> revoked r))"

text \<open>Successful budget consumptions of one token along a list of calls.\<close>

fun consumed ::
  "(string \<Rightarrow> token_hash) \<Rightarrow> in_memory_state \<Rightarrow> string \<Rightarrow> (u64 \<times> entropy \<times> session_call) list \<Rightarrow> nat" where
  "consumed sha s tok [] = 0"
| "consumed sha s tok ((now, ent, c) # cs) =
     (if c = ConsumeBudget tok \<and> is_ok (fst (consume_budget sha s now tok)) then 1 else 0)
     + consumed sha (call_state sha s (now, ent, c)) tok cs"

fun fresh_calls ::
  "(string \<Rightarrow> token_hash) \<Rightarrow> in_memory_state \<Rightarrow> (u64 \<times> entropy \<times> session_call) list \<Rightarrow> bool" where
  "fresh_calls sha s [] = True"
| "fresh_calls sha s (c # cs) = (fresh_call s c \<and> fresh_calls sha (call_state sha s c) cs)"

section \<open>Lemmas: liveness\<close>

lemma live_chain_length_unique: "live_chain m now n c \<Longrightarrow> live_chain m now k c \<Longrightarrow> n = k"
proof (induction arbitrary: k rule: live_chain.induct)
  case chain_end
  then show ?case by (auto elim: live_chain_NoneE)
next
  case (chain_link sid r n)
  from chain_link.prems obtain r' j where j: "k = Suc j" "bt_get m sid = Some r'"
      "live_chain m now j (parent_session r')"
    by (auto elim: live_chain_SomeE)
  with chain_link.hyps(1) chain_link.IH [of j] show ?case by simp
qed

lemma walk_imp_chain: "ancestors_walk m now seen c \<Longrightarrow> \<exists>n. live_chain m now n c"
proof (induction m now seen c rule: ancestors_walk.induct)
  case (1 m now seen)
  then show ?case using chain_end by blast
next
  case (2 m now seen sid)
  then obtain r where r: "bt_get m sid = Some r" "\<not> is_dead now r" "sid \<notin> set seen"
      "ancestors_walk m now (sid # seen) (parent_session r)"
    by (auto split: if_splits option.splits)
  with "2.IH" obtain n where "live_chain m now n (parent_session r)" by blast
  with r chain_link show ?case by blast
qed

lemma chain_imp_walk:
  "live_chain m now n c \<Longrightarrow> (\<And>x k. x \<in> set seen \<Longrightarrow> live_chain m now k (Some x) \<Longrightarrow> n < k)
     \<Longrightarrow> ancestors_walk m now seen c"
proof (induction arbitrary: seen rule: live_chain.induct)
  case (chain_link sid r n)
  have link: "live_chain m now (Suc n) (Some sid)"
    using chain_link.hyps live_chain.chain_link by blast
  then have "sid \<notin> set seen" using chain_link.prems by blast
  moreover have "ancestors_walk m now (sid # seen) (parent_session r)"
  proof (rule chain_link.IH)
    fix x k assume x: "x \<in> set (sid # seen)" and k: "live_chain m now k (Some x)"
    show "n < k"
    proof (cases "x = sid")
      case True
      then show ?thesis using live_chain_length_unique [OF link] k by auto
    next
      case False
      then show ?thesis using chain_link.prems [of x k] x k by simp
    qed
  qed
  ultimately show ?case using chain_link.hyps by simp
qed simp

lemma ancestors_live_iff:
  "ancestors_live s now r \<longleftrightarrow> (\<exists>n. live_chain (sessions s) now n (parent_session r))"
  using walk_imp_chain chain_imp_walk [where seen = "[]"] by (auto simp: ancestors_live_def)

lemma descends_dead:
  assumes "descends m x a" "bt_get m x = Some r" "bt_get m a = Some ar" "is_dead now ar"
  shows "\<not> live_chain m now n (parent_session r)"
  using assms
proof (induction arbitrary: r n rule: descends.induct)
  case (direct x r a)
  then show ?case by (auto elim!: live_chain_SomeE)
next
  case (via x r y a)
  then show ?case by (auto elim!: live_chain_SomeE)
qed

section \<open>Lemmas: what a call does to the store\<close>

lemma create_impl_Ok:
  assumes "create_impl sha s now ent ag env ttl = (Ok (sid, tok), s')"
  shows "s' = insert_session s
            \<lparr>session_id = sid, agent = ag, environment = env, token_hash = sha tok, revoked = False,
             expires_at_secs = map_option (\<lambda>t. saturating_add now t) ttl, parent_session = None,
             constraints = None\<rparr>
         \<and> fresh_session_id ent = Ok sid \<and> ent_token ent = Ok tok \<and> bt_get (by_hash s) (sha tok) = None"
  using assms by (auto simp: create_impl_def split: result.splits if_splits)

lemma create_impl_Err: "fst (create_impl sha s now ent ag env ttl) = Err e \<Longrightarrow>
    snd (create_impl sha s now ent ag env ttl) = s"
  by (auto simp: create_impl_def split: result.splits if_splits)

lemma find_parent_Some: "find_parent sha s parent = Some p \<Longrightarrow> \<exists>sid. bt_get (sessions s) sid = Some p"
  by (auto simp: find_parent_def split: delegation_parent.splits option.splits)

lemma delegate_Ok:
  assumes "delegate sha s now ent parent requested = (Ok (sid, tok), s')"
  shows "\<exists>p. find_parent sha s parent = Some p \<and> \<not> is_dead now p
           \<and> s' = insert_session s (child_record p sid (sha tok) (child_constraints p requested))
           \<and> fresh_session_id ent = Ok sid \<and> ent_token ent = Ok tok
           \<and> bt_get (by_hash s) (sha tok) = None"
  using assms by (auto simp: delegate_def Let_def split: result.splits option.splits if_splits)

lemma child_record_simps [simp]:
  "session_id (child_record p sid h c) = sid" "token_hash (child_record p sid h c) = h"
  "\<not> revoked (child_record p sid h c)" "parent_session (child_record p sid h c) = Some (session_id p)"
  "expires_at_secs (child_record p sid h c) = None" "constraints (child_record p sid h c) = Some c"
  by (simp_all add: child_record_def)

lemma child_of_child_record: "child_of p (child_record p sid h (child_constraints p req))"
  by (auto simp: child_of_def child_record_def)

lemma delegate_Err: "fst (delegate sha s now ent parent requested) = Err e \<Longrightarrow>
    snd (delegate sha s now ent parent requested) = s"
  by (auto simp: delegate_def Let_def split: result.splits option.splits if_splits)

lemma admits_budget: "constraints r = Some c \<Longrightarrow>
    admits (r\<lparr>constraints := Some (c\<lparr>sc_remaining := b\<rparr>)\<rparr>) = admits r"
  by (intro ext) (simp add: admits_def check_request_def)

lemma same_binding_refl [simp]: "same_binding r r"
  by (auto simp: same_binding_def budget_le_def)

lemma same_binding_revoke: "same_binding r (r\<lparr>revoked := True\<rparr>)"
  by (auto simp: same_binding_def admits_def budget_le_def)

lemma same_binding_consume:
  assumes "constraints r = Some c" "sc_remaining c = Some n" "n \<noteq> 0"
  shows "same_binding r (r\<lparr>constraints := Some (c\<lparr>sc_remaining := Some (n - 1)\<rparr>)\<rparr>)"
proof -
  have "n - 1 \<le> n" using assms(3) by (simp add: word_le_nat_alt unat_minus_one)
  then show ?thesis using assms by (simp add: same_binding_def admits_budget budget_le_def)
qed

lemma consume_budget_spent:
  assumes "fst (consume_budget sha s now tok) = Ok True"
  shows "\<exists>sid r c n. bt_get (by_hash s) (sha tok) = Some sid \<and> bt_get (sessions s) sid = Some r
      \<and> constraints r = Some c \<and> sc_remaining c = Some n \<and> n \<noteq> 0
      \<and> snd (consume_budget sha s now tok) = s\<lparr>sessions := bt_insert sid
          (r\<lparr>constraints := Some (c\<lparr>sc_remaining := Some (n - 1)\<rparr>)\<rparr>) (sessions s)\<rparr>"
  using assms by (auto simp: consume_budget_def split: option.splits if_splits)

lemma consume_budget_unchanged:
  "fst (consume_budget sha s now tok) \<noteq> Ok True \<Longrightarrow> snd (consume_budget sha s now tok) = s"
  by (auto simp: consume_budget_def split: option.splits if_splits)

text \<open>Every call leaves the store alone, stores a new record, or updates a record in place.\<close>

lemma call_state_cases:
  obtains (same) "call_state sha s c = s"
  | (new) r where "call_state sha s c = insert_session s r" "inserts sha s r"
      "fresh_call s c \<Longrightarrow> bt_get (sessions s) (session_id r) = None"
  | (update) sid r r' where "bt_get (sessions s) sid = Some r" "same_binding r r'"
      "call_state sha s c = s\<lparr>sessions := bt_insert sid r' (sessions s)\<rparr>"
proof -
  obtain now ent op where c: "c = (now, ent, op)" by (cases c) auto
  show thesis
  proof (cases op)
    case (Create ag env ttl)
    show thesis
    proof (cases "fst (create_impl sha s now ent ag env ttl)")
      case (Ok x)
      then obtain sid tok s' where "create_impl sha s now ent ag env ttl = (Ok (sid, tok), s')"
        by (cases x; cases "create_impl sha s now ent ag env ttl") auto
      from create_impl_Ok [OF this] this show thesis
        by (intro new) (auto simp: c Create inserts_def fresh_call_def)
    next
      case (Err e)
      from create_impl_Err [OF this] show thesis by (intro same) (simp add: c Create)
    qed
  next
    case (Revoke sid)
    then show thesis
      by (cases "bt_get (sessions s) sid")
         (auto simp: c revoke_def intro: same update [OF _ same_binding_revoke])
  next
    case (Delegate parent requested)
    show thesis
    proof (cases "fst (delegate sha s now ent parent requested)")
      case (Ok x)
      then obtain sid tok s' where d: "delegate sha s now ent parent requested = (Ok (sid, tok), s')"
        by (cases x; cases "delegate sha s now ent parent requested") auto
      from delegate_Ok [OF d] obtain p where p: "find_parent sha s parent = Some p"
        "s' = insert_session s (child_record p sid (sha tok) (child_constraints p requested))"
        "fresh_session_id ent = Ok sid" "bt_get (by_hash s) (sha tok) = None" by auto
      then have "inserts sha s (child_record p sid (sha tok) (child_constraints p requested))"
        using find_parent_Some [OF p(1)] child_of_child_record by (force simp: inserts_def)
      with d p show thesis by (intro new) (auto simp: c Delegate fresh_call_def)
    next
      case (Err e)
      from delegate_Err [OF this] show thesis by (intro same) (simp add: c Delegate)
    qed
  next
    case (ConsumeBudget tok)
    show thesis
    proof (cases "fst (consume_budget sha s now tok) = Ok True")
      case True
      from consume_budget_spent [OF True] obtain sid r cc n where spent:
        "bt_get (sessions s) sid = Some r" "constraints r = Some cc" "sc_remaining cc = Some n" "n \<noteq> 0"
        "snd (consume_budget sha s now tok) = s\<lparr>sessions := bt_insert sid
            (r\<lparr>constraints := Some (cc\<lparr>sc_remaining := Some (n - 1)\<rparr>)\<rparr>) (sessions s)\<rparr>"
        by blast
      then show thesis
        by (intro update [OF spent(1) same_binding_consume [OF spent(2-4)]]) (simp add: c ConsumeBudget)
    next
      case False
      from consume_budget_unchanged [OF this] show thesis by (intro same) (simp add: c ConsumeBudget)
    qed
  qed (auto simp: c intro: same)
qed

lemma get_insert_session:
  "session_inv s \<Longrightarrow> bt_get (sessions (insert_session s r)) = (bt_get (sessions s))(session_id r \<mapsto> r)"
  "session_inv s \<Longrightarrow> bt_get (by_hash (insert_session s r)) = (bt_get (by_hash s))(token_hash r \<mapsto> session_id r)"
  by (simp_all add: insert_session_def session_inv_def btm.get_insert)

lemma session_inv_empty: "session_inv empty_store"
  by (simp add: session_inv_def empty_store_def bt_get_empty)

lemma inserts_parent:
  assumes "session_inv s" "inserts sha s r" "parent_session r = Some a"
  shows "\<exists>p. bt_get (sessions s) a = Some p \<and> child_of p r"
  using assms unfolding inserts_def session_inv_def child_of_def by auto

lemma session_inv_insert:
  assumes inv: "session_inv s" and r: "inserts sha s r"
  shows "session_inv (insert_session s r)"
proof -
  have "bt_get (sessions s) sid = Some ra \<Longrightarrow> token_hash ra \<noteq> token_hash r" for sid ra
    using inv r unfolding session_inv_def inserts_def by (metis option.distinct(1))
  moreover have "bt_inv (sessions (insert_session s r)) \<and> bt_inv (by_hash (insert_session s r))"
    using inv by (simp add: insert_session_def session_inv_def)
  ultimately show ?thesis
    using inv inserts_parent [OF inv r] r
    unfolding session_inv_def get_insert_session [OF inv] by (auto simp: inserts_def)
qed

lemma session_inv_update:
  assumes inv: "session_inv s" and "bt_get (sessions s) sid = Some r" "same_binding r r'"
  shows "session_inv (s\<lparr>sessions := bt_insert sid r' (sessions s)\<rparr>)"
proof -
  have get: "bt_get (bt_insert sid r' (sessions s)) = (bt_get (sessions s))(sid \<mapsto> r')"
    using inv by (simp add: session_inv_def btm.get_insert)
  have "bt_inv (bt_insert sid r' (sessions s))" using inv by (simp add: session_inv_def)
  with assms show ?thesis
    unfolding session_inv_def same_binding_def by (auto simp: get)
qed

lemma session_inv_call: "session_inv s \<Longrightarrow> session_inv (call_state sha s c)"
  by (cases rule: call_state_cases [of sha s c]) (auto intro: session_inv_insert session_inv_update)

lemma session_inv_steps: "session_steps sha s s' \<Longrightarrow> session_inv s \<Longrightarrow> session_inv s'"
  by (induction rule: session_steps.induct) (auto elim!: session_stepE intro: session_inv_call)

lemma session_inv_fresh: "fresh_steps sha s s' \<Longrightarrow> session_inv s \<Longrightarrow> session_inv s'"
  by (induction rule: fresh_steps.induct) (auto intro: session_inv_call)

lemma reachable_inv: "reachable sha s \<Longrightarrow> session_inv s"
  using session_inv_fresh session_inv_empty by blast


section \<open>Lemmas: validation, revocation and delegation\<close>

lemma validate_Ok_iff:
  assumes "session_inv s"
  shows "validate sha s now tok = Ok r \<longleftrightarrow>
     bt_get (sessions s) (session_id r) = Some r \<and> token_hash r = sha tok \<and> \<not> is_dead now r
     \<and> (\<exists>n. live_chain (sessions s) now n (parent_session r))"
proof
  assume "validate sha s now tok = Ok r"
  then show "bt_get (sessions s) (session_id r) = Some r \<and> token_hash r = sha tok \<and> \<not> is_dead now r
     \<and> (\<exists>n. live_chain (sessions s) now n (parent_session r))"
    using assms by (auto simp: validate_def session_inv_def ancestors_live_iff split: option.splits if_splits)
next
  assume *: "bt_get (sessions s) (session_id r) = Some r \<and> token_hash r = sha tok \<and> \<not> is_dead now r
     \<and> (\<exists>n. live_chain (sessions s) now n (parent_session r))"
  then have "bt_get (by_hash s) (sha tok) = Some (session_id r)"
    using assms unfolding session_inv_def by metis
  with * show "validate sha s now tok = Ok r"
    by (simp add: validate_def ancestors_live_iff)
qed

text \<open>A token that was bound to a session which is now revoked or replaced.\<close>

lemma dead_token_call:
  assumes inv: "session_inv s" and dead: "dead_token sha s tok"
  shows "dead_token sha (call_state sha s c) tok"
proof -
  obtain sid r where r: "bt_get (by_hash s) (sha tok) = Some sid" "bt_get (sessions s) sid = Some r"
      "token_hash r \<noteq> sha tok \<or> revoked r"
    using dead by (auto simp: dead_token_def)
  show ?thesis
  proof (cases rule: call_state_cases [of sha s c])
    case same
    with dead show ?thesis by simp
  next
    case (new r0)
    have "token_hash r0 \<noteq> sha tok" using new(2) r(1) by (auto simp: inserts_def)
    with r show ?thesis
      unfolding dead_token_def new(1) get_insert_session [OF inv] by simp
  next
    case (update sid0 r0 r0')
    have get: "bt_get (bt_insert sid0 r0' (sessions s)) = (bt_get (sessions s))(sid0 \<mapsto> r0')"
      using inv by (simp add: session_inv_def btm.get_insert)
    have "token_hash r0' \<noteq> sha tok \<or> revoked r0'" if "sid0 = sid"
      using that update(1,2) r(2,3) by (auto simp: same_binding_def)
    with r show ?thesis unfolding dead_token_def update(3) by (simp add: get)
  qed
qed

lemma dead_token_steps:
  "session_steps sha s s' \<Longrightarrow> session_inv s \<Longrightarrow> dead_token sha s tok \<Longrightarrow> dead_token sha s' tok"
  by (induction rule: session_steps.induct)
     (auto elim!: session_stepE intro: dead_token_call session_inv_steps)

lemma dead_token_validate: "dead_token sha s tok \<Longrightarrow> is_err (validate sha s now tok)"
  by (auto simp: dead_token_def validate_def is_dead_def)

lemma binding_call:
  assumes "session_inv s" "fresh_call s c" "bt_get (sessions s) x = Some r"
  shows "\<exists>r'. bt_get (sessions (call_state sha s c)) x = Some r' \<and> same_binding r r'"
proof (cases rule: call_state_cases [of sha s c])
  case (new r0)
  with assms have "x \<noteq> session_id r0" by auto
  with assms show ?thesis unfolding new(1) get_insert_session [OF assms(1)] by simp
next
  case (update sid r0 r0')
  with assms show ?thesis by (auto simp: session_inv_def btm.get_insert)
qed (use assms in simp)

lemma budget_le_trans: "budget_le a b \<Longrightarrow> budget_le b c \<Longrightarrow> budget_le a c"
  unfolding budget_le_def by (cases c; cases b) (auto intro: order_trans)

lemma same_binding_trans: "same_binding a b \<Longrightarrow> same_binding b c \<Longrightarrow> same_binding a c"
  unfolding same_binding_def by (auto) (meson budget_le_trans)+

lemma binding_steps:
  assumes "fresh_steps sha s s'" "session_inv s" "bt_get (sessions s) x = Some r"
  shows "\<exists>r'. bt_get (sessions s') x = Some r' \<and> same_binding r r'"
  using assms
proof (induction rule: fresh_steps.induct)
  case (fresh_trans s s' c)
  then obtain r' where "bt_get (sessions s') x = Some r'" "same_binding r r'" by blast
  with fresh_trans binding_call [of s' c x r' sha] session_inv_fresh same_binding_trans
  show ?case by blast
qed simp

lemma descends_steps:
  assumes "descends (sessions s) x a" "fresh_steps sha s s'" "session_inv s"
  shows "descends (sessions s') x a"
  using assms
proof (induction rule: descends.induct)
  case (direct x r a)
  with binding_steps [OF direct.prems direct.hyps(1)] show ?case
    by (auto simp: same_binding_def intro: descends.direct)
next
  case (via x r y a)
  with binding_steps [OF via.prems via.hyps(1)] show ?case
    by (auto simp: same_binding_def intro: descends.via)
qed

lemma child_of_admits:
  "child_of p r \<Longrightarrow> admits r cred env host m path \<Longrightarrow> admits p cred env host m path"
  by (auto simp: child_of_def admits_def child_constraints_def dest: narrow_check_request
      split: option.splits)


lemma attenuated_call:
  assumes inv: "session_inv s" and att: "attenuated s" and fresh: "fresh_call s c"
  shows "attenuated (call_state sha s c)"
proof (cases rule: call_state_cases [of sha s c])
  case same
  with att show ?thesis by simp
next
  case (new r)
  have "bt_get (sessions s) (session_id r) = None" using new(3) fresh by blast
  then have old: "parent_session ra \<noteq> Some (session_id r)" if "bt_get (sessions s) x = Some ra" for x ra
    using that inv unfolding session_inv_def by (metis option.distinct(1))
  have self: "parent_session r \<noteq> Some (session_id r)"
    using inserts_parent [OF inv new(2)] \<open>bt_get (sessions s) (session_id r) = None\<close> by fastforce
  show ?thesis
    unfolding attenuated_def new(1) get_insert_session [OF inv]
  proof (intro allI impI)
    fix x ra a ar
    assume x: "((bt_get (sessions s))(session_id r \<mapsto> r)) x = Some ra"
      and a: "parent_session ra = Some a"
      and ar: "((bt_get (sessions s))(session_id r \<mapsto> r)) a = Some ar"
    show "agent ra = agent ar \<and> environment ra = environment ar
          \<and> (\<forall>cred env host m path. admits ra cred env host m path \<longrightarrow> admits ar cred env host m path)"
    proof (cases "x = session_id r")
      case True
      with x a ar self obtain p where "ra = r" "bt_get (sessions s) a = Some p" "child_of p r"
        using inserts_parent [OF inv new(2)] by auto
      moreover have "ar = p" using calculation ar a self by (auto split: if_splits)
      ultimately show ?thesis using child_of_admits by (auto simp: child_of_def)
    next
      case False
      with x a ar old [of x ra] att show ?thesis unfolding attenuated_def by auto
    qed
  qed
next
  case (update sid r r')
  have get: "bt_get (bt_insert sid r' (sessions s)) = (bt_get (sessions s))(sid \<mapsto> r')"
    using inv by (simp add: session_inv_def btm.get_insert)
  show ?thesis
    unfolding attenuated_def update(3)
  proof (intro allI impI)
    fix x ra a ar
    let ?m = "sessions (s\<lparr>sessions := bt_insert sid r' (sessions s)\<rparr>)"
    assume x: "bt_get ?m x = Some ra" and a: "parent_session ra = Some a" and ar: "bt_get ?m a = Some ar"
    obtain ra0 where ra0: "bt_get (sessions s) x = Some ra0" "same_binding ra0 ra"
      using x update by (auto simp: get split: if_splits)
    obtain ar0 where ar0: "bt_get (sessions s) a = Some ar0" "same_binding ar0 ar"
      using ar update by (auto simp: get split: if_splits)
    have "parent_session ra0 = Some a" using a ra0 by (simp add: same_binding_def)
    with att ra0(1) ar0(1) have "agent ra0 = agent ar0 \<and> environment ra0 = environment ar0
        \<and> (\<forall>cred env host m path. admits ra0 cred env host m path \<longrightarrow> admits ar0 cred env host m path)"
      unfolding attenuated_def by blast
    with ra0(2) ar0(2) show "agent ra = agent ar \<and> environment ra = environment ar
          \<and> (\<forall>cred env host m path. admits ra cred env host m path \<longrightarrow> admits ar cred env host m path)"
      by (simp add: same_binding_def)
  qed
qed

lemma attenuated_reachable: "reachable sha s \<Longrightarrow> attenuated s"
proof (induction empty_store s rule: fresh_steps.induct)
  case fresh_refl
  then show ?case by (simp add: attenuated_def empty_store_def bt_get_empty)
next
  case (fresh_trans s' c)
  then show ?case using attenuated_call reachable_inv by blast
qed

lemma descends_attenuates:
  assumes "descends (sessions s) x a" "session_inv s" "attenuated s" "bt_get (sessions s) x = Some r"
    and "bt_get (sessions s) a = Some ar"
  shows "agent r = agent ar \<and> environment r = environment ar
         \<and> (\<forall>cred env host m path. admits r cred env host m path \<longrightarrow> admits ar cred env host m path)"
  using assms
proof (induction arbitrary: r rule: descends.induct)
  case (direct x r0 a)
  then show ?case unfolding attenuated_def by auto
next
  case (via x r0 y a)
  then obtain yr where yr: "bt_get (sessions s) y = Some yr"
    unfolding session_inv_def by blast
  with via have "agent yr = agent ar \<and> environment yr = environment ar
      \<and> (\<forall>cred env host m path. admits yr cred env host m path \<longrightarrow> admits ar cred env host m path)" by blast
  with via.prems via.hyps yr show ?case unfolding attenuated_def by (metis option.inject)
qed

lemma consumed_bound:
  assumes "session_inv s" "fresh_calls sha s cs" "bt_get (sessions s) sid = Some r"
    "token_hash r = sha tok" "constraints r = Some c" "sc_remaining c = Some n"
  shows "consumed sha s tok cs \<le> unat n"
  using assms
proof (induction cs arbitrary: s r c n)
  case (Cons x cs)
  obtain now ent op where x: "x = (now, ent, op)" by (cases x) auto
  let ?s' = "call_state sha s x"
  have inv: "session_inv ?s'" using Cons.prems(1) by (rule session_inv_call)
  have fresh: "fresh_call s x" "fresh_calls sha ?s' cs" using Cons.prems(2) by auto
  obtain r' where r': "bt_get (sessions ?s') sid = Some r'" "same_binding r r'"
    using binding_call [OF Cons.prems(1) fresh(1) Cons.prems(3)] by blast
  then obtain c' n' where c': "constraints r' = Some c'" "sc_remaining c' = Some n'" "n' \<le> n"
    using Cons.prems by (auto simp: same_binding_def budget_le_def)
  have le: "consumed sha ?s' tok cs \<le> unat n'"
    using Cons.IH [OF inv fresh(2) r'(1) _ c'(1,2)] r'(2) Cons.prems(4) by (simp add: same_binding_def)
  show ?case
  proof (cases "op = ConsumeBudget tok \<and> is_ok (fst (consume_budget sha s now tok))")
    case True
    have "bt_get (by_hash s) (sha tok) = Some sid"
      using Cons.prems unfolding session_inv_def by metis
    with True Cons.prems have "n \<noteq> 0" and "n' = n - 1"
      using r'(1) c' by (auto simp: x consume_budget_def btm.get_insert session_inv_def split: if_splits)
    then have "unat n' = unat n - 1" "0 < unat n" by (simp_all add: unat_minus_one unat_gt_0)
    with le have "1 + consumed sha ?s' tok cs \<le> unat n" by linarith
    with True show ?thesis by (simp add: x)
  next
    case False
    with le c'(3) show ?thesis by (auto simp: x word_le_nat_alt)
  qed
qed simp

lemma fresh_steps_append: "fresh_steps sha s1 s2 \<Longrightarrow> fresh_steps sha s s1 \<Longrightarrow> fresh_steps sha s s2"
  by (induction rule: fresh_steps.induct) (auto intro: fresh_steps.fresh_trans)

lemma fresh_revoke: "revoke s a = (Ok (), s1) \<Longrightarrow> fresh_steps sha s s1"
  using fresh_steps.fresh_trans [OF fresh_steps.fresh_refl, of s
      "(0, \<lparr>ent_id = Err InvalidSession, ent_token = Err InvalidSession\<rparr>, Revoke a)" sha]
  by (simp add: fresh_call_def fresh_session_id_def)

lemma dead_ancestor_refused:
  assumes inv: "session_inv s" and x: "bt_get (sessions s) x = Some r" "token_hash r = sha tok"
    and a: "descends (sessions s) x a" "bt_get (sessions s) a = Some ar" "is_dead now ar"
  shows "is_err (validate sha s now tok)"
proof (cases "validate sha s now tok")
  case (Ok v)
  then have v: "bt_get (sessions s) (session_id v) = Some v" "token_hash v = sha tok"
      "\<exists>n. live_chain (sessions s) now n (parent_session v)"
    using validate_Ok_iff [OF inv] by auto
  have "v = r" using v x inv unfolding session_inv_def by (metis option.inject)
  with v descends_dead [OF a(1) x(1) a(2,3)] show ?thesis by auto
qed simp

lemma live_chain_mono:
  "live_chain m now n c \<Longrightarrow> (\<And>x r. bt_get m x = Some r \<Longrightarrow> bt_get m' x = Some r) \<Longrightarrow> live_chain m' now n c"
  by (induction rule: live_chain.induct) (auto intro: live_chain.intros)

end
