(* ===== verification/Session_Properties.thy ===== *)
theory Session_Properties
  imports Session_Store
begin

text \<open>
  The properties of the session store: exact validation, permanence and cascade of revocation,
  attenuation along delegation chains, budgets and freshly created sessions.
\<close>

section \<open>A sample store\<close>

text \<open>A root session, a session delegated from it with a budget of two, and one delegated from that.\<close>

definition sample_entropy :: "string \<Rightarrow> string \<Rightarrow> entropy" where
  "sample_entropy sid tok = \<lparr>ent_id = Ok sid, ent_token = Ok tok\<rparr>"

definition no_constraints :: session_constraints where
  "no_constraints = \<lparr>sc_credentials = None, sc_environments = None, sc_hosts = None,
     sc_methods = None, sc_paths = None, sc_remaining = None\<rparr>"

definition sample_calls :: "(u64 \<times> entropy \<times> session_call) list" where
  "sample_calls =
     [(100, sample_entropy ''a1'' ''root'', Create ''agent_ci'' ''env_dev'' None),
      (101, sample_entropy ''b2'' ''child'', Delegate (ByToken ''root'')
         (no_constraints\<lparr>sc_paths := Some [''/repos/**''], sc_remaining := Some 2\<rparr>)),
      (102, sample_entropy ''c3'' ''leaf'', Delegate (ByToken ''child'')
         (no_constraints\<lparr>sc_paths := Some [''/repos/acme/**'']\<rparr>))]"

definition sample_store :: in_memory_state where
  "sample_store = foldl (call_state (\<lambda>t. t)) empty_store sample_calls"

section \<open>Lemmas: the sample store\<close>

lemma fresh_calls_reachable:
  "reachable sha s \<Longrightarrow> fresh_calls sha s cs \<Longrightarrow> reachable sha (foldl (call_state sha) s cs)"
  by (induction cs arbitrary: s) (auto intro: fresh_steps.fresh_trans)

lemma reachable_sample: "reachable (\<lambda>t. t) sample_store"
  unfolding sample_store_def
proof (rule fresh_calls_reachable [OF fresh_steps.fresh_refl])
  show "fresh_calls (\<lambda>t. t) empty_store sample_calls" by code_simp
qed

lemma validate_sample: "is_ok (validate (\<lambda>t. t) sample_store 103 ''leaf'')"
  by code_simp

lemma sample_records:
  "map_option parent_session (bt_get (sessions sample_store) ''sess_c3'') = Some (Some ''sess_b2'')"
  "map_option parent_session (bt_get (sessions sample_store) ''sess_b2'') = Some (Some ''sess_a1'')"
  "map_option (\<lambda>r. (token_hash r, map_option sc_remaining (constraints r)))
     (bt_get (sessions sample_store) ''sess_b2'') = Some (''child'', Some (Some 2))"
  "map_option token_hash (bt_get (sessions sample_store) ''sess_c3'') = Some ''leaf''"
  "map_option token_hash (bt_get (sessions sample_store) ''sess_a1'') = Some ''root''"
  by code_simp+

lemma sample_descends: "descends (sessions sample_store) ''sess_c3'' ''sess_a1''"
  using sample_records(1,2) by (auto intro: descends.intros)

lemma revoked_ancestor_refused:
  assumes "reachable sha s" "descends (sessions s) x a"
    and "bt_get (sessions s) x = Some r" "token_hash r = sha tok"
    and "revoke s a = (Ok (), s1)" "fresh_steps sha s1 s2"
  shows "is_err (validate sha s2 now tok)"
proof -
  have inv: "session_inv s" using assms(1) by (rule reachable_inv)
  have step: "fresh_steps sha s s1" using assms(5) by (rule fresh_revoke)
  note all = fresh_steps_append [OF assms(6) step]
  obtain ar where "bt_get (sessions s1) a = Some ar" "revoked ar"
    using assms(5) inv by (auto simp: revoke_def session_inv_def btm.get_insert split: option.splits)
  with binding_steps [OF assms(6) session_inv_fresh [OF step inv]]
  obtain a2 where a2: "bt_get (sessions s2) a = Some a2" "is_dead now a2"
    by (fastforce simp: same_binding_def is_dead_def)
  obtain r2 where r2: "bt_get (sessions s2) x = Some r2" "token_hash r2 = sha tok"
    using binding_steps [OF all inv assms(3)] assms(4) by (auto simp: same_binding_def)
  show ?thesis
    using session_inv_fresh [OF all inv] r2 descends_steps [OF assms(2) all inv] a2
    by (rule dead_ancestor_refused)
qed

section \<open>Properties\<close>

text \<open>
  Token validation is exact: in every store reached through the store's own operations, a presented
  token validates to a record precisely when that record is stored, its verifier is the token's
  digest, it is neither revoked nor expired, and it has a finite chain of ancestors that are all
  stored and live.
\<close>

lemma validate_exact:
  assumes "reachable sha s"
  shows "validate sha s now tok = Ok r \<longleftrightarrow>
     bt_get (sessions s) (session_id r) = Some r \<and> token_hash r = sha tok \<and> \<not> is_dead now r
     \<and> (\<exists>n. live_chain (sessions s) now n (parent_session r))"
  using validate_Ok_iff [OF reachable_inv [OF assms]] .

lemma validate_exact_witness:
  "\<exists>r n. validate (\<lambda>t. t) sample_store 103 ''leaf'' = Ok r
         \<and> live_chain (sessions sample_store) 103 n (parent_session r)"
proof -
  obtain r where "validate (\<lambda>t. t) sample_store 103 ''leaf'' = Ok r"
    using validate_sample by (auto simp: is_ok_iff)
  with validate_exact [OF reachable_sample, of 103 "''leaf''" r] show ?thesis by blast
qed

text \<open>
  Revocation is permanent: once the session of a token has been revoked, no sequence of store calls,
  with any clock readings and any entropy (repeated identifiers included), makes the token validate
  again.
\<close>

lemma revocation_permanent:
  assumes "reachable sha s" "bt_get (sessions s) sid = Some r" "token_hash r = sha tok"
    and "revoke s sid = (Ok (), s1)" "session_steps sha s1 s2"
  shows "is_err (validate sha s2 now tok)"
proof -
  have inv: "session_inv s" using assms(1) by (rule reachable_inv)
  have s1: "s1 = call_state sha s (0, undefined, Revoke sid)" using assms(4) by simp
  have "bt_get (by_hash s) (sha tok) = Some sid"
    using inv assms(2,3) unfolding session_inv_def by metis
  then have "dead_token sha s1 tok"
    using assms(2-4) inv by (auto simp: revoke_def dead_token_def btm.get_insert session_inv_def)
  moreover have "session_inv s1" unfolding s1 using inv by (rule session_inv_call)
  ultimately show ?thesis using dead_token_steps [OF assms(5)] dead_token_validate by blast
qed

lemma revocation_permanent_witness:
  "is_err (validate (\<lambda>t. t) (snd (revoke sample_store ''sess_b2'')) 104 ''child'')"
proof -
  obtain r where r: "bt_get (sessions sample_store) ''sess_b2'' = Some r" "token_hash r = ''child''"
    using sample_records(3) by auto
  have "revoke sample_store ''sess_b2'' = (Ok (), snd (revoke sample_store ''sess_b2''))"
    using r by (simp add: revoke_def)
  from revocation_permanent [OF reachable_sample r(1) _ this session_steps.refl] r(2)
  show ?thesis by simp
qed

text \<open>
  Revocation cascades: after a session is revoked, the token of every session delegated from it, in
  any number of steps, is refused in every later store, as long as fresh identifiers do not repeat
  stored ones.
\<close>

lemma revocation_cascades:
  assumes "reachable sha s" "descends (sessions s) x a"
    and "bt_get (sessions s) x = Some r" "token_hash r = sha tok"
    and "revoke s a = (Ok (), s1)" "fresh_steps sha s1 s2"
  shows "is_err (validate sha s2 now tok)"
  using assms by (rule revoked_ancestor_refused)

lemma revocation_cascades_witness:
  "is_err (validate (\<lambda>t. t) (snd (revoke sample_store ''sess_a1'')) 104 ''leaf'')"
proof -
  obtain r where r: "bt_get (sessions sample_store) ''sess_c3'' = Some r" "token_hash r = ''leaf''"
    using sample_records(4) by auto
  have "revoke sample_store ''sess_a1'' = (Ok (), snd (revoke sample_store ''sess_a1''))"
    using sample_records(5) by (auto simp: revoke_def)
  from revocation_cascades [OF reachable_sample sample_descends r(1) _ this fresh_steps.fresh_refl] r(2)
  show ?thesis by simp
qed

text \<open>
  C31. Delegation only attenuates, transitively: in every reachable store, a session delegated from
  another one in any number of steps has the same agent and environment, and admits no request
  (credential, environment, host, method, path) that its ancestor does not admit.
\<close>

theorem delegation_attenuates:
  assumes "reachable sha s" "descends (sessions s) x a"
    and "bt_get (sessions s) x = Some r" "bt_get (sessions s) a = Some ar"
  shows "agent r = agent ar \<and> environment r = environment ar
         \<and> (\<forall>cred env host m path. admits r cred env host m path \<longrightarrow> admits ar cred env host m path)"
  using descends_attenuates [OF assms(2) reachable_inv [OF assms(1)] attenuated_reachable [OF assms(1)]
      assms(3,4)] .

theorem delegation_attenuates_witness:
  "\<exists>r ar. bt_get (sessions sample_store) ''sess_c3'' = Some r
          \<and> bt_get (sessions sample_store) ''sess_a1'' = Some ar \<and> agent r = agent ar"
proof -
  obtain r ar where "bt_get (sessions sample_store) ''sess_c3'' = Some r"
      "bt_get (sessions sample_store) ''sess_a1'' = Some ar"
    using sample_records(4,5) by auto
  with delegation_attenuates [OF reachable_sample sample_descends] show ?thesis by blast
qed

text \<open>
  C38. A budget is never exceeded: along any sequence of store calls from a reachable store, the budget
  consumptions of a token that succeed are at most the requests its session had left, however the
  calls of other sessions, delegations and revocations are interleaved.
\<close>

theorem budget_never_exceeded:
  assumes "reachable sha s" "bt_get (sessions s) sid = Some r" "token_hash r = sha tok"
    and "constraints r = Some c" "sc_remaining c = Some n" "fresh_calls sha s cs"
  shows "consumed sha s tok cs \<le> unat n"
  using consumed_bound [OF reachable_inv [OF assms(1)] assms(6,2-5)] .

theorem budget_never_exceeded_witness:
  "consumed (\<lambda>t. t) sample_store ''child''
     (replicate 3 (103, sample_entropy ''d4'' ''x'', ConsumeBudget ''child'')) = 2
   \<and> consumed (\<lambda>t. t) sample_store ''child''
     (replicate 3 (103, sample_entropy ''d4'' ''x'', ConsumeBudget ''child'')) \<le> unat (2 :: u64)"
proof
  let ?cs = "replicate 3 (103, sample_entropy ''d4'' ''x'', ConsumeBudget ''child'')"
  show "consumed (\<lambda>t. t) sample_store ''child'' ?cs = 2" by code_simp
  obtain r c where r: "bt_get (sessions sample_store) ''sess_b2'' = Some r" "token_hash r = ''child''"
      "constraints r = Some c" "sc_remaining c = Some 2"
    using sample_records(3) by auto
  have "fresh_calls (\<lambda>t. t) sample_store ?cs" by code_simp
  from budget_never_exceeded [OF reachable_sample r(1) r(2) r(3,4) this]
  show "consumed (\<lambda>t. t) sample_store ''child'' ?cs \<le> unat (2 :: u64)" .
qed


text \<open>
  A token handed out by \<open>create\<close> works: the new session validates at once, bound to the agent and
  environment it was created for, unless its time to live has already run out; and every other
  token that validated still does, to the same record.
\<close>

lemma create_then_validate:
  assumes "reachable sha s" "create_impl sha s now ent ag env ttl = (Ok (sid, tok), s')"
    and "bt_get (sessions s) sid = None" "\<forall>t. ttl = Some t \<longrightarrow> now < saturating_add now t"
  shows "(\<exists>r. validate sha s' now tok = Ok r \<and> session_id r = sid \<and> agent r = ag \<and> environment r = env
              \<and> constraints r = None)
         \<and> (\<forall>tok' r. validate sha s now tok' = Ok r \<longrightarrow> validate sha s' now tok' = Ok r)"
proof -
  have inv: "session_inv s" using assms(1) by (rule reachable_inv)
  let ?r = "\<lparr>session_id = sid, agent = ag, environment = env, token_hash = sha tok, revoked = False,
             expires_at_secs = map_option (\<lambda>t. saturating_add now t) ttl, parent_session = None,
             constraints = None\<rparr>"
  have s': "s' = insert_session s ?r" and new: "bt_get (by_hash s) (sha tok) = None"
    using create_impl_Ok [OF assms(2)] by auto
  have inv': "session_inv s'"
    unfolding s' using inv by (rule session_inv_insert [where sha = sha]) (simp add: inserts_def new)
  note get = get_insert_session [OF inv, of ?r, folded s']
  have "\<not> is_dead now ?r" using assms(4) by (auto simp: is_dead_def split: option.splits)
  then have "validate sha s' now tok = Ok ?r"
    using live_chain.chain_end by (auto simp: validate_Ok_iff [OF inv'] get)
  moreover have "validate sha s' now tok' = Ok r" if "validate sha s now tok' = Ok r" for tok' r
  proof -
    have grow: "bt_get (sessions s) x = Some y \<Longrightarrow> bt_get (sessions s') x = Some y" for x y
      using assms(3) by (auto simp: get)
    with that live_chain_mono [of "sessions s" now _ "parent_session r" "sessions s'"] show ?thesis
      unfolding validate_Ok_iff [OF inv] validate_Ok_iff [OF inv'] by blast
  qed
  ultimately show ?thesis by fastforce
qed

lemma create_then_validate_witness:
  "\<exists>sid tok s' r. create_impl (\<lambda>t. t) sample_store 200 (sample_entropy ''d4'' ''tok'') ''agent_x'' ''env_p'' (Some 60)
     = (Ok (sid, tok), s') \<and> validate (\<lambda>t. t) s' 200 tok = Ok r \<and> agent r = ''agent_x''"
proof -
  let ?c = "create_impl (\<lambda>t. t) sample_store 200 (sample_entropy ''d4'' ''tok'') ''agent_x'' ''env_p'' (Some 60)"
  have "fresh_session_id (sample_entropy ''d4'' ''tok'') = Ok ''sess_d4''" by code_simp
  moreover have "bt_get (by_hash sample_store) ''tok'' = None" by code_simp
  ultimately have "fst ?c = Ok (''sess_d4'', ''tok'')"
    by (simp add: create_impl_def sample_entropy_def)
  then have c: "?c = (Ok (''sess_d4'', ''tok''), snd ?c)" by (metis prod.collapse)
  have "bt_get (sessions sample_store) ''sess_d4'' = None" by code_simp
  moreover have "(200 :: u64) < saturating_add 200 60" by (simp add: saturating_add_def)
  ultimately show ?thesis using create_then_validate [OF reachable_sample c] c by auto
qed

end
