(* ===== verification/Broker_Request.thy ===== *)
theory Broker_Request
  imports Http_Controls Session_Store
begin

text \<open>
  \<open>vaultx-broker/src/request.rs\<close>: request identifiers, bodies, requests, responses and decisions of the
  broker protocol.  \<open>random_hex\<close> is an argument of \<open>generate\<close>, the JSON encoder an argument of
  \<open>wire_len_bytes\<close>.
\<close>

definition PROTOCOL_VERSION :: u16 where
  "PROTOCOL_VERSION = 1"

definition REQUEST_ID_PREFIX :: string where
  "REQUEST_ID_PREFIX = ''req_''"

definition REQUEST_ID_BYTES :: nat where
  "REQUEST_ID_BYTES = 16"

section \<open>Request identifiers\<close>

type_synonym request_id = string

definition is_lowercase_hex :: "string \<Rightarrow> bool" where
  "is_lowercase_hex value \<longleftrightarrow>
     value \<noteq> [] \<and> list_all (\<lambda>b. is_ascii_digit b \<or> 97 \<le> byte_of b \<and> byte_of b \<le> 102) value"

definition request_id_well_formed :: "string \<Rightarrow> bool" where
  "request_id_well_formed value \<longleftrightarrow>
     (case strip_prefix REQUEST_ID_PREFIX value of
        Some content \<Rightarrow> length content = REQUEST_ID_BYTES * 2 \<and> is_lowercase_hex content
      | None \<Rightarrow> False)"

definition from_random_hex :: "string \<Rightarrow> (request_id, broker_error) result" where
  "from_random_hex hex =
     (if request_id_well_formed (REQUEST_ID_PREFIX @ hex) then Ok (REQUEST_ID_PREFIX @ hex)
      else Err (Entropy ''generated request id failed validation''))"

definition generate_request_id :: "(string, broker_error) result \<Rightarrow> (request_id, broker_error) result" where
  "generate_request_id random_hex = and_then random_hex from_random_hex"

definition deterministic_fallback :: request_id where
  "deterministic_fallback = REQUEST_ID_PREFIX @ replicate (REQUEST_ID_BYTES * 2) (CHR ''0'')"

section \<open>Bodies, requests and responses\<close>

datatype broker_body = NoBody | BodyBytes string | BodyJson json

definition wire_len_bytes :: "(json \<Rightarrow> string option) \<Rightarrow> broker_body \<Rightarrow> u64" where
  "wire_len_bytes to_vec b =
     (case b of
        NoBody \<Rightarrow> 0
      | BodyBytes data \<Rightarrow> of_nat (length data)
      | BodyJson v \<Rightarrow> (case to_vec v of Some bytes \<Rightarrow> of_nat (length bytes) | None \<Rightarrow> 0))"

record broker_request =
  protocol :: u16
  session_token :: string
  credential :: credential_ref
  "method" :: http_method
  url :: string
  req_headers :: headers
  body :: broker_body
  capability_hint :: "string option"
  request_id :: "request_id option"

datatype decision = AllowDecision | DenyDecision string "string option"

record broker_response =
  resp_request_id :: request_id
  status :: u16
  resp_headers :: headers
  resp_body :: string
  resp_decision :: decision

definition denied :: "request_id \<Rightarrow> string \<Rightarrow> string option \<Rightarrow> broker_response" where
  "denied rid reason policy =
     \<lparr>resp_request_id = rid, status = 403, resp_headers = [], resp_body = [],
      resp_decision = DenyDecision reason policy\<rparr>"

section \<open>Lemmas\<close>

lemma request_id_well_formed_iff:
  "request_id_well_formed v \<longleftrightarrow>
     (\<exists>content. v = REQUEST_ID_PREFIX @ content \<and> length content = 32 \<and> is_lowercase_hex content)"
  by (auto simp: request_id_well_formed_def REQUEST_ID_BYTES_def strip_prefix_Some_iff
      split: option.splits)

lemma generate_request_id_well_formed: "generate_request_id r = Ok rid \<Longrightarrow> request_id_well_formed rid"
  by (auto simp: generate_request_id_def from_random_hex_def split: if_splits)

lemma deterministic_fallback_well_formed: "request_id_well_formed deterministic_fallback"
  by (auto simp: request_id_well_formed_iff deterministic_fallback_def REQUEST_ID_BYTES_def
      is_lowercase_hex_def list_all_iff is_ascii_digit_def simp del: replicate.simps)

end
