(* ===== verification/Injection.thy ===== *)
theory Injection
  imports Broker_Request Canonical_Url
begin

text \<open>
  \<open>vaultx-broker/src/inject.rs\<close> and \<open>credential.rs\<close>: the injection templates that write credential
  material into an outbound request, and the in-memory credential source.

  A secret is its bytes.  The \<open>base64\<close> crate is the parameter \<open>base64\<close>, the \<open>url\<close> crate the record
  \<open>url_api\<close>.  The registry of built-in injectors is the case analysis of \<open>apply_for\<close>: every template
  has its injector registered.
\<close>

section \<open>Data\<close>

datatype injection_template_id =
    Bearer | BasicPassword | ApiKeyHeader | GithubBearer | QueryParameter
  | CustomStaticHeaderPlusSecret | AwsSigv4

record credential_metadata =
  username :: "string option"
  header_name :: "string option"
  query_param_name :: "string option"
  static_prefix :: "string option"

record 'u outbound_request =
  canonical_url :: 'u
  out_method :: http_method
  out_headers :: headers
  out_body :: broker_body

type_synonym secret = string

section \<open>Names in metadata\<close>

definition is_lowercase_token_char :: "char \<Rightarrow> bool" where
  "is_lowercase_token_char c \<longleftrightarrow> is_ascii_lowercase c \<or> is_ascii_digit c \<or> c \<in> set TCHAR_MARKS"

definition validate_optional_name :: "string option \<Rightarrow> string \<Rightarrow> (unit, broker_error) result" where
  "validate_optional_name field label =
     (case field of
        None \<Rightarrow> Ok ()
      | Some name \<Rightarrow>
          if name = [] \<or> \<not> list_all is_lowercase_token_char name
          then Err (InjectionError (''credential metadata '' @ backquoted label
                 @ '' must be non-empty lowercase token characters''))
          else Ok ())"

definition validate_metadata :: "credential_metadata \<Rightarrow> (unit, broker_error) result" where
  "validate_metadata m =
     and_then (validate_optional_name (username m) ''username'') (\<lambda>_.
     and_then (validate_optional_name (header_name m) ''header_name'') (\<lambda>_.
     and_then (validate_optional_name (query_param_name m) ''query_param_name'') (\<lambda>_. Ok ())))"

section \<open>Headers\<close>

definition replace_header :: "headers \<Rightarrow> string \<Rightarrow> string \<Rightarrow> (headers, broker_error) result" where
  "replace_header hs name value =
     (let lowered = to_ascii_lowercase name
      in and_then (map_err (\<lambda>e. InjectionError (''injected header rejected: '' @ show_http_policy_error e))
           (validate_header_pair lowered value)) (\<lambda>_.
         Ok (filter (\<lambda>(existing, _). \<not> eq_ignore_ascii_case existing lowered) hs @ [(lowered, value)])))"

definition secret_as_string :: "secret \<Rightarrow> string" where
  "secret_as_string s = utf8_lossy s"

definition set_header :: "'u outbound_request \<Rightarrow> string \<Rightarrow> string \<Rightarrow> ('u outbound_request, broker_error) result" where
  "set_header req name value =
     and_then (replace_header (out_headers req) name value) (\<lambda>hs. Ok (req\<lparr>out_headers := hs\<rparr>))"

section \<open>Query parameters\<close>

definition upper_hex_digit :: "nat \<Rightarrow> char" where
  "upper_hex_digit n = (if n < 10 then char_of (48 + n) else char_of (55 + n))"

definition is_unreserved :: "char \<Rightarrow> bool" where
  "is_unreserved c \<longleftrightarrow> is_ascii_alphanumeric c \<or> c \<in> set ''-._~''"

fun percent_encode_query_value :: "string \<Rightarrow> string" where
  "percent_encode_query_value [] = []"
| "percent_encode_query_value (c # cs) =
     (if is_unreserved c then c # percent_encode_query_value cs
      else CHR ''%'' # upper_hex_digit (byte_of c div 16) # upper_hex_digit (byte_of c mod 16)
           # percent_encode_query_value cs)"

definition hex_value :: "char \<Rightarrow> nat" where
  "hex_value c = (case to_digit 16 c of Some d \<Rightarrow> d | None \<Rightarrow> 0)"

fun percent_decode_bytes :: "string \<Rightarrow> string" where
  "percent_decode_bytes (c # h # l # rest) =
     (if c = CHR ''%'' \<and> is_ascii_hexdigit h \<and> is_ascii_hexdigit l
      then char_of (16 * hex_value h + hex_value l) # percent_decode_bytes rest
      else c # percent_decode_bytes (h # l # rest))"
| "percent_decode_bytes short = short"

definition percent_decode_key :: "string \<Rightarrow> string" where
  "percent_decode_key raw = utf8_lossy (percent_decode_bytes raw)"

definition segment_key :: "string \<Rightarrow> string" where
  "segment_key segment = hd (split_on (CHR ''='') segment)"

definition strip_query_param :: "string \<Rightarrow> string \<Rightarrow> string" where
  "strip_query_param raw_query name =
     join_with ''&'' (filter (\<lambda>segment. percent_decode_key (segment_key segment) \<noteq> name)
                        (split_on (CHR ''&'') raw_query))"

definition appended_query :: "string option \<Rightarrow> string \<Rightarrow> string \<Rightarrow> string" where
  "appended_query query name encoded_value =
     (case query of
        Some existing \<Rightarrow>
          (let kept = strip_query_param existing name
           in if kept = [] then name @ ''='' @ encoded_value
              else kept @ ''&'' @ name @ ''='' @ encoded_value)
      | None \<Rightarrow> name @ ''='' @ encoded_value)"

definition append_query_parameter ::
  "'u url_api \<Rightarrow> 'u \<Rightarrow> string \<Rightarrow> string \<Rightarrow> ('u, broker_error) result" where
  "append_query_parameter api u name encoded_value =
     map_err (\<lambda>e. InjectionError (''rebuilt url rejected: '' @ show_http_policy_error e))
       (from_parts api (canonical_host api u) (url_port api u)
          (url_path api u @ ''?'' @ appended_query (url_query api u) name encoded_value))"

section \<open>Templates\<close>

definition apply_bearer ::
  "'u outbound_request \<Rightarrow> secret \<Rightarrow> ('u outbound_request, broker_error) result" where
  "apply_bearer req sec = set_header req ''authorization'' (''Bearer '' @ secret_as_string sec)"

definition apply_github_bearer ::
  "'u outbound_request \<Rightarrow> secret \<Rightarrow> ('u outbound_request, broker_error) result" where
  "apply_github_bearer req sec = set_header req ''authorization'' (''token '' @ secret_as_string sec)"

definition apply_api_key_header ::
  "'u outbound_request \<Rightarrow> secret \<Rightarrow> credential_metadata \<Rightarrow> ('u outbound_request, broker_error) result" where
  "apply_api_key_header req sec meta =
     and_then (validate_metadata meta) (\<lambda>_.
     and_then (ok_or (InjectionError ''api_key_header requires metadata.header_name'') (header_name meta))
       (\<lambda>header. set_header req header (secret_as_string sec)))"

definition apply_basic_password ::
  "(string \<Rightarrow> string) \<Rightarrow> 'u outbound_request \<Rightarrow> secret \<Rightarrow> credential_metadata
   \<Rightarrow> ('u outbound_request, broker_error) result" where
  "apply_basic_password base64 req sec meta =
     and_then (validate_metadata meta) (\<lambda>_.
     and_then (ok_or (InjectionError ''basic_password requires metadata.username'') (username meta))
       (\<lambda>user. set_header req ''authorization'' (''Basic '' @ base64 (user @ '':'' @ sec))))"

definition apply_query_parameter ::
  "'u url_api \<Rightarrow> 'u outbound_request \<Rightarrow> secret \<Rightarrow> credential_metadata
   \<Rightarrow> ('u outbound_request, broker_error) result" where
  "apply_query_parameter api req sec meta =
     and_then (validate_metadata meta) (\<lambda>_.
     and_then (ok_or (InjectionError ''query_parameter requires metadata.query_param_name'')
                (query_param_name meta)) (\<lambda>param.
     and_then (append_query_parameter api (canonical_url req) param (percent_encode_query_value sec))
       (\<lambda>u. Ok (req\<lparr>canonical_url := u\<rparr>))))"

definition apply_custom_static_header_plus_secret ::
  "'u outbound_request \<Rightarrow> secret \<Rightarrow> credential_metadata \<Rightarrow> ('u outbound_request, broker_error) result" where
  "apply_custom_static_header_plus_secret req sec meta =
     and_then (validate_metadata meta) (\<lambda>_.
     and_then (ok_or (InjectionError ''custom_static_header_plus_secret requires metadata.header_name'')
                (header_name meta)) (\<lambda>header.
     and_then (ok_or (InjectionError ''custom_static_header_plus_secret requires metadata.static_prefix'')
                (static_prefix meta)) (\<lambda>prefix.
       set_header req header (prefix @ secret_as_string sec))))"

definition apply_for ::
  "'u url_api \<Rightarrow> (string \<Rightarrow> string) \<Rightarrow> injection_template_id \<Rightarrow> 'u outbound_request \<Rightarrow> secret
   \<Rightarrow> credential_metadata \<Rightarrow> ('u outbound_request, broker_error) result" where
  "apply_for api base64 template req sec meta =
     (case template of
        Bearer \<Rightarrow> apply_bearer req sec
      | BasicPassword \<Rightarrow> apply_basic_password base64 req sec meta
      | ApiKeyHeader \<Rightarrow> apply_api_key_header req sec meta
      | GithubBearer \<Rightarrow> apply_github_bearer req sec
      | QueryParameter \<Rightarrow> apply_query_parameter api req sec meta
      | CustomStaticHeaderPlusSecret \<Rightarrow> apply_custom_static_header_plus_secret req sec meta
      | AwsSigv4 \<Rightarrow> Err (TemplateUnsupported ''aws_sigv4 deferred''))"

section \<open>The in-memory credential source\<close>

record stored_entry =
  entry_secret :: secret
  entry_template :: injection_template_id
  entry_metadata :: credential_metadata

type_synonym credential_source = "(credential_ref, stored_entry) bt_map"

definition insert_credential ::
  "credential_source \<Rightarrow> credential_ref \<Rightarrow> secret \<Rightarrow> injection_template_id \<Rightarrow> credential_metadata
   \<Rightarrow> credential_source" where
  "insert_credential src cred sec template meta =
     bt_insert cred \<lparr>entry_secret = sec, entry_template = template, entry_metadata = meta\<rparr> src"

definition resolve :: "credential_source \<Rightarrow> credential_ref \<Rightarrow> (secret, broker_error) result" where
  "resolve src cred = and_then (ok_or (UnknownCredential cred) (bt_get src cred)) (\<lambda>e. Ok (entry_secret e))"

definition template_for ::
  "credential_source \<Rightarrow> credential_ref \<Rightarrow> (injection_template_id, broker_error) result" where
  "template_for src cred =
     and_then (ok_or (UnknownCredential cred) (bt_get src cred)) (\<lambda>e. Ok (entry_template e))"

definition metadata_for ::
  "credential_source \<Rightarrow> credential_ref \<Rightarrow> (credential_metadata, broker_error) result" where
  "metadata_for src cred =
     and_then (ok_or (UnknownCredential cred) (bt_get src cred)) (\<lambda>e. Ok (entry_metadata e))"

section \<open>Reference definitions\<close>

text \<open>The decoded names of the parameters of a raw query, in order.\<close>

definition query_keys :: "string \<Rightarrow> string list" where
  "query_keys q = map (\<lambda>seg. percent_decode_key (segment_key seg)) (split_on (CHR ''&'') q)"

definition header_values :: "string \<Rightarrow> headers \<Rightarrow> string list" where
  "header_values name hs = map snd (filter (\<lambda>(n, _). eq_ignore_ascii_case n name) hs)"

text \<open>Where a header template puts the credential, and what it writes there.\<close>

fun injected_header ::
  "(string \<Rightarrow> string) \<Rightarrow> injection_template_id \<Rightarrow> secret \<Rightarrow> credential_metadata \<Rightarrow> (string \<times> string) option" where
  "injected_header base64 Bearer sec meta = Some (''authorization'', ''Bearer '' @ utf8_lossy sec)"
| "injected_header base64 GithubBearer sec meta = Some (''authorization'', ''token '' @ utf8_lossy sec)"
| "injected_header base64 BasicPassword sec meta =
     map_option (\<lambda>user. (''authorization'', ''Basic '' @ base64 (user @ '':'' @ sec))) (username meta)"
| "injected_header base64 ApiKeyHeader sec meta =
     map_option (\<lambda>header. (header, utf8_lossy sec)) (header_name meta)"
| "injected_header base64 CustomStaticHeaderPlusSecret sec meta =
     (case (header_name meta, static_prefix meta) of
        (Some header, Some prefix) \<Rightarrow> Some (header, prefix @ utf8_lossy sec) | _ \<Rightarrow> None)"
| "injected_header base64 _ sec meta = None"

definition sample_outbound :: "string outbound_request" where
  "sample_outbound =
     \<lparr>canonical_url = ''https://api.example.com/v1'', out_method = GET,
      out_headers = [(''accept'', ''*/*''), (''x-api-key'', ''forged'')], out_body = NoBody\<rparr>"

definition sample_metadata :: credential_metadata where
  "sample_metadata = \<lparr>username = None, header_name = Some ''x-api-key'', query_param_name = Some ''key'',
     static_prefix = None\<rparr>"

section \<open>Lemmas: percent encoding\<close>

lemma to_digit_upper_hex: "n < 16 \<Longrightarrow> to_digit 16 (upper_hex_digit n) = Some n"
  by (auto simp: upper_hex_digit_def to_digit_def str_simps)

lemma hex_value_upper [simp]: "n < 16 \<Longrightarrow> hex_value (upper_hex_digit n) = n"
  by (simp add: hex_value_def to_digit_upper_hex)

lemma hexdigit_upper_hex [simp]: "n < 16 \<Longrightarrow> is_ascii_hexdigit (upper_hex_digit n)"
  by (auto simp: upper_hex_digit_def str_simps)

lemma percent_decode_Cons: "c \<noteq> CHR ''%'' \<Longrightarrow> percent_decode_bytes (c # s) = c # percent_decode_bytes s"
  by (cases s rule: percent_decode_bytes.cases; cases s) auto

lemma not_unreserved_percent: "\<not> is_unreserved (CHR ''%'')"
  by (simp add: is_unreserved_def str_simps)

lemma byte_less_256: "byte_of c < (256 :: nat)"
  by (metis of_char_mod_256 mod_less_divisor zero_less_numeral)

lemma byte_nibbles: "byte_of c div 16 < (16 :: nat)" "byte_of c mod 16 < (16 :: nat)"
  using byte_less_256 [of c] by (simp_all add: div_less_iff_less_mult)

lemma percent_decode_encode: "percent_decode_bytes (percent_encode_query_value v) = v"
proof (induction v)
  case (Cons c cs)
  note * = byte_nibbles [of c]
  show ?case
  proof (cases "is_unreserved c")
    case True
    then have "c \<noteq> CHR ''%''" using not_unreserved_percent by auto
    with True Cons show ?thesis by (simp add: percent_decode_Cons)
  next
    case False
    with Cons * show ?thesis by (simp add: mult.commute)
  qed
qed simp

lemma percent_encode_chars:
  "x \<in> set (percent_encode_query_value v) \<Longrightarrow> is_unreserved x \<or> x = CHR ''%''"
proof (induction v)
  case (Cons c cs)
  have "is_unreserved (upper_hex_digit n)" if "n < 16" for n
    using that by (auto simp: is_unreserved_def upper_hex_digit_def str_simps)
  then have "is_unreserved (upper_hex_digit (byte_of c div 16))"
      "is_unreserved (upper_hex_digit (byte_of c mod 16))"
    using byte_nibbles [of c] by blast+
  with Cons show ?case by (auto split: if_splits)
qed simp

lemma hex_value_to_upper: "is_ascii_hexdigit c \<Longrightarrow> hex_value (to_ascii_upper c) = hex_value c"
proof (cases "is_ascii_lowercase c")
  case True
  assume "is_ascii_hexdigit c"
  with True have b: "97 \<le> byte_of c" "byte_of c \<le> (102 :: nat)" by (auto simp: str_simps)
  then have u: "byte_of (to_ascii_upper c) = byte_of c - (32 :: nat)"
    using True by (simp add: to_ascii_upper_def)
  from b have "65 \<le> byte_of c - (32 :: nat)" "byte_of c - 32 \<le> (70 :: nat)" "byte_of c - 87 < (16 :: nat)"
      "\<not> byte_of c \<le> (57 :: nat)" "\<not> byte_of c - 32 \<le> (57 :: nat)" "\<not> 97 \<le> byte_of c - (32 :: nat)"
    by linarith+
  with b u show ?thesis by (simp add: hex_value_def to_digit_def ascii_defs)
qed (simp add: upper_id)

lemma percent_decode_no_escape:
  assumes "\<not> (c = CHR ''%'' \<and> is_ascii_hexdigit h \<and> is_ascii_hexdigit l)"
  shows "percent_decode_bytes (c # normalize_percent_case (h # l # rest))
         = c # percent_decode_bytes (normalize_percent_case (h # l # rest))"
proof -
  obtain t where t: "normalize_percent_case (h # l # rest) = h # t" using normalize_hd by blast
  have "length (normalize_percent_case (h # l # rest)) = length (h # l # rest)" by simp
  with t obtain l' t' where t': "t = l' # t'" by (cases t) auto
  have "h \<noteq> CHR ''%'' \<Longrightarrow> l' = l"
    using normalize_Cons [of h "l # rest"] normalize_hd [of l rest] t t' by auto
  then have "\<not> (c = CHR ''%'' \<and> is_ascii_hexdigit h \<and> is_ascii_hexdigit l')"
    using assms percent_not_hex by auto
  then show ?thesis by (simp only: t t' percent_decode_bytes.simps if_False)
qed

lemma percent_decode_normalize: "percent_decode_bytes (normalize_percent_case s) = percent_decode_bytes s"
proof (induction s rule: normalize_percent_case.induct)
  case (1 c h l rest)
  show ?case
  proof (cases "c = CHR ''%'' \<and> is_ascii_hexdigit h \<and> is_ascii_hexdigit l")
    case True
    with 1 hexdigit_upper show ?thesis by (simp add: hex_value_to_upper)
  next
    case False
    then show ?thesis
      using 1(2) [OF False] percent_decode_no_escape [OF False] by auto
  qed
qed auto

section \<open>Lemmas: query parameters and headers\<close>

lemma query_keys_strip: "name \<noteq> [] \<Longrightarrow> name \<notin> set (query_keys (strip_query_param q name))"
proof -
  assume name: "name \<noteq> []"
  let ?kept = "filter (\<lambda>seg. percent_decode_key (segment_key seg) \<noteq> name) (split_on (CHR ''&'') q)"
  have sep: "\<forall>p \<in> set ?kept. CHR ''&'' \<notin> set p" by (auto dest: split_on_no_sep)
  show ?thesis
  proof (cases "?kept = []")
    case True
    with name show ?thesis
      by (simp add: query_keys_def strip_query_param_def segment_key_def percent_decode_key_def)
  next
    case False
    then have "split_on (CHR ''&'') (strip_query_param q name) = ?kept"
      using split_on_join [OF False sep] by (simp add: strip_query_param_def)
    then show ?thesis by (auto simp: query_keys_def)
  qed
qed

lemma split_on_append:
  "split_on d (a @ d # b) = split_on d a @ split_on d b"
proof (induction a)
  case (Cons c cs)
  obtain p ps where "split_on d cs = p # ps" by (cases "split_on d cs") auto
  with Cons show ?case by auto
qed simp

lemma query_keys_append: "query_keys (a @ CHR ''&'' # b) = query_keys a @ query_keys b"
  by (simp add: query_keys_def split_on_append)

lemma header_values_replace:
  assumes "replace_header hs name v = Ok hs'"
  shows "header_values name hs' = [v]"
    and "filter (\<lambda>(n, _). \<not> eq_ignore_ascii_case n name) hs'
         = filter (\<lambda>(n, _). \<not> eq_ignore_ascii_case n name) hs"
proof -
  have hs': "hs' = filter (\<lambda>(n, _). \<not> eq_ignore_ascii_case n (to_ascii_lowercase name)) hs
              @ [(to_ascii_lowercase name, v)]"
    using assms by (auto simp: replace_header_def Let_def)
  show "header_values name hs' = [v]"
    by (simp add: hs' header_values_def case_prod_unfold filter_empty_conv)
  show "filter (\<lambda>(n, _). \<not> eq_ignore_ascii_case n name) hs'
         = filter (\<lambda>(n, _). \<not> eq_ignore_ascii_case n name) hs"
    by (simp add: hs' case_prod_unfold)
qed

lemma set_header_Ok:
  assumes "set_header req name v = Ok req'"
  shows "header_values name (out_headers req') = [v]
    \<and> filter (\<lambda>(n, _). \<not> eq_ignore_ascii_case n name) (out_headers req')
      = filter (\<lambda>(n, _). \<not> eq_ignore_ascii_case n name) (out_headers req)
    \<and> canonical_url req' = canonical_url req \<and> out_method req' = out_method req \<and> out_body req' = out_body req"
  using assms by (auto simp: set_header_def dest: header_values_replace)

lemma apply_for_header:
  assumes "apply_for api base64 template req sec meta = Ok req'" "template \<noteq> QueryParameter"
  shows "\<exists>name v. injected_header base64 template sec meta = Some (name, v) \<and> set_header req name v = Ok req'"
  using assms
  by (cases template)
     (auto simp: apply_for_def apply_bearer_def apply_github_bearer_def apply_basic_password_def
       apply_api_key_header_def apply_custom_static_header_plus_secret_def secret_as_string_def)

lemma unreserved_ascii: "list_all is_unreserved s \<Longrightarrow> is_ascii s"
  by (induction s) (auto simp: is_ascii_def is_unreserved_def str_simps)

lemma percent_decode_plain: "CHR ''%'' \<notin> set s \<Longrightarrow> percent_decode_bytes s = s"
  by (induction s rule: percent_decode_bytes.induct) auto

section \<open>Properties\<close>

text \<open>
  Injection is authoritative: after a header template succeeds, the outbound request has exactly one
  header of the injected name, in any spelling, and it carries the broker's value; every other header,
  the destination, the method and the body are what they were.
\<close>

lemma injected_header_authoritative:
  assumes "apply_for api base64 template req sec meta = Ok req'" "template \<noteq> QueryParameter"
  shows "\<exists>name v. injected_header base64 template sec meta = Some (name, v)
    \<and> header_values name (out_headers req') = [v]
    \<and> filter (\<lambda>(n, _). \<not> eq_ignore_ascii_case n name) (out_headers req')
      = filter (\<lambda>(n, _). \<not> eq_ignore_ascii_case n name) (out_headers req)
    \<and> canonical_url req' = canonical_url req \<and> out_method req' = out_method req \<and> out_body req' = out_body req"
  using apply_for_header [OF assms] set_header_Ok by blast

lemma injected_header_authoritative_witness:
  "\<exists>req'. apply_for sample_url_api (\<lambda>s. s) ApiKeyHeader sample_outbound ''s3cret'' sample_metadata = Ok req'
     \<and> header_values ''x-api-key'' (out_headers req') = [''s3cret'']"
proof -
  let ?r = "apply_for sample_url_api (\<lambda>s. s) ApiKeyHeader sample_outbound ''s3cret'' sample_metadata"
  have "is_ok ?r" by code_simp
  then obtain req' where r: "?r = Ok req'" by (auto simp: is_ok_iff)
  have "injected_header (\<lambda>s. s) ApiKeyHeader ''s3cret'' sample_metadata = Some (''x-api-key'', ''s3cret'')"
    by code_simp
  with injected_header_authoritative [OF r] r show ?thesis by auto
qed

text \<open>
  A secret placed in a query survives exactly and cannot change the URL's structure: decoding the
  percent-encoded value gives back the secret's bytes, and the encoded text consists of unreserved
  characters and percent escapes only.
\<close>

lemma percent_encode_roundtrip:
  "percent_decode_bytes (percent_encode_query_value sec) = sec
   \<and> list_all (\<lambda>c. is_unreserved c \<or> c = CHR ''%'') (percent_encode_query_value sec)"
  using percent_decode_encode percent_encode_chars by (auto simp: list_all_iff)

text \<open>
  An agent cannot plant a competing query credential: when the parameter name consists of unreserved
  characters, the rebuilt query has exactly one parameter that decodes to that name, whatever
  spellings the caller's query used, and it is the last one, with the encoded secret as its value.
\<close>

lemma query_credential_unique:
  assumes "name \<noteq> []" "list_all is_unreserved name"
  shows "filter (\<lambda>k. k = name) (query_keys (appended_query query name (percent_encode_query_value sec))) = [name]
    \<and> last (split_on (CHR ''&'') (appended_query query name (percent_encode_query_value sec)))
      = name @ ''='' @ percent_encode_query_value sec"
proof -
  let ?seg = "name @ ''='' @ percent_encode_query_value sec"
  have un: "c \<in> set name \<Longrightarrow> is_unreserved c" for c using assms(2) by (auto simp: list_all_iff)
  have marks: "\<not> is_unreserved (CHR ''&'')" "\<not> is_unreserved (CHR ''='')" "\<not> is_unreserved (CHR ''%'')"
    by (simp_all add: is_unreserved_def str_simps)
  have "CHR ''&'' \<notin> set ?seg"
    using un marks percent_encode_chars [of "CHR ''&''" sec] by auto
  then have seg: "split_on (CHR ''&'') ?seg = [?seg]" by (rule split_on_no_sep_id)
  have "CHR ''='' \<notin> set name" using un marks by blast
  then have "segment_key ?seg = name" by (simp add: segment_key_def split_on_append_sep)
  moreover have "CHR ''%'' \<notin> set name" using un marks by blast
  then have "percent_decode_key name = name"
    using unreserved_ascii [OF assms(2)]
    by (simp add: percent_decode_key_def percent_decode_plain utf8_lossy_ascii)
  ultimately have key: "query_keys ?seg = [name]"
    using seg by (simp add: query_keys_def)
  show ?thesis
    using seg key query_keys_append [of _ ?seg] query_keys_strip [OF assms(1)]
      split_on_append [of "CHR ''&''" _ ?seg]
    by (auto simp: appended_query_def Let_def filter_empty_conv split: option.splits)
qed

lemma query_credential_unique_witness:
  "filter (\<lambda>k. k = ''key'') (query_keys (appended_query (Some ''k%65y=forged&page=2'') ''key''
     (percent_encode_query_value ''a&b''))) = [''key'']"
proof -
  have "list_all is_unreserved ''key''" by code_simp
  with query_credential_unique [of "''key''" "Some ''k%65y=forged&page=2''" "''a&b''"] show ?thesis by simp
qed

text \<open>
  Putting percent escapes in upper case never changes what a URL component denotes: the normalized
  text decodes to the same bytes as the original.
\<close>

lemma normalize_percent_case_same_bytes:
  "percent_decode_bytes (normalize_percent_case s) = percent_decode_bytes s"
  by (rule percent_decode_normalize)

end
