(* ===== verification/Body_Scrub.thy ===== *)
theory Body_Scrub
  imports Http_Controls
begin

text \<open>
  \<open>vaultx-broker/src/engine.rs\<close>: the scanner that replaces secret-shaped tokens in response bodies.
  \<open>rule_span\<close> is one round of the inner loop, \<open>match_span\<close> the inner loop with its \<open>continue\<close>s, and
  \<open>scrub_secret_patterns\<close> the scan over the body.
\<close>

section \<open>The scanner\<close>

definition FINE_GRAINED_PAT_ID_MIN :: nat where
  "FINE_GRAINED_PAT_ID_MIN = 22"

definition FINE_GRAINED_PAT_TAIL_MIN :: nat where
  "FINE_GRAINED_PAT_TAIL_MIN = 20"

definition BODY_SCRUB_RULES :: "(string \<times> nat) list" where
  "BODY_SCRUB_RULES =
     [(''ghp_'', 36), (''github_pat_'', FINE_GRAINED_PAT_ID_MIN), (''sk-'', 20), (''AKIA'', 16)]"

definition ascii_alnum_run :: "string \<Rightarrow> nat" where
  "ascii_alnum_run bytes = length (takeWhile is_ascii_alphanumeric bytes)"

definition aws_key_id_run :: "string \<Rightarrow> nat option" where
  "aws_key_id_run bytes =
     (if length bytes < 16 then None
      else if list_all (\<lambda>b. is_ascii_digit b \<or> is_ascii_uppercase b) (take 16 bytes) then Some 16 else None)"

definition fine_grained_pat_span :: "string \<Rightarrow> nat option" where
  "fine_grained_pat_span bytes =
     (let id_len = ascii_alnum_run bytes
      in if id_len < FINE_GRAINED_PAT_ID_MIN then None
         else (case drop id_len bytes of
             c # after \<Rightarrow>
               if c = CHR ''_''
               then (let tail_len = length (takeWhile (\<lambda>b. is_ascii_alphanumeric b \<or> b = CHR ''_'') after)
                     in if FINE_GRAINED_PAT_TAIL_MIN \<le> tail_len then Some (id_len + 1 + tail_len)
                        else Some id_len)
               else Some id_len
           | [] \<Rightarrow> Some id_len))"

definition rule_span :: "string \<times> nat \<Rightarrow> string \<Rightarrow> nat option" where
  "rule_span rule rest =
     (case rule of (prefix, min_run) \<Rightarrow>
        (case strip_prefix prefix rest of
           None \<Rightarrow> None
         | Some after \<Rightarrow>
             (case (if prefix = ''AKIA'' then aws_key_id_run after
                    else if prefix = ''github_pat_'' then fine_grained_pat_span after
                    else Some (ascii_alnum_run after)) of
                None \<Rightarrow> None
              | Some run_len \<Rightarrow>
                  if min_run \<le> run_len then Some (length prefix + run_len) else None)))"

fun first_span :: "(string \<times> nat) list \<Rightarrow> string \<Rightarrow> nat option" where
  "first_span [] rest = None"
| "first_span (rule # rules) rest =
     (case rule_span rule rest of Some n \<Rightarrow> Some n | None \<Rightarrow> first_span rules rest)"

definition match_span :: "string \<Rightarrow> nat option" where
  "match_span rest = first_span BODY_SCRUB_RULES rest"

lemma first_span_Some: "first_span rules s = Some n \<Longrightarrow> \<exists>rule \<in> set rules. rule_span rule s = Some n"
  by (induction rules) (auto split: option.splits)

lemma match_span_pos: "match_span s = Some n \<Longrightarrow> 0 < n"
  by (auto simp: match_span_def rule_span_def BODY_SCRUB_RULES_def dest!: first_span_Some
      split: option.splits if_splits)

function scrub_secret_patterns :: "string \<Rightarrow> string" where
  "scrub_secret_patterns [] = []"
| "scrub_secret_patterns (c # cs) =
     (case match_span (c # cs) of
        Some n \<Rightarrow> REDACTED @ scrub_secret_patterns (drop n (c # cs))
      | None \<Rightarrow> c # scrub_secret_patterns cs)"
  by pat_completeness auto
termination
  by (relation "measure length") (auto dest: match_span_pos)

section \<open>Lemmas\<close>

lemma first_span_None_iff: "first_span rules s = None \<longleftrightarrow> (\<forall>rule \<in> set rules. rule_span rule s = None)"
  by (induction rules) (auto split: option.splits)

lemma match_span_head:
  "c \<notin> {CHR ''g'', CHR ''s'', CHR ''A''} \<Longrightarrow> match_span (c # s) = None"
  by (auto simp: match_span_def first_span_None_iff BODY_SCRUB_RULES_def rule_span_def)

lemma match_span_Nil: "match_span [] = None"
  by (auto simp: match_span_def first_span_None_iff BODY_SCRUB_RULES_def rule_span_def)

lemma strip_prefix_before_bracket:
  assumes "strip_prefix p (u @ CHR ''['' # v) = Some r" "CHR ''['' \<notin> set p"
  shows "\<exists>t. u = p @ t \<and> r = t @ CHR ''['' # v"
proof -
  have eq: "u @ CHR ''['' # v = p @ r" using assms(1) by (simp add: strip_prefix_Some_iff)
  then obtain us where us: "u = p @ us \<and> us @ CHR ''['' # v = r \<or> u @ us = p \<and> CHR ''['' # v = us @ r"
    by (auto simp: append_eq_append_conv2)
  then show ?thesis using assms(2) by (cases us) auto
qed

lemma alnum_run_bracket: "ascii_alnum_run (t @ CHR ''['' # v) \<le> ascii_alnum_run (t @ w)"
proof -
  have "\<not> is_ascii_alphanumeric (CHR ''['')" by (simp add: str_simps)
  then have "takeWhile is_ascii_alphanumeric (t @ CHR ''['' # v) = takeWhile is_ascii_alphanumeric t"
    by (induction t) auto
  moreover have "length (takeWhile is_ascii_alphanumeric t) \<le> length (takeWhile is_ascii_alphanumeric (t @ w))"
    by (induction t) auto
  ultimately show ?thesis by (simp add: ascii_alnum_run_def)
qed

lemma aws_run_bracket:
  assumes "aws_key_id_run (t @ CHR ''['' # v) = Some n"
  shows "aws_key_id_run (t @ w) = Some n"
proof -
  have "\<not> (is_ascii_digit (CHR ''['') \<or> is_ascii_uppercase (CHR ''[''))" by (simp add: str_simps)
  then have "16 \<le> length t"
    using assms by (auto simp: aws_key_id_run_def take_Cons' not_less split: if_splits)
  with assms show ?thesis by (auto simp: aws_key_id_run_def split: if_splits)
qed

lemma fine_span_bracket:
  assumes "fine_grained_pat_span (t @ CHR ''['' # v) = Some n"
  shows "\<exists>m. fine_grained_pat_span (t @ w) = Some m \<and> 22 \<le> m"
proof -
  have "22 \<le> ascii_alnum_run (t @ CHR ''['' # v)"
    using assms by (auto simp: fine_grained_pat_span_def Let_def FINE_GRAINED_PAT_ID_MIN_def split: if_splits)
  then have "22 \<le> ascii_alnum_run (t @ w)" using alnum_run_bracket [of t v w] by linarith
  then show ?thesis
    by (auto simp: fine_grained_pat_span_def Let_def FINE_GRAINED_PAT_ID_MIN_def split: list.splits)
qed

lemma rule_span_bracket:
  assumes "rule \<in> set BODY_SCRUB_RULES" "rule_span rule (u @ CHR ''['' # v) = Some n"
  shows "rule_span rule (u @ w) \<noteq> None"
proof -
  obtain p m where rule: "rule = (p, m)" by force
  obtain r where r: "strip_prefix p (u @ CHR ''['' # v) = Some r"
    using assms(2) by (auto simp: rule_span_def rule split: option.splits)
  have "CHR ''['' \<notin> set p" using assms(1) by (auto simp: BODY_SCRUB_RULES_def rule)
  from strip_prefix_before_bracket [OF r this]
  obtain t where t: "u = p @ t" "r = t @ CHR ''['' # v" by blast
  show ?thesis
    using assms r t alnum_run_bracket [of t v w] aws_run_bracket [of t v _ w] fine_span_bracket [of t v _ w]
    by (auto simp: rule rule_span_def BODY_SCRUB_RULES_def FINE_GRAINED_PAT_ID_MIN_def split: option.splits if_splits)
qed

lemma match_span_bracket:
  "match_span (u @ CHR ''['' # v) \<noteq> None \<Longrightarrow> match_span (u @ w) \<noteq> None"
proof -
  assume "match_span (u @ CHR ''['' # v) \<noteq> None"
  then obtain rule n where "rule \<in> set BODY_SCRUB_RULES" "rule_span rule (u @ CHR ''['' # v) = Some n"
    by (auto simp: match_span_def first_span_None_iff)
  with rule_span_bracket [of rule u v n w] show ?thesis
    unfolding match_span_def first_span_None_iff by metis
qed

text \<open>The output agrees with the body up to the first sentinel.\<close>

lemma scrub_shape:
  "\<exists>u w v. s = u @ w \<and> scrub_secret_patterns s = u @ v \<and> (v = [] \<and> w = [] \<or> (\<exists>v'. v = REDACTED @ v'))"
proof (induction s rule: scrub_secret_patterns.induct)
  case (2 c cs)
  show ?case
  proof (cases "match_span (c # cs)")
    case None
    with 2 obtain u w v where "cs = u @ w" "scrub_secret_patterns cs = u @ v"
      "v = [] \<and> w = [] \<or> (\<exists>v'. v = REDACTED @ v')" by auto
    with None show ?thesis by (intro exI [of _ "c # u"] exI [of _ w] exI [of _ v]) auto
  next
    case (Some n)
    then show ?thesis
      by (intro exI [of _ "[]"] exI [of _ "c # cs"] exI [of _ "scrub_secret_patterns (c # cs)"]) auto
  qed
qed simp

lemma scrub_head_unmatched: "match_span (scrub_secret_patterns s) = None"
proof (cases s)
  case (Cons c cs)
  show ?thesis
  proof (cases "match_span (c # cs)")
    case None
    obtain u w v where s: "cs = u @ w" "scrub_secret_patterns cs = u @ v"
        "v = [] \<and> w = [] \<or> (\<exists>v'. v = REDACTED @ v')"
      using scrub_shape by blast
    show ?thesis
    proof (cases "v = []")
      case True
      with s None Cons show ?thesis by (auto simp: REDACTED_def)
    next
      case False
      then obtain v' where v': "v = CHR ''['' # v'" using s(3) by (auto simp: REDACTED_def)
      have "match_span ((c # u) @ w) = None" using None s(1) by simp
      then have "match_span ((c # u) @ CHR ''['' # v') = None" using match_span_bracket by blast
      with None s v' Cons show ?thesis by simp
    qed
  next
    case (Some n)
    then show ?thesis by (simp add: Cons REDACTED_def match_span_head)
  qed
qed (simp add: match_span_Nil)

lemma scrub_suffix_unmatched: "match_span (drop k (scrub_secret_patterns s)) = None"
proof (induction s arbitrary: k rule: scrub_secret_patterns.induct)
  case (2 c cs)
  show ?case
  proof (cases "match_span (c # cs)")
    case None
    with 2 scrub_head_unmatched [of "c # cs"] show ?thesis by (cases k) auto
  next
    case (Some n)
    have "match_span (drop k REDACTED @ scrub_secret_patterns (drop n (c # cs))) = None" if "k < 10"
      using that by (auto simp: REDACTED_def numeral_eq_Suc less_Suc_eq match_span_head)
    moreover have "length REDACTED = 10" by (simp add: REDACTED_def)
    ultimately show ?thesis
      using "2.IH"(2) [OF Some, of "k - 10"] Some by (cases "k < 10") auto
  qed
qed (simp add: match_span_Nil)

lemma scrub_unmatched_id: "(\<And>k. match_span (drop k s) = None) \<Longrightarrow> scrub_secret_patterns s = s"
proof (induction s)
  case (Cons c cs)
  have "match_span (c # cs) = None" using Cons.prems [of 0] by simp
  moreover have "match_span (drop k cs) = None" for k using Cons.prems [of "Suc k"] by simp
  ultimately show ?case using Cons.IH by simp
qed simp

section \<open>Properties\<close>


end
