(* ===== verification/Replay_Cache.thy ===== *)
theory Replay_Cache
  imports Ordered_Map "HOL-Library.Product_Lexorder"
begin

text \<open>
  \<open>vaultx-broker/src/engine.rs\<close>: the replay cache keyed by token verifier and request id.

  An \<open>Instant\<close> is a natural number of clock ticks and \<open>duration_since\<close> the truncated difference.
  \<open>entries\<close> is the hash map, \<open>order\<close> the \<open>BTreeSet\<close> of \<open>(instant, key)\<close> pairs as an ascending list.
  The eviction loop runs until a slot is free; \<open>None\<close> stands for a loop that never ends.
\<close>

section \<open>The cache\<close>

type_synonym replay_key = "string \<times> string"

record replay_state =
  entries :: "(replay_key, nat) bt_map"
  order :: "(nat \<times> replay_key) list"
  live_at_last_sweep :: nat

record replay_limits =
  ttl :: nat
  capacity :: nat

definition REPLAY_CACHE_MAX_ENTRIES :: nat where
  "REPLAY_CACHE_MAX_ENTRIES = 100000"

definition REPLAY_TTL_SECS :: nat where
  "REPLAY_TTL_SECS = 600"

definition empty_replay :: replay_state where
  "empty_replay = \<lparr>entries = bt_empty, order = [], live_at_last_sweep = 0\<rparr>"

definition sweep_expired :: "nat \<Rightarrow> nat \<Rightarrow> replay_state \<Rightarrow> replay_state" where
  "sweep_expired now window s =
     (let expired = (\<lambda>(key, at). window \<le> now - at);
          kept = filter (\<lambda>e. \<not> expired e) (entries s)
      in s\<lparr>entries := kept,
           order := fold (\<lambda>(key, at) os. if expired (key, at) then removeAll (at, key) os else os) (entries s) (order s),
           live_at_last_sweep := length kept\<rparr>)"

definition evict_oldest :: "replay_state \<Rightarrow> replay_state" where
  "evict_oldest s =
     (case order s of
        [] \<Rightarrow> s
      | (_, key) # rest \<Rightarrow> s\<lparr>order := rest, entries := bt_remove key (entries s)\<rparr>)"

partial_function (option) evict_until :: "nat \<Rightarrow> replay_state \<Rightarrow> replay_state option" where
  "evict_until cap s =
     (if cap \<le> length (entries s) then evict_until cap (evict_oldest s) else Some s)"

definition register ::
  "replay_limits \<Rightarrow> nat \<Rightarrow> replay_key \<Rightarrow> replay_state \<Rightarrow> (bool \<times> replay_state) option" where
  "register limits now key s =
     (case bt_get (entries s) key of
        Some registered_at \<Rightarrow>
          if now - registered_at < ttl limits then Some (False, s)
          else Some (True, s\<lparr>entries := bt_insert key now (entries s),
                             order := insort_insert (now, key) (removeAll (registered_at, key) (order s))\<rparr>)
      | None \<Rightarrow>
          (let s1 = (if 2 * live_at_last_sweep s < length (entries s) then sweep_expired now (ttl limits) s else s)
           in case evict_until (capacity limits) s1 of
                None \<Rightarrow> None
              | Some s2 \<Rightarrow>
                  Some (True, s2\<lparr>entries := bt_insert key now (entries s2),
                                 order := insort_insert (now, key) (order s2)\<rparr>)))"

section \<open>Reference definitions\<close>

definition replay_inv :: "replay_state \<Rightarrow> bool" where
  "replay_inv s \<longleftrightarrow>
     bt_inv (entries s) \<and> sorted_wrt (<) (order s)
     \<and> set (order s) = {(t, k). bt_get (entries s) k = Some t}"

text \<open>A list of registrations, one after the other; the answers are dropped.\<close>

fun register_all :: "replay_limits \<Rightarrow> (nat \<times> replay_key) list \<Rightarrow> replay_state \<Rightarrow> replay_state option" where
  "register_all limits [] s = Some s"
| "register_all limits ((now, key) # rs) s =
     (case register limits now key s of None \<Rightarrow> None | Some (_, s') \<Rightarrow> register_all limits rs s')"

text \<open>The stored observations younger than a given one.\<close>

definition younger :: "nat \<times> replay_key \<Rightarrow> replay_state \<Rightarrow> (nat \<times> replay_key) set" where
  "younger e s = {x \<in> set (order s). e < x}"

section \<open>Lemmas: the two views agree\<close>

lemma inv_order_iff:
  "replay_inv s \<Longrightarrow> (t, k) \<in> set (order s) \<longleftrightarrow> bt_get (entries s) k = Some t"
  by (auto simp: replay_inv_def)

lemma order_distinct: "replay_inv s \<Longrightarrow> distinct (order s)"
  by (simp add: replay_inv_def strict_sorted_iff)

lemma length_order: "replay_inv s \<Longrightarrow> length (order s) = length (entries s)"
proof -
  assume inv: "replay_inv s"
  then have e: "distinct (map fst (entries s))" by (simp add: replay_inv_def bt_inv_def strict_sorted_iff)
  have "set (order s) = prod.swap ` set (entries s)"
    using inv by (auto simp: replay_inv_def bt_get_Some_iff image_iff) force
  moreover have "inj_on prod.swap (set (entries s))" by (rule inj_swap)
  ultimately have "card (set (order s)) = card (set (entries s))" by (simp add: card_image)
  moreover have "distinct (entries s)" using e by (simp add: distinct_map)
  ultimately show ?thesis using order_distinct [OF inv] by (simp add: distinct_card)
qed

lemma empty_entries: "length (entries empty_replay) \<le> cap"
  by (simp add: empty_replay_def bt_empty_def)

lemma replay_inv_empty: "replay_inv empty_replay"
  by (simp add: replay_inv_def empty_replay_def bt_get_empty)

lemma fold_remove_set:
  "set (fold (\<lambda>(key, at) os. if P (key, at) then removeAll (at, key) os else os) es obs)
   = set obs - {(at, key). (key, at) \<in> set es \<and> P (key, at)}"
  by (induction es arbitrary: obs) (auto split: if_splits)

lemma sorted_wrt_removeAll: "sorted_wrt (<) xs \<Longrightarrow> sorted_wrt (<) (removeAll x xs)"
  by (simp add: removeAll_filter_not_eq sorted_wrt_filter)

lemma fold_remove_sorted:
  "sorted_wrt (<) obs \<Longrightarrow>
   sorted_wrt (<) (fold (\<lambda>(key, at) os. if P (key, at) then removeAll (at, key) os else os) es obs)"
  by (induction es arbitrary: obs) (auto simp: sorted_wrt_removeAll)

lemma bt_inv_filter: "bt_inv m \<Longrightarrow> bt_inv (filter P m)"
  by (simp add: bt_inv_def sorted_wrt_filter sorted_wrt_map)

lemma sweep_inv:
  assumes "replay_inv s"
  shows "replay_inv (sweep_expired now t s)"
    and "set (order (sweep_expired now t s)) = {(at, k) \<in> set (order s). now - at < t}"
proof -
  let ?s = "sweep_expired now t s"
  have inv: "bt_inv (entries s)" using assms by (simp add: replay_inv_def)
  have e: "entries ?s = filter (\<lambda>(key, at). \<not> t \<le> now - at) (entries s)"
    by (simp add: sweep_expired_def Let_def case_prod_unfold)
  have mem: "(k, at) \<in> set (entries s) \<longleftrightarrow> (at, k) \<in> set (order s)" for k at
    using assms inv by (simp add: inv_order_iff bt_get_Some_iff)
  show o: "set (order ?s) = {(at, k) \<in> set (order s). now - at < t}"
    using mem by (auto simp: sweep_expired_def Let_def fold_remove_set [where P = "\<lambda>(key, at). t \<le> now - at", simplified])
  have "bt_inv (entries ?s)" unfolding e using inv by (rule bt_inv_filter)
  moreover have "sorted_wrt (<) (order ?s)"
    using assms fold_remove_sorted [of "order s" "\<lambda>(key, at). t \<le> now - at" "entries s"]
    by (simp add: replay_inv_def sweep_expired_def Let_def)
  moreover have "bt_get (entries ?s) k = Some at \<longleftrightarrow> (at, k) \<in> set (order ?s)" for k at
    using \<open>bt_inv (entries ?s)\<close> mem unfolding o by (auto simp: bt_get_Some_iff e)
  ultimately show "replay_inv ?s" by (auto simp: replay_inv_def)
qed

lemma evict_inv:
  assumes "replay_inv s" "order s = e # rest"
  shows "replay_inv (evict_oldest s)" "order (evict_oldest s) = rest"
    "length (entries (evict_oldest s)) < length (entries s)"
proof -
  obtain t k where e: "e = (t, k)" by (metis surj_pair)
  have o: "order (evict_oldest s) = rest" and en: "entries (evict_oldest s) = bt_remove k (entries s)"
    using assms(2) by (simp_all add: evict_oldest_def e)
  then show "order (evict_oldest s) = rest" by simp
  have notin: "(t', k) \<notin> set rest" for t'
  proof
    assume in_rest: "(t', k) \<in> set rest"
    then have "t' = t" using assms inv_order_iff [OF assms(1)] e by (metis list.set_intros option.inject)
    with in_rest assms(2) e order_distinct [OF assms(1)] show False by simp
  qed
  have "bt_get (entries s) k' = Some t' \<longleftrightarrow> (t', k') = (t, k) \<or> (t', k') \<in> set rest" for t' k'
    using inv_order_iff [OF assms(1), of t' k'] assms(2) e by auto
  then have "set rest = {(t', k'). bt_get (bt_remove k (entries s)) k' = Some t'}"
    using assms(1) notin by (auto simp: replay_inv_def bt_get_remove split: if_splits)
  then show inv: "replay_inv (evict_oldest s)"
    using assms e by (simp add: replay_inv_def o en)
  from length_order [OF inv] length_order [OF assms(1)] assms(2) o
  show "length (entries (evict_oldest s)) < length (entries s)" by simp
qed

section \<open>Lemmas: eviction and registration\<close>

text \<open>The eviction loop ends, frees a slot, and removes a prefix of the order.\<close>

lemma evict_until_returns:
  assumes "replay_inv s" "0 < cap"
  shows "\<exists>s'. evict_until cap s = Some s' \<and> replay_inv s' \<and> length (entries s') < cap
     \<and> (\<exists>n. order s' = drop n (order s) \<and> (n = 0 \<or> length (order s) - n + 1 = cap))"
  using assms
proof (induction "length (entries s)" arbitrary: s rule: less_induct)
  case less
  show ?case
  proof (cases "cap \<le> length (entries s)")
    case False
    then show ?thesis
      using less.prems evict_until.simps [of cap s] by (intro exI [of _ s]) (auto intro: exI [of _ 0])
  next
    case True
    then obtain e rest where o: "order s = e # rest"
      using length_order [OF less.prems(1)] less.prems(2) by (cases "order s") auto
    note ev = evict_inv [OF less.prems(1) o]
    obtain s' n where s': "evict_until cap (evict_oldest s) = Some s'" "replay_inv s'"
        "length (entries s') < cap" "order s' = drop n rest" "n = 0 \<or> length rest - n + 1 = cap"
      using less.hyps [OF ev(3,1) less.prems(2)] ev(2) by auto
    have "n = 0 \<Longrightarrow> length rest + 1 = cap"
      using s' True length_order [OF less.prems(1)] length_order [OF s'(2)] o by auto
    with s'(5) have "length (order s) - Suc n + 1 = cap" using o by auto
    with True s' o show ?thesis
      using evict_until.simps [of cap s] by (intro exI [of _ s']) (auto intro: exI [of _ "Suc n"])
  qed
qed

lemma insert_inv:
  assumes "replay_inv s" "bt_get (entries s) key = None"
  shows "replay_inv (s\<lparr>entries := bt_insert key now (entries s), order := insort_insert (now, key) (order s)\<rparr>)"
proof -
  have "sorted_wrt (<) (insort_insert (now, key) (order s))"
    using assms by (simp add: replay_inv_def strict_sorted_iff sorted_insort_insert distinct_insort_insert)
  moreover have "set (insort_insert (now, key) (order s)) = {(t, k). bt_get (bt_insert key now (entries s)) k = Some t}"
    using assms by (auto simp: replay_inv_def set_insort_insert bt_get_insert)
  ultimately show ?thesis using assms by (simp add: replay_inv_def)
qed

lemma refresh_inv:
  assumes "replay_inv s" "bt_get (entries s) key = Some at"
  shows "replay_inv (s\<lparr>entries := bt_insert key now (entries s),
           order := insort_insert (now, key) (removeAll (at, key) (order s))\<rparr>)"
proof -
  let ?o = "removeAll (at, key) (order s)"
  have "sorted_wrt (<) ?o" using assms(1) by (simp add: replay_inv_def sorted_wrt_removeAll)
  then have "sorted_wrt (<) (insort_insert (now, key) ?o)"
    by (simp add: strict_sorted_iff sorted_insort_insert distinct_insort_insert)
  moreover have "set (insort_insert (now, key) ?o) = {(t, k). bt_get (bt_insert key now (entries s)) k = Some t}"
    using assms by (auto simp: replay_inv_def set_insort_insert bt_get_insert)
  ultimately show ?thesis using assms by (simp add: replay_inv_def)
qed

text \<open>One registration: a repeat, a refresh of an expired observation, or a new observation.\<close>

lemma register_cases:
  assumes inv: "replay_inv s" and cap: "0 < capacity limits"
  obtains (replayed) at where "bt_get (entries s) key = Some at" "now - at < ttl limits"
      "register limits now key s = Some (False, s)"
  | (refresh) at s' where "bt_get (entries s) key = Some at" "\<not> now - at < ttl limits"
      "register limits now key s = Some (True, s')" "replay_inv s'"
      "order s' = insort_insert (now, key) (removeAll (at, key) (order s))"
  | (fresh) os n s' where "bt_get (entries s) key = None"
      "register limits now key s = Some (True, s')" "replay_inv s'"
      "order s' = insort_insert (now, key) (drop n os)" "sorted_wrt (<) os"
      "set os \<subseteq> set (order s)" "\<forall>(t, k) \<in> set (order s). now - t < ttl limits \<longrightarrow> (t, k) \<in> set os"
      "n = 0 \<or> length os - n + 1 = capacity limits" "length (drop n os) < capacity limits"
proof (cases "bt_get (entries s) key")
  case (Some at)
  show thesis
  proof (cases "now - at < ttl limits")
    case True
    then show thesis using Some by (intro replayed) (simp_all add: register_def)
  next
    case False
    let ?s' = "s\<lparr>entries := bt_insert key now (entries s),
                 order := insort_insert (now, key) (removeAll (at, key) (order s))\<rparr>"
    have "register limits now key s = Some (True, ?s')" using Some False by (simp add: register_def)
    then show thesis by (rule refresh [OF Some False _ refresh_inv [OF inv Some]]) simp
  qed
next
  case None
  define s1 where "s1 = (if 2 * live_at_last_sweep s < length (entries s)
                         then sweep_expired now (ttl limits) s else s)"
  have inv1: "replay_inv s1" and sub: "set (order s1) \<subseteq> set (order s)"
    and kept: "\<forall>(t, k) \<in> set (order s). now - t < ttl limits \<longrightarrow> (t, k) \<in> set (order s1)"
    using inv sweep_inv [OF inv, of now "ttl limits"] by (auto simp: s1_def)
  obtain s2 n where s2: "evict_until (capacity limits) s1 = Some s2" "replay_inv s2"
      "length (entries s2) < capacity limits" "order s2 = drop n (order s1)"
      "n = 0 \<or> length (order s1) - n + 1 = capacity limits"
    using evict_until_returns [OF inv1 cap] by blast
  have sub2: "set (order s2) \<subseteq> set (order s)"
    using sub s2(4) set_drop_subset [of n "order s1"] by auto
  have none: "bt_get (entries s2) key = None"
  proof (rule ccontr)
    assume "bt_get (entries s2) key \<noteq> None"
    then obtain t where "(t, key) \<in> set (order s2)" using inv_order_iff [OF s2(2)] by auto
    with sub2 None inv_order_iff [OF inv, of t key] show False by auto
  qed
  let ?s' = "s2\<lparr>entries := bt_insert key now (entries s2), order := insort_insert (now, key) (order s2)\<rparr>"
  have reg: "register limits now key s = Some (True, ?s')"
    using None s2(1) by (simp add: register_def s1_def)
  show thesis
  proof (rule fresh [OF None reg insert_inv [OF s2(2) none], of n "order s1"])
    show "order ?s' = insort_insert (now, key) (drop n (order s1))" by (simp add: s2(4))
    show "sorted_wrt (<) (order s1)" using inv1 by (simp add: replay_inv_def)
    show "length (drop n (order s1)) < capacity limits"
      using s2(3,4) length_order [OF s2(2)] by simp
  qed (use sub kept s2 in auto)
qed

lemma length_insort_insert: "length (insort_insert x xs) \<le> length xs + 1"
  by (simp add: insort_insert_insort_key insort_insert_key_def)

lemma register_returns:
  assumes inv: "replay_inv s" and cap: "0 < capacity limits"
  shows "\<exists>b s'. register limits now key s = Some (b, s') \<and> replay_inv s'
     \<and> (length (entries s) \<le> capacity limits \<longrightarrow> length (entries s') \<le> capacity limits)"
using inv cap
proof (cases rule: register_cases [of s limits key now])
  case (replayed at)
  then show ?thesis using inv by auto
next
  case (refresh at s')
  have "(at, key) \<in> set (order s)" using refresh(1) inv_order_iff [OF inv] by blast
  then have "length (removeAll (at, key) (order s)) < length (order s)"
    by (rule length_removeAll_less)
  with refresh length_order [OF inv] length_order [OF refresh(4)]
    length_insort_insert [of "(now, key)" "removeAll (at, key) (order s)"]
  show ?thesis by auto
next
  case (fresh os n s')
  then show ?thesis
    using length_order [OF fresh(3)] length_insort_insert [of "(now, key)" "drop n os"] by auto
qed


text \<open>An entry survives a registration inside its window while fewer than a capacity of entries are younger.\<close>

lemma sorted_drop_keeps:
  assumes "sorted_wrt (<) (xs :: 'a::linorder list)" "x \<in> set xs" "card {y \<in> set xs. x < y} < length xs - n"
  shows "x \<in> set (drop n xs)"
proof (rule ccontr)
  assume "x \<notin> set (drop n xs)"
  moreover have "set xs = set (take n xs) \<union> set (drop n xs)" by (metis append_take_drop_id set_append)
  ultimately have "x \<in> set (take n xs)" using assms(2) by blast
  then have "\<forall>y \<in> set (drop n xs). x < y"
    using assms(1) by (metis append_take_drop_id sorted_wrt_append)
  then have "set (drop n xs) \<subseteq> {y \<in> set xs. x < y}" using set_drop_subset [of n xs] by blast
  then have "card (set (drop n xs)) \<le> card {y \<in> set xs. x < y}" by (intro card_mono) auto
  moreover have "distinct (drop n xs)" using assms(1) by (simp add: strict_sorted_iff)
  ultimately show False using assms(3) by (simp add: distinct_card)
qed

lemma younger_insert:
  assumes "set (order s') \<subseteq> insert x (set (order s))"
  shows "card (younger e s') \<le> card (younger e s) + 1"
proof -
  have "younger e s' \<subseteq> insert x (younger e s)" using assms by (auto simp: younger_def)
  then have "card (younger e s') \<le> card (insert x (younger e s))"
    by (rule card_mono [rotated]) (simp add: younger_def)
  also have "\<dots> \<le> card (younger e s) + 1" by (simp add: younger_def card_insert_if)
  finally show ?thesis .
qed

lemma register_keeps:
  assumes inv: "replay_inv s" and e: "(t0, k0) \<in> set (order s)" and live: "now - t0 < ttl limits"
    and room: "card (younger (t0, k0) s) + 1 < capacity limits"
    and reg: "register limits now key s = Some (b, s')"
  shows "(t0, k0) \<in> set (order s') \<and> card (younger (t0, k0) s') \<le> card (younger (t0, k0) s) + 1"
proof -
  have cap: "0 < capacity limits" using room by simp
  show ?thesis
    using inv cap
  proof (cases rule: register_cases [of s limits key now])
    case (replayed at)
    then show ?thesis using reg e by simp
  next
    case (refresh at s'')
    have "(at, key) \<noteq> (t0, k0)" using refresh(2) live by auto
    moreover have "card (younger (t0, k0) s'') \<le> card (younger (t0, k0) s) + 1"
      by (rule younger_insert [of _ "(now, key)"]) (auto simp: refresh(5) set_insort_insert)
    ultimately show ?thesis using refresh reg e by (auto simp: set_insort_insert)
  next
    case (fresh os n s'')
    have e': "(t0, k0) \<in> set os" using fresh(7) e live by auto
    have "card {y \<in> set os. (t0, k0) < y} \<le> card (younger (t0, k0) s)"
      using fresh(6) by (intro card_mono) (auto simp: younger_def)
    moreover have "card {y \<in> set os. (t0, k0) < y} < length os"
    proof -
      have "card {y \<in> set os. (t0, k0) < y} < card (set os)"
        using e' by (intro psubset_card_mono) auto
      then show ?thesis using card_length [of os] by linarith
    qed
    ultimately have "card {y \<in> set os. (t0, k0) < y} < length os - n" using fresh(8) room by auto
    then have "(t0, k0) \<in> set (drop n os)" by (rule sorted_drop_keeps [OF fresh(5) e'])
    moreover have "card (younger (t0, k0) s'') \<le> card (younger (t0, k0) s) + 1"
      using fresh(4,6) set_drop_subset [of n os]
      by (intro younger_insert [of _ "(now, key)"]) (auto simp: set_insort_insert)
    ultimately show ?thesis using fresh(2,4) reg by (auto simp: set_insort_insert)
  qed
qed

lemma register_all_returns:
  assumes "replay_inv s" "0 < capacity limits" "length (entries s) \<le> capacity limits"
  shows "\<exists>s'. register_all limits rs s = Some s' \<and> replay_inv s' \<and> length (entries s') \<le> capacity limits"
  using assms
proof (induction rs arbitrary: s)
  case (Cons r rs)
  obtain now key where r: "r = (now, key)" by (metis surj_pair)
  obtain b s1 where s1: "register limits now key s = Some (b, s1)" "replay_inv s1"
      "length (entries s1) \<le> capacity limits"
    using register_returns [OF Cons.prems(1,2)] Cons.prems(3) by blast
  then show ?case using Cons.IH [OF s1(2) Cons.prems(2) s1(3)] by (simp add: r)
qed simp

lemma register_all_keeps:
  assumes "replay_inv s" "(t0, k0) \<in> set (order s)" "\<forall>(t, k) \<in> set rs. t - t0 < ttl limits"
    "card (younger (t0, k0) s) + length rs < capacity limits" "register_all limits rs s = Some s'"
  shows "(t0, k0) \<in> set (order s')"
  using assms
proof (induction rs arbitrary: s)
  case (Cons r rs)
  obtain now key where r: "r = (now, key)" by (metis surj_pair)
  have cap: "0 < capacity limits" using Cons.prems(4) by simp
  obtain b s1 where s1: "register limits now key s = Some (b, s1)" "replay_inv s1"
    using register_returns [OF Cons.prems(1) cap] by blast
  have "(t0, k0) \<in> set (order s1) \<and> card (younger (t0, k0) s1) \<le> card (younger (t0, k0) s) + 1"
    using Cons.prems by (intro register_keeps [OF Cons.prems(1,2) _ _ s1(1)]) (auto simp: r)
  then show ?case using Cons.prems s1 by (intro Cons.IH [of s1]) (auto simp: r)
qed simp

lemma register_order:
  assumes "replay_inv s" "0 < capacity limits" "register limits now key s = Some (b, s')"
  shows "set (order s') \<subseteq> insert (now, key) (set (order s))"
    and "b \<Longrightarrow> (now, key) \<in> set (order s')"
proof -
  show "set (order s') \<subseteq> insert (now, key) (set (order s))"
    using assms(1,2)
  proof (cases rule: register_cases [of s limits key now])
    case (fresh os n s'')
    then show ?thesis using assms(3) set_drop_subset [of n os] by (auto simp: set_insort_insert)
  qed (use assms(3) in \<open>auto simp: set_insort_insert\<close>)
  show "(now, key) \<in> set (order s')" if b
    using assms(1,2) by (cases rule: register_cases [of s limits key now]) (use assms(3) that in \<open>auto simp: set_insort_insert\<close>)
qed

lemma register_all_order:
  assumes "replay_inv s" "0 < capacity limits" "register_all limits rs s = Some s'"
  shows "set (order s') \<subseteq> set rs \<union> set (order s)"
  using assms
proof (induction rs arbitrary: s)
  case (Cons r rs)
  obtain now key where r: "r = (now, key)" by (metis surj_pair)
  obtain b s1 where s1: "register limits now key s = Some (b, s1)" "replay_inv s1"
    using register_returns [OF Cons.prems(1,2)] by blast
  then show ?case
    using Cons.IH [OF s1(2) Cons.prems(2)] Cons.prems(3) register_order(1) [OF Cons.prems(1,2) s1(1)]
    by (auto simp: r)
qed simp

section \<open>Properties\<close>

text \<open>
  C37. A replayed request is refused. Take any history of registrations, register a pair at an instant
  later than all of them, and let it be accepted. Whatever other registrations follow, as long as there
  are fewer of them than the capacity and all are inside the window, registering the same pair again
  inside the window is answered \<open>false\<close> and changes nothing. Every registration on the way returns.
\<close>

theorem replay_refused:
  assumes "0 < capacity limits" "\<forall>(t, k) \<in> set hist. t < t0"
    and "length later < capacity limits" "\<forall>(t, k) \<in> set later. t - t0 < ttl limits" "now - t0 < ttl limits"
  shows "\<exists>s fresh s1 s2. register_all limits hist empty_replay = Some s
     \<and> register limits t0 key s = Some (fresh, s1) \<and> register_all limits later s1 = Some s2
     \<and> (fresh \<longrightarrow> register limits now key s2 = Some (False, s2))"
proof -
  obtain s where s: "register_all limits hist empty_replay = Some s" "replay_inv s"
      "length (entries s) \<le> capacity limits"
    using register_all_returns [OF replay_inv_empty assms(1) empty_entries] by blast
  obtain b s1 where s1: "register limits t0 key s = Some (b, s1)" "replay_inv s1"
      "length (entries s1) \<le> capacity limits"
    using register_returns [OF s(2) assms(1)] s(3) by blast
  obtain s2 where s2: "register_all limits later s1 = Some s2" "replay_inv s2"
    using register_all_returns [OF s1(2) assms(1) s1(3)] by blast
  have "register limits now key s2 = Some (False, s2)" if b
  proof -
    have old: "set (order s) \<subseteq> set hist"
      using register_all_order [OF replay_inv_empty assms(1) s(1)] by (simp add: empty_replay_def)
    have "younger (t0, key) s1 = {}"
      using register_order(1) [OF s(2) assms(1) s1(1)] old assms(2) by (fastforce simp: younger_def)
    then have "(t0, key) \<in> set (order s2)"
      using register_order(2) [OF s(2) assms(1) s1(1) that] assms(3,4)
      by (intro register_all_keeps [OF s1(2) _ _ _ s2(1)]) auto
    then show ?thesis using inv_order_iff [OF s2(2)] assms(5) by (simp add: register_def)
  qed
  with s s1 s2 show ?thesis by blast
qed

theorem replay_refused_witness:
  "\<exists>s fresh s1 s2. register_all \<lparr>ttl = 600, capacity = 2\<rparr> [(1, (''a'', ''r1'')), (2, (''a'', ''r2''))] empty_replay = Some s
     \<and> register \<lparr>ttl = 600, capacity = 2\<rparr> 5 (''a'', ''r3'') s = Some (fresh, s1)
     \<and> register_all \<lparr>ttl = 600, capacity = 2\<rparr> [(6, (''b'', ''r3''))] s1 = Some s2
     \<and> (fresh \<longrightarrow> register \<lparr>ttl = 600, capacity = 2\<rparr> 9 (''a'', ''r3'') s2 = Some (False, s2))"
  by (rule replay_refused) simp_all

text \<open>
  The cache is bounded and its eviction loop ends. From the empty cache, with the built-in limits,
  every sequence of registrations returns, and leaves at most 100000 entries, with the map and the
  ordered set holding the same observations.
\<close>

lemma replay_cache_bounded:
  "\<exists>s. register_all \<lparr>ttl = REPLAY_TTL_SECS, capacity = REPLAY_CACHE_MAX_ENTRIES\<rparr> rs empty_replay = Some s
     \<and> length (entries s) \<le> REPLAY_CACHE_MAX_ENTRIES \<and> length (order s) = length (entries s)
     \<and> set (order s) = {(t, k). bt_get (entries s) k = Some t}"
proof -
  have "0 < REPLAY_CACHE_MAX_ENTRIES" by (simp add: REPLAY_CACHE_MAX_ENTRIES_def)
  then obtain s where "register_all \<lparr>ttl = REPLAY_TTL_SECS, capacity = REPLAY_CACHE_MAX_ENTRIES\<rparr> rs empty_replay = Some s"
      "replay_inv s" "length (entries s) \<le> REPLAY_CACHE_MAX_ENTRIES"
    using register_all_returns [OF replay_inv_empty, of "\<lparr>ttl = REPLAY_TTL_SECS, capacity = REPLAY_CACHE_MAX_ENTRIES\<rparr>" rs]
    by (auto simp: empty_entries)
  then show ?thesis using length_order [of s] by (auto simp: replay_inv_def)
qed

end
