(* ===== verification/Audit_Event.thy ===== *)
theory Audit_Event
  imports Policy_Model Ordered_Map
begin

text \<open>
  \<open>vaultx-audit/src/event.rs\<close> and \<open>error.rs\<close>: the validated fields of an audit event, the metadata map
  with its key filter, and the event records.  A newtype with a validating constructor is the string it
  wraps; \<open>valid_new_event\<close> collects what the constructors of all fields guarantee.
\<close>

section \<open>Errors\<close>

datatype audit_error =
    AuditIo string
  | Serialization string
  | ChainBroken u64 string
  | InvalidMetadata string string
  | CorruptRecord nat string
  | AuditEntropy string
  | IdGeneration string

section \<open>Correlation ids and capability names\<close>

type_synonym correlation_id = string
type_synonym capability_name = string

definition CORRELATION_ID_MAX_LEN :: nat where
  "CORRELATION_ID_MAX_LEN = 64"

definition CAPABILITY_NAME_MAX_LEN :: nat where
  "CAPABILITY_NAME_MAX_LEN = 128"

definition parse_correlation_id :: "string \<Rightarrow> (correlation_id, audit_error) result" where
  "parse_correlation_id value =
     (let invalid = InvalidMetadata ''correlation_id''
      in if value = [] then Err (invalid ''must not be empty'')
         else if CORRELATION_ID_MAX_LEN < char_count value
         then Err (invalid (''must be at most '' @ dec_of_nat CORRELATION_ID_MAX_LEN @ '' characters''))
         else if \<not> list_all (\<lambda>c. is_ascii_lowercase c \<or> is_ascii_digit c \<or> c = CHR ''-'' \<or> c = CHR ''_'') value
         then Err (invalid (''must contain only lowercase alphanumerics, '' @ backquoted ''-'' @ '' and '' @ backquoted ''_''))
         else Ok value)"

definition generate_correlation_id :: "(string, audit_error) result \<Rightarrow> (correlation_id, audit_error) result" where
  "generate_correlation_id random_hex = and_then random_hex parse_correlation_id"

definition parse_capability_name :: "string \<Rightarrow> (capability_name, audit_error) result" where
  "parse_capability_name value =
     (let invalid = InvalidMetadata ''capability_name''
      in if value = [] then Err (invalid ''must not be empty'')
         else if CAPABILITY_NAME_MAX_LEN < char_count value
         then Err (invalid (''must be at most '' @ dec_of_nat CAPABILITY_NAME_MAX_LEN @ '' characters''))
         else if \<not> list_all (\<lambda>c. is_ascii_lowercase c \<or> is_ascii_digit c
                              \<or> c = CHR ''.'' \<or> c = CHR ''-'' \<or> c = CHR ''_'') value
         then Err (invalid (''must contain only lowercase alphanumerics, '' @ backquoted ''.'' @ '', ''
                            @ backquoted ''-'' @ '' and '' @ backquoted ''_''))
         else if list_ex (\<lambda>segment. segment = []) (split_on (CHR ''.'') value)
         then Err (invalid ''dot-separated segments must be non-empty'')
         else Ok value)"

section \<open>Actions and decisions\<close>

datatype audit_action =
    AuHttpRequest
  | SessionCreated
  | SessionRevoked
  | SecretSet
  | SecretRotate
  | SecretDestroy
  | ConfigCommitted
  | PolicyUpdated

datatype audit_decision = AuAllow | AuDeny string

definition MAX_DENY_REASON_BYTES :: nat where
  "MAX_DENY_REASON_BYTES = 256"

fun validate_decision :: "audit_decision \<Rightarrow> (unit, audit_error) result" where
  "validate_decision AuAllow = Ok ()"
| "validate_decision (AuDeny reason) =
     (if MAX_DENY_REASON_BYTES < length reason
      then Err (InvalidMetadata ''decision.deny.reason''
                  (''must be at most '' @ dec_of_nat MAX_DENY_REASON_BYTES @ '' bytes''))
      else Ok ())"

definition deny_decision :: "string \<Rightarrow> (audit_decision, audit_error) result" where
  "deny_decision reason = and_then (validate_decision (AuDeny reason)) (\<lambda>_. Ok (AuDeny reason))"

section \<open>Destination summaries\<close>

record destination_summary =
  dest_host :: string
  dest_port :: u16
  dest_path :: string

definition HOST_MAX_LEN :: nat where
  "HOST_MAX_LEN = 253"

definition PATH_MAX_LEN :: nat where
  "PATH_MAX_LEN = 512"

definition validate_destination_host :: "string \<Rightarrow> (unit, audit_error) result" where
  "validate_destination_host host =
     (let reject = InvalidMetadata ''destination.host''
      in if host = [] then Err (reject ''must not be empty'')
         else if HOST_MAX_LEN < length host
         then Err (reject (''must be at most '' @ dec_of_nat HOST_MAX_LEN @ '' bytes''))
         else if \<not> list_all (\<lambda>b. is_ascii_lowercase b \<or> is_ascii_digit b \<or> b = CHR ''.'' \<or> b = CHR ''-'') host
         then Err (reject ''must contain only lowercase letters, digits, dots and hyphens'')
         else if list_ex (\<lambda>label. label = [] \<or> \<not> is_ascii_alphanumeric (hd label)
                                  \<or> \<not> is_ascii_alphanumeric (last label)) (split_on (CHR ''.'') host)
         then Err (reject ''dotted labels must be non-empty and start/end with an alphanumeric'')
         else Ok ())"

definition validate_destination_path :: "string \<Rightarrow> (unit, audit_error) result" where
  "validate_destination_path path =
     (let reject = InvalidMetadata ''destination.path''
      in if \<not> starts_with ''/'' path then Err (reject (''must start with '' @ backquoted ''/''))
         else if CHR ''?'' \<in> set path \<or> CHR ''#'' \<in> set path
         then Err (reject (''must not contain query ('' @ backquoted ''?'' @ '') or fragment (''
                           @ backquoted ''#'' @ '') components''))
         else if any_char is_control_cp path then Err (reject ''must not contain control characters'')
         else if PATH_MAX_LEN < length path
         then Err (reject (''must be at most '' @ dec_of_nat PATH_MAX_LEN @ '' bytes''))
         else Ok ())"

definition new_destination :: "string \<Rightarrow> u16 \<Rightarrow> string \<Rightarrow> (destination_summary, audit_error) result" where
  "new_destination host port path =
     and_then (validate_destination_host host) (\<lambda>_.
     and_then (validate_destination_path path) (\<lambda>_.
     Ok \<lparr>dest_host = host, dest_port = port, dest_path = path\<rparr>))"

section \<open>Metadata\<close>

type_synonym audit_metadata = "(string, string) bt_map"

definition MAX_METADATA_ENTRIES :: nat where
  "MAX_METADATA_ENTRIES = 64"

definition MAX_METADATA_VALUE_BYTES :: nat where
  "MAX_METADATA_VALUE_BYTES = 512"

definition SENSITIVE_KEY_TERMS :: "string list" where
  "SENSITIVE_KEY_TERMS =
     [''authorization'', ''proxy-authorization'', ''cookie'', ''set-cookie'',
      ''secret'', ''token'', ''password'', ''api-key'', ''x-api-key'',
      ''private-key'', ''session-token'']"

definition underscores_to_hyphens :: "string \<Rightarrow> string" where
  "underscores_to_hyphens s = map (\<lambda>c. if c = CHR ''_'' then CHR ''-'' else c) s"

definition validate_metadata_pair :: "string \<Rightarrow> string \<Rightarrow> (unit, audit_error) result" where
  "validate_metadata_pair key value =
     (let rejected = InvalidMetadata key;
          lowered = underscores_to_hyphens (to_ascii_lowercase key)
      in if list_ex (\<lambda>term. contains_str term lowered) SENSITIVE_KEY_TERMS
         then Err (rejected ''names credential or authentication material and cannot enter audit metadata'')
         else if key = [] then Err (rejected ''key must not be empty'')
         else if \<not> list_all (\<lambda>b. is_ascii_lowercase b \<or> is_ascii_digit b
                              \<or> b = CHR ''_'' \<or> b = CHR ''-'' \<or> b = CHR ''.'') key
         then Err (rejected (''key must contain only lowercase token characters ('' @ backquoted ''a-z''
                    @ '', digits, '' @ backquoted ''_'' @ '', '' @ backquoted ''-'' @ '', '' @ backquoted ''.'' @ '')''))
         else if MAX_METADATA_VALUE_BYTES < length value
         then Err (rejected (''value exceeds maximum of '' @ dec_of_nat MAX_METADATA_VALUE_BYTES @ '' bytes''))
         else Ok ())"

definition try_insert :: "string \<Rightarrow> string \<Rightarrow> audit_metadata \<Rightarrow> (audit_metadata, audit_error) result" where
  "try_insert key value m =
     and_then (validate_metadata_pair key value) (\<lambda>_.
       if bt_get m key = None \<and> MAX_METADATA_ENTRIES \<le> length m
       then Err (InvalidMetadata key (''metadata already holds the maximum of ''
                                      @ dec_of_nat MAX_METADATA_ENTRIES @ '' entries''))
       else Ok (bt_insert key value m))"

fun insert_pairs :: "(string \<times> string) list \<Rightarrow> audit_metadata \<Rightarrow> (audit_metadata, audit_error) result" where
  "insert_pairs [] m = Ok m"
| "insert_pairs ((key, value) # pairs) m = and_then (try_insert key value m) (insert_pairs pairs)"

definition from_pairs :: "(string \<times> string) list \<Rightarrow> (audit_metadata, audit_error) result" where
  "from_pairs pairs = insert_pairs pairs bt_empty"

section \<open>Events\<close>

record new_audit_event =
  ev_correlation_id :: correlation_id
  ev_actor :: principal
  ev_project :: project_id
  ev_environment :: "environment_id option"
  ev_action :: audit_action
  ev_decision :: audit_decision
  ev_credential :: "credential_ref option"
  ev_destination :: "destination_summary option"
  ev_capability :: "capability_name option"
  ev_policy_ids :: "string list"
  ev_metadata :: audit_metadata

record audit_event = new_audit_event +
  ev_id :: string
  ev_sequence :: u64
  ev_prev_hash :: "string option"

fun show_type_error :: "type_error \<Rightarrow> string" where
  "show_type_error Empty = ''value must not be empty''"
| "show_type_error (InvalidPrefix expected) = ''value must start with '' @ backquoted expected"
| "show_type_error InvalidCharacters = ''value contains invalid characters''"
| "show_type_error (TooLong max_len) = ''value exceeds maximum length of '' @ dec_of_nat max_len"

definition generate_audit_event_id :: "(string, audit_error) result \<Rightarrow> (string, audit_error) result" where
  "generate_audit_event_id random_hex =
     and_then random_hex (\<lambda>suffix.
       case parse_audit_event_id (''aud_'' @ suffix) of
         Ok v \<Rightarrow> Ok v
       | Err e \<Rightarrow> Err (IdGeneration (show_type_error e)))"

section \<open>What the constructors guarantee\<close>

primrec opt_all :: "('a \<Rightarrow> bool) \<Rightarrow> 'a option \<Rightarrow> bool" where
  "opt_all p None = True"
| "opt_all p (Some v) = p v"

definition valid_metadata :: "audit_metadata \<Rightarrow> bool" where
  "valid_metadata m \<longleftrightarrow>
     bt_inv m \<and> length m \<le> MAX_METADATA_ENTRIES
     \<and> list_all (\<lambda>(k, v). validate_metadata_pair k v = Ok ()) m"

definition valid_destination :: "destination_summary \<Rightarrow> bool" where
  "valid_destination d \<longleftrightarrow>
     validate_destination_host (dest_host d) = Ok () \<and> validate_destination_path (dest_path d) = Ok ()"

text \<open>
  The denial reason is deliberately not part of it: the enum variant can be built without the validated
  constructor, and the store checks it on its write path.
\<close>

definition valid_new_event :: "('a) new_audit_event_scheme \<Rightarrow> bool" where
  "valid_new_event e \<longleftrightarrow>
     is_ok (parse_correlation_id (ev_correlation_id e)) \<and> is_ok (parse_principal (ev_actor e))
     \<and> is_ok (parse_prefixed_id ''proj_'' (ev_project e))
     \<and> opt_all (\<lambda>v. is_ok (parse_prefixed_id ''env_'' v)) (ev_environment e)
     \<and> opt_all (\<lambda>v. is_ok (parse_plain_id 128 v)) (ev_credential e)
     \<and> opt_all valid_destination (ev_destination e)
     \<and> opt_all (\<lambda>v. is_ok (parse_capability_name v)) (ev_capability e)
     \<and> list_all (\<lambda>v. is_ok (parse_prefixed_id ''pol_'' v)) (ev_policy_ids e)
     \<and> valid_metadata (ev_metadata e)"

definition valid_event :: "audit_event \<Rightarrow> bool" where
  "valid_event e \<longleftrightarrow>
     valid_new_event e \<and> is_ok (parse_audit_event_id (ev_id e)) \<and> is_ok (validate_decision (ev_decision e))"

section \<open>Lemmas\<close>

lemma new_destination_valid: "new_destination h p s = Ok d \<Longrightarrow> valid_destination d"
  by (auto simp: new_destination_def valid_destination_def)

lemma valid_destination_no_query:
  "valid_destination d \<Longrightarrow> CHR ''?'' \<notin> set (dest_path d) \<and> CHR ''#'' \<notin> set (dest_path d)"
  by (simp add: valid_destination_def validate_destination_path_def Let_def split: if_splits)

lemma deny_decision_Ok_iff: "deny_decision r = Ok d \<longleftrightarrow> d = AuDeny r \<and> length r \<le> MAX_DENY_REASON_BYTES"
  by (auto simp: deny_decision_def)

lemma generate_audit_event_id_valid:
  "generate_audit_event_id r = Ok v \<Longrightarrow> parse_audit_event_id v = Ok v"
proof -
  assume "generate_audit_event_id r = Ok v"
  then obtain a where "parse_audit_event_id (''aud_'' @ a) = Ok v"
    by (cases r) (auto simp: generate_audit_event_id_def split: result.split_asm)
  then show ?thesis using parse_prefixed_id_id by metis
qed

lemma length_bt_insert:
  "length (bt_insert k v m) = (if bt_get m k = None then Suc (length m) else length m)" if "bt_inv m"
  using that by (induction k v m rule: bt_insert.induct) (auto simp: bt_get_None_iff)

lemma set_bt_insert: "set (bt_insert k v m) \<subseteq> insert (k, v) (set m)"
  by (induction k v m rule: bt_insert.induct) auto

lemma try_insert_valid: "valid_metadata m \<Longrightarrow> try_insert k v m = Ok m' \<Longrightarrow> valid_metadata m'"
  using set_bt_insert [of k v m]
  by (auto simp: valid_metadata_def try_insert_def length_bt_insert list_all_iff split: if_splits)

lemma insert_pairs_valid: "valid_metadata m \<Longrightarrow> insert_pairs ps m = Ok m' \<Longrightarrow> valid_metadata m'"
  by (induction ps m rule: insert_pairs.induct) (auto dest: try_insert_valid)

lemma from_pairs_valid: "from_pairs ps = Ok m \<Longrightarrow> valid_metadata m"
  unfolding from_pairs_def
  by (rule insert_pairs_valid [of bt_empty]) (simp_all add: valid_metadata_def bt_empty_def)

lemma validate_metadata_pair_Ok:
  "validate_metadata_pair k v = Ok () \<Longrightarrow>
     k \<noteq> [] \<and> length v \<le> MAX_METADATA_VALUE_BYTES
     \<and> (\<forall>t \<in> set SENSITIVE_KEY_TERMS. \<not> contains_str t (underscores_to_hyphens (to_ascii_lowercase k)))"
  by (auto simp: validate_metadata_pair_def Let_def list_ex_iff split: if_splits)

text \<open>
  No metadata map names credential material, and every map is bounded.  Whatever pairs are offered,
  in any number and order, a map that \<open>from_pairs\<close> builds has at most 64 entries, values of at most 512
  bytes, and no key that contains a sensitive term in any letter case and with underscores for hyphens;
  looking a key up gives the last value offered for it.
\<close>

lemma metadata_redacted:
  assumes "from_pairs pairs = Ok m"
  shows "length m \<le> 64 \<and> bt_get m = map_of (rev pairs)
     \<and> (\<forall>(k, v) \<in> set pairs. length v \<le> 512
          \<and> (\<forall>t \<in> set SENSITIVE_KEY_TERMS. \<forall>a b. underscores_to_hyphens (to_ascii_lowercase k) \<noteq> a @ t @ b))"
proof -
  have gen: "insert_pairs ps m0 = Ok m1 \<Longrightarrow>
     bt_get m1 = bt_get m0 ++ map_of (rev ps) \<and> (\<forall>(k, v) \<in> set ps. validate_metadata_pair k v = Ok ())"
    for ps m0 m1
  proof (induction ps m0 rule: insert_pairs.induct)
    case (2 key val pairs m0)
    then obtain m2 where m2: "try_insert key val m0 = Ok m2" "insert_pairs pairs m2 = Ok m1" by auto
    then have "bt_get m2 = (bt_get m0)(key \<mapsto> val)" "validate_metadata_pair key val = Ok ()"
      by (auto simp: try_insert_def bt_get_insert split: if_splits)
    moreover have "bt_get m1 = bt_get m2 ++ map_of (rev pairs)
        \<and> (\<forall>(k, v) \<in> set pairs. validate_metadata_pair k v = Ok ())"
      by (rule "2.IH" [OF m2(2)])
    ultimately show ?case by (auto simp: map_add_def fun_eq_iff split: option.splits)
  qed simp
  have "bt_get m = map_of (rev pairs)" and pairs: "\<forall>(k, v) \<in> set pairs. validate_metadata_pair k v = Ok ()"
    using gen [of pairs bt_empty m] assms by (simp_all add: from_pairs_def bt_get_empty)
  moreover have "length m \<le> 64"
    using from_pairs_valid [OF assms] by (simp add: valid_metadata_def MAX_METADATA_ENTRIES_def)
  moreover have "length v \<le> 512
      \<and> (\<forall>t \<in> set SENSITIVE_KEY_TERMS. \<forall>a b. underscores_to_hyphens (to_ascii_lowercase k) \<noteq> a @ t @ b)"
    if "(k, v) \<in> set pairs" for k v
    using validate_metadata_pair_Ok [of k v] pairs that contains_str_iff
    by (fastforce simp: MAX_METADATA_VALUE_BYTES_def)
  ultimately show ?thesis by blast
qed

lemma metadata_redacted_witness:
  "\<exists>m. from_pairs [(''http.method'', ''GET''), (''http.status'', ''200''), (''http.method'', ''PUT'')] = Ok m
     \<and> length m \<le> 64 \<and> bt_get m ''http.method'' = Some ''PUT''"
proof -
  have "from_pairs [(''http.method'', ''GET''), (''http.status'', ''200''), (''http.method'', ''PUT'')]
        = Ok [(''http.method'', ''PUT''), (''http.status'', ''200'')]"
    by code_simp
  from metadata_redacted [OF this] this show ?thesis by auto
qed

end
