(* ===== verification/Broker_Engine.thy ===== *)
theory Broker_Engine
  imports Broker_Request Injection Body_Scrub Replay_Cache Audit_Event Policy_Engine Canonical_Url
begin

text \<open>
  \<open>vaultx-broker/src/engine.rs\<close>: the request pipeline.

  The trait objects the engine holds are the functions of \<open>broker_deps\<close>; those with state read and
  write the world \<open>'w\<close>, which stands for everything outside the engine (session store, audit log,
  network, clock, other threads).  The replay cache is the engine's own state.  The engine state also
  records, as \<open>effects\<close>, the calls made on the dependencies and their answers, in order; the code has no
  such log, and nothing in the pipeline reads it.

  Every early \<open>return self.deny(...)\<close> of the source is a \<open>Refuse\<close> of a stage, with the stage's denial
  reason; \<open>Panic\<close> is a failing \<open>expect\<close>, \<open>Diverge\<close> a loop that does not end.
\<close>

section \<open>Dependencies and state\<close>

record executed_response =
  ex_status :: u16
  ex_headers :: headers
  ex_body :: string

datatype 'u effect =
    Validated string "(agent_session_record, broker_error) result"
  | Registered replay_key bool
  | Authorized authorization_request authorization_decision
  | Consumed string "(unit, broker_error) result"
  | Resolved credential_ref environment_id bool
  | Sent "'u outbound_request" "(executed_response, broker_error) result"
  | Audited new_audit_event bool

record ('w, 'u) broker_deps =
  dep_authorize :: "authorization_request \<Rightarrow> authorization_decision"
  dep_validate :: "string \<Rightarrow> 'w \<Rightarrow> (agent_session_record, broker_error) result \<times> 'w"
  dep_consume :: "string \<Rightarrow> 'w \<Rightarrow> (unit, broker_error) result \<times> 'w"
  dep_template :: "credential_ref \<Rightarrow> environment_id \<Rightarrow> 'w \<Rightarrow> (injection_template_id, broker_error) result"
  dep_metadata :: "credential_ref \<Rightarrow> 'w \<Rightarrow> (credential_metadata, broker_error) result"
  dep_resolve :: "credential_ref \<Rightarrow> environment_id \<Rightarrow> 'w \<Rightarrow> (secret, broker_error) result"
  dep_send :: "'u outbound_request \<Rightarrow> 'w \<Rightarrow> (executed_response, broker_error) result \<times> 'w"
  dep_append :: "new_audit_event \<Rightarrow> 'w \<Rightarrow> (audit_event, audit_error) result \<times> 'w"
  dep_project :: project_id
  dep_guard :: egress_guard
  dep_now :: "'w \<Rightarrow> nat"
  dep_hash_token :: "string \<Rightarrow> string"
  dep_request_hex :: "'w \<Rightarrow> (string, broker_error) result"
  dep_correlation_hex :: "'w \<Rightarrow> (string, audit_error) result"
  dep_url :: "'u url_api"
  dep_base64 :: "string \<Rightarrow> string"
  dep_to_vec :: "json \<Rightarrow> string option"

record ('w, 'u) engine_state =
  replay :: replay_state
  world :: 'w
  effects :: "'u effect list"

definition MAX_RESPONSE_BODY_BYTES :: nat where
  "MAX_RESPONSE_BODY_BYTES = 1048576"

definition REPLAY_DETECTED_REASON :: string where
  "REPLAY_DETECTED_REASON = ''replay_detected''"

definition ALWAYS_REDACTED_RESPONSE_HEADERS :: "string list" where
  "ALWAYS_REDACTED_RESPONSE_HEADERS = [''set-cookie'']"

definition UNAUTHENTICATED_ACTOR :: string where
  "UNAUTHENTICATED_ACTOR = ''agent:unknown''"

definition AUDIT_WRITE_FAILED_REASON :: string where
  "AUDIT_WRITE_FAILED_REASON = ''audit_write_failed''"

definition replay_limits :: replay_limits where
  "replay_limits = \<lparr>ttl = REPLAY_TTL_SECS, capacity = REPLAY_CACHE_MAX_ENTRIES\<rparr>"

section \<open>Helpers of the pipeline\<close>

text \<open>\<open>bounded_reason\<close>: the loop steps back to a character boundary; 0 always is one.\<close>

fun floor_char_boundary :: "string \<Rightarrow> nat \<Rightarrow> nat" where
  "floor_char_boundary s 0 = 0"
| "floor_char_boundary s (Suc n) =
     (if Suc n = length s \<or> Suc n < length s \<and> \<not> is_continuation (s ! Suc n) then Suc n
      else floor_char_boundary s n)"

definition bounded_reason :: "string \<Rightarrow> string" where
  "bounded_reason reason =
     (if length reason \<le> MAX_DENY_REASON_BYTES then reason
      else take (floor_char_boundary reason MAX_DENY_REASON_BYTES) reason)"

definition audit_write_failed_response :: "request_id \<Rightarrow> broker_response" where
  "audit_write_failed_response rid =
     \<lparr>resp_request_id = rid, status = 500, resp_headers = [], resp_body = [],
      resp_decision = DenyDecision AUDIT_WRITE_FAILED_REASON None\<rparr>"

text \<open>The \<open>expect\<close> on the static actor cannot fail: \<open>UNAUTHENTICATED_ACTOR\<close> parses to itself (below).\<close>

definition unauthenticated_actor :: "broker_request \<Rightarrow> principal" where
  "unauthenticated_actor req =
     (case parse_session_id (session_token req) of
        Ok sid \<Rightarrow> (case parse_principal (''session:'' @ sid) of Ok p \<Rightarrow> p | Err _ \<Rightarrow> UNAUTHENTICATED_ACTOR)
      | Err _ \<Rightarrow> UNAUTHENTICATED_ACTOR)"

definition summarize_destination :: "'u url_api \<Rightarrow> 'u \<Rightarrow> destination_summary option" where
  "summarize_destination api canonical =
     (case new_destination (canonical_host api canonical) (port_or_default api canonical) (url_path api canonical) of
        Ok d \<Rightarrow> Some d | Err _ \<Rightarrow> None)"

text \<open>\<open>let _ = metadata.try_insert(...)\<close>: a rejected entry is dropped.\<close>

definition insert_or_drop :: "string \<Rightarrow> string \<Rightarrow> audit_metadata \<Rightarrow> audit_metadata" where
  "insert_or_drop key v m = (case try_insert key v m of Ok m' \<Rightarrow> m' | Err _ \<Rightarrow> m)"

record deny_context =
  dc_request_id :: request_id
  dc_correlation :: correlation_id
  dc_actor :: principal
  dc_environment :: "environment_id option"
  dc_credential :: "credential_ref option"
  dc_destination :: "destination_summary option"
  dc_capability :: "capability_name option"
  dc_method :: string

datatype 'a outcome = Returned 'a | Panicked | Diverged

definition call_append ::
  "('w, 'u) broker_deps \<Rightarrow> new_audit_event \<Rightarrow> ('w, 'u) engine_state \<Rightarrow> bool \<times> ('w, 'u) engine_state" where
  "call_append deps e st =
     (case dep_append deps e (world st) of (r, w) \<Rightarrow>
      (is_ok r, st\<lparr>world := w, effects := effects st @ [Audited e (is_ok r)]\<rparr>))"

definition deny_event :: "project_id \<Rightarrow> deny_context \<Rightarrow> string \<Rightarrow> string option \<Rightarrow> new_audit_event" where
  "deny_event project c reason policy =
     (let m1 = insert_or_drop ''http.method'' (dc_method c) bt_empty;
          m2 = insert_or_drop ''stage.reason'' reason m1;
          m3 = (case policy of Some name \<Rightarrow> insert_or_drop ''policy'' name m2 | None \<Rightarrow> m2)
      in \<lparr>ev_correlation_id = dc_correlation c, ev_actor = dc_actor c, ev_project = project,
          ev_environment = dc_environment c, ev_action = AuHttpRequest,
          ev_decision = AuDeny (bounded_reason reason), ev_credential = dc_credential c,
          ev_destination = dc_destination c, ev_capability = dc_capability c, ev_policy_ids = [], ev_metadata = m3\<rparr>)"

definition deny ::
  "('w, 'u) broker_deps \<Rightarrow> deny_context \<Rightarrow> string \<Rightarrow> string option \<Rightarrow> ('w, 'u) engine_state
   \<Rightarrow> broker_response outcome \<times> ('w, 'u) engine_state" where
  "deny deps c reason policy st =
     (case call_append deps (deny_event (dep_project deps) c reason policy) st of
        (True, st') \<Rightarrow> (Returned (denied (dc_request_id c) reason policy), st')
      | (False, st') \<Rightarrow> (Returned (audit_write_failed_response (dc_request_id c)), st'))"

definition build_authorization_request ::
  "('w, 'u) broker_deps \<Rightarrow> broker_request \<Rightarrow> principal \<Rightarrow> 'u \<Rightarrow> environment_id option \<Rightarrow> authorization_request" where
  "build_authorization_request deps req actor canonical env =
     \<lparr>req_principal = actor, req_action = HttpRequest, req_resource = broker_request.credential req,
      req_context =
        \<lparr>ctx_host = canonical_host (dep_url deps) canonical, ctx_method = method req,
         ctx_path = url_path (dep_url deps) canonical,
         ctx_query = fold (\<lambda>(k, v) m. bt_insert k v m) (url_query_pairs (dep_url deps) canonical) bt_empty,
         ctx_body_len_bytes = wire_len_bytes (dep_to_vec deps) (body req), ctx_environment = env\<rparr>\<rparr>"

definition resolve_credential ::
  "('w, 'u) broker_deps \<Rightarrow> credential_ref \<Rightarrow> environment_id \<Rightarrow> 'w
   \<Rightarrow> (injection_template_id \<times> credential_metadata \<times> secret, broker_error) result" where
  "resolve_credential deps cred env w =
     and_then (map_err (\<lambda>_. UnknownCredential cred) (dep_template deps cred env w)) (\<lambda>template.
     and_then (map_err (\<lambda>_. UnknownCredential cred) (dep_metadata deps cred w)) (\<lambda>meta.
     and_then (map_err (\<lambda>_. UnknownCredential cred) (dep_resolve deps cred env w)) (\<lambda>sec.
     Ok (template, meta, sec))))"

section \<open>The stages\<close>

datatype 'a stage = Go 'a | Refuse string "string option" | Panic | Diverge

definition bootstrap ::
  "('w, 'u) broker_deps \<Rightarrow> broker_request \<Rightarrow> 'w \<Rightarrow> (request_id \<times> correlation_id \<times> capability_name option) option" where
  "bootstrap deps req w =
     (let rid = (case request_id req of
                   Some given \<Rightarrow> given
                 | None \<Rightarrow> (case generate_request_id (dep_request_hex deps w) of
                              Ok r \<Rightarrow> r | Err _ \<Rightarrow> deterministic_fallback));
          cap = (case capability_hint req of
                   None \<Rightarrow> None
                 | Some hint \<Rightarrow> (case parse_capability_name hint of Ok n \<Rightarrow> Some n | Err _ \<Rightarrow> None))
      in case generate_correlation_id (dep_correlation_hex deps w) of
           Ok corr \<Rightarrow> Some (rid, corr, cap)
         | Err _ \<Rightarrow> (case parse_correlation_id rid of Ok corr \<Rightarrow> Some (rid, corr, cap) | Err _ \<Rightarrow> None))"

definition stage_protocol :: "broker_request \<Rightarrow> unit stage" where
  "stage_protocol req =
     (if protocol req \<noteq> PROTOCOL_VERSION then Refuse ''protocol_unsupported'' None else Go ())"

definition agent_principal :: "agent_id \<Rightarrow> (principal, policy_error) result" where
  "agent_principal ag =
     parse_principal (''agent:'' @ (case strip_prefix ''agent_'' ag of Some bare \<Rightarrow> bare | None \<Rightarrow> ag))"

definition stage_session ::
  "('w, 'u) broker_deps \<Rightarrow> broker_request \<Rightarrow> ('w, 'u) engine_state
   \<Rightarrow> (agent_session_record \<times> principal) stage \<times> ('w, 'u) engine_state" where
  "stage_session deps req st =
     (case dep_validate deps (session_token req) (world st) of (r, w) \<Rightarrow>
      ((case r of
          Ok record \<Rightarrow> (case agent_principal (agent record) of Ok actor \<Rightarrow> Go (record, actor) | Err _ \<Rightarrow> Panic)
        | Err broker_error.SessionRevoked \<Rightarrow> Refuse ''session_revoked'' None
        | Err _ \<Rightarrow> Refuse ''invalid_session'' None),
       st\<lparr>world := w, effects := effects st @ [Validated (session_token req) r]\<rparr>))"

definition stage_replay ::
  "('w, 'u) broker_deps \<Rightarrow> broker_request \<Rightarrow> request_id \<Rightarrow> ('w, 'u) engine_state
   \<Rightarrow> unit stage \<times> ('w, 'u) engine_state" where
  "stage_replay deps req rid st =
     (if request_id req = None then (Go (), st)
      else (let key = (dep_hash_token deps (session_token req), rid)
            in case register replay_limits (dep_now deps (world st)) key (replay st) of
                 None \<Rightarrow> (Diverge, st)
               | Some (fresh, c) \<Rightarrow>
                   (if fresh then Go () else Refuse REPLAY_DETECTED_REASON None,
                    st\<lparr>replay := c, effects := effects st @ [Registered key fresh]\<rparr>)))"

definition stage_canonical :: "('w, 'u) broker_deps \<Rightarrow> broker_request \<Rightarrow> 'u stage" where
  "stage_canonical deps req =
     (case canonical_parse (dep_url deps) (url req) of
        Ok canonical \<Rightarrow> Go canonical | Err _ \<Rightarrow> Refuse ''invalid_destination'' None)"

definition stage_egress :: "('w, 'u) broker_deps \<Rightarrow> 'u \<Rightarrow> unit stage" where
  "stage_egress deps canonical =
     (if is_err (check_host (dep_guard deps) (canonical_host (dep_url deps) canonical))
      then Refuse ''destination_denied'' None else Go ())"

definition stage_authorize ::
  "('w, 'u) broker_deps \<Rightarrow> broker_request \<Rightarrow> principal \<Rightarrow> 'u \<Rightarrow> environment_id \<Rightarrow> ('w, 'u) engine_state
   \<Rightarrow> policy_name stage \<times> ('w, 'u) engine_state" where
  "stage_authorize deps req actor canonical env st =
     (let authz = build_authorization_request deps req actor canonical (Some env);
          decision = dep_authorize deps authz
      in ((case decision of Allow policy \<Rightarrow> Go policy | Deny reason policy \<Rightarrow> Refuse (deny_reason_str reason) policy),
          st\<lparr>effects := effects st @ [Authorized authz decision]\<rparr>))"

definition stage_delegation :: "('w, 'u) broker_deps \<Rightarrow> broker_request \<Rightarrow> agent_session_record \<Rightarrow> 'u \<Rightarrow> unit stage" where
  "stage_delegation deps req record canonical =
     (case constraints record of
        None \<Rightarrow> Go ()
      | Some c \<Rightarrow>
          if is_err (check_request c (broker_request.credential req) (environment record)
                       (canonical_host (dep_url deps) canonical) (method_str (method req))
                       (url_path (dep_url deps) canonical))
          then Refuse ''outside_delegation'' None else Go ())"

definition stage_budget ::
  "('w, 'u) broker_deps \<Rightarrow> broker_request \<Rightarrow> ('w, 'u) engine_state \<Rightarrow> unit stage \<times> ('w, 'u) engine_state" where
  "stage_budget deps req st =
     (case dep_consume deps (session_token req) (world st) of (r, w) \<Rightarrow>
      ((case r of
          Ok _ \<Rightarrow> Go ()
        | Err BudgetExhausted \<Rightarrow> Refuse ''budget_exhausted'' None
        | Err broker_error.SessionRevoked \<Rightarrow> Refuse ''session_revoked'' None
        | Err _ \<Rightarrow> Refuse ''budget_check_failed'' None),
       st\<lparr>world := w, effects := effects st @ [Consumed (session_token req) r]\<rparr>))"

definition stage_credential ::
  "('w, 'u) broker_deps \<Rightarrow> broker_request \<Rightarrow> environment_id \<Rightarrow> ('w, 'u) engine_state
   \<Rightarrow> (injection_template_id \<times> credential_metadata \<times> secret) stage \<times> ('w, 'u) engine_state" where
  "stage_credential deps req env st =
     (let r = resolve_credential deps (broker_request.credential req) env (world st)
      in ((case r of Ok resolved \<Rightarrow> Go resolved | Err _ \<Rightarrow> Refuse ''credential_unavailable'' None),
          st\<lparr>effects := effects st @ [Resolved (broker_request.credential req) env (is_ok r)]\<rparr>))"

definition stage_inject ::
  "('w, 'u) broker_deps \<Rightarrow> broker_request \<Rightarrow> 'u \<Rightarrow> injection_template_id \<Rightarrow> credential_metadata \<Rightarrow> secret
   \<Rightarrow> 'u outbound_request stage" where
  "stage_inject deps req canonical template meta sec =
     (let safe_headers = fst (filter_request_headers (req_headers req));
          outbound = \<lparr>canonical_url = canonical, out_method = method req, out_headers = safe_headers, out_body = body req\<rparr>
      in case apply_for (dep_url deps) (dep_base64 deps) template outbound sec meta of
           Ok injected \<Rightarrow> Go injected
         | Err (TemplateUnsupported _) \<Rightarrow> Refuse ''template_unsupported'' None
         | Err _ \<Rightarrow> Refuse ''injection_failed'' None)"

definition stage_transport ::
  "('w, 'u) broker_deps \<Rightarrow> 'u outbound_request \<Rightarrow> ('w, 'u) engine_state
   \<Rightarrow> executed_response stage \<times> ('w, 'u) engine_state" where
  "stage_transport deps outbound st =
     (case dep_send deps outbound (world st) of (r, w) \<Rightarrow>
      ((case r of
          Ok executed \<Rightarrow>
            if MAX_RESPONSE_BODY_BYTES < length (ex_body executed) then Refuse ''response_too_large'' None
            else Go executed
        | Err _ \<Rightarrow> Refuse ''transport_failure'' None),
       st\<lparr>world := w, effects := effects st @ [Sent outbound r]\<rparr>))"

definition allow_event :: "project_id \<Rightarrow> deny_context \<Rightarrow> executed_response \<Rightarrow> policy_name \<Rightarrow> new_audit_event" where
  "allow_event project c executed policy =
     (let m1 = insert_or_drop ''http.method'' (dc_method c) bt_empty;
          m2 = insert_or_drop ''http.status'' (dec_of_nat (unat (ex_status executed))) m1;
          m3 = insert_or_drop ''policy'' policy m2
      in \<lparr>ev_correlation_id = dc_correlation c, ev_actor = dc_actor c, ev_project = project,
          ev_environment = dc_environment c, ev_action = AuHttpRequest, ev_decision = AuAllow,
          ev_credential = dc_credential c, ev_destination = dc_destination c, ev_capability = dc_capability c,
          ev_policy_ids = [], ev_metadata = m3\<rparr>)"

definition sanitized_response :: "request_id \<Rightarrow> executed_response \<Rightarrow> broker_response" where
  "sanitized_response rid executed =
     \<lparr>resp_request_id = rid, status = ex_status executed,
      resp_headers = redact_response_headers (ex_headers executed) ALWAYS_REDACTED_RESPONSE_HEADERS,
      resp_body = scrub_secret_patterns (ex_body executed), resp_decision = AllowDecision\<rparr>"

definition deliver ::
  "('w, 'u) broker_deps \<Rightarrow> deny_context \<Rightarrow> executed_response \<Rightarrow> policy_name \<Rightarrow> ('w, 'u) engine_state
   \<Rightarrow> broker_response outcome \<times> ('w, 'u) engine_state" where
  "deliver deps c executed policy st =
     (case call_append deps (allow_event (dep_project deps) c executed policy) st of
        (False, st') \<Rightarrow> (Returned (audit_write_failed_response (dc_request_id c)), st')
      | (True, st') \<Rightarrow> (Returned (sanitized_response (dc_request_id c) executed), st'))"

section \<open>The pipeline\<close>

fun on_go ::
  "'a stage \<times> 's \<Rightarrow> (string \<Rightarrow> string option \<Rightarrow> 's \<Rightarrow> 'r outcome \<times> 's) \<Rightarrow> ('a \<Rightarrow> 's \<Rightarrow> 'r outcome \<times> 's)
   \<Rightarrow> 'r outcome \<times> 's" where
  "on_go (Go a, st) refuse k = k a st"
| "on_go (Refuse reason policy, st) refuse k = refuse reason policy st"
| "on_go (Panic, st) refuse k = (Panicked, st)"
| "on_go (Diverge, st) refuse k = (Diverged, st)"

text \<open>After the budget: credential resolution, injection, transport, delivery.\<close>

definition execute_funded ::
  "('w, 'u) broker_deps \<Rightarrow> broker_request \<Rightarrow> deny_context \<Rightarrow> agent_session_record \<Rightarrow> 'u \<Rightarrow> policy_name
   \<Rightarrow> ('w, 'u) engine_state \<Rightarrow> broker_response outcome \<times> ('w, 'u) engine_state" where
  "execute_funded deps req c record canonical policy st3 =
     on_go (stage_credential deps req (environment record) st3) (deny deps c) (\<lambda>(template, meta, sec) st4.
     on_go (stage_inject deps req canonical template meta sec, st4) (deny deps c) (\<lambda>outbound st5.
     on_go (stage_transport deps outbound st5) (deny deps c) (\<lambda>executed st6.
     deliver deps c executed policy st6)))"

text \<open>From the accepted destination on: authorization, delegation, budget.\<close>

definition execute_authorized ::
  "('w, 'u) broker_deps \<Rightarrow> broker_request \<Rightarrow> deny_context \<Rightarrow> agent_session_record \<Rightarrow> 'u \<Rightarrow> ('w, 'u) engine_state
   \<Rightarrow> broker_response outcome \<times> ('w, 'u) engine_state" where
  "execute_authorized deps req c record canonical st0 =
     on_go (stage_authorize deps req (dc_actor c) canonical (environment record) st0) (deny deps c) (\<lambda>policy st1.
     on_go (stage_delegation deps req record canonical, st1) (deny deps c) (\<lambda>_ st2.
     on_go (stage_budget deps req st2) (deny deps c) (\<lambda>_ st3.
     execute_funded deps req c record canonical policy st3)))"

text \<open>From the authenticated session on: replay guard, canonicalization, egress.\<close>

definition execute_authenticated ::
  "('w, 'u) broker_deps \<Rightarrow> broker_request \<Rightarrow> deny_context \<Rightarrow> agent_session_record \<Rightarrow> ('w, 'u) engine_state
   \<Rightarrow> broker_response outcome \<times> ('w, 'u) engine_state" where
  "execute_authenticated deps req c1 record st2 =
     on_go (stage_replay deps req (dc_request_id c1) st2) (deny deps c1) (\<lambda>_ st3.
     on_go (stage_canonical deps req, st3) (deny deps c1) (\<lambda>canonical st4.
     let c2 = c1\<lparr>dc_destination := summarize_destination (dep_url deps) canonical\<rparr>
     in on_go (stage_egress deps canonical, st4) (deny deps c2) (\<lambda>_ st5.
        execute_authorized deps req c2 record canonical st5)))"

definition initial_context ::
  "broker_request \<Rightarrow> request_id \<Rightarrow> correlation_id \<Rightarrow> capability_name option \<Rightarrow> deny_context" where
  "initial_context req rid corr cap =
     \<lparr>dc_request_id = rid, dc_correlation = corr, dc_actor = unauthenticated_actor req,
      dc_environment = None, dc_credential = Some (broker_request.credential req),
      dc_destination = None, dc_capability = cap, dc_method = method_str (method req)\<rparr>"

definition execute_pipeline ::
  "('w, 'u) broker_deps \<Rightarrow> broker_request \<Rightarrow> ('w, 'u) engine_state
   \<Rightarrow> broker_response outcome \<times> ('w, 'u) engine_state" where
  "execute_pipeline deps req st0 =
     (case bootstrap deps req (world st0) of
        None \<Rightarrow> (Panicked, st0)
      | Some (rid, corr, cap) \<Rightarrow>
          (let c0 = initial_context req rid corr cap
           in on_go (stage_protocol req, st0) (deny deps c0) (\<lambda>_ st1.
              on_go (stage_session deps req st1) (deny deps c0) (\<lambda>(record, actor) st2.
              execute_authenticated deps req
                (c0\<lparr>dc_actor := actor, dc_environment := Some (environment record)\<rparr>) record st2))))"

section \<open>Reference definitions\<close>

text \<open>The calls a refused request may have made: none of them reaches the network or the audit log.\<close>

fun is_sent :: "'u effect \<Rightarrow> bool" where
  "is_sent (Sent _ _) = True"
| "is_sent _ = False"

fun is_audited :: "'u effect \<Rightarrow> bool" where
  "is_audited (Audited _ _) = True"
| "is_audited _ = False"

definition quiet :: "'u effect list \<Rightarrow> bool" where
  "quiet xs \<longleftrightarrow> list_all (\<lambda>x. \<not> is_sent x \<and> \<not> is_audited x) xs"

text \<open>The delegation constraints of the session admit the request.\<close>

definition within_delegation :: "('w, 'u) broker_deps \<Rightarrow> broker_request \<Rightarrow> agent_session_record \<Rightarrow> 'u \<Rightarrow> bool" where
  "within_delegation deps req record u \<longleftrightarrow>
     (\<forall>k. constraints record = Some k \<longrightarrow>
        check_request k (broker_request.credential req) (environment record) (canonical_host (dep_url deps) u)
          (method_str (method req)) (url_path (dep_url deps) u) = Ok ())"

text \<open>The outbound request is the caller's request, filtered, with the credential injected.\<close>

definition built ::
  "('w, 'u) broker_deps \<Rightarrow> broker_request \<Rightarrow> agent_session_record \<Rightarrow> 'u \<Rightarrow> 'u outbound_request \<Rightarrow> bool" where
  "built deps req record u ob \<longleftrightarrow>
     (\<exists>template meta sec w.
        resolve_credential deps (broker_request.credential req) (environment record) w = Ok (template, meta, sec)
        \<and> apply_for (dep_url deps) (dep_base64 deps) template
            \<lparr>canonical_url = u, out_method = method req,
             out_headers = fst (filter_request_headers (req_headers req)), out_body = body req\<rparr> sec meta = Ok ob)"

text \<open>How the last steps of a request end: a denial, or the delivery of what the transport answered.\<close>

definition finished ::
  "('w, 'u) broker_deps \<Rightarrow> deny_context \<Rightarrow> policy_name \<Rightarrow> (executed_response, broker_error) result
   \<Rightarrow> ('w, 'u) engine_state \<Rightarrow> broker_response outcome \<times> ('w, 'u) engine_state \<Rightarrow> bool" where
  "finished deps c policy r s res \<longleftrightarrow>
     (\<exists>reason pol. deny deps c reason pol s = res)
     \<or> (\<exists>executed. r = Ok executed \<and> length (ex_body executed) \<le> MAX_RESPONSE_BODY_BYTES
          \<and> deliver deps c executed policy s = res)"

text \<open>The calls on the dependencies that change the world, the audit store apart.\<close>

inductive world_steps :: "('w, 'u) broker_deps \<Rightarrow> 'w \<Rightarrow> 'w \<Rightarrow> bool" for deps where
  stay: "world_steps deps w w"
| validate_step: "world_steps deps w w1 \<Longrightarrow> dep_validate deps tok w1 = (r, w2) \<Longrightarrow> world_steps deps w w2"
| consume_step: "world_steps deps w w1 \<Longrightarrow> dep_consume deps tok w1 = (b, w2) \<Longrightarrow> world_steps deps w w2"
| send_step: "world_steps deps w w1 \<Longrightarrow> dep_send deps ob w1 = (x, w2) \<Longrightarrow> world_steps deps w w2"

text \<open>Steps that leave the replay cache alone, and steps with at most one registration in it.\<close>

definition only_world :: "('w, 'u) broker_deps \<Rightarrow> ('w, 'u) engine_state \<Rightarrow> ('w, 'u) engine_state \<Rightarrow> bool" where
  "only_world deps st s \<longleftrightarrow> replay s = replay st \<and> world_steps deps (world st) (world s)"

definition replay_step :: "('w, 'u) broker_deps \<Rightarrow> ('w, 'u) engine_state \<Rightarrow> ('w, 'u) engine_state \<Rightarrow> bool" where
  "replay_step deps st s \<longleftrightarrow>
     (replay s = replay st \<or> (\<exists>now key b. register replay_limits now key (replay st) = Some (b, replay s)))
     \<and> world_steps deps (world st) (world s)"

definition replay_calls :: "('w, 'u) broker_deps \<Rightarrow> broker_request \<Rightarrow> 'u effect list" where
  "replay_calls deps req =
     (case request_id req of
        None \<Rightarrow> [] | Some rid \<Rightarrow> [Registered (dep_hash_token deps (session_token req), rid) True])"

text \<open>The contexts in which a request can be denied or delivered.\<close>

definition request_context ::
  "('w, 'u) broker_deps \<Rightarrow> broker_request \<Rightarrow> ('w, 'u) engine_state \<Rightarrow> deny_context \<Rightarrow> bool" where
  "request_context deps req st c \<longleftrightarrow>
     (\<exists>rid corr cap. bootstrap deps req (world st) = Some (rid, corr, cap)
        \<and> (c = initial_context req rid corr cap
           \<or> (\<exists>rcd actor dest. fst (dep_validate deps (session_token req) (world st)) = Ok rcd
                \<and> agent_principal (agent rcd) = Ok actor
                \<and> (dest = None \<or> (\<exists>u. dest = summarize_destination (dep_url deps) u))
                \<and> c = (initial_context req rid corr cap)
                     \<lparr>dc_actor := actor, dc_environment := Some (environment rcd), dc_destination := dest\<rparr>)))"

section \<open>Lemmas: stages\<close>

lemma world_steps_trans: "world_steps deps b c \<Longrightarrow> world_steps deps a b \<Longrightarrow> world_steps deps a c"
  by (induction rule: world_steps.induct) (auto intro: world_steps.intros)

lemma world_step:
  "dep_validate deps tok w = (v, w') \<Longrightarrow> world_steps deps w w'"
  "dep_consume deps tok w = (b, w') \<Longrightarrow> world_steps deps w w'"
  "dep_send deps ob w = (x, w') \<Longrightarrow> world_steps deps w w'"
  by (rule world_steps.validate_step [OF world_steps.stay] world_steps.consume_step [OF world_steps.stay]
      world_steps.send_step [OF world_steps.stay], assumption)+

lemma only_world_refl [simp]: "only_world deps s s"
  by (simp add: only_world_def world_steps.stay)

lemma only_world_trans: "only_world deps a b \<Longrightarrow> only_world deps b c \<Longrightarrow> only_world deps a c"
  by (auto simp: only_world_def intro: world_steps_trans)

lemma replay_step_only: "only_world deps a b \<Longrightarrow> replay_step deps a b"
  by (simp add: only_world_def replay_step_def)

lemma replay_step_trans:
  "replay_step deps a b \<Longrightarrow> only_world deps b c \<Longrightarrow> replay_step deps a c"
  "only_world deps a b \<Longrightarrow> replay_step deps b c \<Longrightarrow> replay_step deps a c"
  by (auto simp: only_world_def replay_step_def intro: world_steps_trans)

lemma quiet_simps [simp]:
  "quiet []" "quiet (x # xs) \<longleftrightarrow> \<not> is_sent x \<and> \<not> is_audited x \<and> quiet xs" "quiet (xs @ ys) \<longleftrightarrow> quiet xs \<and> quiet ys"
  by (simp_all add: quiet_def)

lemma on_goE:
  assumes "on_go x refuse k = (out, st')"
  obtains (go) a st where "x = (Go a, st)" "k a st = (out, st')"
  | (refused) reason policy st where "x = (Refuse reason policy, st)" "refuse reason policy st = (out, st')"
  | (panicked) "x = (Panic, st')" "out = Panicked"
  | (diverged) "x = (Diverge, st')" "out = Diverged"
  using assms by (cases x; cases "fst x") auto

lemma static_actor_parses: "parse_principal UNAUTHENTICATED_ACTOR = Ok UNAUTHENTICATED_ACTOR"
  by code_simp

lemma stage_session_effects:
  "stage_session deps req st = (r, st') \<Longrightarrow>
     \<exists>v. effects st' = effects st @ [Validated (session_token req) v] \<and> only_world deps st st'
       \<and> v = fst (dep_validate deps (session_token req) (world st))
       \<and> (\<forall>record actor. r = Go (record, actor) \<longrightarrow> v = Ok record \<and> agent_principal (agent record) = Ok actor)"
  by (auto simp: stage_session_def only_world_def split: prod.splits result.splits broker_error.splits
      dest: world_step)

lemma stage_session_stuck:
  "stage_session deps req st = (Panic, st') \<Longrightarrow>
     \<exists>rcd w e. dep_validate deps (session_token req) (world st) = (Ok rcd, w) \<and> agent_principal (agent rcd) = Err e"
  "stage_session deps req st \<noteq> (Diverge, st')"
  by (auto simp: stage_session_def split: prod.splits result.splits broker_error.splits)

lemma stage_replay_effects:
  assumes "stage_replay deps req rid st = (r, st')" "\<forall>given. request_id req = Some given \<longrightarrow> rid = given"
  shows "(\<exists>new. effects st' = effects st @ new \<and> quiet new) \<and> replay_step deps st st'
     \<and> (\<forall>u. r = Go u \<longrightarrow> effects st' = effects st @ replay_calls deps req)
     \<and> r \<noteq> Panic \<and> (r = Diverge \<longrightarrow> (\<exists>now key. register replay_limits now key (replay st) = None))"
  using assms by (auto simp: stage_replay_def replay_calls_def replay_step_def Let_def world_steps.stay
      split: if_splits option.splits)

lemma stage_authorize_effects:
  "stage_authorize deps req actor u env st = (r, st') \<Longrightarrow>
     \<exists>d. effects st' = effects st @ [Authorized (build_authorization_request deps req actor u (Some env)) d]
       \<and> d = dep_authorize deps (build_authorization_request deps req actor u (Some env)) \<and> only_world deps st st'
       \<and> (\<forall>p. r = Go p \<longrightarrow> d = Allow p)"
  by (auto simp: stage_authorize_def only_world_def Let_def world_steps.stay split: authorization_decision.splits)

lemma stage_budget_effects:
  "stage_budget deps req st = (r, st') \<Longrightarrow>
     \<exists>v. effects st' = effects st @ [Consumed (session_token req) v] \<and> only_world deps st st'
       \<and> (\<forall>x. r = Go x \<longrightarrow> v = Ok ())"
  by (auto simp: stage_budget_def only_world_def split: prod.splits result.splits broker_error.splits
      dest: world_step)

lemma stage_credential_effects:
  "stage_credential deps req env st = (r, st') \<Longrightarrow>
     \<exists>b. effects st' = effects st @ [Resolved (broker_request.credential req) env b] \<and> only_world deps st st'
       \<and> (\<forall>x. r = Go x \<longrightarrow> b \<and> resolve_credential deps (broker_request.credential req) env (world st) = Ok x)"
  by (auto simp: stage_credential_def only_world_def Let_def world_steps.stay split: result.splits)

lemma stage_transport_effects:
  "stage_transport deps ob st = (r, st') \<Longrightarrow>
     \<exists>v. effects st' = effects st @ [Sent ob v] \<and> only_world deps st st'
       \<and> (\<forall>x. r = Go x \<longrightarrow> v = Ok x \<and> length (ex_body x) \<le> MAX_RESPONSE_BODY_BYTES)"
  by (auto simp: stage_transport_def only_world_def split: prod.splits result.splits if_splits
      dest: world_step)

lemma stages_total:
  "stage_authorize deps req actor u env st \<noteq> (Panic, st')" "stage_authorize deps req actor u env st \<noteq> (Diverge, st')"
  "stage_delegation deps req record u \<noteq> Panic" "stage_delegation deps req record u \<noteq> Diverge"
  "stage_budget deps req st \<noteq> (Panic, st')" "stage_budget deps req st \<noteq> (Diverge, st')"
  "stage_credential deps req env st \<noteq> (Panic, st')" "stage_credential deps req env st \<noteq> (Diverge, st')"
  "stage_inject deps req u template meta sec \<noteq> Panic" "stage_inject deps req u template meta sec \<noteq> Diverge"
  "stage_transport deps ob st \<noteq> (Panic, st')" "stage_transport deps ob st \<noteq> (Diverge, st')"
  "stage_canonical deps req \<noteq> Panic" "stage_canonical deps req \<noteq> Diverge"
  "stage_egress deps u \<noteq> Panic" "stage_egress deps u \<noteq> Diverge"
  "stage_protocol req \<noteq> Panic" "stage_protocol req \<noteq> Diverge"
  by (auto simp: stage_authorize_def stage_delegation_def stage_budget_def stage_credential_def stage_inject_def
      stage_transport_def stage_canonical_def stage_egress_def stage_protocol_def Let_def
      split: authorization_decision.splits option.splits prod.splits result.splits broker_error.splits if_splits)

section \<open>Lemmas: the trace of a request\<close>

lemma stage_delegation_Go:
  "stage_delegation deps req record u = Go x \<Longrightarrow> constraints record = Some c \<Longrightarrow>
   check_request c (broker_request.credential req) (environment record) (canonical_host (dep_url deps) u)
     (method_str (method req)) (url_path (dep_url deps) u) = Ok ()"
  by (auto simp: stage_delegation_def is_err_def is_ok_iff split: if_splits)

lemma stage_inject_Go:
  "stage_inject deps req u template meta sec = Go ob \<Longrightarrow>
   apply_for (dep_url deps) (dep_base64 deps) template
     \<lparr>canonical_url = u, out_method = method req, out_headers = fst (filter_request_headers (req_headers req)),
      out_body = body req\<rparr> sec meta = Ok ob"
  by (auto simp: stage_inject_def Let_def split: result.splits broker_error.splits)

lemma execute_funded_cases:
  assumes "execute_funded deps req c record u policy st = (out, st')"
  obtains (refused) b reason pol s where "only_world deps st s"
      "effects s = effects st @ [Resolved (broker_request.credential req) (environment record) b]"
      "deny deps c reason pol s = (out, st')"
  | (sent) ob r s where "only_world deps st s" "built deps req record u ob"
      "effects s = effects st @ [Resolved (broker_request.credential req) (environment record) True, Sent ob r]"
      "finished deps c policy r s (out, st')"
  using assms unfolding execute_funded_def
proof (cases rule: on_goE)
  case (refused reason pol s)
  then show thesis using stage_credential_effects [OF refused(1)] that(1) by blast
next
  case cred: (go res s4)
  obtain template meta sec where res: "res = (template, meta, sec)" by (metis surj_pair)
  from stage_credential_effects [OF cred(1)] res
  have e4: "effects s4 = effects st @ [Resolved (broker_request.credential req) (environment record) True]"
      "only_world deps st s4"
    and r4: "resolve_credential deps (broker_request.credential req) (environment record) (world st)
      = Ok (template, meta, sec)" by auto
  from cred(2) [unfolded res prod.case] show thesis
  proof (cases rule: on_goE)
    case (refused reason pol s)
    then show thesis using that(1) [of s True] e4 by simp
  next
    case inj: (go ob s5)
    have s5: "s5 = s4" and "stage_inject deps req u template meta sec = Go ob" using inj(1) by simp_all
    then have ob: "built deps req record u ob" using r4 stage_inject_Go [of deps req u template meta sec ob] unfolding built_def by blast
    from inj(2) show thesis
    proof (cases rule: on_goE)
      case (refused reason pol s)
      obtain r where "effects s = effects s5 @ [Sent ob r]" "only_world deps s5 s"
        using stage_transport_effects [OF refused(1)] by blast
      then show thesis using that(2) [of s ob r] ob e4 s5 refused(2) by (auto simp: finished_def intro: only_world_trans)
    next
      case send: (go executed s)
      have "effects s = effects s5 @ [Sent ob (Ok executed)]" "only_world deps s5 s"
        "length (ex_body executed) \<le> MAX_RESPONSE_BODY_BYTES"
        using stage_transport_effects [OF send(1)] by auto
      then show thesis using that(2) [of s ob "Ok executed"] ob e4 s5 send(2)
        by (auto simp: finished_def intro: only_world_trans)
    qed (simp_all add: stages_total)
  qed (simp_all add: stages_total)
qed (simp_all add: stages_total)

text \<open>A request past the egress gate is refused quietly, or sends exactly one outbound request.\<close>

lemma execute_authorized_cases:
  assumes "execute_authorized deps req c record u st = (out, st')"
  obtains (refused) new reason policy s where "effects s = effects st @ new" "quiet new" "only_world deps st s"
      "deny deps c reason policy s = (out, st')"
  | (sent) authz policy ob r s where
      "authz = build_authorization_request deps req (dc_actor c) u (Some (environment record))"
      "dep_authorize deps authz = Allow policy" "only_world deps st s"
      "effects s = effects st @ [Authorized authz (Allow policy), Consumed (session_token req) (Ok ()),
         Resolved (broker_request.credential req) (environment record) True, Sent ob r]"
      "within_delegation deps req record u" "built deps req record u ob" "finished deps c policy r s (out, st')"
proof -
  let ?authz = "build_authorization_request deps req (dc_actor c) u (Some (environment record))"
  show thesis
    using assms unfolding execute_authorized_def
  proof (cases rule: on_goE)
    case (refused reason policy s)
    then show thesis using stage_authorize_effects [OF refused(1)] that(1) by fastforce
  next
    case (go policy s1)
    from stage_authorize_effects [OF go(1)]
    have e1: "effects s1 = effects st @ [Authorized ?authz (Allow policy)]" "only_world deps st s1"
      "dep_authorize deps ?authz = Allow policy" by auto
    from go(2) show thesis
    proof (cases rule: on_goE)
      case (refused reason pol s)
      then show thesis using that(1) [of s "[Authorized ?authz (Allow policy)]" reason pol] e1 by simp
    next
      case deleg: (go x s2)
      then have d: "within_delegation deps req record u" and s2: "s2 = s1"
        using stage_delegation_Go by (auto simp: within_delegation_def)
      from deleg(2) show thesis
      proof (cases rule: on_goE)
        case (refused reason pol s)
        obtain v where "effects s = effects s2 @ [Consumed (session_token req) v]" "only_world deps s2 s"
          using stage_budget_effects [OF refused(1)] by blast
        then show thesis
          using e1 s2 refused(2) only_world_trans [OF e1(2)]
            that(1) [of s "[Authorized ?authz (Allow policy), Consumed (session_token req) v]" reason pol] by simp
      next
        case budget: (go y s3)
        from stage_budget_effects [OF budget(1)] e1 s2
        have e3: "effects s3 = effects st @ [Authorized ?authz (Allow policy), Consumed (session_token req) (Ok ())]"
          "only_world deps st s3" by (auto intro: only_world_trans)
        from budget(2) show thesis
        proof (cases rule: execute_funded_cases)
          case (refused b reason pol s)
          then show thesis
            using e3 only_world_trans [OF e3(2)] that(1) [of s "[Authorized ?authz (Allow policy),
              Consumed (session_token req) (Ok ()), Resolved (broker_request.credential req) (environment record) b]" reason pol]
            by simp
        next
          case (sent ob r s)
          then show thesis using that(2) [OF HOL.refl e1(3) _ _ d, of s ob r] e3
            only_world_trans [OF e3(2)] by simp
        qed
      qed (simp_all add: stages_total)
    qed (simp_all add: stages_total)
  qed (simp_all add: stages_total)
qed

lemma bootstrap_id: "bootstrap deps req w = Some (rid, corr, cap) \<Longrightarrow> request_id req = Some given \<Longrightarrow> rid = given"
  by (auto simp: bootstrap_def Let_def split: result.splits)

text \<open>What an authenticated request does: diverge quietly, be refused quietly, or send once.\<close>

lemma execute_authenticated_cases:
  assumes "execute_authenticated deps req c rcd st = (out, st')"
    and rid: "\<forall>given. request_id req = Some given \<longrightarrow> dc_request_id c = given"
  obtains (stuck) new where "effects st' = effects st @ new" "quiet new" "out = Diverged" "replay_step deps st st'"
      "\<exists>now key. register replay_limits now key (replay st) = None"
  | (refused) new c' reason policy s where "effects s = effects st @ new" "quiet new" "replay_step deps st s"
      "deny deps c' reason policy s = (out, st')"
      "c' = c \<or> (\<exists>u. c' = c\<lparr>dc_destination := summarize_destination (dep_url deps) u\<rparr>)"
  | (sent) u authz policy ob r s c' where
      "canonical_parse (dep_url deps) (url req) = Ok u"
      "is_ok (check_host (dep_guard deps) (canonical_host (dep_url deps) u))"
      "authz = build_authorization_request deps req (dc_actor c) u (Some (environment rcd))"
      "within_delegation deps req rcd u" "built deps req rcd u ob"
      "effects s = effects st @ replay_calls deps req
         @ [Authorized authz (Allow policy), Consumed (session_token req) (Ok ()),
            Resolved (broker_request.credential req) (environment rcd) True, Sent ob r]"
      "c' = c\<lparr>dc_destination := summarize_destination (dep_url deps) u\<rparr>"
      "finished deps c' policy r s (out, st')" "replay_step deps st s" "dep_authorize deps authz = Allow policy"
  using assms(1) unfolding execute_authenticated_def Let_def
proof (cases rule: on_goE)
  case (refused reason policy s)
  then show thesis using stage_replay_effects [OF refused(1) rid] that(2) by blast
next
  case panicked
  then show thesis using stage_replay_effects [OF panicked(1) rid] by blast
next
  case diverged
  then show thesis using stage_replay_effects [OF diverged(1) rid] that(1) by blast
next
  case rep: (go y s3)
  have e3: "effects s3 = effects st @ replay_calls deps req" and st3: "replay_step deps st s3"
    using stage_replay_effects [OF rep(1) rid] by simp_all
  have q: "quiet (replay_calls deps req)" by (simp add: replay_calls_def split: option.splits)
  from rep(2) show thesis
  proof (cases rule: on_goE)
    case (refused reason policy s)
    then show thesis using that(2) [of s] e3 q st3 by fastforce
  next
    case can: (go u s4)
    then have u: "canonical_parse (dep_url deps) (url req) = Ok u" and s4: "s4 = s3"
      by (auto simp: stage_canonical_def split: result.splits)
    from can(2) show thesis
    proof (cases rule: on_goE)
      case (refused reason policy s)
      then show thesis using that(2) [of s] e3 q s4 st3 by fastforce
    next
      case eg: (go z s5)
      then have host: "is_ok (check_host (dep_guard deps) (canonical_host (dep_url deps) u))" and s5: "s5 = s3"
        using s4 by (auto simp: stage_egress_def is_err_def split: if_splits)
      from eg(2) show thesis
      proof (cases rule: execute_authorized_cases)
        case (refused new reason policy s)
        then show thesis using that(2) [of s "replay_calls deps req @ new"] e3 q s5 replay_step_trans(1) [OF st3] by auto
      next
        case (sent authz policy ob r s)
        then show thesis using that(3) [OF u host _ sent(5,6) _ HOL.refl sent(7)] e3 s5 sent(2,3,4) replay_step_trans(1) [OF st3]
          by simp
      qed
    qed (simp_all add: stages_total)
  qed (simp_all add: stages_total)
qed

text \<open>
  The whole request: a panic or a divergence before anything is sent or audited, a quiet refusal, or the
  full sequence of calls.
\<close>

lemma execute_pipeline_cases:
  assumes "execute_pipeline deps req st = (out, st')"
  obtains (stuck) new where "effects st' = effects st @ new" "quiet new" "out = Panicked \<or> out = Diverged"
      "replay_step deps st st'"
      "bootstrap deps req (world st) = None
       \<or> (\<exists>rcd w e. dep_validate deps (session_token req) (world st) = (Ok rcd, w) \<and> agent_principal (agent rcd) = Err e)
       \<or> (\<exists>now key. register replay_limits now key (replay st) = None)"
  | (refused) new c reason policy s where "effects s = effects st @ new" "quiet new" "replay_step deps st s"
      "deny deps c reason policy s = (out, st')" "request_context deps req st c"
  | (sent) rcd actor u authz policy ob r s c where
      "protocol req = PROTOCOL_VERSION" "agent_principal (agent rcd) = Ok actor"
      "canonical_parse (dep_url deps) (url req) = Ok u"
      "is_ok (check_host (dep_guard deps) (canonical_host (dep_url deps) u))"
      "authz = build_authorization_request deps req actor u (Some (environment rcd))"
      "within_delegation deps req rcd u" "built deps req rcd u ob"
      "effects s = effects st @ [Validated (session_token req) (Ok rcd)] @ replay_calls deps req
         @ [Authorized authz (Allow policy), Consumed (session_token req) (Ok ()),
            Resolved (broker_request.credential req) (environment rcd) True, Sent ob r]"
      "finished deps c policy r s (out, st')" "replay_step deps st s"
      "fst (dep_validate deps (session_token req) (world st)) = Ok rcd" "dep_authorize deps authz = Allow policy"
      "request_context deps req st c"
proof (cases "bootstrap deps req (world st)")
  case None
  then show thesis using assms that(1) [of "[]"] by (simp add: execute_pipeline_def replay_step_only)
next
  case (Some boot)
  obtain rid corr cap where boot: "boot = (rid, corr, cap)" by (metis surj_pair)
  let ?c0 = "initial_context req rid corr cap"
  have ctx0: "request_context deps req st ?c0" using Some boot by (auto simp: request_context_def)
  from assms show thesis
    unfolding execute_pipeline_def Some boot option.case prod.case Let_def
  proof (cases rule: on_goE)
    case (refused reason policy s)
    then show thesis using that(2) [of s "[]" ?c0] ctx0 by (simp add: replay_step_only)
  next
    case (go x s1)
    then have s1: "s1 = st" and proto: "protocol req = PROTOCOL_VERSION"
      by (auto simp: stage_protocol_def split: if_splits)
    from go(2) show thesis
    proof (cases rule: on_goE)
      case (refused reason policy s)
      then show thesis using stage_session_effects [OF refused(1)] s1 ctx0 that(2) [of s _ ?c0] by (fastforce simp: replay_step_only)
    next
      case panicked
      obtain rcd w e where bad: "dep_validate deps (session_token req) (world st) = (Ok rcd, w)"
          "agent_principal (agent rcd) = Err e"
        using stage_session_stuck(1) [OF panicked(1)] s1 by blast
      obtain v where "effects st' = effects st @ [Validated (session_token req) v]" "only_world deps st st'"
        using stage_session_effects [OF panicked(1)] s1 by blast
      then show thesis
        using that(1) [of "[Validated (session_token req) v]"] bad panicked(2) by (auto simp: replay_step_only)
    next
      case diverged
      then show thesis using stage_session_stuck(2) by blast
    next
      case sess: (go ra s2)
      obtain rcd actor where ra: "ra = (rcd, actor)" by (metis surj_pair)
      let ?c1 = "?c0\<lparr>dc_actor := actor, dc_environment := Some (environment rcd)\<rparr>"
      from stage_session_effects [OF sess(1)] s1 ra
      have e2: "effects s2 = effects st @ [Validated (session_token req) (Ok rcd)]"
        and actor: "agent_principal (agent rcd) = Ok actor" and rep: "only_world deps st s2"
        and v: "fst (dep_validate deps (session_token req) (world st)) = Ok rcd" by auto
      have rid: "\<forall>given. request_id req = Some given \<longrightarrow> dc_request_id ?c1 = given"
        using bootstrap_id [OF Some [unfolded boot]] by (simp add: initial_context_def)
      have noc: "?c1 = ?c1\<lparr>dc_destination := None\<rparr>" by (simp add: initial_context_def)
      have ctx: "request_context deps req st c'"
        if "c' = ?c1 \<or> (\<exists>u. c' = ?c1\<lparr>dc_destination := summarize_destination (dep_url deps) u\<rparr>)" for c'
        using that Some boot v actor noc unfolding request_context_def by auto
      from sess(2) [unfolded ra prod.case] rid show thesis
      proof (cases rule: execute_authenticated_cases)
        case (stuck new)
        then show thesis using e2 that(1) [of "Validated (session_token req) (Ok rcd) # new"] replay_step_trans(2) [OF rep]
          rep by (auto simp: only_world_def)
      next
        case (refused new c' reason policy s)
        then show thesis
          using e2 that(2) [of s "Validated (session_token req) (Ok rcd) # new" c' reason policy] replay_step_trans(2) [OF rep] ctx
          by simp
      next
        case (sent u authz policy ob r s c')
        have "request_context deps req st c'" using ctx sent(7) by blast
        then show thesis using that(3) [OF proto actor sent(1,2) _ sent(4,5) _ sent(8)] e2 sent v replay_step_trans(2) [OF rep]
          by simp
      qed
    qed
  qed (simp_all add: stages_total)
qed

end
