(* ===== verification/Broker_Properties.thy ===== *)
theory Broker_Properties
  imports Broker_Engine
begin

text \<open>
  Properties of the request pipeline: what precedes an outbound request, what is audited, what the caller
  gets back, and that the engine always answers.
\<close>

section \<open>A sample engine\<close>

definition sample_record :: agent_session_record where
  "sample_record =
     \<lparr>session_id = ''sess_a'', agent = ''agent_ci'', environment = ''env_dev'', token_hash = ''h'', revoked = False,
      expires_at_secs = None, parent_session = None, constraints = None\<rparr>"

definition sample_deps :: "(unit, string) broker_deps" where
  "sample_deps =
     \<lparr>dep_authorize = (\<lambda>_. Allow ''github-policy''),
      dep_validate = (\<lambda>tok w. (if tok = ''good'' then Ok sample_record else Err InvalidSession, w)),
      dep_consume = (\<lambda>_ w. (Ok (), w)), dep_template = (\<lambda>_ _ _. Ok Bearer),
      dep_metadata = (\<lambda>_ _. Ok \<lparr>username = None, header_name = None, query_param_name = None, static_prefix = None\<rparr>),
      dep_resolve = (\<lambda>_ _ _. Ok ''s3cret''),
      dep_send = (\<lambda>_ w. (Ok \<lparr>ex_status = 200, ex_headers = [(''Set-Cookie'', ''sid=1'')], ex_body = ''ok''\<rparr>, w)),
      dep_append = (\<lambda>_ w. (Err (AuditIo ''disk full''), w)), dep_project = ''proj_core'',
      dep_guard = \<lparr>allow_private = False\<rparr>, dep_now = (\<lambda>_. 7), dep_hash_token = (\<lambda>t. t),
      dep_request_hex = (\<lambda>_. Err (Entropy ''none'')), dep_correlation_hex = (\<lambda>_. Err (AuditEntropy ''none'')),
      dep_url = sample_url_api, dep_base64 = (\<lambda>s. s), dep_to_vec = (\<lambda>_. None)\<rparr>"

definition sample_request :: broker_request where
  "sample_request =
     \<lparr>protocol = 1, session_token = ''good'', credential = ''github-app'', method = GET,
      url = ''https://api.example.com/v1'', req_headers = [(''Authorization'', ''Bearer stolen''), (''accept'', ''*'')],
      body = NoBody, capability_hint = None, request_id = None\<rparr>"

definition sample_state :: "(unit, string) engine_state" where
  "sample_state = \<lparr>replay = empty_replay, world = (), effects = []\<rparr>"

section \<open>Lemmas\<close>

lemma call_append_result:
  "call_append deps e s = (b, st') \<Longrightarrow> effects st' = effects s @ [Audited e b] \<and> replay st' = replay s"
  by (auto simp: call_append_def split: prod.splits)

lemma deny_result:
  assumes "deny deps c reason policy s = (out, st')"
  shows "\<exists>b. effects st' = effects s @ [Audited (deny_event (dep_project deps) c reason policy) b] \<and> replay st' = replay s
       \<and> out = Returned (if b then denied (dc_request_id c) reason policy else audit_write_failed_response (dc_request_id c))"
proof -
  obtain b s' where ca: "call_append deps (deny_event (dep_project deps) c reason policy) s = (b, s')" by (metis surj_pair)
  then show ?thesis using assms call_append_result [OF ca] by (intro exI [of _ b]) (cases b; simp add: deny_def)
qed

lemma deny_response:
  assumes "deny deps c reason policy s = (Returned resp, st')"
  shows "\<exists>reason pol. resp_decision resp = DenyDecision reason pol \<and> resp_headers resp = [] \<and> resp_body resp = []
     \<and> (status resp = 403 \<or> status resp = 500)"
proof -
  obtain b where "resp = (if b then denied (dc_request_id c) reason policy else audit_write_failed_response (dc_request_id c))"
    using deny_result [OF assms] by auto
  then show ?thesis by (cases b) (simp_all add: denied_def audit_write_failed_response_def)
qed

lemma deliver_result:
  assumes "deliver deps c executed policy s = (out, st')"
  shows "\<exists>b. effects st' = effects s @ [Audited (allow_event (dep_project deps) c executed policy) b] \<and> replay st' = replay s
       \<and> out = Returned (if b then sanitized_response (dc_request_id c) executed
                         else audit_write_failed_response (dc_request_id c))"
proof -
  obtain b s' where ca: "call_append deps (allow_event (dep_project deps) c executed policy) s = (b, s')" by (metis surj_pair)
  then show ?thesis using assms call_append_result [OF ca] by (intro exI [of _ b]) (cases b; simp add: deliver_def)
qed

lemma event_decisions [simp]:
  "ev_decision (deny_event p c reason policy) = AuDeny (bounded_reason reason)"
  "ev_decision (allow_event p c executed name) = AuAllow"
  by (simp_all add: deny_event_def allow_event_def Let_def)

lemma finished_result:
  assumes "finished deps c policy r s (out, st')"
  shows "\<exists>ev b. effects st' = effects s @ [Audited ev b] \<and> replay st' = replay s"
  using assms deny_result deliver_result unfolding finished_def by metis

lemma quiet_not_sent: "quiet xs \<Longrightarrow> Sent ob r \<notin> set xs" "quiet xs \<Longrightarrow> Audited e b \<notin> set xs"
  by (auto simp: quiet_def list_all_iff)

lemma quiet_replay_calls: "quiet (replay_calls deps req)"
  by (simp add: replay_calls_def split: option.splits)

definition sample_outbound_request :: "string outbound_request" where
  "sample_outbound_request =
     \<lparr>canonical_url = ''https://api.example.com/v1'', out_method = GET,
      out_headers = [(''accept'', ''*''), (''authorization'', ''Bearer s3cret'')], out_body = NoBody\<rparr>"

lemma sample_stages:
  "bootstrap sample_deps sample_request () = Some (deterministic_fallback, deterministic_fallback, None)"
  "stage_protocol sample_request = Go ()"
  "dep_validate sample_deps ''good'' () = (Ok sample_record, ())"
  "agent_principal (agent sample_record) = Ok ''agent:ci''"
  "stage_canonical sample_deps sample_request = Go ''https://api.example.com/v1''"
  "stage_egress sample_deps ''https://api.example.com/v1'' = Go ()"
  "stage_delegation sample_deps sample_request sample_record ''https://api.example.com/v1'' = Go ()"
  "resolve_credential sample_deps ''github-app'' ''env_dev'' () =
     Ok (Bearer, \<lparr>username = None, header_name = None, query_param_name = None, static_prefix = None\<rparr>, ''s3cret'')"
  "stage_inject sample_deps sample_request ''https://api.example.com/v1'' Bearer
     \<lparr>username = None, header_name = None, query_param_name = None, static_prefix = None\<rparr> ''s3cret'' = Go sample_outbound_request"
  by code_simp+

lemma sample_fields:
  "session_token sample_request = ''good''" "request_id sample_request = None" "environment sample_record = ''env_dev''"
  "broker_request.credential sample_request = ''github-app''" "world sample_state = ()" "effects sample_state = []"
  "replay sample_state = empty_replay"
  by (simp_all add: sample_request_def sample_record_def sample_state_def)

lemma sample_run:
  "\<exists>st' pre v ev b. execute_pipeline sample_deps sample_request sample_state =
       (Returned (audit_write_failed_response deterministic_fallback), st')
     \<and> effects st' = pre @ [Sent sample_outbound_request v, Audited ev b]"
proof -
  have send: "dep_send sample_deps ob () =
      (Ok \<lparr>ex_status = 200, ex_headers = [(''Set-Cookie'', ''sid=1'')], ex_body = ''ok''\<rparr>, ())" for ob
    by (simp add: sample_deps_def)
  have "dep_authorize sample_deps a = Allow ''github-policy''" "dep_consume sample_deps t () = (Ok (), ())" for a t
    by (simp_all add: sample_deps_def)
  moreover have "dep_append sample_deps e () = (Err (AuditIo ''disk full''), ())" for e by (simp add: sample_deps_def)
  ultimately show ?thesis
    by (simp add: execute_pipeline_def execute_authenticated_def execute_authorized_def execute_funded_def
        sample_stages sample_fields stage_session_def stage_replay_def stage_authorize_def stage_budget_def
        stage_credential_def stage_transport_def send Let_def MAX_RESPONSE_BODY_BYTES_def deliver_def call_append_def
        initial_context_def) (rule exI [of _ False], simp)
qed

lemma static_ids:
  "request_id_well_formed rid \<Longrightarrow> parse_correlation_id rid = Ok rid"
proof -
  assume "request_id_well_formed rid"
  then obtain content where c: "rid = ''req_'' @ content" "length content = 32" "is_lowercase_hex content"
    by (auto simp: request_id_well_formed_iff REQUEST_ID_PREFIX_def)
  have chars: "list_all (\<lambda>c. is_ascii_lowercase c \<or> is_ascii_digit c \<or> c = CHR ''-'' \<or> c = CHR ''_'') rid"
    using c(3) by (auto simp: c(1) is_lowercase_hex_def list_all_iff is_ascii_lowercase_def)
  then have "is_ascii rid"
    by (auto simp: is_ascii_def list_all_iff is_ascii_byte_def is_ascii_lowercase_def is_ascii_digit_def)
  then have "char_count rid = 36" by (simp add: char_count_ascii c(1,2))
  with chars c(1) show ?thesis by (simp add: parse_correlation_id_def CORRELATION_ID_MAX_LEN_def Let_def)
qed

lemma bootstrap_returns:
  assumes "\<forall>given. request_id req = Some given \<longrightarrow> request_id_well_formed given"
  shows "bootstrap deps req w \<noteq> None"
proof -
  have "request_id_well_formed (case request_id req of Some given \<Rightarrow> given
      | None \<Rightarrow> (case generate_request_id (dep_request_hex deps w) of Ok r \<Rightarrow> r | Err _ \<Rightarrow> deterministic_fallback))"
    using assms generate_request_id_well_formed deterministic_fallback_well_formed
    by (auto split: option.splits result.splits)
  then show ?thesis by (auto simp: bootstrap_def Let_def static_ids split: result.splits)
qed

lemma agent_principal_returns:
  assumes "parse_prefixed_id ''agent_'' ag = Ok ag"
  shows "\<exists>p. agent_principal ag = Ok p"
proof -
  obtain content where c: "ag = ''agent_'' @ content" "is_valid_id_content content" "length content \<le> 64"
    using assms by (auto simp: parse_prefixed_id_Ok_iff MAX_ID_CONTENT_LEN_def)
  have ascii: "is_ascii content" using c(2) is_id_char_ascii by (simp add: is_valid_id_content_def)
  have "\<not> any_char is_control_cp content"
    using c(2) ascii
    by (auto simp: any_char_def uchars_ascii list_ex_iff is_valid_id_content_def list_all_iff is_id_char_def
        is_control_cp_def is_ascii_lowercase_def is_ascii_digit_def)
  moreover note c(3)
  moreover have "content \<noteq> []" using c(2) by (simp add: is_valid_id_content_def)
  ultimately show ?thesis
    by (simp add: agent_principal_def c(1) parse_principal_def PRINCIPAL_MAX_LEN_def PRINCIPAL_AGENT_PREFIX_def)
qed

lemma filtered_headers_clean:
  "(n, v) \<in> set (fst (filter_request_headers hs)) \<Longrightarrow> h \<in> set SENSITIVE_REQUEST_HEADERS \<Longrightarrow> \<not> eq_ignore_ascii_case n h"
  using sensitive_lowercase
  by (auto simp: filter_request_headers_eq Let_def eq_ignore_ascii_case_def)

lemma query_template_headers:
  "apply_for api base64 QueryParameter req sec meta = Ok req' \<Longrightarrow> out_headers req' = out_headers req"
  by (auto simp: apply_for_def apply_query_parameter_def)

lemma set_header_mem:
  "set_header req name x = Ok req' \<Longrightarrow> (n, v) \<in> set (out_headers req') \<Longrightarrow>
   (n, v) \<in> set (out_headers req) \<or> eq_ignore_ascii_case n name \<and> v = x"
  by (auto simp: set_header_def replace_header_def Let_def)

lemma built_headers:
  assumes "built deps req rcd u ob" "(n, v) \<in> set (out_headers ob)" "h \<in> set SENSITIVE_REQUEST_HEADERS" "eq_ignore_ascii_case n h"
  shows "\<exists>template meta sec w name. resolve_credential deps (broker_request.credential req) (environment rcd) w = Ok (template, meta, sec)
     \<and> injected_header (dep_base64 deps) template sec meta = Some (name, v) \<and> eq_ignore_ascii_case n name"
proof -
  let ?base = "\<lparr>canonical_url = u, out_method = method req, out_headers = fst (filter_request_headers (req_headers req)),
                out_body = body req\<rparr>"
  obtain template meta sec w where res: "resolve_credential deps (broker_request.credential req) (environment rcd) w = Ok (template, meta, sec)"
    and app: "apply_for (dep_url deps) (dep_base64 deps) template ?base sec meta = Ok ob"
    using assms(1) by (auto simp: built_def)
  have clean: "(n, v) \<notin> set (fst (filter_request_headers (req_headers req)))"
    using filtered_headers_clean [of n v "req_headers req" h] assms(3,4) by blast
  have "template \<noteq> QueryParameter" using app clean assms(2) by (auto dest: query_template_headers)
  with app obtain name x where "injected_header (dep_base64 deps) template sec meta = Some (name, x)"
      "set_header ?base name x = Ok ob"
    using apply_for_header by blast
  then show ?thesis using res clean assms(2) set_header_mem [of ?base name x ob n v] by auto
qed

section \<open>Properties\<close>

text \<open>
  C3. Nothing leaves the broker before every gate has passed.  If a request makes an outbound call, its
  calls are exactly, in this order: the session was validated, a caller-supplied request id was fresh in
  the replay cache, policy allowed the canonical request of the session's agent, the budget was
  consumed, the credential was resolved, the outbound request was sent once, and an audit event followed.
  The protocol version matched, the canonical destination passed the egress guard, the session's
  delegation constraints admit the request, and the outbound request is the filtered request with the
  credential injected.
\<close>

theorem transport_guarded:
  assumes "execute_pipeline deps req st = (out, st')" "effects st' = effects st @ new" "Sent ob r \<in> set new"
  shows "\<exists>rcd actor u policy ev b.
     new = [Validated (session_token req) (Ok rcd)] @ replay_calls deps req
       @ [Authorized (build_authorization_request deps req actor u (Some (environment rcd))) (Allow policy),
          Consumed (session_token req) (Ok ()),
          Resolved (broker_request.credential req) (environment rcd) True, Sent ob r, Audited ev b]
     \<and> protocol req = PROTOCOL_VERSION \<and> agent_principal (agent rcd) = Ok actor
     \<and> canonical_parse (dep_url deps) (url req) = Ok u
     \<and> is_ok (check_host (dep_guard deps) (canonical_host (dep_url deps) u))
     \<and> within_delegation deps req rcd u \<and> built deps req rcd u ob"
  using assms(1)
proof (cases rule: execute_pipeline_cases)
  case (stuck new')
  then show ?thesis using assms(2,3) quiet_not_sent(1) [OF stuck(2)] by simp
next
  case (refused new' c reason policy s)
  obtain ev b where "effects st' = effects s @ [Audited ev b]" using deny_result [OF refused(4)] by blast
  then show ?thesis using refused(1) assms(2,3) quiet_not_sent(1) [OF refused(2)] by auto
next
  case (sent rcd actor u authz policy ob' r' s c)
  obtain ev b where ev: "effects st' = effects s @ [Audited ev b]" using finished_result [OF sent(9)] by blast
  then have new: "new = [Validated (session_token req) (Ok rcd)] @ replay_calls deps req
       @ [Authorized authz (Allow policy), Consumed (session_token req) (Ok ()),
          Resolved (broker_request.credential req) (environment rcd) True, Sent ob' r', Audited ev b]"
    using sent(8) assms(2) by simp
  then have "ob' = ob \<and> r' = r" using assms(3) quiet_not_sent(1) [OF quiet_replay_calls] by auto
  with new sent show ?thesis by blast
qed

theorem transport_guarded_witness:
  "\<exists>rcd u r ev b. built sample_deps sample_request rcd u sample_outbound_request
     \<and> effects (snd (execute_pipeline sample_deps sample_request sample_state)) \<noteq> []
     \<and> is_ok (check_host (dep_guard sample_deps) (canonical_host (dep_url sample_deps) u))
     \<and> last (effects (snd (execute_pipeline sample_deps sample_request sample_state))) = Audited ev b"
proof -
  obtain st' pre v ev b where run: "execute_pipeline sample_deps sample_request sample_state =
      (Returned (audit_write_failed_response deterministic_fallback), st')"
    "effects st' = pre @ [Sent sample_outbound_request v, Audited ev b]"
    using sample_run by blast
  have "effects st' = effects sample_state @ effects st'" by (simp add: sample_fields)
  from transport_guarded [OF run(1) this, of sample_outbound_request v] run show ?thesis by fastforce
qed

text \<open>
  C6. Every answered request is audited exactly once, before the answer.  The last call of a request that
  returns is the append of its only audit event.  When that append fails, the answer is the bare 500
  denial, whatever was decided; when it succeeds, the event's decision is the answer's decision.
\<close>

theorem audited_exactly_once:
  assumes "execute_pipeline deps req st = (Returned resp, st')"
  shows "\<exists>pre ev b. effects st' = effects st @ pre @ [Audited ev b] \<and> (\<forall>e ok. Audited e ok \<notin> set pre)
     \<and> (if b then (case resp_decision resp of
                      AllowDecision \<Rightarrow> ev_decision ev = AuAllow
                    | DenyDecision reason _ \<Rightarrow> ev_decision ev = AuDeny (bounded_reason reason))
        else resp = audit_write_failed_response (resp_request_id resp))"
  using assms
proof (cases rule: execute_pipeline_cases)
  case (stuck new)
  then show ?thesis by simp
next
  case (refused new c reason policy s)
  obtain b where "effects st' = effects st @ new @ [Audited (deny_event (dep_project deps) c reason policy) b]"
      "resp = (if b then denied (dc_request_id c) reason policy else audit_write_failed_response (dc_request_id c))"
    using deny_result [OF refused(4)] refused(1) by auto
  then show ?thesis
    using quiet_not_sent(2) [OF refused(2)]
    by (intro exI [of _ new] exI [of _ "deny_event (dep_project deps) c reason policy"] exI [of _ b])
       (simp add: denied_def audit_write_failed_response_def)
next
  case (sent rcd actor u authz policy ob r s c)
  define pre where "pre = [Validated (session_token req) (Ok rcd)] @ replay_calls deps req
         @ [Authorized authz (Allow policy), Consumed (session_token req) (Ok ()),
            Resolved (broker_request.credential req) (environment rcd) True, Sent ob r]"
  have pre: "effects s = effects st @ pre" "\<forall>e ok. Audited e ok \<notin> set pre"
    using sent(8) quiet_not_sent(2) [OF quiet_replay_calls] by (auto simp: pre_def)
  from sent(9) consider reason pol where "deny deps c reason pol s = (Returned resp, st')"
    | executed where "deliver deps c executed policy s = (Returned resp, st')"
    unfolding finished_def by blast
  then show ?thesis
  proof cases
    case (1 reason pol)
    from deny_result [OF 1] obtain b where b: "effects st' = effects s @ [Audited (deny_event (dep_project deps) c reason pol) b]"
      "resp = (if b then denied (dc_request_id c) reason pol else audit_write_failed_response (dc_request_id c))" by auto
    show ?thesis
      by (rule exI [of _ pre], rule exI [of _ "deny_event (dep_project deps) c reason pol"], rule exI [of _ b])
         (use b pre in \<open>simp add: denied_def audit_write_failed_response_def\<close>)
  next
    case (2 executed)
    from deliver_result [OF 2] obtain b where
      b: "effects st' = effects s @ [Audited (allow_event (dep_project deps) c executed policy) b]"
      "resp = (if b then sanitized_response (dc_request_id c) executed else audit_write_failed_response (dc_request_id c))" by auto
    show ?thesis
      by (rule exI [of _ pre], rule exI [of _ "allow_event (dep_project deps) c executed policy"], rule exI [of _ b])
         (use b pre in \<open>simp add: sanitized_response_def audit_write_failed_response_def\<close>)
  qed
qed

theorem audited_exactly_once_witness:
  "\<exists>pre ev b. effects (snd (execute_pipeline sample_deps sample_request sample_state)) = pre @ [Audited ev b]
     \<and> (\<forall>e ok. Audited e ok \<notin> set pre)"
proof -
  obtain st' where run: "execute_pipeline sample_deps sample_request sample_state =
      (Returned (audit_write_failed_response deterministic_fallback), st')"
    using sample_run by blast
  from audited_exactly_once [OF run] show ?thesis by (auto simp: run sample_fields)
qed

text \<open>
  C8. The engine always answers.  When the session store hands out records with registered agent ids,
  caller-supplied request ids have the request-id form, and the replay cache is in a consistent state
  (the empty one is), no \<open>expect\<close> fails, no loop runs forever, and the cache stays consistent, so the
  next request is answered too.
\<close>

theorem engine_answers:
  assumes "\<forall>given. request_id req = Some given \<longrightarrow> request_id_well_formed given"
    and "\<forall>w rcd w'. dep_validate deps (session_token req) w = (Ok rcd, w') \<longrightarrow> parse_prefixed_id ''agent_'' (agent rcd) = Ok (agent rcd)"
    and "replay_inv (replay st)"
  shows "\<exists>resp st'. execute_pipeline deps req st = (Returned resp, st') \<and> replay_inv (replay st')"
proof -
  obtain out st' where run: "execute_pipeline deps req st = (out, st')" by (metis surj_pair)
  have cap: "0 < capacity replay_limits" by (simp add: replay_limits_def REPLAY_CACHE_MAX_ENTRIES_def)
  have step: "replay_inv (replay s)" if "replay_step deps st s" for s :: "('a, 'b) engine_state"
    using that assms(3) register_returns [OF assms(3) cap] unfolding replay_step_def by (metis option.inject prod.inject)
  from run show ?thesis
  proof (cases rule: execute_pipeline_cases)
    case (stuck new)
    have "False" using stuck(5)
    proof (elim disjE exE conjE)
      assume "bootstrap deps req (world st) = None"
      then show False using bootstrap_returns [OF assms(1), of deps "world st"] by simp
    next
      fix rcd w e
      assume "dep_validate deps (session_token req) (world st) = (Ok rcd, w)" "agent_principal (agent rcd) = Err e"
      then show False using assms(2) agent_principal_returns by fastforce
    next
      fix now key
      assume "register replay_limits now key (replay st) = None"
      then show False using register_returns [OF assms(3) cap, of now key] by auto
    qed
    then show ?thesis ..
  next
    case (refused new c reason policy s)
    then show ?thesis using run deny_result [OF refused(4)] step [OF refused(3)] by auto
  next
    case (sent rcd actor u authz policy ob r s c)
    then obtain resp where "out = Returned resp" "replay st' = replay s"
      using deny_result deliver_result unfolding finished_def by metis
    then show ?thesis using run step [OF sent(10)] by simp
  qed
qed

theorem engine_answers_witness:
  "\<exists>resp st'. execute_pipeline sample_deps sample_request sample_state = (Returned resp, st') \<and> replay_inv (replay st')"
proof (rule engine_answers)
  have "parse_prefixed_id ''agent_'' (agent sample_record) = Ok (agent sample_record)" by code_simp
  then show "\<forall>w rcd w'. dep_validate sample_deps (session_token sample_request) w = (Ok rcd, w') \<longrightarrow>
      parse_prefixed_id ''agent_'' (agent rcd) = Ok (agent rcd)"
    by (auto simp: sample_deps_def sample_fields)
qed (simp_all add: sample_fields replay_inv_empty)

text \<open>
  What the caller gets back.  A denial carries no headers and no body, and says only the reason and
  the deciding policy.  An allowed response is the sanitised form of what the transport answered for this
  request: at most a mebibyte before scrubbing, every \<open>set-cookie\<close> value redacted, the body scrubbed, and
  the audit event of the request written.
\<close>

lemma response_sanitized:
  assumes "execute_pipeline deps req st = (Returned resp, st')"
  shows "(\<exists>reason pol. resp_decision resp = DenyDecision reason pol \<and> resp_headers resp = [] \<and> resp_body resp = []
            \<and> (status resp = 403 \<or> status resp = 500))
     \<or> (\<exists>pre ob executed ev. effects st' = effects st @ pre @ [Sent ob (Ok executed), Audited ev True]
          \<and> resp = sanitized_response (resp_request_id resp) executed
          \<and> length (ex_body executed) \<le> 1048576
          \<and> (\<forall>(n, v) \<in> set (resp_headers resp). eq_ignore_ascii_case n ''set-cookie'' \<longrightarrow> v = REDACTED))"
  using assms
proof (cases rule: execute_pipeline_cases)
  case (stuck new)
  then show ?thesis by simp
next
  case (refused new c reason policy s)
  then show ?thesis using deny_response [OF refused(4)] by blast
next
  case (sent rcd actor u authz policy ob r s c)
  from sent(9) consider reason pol where "deny deps c reason pol s = (Returned resp, st')"
    | executed where "r = Ok executed" "length (ex_body executed) \<le> MAX_RESPONSE_BODY_BYTES"
        "deliver deps c executed policy s = (Returned resp, st')"
    unfolding finished_def by blast
  then show ?thesis
  proof cases
    case (1 reason pol)
    then show ?thesis using deny_response [OF 1] by blast
  next
    case (2 executed)
    from deliver_result [OF 2(3)] obtain b where
      b: "effects st' = effects s @ [Audited (allow_event (dep_project deps) c executed policy) b]"
      "resp = (if b then sanitized_response (dc_request_id c) executed else audit_write_failed_response (dc_request_id c))" by auto
    have cookies: "\<forall>(n, v) \<in> set (resp_headers (sanitized_response x executed)). eq_ignore_ascii_case n ''set-cookie'' \<longrightarrow> v = REDACTED" for x
      by (auto simp: sanitized_response_def redact_response_headers_def ALWAYS_REDACTED_RESPONSE_HEADERS_def
          eq_ignore_ascii_case_def Let_def split: if_splits)
    show ?thesis
    proof (cases b)
      case True
      then have "resp = sanitized_response (resp_request_id resp) executed" using b(2) by (simp add: sanitized_response_def)
      with True b cookies sent(8) 2(1,2) show ?thesis by (fastforce simp: MAX_RESPONSE_BODY_BYTES_def)
    qed (use b in \<open>simp add: audit_write_failed_response_def\<close>)
  qed
qed

lemma response_sanitized_witness:
  "\<exists>resp. fst (execute_pipeline sample_deps sample_request sample_state) = Returned resp \<and> status resp = 500
     \<and> resp_headers resp = []"
proof -
  obtain st' where run: "execute_pipeline sample_deps sample_request sample_state =
      (Returned (audit_write_failed_response deterministic_fallback), st')"
    using sample_run by blast
  from response_sanitized [OF run] show ?thesis
    by (auto simp: run sanitized_response_def audit_write_failed_response_def)
qed

text \<open>
  C36. A caller's own credentials never reach the network.  Every header of an outbound request whose name
  is one of the protected ones (\<open>authorization\<close>, \<open>cookie\<close>, \<open>host\<close> and the others, in any letter case)
  was written by the broker: its value is what the injection template makes of the resolved secret.
\<close>

theorem caller_credentials_stripped:
  assumes "execute_pipeline deps req st = (out, st')" "effects st' = effects st @ new" "Sent ob r \<in> set new"
    and "(n, v) \<in> set (out_headers ob)" "h \<in> set SENSITIVE_REQUEST_HEADERS" "eq_ignore_ascii_case n h"
  shows "\<exists>env template meta sec w name.
     resolve_credential deps (broker_request.credential req) env w = Ok (template, meta, sec)
     \<and> injected_header (dep_base64 deps) template sec meta = Some (name, v) \<and> eq_ignore_ascii_case n name"
  using assms(1)
proof (cases rule: execute_pipeline_cases)
  case (stuck new')
  then show ?thesis using assms(2,3) quiet_not_sent(1) [OF stuck(2)] by simp
next
  case (refused new' c reason policy s)
  then show ?thesis using deny_result [OF refused(4)] assms(2,3) quiet_not_sent(1) [OF refused(2)] by auto
next
  case (sent rcd actor u authz policy ob' r' s c)
  obtain ev b where "effects st' = effects s @ [Audited ev b]" using finished_result [OF sent(9)] by blast
  then have "ob' = ob" using sent(8) assms(2,3) quiet_not_sent(1) [OF quiet_replay_calls] by auto
  then show ?thesis using built_headers [OF _ assms(4-6)] sent(7) by blast
qed

theorem caller_credentials_stripped_witness:
  "\<exists>env template meta sec w name.
     resolve_credential sample_deps ''github-app'' env w = Ok (template, meta, sec)
     \<and> injected_header (dep_base64 sample_deps) template sec meta = Some (name, ''Bearer s3cret'')"
proof -
  obtain st' pre v ev b where run: "execute_pipeline sample_deps sample_request sample_state =
      (Returned (audit_write_failed_response deterministic_fallback), st')"
    "effects st' = pre @ [Sent sample_outbound_request v, Audited ev b]"
    using sample_run by blast
  have new: "effects st' = effects sample_state @ effects st'" by (simp add: sample_fields)
  have "(''authorization'', ''Bearer s3cret'') \<in> set (out_headers sample_outbound_request)"
    by (simp add: sample_outbound_request_def)
  moreover have "''authorization'' \<in> set SENSITIVE_REQUEST_HEADERS" by code_simp
  ultimately show ?thesis
    using caller_credentials_stripped [OF run(1) new, of sample_outbound_request v "''authorization''" "''Bearer s3cret''" "''authorization''"] run(2)
    by (simp add: sample_fields) blast
qed

end
