(* ===== verification/Audit_Log.thy ===== *)
theory Audit_Log
  imports Audit_Event "HOL-Library.Sublist" "HOL-Library.Countable"
begin

text \<open>
  \<open>vaultx-audit/src/jsonl.rs\<close> and \<open>store.rs\<close>: the append-only JSONL store.

  The store is the content of its file, \<open>None\<close> while it does not exist.  The JSON encoder and decoder and
  SHA-256 are the arguments \<open>to_json\<close>, \<open>from_json\<close> and \<open>sha256_hex\<close> of every operation, bundled in one
  record; what the code relies on is the predicate \<open>codec_ok\<close>.  A failing file operation is an argument
  too: a write may fail after any number of bytes has reached the file.  The mutex makes each operation
  atomic.
\<close>

section \<open>The environment\<close>

instance audit_action :: countable
  by countable_datatype

record codec =
  to_json :: "audit_event \<Rightarrow> (string, string) result"
  from_json :: "string \<Rightarrow> (audit_event, string) result"
  sha256_hex :: "string \<Rightarrow> string"

record io_faults =
  open_read :: "string option"
  open_append :: "string option"
  write_fault :: "(nat \<times> string) option"
  sync_fault :: "string option"

definition no_faults :: io_faults where
  "no_faults = \<lparr>open_read = None, open_append = None, write_fault = None, sync_fault = None\<rparr>"

text \<open>\<open>read_line\<close>: the bytes up to and including the next newline, or up to the end.\<close>

definition read_line :: "string \<Rightarrow> string \<times> string" where
  "read_line s =
     (case dropWhile (\<lambda>c. c \<noteq> newline) s of
        [] \<Rightarrow> (s, [])
      | c # rest \<Rightarrow> (takeWhile (\<lambda>c. c \<noteq> newline) s @ [c], rest))"

section \<open>Reading\<close>

definition parse_event_line :: "codec \<Rightarrow> string \<Rightarrow> nat \<Rightarrow> (audit_event, audit_error) result" where
  "parse_event_line c line number = map_err (CorruptRecord number) (from_json c line)"

text \<open>
  \<open>walk_records\<close> with the visitor's captured variable as the accumulator.  The visitor answers whether to
  go on.
\<close>

function walk_records ::
  "(nat \<Rightarrow> string \<Rightarrow> 'a \<Rightarrow> (bool \<times> 'a, audit_error) result) \<Rightarrow> nat \<Rightarrow> string \<Rightarrow> 'a \<Rightarrow> ('a, audit_error) result"
where
  "walk_records visit number [] acc = Ok acc"
| "walk_records visit number (b # bs) acc =
     (let raw = fst (read_line (b # bs)); rest = snd (read_line (b # bs))
      in if \<not> is_utf8 raw then Err (AuditIo ''stream did not contain valid UTF-8'')
         else (case strip_suffix [newline] raw of
             None \<Rightarrow> Err (CorruptRecord (number + 1) ''final record is missing its terminating newline'')
           | Some line \<Rightarrow>
               (case visit (number + 1) line acc of
                  Err e \<Rightarrow> Err e
                | Ok (False, acc') \<Rightarrow> Ok acc'
                | Ok (True, acc') \<Rightarrow> walk_records visit (number + 1) rest acc')))"
  by pat_completeness auto
termination
proof (relation "measure (\<lambda>(visit, number, bytes, acc). length bytes)", goal_cases)
  case (2 visit number b bs acc)
  have "length (snd (read_line (b # bs))) < length (b # bs)"
    using length_dropWhile_le [of "\<lambda>c. c \<noteq> newline" "b # bs"] by (auto simp: read_line_def split: list.splits)
  then show ?case using 2(2) by simp
qed simp

definition open_store_file :: "io_faults \<Rightarrow> string option \<Rightarrow> (string option, audit_error) result" where
  "open_store_file io file =
     (case file of
        None \<Rightarrow> Ok None
      | Some bytes \<Rightarrow> (case open_read io of None \<Rightarrow> Ok (Some bytes) | Some e \<Rightarrow> Err (AuditIo e)))"

definition load_events :: "codec \<Rightarrow> io_faults \<Rightarrow> string option \<Rightarrow> (audit_event list, audit_error) result" where
  "load_events c io file =
     and_then (open_store_file io file) (\<lambda>opened.
       case opened of
         None \<Rightarrow> Ok []
       | Some bytes \<Rightarrow>
           walk_records (\<lambda>number line events.
             and_then (parse_event_line c line number) (\<lambda>e. Ok (True, events @ [e]))) 0 bytes [])"

section \<open>Appending\<close>

definition serialize_line :: "codec \<Rightarrow> audit_event \<Rightarrow> (string, audit_error) result" where
  "serialize_line c e = map_err Serialization (to_json c e)"

definition event_hash :: "codec \<Rightarrow> audit_event \<Rightarrow> (string, audit_error) result" where
  "event_hash c e = and_then (map_err Serialization (to_json c e)) (\<lambda>bytes. Ok (sha256_hex c bytes))"

definition link_of :: "codec \<Rightarrow> audit_event list \<Rightarrow> (string option, audit_error) result" where
  "link_of c events =
     (if events = [] then Ok None else and_then (event_hash c (last events)) (\<lambda>h. Ok (Some h)))"

definition stored_event :: "new_audit_event \<Rightarrow> string \<Rightarrow> u64 \<Rightarrow> string option \<Rightarrow> audit_event" where
  "stored_event e eid seq_no link =
     \<lparr>ev_correlation_id = ev_correlation_id e, ev_actor = ev_actor e, ev_project = ev_project e,
      ev_environment = ev_environment e, ev_action = ev_action e, ev_decision = ev_decision e,
      ev_credential = ev_credential e, ev_destination = ev_destination e, ev_capability = ev_capability e,
      ev_policy_ids = ev_policy_ids e, ev_metadata = ev_metadata e,
      ev_id = eid, ev_sequence = seq_no, ev_prev_hash = link\<rparr>"

definition write_record ::
  "io_faults \<Rightarrow> string \<Rightarrow> string option \<Rightarrow> (unit, audit_error) result \<times> string option" where
  "write_record io bytes file =
     (case open_append io of
        Some e \<Rightarrow> (Err (AuditIo e), file)
      | None \<Rightarrow>
          (let old = (case file of None \<Rightarrow> [] | Some b \<Rightarrow> b)
           in case write_fault io of
                Some (n, e) \<Rightarrow> (Err (AuditIo e), Some (old @ take n bytes))
              | None \<Rightarrow>
                  (case sync_fault io of
                     Some e \<Rightarrow> (Err (AuditIo e), Some (old @ bytes))
                   | None \<Rightarrow> (Ok (), Some (old @ bytes)))))"

text \<open>The part of \<open>append\<close> before the file is opened for writing: the new event and its line.\<close>

definition prepare_append ::
  "codec \<Rightarrow> io_faults \<Rightarrow> (string, audit_error) result \<Rightarrow> new_audit_event \<Rightarrow> string option
   \<Rightarrow> (audit_event \<times> string, audit_error) result" where
  "prepare_append c io random_hex e file =
     and_then (load_events c io file) (\<lambda>events.
     let seq_no = (if events = [] then 0 else ev_sequence (last events) + 1)
     in and_then (link_of c events) (\<lambda>link.
        and_then (generate_audit_event_id random_hex) (\<lambda>eid.
        let stored = stored_event e eid seq_no link
        in and_then (validate_decision (ev_decision stored)) (\<lambda>_.
           and_then (serialize_line c stored) (\<lambda>line. Ok (stored, line @ [newline]))))))"

definition append_event ::
  "codec \<Rightarrow> io_faults \<Rightarrow> (string, audit_error) result \<Rightarrow> new_audit_event \<Rightarrow> string option
   \<Rightarrow> (audit_event, audit_error) result \<times> string option" where
  "append_event c io random_hex e file =
     (case prepare_append c io random_hex e file of
        Err err \<Rightarrow> (Err err, file)
      | Ok (stored, bytes) \<Rightarrow>
          (case write_record io bytes file of
             (Err err, file') \<Rightarrow> (Err err, file')
           | (Ok _, file') \<Rightarrow> (Ok stored, file')))"

definition latest_hash :: "codec \<Rightarrow> io_faults \<Rightarrow> string option \<Rightarrow> (string option, audit_error) result" where
  "latest_hash c io file = and_then (load_events c io file) (link_of c)"

section \<open>Verification and queries\<close>

text \<open>
  The loop of \<open>verify_chain\<close>: position, stored sequence number of the previous event, expected link.
\<close>

fun verify_from ::
  "codec \<Rightarrow> nat \<Rightarrow> u64 option \<Rightarrow> string option \<Rightarrow> audit_event list \<Rightarrow> (unit, audit_error) result" where
  "verify_from c index prev expected_prev [] = Ok ()"
| "verify_from c index prev expected_prev (e # events) =
     (if ev_sequence e \<noteq> of_nat index
      then Err (ChainBroken (ev_sequence e) (''expected contiguous sequence '' @ dec_of_nat index))
      else if ev_prev_hash e \<noteq> expected_prev
      then Err (ChainBroken (case prev of None \<Rightarrow> ev_sequence e | Some s \<Rightarrow> s)
                  ''recomputed hash does not match the recorded linkage'')
      else (case event_hash c e of
          Err err \<Rightarrow> Err err
        | Ok h \<Rightarrow> verify_from c (index + 1) (Some (ev_sequence e)) (Some h) events))"

definition verify_chain :: "codec \<Rightarrow> io_faults \<Rightarrow> string option \<Rightarrow> (unit, audit_error) result" where
  "verify_chain c io file = and_then (load_events c io file) (verify_from c 0 None None)"

record audit_filter =
  f_actor :: "principal option"
  f_project :: "project_id option"
  f_action :: "audit_action option"
  f_decision_allow :: "bool option"
  f_credential :: "credential_ref option"
  f_correlation_id :: "correlation_id option"
  f_limit :: "nat option"

definition matches_filter :: "audit_filter \<Rightarrow> audit_event \<Rightarrow> bool" where
  "matches_filter f e \<longleftrightarrow>
     opt_all (\<lambda>a. a = ev_actor e) (f_actor f) \<and> opt_all (\<lambda>p. p = ev_project e) (f_project f)
     \<and> opt_all (\<lambda>a. a = ev_action e) (f_action f)
     \<and> (case f_decision_allow f of
          None \<Rightarrow> True
        | Some True \<Rightarrow> ev_decision e = AuAllow
        | Some False \<Rightarrow> (case ev_decision e of AuDeny _ \<Rightarrow> True | AuAllow \<Rightarrow> False))
     \<and> opt_all (\<lambda>r. ev_credential e = Some r) (f_credential f)
     \<and> opt_all (\<lambda>k. k = ev_correlation_id e) (f_correlation_id f)"

text \<open>An absent limit is \<open>usize::MAX\<close>, which no number of records reaches.\<close>

definition limit_reached :: "nat option \<Rightarrow> nat \<Rightarrow> bool" where
  "limit_reached limit n \<longleftrightarrow> n \<ge> (case limit of None \<Rightarrow> 2 ^ 64 - 1 | Some l \<Rightarrow> l)"

definition query_events ::
  "codec \<Rightarrow> io_faults \<Rightarrow> audit_filter \<Rightarrow> string option \<Rightarrow> (audit_event list, audit_error) result" where
  "query_events c io f file =
     (if f_limit f = Some 0 then Ok []
      else and_then (open_store_file io file) (\<lambda>opened.
        case opened of
          None \<Rightarrow> Ok []
        | Some bytes \<Rightarrow>
            walk_records (\<lambda>number line matched.
              and_then (parse_event_line c line number) (\<lambda>e.
                if matches_filter f e
                then Ok (\<not> limit_reached (f_limit f) (length (matched @ [e])), matched @ [e])
                else Ok (True, matched))) 0 bytes []))"

text \<open>\<open>export_jsonl\<close>: the bytes written until the first error.\<close>

fun export_lines :: "codec \<Rightarrow> audit_event list \<Rightarrow> string \<Rightarrow> (string, audit_error) result" where
  "export_lines c [] out = Ok out"
| "export_lines c (e # es) out =
     and_then (serialize_line c e) (\<lambda>line. export_lines c es (out @ line @ [newline]))"

definition export_jsonl ::
  "codec \<Rightarrow> io_faults \<Rightarrow> audit_filter \<Rightarrow> string option \<Rightarrow> (string, audit_error) result" where
  "export_jsonl c io f file = and_then (query_events c io f file) (\<lambda>es. export_lines c es [])"

section \<open>Reference definitions\<close>

text \<open>
  What the store relies on: every event built through the validating constructors serialises to one line
  of UTF-8, parsing the line gives the event back, and whatever parses went through the constructors.
\<close>

definition codec_ok :: "codec \<Rightarrow> bool" where
  "codec_ok c \<longleftrightarrow>
     (\<forall>e. valid_event e \<longrightarrow>
        (\<exists>s. to_json c e = Ok s \<and> newline \<notin> set s \<and> is_utf8 (s @ [newline]) \<and> from_json c s = Ok e))
     \<and> (\<forall>s e. from_json c s = Ok e \<longrightarrow> valid_event e)"

definition json_of :: "codec \<Rightarrow> audit_event \<Rightarrow> string" where
  "json_of c e = (case to_json c e of Ok s \<Rightarrow> s | Err _ \<Rightarrow> [])"

definition hash_of :: "codec \<Rightarrow> audit_event \<Rightarrow> string" where
  "hash_of c e = sha256_hex c (json_of c e)"

definition lines_of :: "codec \<Rightarrow> audit_event list \<Rightarrow> string" where
  "lines_of c events = concat (map (\<lambda>e. json_of c e @ [newline]) events)"

definition file_bytes :: "string option \<Rightarrow> string" where
  "file_bytes file = (case file of None \<Rightarrow> [] | Some b \<Rightarrow> b)"

text \<open>A chain: contiguous sequence numbers and every link the hash of the predecessor.\<close>

definition chain_ok :: "codec \<Rightarrow> audit_event list \<Rightarrow> bool" where
  "chain_ok c es \<longleftrightarrow>
     (\<forall>i < length es. ev_sequence (es ! i) = of_nat i
        \<and> ev_prev_hash (es ! i) = (if i = 0 then None else Some (hash_of c (es ! (i - 1)))))"

definition holds_log :: "codec \<Rightarrow> string option \<Rightarrow> audit_event list \<Rightarrow> bool" where
  "holds_log c file es \<longleftrightarrow> list_all valid_event es \<and> file_bytes file = lines_of c es"

definition torn_log :: "codec \<Rightarrow> string option \<Rightarrow> audit_event list \<Rightarrow> bool" where
  "torn_log c file es \<longleftrightarrow>
     list_all valid_event es
     \<and> (\<exists>t. file = Some (lines_of c es @ t) \<and> t \<noteq> [] \<and> newline \<notin> set t)"

text \<open>A sequence of calls on a log: the acknowledged events, in order, and the final state.\<close>

fun run_appends :: "('r \<Rightarrow> 's \<Rightarrow> 'e option \<times> 's) \<Rightarrow> 'r list \<Rightarrow> 's \<Rightarrow> 'e list \<times> 's" where
  "run_appends app [] s = ([], s)"
| "run_appends app (r # rs) s =
     (case app r s of
        (None, s') \<Rightarrow> run_appends app rs s'
      | (Some e, s') \<Rightarrow> (let (acked, s'') = run_appends app rs s' in (e # acked, s'')))"

text \<open>The calls of the JSONL store: the codec is part of the state, faults and entropy of the call.\<close>

type_synonym append_call = "io_faults \<times> (string, audit_error) result \<times> new_audit_event"
type_synonym jsonl_store = "codec \<times> string option"

definition jsonl_append :: "append_call \<Rightarrow> jsonl_store \<Rightarrow> audit_event option \<times> jsonl_store" where
  "jsonl_append call store =
     (case call of (io, random_hex, e) \<Rightarrow>
      case append_event (fst store) io random_hex e (snd store) of
        (Ok stored, file') \<Rightarrow> (Some stored, (fst store, file'))
      | (Err _, file') \<Rightarrow> (None, (fst store, file')))"

definition jsonl_ok :: "jsonl_store \<Rightarrow> audit_event list \<Rightarrow> bool" where
  "jsonl_ok store es \<longleftrightarrow> codec_ok (fst store) \<and> holds_log (fst store) (snd store) es \<and> chain_ok (fst store) es"

definition jsonl_torn :: "jsonl_store \<Rightarrow> audit_event list \<Rightarrow> bool" where
  "jsonl_torn store es \<longleftrightarrow> codec_ok (fst store) \<and> torn_log (fst store) (snd store) es \<and> chain_ok (fst store) es"

definition valid_call :: "append_call \<Rightarrow> bool" where
  "valid_call call \<longleftrightarrow> valid_new_event (snd (snd call))"

text \<open>
  An encoder that satisfies \<open>codec_ok\<close>: an event is written in unary.  It only shows that the laws can hold.
\<close>

type_synonym event_tuple =
  "(string \<times> string \<times> string \<times> string option \<times> audit_action \<times> string option \<times> string option)
   \<times> ((string \<times> nat \<times> string) option \<times> string option \<times> string list \<times> (string \<times> string) list)
   \<times> string \<times> nat \<times> string option"

definition tuple_of :: "audit_event \<Rightarrow> event_tuple" where
  "tuple_of e =
     ((ev_correlation_id e, ev_actor e, ev_project e, ev_environment e, ev_action e,
       (case ev_decision e of AuAllow \<Rightarrow> None | AuDeny r \<Rightarrow> Some r), ev_credential e),
      (map_option (\<lambda>d. (dest_host d, unat (dest_port d), dest_path d)) (ev_destination e),
       ev_capability e, ev_policy_ids e, ev_metadata e),
      ev_id e, unat (ev_sequence e), ev_prev_hash e)"

definition event_of :: "event_tuple \<Rightarrow> audit_event" where
  "event_of t =
     (case t of ((corr, actor, proj, env, act, dec, cred), (dest, cap, pols, meta), eid, sq, link) \<Rightarrow>
      \<lparr>ev_correlation_id = corr, ev_actor = actor, ev_project = proj, ev_environment = env, ev_action = act,
       ev_decision = (case dec of None \<Rightarrow> AuAllow | Some r \<Rightarrow> AuDeny r), ev_credential = cred,
       ev_destination = map_option (\<lambda>(h, p, q). \<lparr>dest_host = h, dest_port = of_nat p, dest_path = q\<rparr>) dest,
       ev_capability = cap, ev_policy_ids = pols, ev_metadata = meta,
       ev_id = eid, ev_sequence = of_nat sq, ev_prev_hash = link\<rparr>)"

definition sample_codec :: codec where
  "sample_codec =
     \<lparr>to_json = (\<lambda>e. Ok (replicate (to_nat (tuple_of e)) (CHR ''1''))),
      from_json = (\<lambda>s. let e = event_of (from_nat (length s)) in if valid_event e then Ok e else Err ''invalid event''),
      sha256_hex = (\<lambda>s. s)\<rparr>"

definition sample_event :: new_audit_event where
  "sample_event =
     \<lparr>ev_correlation_id = ''req-1'', ev_actor = ''agent:ci'', ev_project = ''proj_core'', ev_environment = Some ''env_dev'',
      ev_action = AuHttpRequest, ev_decision = AuDeny ''unknown_session'', ev_credential = Some ''github-app'',
      ev_destination = Some \<lparr>dest_host = ''api.github.com'', dest_port = 443, dest_path = ''/repos''\<rparr>,
      ev_capability = None, ev_policy_ids = [''pol_1''], ev_metadata = [(''http.method'', ''GET'')]\<rparr>"

definition sample_hex :: string where
  "sample_hex = ''0123456789abcdef0123456789abcdef''"

section \<open>The contract of an append-only log\<close>

text \<open>
  A log is intact or torn; either way it stands for a list of events.  An acknowledged append adds its
  event at the end; a failed one adds nothing, or its event without acknowledgement, or tears the log;
  a torn log refuses every append and is left as it is.
\<close>

locale append_log =
  fixes intact :: "'s \<Rightarrow> 'e list \<Rightarrow> bool"
    and torn :: "'s \<Rightarrow> 'e list \<Rightarrow> bool"
    and admissible :: "'r \<Rightarrow> bool"
    and app :: "'r \<Rightarrow> 's \<Rightarrow> 'e option \<times> 's"
  assumes acknowledged: "intact s es \<Longrightarrow> admissible r \<Longrightarrow> app r s = (Some e, s') \<Longrightarrow> intact s' (es @ [e])"
    and failed: "intact s es \<Longrightarrow> admissible r \<Longrightarrow> app r s = (None, s') \<Longrightarrow>
       torn s' es \<or> intact s' es \<or> (\<exists>e. intact s' (es @ [e]))"
    and refused: "torn s es \<Longrightarrow> app r s = (None, s)"
begin

lemma torn_run: "torn s es \<Longrightarrow> run_appends app rs s = ([], s)"
  by (induction rs) (simp_all add: refused)

lemma run_extends:
  assumes "intact s es" "list_all admissible rs" "run_appends app rs s = (acked, s')"
  shows "\<exists>new. (intact s' (es @ new) \<or> torn s' (es @ new)) \<and> subseq acked new"
  using assms
proof (induction rs arbitrary: s es acked)
  case Nil
  then show ?case by (auto intro: exI [of _ "[]"])
next
  case (Cons r rs)
  obtain res s1 where r: "app r s = (res, s1)" by (metis surj_pair)
  have adm: "admissible r" "list_all admissible rs" using Cons.prems(2) by simp_all
  show ?case
  proof (cases res)
    case None
    then have run: "run_appends app rs s1 = (acked, s')" using Cons.prems(3) r by simp
    consider "torn s1 es" | "intact s1 es" | e where "intact s1 (es @ [e])"
      using failed [OF Cons.prems(1) adm(1)] r None by blast
    then show ?thesis
    proof cases
      case 1
      then show ?thesis using torn_run [OF 1] run by (auto intro: exI [of _ "[]"])
    next
      case 2
      then show ?thesis using Cons.IH adm(2) run by blast
    next
      case (3 e)
      then obtain new where "intact s' (es @ e # new) \<or> torn s' (es @ e # new)" "subseq acked new"
        using Cons.IH [OF 3 adm(2) run] by auto
      then show ?thesis by (intro exI [of _ "e # new"]) auto
    qed
  next
    case (Some e)
    then obtain acked' where a: "run_appends app rs s1 = (acked', s')" "acked = e # acked'"
      using Cons.prems(3) r by (auto split: prod.splits)
    have "intact s1 (es @ [e])" using acknowledged [OF Cons.prems(1) adm(1)] r Some by simp
    then obtain new where "intact s' (es @ e # new) \<or> torn s' (es @ e # new)" "subseq acked' new"
      using Cons.IH [OF _ adm(2) a(1)] by fastforce
    then show ?thesis using a(2) by (intro exI [of _ "e # new"]) auto
  qed
qed

end

section \<open>Lemmas: lines\<close>

lemma read_line_record: "newline \<notin> set s \<Longrightarrow> read_line (s @ newline # rest) = (s @ [newline], rest)"
proof -
  assume "newline \<notin> set s"
  then have "takeWhile (\<lambda>c. c \<noteq> newline) (s @ newline # rest) = s"
    "dropWhile (\<lambda>c. c \<noteq> newline) (s @ newline # rest) = newline # rest"
    by (auto simp: takeWhile_append dropWhile_append)
  then show ?thesis by (simp add: read_line_def)
qed

lemma read_line_tail: "newline \<notin> set t \<Longrightarrow> read_line t = (t, [])"
proof -
  assume "newline \<notin> set t"
  then have "dropWhile (\<lambda>c. c \<noteq> newline) t = []" by (auto simp: dropWhile_eq_Nil_conv)
  then show ?thesis unfolding read_line_def by (simp only: list.case)
qed

lemma strip_newline [simp]: "strip_suffix [newline] (s @ [newline]) = Some s"
  by (simp add: strip_suffix_Some_iff)

lemma strip_no_newline: "newline \<notin> set t \<Longrightarrow> strip_suffix [newline] t = None"
  by (rule ccontr) (auto simp: strip_suffix_Some_iff)

lemma codec_okD:
  assumes "codec_ok c" "valid_event e"
  shows "to_json c e = Ok (json_of c e)" "newline \<notin> set (json_of c e)" "is_utf8 (json_of c e @ [newline])"
    "from_json c (json_of c e) = Ok e"
proof -
  obtain s where "to_json c e = Ok s" "newline \<notin> set s" "is_utf8 (s @ [newline])" "from_json c s = Ok e"
    using assms unfolding codec_ok_def by blast
  then show "to_json c e = Ok (json_of c e)" "newline \<notin> set (json_of c e)" "is_utf8 (json_of c e @ [newline])"
    "from_json c (json_of c e) = Ok e"
    by (simp_all add: json_of_def)
qed

lemma event_hash_Ok: "codec_ok c \<Longrightarrow> valid_event e \<Longrightarrow> event_hash c e = Ok (hash_of c e)"
  by (simp add: event_hash_def hash_of_def codec_okD)

lemma lines_of_simps [simp]:
  "lines_of c [] = []" "lines_of c (e # es) = json_of c e @ newline # lines_of c es"
  "lines_of c (es @ fs) = lines_of c es @ lines_of c fs"
  by (simp_all add: lines_of_def)

text \<open>One record of the walk.\<close>

lemma walk_record:
  assumes "codec_ok c" "valid_event e"
  shows "walk_records visit n (json_of c e @ newline # rest) acc =
     (case visit (n + 1) (json_of c e) acc of
        Err err \<Rightarrow> Err err
      | Ok (False, acc') \<Rightarrow> Ok acc'
      | Ok (True, acc') \<Rightarrow> walk_records visit (n + 1) rest acc')"
proof -
  note ok = codec_okD [OF assms]
  obtain b bs where b: "json_of c e @ newline # rest = b # bs" by (cases "json_of c e @ newline # rest") auto
  have "read_line (b # bs) = (json_of c e @ [newline], rest)"
    using read_line_record [OF ok(2)] b by metis
  then show ?thesis using ok(3) unfolding b by simp
qed

lemma walk_tail:
  assumes "t \<noteq> []" "newline \<notin> set t"
  shows "\<exists>err. walk_records visit n t acc = Err err \<and> (err = AuditIo ''stream did not contain valid UTF-8''
     \<or> err = CorruptRecord (n + 1) ''final record is missing its terminating newline'')"
proof -
  obtain b bs where b: "t = b # bs" using assms(1) by (cases t) auto
  then have "read_line (b # bs) = (t, [])" using read_line_tail [OF assms(2)] by simp
  then show ?thesis using strip_no_newline [OF assms(2)] unfolding b by (simp add: Let_def)
qed

lemma walk_load:
  assumes "codec_ok c" "list_all valid_event es"
  shows "walk_records (\<lambda>number line events.
             and_then (parse_event_line c line number) (\<lambda>e. Ok (True, events @ [e]))) n (lines_of c es @ rest) acc
    = walk_records (\<lambda>number line events.
             and_then (parse_event_line c line number) (\<lambda>e. Ok (True, events @ [e]))) (n + length es) rest (acc @ es)"
  using assms(2)
proof (induction es arbitrary: n acc)
  case (Cons e es)
  then have e: "valid_event e" by simp
  show ?case
    using Cons by (simp add: walk_record [OF assms(1) e] parse_event_line_def codec_okD(4) [OF assms(1) e])
qed simp

lemma lines_of_eq_Nil [simp]: "lines_of c es = [] \<longleftrightarrow> es = []" "[] = lines_of c es \<longleftrightarrow> es = []"
  by (cases es; simp)+

lemma load_holds:
  assumes "codec_ok c" "holds_log c file es" "open_read io = None"
  shows "load_events c io file = Ok es"
proof (cases "file")
  case None
  then show ?thesis using assms(2) by (simp add: load_events_def open_store_file_def holds_log_def file_bytes_def)
next
  case (Some b)
  then show ?thesis using assms walk_load [OF assms(1), of es 0 "[]" "[]"]
    by (simp add: load_events_def open_store_file_def holds_log_def file_bytes_def)
qed

lemma load_torn:
  assumes "codec_ok c" "torn_log c file es"
  shows "\<exists>err. load_events c io file = Err err"
proof -
  obtain t where t: "file = Some (lines_of c es @ t)" "t \<noteq> []" "newline \<notin> set t" and es: "list_all valid_event es"
    using assms(2) by (auto simp: torn_log_def)
  show ?thesis
  proof (cases "open_read io")
    case None
    then show ?thesis using walk_tail [OF t(2,3)] walk_load [OF assms(1) es, of 0 t "[]"]
      by (fastforce simp: load_events_def open_store_file_def t(1))
  qed (simp add: load_events_def open_store_file_def t(1))
qed

lemma walk_query:
  assumes "codec_ok c" "list_all valid_event es" "length acc < l" "l = (case limit of None \<Rightarrow> 2 ^ 64 - 1 | Some l \<Rightarrow> l)"
  shows "walk_records (\<lambda>number line matched.
            and_then (parse_event_line c line number) (\<lambda>e.
              if matches_filter f e then Ok (\<not> limit_reached limit (length (matched @ [e])), matched @ [e])
              else Ok (True, matched))) n (lines_of c es) acc
    = Ok (take l (acc @ filter (matches_filter f) es))"
  using assms(2,3)
proof (induction es arbitrary: n acc)
  case (Cons e es)
  then have e: "valid_event e" by simp
  have lim: "limit_reached limit m \<longleftrightarrow> l \<le> m" for m by (simp add: limit_reached_def assms(4))
  note step = walk_record [OF assms(1) e] parse_event_line_def codec_okD(4) [OF assms(1) e] lim
  consider "\<not> matches_filter f e" | "matches_filter f e" "l \<le> Suc (length acc)"
    | "matches_filter f e" "Suc (length acc) < l" by linarith
  then show ?case
  proof cases
    case 2
    then have "l = Suc (length acc)" using Cons.prems(2) by simp
    with 2 show ?thesis by (simp add: step)
  next
    case 3
    then show ?thesis using Cons.IH [of "acc @ [e]"] Cons.prems(1) by (simp add: step not_le)
  qed (use Cons in \<open>simp add: step\<close>)
qed simp

section \<open>Lemmas: the chain\<close>

lemma verify_from_iff:
  assumes "codec_ok c" "list_all valid_event es"
  shows "verify_from c i prev expected es = Ok () \<longleftrightarrow>
     (\<forall>j < length es. ev_sequence (es ! j) = of_nat (i + j)
        \<and> ev_prev_hash (es ! j) = (if j = 0 then expected else Some (hash_of c (es ! (j - 1)))))"
  using assms(2)
proof (induction es arbitrary: i prev expected)
  case (Cons e es)
  then have h: "event_hash c e = Ok (hash_of c e)" using event_hash_Ok [OF assms(1)] by simp
  have "(\<forall>j < length (e # es). ev_sequence ((e # es) ! j) = of_nat (i + j)
        \<and> ev_prev_hash ((e # es) ! j) = (if j = 0 then expected else Some (hash_of c ((e # es) ! (j - 1)))))
    \<longleftrightarrow> (ev_sequence e = of_nat i \<and> ev_prev_hash e = expected)
       \<and> (\<forall>j < length es. ev_sequence (es ! j) = of_nat (i + 1 + j)
            \<and> ev_prev_hash (es ! j) = Some (hash_of c ((e # es) ! j)))"
    by (simp only: list.size add_Suc_right add_0_right One_nat_def All_less_Suc2 nth_Cons_0 nth_Cons_Suc diff_Suc_Suc
        diff_zero if_True nat.distinct if_False simp_thms add_Suc)
  also have "\<dots> \<longleftrightarrow> (ev_sequence e = of_nat i \<and> ev_prev_hash e = expected)
       \<and> verify_from c (i + 1) (Some (ev_sequence e)) (Some (hash_of c e)) es = Ok ()"
    using Cons by (simp add: nth_Cons' cong: all_cong) fastforce
  also have "\<dots> \<longleftrightarrow> verify_from c i prev expected (e # es) = Ok ()" using h by simp
  finally show ?case by simp
qed simp

lemma verify_chain_iff:
  assumes "codec_ok c" "holds_log c file es"
  shows "verify_chain c no_faults file = Ok () \<longleftrightarrow> chain_ok c es"
  using assms load_holds [OF assms, of no_faults] verify_from_iff [of c es 0 None None]
  by (simp add: verify_chain_def no_faults_def holds_log_def chain_ok_def)

lemma chain_ok_snoc:
  "chain_ok c (es @ [e]) \<longleftrightarrow> chain_ok c es \<and> ev_sequence e = of_nat (length es)
     \<and> ev_prev_hash e = (if es = [] then None else Some (hash_of c (last es)))"
proof -
  have "(es @ [e]) ! (i - 1) = es ! (i - 1)" if "i < length es" for i
    using that by (simp add: nth_append less_imp_diff_less)
  moreover have "es \<noteq> [] \<Longrightarrow> (es @ [e]) ! (length es - 1) = last es"
    by (simp add: nth_append last_conv_nth)
  ultimately show ?thesis by (simp add: chain_ok_def All_less_Suc nth_append cong: conj_cong) blast
qed

lemma link_of_Ok:
  assumes "codec_ok c" "list_all valid_event es"
  shows "link_of c es = Ok (if es = [] then None else Some (hash_of c (last es)))"
  using assms event_hash_Ok [of c "last es"] by (auto simp: link_of_def list_all_iff)

lemma next_sequence:
  "chain_ok c es \<Longrightarrow> (if es = [] then 0 else ev_sequence (last es) + 1) = (of_nat (length es) :: u64)"
  by (cases es rule: rev_cases) (auto simp: chain_ok_snoc)

lemma stored_event_simps [simp]:
  "ev_sequence (stored_event e i s l) = s" "ev_prev_hash (stored_event e i s l) = l"
  "ev_id (stored_event e i s l) = i" "ev_decision (stored_event e i s l) = ev_decision e"
  "new_audit_event.truncate (stored_event e i s l) = e"
  "valid_new_event (stored_event e i s l) \<longleftrightarrow> valid_new_event e"
  by (simp_all add: stored_event_def valid_new_event_def new_audit_event.truncate_def)

text \<open>The new event of an append on an intact log, and its line.\<close>

lemma prepare_append_Ok:
  assumes "codec_ok c" "holds_log c file es" "chain_ok c es" "valid_new_event e"
    and "prepare_append c io random_hex e file = Ok (stored, bytes)"
  shows "bytes = json_of c stored @ [newline] \<and> valid_event stored \<and> chain_ok c (es @ [stored])
     \<and> new_audit_event.truncate stored = e"
proof -
  have es: "list_all valid_event es" using assms(2) by (simp add: holds_log_def)
  have io: "open_read io = None \<or> file = None"
    using assms(5) by (auto simp: prepare_append_def load_events_def open_store_file_def split: option.splits)
  have load: "load_events c io file = Ok es"
  proof (cases "file")
    case None
    then show ?thesis using assms(2) by (simp add: load_events_def open_store_file_def holds_log_def file_bytes_def)
  qed (use io load_holds [OF assms(1,2)] in simp)
  define link where "link = (if es = [] then None else Some (hash_of c (last es)))"
  obtain eid where eid: "generate_audit_event_id random_hex = Ok eid"
      and st: "stored = stored_event e eid (of_nat (length es)) link"
      and dec: "validate_decision (ev_decision e) = Ok ()"
      and line: "serialize_line c stored = Ok (butlast bytes)" "bytes = butlast bytes @ [newline]"
    using assms(5) load link_of_Ok [OF assms(1) es] next_sequence [OF assms(3)]
    by (auto simp: prepare_append_def Let_def link_def)
  have valid: "valid_event stored"
    using assms(4) dec generate_audit_event_id_valid [OF eid] by (simp add: st valid_event_def)
  moreover have "butlast bytes = json_of c stored"
    using line(1) codec_okD(1) [OF assms(1) valid] by (simp add: serialize_line_def)
  ultimately show ?thesis using line(2) assms(3) by (simp add: chain_ok_snoc st link_def)
qed

section \<open>The JSONL store is an append-only log\<close>

lemma write_record_cases:
  "(\<exists>x. write_record io bytes file = (Err x, file))
   \<or> (\<exists>x n. write_record io bytes file = (Err x, Some (file_bytes file @ take n bytes)))
   \<or> write_record io bytes file = (Ok (), Some (file_bytes file @ bytes))"
proof (cases "open_append io")
  case None
  show ?thesis
  proof (cases "write_fault io")
    case w: None
    show ?thesis
    proof (cases "sync_fault io")
      case (Some x)
      then have "write_record io bytes file = (Err (AuditIo x), Some (file_bytes file @ take (length bytes) bytes))"
        using None w by (simp add: write_record_def file_bytes_def Let_def)
      then show ?thesis by blast
    qed (use None w in \<open>simp add: write_record_def file_bytes_def\<close>)
  next
    case (Some p)
    then have "write_record io bytes file = (Err (AuditIo (snd p)), Some (file_bytes file @ take (fst p) bytes))"
      using None by (cases p) (simp add: write_record_def file_bytes_def Let_def)
    then show ?thesis by blast
  qed
qed (simp add: write_record_def)

lemma append_event_cases:
  assumes "codec_ok c" "holds_log c file es" "chain_ok c es" "valid_new_event e"
  obtains (nothing) err where "append_event c io random_hex e file = (Err err, file)"
  | (partly) err n stored where
      "append_event c io random_hex e file = (Err err, Some (file_bytes file @ take n (json_of c stored @ [newline])))"
      "valid_event stored" "chain_ok c (es @ [stored])"
  | (written) stored where
      "append_event c io random_hex e file = (Ok stored, Some (file_bytes file @ json_of c stored @ [newline]))"
      "valid_event stored" "chain_ok c (es @ [stored])" "new_audit_event.truncate stored = e"
proof (cases "prepare_append c io random_hex e file")
  case (Err err)
  then have "append_event c io random_hex e file = (Err err, file)" by (simp add: append_event_def)
  then show thesis by (rule nothing)
next
  case (Ok p)
  obtain stored bytes where p: "p = (stored, bytes)" by (metis surj_pair)
  note prep = prepare_append_Ok [OF assms Ok [unfolded p]]
  consider x where "write_record io bytes file = (Err x, file)"
    | x n where "write_record io bytes file = (Err x, Some (file_bytes file @ take n bytes))"
    | "write_record io bytes file = (Ok (), Some (file_bytes file @ bytes))"
    using write_record_cases by blast
  then show thesis
  proof cases
    case (1 x)
    then have "append_event c io random_hex e file = (Err x, file)" by (simp add: append_event_def Ok p)
    then show thesis by (rule nothing)
  next
    case (2 x n)
    then have "append_event c io random_hex e file = (Err x, Some (file_bytes file @ take n bytes))"
      by (simp add: append_event_def Ok p)
    with prep show thesis by (intro partly [of x n stored]) simp_all
  next
    case 3
    then have "append_event c io random_hex e file = (Ok stored, Some (file_bytes file @ bytes))"
      by (simp add: append_event_def Ok p)
    with prep show thesis by (intro written [of stored]) simp_all
  qed
qed

lemma holds_log_snoc:
  "holds_log c file es \<Longrightarrow> valid_event e \<Longrightarrow>
   holds_log c (Some (file_bytes file @ json_of c e @ [newline])) (es @ [e])"
  by (simp add: holds_log_def file_bytes_def)

lemma partial_write:
  assumes "codec_ok c" "holds_log c file es" "valid_event e"
  shows "torn_log c (Some (file_bytes file @ take n (json_of c e @ [newline]))) es
     \<or> holds_log c (Some (file_bytes file @ take n (json_of c e @ [newline]))) es
     \<or> holds_log c (Some (file_bytes file @ take n (json_of c e @ [newline]))) (es @ [e])"
proof -
  consider "n = 0" | "0 < n" "n \<le> length (json_of c e)" | "length (json_of c e) < n" by linarith
  then show ?thesis
  proof cases
    case 1
    then show ?thesis using assms(2) by (simp add: holds_log_def file_bytes_def)
  next
    case 2
    have "newline \<notin> set (take n (json_of c e))" using codec_okD(2) [OF assms(1,3)] set_take_subset by fastforce
    moreover have "take n (json_of c e) \<noteq> []" using 2 by auto
    ultimately have "torn_log c (Some (file_bytes file @ take n (json_of c e @ [newline]))) es"
      using 2 assms(2) by (auto simp: torn_log_def holds_log_def)
    then show ?thesis ..
  next
    case 3
    then show ?thesis using holds_log_snoc [OF assms(2,3)] by simp
  qed
qed

interpretation jsonl: append_log jsonl_ok jsonl_torn valid_call jsonl_append
proof
  fix s es r e s'
  assume s: "jsonl_ok s es" and r: "valid_call r" and app: "jsonl_append r s = (Some e, s')"
  obtain c f io h ne where eq: "s = (c, f)" "r = (io, h, ne)" by (metis surj_pair)
  have pre: "codec_ok c" "holds_log c f es" "chain_ok c es" "valid_new_event ne"
    using s r by (simp_all add: eq jsonl_ok_def valid_call_def)
  show "jsonl_ok s' (es @ [e])"
    using pre
  proof (cases rule: append_event_cases [of c f es ne io h])
    case (written stored)
    then show ?thesis using app pre(1) holds_log_snoc [OF pre(2)] by (auto simp: eq jsonl_append_def jsonl_ok_def)
  qed (use app in \<open>simp_all add: eq jsonl_append_def\<close>)
next
  fix s es r s'
  assume s: "jsonl_ok s es" and r: "valid_call r" and app: "jsonl_append r s = (None, s')"
  obtain c f io h ne where eq: "s = (c, f)" "r = (io, h, ne)" by (metis surj_pair)
  have pre: "codec_ok c" "holds_log c f es" "chain_ok c es" "valid_new_event ne"
    using s r by (simp_all add: eq jsonl_ok_def valid_call_def)
  show "jsonl_torn s' es \<or> jsonl_ok s' es \<or> (\<exists>e. jsonl_ok s' (es @ [e]))"
    using pre
  proof (cases rule: append_event_cases [of c f es ne io h])
    case (nothing err)
    then have "s' = s" using app by (simp add: eq jsonl_append_def)
    then show ?thesis using s by simp
  next
    case (partly err n stored)
    then have "s' = (c, Some (file_bytes f @ take n (json_of c stored @ [newline])))"
      using app by (simp add: eq jsonl_append_def)
    then show ?thesis
      using partial_write [OF pre(1,2) partly(2), of n] pre(1,3) partly(3)
      by (auto simp: jsonl_ok_def jsonl_torn_def)
  qed (use app in \<open>simp add: eq jsonl_append_def\<close>)
next
  fix s es and r :: append_call
  assume s: "jsonl_torn s es"
  obtain c f io h ne where eq: "s = (c, f)" "r = (io, h, ne)" by (metis surj_pair)
  obtain err where "load_events c io f = Err err" using s load_torn [of c f es io] by (auto simp: eq jsonl_torn_def)
  then show "jsonl_append r s = (None, s)"
    by (simp add: eq jsonl_append_def append_event_def prepare_append_def)
qed

lemma event_of_tuple_of [simp]: "event_of (tuple_of e) = e"
proof -
  have "map_option ((\<lambda>(h, p, q). \<lparr>dest_host = h, dest_port = of_nat p, dest_path = q\<rparr>)
      \<circ> (\<lambda>d. (dest_host d, unat (dest_port d), dest_path d))) x = x" for x :: "destination_summary option"
    by (cases x) simp_all
  then show ?thesis
    by (simp add: event_of_def tuple_of_def option.map_comp split: audit_decision.splits)
qed

lemma sample_codec_ok: "codec_ok sample_codec"
proof -
  have "is_utf8 (replicate n (CHR ''1'') @ [newline])" for n
    unfolding is_utf8_def by (rule utf8_lossy_ascii) (simp add: is_ascii_def list_all_iff is_ascii_byte_def)
  then show ?thesis by (auto simp: codec_ok_def sample_codec_def Let_def split: if_splits)
qed

lemma sample_event_valid: "valid_new_event sample_event"
  by code_simp

lemma load_valid:
  assumes "codec_ok c" "load_events c io file = Ok es"
  shows "list_all valid_event es"
proof -
  have "walk_records (\<lambda>number line events.
             and_then (parse_event_line c line number) (\<lambda>e. Ok (True, events @ [e]))) n bytes acc = Ok res
        \<Longrightarrow> list_all valid_event acc \<Longrightarrow> list_all valid_event res" for n bytes acc res
  proof (induction "length bytes" arbitrary: n bytes acc rule: less_induct)
    case less
    show ?case
    proof (cases bytes)
      case (Cons b bs)
      then obtain line e where "from_json c line = Ok e" and
        rest: "walk_records (\<lambda>number line events.
             and_then (parse_event_line c line number) (\<lambda>e. Ok (True, events @ [e]))) (n + 1)
             (snd (read_line bytes)) (acc @ [e]) = Ok res"
        using less.prems(1)
        by (auto simp: Let_def parse_event_line_def split: if_splits option.splits result.splits)
      moreover have "length (snd (read_line bytes)) < length bytes"
        using Cons length_dropWhile_le [of "\<lambda>c. c \<noteq> newline" bytes] by (auto simp: read_line_def split: list.splits)
      ultimately show ?thesis
        using less.hyps [of "snd (read_line bytes)"] less.prems(2) assms(1) by (auto simp: codec_ok_def)
    qed (use less.prems in simp)
  qed
  from this [of 0 _ "[]"] show ?thesis
    using assms(2) by (auto simp: load_events_def open_store_file_def split: option.splits)
qed

text \<open>Two chains with the same head link are equal, or two of their events collide.\<close>

lemma chains_agree:
  assumes "codec_ok c" "list_all valid_event es" "list_all valid_event fs" "chain_ok c es" "chain_ok c fs"
    and "(if es = [] then None else Some (hash_of c (last es))) = (if fs = [] then None else Some (hash_of c (last fs)))"
  shows "es = fs \<or> (\<exists>a \<in> set es. \<exists>b \<in> set fs. json_of c a \<noteq> json_of c b \<and> hash_of c a = hash_of c b)"
  using assms(2-)
proof (induction es arbitrary: fs rule: rev_induct)
  case Nil
  then show ?case by (auto split: if_splits)
next
  case (snoc a es)
  from snoc.prems(5) obtain b gs where fs: "fs = gs @ [b]" and h: "hash_of c a = hash_of c b"
    by (cases fs rule: rev_cases) auto
  show ?case
  proof (cases "json_of c a = json_of c b")
    case True
    have "valid_event a" "valid_event b" using snoc.prems(1,2) fs by simp_all
    then have ab: "a = b" using codec_okD(4) [OF assms(1)] True by (metis result.inject(1))
    then have "es = gs \<or> (\<exists>a \<in> set es. \<exists>b \<in> set gs. json_of c a \<noteq> json_of c b \<and> hash_of c a = hash_of c b)"
      using snoc.prems(1-4) fs by (intro snoc.IH) (simp_all add: chain_ok_snoc)
    then show ?thesis using ab fs by auto
  next
    case False
    then show ?thesis using h fs by auto
  qed
qed

section \<open>Properties\<close>

text \<open>
  Appending extends the verified chain by exactly one event.  On a file that holds a chain, a valid
  event is stored with a fresh id, the next sequence number and the hash of the previous head; the new
  content is the old one plus one line; reading it gives the old events and the new one, which carries
  every field of the request; and the chain verifies.
\<close>

lemma append_extends_chain:
  assumes "codec_ok c" "holds_log c file es" "chain_ok c es"
    and "valid_new_event e" "is_ok (validate_decision (ev_decision e))" "generate_audit_event_id hex = Ok eid"
  shows "\<exists>stored line. append_event c no_faults hex e file = (Ok stored, Some (file_bytes file @ line @ [newline]))
     \<and> newline \<notin> set line \<and> new_audit_event.truncate stored = e \<and> ev_id stored = eid
     \<and> ev_sequence stored = of_nat (length es) \<and> latest_hash c no_faults file = Ok (ev_prev_hash stored)
     \<and> load_events c no_faults (Some (file_bytes file @ line @ [newline])) = Ok (es @ [stored])
     \<and> verify_chain c no_faults (Some (file_bytes file @ line @ [newline])) = Ok ()"
proof -
  have es: "list_all valid_event es" using assms(2) by (simp add: holds_log_def)
  have load: "load_events c no_faults file = Ok es" by (rule load_holds [OF assms(1,2)]) (simp add: no_faults_def)
  define link where "link = (if es = [] then None else Some (hash_of c (last es)))"
  define stored where "stored = stored_event e eid (of_nat (length es)) link"
  have valid: "valid_event stored"
    using assms(4,5) generate_audit_event_id_valid [OF assms(6)] by (simp add: stored_def valid_event_def)
  have "prepare_append c no_faults hex e file = Ok (stored, json_of c stored @ [newline])"
    using load link_of_Ok [OF assms(1) es] next_sequence [OF assms(3)] assms(5,6) codec_okD(1) [OF assms(1) valid]
    by (auto simp: prepare_append_def Let_def link_def stored_def serialize_line_def is_ok_iff)
  then have app: "append_event c no_faults hex e file = (Ok stored, Some (file_bytes file @ json_of c stored @ [newline]))"
    by (simp add: append_event_def write_record_def no_faults_def file_bytes_def)
  have holds: "holds_log c (Some (file_bytes file @ json_of c stored @ [newline])) (es @ [stored])"
    using holds_log_snoc [OF assms(2) valid] .
  moreover have "chain_ok c (es @ [stored])" using assms(3) by (simp add: chain_ok_snoc stored_def link_def)
  moreover have "latest_hash c no_faults file = Ok link"
    using load link_of_Ok [OF assms(1) es] by (simp add: latest_hash_def link_def)
  ultimately show ?thesis
    using app verify_chain_iff [OF assms(1) holds] load_holds [OF assms(1) holds, of no_faults] codec_okD(2) [OF assms(1) valid]
    by (intro exI [of _ stored] exI [of _ "json_of c stored"]) (auto simp: stored_def no_faults_def)
qed

lemma append_extends_chain_witness:
  "\<exists>stored line. append_event sample_codec no_faults (Ok sample_hex) sample_event None = (Ok stored, Some (line @ [newline]))
     \<and> ev_sequence stored = 0 \<and> verify_chain sample_codec no_faults (Some (line @ [newline])) = Ok ()"
proof -
  have "generate_audit_event_id (Ok sample_hex) = Ok (''aud_'' @ sample_hex)" by code_simp
  moreover have "is_ok (validate_decision (ev_decision sample_event))" by code_simp
  ultimately show ?thesis
    using append_extends_chain [OF sample_codec_ok _ _ sample_event_valid, of None "[]" "Ok sample_hex"]
    by (auto simp: holds_log_def chain_ok_def file_bytes_def)
qed

text \<open>
  C34. The log is append-only under every pattern of failures.  Starting without a file, make any number
  of appends, each with its own entropy and its own file-system failure, a write cut off at any byte
  included.  The final file stands for one log: all acknowledged events are in it, in order.  Either it
  reads back exactly as that log and verifies, or it ends in a torn record; then reading, verifying and
  every further append fail, and the file is not changed again.
\<close>

theorem audit_log_append_only:
  assumes "codec_ok c" "list_all valid_call calls" "run_appends jsonl_append calls (c, None) = (acked, store)"
  shows "\<exists>log. subseq acked log \<and> chain_ok (fst store) log
     \<and> (load_events (fst store) no_faults (snd store) = Ok log \<and> verify_chain (fst store) no_faults (snd store) = Ok ()
        \<or> (\<exists>torn. snd store = Some (lines_of (fst store) log @ torn) \<and> torn \<noteq> [] \<and> newline \<notin> set torn)
          \<and> (\<forall>io. \<exists>err. load_events (fst store) io (snd store) = Err err)
          \<and> (\<forall>io. \<exists>err. verify_chain (fst store) io (snd store) = Err err)
          \<and> (\<forall>more. run_appends jsonl_append more store = ([], store)))"
proof -
  have "jsonl_ok (c, None) []" using assms(1) by (simp add: jsonl_ok_def holds_log_def chain_ok_def file_bytes_def)
  then obtain log where log: "jsonl_ok store log \<or> jsonl_torn store log" and sub: "subseq acked log"
    using jsonl.run_extends [OF _ assms(2,3)] by fastforce
  from log show ?thesis
  proof
    assume ok: "jsonl_ok store log"
    then have "verify_chain (fst store) no_faults (snd store) = Ok ()"
      using verify_chain_iff [of "fst store" "snd store" log] by (simp add: jsonl_ok_def)
    with ok sub load_holds [of "fst store" "snd store" log no_faults] show ?thesis
      by (auto simp: jsonl_ok_def no_faults_def)
  next
    assume torn: "jsonl_torn store log"
    then have load: "\<forall>io. \<exists>err. load_events (fst store) io (snd store) = Err err"
      using load_torn [of "fst store" "snd store" log] by (simp add: jsonl_torn_def)
    moreover have "\<forall>io. \<exists>err. verify_chain (fst store) io (snd store) = Err err"
    proof
      fix io
      obtain err where "load_events (fst store) io (snd store) = Err err" using load by blast
      then show "\<exists>err. verify_chain (fst store) io (snd store) = Err err" by (simp add: verify_chain_def)
    qed
    ultimately show ?thesis
      using torn sub jsonl.torn_run [OF torn] by (auto simp: jsonl_torn_def torn_log_def)
  qed
qed

theorem audit_log_append_only_witness:
  "\<exists>acked store log.
     run_appends jsonl_append
       [(no_faults, Ok sample_hex, sample_event), (no_faults\<lparr>write_fault := Some (1, ''disk full'')\<rparr>, Ok sample_hex, sample_event),
        (no_faults, Ok sample_hex, sample_event)] (sample_codec, None) = (acked, store)
     \<and> subseq acked log \<and> chain_ok (fst store) log"
proof -
  obtain acked store where "run_appends jsonl_append
       [(no_faults, Ok sample_hex, sample_event), (no_faults\<lparr>write_fault := Some (1, ''disk full'')\<rparr>, Ok sample_hex, sample_event),
        (no_faults, Ok sample_hex, sample_event)] (sample_codec, None) = (acked, store)"
    by (metis surj_pair)
  from audit_log_append_only [OF sample_codec_ok _ this] this show ?thesis
    by (auto simp: valid_call_def sample_event_valid)
qed

text \<open>
  C35. The chain is tamper-evident.  Two files of arbitrary bytes that both read and verify and have the
  same head hash contain the same events, unless two different canonical forms in them have the same
  SHA-256 digest.  So with the head hash recorded elsewhere, no event can be altered, removed, inserted
  or reordered unnoticed without a collision.
\<close>

theorem tamper_evident:
  assumes "codec_ok c" "load_events c io f = Ok es" "load_events c io' g = Ok fs"
    and "verify_chain c io f = Ok ()" "verify_chain c io' g = Ok ()" "latest_hash c io f = latest_hash c io' g"
  shows "es = fs \<or> (\<exists>a \<in> set es. \<exists>b \<in> set fs. json_of c a \<noteq> json_of c b
     \<and> sha256_hex c (json_of c a) = sha256_hex c (json_of c b))"
proof -
  note es = load_valid [OF assms(1,2)] and fs = load_valid [OF assms(1,3)]
  have "chain_ok c es" "chain_ok c fs"
    using assms verify_from_iff [OF assms(1) es, of 0 None None] verify_from_iff [OF assms(1) fs, of 0 None None]
    by (simp_all add: verify_chain_def chain_ok_def)
  moreover have "(if es = [] then None else Some (hash_of c (last es))) = (if fs = [] then None else Some (hash_of c (last fs)))"
    using assms(2,3,6) link_of_Ok [OF assms(1) es] link_of_Ok [OF assms(1) fs] by (simp add: latest_hash_def)
  ultimately show ?thesis using chains_agree [OF assms(1) es fs] by (simp add: hash_of_def)
qed

theorem tamper_evident_witness:
  "\<exists>stored line. load_events sample_codec no_faults (Some line) = Ok [stored]
     \<and> ([stored] = [stored] \<or> (\<exists>a \<in> set [stored]. \<exists>b \<in> set [stored]. json_of sample_codec a \<noteq> json_of sample_codec b
     \<and> sha256_hex sample_codec (json_of sample_codec a) = sha256_hex sample_codec (json_of sample_codec b)))"
proof -
  define stored where "stored = stored_event sample_event (''aud_'' @ sample_hex) 0 None"
  have "is_ok (parse_audit_event_id (''aud_'' @ sample_hex))" "is_ok (validate_decision (ev_decision sample_event))"
    by code_simp+
  then have valid: "valid_event stored" using sample_event_valid by (simp add: valid_event_def stored_def)
  have holds: "holds_log sample_codec (Some (lines_of sample_codec [stored])) [stored]"
    using valid by (simp add: holds_log_def file_bytes_def)
  have load: "load_events sample_codec no_faults (Some (lines_of sample_codec [stored])) = Ok [stored]"
    by (rule load_holds [OF sample_codec_ok holds]) (simp add: no_faults_def)
  have "verify_chain sample_codec no_faults (Some (lines_of sample_codec [stored])) = Ok ()"
    using verify_chain_iff [OF sample_codec_ok holds] by (simp add: chain_ok_def stored_def)
  from tamper_evident [OF sample_codec_ok load load this this] load show ?thesis by blast
qed

text \<open>
  A query returns the first matching events, in log order, up to the limit, and exports exactly the
  stored lines of these events.
\<close>

lemma query_exact:
  assumes "codec_ok c" "holds_log c file es"
  shows "query_events c no_faults f file =
           Ok (take (case f_limit f of None \<Rightarrow> 2 ^ 64 - 1 | Some l \<Rightarrow> l) (filter (matches_filter f) es))
     \<and> export_jsonl c no_faults f file =
           Ok (lines_of c (take (case f_limit f of None \<Rightarrow> 2 ^ 64 - 1 | Some l \<Rightarrow> l) (filter (matches_filter f) es)))"
proof -
  let ?l = "case f_limit f of None \<Rightarrow> 2 ^ 64 - 1 | Some l \<Rightarrow> l"
  have es: "list_all valid_event es" using assms(2) by (simp add: holds_log_def)
  have q: "query_events c no_faults f file = Ok (take ?l (filter (matches_filter f) es))"
  proof (cases "f_limit f = Some 0")
    case True
    then show ?thesis by (simp add: query_events_def)
  next
    case False
    then have pos: "length ([] :: audit_event list) < ?l" by (auto split: option.splits)
    show ?thesis
    proof (cases "file")
      case None
      then show ?thesis using assms(2) by (simp add: query_events_def open_store_file_def holds_log_def file_bytes_def)
    next
      case (Some b)
      then have "file = Some (lines_of c es)" using assms(2) by (simp add: holds_log_def file_bytes_def)
      then show ?thesis
        using False walk_query [OF assms(1) es pos refl, of f 0]
        by (simp add: query_events_def open_store_file_def no_faults_def)
    qed
  qed
  have out: "list_all valid_event xs \<Longrightarrow> export_lines c xs acc = Ok (acc @ lines_of c xs)" for xs acc
    by (induction xs arbitrary: acc) (simp_all add: serialize_line_def codec_okD [OF assms(1)])
  have "list_all valid_event (take ?l (filter (matches_filter f) es))"
    using es by (auto simp: list_all_iff dest: in_set_takeD)
  then show ?thesis using q out [of _ "[]"] by (simp add: export_jsonl_def)
qed

lemma query_exact_witness:
  "query_events sample_codec no_faults \<lparr>f_actor = None, f_project = None, f_action = None, f_decision_allow = None,
     f_credential = None, f_correlation_id = None, f_limit = Some 3\<rparr> None = Ok []"
  using query_exact [OF sample_codec_ok, of None "[]"] by (simp add: holds_log_def file_bytes_def)

end
