(* ===== verification/Broker_Wiring.thy ===== *)
theory Broker_Wiring
  imports Broker_Properties Audit_Log Session_Properties
begin

text \<open>
  The engine assembled from the components of the workspace, as \<open>BrokerEngine::new\<close> does from its
  dependencies: the rule engine, the in-memory session store and credential source, and the JSONL audit
  store.  The world of the pipeline is the state of these stores, the clocks, and the state \<open>'x\<close> of the
  network.  The locale \<open>session_authority\<close> is what the pipeline relies on in a session store.
\<close>

section \<open>The assembled broker\<close>

record 'x wired_world =
  ww_sessions :: in_memory_state
  ww_clock :: u64
  ww_instant :: nat
  ww_credentials :: credential_source
  ww_audit :: "string option"
  ww_net :: 'x

record ('x, 'u) wiring =
  wi_engine :: rule_engine
  wi_sha :: "string \<Rightarrow> string"
  wi_codec :: codec
  wi_io :: io_faults
  wi_event_hex :: "'x wired_world \<Rightarrow> (string, audit_error) result"
  wi_send :: "'u outbound_request \<Rightarrow> 'x \<Rightarrow> (executed_response, broker_error) result \<times> 'x"
  wi_project :: project_id
  wi_allow_private :: bool
  wi_request_hex :: "'x wired_world \<Rightarrow> (string, broker_error) result"
  wi_correlation_hex :: "'x wired_world \<Rightarrow> (string, audit_error) result"
  wi_url :: "'u url_api"
  wi_base64 :: "string \<Rightarrow> string"
  wi_to_vec :: "json \<Rightarrow> string option"

definition wired_deps :: "('x, 'u) wiring \<Rightarrow> ('x wired_world, 'u) broker_deps" where
  "wired_deps k =
     \<lparr>dep_authorize = authorize (wi_engine k),
      dep_validate = (\<lambda>tok w. (validate (wi_sha k) (ww_sessions w) (ww_clock w) tok, w)),
      dep_consume = (\<lambda>tok w.
        case consume_budget (wi_sha k) (ww_sessions w) (ww_clock w) tok of (r, s) \<Rightarrow>
          (and_then r (\<lambda>_. Ok ()), w\<lparr>ww_sessions := s\<rparr>)),
      dep_template = (\<lambda>cred env w. template_for (ww_credentials w) cred),
      dep_metadata = (\<lambda>cred w. metadata_for (ww_credentials w) cred),
      dep_resolve = (\<lambda>cred env w. resolve (ww_credentials w) cred),
      dep_send = (\<lambda>ob w. case wi_send k ob (ww_net w) of (r, x) \<Rightarrow> (r, w\<lparr>ww_net := x\<rparr>)),
      dep_append = (\<lambda>e w.
        case append_event (wi_codec k) (wi_io k) (wi_event_hex k w) e (ww_audit w) of (r, f) \<Rightarrow>
          (r, w\<lparr>ww_audit := f\<rparr>)),
      dep_project = wi_project k, dep_guard = \<lparr>allow_private = wi_allow_private k\<rparr>,
      dep_now = ww_instant, dep_hash_token = wi_sha k,
      dep_request_hex = wi_request_hex k, dep_correlation_hex = wi_correlation_hex k,
      dep_url = wi_url k, dep_base64 = wi_base64 k, dep_to_vec = wi_to_vec k\<rparr>"

definition dead_in :: "('x, 'u) wiring \<Rightarrow> 'x wired_world \<Rightarrow> string \<Rightarrow> bool" where
  "dead_in k w tok \<longleftrightarrow> is_err (validate (wi_sha k) (ww_sessions w) (ww_clock w) tok)"

section \<open>A sample broker\<close>

definition sample_wiring :: "(unit, string) wiring" where
  "sample_wiring =
     \<lparr>wi_engine = \<lparr>policies = [sample_doc\<lparr>doc_http := \<lparr>hosts = [''api.example.com''],
        allow_rules = [\<lparr>methods = [GET, POST], paths = [''/**'']\<rparr>], deny_rules = [\<lparr>methods = [GET], paths = [''/v1'']\<rparr>]\<rparr>\<rparr>]\<rparr>,
      wi_sha = (\<lambda>t. t), wi_codec = sample_codec, wi_io = no_faults, wi_event_hex = (\<lambda>_. Ok sample_hex),
      wi_send = (\<lambda>_ x. (Ok \<lparr>ex_status = 200, ex_headers = [], ex_body = ''ok''\<rparr>, x)), wi_project = ''proj_core'',
      wi_allow_private = False, wi_request_hex = (\<lambda>_. Err (Entropy ''none'')),
      wi_correlation_hex = (\<lambda>_. Err (AuditEntropy ''none'')), wi_url = sample_url_api, wi_base64 = (\<lambda>s. s),
      wi_to_vec = (\<lambda>_. None)\<rparr>"

definition sample_world :: "in_memory_state \<Rightarrow> (unit wired_world, string) engine_state" where
  "sample_world store =
     \<lparr>replay = empty_replay,
      world = \<lparr>ww_sessions = store, ww_clock = 104, ww_instant = 7, ww_credentials = bt_empty,
               ww_audit = None, ww_net = ()\<rparr>,
      effects = []\<rparr>"

definition leaf_request :: "u16 \<Rightarrow> broker_request" where
  "leaf_request version =
     \<lparr>protocol = version, session_token = ''leaf'', credential = ''github'', method = GET,
      url = ''https://api.example.com/v1'', req_headers = [], body = NoBody, capability_hint = None, request_id = None\<rparr>"

section \<open>What the pipeline relies on in a session store\<close>

locale session_authority =
  fixes deps :: "('w, 'u) broker_deps"
    and dead :: "'w \<Rightarrow> string \<Rightarrow> bool"
  assumes dead_refused: "dead w tok \<Longrightarrow> \<exists>e w'. dep_validate deps tok w = (Err e, w')"
begin

lemma dead_never_sends:
  assumes "dead (world st) (session_token req)" "execute_pipeline deps req st = (out, st')"
    and "effects st' = effects st @ new"
  shows "Sent ob r \<notin> set new"
  using assms(2)
proof (cases rule: execute_pipeline_cases)
  case (stuck new')
  then show ?thesis using assms(3) quiet_not_sent(1) [OF stuck(2)] by simp
next
  case (refused new' c reason policy s)
  then show ?thesis using deny_result [OF refused(4)] assms(3) quiet_not_sent(1) [OF refused(2)] by auto
next
  case (sent rcd actor u authz policy ob' r' s c)
  then show ?thesis using dead_refused [OF assms(1)] by auto
qed

end

lemma wired_dead_refused:
  "dead_in k w tok \<Longrightarrow> \<exists>e w'. dep_validate (wired_deps k) tok w = (Err e, w')"
  by (cases "validate (wi_sha k) (ww_sessions w) (ww_clock w) tok") (simp_all add: wired_deps_def dead_in_def)

interpretation wired: session_authority "wired_deps k" "dead_in k" for k
  by unfold_locales (rule wired_dead_refused)

section \<open>Lemmas: the events of the engine are valid\<close>

lemma parse_correlation_id_id: "parse_correlation_id v = Ok x \<Longrightarrow> x = v"
  by (auto simp: parse_correlation_id_def Let_def split: if_splits)

lemma parse_capability_name_id: "parse_capability_name v = Ok x \<Longrightarrow> x = v"
  by (auto simp: parse_capability_name_def Let_def split: if_splits)

lemma parse_principal_id: "parse_principal v = Ok x \<Longrightarrow> x = v"
  by (auto simp: parse_principal_def Let_def split: if_splits option.splits)

lemma is_ok_parsed: "f v = Ok x \<Longrightarrow> (\<And>w y. f w = Ok y \<Longrightarrow> y = w) \<Longrightarrow> is_ok (f x)"
  by (metis is_ok.simps(1))

lemma bootstrap_valid:
  assumes "bootstrap deps req w = Some (rid, corr, cap)"
  shows "is_ok (parse_correlation_id corr) \<and> opt_all (\<lambda>v. is_ok (parse_capability_name v)) cap"
proof
  obtain x where "parse_correlation_id x = Ok corr"
    using assms
    by (cases "dep_correlation_hex deps w")
       (auto simp: bootstrap_def Let_def generate_correlation_id_def split: result.splits)
  then show "is_ok (parse_correlation_id corr)" by (rule is_ok_parsed) (rule parse_correlation_id_id)
  have "\<exists>h. parse_capability_name h = Ok v" if "cap = Some v" for v
    using assms that by (auto simp: bootstrap_def Let_def split: result.splits option.splits)
  then show "opt_all (\<lambda>v. is_ok (parse_capability_name v)) cap"
    using is_ok_parsed [OF _ parse_capability_name_id] by (cases cap) auto
qed

lemma unauthenticated_actor_valid: "is_ok (parse_principal (unauthenticated_actor req))"
proof -
  have "\<exists>v. parse_principal v = Ok (unauthenticated_actor req)"
    using static_actor_parses by (auto simp: unauthenticated_actor_def split: result.splits)
  then show ?thesis using is_ok_parsed [OF _ parse_principal_id] by blast
qed

lemma agent_principal_valid: "agent_principal ag = Ok p \<Longrightarrow> is_ok (parse_principal p)"
  unfolding agent_principal_def using is_ok_parsed [OF _ parse_principal_id] by blast

lemma summarize_valid: "opt_all valid_destination (summarize_destination api u)"
  by (auto simp: summarize_destination_def dest: new_destination_valid split: result.splits)

lemma insert_or_drop_valid: "valid_metadata m \<Longrightarrow> valid_metadata (insert_or_drop k v m)"
  by (auto simp: insert_or_drop_def dest: try_insert_valid split: result.splits)

lemma empty_metadata_valid: "valid_metadata bt_empty"
  by (simp add: valid_metadata_def bt_empty_def)

lemma floor_char_boundary_le: "floor_char_boundary s n \<le> n"
  by (induction n) (auto simp: le_SucI)

lemma bounded_reason_fits: "is_ok (validate_decision (AuDeny (bounded_reason reason)))"
  using floor_char_boundary_le [of reason MAX_DENY_REASON_BYTES] by (auto simp: bounded_reason_def)

lemma request_context_valid:
  assumes "request_context deps req st c" "is_ok (parse_prefixed_id ''proj_'' project)"
    and "is_ok (parse_plain_id 128 (broker_request.credential req))"
    and "\<forall>rcd. fst (dep_validate deps (session_token req) (world st)) = Ok rcd \<longrightarrow> is_ok (parse_prefixed_id ''env_'' (environment rcd))"
  shows "valid_new_event (deny_event project c reason policy)" "valid_new_event (allow_event project c executed name)"
proof -
  have "is_ok (parse_correlation_id (dc_correlation c))" "is_ok (parse_principal (dc_actor c))"
    "opt_all (\<lambda>v. is_ok (parse_prefixed_id ''env_'' v)) (dc_environment c)"
    "opt_all (\<lambda>v. is_ok (parse_plain_id 128 v)) (dc_credential c)"
    "opt_all valid_destination (dc_destination c)" "opt_all (\<lambda>v. is_ok (parse_capability_name v)) (dc_capability c)"
    using assms(1,3,4)
    by (auto simp: request_context_def initial_context_def unauthenticated_actor_valid summarize_valid
        dest: bootstrap_valid agent_principal_valid)
  then show "valid_new_event (deny_event project c reason policy)" "valid_new_event (allow_event project c executed name)"
    using assms(2)
    by (auto simp: deny_event_def allow_event_def valid_new_event_def Let_def insert_or_drop_valid empty_metadata_valid
        split: option.splits)
qed

lemma request_context_credential: "request_context deps req st c \<Longrightarrow> dc_credential c = Some (broker_request.credential req)"
  by (auto simp: request_context_def initial_context_def)

section \<open>Lemmas: what a sent request went through, and what is written\<close>

lemma sent_cases:
  assumes "execute_pipeline deps req st = (out, st')" "effects st' = effects st @ new" "Sent ob r \<in> set new"
  obtains rcd actor u policy where
    "fst (dep_validate deps (session_token req) (world st)) = Ok rcd" "agent_principal (agent rcd) = Ok actor"
    "canonical_parse (dep_url deps) (url req) = Ok u" "within_delegation deps req rcd u"
    "dep_authorize deps (build_authorization_request deps req actor u (Some (environment rcd))) = Allow policy"
  using assms(1)
proof (cases rule: execute_pipeline_cases)
  case (stuck new')
  then show ?thesis using assms(2,3) quiet_not_sent(1) [OF stuck(2)] by simp
next
  case (refused new' c reason policy s)
  then show ?thesis using deny_result [OF refused(4)] assms(2,3) quiet_not_sent(1) [OF refused(2)] by auto
next
  case (sent rcd actor u authz policy ob' r' s c)
  then show ?thesis using that [of rcd actor u policy] by simp
qed

lemma wired_validate [simp]:
  "dep_validate (wired_deps k) tok w = (validate (wi_sha k) (ww_sessions w) (ww_clock w) tok, w)"
  by (simp add: wired_deps_def)

lemma wired_authorize [simp]: "dep_authorize (wired_deps k) = authorize (wi_engine k)"
  by (simp add: wired_deps_def)

lemma wired_url [simp]: "dep_url (wired_deps k) = wi_url k"
  by (simp add: wired_deps_def)

lemma wired_world_steps:
  "world_steps (wired_deps k) w w' \<Longrightarrow> ww_audit w' = ww_audit w"
  by (induction rule: world_steps.induct) (auto simp: wired_deps_def split: prod.splits)

text \<open>How a request ends: one append, and the answer says whether it was acknowledged.\<close>

lemma deny_append:
  assumes "deny deps c reason policy s = (Returned resp, st')"
  shows "\<exists>res. dep_append deps (deny_event (dep_project deps) c reason policy) (world s) = (res, world st')
     \<and> resp = (if is_ok res then denied (dc_request_id c) reason policy else audit_write_failed_response (dc_request_id c))"
  using assms by (auto simp: deny_def call_append_def split: prod.splits bool.splits)

lemma deliver_append:
  assumes "deliver deps c executed policy s = (Returned resp, st')"
  shows "\<exists>res. dep_append deps (allow_event (dep_project deps) c executed policy) (world s) = (res, world st')
     \<and> resp = (if is_ok res then sanitized_response (dc_request_id c) executed else audit_write_failed_response (dc_request_id c))"
  using assms by (auto simp: deliver_def call_append_def split: prod.splits bool.splits)

lemma answered_append:
  assumes "execute_pipeline deps req st = (Returned resp, st')"
  obtains c w e res good where "request_context deps req st c" "world_steps deps (world st) w"
    "dep_append deps e w = (res, world st')"
    "resp = (if is_ok res then good else audit_write_failed_response (dc_request_id c))"
    "(\<exists>reason policy. e = deny_event (dep_project deps) c reason policy \<and> good = denied (dc_request_id c) reason policy)
     \<or> (\<exists>executed policy. e = allow_event (dep_project deps) c executed policy
          \<and> good = sanitized_response (dc_request_id c) executed)"
  using assms
proof (cases rule: execute_pipeline_cases)
  case (stuck new)
  then show ?thesis by simp
next
  case (refused new c reason policy s)
  then show ?thesis using deny_append [OF refused(4)] that [of c "world s"] unfolding replay_step_def by blast
next
  case (sent rcd actor u authz policy ob r s c)
  have ws: "world_steps deps (world st) (world s)" using sent(10) by (simp add: replay_step_def)
  from sent(9) consider reason pol where "deny deps c reason pol s = (Returned resp, st')"
    | executed where "deliver deps c executed policy s = (Returned resp, st')"
    by (auto simp: finished_def)
  then show ?thesis
  proof cases
    case (1 reason pol)
    then show ?thesis using deny_append [OF 1] that [OF sent(13) ws] by blast
  next
    case (2 executed)
    then show ?thesis using deliver_append [OF 2] that [OF sent(13) ws] by blast
  qed
qed

end
