(* ===== verification/Manifest.thy ===== *)
theory Manifest
  imports Ids Ordered_Map
begin

text \<open>
  \<open>manifest.rs\<close> of the crate \<open>vaultx-repository\<close>: what a commit captures.  A manifest maps variable names to
  entries and policy names to the object of the policy document; both maps are \<open>BTreeMap\<close>s.
\<close>

section \<open>Data\<close>

type_synonym dynamic_provider_ref = string

definition PROVIDER_MAX_LEN :: nat where
  "PROVIDER_MAX_LEN = 128"

definition is_provider_char :: "char \<Rightarrow> bool" where
  "is_provider_char c \<longleftrightarrow> is_ascii_lowercase c \<or> is_ascii_digit c \<or> c = CHR ''.'' \<or> c = CHR ''-'' \<or> c = CHR ''/'' \<or> c = CHR ''_''"

definition parse_provider_ref :: "string \<Rightarrow> (dynamic_provider_ref, type_error) result" where
  "parse_provider_ref v =
     (if v = [] then Err Empty
      else if \<not> list_all is_provider_char v then Err InvalidCharacters
      else if PROVIDER_MAX_LEN < char_count v then Err (TooLong PROVIDER_MAX_LEN)
      else Ok v)"

datatype manifest_entry =
    ConfigEntry object_id
  | SecretEntry secret_revision_id
  | BrokeredEntry credential_ref secret_revision_id
  | DynamicEntry dynamic_provider_ref

fun entry_kind :: "manifest_entry \<Rightarrow> variable_kind" where
  "entry_kind (ConfigEntry _) = Config"
| "entry_kind (SecretEntry _) = Secret"
| "entry_kind (BrokeredEntry _ _) = Brokered"
| "entry_kind (DynamicEntry _) = Dynamic"

record manifest =
  man_entries :: "(variable_name, manifest_entry) bt_map"
  man_policies :: "(policy_name, object_id) bt_map"

definition new_manifest :: manifest where
  "new_manifest = \<lparr>man_entries = bt_empty, man_policies = bt_empty\<rparr>"

section \<open>Operations\<close>

text \<open>The setters return the binding they replace, as \<open>BTreeMap::insert\<close> does.\<close>

definition set_entry :: "variable_name \<Rightarrow> manifest_entry \<Rightarrow> manifest \<Rightarrow> manifest_entry option \<times> manifest" where
  "set_entry name e m = (bt_get (man_entries m) name, m\<lparr>man_entries := bt_insert name e (man_entries m)\<rparr>)"

definition set_config :: "variable_name \<Rightarrow> object_id \<Rightarrow> manifest \<Rightarrow> manifest_entry option \<times> manifest" where
  "set_config name obj = set_entry name (ConfigEntry obj)"

definition set_secret :: "variable_name \<Rightarrow> secret_revision_id \<Rightarrow> manifest \<Rightarrow> manifest_entry option \<times> manifest" where
  "set_secret name r = set_entry name (SecretEntry r)"

definition set_brokered ::
  "variable_name \<Rightarrow> credential_ref \<Rightarrow> secret_revision_id \<Rightarrow> manifest \<Rightarrow> manifest_entry option \<times> manifest" where
  "set_brokered name cred r = set_entry name (BrokeredEntry cred r)"

definition set_dynamic :: "variable_name \<Rightarrow> dynamic_provider_ref \<Rightarrow> manifest \<Rightarrow> manifest_entry option \<times> manifest" where
  "set_dynamic name provider = set_entry name (DynamicEntry provider)"

definition remove_entry :: "variable_name \<Rightarrow> manifest \<Rightarrow> manifest_entry option \<times> manifest" where
  "remove_entry name m = (bt_get (man_entries m) name, m\<lparr>man_entries := bt_remove name (man_entries m)\<rparr>)"

definition get_entry :: "manifest \<Rightarrow> variable_name \<Rightarrow> manifest_entry option" where
  "get_entry m name = bt_get (man_entries m) name"

definition set_policy :: "policy_name \<Rightarrow> object_id \<Rightarrow> manifest \<Rightarrow> object_id option \<times> manifest" where
  "set_policy name obj m = (bt_get (man_policies m) name, m\<lparr>man_policies := bt_insert name obj (man_policies m)\<rparr>)"

definition remove_policy :: "policy_name \<Rightarrow> manifest \<Rightarrow> object_id option \<times> manifest" where
  "remove_policy name m = (bt_get (man_policies m) name, m\<lparr>man_policies := bt_remove name (man_policies m)\<rparr>)"

section \<open>Well-formed manifests\<close>

definition manifest_inv :: "manifest \<Rightarrow> bool" where
  "manifest_inv m \<longleftrightarrow> bt_inv (man_entries m) \<and> bt_inv (man_policies m)"

abbreviation get_policy :: "manifest \<Rightarrow> policy_name \<Rightarrow> object_id option" where
  "get_policy m \<equiv> bt_get (man_policies m)"

text \<open>Every identifier in the manifest came out of its parser.\<close>

fun valid_entry :: "manifest_entry \<Rightarrow> bool" where
  "valid_entry (ConfigEntry obj) = is_ok (parse_object_id obj)"
| "valid_entry (SecretEntry r) = is_ok (parse_prefixed_id ''sec_rev_'' r)"
| "valid_entry (BrokeredEntry cred r) =
     (is_ok (parse_plain_id 128 cred) \<and> is_ok (parse_prefixed_id ''sec_rev_'' r))"
| "valid_entry (DynamicEntry provider) = is_ok (parse_provider_ref provider)"

definition valid_manifest :: "manifest \<Rightarrow> bool" where
  "valid_manifest m \<longleftrightarrow> manifest_inv m
     \<and> list_all (\<lambda>(n, e). is_ok (parse_variable_name n) \<and> valid_entry e) (man_entries m)
     \<and> list_all (\<lambda>(n, obj). is_ok (parse_policy_name n) \<and> is_ok (parse_object_id obj)) (man_policies m)"

section \<open>Lemmas\<close>

lemma manifest_ext:
  assumes "manifest_inv m" "manifest_inv n"
    and "\<And>x. get_entry m x = get_entry n x" "\<And>x. get_policy m x = get_policy n x"
  shows "m = n"
proof (rule manifest.equality)
  show "man_entries m = man_entries n"
    using assms(1-3) by (intro btm.ext_eq) (auto simp: manifest_inv_def get_entry_def)
  show "man_policies m = man_policies n"
    using assms(1,2,4) by (intro btm.ext_eq) (auto simp: manifest_inv_def)
qed simp

lemma new_manifest_simps [simp]:
  "manifest_inv new_manifest" "get_entry new_manifest x = None" "get_policy new_manifest x = None" "valid_manifest new_manifest"
  by (simp_all add: new_manifest_def manifest_inv_def get_entry_def valid_manifest_def bt_empty_def)

lemma manifest_inv_updates:
  "manifest_inv m \<Longrightarrow> manifest_inv (m\<lparr>man_entries := bt_insert n e (man_entries m)\<rparr>)"
  "manifest_inv m \<Longrightarrow> manifest_inv (m\<lparr>man_entries := bt_remove n (man_entries m)\<rparr>)"
  "manifest_inv m \<Longrightarrow> manifest_inv (m\<lparr>man_policies := bt_insert n p (man_policies m)\<rparr>)"
  "manifest_inv m \<Longrightarrow> manifest_inv (m\<lparr>man_policies := bt_remove n (man_policies m)\<rparr>)"
  by (simp_all add: manifest_inv_def)

end
