(* ===== verification/Manifest_Diff.thy ===== *)
theory Manifest_Diff
  imports Manifest "HOL-Library.Product_Lexorder" "HOL-Library.Multiset"
begin

text \<open>
  \<open>diff.rs\<close>: the classified differences between two manifests and their rendering.  The reference is the
  pointwise comparison of the two manifests: \<open>changed_names\<close>, and \<open>apply_entry\<close>, which replays one
  difference.
\<close>

section \<open>Data\<close>

record brokered_binding =
  bb_credential :: credential_ref
  bb_revision :: secret_revision_id

datatype diff_entry =
    ConfigAdded variable_name object_id
  | ConfigRemoved variable_name
  | ConfigChanged variable_name object_id object_id
  | SecretAdded variable_name secret_revision_id
  | SecretRemoved variable_name secret_revision_id
  | SecretRevisionChanged variable_name secret_revision_id secret_revision_id
  | CredentialAdded variable_name brokered_binding
  | CredentialRemoved variable_name brokered_binding
  | CredentialBindingChanged variable_name brokered_binding brokered_binding
  | DynamicAdded variable_name dynamic_provider_ref
  | DynamicRemoved variable_name dynamic_provider_ref
  | DynamicProviderChanged variable_name dynamic_provider_ref dynamic_provider_ref
  | VariableKindChanged variable_name variable_kind variable_kind
  | PolicyAdded policy_name object_id
  | PolicyRemoved policy_name object_id
  | PolicyChanged policy_name object_id object_id

section \<open>Rendering\<close>

fun subject :: "diff_entry \<Rightarrow> string" where
  "subject (ConfigAdded name _) = name"
| "subject (ConfigRemoved name) = name"
| "subject (ConfigChanged name _ _) = name"
| "subject (SecretAdded name _) = name"
| "subject (SecretRemoved name _) = name"
| "subject (SecretRevisionChanged name _ _) = name"
| "subject (CredentialAdded name _) = name"
| "subject (CredentialRemoved name _) = name"
| "subject (CredentialBindingChanged name _ _) = name"
| "subject (DynamicAdded name _) = name"
| "subject (DynamicRemoved name _) = name"
| "subject (DynamicProviderChanged name _ _) = name"
| "subject (VariableKindChanged name _ _) = name"
| "subject (PolicyAdded name _) = name"
| "subject (PolicyRemoved name _) = name"
| "subject (PolicyChanged name _ _) = name"

fun marker :: "diff_entry \<Rightarrow> char" where
  "marker (ConfigAdded _ _) = CHR ''+''"
| "marker (SecretAdded _ _) = CHR ''+''"
| "marker (CredentialAdded _ _) = CHR ''+''"
| "marker (DynamicAdded _ _) = CHR ''+''"
| "marker (PolicyAdded _ _) = CHR ''+''"
| "marker (ConfigRemoved _) = CHR ''-''"
| "marker (SecretRemoved _ _) = CHR ''-''"
| "marker (CredentialRemoved _ _) = CHR ''-''"
| "marker (DynamicRemoved _ _) = CHR ''-''"
| "marker (PolicyRemoved _ _) = CHR ''-''"
| "marker _ = CHR 0x7E"

text \<open>The derived \<open>Debug\<close> of a kind is the name of its variant.\<close>

fun kind_debug :: "variable_kind \<Rightarrow> string" where
  "kind_debug Config = ''Config''"
| "kind_debug Secret = ''Secret''"
| "kind_debug Brokered = ''Brokered''"
| "kind_debug Dynamic = ''Dynamic''"

definition show_binding :: "brokered_binding \<Rightarrow> string" where
  "show_binding b = bb_credential b @ ''@'' @ bb_revision b"

fun describe :: "diff_entry \<Rightarrow> string" where
  "describe (ConfigAdded name v) = ''config '' @ name @ '' = '' @ v"
| "describe (ConfigRemoved name) = ''config '' @ name"
| "describe (ConfigChanged name old new) = ''config '' @ name @ '' : '' @ old @ '' -> '' @ new"
| "describe (SecretAdded name r) = ''secret '' @ name @ '' @ '' @ r"
| "describe (SecretRemoved name r) = ''secret '' @ name @ '' (was @ '' @ r @ '')''"
| "describe (SecretRevisionChanged name old new) = ''secret '' @ name @ '' : '' @ old @ '' -> '' @ new"
| "describe (CredentialAdded name b) = ''brokered '' @ name @ '' = '' @ show_binding b"
| "describe (CredentialRemoved name b) = ''brokered '' @ name @ '' (was '' @ show_binding b @ '')''"
| "describe (CredentialBindingChanged name old new) =
     ''brokered '' @ name @ '' : '' @ show_binding old @ '' -> '' @ show_binding new"
| "describe (DynamicAdded name p) = ''dynamic '' @ name @ '' via '' @ p"
| "describe (DynamicRemoved name p) = ''dynamic '' @ name @ '' (was via '' @ p @ '')''"
| "describe (DynamicProviderChanged name old new) = ''dynamic '' @ name @ '' : '' @ old @ '' -> '' @ new"
| "describe (VariableKindChanged name old new) =
     ''kind '' @ name @ '' : '' @ kind_debug old @ '' -> '' @ kind_debug new"
| "describe (PolicyAdded name obj) = ''policy '' @ name @ '' = '' @ obj"
| "describe (PolicyRemoved name obj) = ''policy '' @ name @ '' (was '' @ obj @ '')''"
| "describe (PolicyChanged name old new) = ''policy '' @ name @ '' : '' @ old @ '' -> '' @ new"

definition show_diff_entry :: "diff_entry \<Rightarrow> string" where
  "show_diff_entry e = [marker e] @ '' '' @ describe e"

definition render_diff :: "diff_entry list \<Rightarrow> string" where
  "render_diff diff = join_with [newline] (map snd (sort (map (\<lambda>e. (subject e, show_diff_entry e)) diff)))"

section \<open>Classification\<close>

fun classify_addition :: "variable_name \<Rightarrow> manifest_entry \<Rightarrow> diff_entry list" where
  "classify_addition name (ConfigEntry obj) = [ConfigAdded name obj]"
| "classify_addition name (SecretEntry r) = [SecretAdded name r]"
| "classify_addition name (BrokeredEntry cred r) = [CredentialAdded name \<lparr>bb_credential = cred, bb_revision = r\<rparr>]"
| "classify_addition name (DynamicEntry p) = [DynamicAdded name p]"

fun classify_removal :: "variable_name \<Rightarrow> manifest_entry \<Rightarrow> diff_entry list" where
  "classify_removal name (ConfigEntry obj) = [ConfigRemoved name]"
| "classify_removal name (SecretEntry r) = [SecretRemoved name r]"
| "classify_removal name (BrokeredEntry cred r) = [CredentialRemoved name \<lparr>bb_credential = cred, bb_revision = r\<rparr>]"
| "classify_removal name (DynamicEntry p) = [DynamicRemoved name p]"

definition classify_change :: "variable_name \<Rightarrow> manifest_entry \<Rightarrow> manifest_entry \<Rightarrow> diff_entry list" where
  "classify_change name old_entry new_entry =
     (if entry_kind old_entry \<noteq> entry_kind new_entry
      then [VariableKindChanged name (entry_kind old_entry) (entry_kind new_entry)]
      else (case (old_entry, new_entry) of
          (ConfigEntry old, ConfigEntry new) \<Rightarrow> if old \<noteq> new then [ConfigChanged name old new] else []
        | (SecretEntry old, SecretEntry new) \<Rightarrow> if old \<noteq> new then [SecretRevisionChanged name old new] else []
        | (BrokeredEntry c1 r1, BrokeredEntry c2 r2) \<Rightarrow>
            if c1 \<noteq> c2 \<or> r1 \<noteq> r2
            then [CredentialBindingChanged name \<lparr>bb_credential = c1, bb_revision = r1\<rparr>
                    \<lparr>bb_credential = c2, bb_revision = r2\<rparr>]
            else []
        | (DynamicEntry old, DynamicEntry new) \<Rightarrow> if old \<noteq> new then [DynamicProviderChanged name old new] else []
        | _ \<Rightarrow> []))"

definition diff_variable :: "manifest \<Rightarrow> manifest \<Rightarrow> variable_name \<Rightarrow> diff_entry list" where
  "diff_variable old new name =
     (case (get_entry old name, get_entry new name) of
        (Some old_entry, Some new_entry) \<Rightarrow> classify_change name old_entry new_entry
      | (None, Some entry) \<Rightarrow> classify_addition name entry
      | (Some entry, None) \<Rightarrow> classify_removal name entry
      | (None, None) \<Rightarrow> [])"

definition diff_policy :: "manifest \<Rightarrow> manifest \<Rightarrow> policy_name \<Rightarrow> diff_entry list" where
  "diff_policy old new name =
     (case (get_policy old name, get_policy new name) of
        (Some old_obj, Some new_obj) \<Rightarrow> if old_obj \<noteq> new_obj then [PolicyChanged name old_obj new_obj] else []
      | (None, Some obj) \<Rightarrow> [PolicyAdded name obj]
      | (Some obj, None) \<Rightarrow> [PolicyRemoved name obj]
      | (None, None) \<Rightarrow> [])"

definition compute_diff :: "manifest \<Rightarrow> manifest \<Rightarrow> diff_entry list" where
  "compute_diff old new =
     concat (map (diff_variable old new) (btset_of (bt_keys (man_entries old) @ bt_keys (man_entries new))))
     @ concat (map (diff_policy old new) (btset_of (bt_keys (man_policies old) @ bt_keys (man_policies new))))"

section \<open>Reference definitions\<close>

text \<open>Replaying one difference on the older manifest.  A kind change does not say what the new entry is.\<close>

fun apply_entry :: "diff_entry \<Rightarrow> manifest \<Rightarrow> manifest" where
  "apply_entry (ConfigAdded n v) m = snd (set_config n v m)"
| "apply_entry (ConfigRemoved n) m = snd (remove_entry n m)"
| "apply_entry (ConfigChanged n _ v) m = snd (set_config n v m)"
| "apply_entry (SecretAdded n r) m = snd (set_secret n r m)"
| "apply_entry (SecretRemoved n _) m = snd (remove_entry n m)"
| "apply_entry (SecretRevisionChanged n _ r) m = snd (set_secret n r m)"
| "apply_entry (CredentialAdded n b) m = snd (set_brokered n (bb_credential b) (bb_revision b) m)"
| "apply_entry (CredentialRemoved n _) m = snd (remove_entry n m)"
| "apply_entry (CredentialBindingChanged n _ b) m = snd (set_brokered n (bb_credential b) (bb_revision b) m)"
| "apply_entry (DynamicAdded n p) m = snd (set_dynamic n p m)"
| "apply_entry (DynamicRemoved n _) m = snd (remove_entry n m)"
| "apply_entry (DynamicProviderChanged n _ p) m = snd (set_dynamic n p m)"
| "apply_entry (VariableKindChanged _ _ _) m = m"
| "apply_entry (PolicyAdded n obj) m = snd (set_policy n obj m)"
| "apply_entry (PolicyRemoved n _) m = snd (remove_policy n m)"
| "apply_entry (PolicyChanged n _ obj) m = snd (set_policy n obj m)"

definition apply_diff :: "diff_entry list \<Rightarrow> manifest \<Rightarrow> manifest" where
  "apply_diff diff m = fold apply_entry diff m"

fun is_policy_change :: "diff_entry \<Rightarrow> bool" where
  "is_policy_change (PolicyAdded _ _) = True"
| "is_policy_change (PolicyRemoved _ _) = True"
| "is_policy_change (PolicyChanged _ _ _) = True"
| "is_policy_change _ = False"

definition same_kinds :: "manifest \<Rightarrow> manifest \<Rightarrow> bool" where
  "same_kinds old new \<longleftrightarrow>
     (\<forall>n e f. get_entry old n = Some e \<and> get_entry new n = Some f \<longrightarrow> entry_kind e = entry_kind f)"

section \<open>Lemmas\<close>

lemma classify_change_subject: "d \<in> set (classify_change n e f) \<Longrightarrow> subject d = n \<and> \<not> is_policy_change d"
  by (auto simp: classify_change_def split: if_splits manifest_entry.splits)

lemma classify_change_Nil_iff: "classify_change n e f = [] \<longleftrightarrow> e = f"
  by (cases e; cases f) (auto simp: classify_change_def)

lemma classify_change_length: "length (classify_change n e f) \<le> 1"
  by (cases e; cases f) (auto simp: classify_change_def)

lemma diff_variable_entries:
  "d \<in> set (diff_variable old new n) \<Longrightarrow> subject d = n \<and> \<not> is_policy_change d"
  by (cases "get_entry old n"; cases "get_entry new n"; cases "the (get_entry old n)"; cases "the (get_entry new n)")
     (auto simp: diff_variable_def dest: classify_change_subject)

lemma diff_variable_length: "length (diff_variable old new n) = (if get_entry old n = get_entry new n then 0 else 1)"
proof (cases "get_entry old n"; cases "get_entry new n")
  fix e f assume "get_entry old n = Some e" "get_entry new n = Some f"
  then show ?thesis
    using classify_change_Nil_iff [of n e f] classify_change_length [of n e f]
    by (auto simp: diff_variable_def le_Suc_eq)
next
  fix f assume "get_entry old n = None" "get_entry new n = Some f"
  then show ?thesis by (cases f) (simp_all add: diff_variable_def)
next
  fix e assume "get_entry old n = Some e" "get_entry new n = None"
  then show ?thesis by (cases e) (simp_all add: diff_variable_def)
qed (simp add: diff_variable_def)

lemma diff_policy_entries: "d \<in> set (diff_policy old new n) \<Longrightarrow> subject d = n \<and> is_policy_change d"
  by (auto simp: diff_policy_def split: option.splits if_splits)

lemma diff_policy_length: "length (diff_policy old new n) = (if get_policy old n = get_policy new n then 0 else 1)"
  by (auto simp: diff_policy_def split: option.splits)

text \<open>Picking out of a per-name listing what belongs to one name.\<close>

lemma filter_concat_names:
  assumes "distinct ns" "\<And>m d. d \<in> set (f m) \<Longrightarrow> subject d = m \<and> P d"
  shows "filter (\<lambda>d. subject d = n \<and> P d) (concat (map f ns)) = (if n \<in> set ns then f n else [])"
  using assms(1)
proof (induction ns)
  case (Cons m ns)
  have "filter (\<lambda>d. subject d = n \<and> P d) (f m) = (if m = n then f n else [])"
    using assms(2) by (auto simp: filter_empty_conv intro: filter_True)
  then show ?case using Cons by auto
qed simp

lemma filter_concat_none: "(\<And>m d. d \<in> set (f m) \<Longrightarrow> \<not> P d) \<Longrightarrow> filter (\<lambda>d. Q d \<and> P d) (concat (map f ns)) = []"
  by (auto simp: filter_empty_conv)

lemma set_variable_names:
  "n \<in> set (btset_of (bt_keys (man_entries old) @ bt_keys (man_entries new)))
   \<longleftrightarrow> get_entry old n \<noteq> None \<or> get_entry new n \<noteq> None"
  by (auto simp: in_bt_keys_iff get_entry_def)

lemma set_policy_names:
  "n \<in> set (btset_of (bt_keys (man_policies old) @ bt_keys (man_policies new)))
   \<longleftrightarrow> get_policy old n \<noteq> None \<or> get_policy new n \<noteq> None"
  by (auto simp: in_bt_keys_iff)

lemma compute_diff_variable:
  "filter (\<lambda>d. subject d = n \<and> \<not> is_policy_change d) (compute_diff old new) = diff_variable old new n"
proof -
  have "filter (\<lambda>d. subject d = n \<and> \<not> is_policy_change d)
      (concat (map (diff_policy old new) (btset_of (bt_keys (man_policies old) @ bt_keys (man_policies new))))) = []"
    by (rule filter_concat_none) (simp add: diff_policy_entries)
  then show ?thesis
    using filter_concat_names [OF distinct_btset_of, of "diff_variable old new" "\<lambda>d. \<not> is_policy_change d" n
        "bt_keys (man_entries old) @ bt_keys (man_entries new)"] set_variable_names [of n old new]
    by (auto simp: compute_diff_def diff_variable_entries diff_variable_def)
qed

lemma compute_diff_policy:
  "filter (\<lambda>d. subject d = n \<and> is_policy_change d) (compute_diff old new) = diff_policy old new n"
proof -
  have "filter (\<lambda>d. subject d = n \<and> is_policy_change d)
      (concat (map (diff_variable old new) (btset_of (bt_keys (man_entries old) @ bt_keys (man_entries new))))) = []"
    by (rule filter_concat_none) (simp add: diff_variable_entries)
  then show ?thesis
    using filter_concat_names [OF distinct_btset_of, of "diff_policy old new" is_policy_change n
        "bt_keys (man_policies old) @ bt_keys (man_policies new)"] set_policy_names [of n old new]
    by (auto simp: compute_diff_def diff_policy_entries diff_policy_def)
qed

text \<open>Names with at most one entry each keep their order.\<close>

lemma sorted_concat_names:
  assumes "sorted_wrt (<) ns" "\<And>m d. d \<in> set (f m) \<Longrightarrow> subject d = m" "\<And>m. length (f m) \<le> 1"
  shows "sorted_wrt (<) (map subject (concat (map f ns)))"
  using assms(1)
proof (induction ns)
  case (Cons m ns)
  have "f m = [] \<or> (\<exists>d. f m = [d] \<and> subject d = m)"
    using assms(2) [of _ m] assms(3) [of m] by (cases "f m") auto
  then show ?case using Cons assms(2) by auto
qed simp

lemma filter_variable_part:
  "filter (\<lambda>d. \<not> is_policy_change d) (compute_diff old new)
     = concat (map (diff_variable old new) (btset_of (bt_keys (man_entries old) @ bt_keys (man_entries new))))" (is "?v = ?vs")
  "filter is_policy_change (compute_diff old new)
     = concat (map (diff_policy old new) (btset_of (bt_keys (man_policies old) @ bt_keys (man_policies new))))" (is "?p = ?ps")
proof -
  have "\<forall>d \<in> set ?vs. \<not> is_policy_change d" "\<forall>d \<in> set ?ps. is_policy_change d"
    using diff_variable_entries diff_policy_entries by fastforce+
  then have "filter (\<lambda>d. \<not> is_policy_change d) ?vs = ?vs" "filter is_policy_change ?vs = []"
    "filter (\<lambda>d. \<not> is_policy_change d) ?ps = []" "filter is_policy_change ?ps = ?ps"
    by (simp_all add: filter_empty_conv filter_id_conv)
  then show "?v = ?vs" "?p = ?ps" by (simp_all add: compute_diff_def)
qed

section \<open>Lemmas: replaying\<close>

lemma apply_diff_variable:
  assumes "manifest_inv m" "get_entry m n = get_entry old n" "same_kinds old new"
  shows "manifest_inv (fold apply_entry (diff_variable old new n) m)
     \<and> get_entry (fold apply_entry (diff_variable old new n) m) = (get_entry m)(n := get_entry new n)
     \<and> man_policies (fold apply_entry (diff_variable old new n) m) = man_policies m"
proof -
  have kinds: "get_entry old n = Some e \<Longrightarrow> get_entry new n = Some f \<Longrightarrow> entry_kind e = entry_kind f" for e f
    using assms(3) unfolding same_kinds_def by blast
  note ops = set_entry_def set_config_def set_secret_def set_brokered_def set_dynamic_def remove_entry_def
    get_entry_def manifest_inv_def btm.get_insert btm.get_remove fun_eq_iff
  show ?thesis
  proof (cases "get_entry old n"; cases "get_entry new n")
    fix e f assume ef: "get_entry old n = Some e" "get_entry new n = Some f"
    then show ?thesis
      using kinds [OF ef] assms(1,2)
      by (cases e; cases f) (auto simp: diff_variable_def classify_change_def ops)
  next
    fix f assume "get_entry old n = None" "get_entry new n = Some f"
    then show ?thesis using assms(1) by (cases f) (auto simp: diff_variable_def ops)
  next
    fix e assume "get_entry old n = Some e" "get_entry new n = None"
    then show ?thesis using assms(1) by (cases e) (auto simp: diff_variable_def ops)
  qed (use assms in \<open>auto simp: diff_variable_def fun_eq_iff\<close>)
qed

lemma apply_diff_variables:
  assumes "distinct ns" "manifest_inv m" "\<forall>n \<in> set ns. get_entry m n = get_entry old n" "same_kinds old new"
  shows "manifest_inv (apply_diff (concat (map (diff_variable old new) ns)) m)
     \<and> get_entry (apply_diff (concat (map (diff_variable old new) ns)) m)
         = (\<lambda>x. if x \<in> set ns then get_entry new x else get_entry m x)
     \<and> man_policies (apply_diff (concat (map (diff_variable old new) ns)) m) = man_policies m"
  using assms(1-3)
proof (induction ns arbitrary: m)
  case (Cons n ns)
  let ?m = "fold apply_entry (diff_variable old new n) m"
  have "manifest_inv ?m" and get: "get_entry ?m = (get_entry m)(n := get_entry new n)"
    and pol: "man_policies ?m = man_policies m"
    using apply_diff_variable [OF Cons.prems(2) _ assms(4)] Cons.prems(3) by simp_all
  moreover have "\<forall>x \<in> set ns. get_entry ?m x = get_entry old x" using Cons.prems get by auto
  ultimately show ?case
    using Cons.IH [of ?m] Cons.prems(1) by (auto simp: apply_diff_def fun_eq_iff)
qed (simp add: apply_diff_def)

lemma apply_diff_policies:
  assumes "distinct ns" "manifest_inv m" "\<forall>n \<in> set ns. get_policy m n = get_policy old n"
  shows "manifest_inv (apply_diff (concat (map (diff_policy old new) ns)) m)
     \<and> get_policy (apply_diff (concat (map (diff_policy old new) ns)) m)
         = (\<lambda>x. if x \<in> set ns then get_policy new x else get_policy m x)
     \<and> man_entries (apply_diff (concat (map (diff_policy old new) ns)) m) = man_entries m"
  using assms
proof (induction ns arbitrary: m)
  case (Cons n ns)
  let ?m = "fold apply_entry (diff_policy old new n) m"
  have step: "manifest_inv ?m" "get_policy ?m = (get_policy m)(n := get_policy new n)" "man_entries ?m = man_entries m"
    using Cons.prems(2,3)
    by (auto simp: diff_policy_def set_policy_def remove_policy_def manifest_inv_def btm.get_insert btm.get_remove
        fun_eq_iff split: option.splits)
  moreover have "\<forall>x \<in> set ns. get_policy ?m x = get_policy old x" using Cons.prems step(2) by auto
  ultimately show ?case
    using Cons.IH [of ?m] Cons.prems(1) by (auto simp: apply_diff_def fun_eq_iff)
qed (simp add: apply_diff_def)

section \<open>Properties\<close>

text \<open>
  The diff reports exactly what changed.  For every variable and every policy there is one entry when
  its binding differs between the manifests and none otherwise; the variables come first, in ascending
  order of their names, then the policies in ascending order.
\<close>

lemma compute_diff_exact:
  "(\<forall>n. length (filter (\<lambda>d. subject d = n \<and> \<not> is_policy_change d) (compute_diff old new))
          = (if get_entry old n = get_entry new n then 0 else 1))
   \<and> (\<forall>n. length (filter (\<lambda>d. subject d = n \<and> is_policy_change d) (compute_diff old new))
          = (if get_policy old n = get_policy new n then 0 else 1))
   \<and> compute_diff old new = filter (\<lambda>d. \<not> is_policy_change d) (compute_diff old new)
          @ filter is_policy_change (compute_diff old new)
   \<and> sorted_wrt (<) (map subject (filter (\<lambda>d. \<not> is_policy_change d) (compute_diff old new)))
   \<and> sorted_wrt (<) (map subject (filter is_policy_change (compute_diff old new)))"
proof (intro conjI allI)
  show "compute_diff old new = filter (\<lambda>d. \<not> is_policy_change d) (compute_diff old new)
          @ filter is_policy_change (compute_diff old new)"
    unfolding filter_variable_part by (simp add: compute_diff_def)
  show "sorted_wrt (<) (map subject (filter (\<lambda>d. \<not> is_policy_change d) (compute_diff old new)))"
    unfolding filter_variable_part
    by (rule sorted_concat_names [OF sorted_btset_of]) (simp_all add: diff_variable_entries diff_variable_length)
  show "sorted_wrt (<) (map subject (filter is_policy_change (compute_diff old new)))"
    unfolding filter_variable_part
    by (rule sorted_concat_names [OF sorted_btset_of]) (simp_all add: diff_policy_entries diff_policy_length)
qed (simp_all add: compute_diff_variable compute_diff_policy diff_variable_length diff_policy_length)

text \<open>
  Replaying the diff on the old manifest gives the new one, when no variable changed its kind; a kind
  change reports the two kinds only, so the new binding cannot be recovered from it.
\<close>

lemma diff_replay:
  assumes "manifest_inv old" "manifest_inv new" "same_kinds old new"
  shows "apply_diff (compute_diff old new) old = new"
proof (rule manifest_ext)
  let ?vs = "btset_of (bt_keys (man_entries old) @ bt_keys (man_entries new))"
  let ?ps = "btset_of (bt_keys (man_policies old) @ bt_keys (man_policies new))"
  define m where "m = apply_diff (concat (map (diff_variable old new) ?vs)) old"
  have split: "apply_diff (compute_diff old new) old = apply_diff (concat (map (diff_policy old new) ?ps)) m"
    by (simp add: compute_diff_def apply_diff_def m_def)
  have v: "manifest_inv m" "get_entry m = (\<lambda>x. if x \<in> set ?vs then get_entry new x else get_entry old x)"
    "man_policies m = man_policies old"
    unfolding m_def using apply_diff_variables [OF distinct_btset_of assms(1) _ assms(3)] by simp_all
  have p: "manifest_inv (apply_diff (compute_diff old new) old)"
    "get_policy (apply_diff (compute_diff old new) old) = (\<lambda>x. if x \<in> set ?ps then get_policy new x else get_policy old x)"
    "man_entries (apply_diff (compute_diff old new) old) = man_entries m"
    using apply_diff_policies [OF distinct_btset_of v(1), of "bt_keys (man_policies old) @ bt_keys (man_policies new)" old new] v(3)
    unfolding split by (simp_all cong: if_cong)
  show "manifest_inv (apply_diff (compute_diff old new) old)" by (rule p(1))
  show "get_entry (apply_diff (compute_diff old new) old) x = get_entry new x" for x
  proof -
    have "get_entry (apply_diff (compute_diff old new) old) x = get_entry m x" by (simp add: get_entry_def p(3))
    then show ?thesis using v(2) set_variable_names [of x old new] by auto
  qed
  show "get_policy (apply_diff (compute_diff old new) old) x = get_policy new x" for x
    using p(2) set_policy_names [of x old new] by simp
qed (rule assms)

definition sample_old :: manifest where
  "sample_old = \<lparr>man_entries = [(''DB_HOST'', ConfigEntry ''obj_a''), (''TOKEN'', SecretEntry ''sec_rev_1'')], man_policies = []\<rparr>"

definition sample_new :: manifest where
  "sample_new = \<lparr>man_entries = [(''DB_HOST'', ConfigEntry ''obj_b''), (''URL'', DynamicEntry ''aws.ssm'')],
     man_policies = [(''read_only'', ''obj_p'')]\<rparr>"

lemma diff_replay_witness: "apply_diff (compute_diff sample_old sample_new) sample_old = sample_new"
proof (rule diff_replay)
  show "manifest_inv sample_old" "manifest_inv sample_new" by code_simp+
  show "same_kinds sample_old sample_new"
    by (auto simp: same_kinds_def sample_old_def sample_new_def get_entry_def split: if_splits)
qed

text \<open>Rendering does not depend on the order of the entries.\<close>

lemma render_diff_order: "mset ds = mset es \<Longrightarrow> render_diff ds = render_diff es"
proof -
  assume "mset ds = mset es"
  then have "mset (map (\<lambda>e. (subject e, show_diff_entry e)) ds) = mset (map (\<lambda>e. (subject e, show_diff_entry e)) es)"
    by simp
  then have "sort (map (\<lambda>e. (subject e, show_diff_entry e)) ds) = sort (map (\<lambda>e. (subject e, show_diff_entry e)) es)"
    unfolding sorted_list_of_multiset_mset [symmetric] by (rule arg_cong)
  then show ?thesis by (simp add: render_diff_def)
qed

end
