(* ===== verification/Manifest_Merge.thy ===== *)
theory Manifest_Merge
  imports Manifest "HOL-Library.Product_Lexorder" "HOL-Library.Option_ord" "HOL-Library.Multiset"
begin

text \<open>
  \<open>merge.rs\<close>: the three-way merge of manifests.  The result of the merge is \<open>None\<close> when the
  \<open>expect\<close> on the chosen policy binding panics, \<open>Some (Err conflicts)\<close> with the sorted conflicts, or
  \<open>Some (Ok merged)\<close>.
\<close>

section \<open>Data\<close>

datatype merge_strategy = Ours | Theirs

fun picks_ours :: "merge_strategy \<Rightarrow> bool" where
  "picks_ours Ours = True"
| "picks_ours Theirs = False"

datatype conflict =
    ConfigConflict variable_name
  | SecretConflict variable_name "secret_revision_id option" "secret_revision_id option"
  | PolicyConflict policy_name

fun conflict_subject :: "conflict \<Rightarrow> string" where
  "conflict_subject (ConfigConflict name) = name"
| "conflict_subject (SecretConflict name _ _) = name"
| "conflict_subject (PolicyConflict name) = name"

text \<open>The derived \<open>Ord\<close>: the variants in the order of their declaration, then the fields.\<close>

fun conflict_key :: "conflict \<Rightarrow> nat \<times> string \<times> string option \<times> string option" where
  "conflict_key (ConfigConflict name) = (0, name, None, None)"
| "conflict_key (SecretConflict name a b) = (1, name, a, b)"
| "conflict_key (PolicyConflict name) = (2, name, None, None)"

lemma conflict_key_inj: "conflict_key c = conflict_key d \<Longrightarrow> c = d"
  by (cases c; cases d) auto

instantiation conflict :: linorder
begin

definition less_eq_conflict :: "conflict \<Rightarrow> conflict \<Rightarrow> bool" where
  "c \<le> d \<longleftrightarrow> conflict_key c \<le> conflict_key d"

definition less_conflict :: "conflict \<Rightarrow> conflict \<Rightarrow> bool" where
  "c < d \<longleftrightarrow> conflict_key c < conflict_key d"

instance
  by intro_classes (auto simp: less_eq_conflict_def less_conflict_def intro: conflict_key_inj)

end

section \<open>Errors of the repository crate\<close>

text \<open>\<open>error.rs\<close>.  The wrapped \<open>std::io::Error\<close> and \<open>serde_json::Error\<close> are their messages.\<close>

datatype repo_error =
    ObjectNotFound object_id
  | CorruptObject object_id string
  | RefNotFound string
  | RefAlreadyExists string
  | InvalidRef string
  | ProtectedRef string
  | StagingEmpty
  | StagingNotEmpty
  | ManifestMismatch string
  | MergeConflict "conflict list"
  | SignatureInvalid
  | ParentNotFound commit_id
  | IdConstruction type_error
  | RepoIo string
  | RepoJson string

section \<open>The merge\<close>

text \<open>The rules 1 and 2 for one name: \<open>None\<close> is a genuine disagreement.\<close>

definition resolve3 :: "'a option \<Rightarrow> 'a option \<Rightarrow> 'a option \<Rightarrow> 'a option option" where
  "resolve3 base ours theirs =
     (if ours = theirs then Some ours
      else if ours = base then Some theirs
      else if theirs = base then Some ours
      else None)"

fun secret_revision :: "manifest_entry option \<Rightarrow> secret_revision_id option" where
  "secret_revision (Some (SecretEntry r)) = Some r"
| "secret_revision _ = None"

definition is_secret :: "manifest_entry option \<Rightarrow> bool" where
  "is_secret e = (case e of Some x \<Rightarrow> entry_kind x = Secret | None \<Rightarrow> False)"

definition classify_entry_conflict ::
  "variable_name \<Rightarrow> manifest_entry option \<Rightarrow> manifest_entry option \<Rightarrow> manifest_entry option \<Rightarrow> conflict" where
  "classify_entry_conflict name base ours theirs =
     (if is_secret base \<or> is_secret ours \<or> is_secret theirs
      then SecretConflict name (secret_revision ours) (secret_revision theirs)
      else ConfigConflict name)"

fun apply_entry_side ::
  "variable_name \<Rightarrow> manifest_entry option \<Rightarrow> (variable_name, manifest_entry) bt_map
   \<Rightarrow> (variable_name, manifest_entry) bt_map" where
  "apply_entry_side name (Some e) m = bt_insert name e m"
| "apply_entry_side name None m = bt_remove name m"

definition merge_entry ::
  "merge_strategy option \<Rightarrow> manifest \<Rightarrow> manifest \<Rightarrow> manifest \<Rightarrow> variable_name
   \<Rightarrow> (variable_name, manifest_entry) bt_map \<times> conflict list
   \<Rightarrow> (variable_name, manifest_entry) bt_map \<times> conflict list" where
  "merge_entry strategy base ours theirs name acc =
     (let b = get_entry base name; o' = get_entry ours name; t = get_entry theirs name
      in case resolve3 b o' t of
           Some (Some entry) \<Rightarrow> (bt_insert name entry (fst acc), snd acc)
         | Some None \<Rightarrow> acc
         | None \<Rightarrow>
             (case classify_entry_conflict name b o' t of
                SecretConflict n x y \<Rightarrow> (fst acc, snd acc @ [SecretConflict n x y])
              | c \<Rightarrow>
                  (case strategy of
                     Some side \<Rightarrow> (apply_entry_side name (if picks_ours side then o' else t) (fst acc), snd acc)
                   | None \<Rightarrow> (fst acc, snd acc @ [c]))))"

definition merge_policy ::
  "merge_strategy option \<Rightarrow> manifest \<Rightarrow> manifest \<Rightarrow> manifest \<Rightarrow> policy_name
   \<Rightarrow> (policy_name, object_id) bt_map \<times> conflict list
   \<Rightarrow> ((policy_name, object_id) bt_map \<times> conflict list) option" where
  "merge_policy strategy base ours theirs name acc =
     (let b = get_policy base name; o' = get_policy ours name; t = get_policy theirs name
      in case resolve3 b o' t of
           Some (Some obj) \<Rightarrow> Some (bt_insert name obj (fst acc), snd acc)
         | Some None \<Rightarrow> Some acc
         | None \<Rightarrow>
             (case strategy of
                Some side \<Rightarrow>
                  (case (if picks_ours side then o' else t) of
                     Some obj \<Rightarrow> Some (bt_insert name obj (fst acc), snd acc)
                   | None \<Rightarrow> None)
              | None \<Rightarrow> Some (fst acc, snd acc @ [PolicyConflict name])))"

fun merge_policies ::
  "merge_strategy option \<Rightarrow> manifest \<Rightarrow> manifest \<Rightarrow> manifest \<Rightarrow> policy_name list
   \<Rightarrow> (policy_name, object_id) bt_map \<times> conflict list
   \<Rightarrow> ((policy_name, object_id) bt_map \<times> conflict list) option" where
  "merge_policies strategy base ours theirs [] acc = Some acc"
| "merge_policies strategy base ours theirs (name # names) acc =
     (case merge_policy strategy base ours theirs name acc of
        None \<Rightarrow> None
      | Some acc' \<Rightarrow> merge_policies strategy base ours theirs names acc')"

definition variable_names :: "manifest \<Rightarrow> manifest \<Rightarrow> manifest \<Rightarrow> variable_name list" where
  "variable_names base ours theirs =
     btset_of (bt_keys (man_entries base) @ bt_keys (man_entries ours) @ bt_keys (man_entries theirs))"

definition policy_names :: "manifest \<Rightarrow> manifest \<Rightarrow> manifest \<Rightarrow> policy_name list" where
  "policy_names base ours theirs =
     btset_of (bt_keys (man_policies base) @ bt_keys (man_policies ours) @ bt_keys (man_policies theirs))"

definition merge_inner ::
  "manifest \<Rightarrow> manifest \<Rightarrow> manifest \<Rightarrow> merge_strategy option \<Rightarrow> (manifest, conflict list) result option" where
  "merge_inner base ours theirs strategy =
     (let (entries, conflicts) =
            fold (merge_entry strategy base ours theirs) (variable_names base ours theirs) (bt_empty, [])
      in case merge_policies strategy base ours theirs (policy_names base ours theirs) (bt_empty, conflicts) of
           None \<Rightarrow> None
         | Some (policies, all_conflicts) \<Rightarrow>
             Some (if all_conflicts = [] then Ok \<lparr>man_entries = entries, man_policies = policies\<rparr>
                   else Err (sort all_conflicts)))"

definition three_way_merge ::
  "manifest \<Rightarrow> manifest \<Rightarrow> manifest \<Rightarrow> (manifest, conflict list) result option" where
  "three_way_merge base ours theirs = merge_inner base ours theirs None"

definition three_way_merge_with_strategy ::
  "manifest \<Rightarrow> manifest \<Rightarrow> manifest \<Rightarrow> merge_strategy \<Rightarrow> (manifest, conflict list) result option" where
  "three_way_merge_with_strategy base ours theirs strategy = merge_inner base ours theirs (Some strategy)"

definition resolve_secret ::
  "conflict list \<Rightarrow> variable_name \<Rightarrow> secret_revision_id \<Rightarrow> (manifest_entry, repo_error) result" where
  "resolve_secret conflicts name chosen =
     (if list_ex (\<lambda>c. case c of SecretConflict n _ _ \<Rightarrow> n = name | _ \<Rightarrow> False) conflicts
      then Ok (SecretEntry chosen)
      else Err (ManifestMismatch (''no secret conflict found for '' @ backquoted name)))"

section \<open>Reference definitions\<close>

text \<open>What the merge makes of one name: the agreed binding, or the chosen side of a resolvable dispute.\<close>

definition entry_dispute :: "manifest \<Rightarrow> manifest \<Rightarrow> manifest \<Rightarrow> variable_name \<Rightarrow> bool" where
  "entry_dispute base ours theirs n \<longleftrightarrow> resolve3 (get_entry base n) (get_entry ours n) (get_entry theirs n) = None"

definition policy_dispute :: "manifest \<Rightarrow> manifest \<Rightarrow> manifest \<Rightarrow> policy_name \<Rightarrow> bool" where
  "policy_dispute base ours theirs n \<longleftrightarrow> resolve3 (get_policy base n) (get_policy ours n) (get_policy theirs n) = None"

definition touches_secret :: "manifest \<Rightarrow> manifest \<Rightarrow> manifest \<Rightarrow> variable_name \<Rightarrow> bool" where
  "touches_secret base ours theirs n \<longleftrightarrow>
     is_secret (get_entry base n) \<or> is_secret (get_entry ours n) \<or> is_secret (get_entry theirs n)"

definition side_of :: "merge_strategy option \<Rightarrow> 'a option \<Rightarrow> 'a option \<Rightarrow> 'a option" where
  "side_of strategy a b = (case strategy of None \<Rightarrow> None | Some s \<Rightarrow> if picks_ours s then a else b)"

definition merged_value :: "merge_strategy option \<Rightarrow> 'a option \<Rightarrow> 'a option \<Rightarrow> 'a option \<Rightarrow> 'a option" where
  "merged_value strategy b x y = (case resolve3 b x y of Some v \<Rightarrow> v | None \<Rightarrow> side_of strategy x y)"

definition blocked_entry :: "merge_strategy option \<Rightarrow> manifest \<Rightarrow> manifest \<Rightarrow> manifest \<Rightarrow> variable_name \<Rightarrow> bool" where
  "blocked_entry strategy base ours theirs n \<longleftrightarrow>
     entry_dispute base ours theirs n \<and> (strategy = None \<or> touches_secret base ours theirs n)"

definition entry_conflict :: "manifest \<Rightarrow> manifest \<Rightarrow> manifest \<Rightarrow> variable_name \<Rightarrow> conflict" where
  "entry_conflict base ours theirs n =
     classify_entry_conflict n (get_entry base n) (get_entry ours n) (get_entry theirs n)"

text \<open>The \<open>expect\<close> fails: the chosen side of a policy dispute removed the policy.\<close>

definition policy_panics :: "merge_strategy option \<Rightarrow> manifest \<Rightarrow> manifest \<Rightarrow> manifest \<Rightarrow> policy_name \<Rightarrow> bool" where
  "policy_panics strategy base ours theirs n \<longleftrightarrow>
     policy_dispute base ours theirs n \<and> strategy \<noteq> None \<and> side_of strategy (get_policy ours n) (get_policy theirs n) = None"

fun swap_sides :: "conflict \<Rightarrow> conflict" where
  "swap_sides (SecretConflict n a b) = SecretConflict n b a"
| "swap_sides c = c"

section \<open>Lemmas\<close>

lemma classify_cases:
  "(\<exists>x y. entry_conflict base ours theirs n = SecretConflict n x y \<and> touches_secret base ours theirs n)
   \<or> (entry_conflict base ours theirs n = ConfigConflict n \<and> \<not> touches_secret base ours theirs n)"
  by (auto simp: entry_conflict_def classify_entry_conflict_def touches_secret_def)

lemma resolve3_sym: "resolve3 b x y = resolve3 b y x"
  by (auto simp: resolve3_def)

lemma merge_entry_eq:
  assumes "bt_inv (fst acc)" "bt_get (fst acc) n = None"
  shows "bt_inv (fst (merge_entry strategy base ours theirs n acc))"
    and "blocked_entry strategy base ours theirs n \<Longrightarrow>
      merge_entry strategy base ours theirs n acc = (fst acc, snd acc @ [entry_conflict base ours theirs n])"
    and "\<not> blocked_entry strategy base ours theirs n \<Longrightarrow>
      bt_get (fst (merge_entry strategy base ours theirs n acc))
        = (bt_get (fst acc))(n := merged_value strategy (get_entry base n) (get_entry ours n) (get_entry theirs n))
      \<and> snd (merge_entry strategy base ours theirs n acc) = snd acc"
proof -
  let ?r = "resolve3 (get_entry base n) (get_entry ours n) (get_entry theirs n)"
  let ?m = "merge_entry strategy base ours theirs n acc"
  have idem: "(bt_get (fst acc))(n := None) = bt_get (fst acc)" using assms(2) by auto
  have all: "bt_inv (fst ?m)
    \<and> (blocked_entry strategy base ours theirs n \<longrightarrow> ?m = (fst acc, snd acc @ [entry_conflict base ours theirs n]))
    \<and> (\<not> blocked_entry strategy base ours theirs n \<longrightarrow>
        bt_get (fst ?m) = (bt_get (fst acc))(n := merged_value strategy (get_entry base n) (get_entry ours n) (get_entry theirs n))
        \<and> snd ?m = snd acc)"
  proof (cases ?r)
    case (Some v)
    then show ?thesis using assms(1) idem
      by (cases v) (simp_all add: merge_entry_def Let_def blocked_entry_def entry_dispute_def merged_value_def btm.get_insert)
  next
    case None
    show ?thesis
    proof (cases "touches_secret base ours theirs n")
      case True
      then show ?thesis
        using classify_cases [of base ours theirs n] None assms(1)
        by (auto simp: merge_entry_def Let_def blocked_entry_def entry_dispute_def entry_conflict_def)
    next
      case False
      then have c: "entry_conflict base ours theirs n = ConfigConflict n"
        using classify_cases [of base ours theirs n] by auto
      show ?thesis
      proof (cases strategy)
        case S: None
        then show ?thesis using None assms(1) c
          by (simp add: merge_entry_def Let_def blocked_entry_def entry_dispute_def entry_conflict_def)
      next
        case (Some side)
        then show ?thesis using None assms c False idem
          by (cases "if picks_ours side then get_entry ours n else get_entry theirs n")
             (auto simp: merge_entry_def Let_def blocked_entry_def entry_dispute_def entry_conflict_def
                merged_value_def side_of_def btm.get_insert btm.get_remove split: if_splits)
      qed
    qed
  qed
  then show "bt_inv (fst ?m)"
    and "blocked_entry strategy base ours theirs n \<Longrightarrow> ?m = (fst acc, snd acc @ [entry_conflict base ours theirs n])"
    and "\<not> blocked_entry strategy base ours theirs n \<Longrightarrow>
      bt_get (fst ?m) = (bt_get (fst acc))(n := merged_value strategy (get_entry base n) (get_entry ours n) (get_entry theirs n))
      \<and> snd ?m = snd acc" by blast+
qed

lemma merge_entries_eq:
  assumes "distinct ns" "bt_inv (fst acc)" "\<forall>n \<in> set ns. bt_get (fst acc) n = None"
  shows "bt_inv (fst (fold (merge_entry strategy base ours theirs) ns acc))
    \<and> (\<forall>n. bt_get (fst (fold (merge_entry strategy base ours theirs) ns acc)) n
         = (if n \<in> set ns \<and> \<not> blocked_entry strategy base ours theirs n
            then merged_value strategy (get_entry base n) (get_entry ours n) (get_entry theirs n)
            else bt_get (fst acc) n))
    \<and> snd (fold (merge_entry strategy base ours theirs) ns acc)
         = snd acc @ map (entry_conflict base ours theirs) (filter (blocked_entry strategy base ours theirs) ns)"
  using assms
proof (induction ns arbitrary: acc)
  case (Cons m ns)
  let ?acc = "merge_entry strategy base ours theirs m acc"
  have "bt_get (fst acc) m = None" using Cons.prems(3) by simp
  note step = merge_entry_eq [OF Cons.prems(2) this, of strategy base ours theirs]
  have "\<forall>n \<in> set ns. bt_get (fst ?acc) n = None"
    using Cons.prems(1,3) step(2,3) by (cases "blocked_entry strategy base ours theirs m") auto
  with Cons.IH [of ?acc] Cons.prems(1) step show ?case
    by (cases "blocked_entry strategy base ours theirs m") auto
qed simp

lemma merge_policy_panics: "policy_panics strategy base ours theirs n \<Longrightarrow> merge_policy strategy base ours theirs n acc = None"
  by (auto simp: merge_policy_def Let_def policy_panics_def policy_dispute_def side_of_def)

lemma merge_policy_eq:
  assumes "bt_inv (fst acc)" "bt_get (fst acc) n = None" "\<not> policy_panics strategy base ours theirs n"
  shows "\<exists>m. merge_policy strategy base ours theirs n acc
       = Some (m, snd acc @ (if strategy = None \<and> policy_dispute base ours theirs n then [PolicyConflict n] else []))
     \<and> bt_inv m
     \<and> bt_get m = (bt_get (fst acc))(n := merged_value strategy (get_policy base n) (get_policy ours n) (get_policy theirs n))"
proof (cases "resolve3 (get_policy base n) (get_policy ours n) (get_policy theirs n)")
  case (Some v)
  then show ?thesis using assms(1,2)
    by (cases v; cases acc) (auto simp: merge_policy_def Let_def policy_dispute_def merged_value_def btm.get_insert fun_upd_idem)
next
  case None
  show ?thesis
  proof (cases strategy)
    case S: None
    then show ?thesis using None assms(1,2)
      by (auto simp: merge_policy_def Let_def policy_dispute_def merged_value_def side_of_def fun_upd_idem)
  next
    case (Some side)
    then obtain obj where "(if picks_ours side then get_policy ours n else get_policy theirs n) = Some obj"
      using assms(3) None by (auto simp: policy_panics_def policy_dispute_def side_of_def)
    then show ?thesis using None Some assms(1)
      by (auto simp: merge_policy_def Let_def policy_dispute_def merged_value_def side_of_def btm.get_insert
          split: if_splits)
  qed
qed

lemma merge_policies_eq:
  assumes "distinct ns" "bt_inv (fst acc)" "\<forall>n \<in> set ns. bt_get (fst acc) n = None"
    and "\<forall>n \<in> set ns. \<not> policy_panics strategy base ours theirs n"
  shows "\<exists>m. merge_policies strategy base ours theirs ns acc
       = Some (m, snd acc @ map PolicyConflict (filter (\<lambda>n. strategy = None \<and> policy_dispute base ours theirs n) ns))
     \<and> bt_inv m
     \<and> (\<forall>n. bt_get m n = (if n \<in> set ns then merged_value strategy (get_policy base n) (get_policy ours n) (get_policy theirs n)
                          else bt_get (fst acc) n))"
  using assms
proof (induction ns arbitrary: acc)
  case (Cons n ns)
  obtain m where m: "merge_policy strategy base ours theirs n acc
       = Some (m, snd acc @ (if strategy = None \<and> policy_dispute base ours theirs n then [PolicyConflict n] else []))"
     "bt_inv m" "bt_get m = (bt_get (fst acc))(n := merged_value strategy (get_policy base n) (get_policy ours n) (get_policy theirs n))"
    using merge_policy_eq [of acc n strategy base ours theirs] Cons.prems by auto
  have "\<forall>x \<in> set ns. bt_get m x = None" using Cons.prems(1,3) m(3) by auto
  with Cons.IH [of "(m, snd acc @ (if strategy = None \<and> policy_dispute base ours theirs n then [PolicyConflict n] else []))"]
    Cons.prems(1,4) m show ?case
    by (auto split: if_splits)
qed auto

lemma merge_policies_panic:
  "n \<in> set ns \<Longrightarrow> policy_panics strategy base ours theirs n \<Longrightarrow> merge_policies strategy base ours theirs ns acc = None"
  by (induction ns arbitrary: acc) (auto simp: merge_policy_panics split: option.splits)

lemma in_variable_names: "entry_dispute base ours theirs n \<Longrightarrow> n \<in> set (variable_names base ours theirs)"
  by (auto simp: variable_names_def entry_dispute_def resolve3_def in_bt_keys_iff get_entry_def split: if_splits)

lemma in_policy_names: "policy_dispute base ours theirs n \<Longrightarrow> n \<in> set (policy_names base ours theirs)"
  by (auto simp: policy_names_def policy_dispute_def resolve3_def in_bt_keys_iff split: if_splits)

lemma merged_value_None: "b = None \<Longrightarrow> x = None \<Longrightarrow> y = None \<Longrightarrow> merged_value s b x y = None"
  by (simp add: merged_value_def resolve3_def)

lemma not_in_names:
  "n \<notin> set (variable_names base ours theirs) \<Longrightarrow> merged_value s (get_entry base n) (get_entry ours n) (get_entry theirs n) = None"
  "n \<notin> set (policy_names base ours theirs) \<Longrightarrow> merged_value s (get_policy base n) (get_policy ours n) (get_policy theirs n) = None"
  by (rule merged_value_None; auto simp: variable_names_def policy_names_def in_bt_keys_iff get_entry_def)+

text \<open>The whole merge: it panics, or has these conflicts, or gives the manifest of the merged values.\<close>

definition conflicts_of :: "merge_strategy option \<Rightarrow> manifest \<Rightarrow> manifest \<Rightarrow> manifest \<Rightarrow> conflict list" where
  "conflicts_of strategy base ours theirs =
     map (entry_conflict base ours theirs) (filter (blocked_entry strategy base ours theirs) (variable_names base ours theirs))
     @ map PolicyConflict (filter (\<lambda>n. strategy = None \<and> policy_dispute base ours theirs n) (policy_names base ours theirs))"

lemma set_conflicts_of:
  "set (conflicts_of strategy base ours theirs) =
     entry_conflict base ours theirs ` {n. blocked_entry strategy base ours theirs n}
     \<union> PolicyConflict ` {n. strategy = None \<and> policy_dispute base ours theirs n}"
  by (auto simp: conflicts_of_def blocked_entry_def dest: in_variable_names in_policy_names)

lemma entry_conflict_subject: "conflict_subject (entry_conflict base ours theirs n) = n"
  by (simp add: entry_conflict_def classify_entry_conflict_def)

lemma distinct_conflicts_of: "distinct (conflicts_of strategy base ours theirs)"
proof -
  have "inj (entry_conflict base ours theirs)" by (metis injI entry_conflict_subject)
  moreover have "entry_conflict base ours theirs n \<noteq> PolicyConflict m" for n m
    by (simp add: entry_conflict_def classify_entry_conflict_def)
  ultimately show ?thesis
    by (auto simp: conflicts_of_def variable_names_def policy_names_def distinct_map inj_on_def inj_def)
qed

lemma merge_inner_panic:
  assumes "policy_panics strategy base ours theirs n"
  shows "merge_inner base ours theirs strategy = None"
proof -
  have "n \<in> set (policy_names base ours theirs)" using assms by (simp add: policy_panics_def in_policy_names)
  then show ?thesis
    using merge_policies_panic [OF _ assms] by (simp add: merge_inner_def split: prod.splits)
qed

lemma merge_inner_eq:
  assumes "\<forall>n. \<not> policy_panics strategy base ours theirs n"
  shows "\<exists>m. merge_inner base ours theirs strategy =
       Some (if conflicts_of strategy base ours theirs = [] then Ok m else Err (sort (conflicts_of strategy base ours theirs)))
     \<and> manifest_inv m
     \<and> (\<forall>n. \<not> blocked_entry strategy base ours theirs n \<longrightarrow>
          get_entry m n = merged_value strategy (get_entry base n) (get_entry ours n) (get_entry theirs n))
     \<and> (\<forall>n. get_policy m n = merged_value strategy (get_policy base n) (get_policy ours n) (get_policy theirs n))"
proof -
  let ?vs = "variable_names base ours theirs" and ?ps = "policy_names base ours theirs"
  let ?cs = "map (entry_conflict base ours theirs) (filter (blocked_entry strategy base ours theirs) ?vs)"
  obtain es cs where fold: "fold (merge_entry strategy base ours theirs) ?vs (bt_empty, []) = (es, cs)" by force
  have es: "bt_inv es" "cs = ?cs"
    "bt_get es n = (if n \<in> set ?vs \<and> \<not> blocked_entry strategy base ours theirs n
       then merged_value strategy (get_entry base n) (get_entry ours n) (get_entry theirs n) else None)" for n
    using merge_entries_eq [of ?vs "(bt_empty, [])" strategy base ours theirs] fold
    by (auto simp: variable_names_def bt_get_empty)
  obtain ps where ps: "merge_policies strategy base ours theirs ?ps (bt_empty, cs) = Some (ps, conflicts_of strategy base ours theirs)"
    "bt_inv ps" "bt_get ps n = (if n \<in> set ?ps
       then merged_value strategy (get_policy base n) (get_policy ours n) (get_policy theirs n) else None)" for n
    using merge_policies_eq [of ?ps "(bt_empty, cs)" strategy base ours theirs] assms es(2)
    by (auto simp: policy_names_def bt_get_empty conflicts_of_def)
  show ?thesis
    using fold ps es not_in_names
    by (intro exI [of _ "\<lparr>man_entries = es, man_policies = ps\<rparr>"])
       (auto simp: merge_inner_def manifest_inv_def get_entry_def)
qed

text \<open>Exchanging the sides.\<close>

lemma btset_of_cong: "set xs = set ys \<Longrightarrow> btset_of xs = btset_of ys"
  using sorted_btset_of [of xs] sorted_btset_of [of ys] by (simp add: strict_sorted_equal)

lemma names_sym: "variable_names base theirs ours = variable_names base ours theirs" "policy_names base theirs ours = policy_names base ours theirs"
  by (auto simp: variable_names_def policy_names_def intro!: btset_of_cong)

lemma dispute_sym:
  "entry_dispute base theirs ours = entry_dispute base ours theirs" "policy_dispute base theirs ours = policy_dispute base ours theirs"
  unfolding entry_dispute_def policy_dispute_def fun_eq_iff by (simp_all add: resolve3_sym)

lemma entry_conflict_sym: "entry_conflict base theirs ours n = swap_sides (entry_conflict base ours theirs n)"
  by (simp add: entry_conflict_def classify_entry_conflict_def)

lemma conflicts_of_sym: "conflicts_of None base theirs ours = map swap_sides (conflicts_of None base ours theirs)"
  by (simp add: conflicts_of_def names_sym [of base theirs ours] blocked_entry_def [abs_def] dispute_sym [of base theirs ours]
      entry_conflict_sym [of base theirs ours] comp_def)

lemma swap_sides_mono:
  assumes "c \<in> set (conflicts_of None base ours theirs)" "d \<in> set (conflicts_of None base ours theirs)" "c \<le> d"
  shows "swap_sides c \<le> swap_sides d"
proof -
  have unique: "\<exists>n. c = entry_conflict base ours theirs n \<or> c = PolicyConflict n"
    if "c \<in> set (conflicts_of None base ours theirs)" for c using that unfolding set_conflicts_of by blast
  have "c = d" if cd: "c = SecretConflict n a b" "d = SecretConflict n x y" for n a b x y
  proof -
    from cd unique [OF assms(1)] unique [OF assms(2)] obtain k l where
      "c = entry_conflict base ours theirs k" "d = entry_conflict base ours theirs l" by auto
    then show ?thesis using cd entry_conflict_subject [of base ours theirs] by (metis conflict_subject.simps(2))
  qed
  with assms(3) show ?thesis by (cases c; cases d) (auto simp: less_eq_conflict_def)
qed

lemma sort_map_mono:
  assumes "\<And>x y. x \<in> set xs \<Longrightarrow> y \<in> set xs \<Longrightarrow> x \<le> y \<Longrightarrow> f x \<le> f y"
  shows "sort (map f xs) = map f (sort xs)"
proof (rule properties_for_sort)
  show "mset (map f (sort xs)) = mset (map f xs)" by simp
  have "sorted_wrt (\<lambda>x y. f x \<le> f y) (sort xs)"
    by (rule sorted_wrt_mono_rel [OF _ sorted_sort]) (use assms in auto)
  then show "sorted (map f (sort xs))" by (simp add: sorted_wrt_map)
qed

section \<open>Properties\<close>


text \<open>
  The merge is symmetric: exchanging the two sides gives the same manifest, or the same conflicts in the
  same order, with the revisions of the two sides exchanged.
\<close>

lemma three_way_merge_symmetric:
  "three_way_merge base theirs ours =
     map_option (\<lambda>r. case r of Ok m \<Rightarrow> Ok m | Err cs \<Rightarrow> Err (map swap_sides cs)) (three_way_merge base ours theirs)"
proof -
  have no_panic: "\<forall>n. \<not> policy_panics None base x y n" for x y by (simp add: policy_panics_def)
  obtain m where m: "three_way_merge base ours theirs =
       Some (if conflicts_of None base ours theirs = [] then Ok m else Err (sort (conflicts_of None base ours theirs)))"
     "manifest_inv m" "\<forall>n. \<not> entry_dispute base ours theirs n \<longrightarrow>
          get_entry m n = merged_value None (get_entry base n) (get_entry ours n) (get_entry theirs n)"
     "\<forall>n. get_policy m n = merged_value None (get_policy base n) (get_policy ours n) (get_policy theirs n)"
    using merge_inner_eq [OF no_panic [of ours theirs]] unfolding three_way_merge_def blocked_entry_def by auto
  obtain k where k: "three_way_merge base theirs ours =
       Some (if conflicts_of None base theirs ours = [] then Ok k else Err (sort (conflicts_of None base theirs ours)))"
     "manifest_inv k" "\<forall>n. \<not> entry_dispute base ours theirs n \<longrightarrow>
          get_entry k n = merged_value None (get_entry base n) (get_entry theirs n) (get_entry ours n)"
     "\<forall>n. get_policy k n = merged_value None (get_policy base n) (get_policy theirs n) (get_policy ours n)"
    using merge_inner_eq [OF no_panic [of theirs ours]] unfolding three_way_merge_def blocked_entry_def dispute_sym(1) [of base theirs ours] by auto
  have swap: "merged_value None b x y = merged_value None b y x" for b x y :: "'z option"
    by (simp add: merged_value_def resolve3_sym [of b x y] side_of_def cong: option.case_cong)
  have "m = k" if "conflicts_of None base ours theirs = []"
  proof (rule manifest_ext [OF m(2) k(2)])
    have "\<not> entry_dispute base ours theirs n" for n
      using that set_conflicts_of [of None base ours theirs] by (auto simp: blocked_entry_def)
    then have "get_entry m n = merged_value None (get_entry base n) (get_entry ours n) (get_entry theirs n)"
      "get_entry k n = merged_value None (get_entry base n) (get_entry theirs n) (get_entry ours n)" for n
      using m(3) k(3) by blast+
    then show "get_entry m n = get_entry k n" for n by (simp only: swap [of _ "get_entry theirs n"])
    show "get_policy m n = get_policy k n" for n
      unfolding spec [OF m(4), of n] spec [OF k(4), of n] by (rule swap)
  qed
  then show ?thesis
    using m(1) k(1) sort_map_mono [of "conflicts_of None base ours theirs" swap_sides, OF swap_sides_mono]
    by (simp add: conflicts_of_sym [of base theirs ours])
qed

text \<open>
  No strategy decides about a secret.  A merge with a strategy panics exactly when its side of a policy
  dispute removed the policy.  Otherwise it reports exactly the disputes that involve a secret on the base
  or on a side; and when it succeeds, every disputed variable is free of secrets and takes the chosen side,
  every other name the agreed value.
\<close>

lemma strategy_spares_secrets:
  "case three_way_merge_with_strategy base ours theirs strategy of
     None \<Rightarrow> (\<exists>n. policy_dispute base ours theirs n
               \<and> (if picks_ours strategy then get_policy ours n else get_policy theirs n) = None)
   | Some (Err cs) \<Rightarrow> cs \<noteq> [] \<and> sorted cs \<and> distinct cs
       \<and> set cs = entry_conflict base ours theirs ` {n. entry_dispute base ours theirs n \<and> touches_secret base ours theirs n}
   | Some (Ok m) \<Rightarrow>
       (\<forall>n. if entry_dispute base ours theirs n
            then \<not> touches_secret base ours theirs n
                 \<and> get_entry m n = (if picks_ours strategy then get_entry ours n else get_entry theirs n)
            else resolve3 (get_entry base n) (get_entry ours n) (get_entry theirs n) = Some (get_entry m n))
     \<and> (\<forall>n. if policy_dispute base ours theirs n
            then get_policy m n = (if picks_ours strategy then get_policy ours n else get_policy theirs n)
                 \<and> get_policy m n \<noteq> None
            else resolve3 (get_policy base n) (get_policy ours n) (get_policy theirs n) = Some (get_policy m n))"
proof (cases "\<exists>n. policy_panics (Some strategy) base ours theirs n")
  case True
  then obtain n where n: "policy_panics (Some strategy) base ours theirs n" by blast
  then have "three_way_merge_with_strategy base ours theirs strategy = None"
    unfolding three_way_merge_with_strategy_def by (rule merge_inner_panic)
  then show ?thesis using n by (auto simp: policy_panics_def side_of_def intro!: exI [of _ n])
next
  case False
  then obtain m where m: "three_way_merge_with_strategy base ours theirs strategy =
       Some (if conflicts_of (Some strategy) base ours theirs = [] then Ok m
             else Err (sort (conflicts_of (Some strategy) base ours theirs)))"
     "\<forall>n. \<not> blocked_entry (Some strategy) base ours theirs n \<longrightarrow>
          get_entry m n = merged_value (Some strategy) (get_entry base n) (get_entry ours n) (get_entry theirs n)"
     "\<forall>n. get_policy m n = merged_value (Some strategy) (get_policy base n) (get_policy ours n) (get_policy theirs n)"
    using merge_inner_eq [of "Some strategy" base ours theirs] unfolding three_way_merge_with_strategy_def by auto
  have set: "set (conflicts_of (Some strategy) base ours theirs) =
      entry_conflict base ours theirs ` {n. entry_dispute base ours theirs n \<and> touches_secret base ours theirs n}"
    by (simp add: set_conflicts_of blocked_entry_def)
  show ?thesis
  proof (cases "conflicts_of (Some strategy) base ours theirs = []")
    case True
    then have free: "\<not> (entry_dispute base ours theirs n \<and> touches_secret base ours theirs n)" for n using set by auto
    have none: "\<not> policy_panics (Some strategy) base ours theirs n" for n using False by blast
    have "if entry_dispute base ours theirs n
        then \<not> touches_secret base ours theirs n
             \<and> get_entry m n = (if picks_ours strategy then get_entry ours n else get_entry theirs n)
        else resolve3 (get_entry base n) (get_entry ours n) (get_entry theirs n) = Some (get_entry m n)" for n
      using spec [OF m(2), of n] free [of n]
      by (auto simp: blocked_entry_def merged_value_def side_of_def entry_dispute_def split: option.splits)
    moreover have "if policy_dispute base ours theirs n
        then get_policy m n = (if picks_ours strategy then get_policy ours n else get_policy theirs n)
             \<and> get_policy m n \<noteq> None
        else resolve3 (get_policy base n) (get_policy ours n) (get_policy theirs n) = Some (get_policy m n)" for n
      using spec [OF m(3), of n] none [of n]
      by (auto simp: policy_panics_def merged_value_def side_of_def policy_dispute_def split: option.splits)
    moreover have "three_way_merge_with_strategy base ours theirs strategy = Some (Ok m)" using m(1) True by simp
    ultimately show ?thesis by (simp only: option.case result.case) blast
  next
    case False
    then have "sort (conflicts_of (Some strategy) base ours theirs) \<noteq> []" by (metis set_empty set_sort)
    then show ?thesis using m(1) False set distinct_conflicts_of [of "Some strategy" base ours theirs] by simp
  qed
qed

text \<open>
  A policy changed on one side and removed on the other is a dispute with an absent side, so choosing the
  side that removed it panics.
\<close>

lemma strategy_merge_panics:
  "three_way_merge_with_strategy
     \<lparr>man_entries = [], man_policies = [(''read_only'', ''obj_a'')]\<rparr>
     \<lparr>man_entries = [], man_policies = []\<rparr>
     \<lparr>man_entries = [], man_policies = [(''read_only'', ''obj_b'')]\<rparr> Ours = None"
  by code_simp

end
