(* ===== verification/Vault_Fs.thy ===== *)
theory Vault_Fs
  imports Manifest_Merge
begin

text \<open>
  The part of \<open>std::fs\<close> and \<open>std::path\<close> that the repository crate uses, below the directory \<open>.vaultx\<close> (the path
  \<open>[]\<close>).  A path is the list of its components.  Every call may fail: the state holds a list of faults, and
  each call takes the next one; the number in a fault says how many bytes were written, or how many
  directories created, before the failure.  An exhausted list means no further faults.

  \<open>publish\<close> is the sequence with which the crate writes every file: create the parent directories, write and
  sync a temporary file beside the target, rename it.  The locale \<open>atomic_files\<close> states what the clients rely
  on: a published file is replaced completely or not at all, and no other file changes.
\<close>

section \<open>State\<close>

type_synonym path = "string list"

datatype node = File string | Dir

record fs =
  nodes :: "(path, node) bt_map"
  faults :: "(nat \<times> string) option list"
  process_id :: nat
  nanos :: "nat list"

type_synonym 'a io = "fs \<Rightarrow> ('a, repo_error) result \<times> fs"

definition return_io :: "'a \<Rightarrow> 'a io" where
  "return_io a s = (Ok a, s)"

definition fail_io :: "repo_error \<Rightarrow> 'a io" where
  "fail_io e s = (Err e, s)"

definition lift_io :: "('a, repo_error) result \<Rightarrow> 'a io" where
  "lift_io r s = (r, s)"

text \<open>The operator \<open>?\<close>: go on with the value, or return the error.\<close>

definition bind_io :: "'a io \<Rightarrow> ('a \<Rightarrow> 'b io) \<Rightarrow> 'b io" where
  "bind_io m f s = (case m s of (Ok a, s') \<Rightarrow> f a s' | (Err e, s') \<Rightarrow> (Err e, s'))"

text \<open>\<open>.ok()\<close> and a discarded result.\<close>

definition ok_io :: "'a io \<Rightarrow> 'a option io" where
  "ok_io m s = (case m s of (Ok a, s') \<Rightarrow> (Ok (Some a), s') | (Err _, s') \<Rightarrow> (Ok None, s'))"

fun each_io :: "('a \<Rightarrow> unit io) \<Rightarrow> 'a list \<Rightarrow> unit io" where
  "each_io f [] = return_io ()"
| "each_io f (x # xs) = bind_io (f x) (\<lambda>_. each_io f xs)"

section \<open>Calls\<close>

definition next_fault :: "fs \<Rightarrow> (nat \<times> string) option \<times> fs" where
  "next_fault s = (case faults s of [] \<Rightarrow> (None, s) | f # fs' \<Rightarrow> (f, s\<lparr>faults := fs'\<rparr>))"

text \<open>A call that does nothing when it fails.\<close>

definition perform :: "(fs \<Rightarrow> ('a, string) result \<times> fs) \<Rightarrow> 'a io" where
  "perform f s =
     (case next_fault s of
        (Some (_, e), s') \<Rightarrow> (Err (RepoIo e), s')
      | (None, s') \<Rightarrow> (case f s' of (r, s'') \<Rightarrow> (map_err RepoIo r, s'')))"

definition content :: "fs \<Rightarrow> path \<Rightarrow> string option" where
  "content s p = (case bt_get (nodes s) p of Some (File b) \<Rightarrow> Some b | _ \<Rightarrow> None)"

definition is_dir_node :: "fs \<Rightarrow> path \<Rightarrow> bool" where
  "is_dir_node s p \<longleftrightarrow> bt_get (nodes s) p = Some Dir"

text \<open>\<open>Path::exists\<close>, \<open>is_dir\<close> and \<open>is_file\<close> answer \<open>false\<close> when the call fails.\<close>

definition probe :: "(fs \<Rightarrow> bool) \<Rightarrow> bool io" where
  "probe f s = (case next_fault s of (Some _, s') \<Rightarrow> (Ok False, s') | (None, s') \<Rightarrow> (Ok (f s'), s'))"

definition path_exists :: "path \<Rightarrow> bool io" where
  "path_exists p = probe (\<lambda>s. bt_get (nodes s) p \<noteq> None)"

definition path_is_dir :: "path \<Rightarrow> bool io" where
  "path_is_dir p = probe (\<lambda>s. is_dir_node s p)"

definition path_is_file :: "path \<Rightarrow> bool io" where
  "path_is_file p = probe (\<lambda>s. content s p \<noteq> None)"

definition read_file :: "path \<Rightarrow> string io" where
  "read_file p = perform (\<lambda>s. (ok_or ''No such file or directory'' (content s p), s))"

definition read_to_string :: "path \<Rightarrow> string io" where
  "read_to_string p = bind_io (read_file p) (\<lambda>b.
     if is_utf8 b then return_io b else fail_io (RepoIo ''stream did not contain valid UTF-8''))"

fun make_dirs :: "path list \<Rightarrow> (path, node) bt_map \<Rightarrow> (unit, string) result \<times> (path, node) bt_map" where
  "make_dirs [] m = (Ok (), m)"
| "make_dirs (p # ps) m =
     (case bt_get m p of
        Some Dir \<Rightarrow> make_dirs ps m
      | Some (File _) \<Rightarrow> (Err ''Not a directory'', m)
      | None \<Rightarrow> make_dirs ps (bt_insert p Dir m))"

definition path_prefixes :: "path \<Rightarrow> path list" where
  "path_prefixes p = map (\<lambda>i. take i p) [0..<Suc (length p)]"

definition create_dir_all :: "path \<Rightarrow> unit io" where
  "create_dir_all p s =
     (case next_fault s of
        (Some (n, e), s') \<Rightarrow> (Err (RepoIo e), s'\<lparr>nodes := snd (make_dirs (take n (path_prefixes p)) (nodes s'))\<rparr>)
      | (None, s') \<Rightarrow>
          (case make_dirs (path_prefixes p) (nodes s') of (r, m) \<Rightarrow> (map_err RepoIo r, s'\<lparr>nodes := m\<rparr>)))"

definition set_file :: "path \<Rightarrow> string \<Rightarrow> fs \<Rightarrow> fs" where
  "set_file p b s = s\<lparr>nodes := bt_insert p (File b) (nodes s)\<rparr>"

definition create_file :: "path \<Rightarrow> unit io" where
  "create_file p = perform (\<lambda>s.
     if is_dir_node s p then (Err ''Is a directory'', s)
     else if \<not> is_dir_node s (butlast p) then (Err ''No such file or directory'', s)
     else (Ok (), set_file p [] s))"

definition write_all :: "path \<Rightarrow> string \<Rightarrow> unit io" where
  "write_all p b s =
     (case next_fault s of
        (Some (n, e), s') \<Rightarrow> (Err (RepoIo e), set_file p (take n b) s')
      | (None, s') \<Rightarrow> (Ok (), set_file p b s'))"

definition sync_all :: "path \<Rightarrow> unit io" where
  "sync_all p = perform (\<lambda>s. (Ok (), s))"

definition rename :: "path \<Rightarrow> path \<Rightarrow> unit io" where
  "rename p q = perform (\<lambda>s.
     case content s p of
       None \<Rightarrow> (Err ''No such file or directory'', s)
     | Some b \<Rightarrow>
         if is_dir_node s q then (Err ''Is a directory'', s)
         else if \<not> is_dir_node s (butlast q) then (Err ''No such file or directory'', s)
         else (Ok (), set_file q b (s\<lparr>nodes := bt_remove p (nodes s)\<rparr>)))"

definition remove_file :: "path \<Rightarrow> unit io" where
  "remove_file p = perform (\<lambda>s.
     case content s p of
       None \<Rightarrow> (Err ''No such file or directory'', s)
     | Some _ \<Rightarrow> (Ok (), s\<lparr>nodes := bt_remove p (nodes s)\<rparr>))"

definition read_dir :: "path \<Rightarrow> string list io" where
  "read_dir p = perform (\<lambda>s.
     if is_dir_node s p
     then (Ok (map last (filter (\<lambda>q. q \<noteq> [] \<and> butlast q = p) (bt_keys (nodes s)))), s)
     else (Err (if content s p = None then ''No such file or directory'' else ''Not a directory''), s))"

section \<open>Publishing a file\<close>

definition timestamp :: "fs \<Rightarrow> nat \<times> fs" where
  "timestamp s = (case nanos s of [] \<Rightarrow> (0, s) | n # ns \<Rightarrow> (n, s\<lparr>nanos := ns\<rparr>))"

definition temp_name :: "string \<Rightarrow> nat \<Rightarrow> nat \<Rightarrow> string" where
  "temp_name prefix pid n = prefix @ dec_of_nat pid @ ''-'' @ dec_of_nat n"

definition publish :: "string \<Rightarrow> path \<Rightarrow> string \<Rightarrow> unit io" where
  "publish prefix p b =
     bind_io (create_dir_all (butlast p)) (\<lambda>_ s.
       case timestamp s of (n, s') \<Rightarrow>
       (let temp = butlast p @ [temp_name prefix (process_id s') n]
        in bind_io (create_file temp) (\<lambda>_.
           bind_io (write_all temp b) (\<lambda>_.
           bind_io (sync_all temp) (\<lambda>_.
           rename temp p)))) s')"

section \<open>Reference definitions\<close>

definition fs_inv :: "fs \<Rightarrow> bool" where
  "fs_inv s \<longleftrightarrow> bt_inv (nodes s)"

text \<open>A path that \<open>publish prefix\<close> may use as its temporary file.\<close>

definition is_temp :: "string \<Rightarrow> path \<Rightarrow> bool" where
  "is_temp prefix q \<longleftrightarrow> q \<noteq> [] \<and> starts_with prefix (last q)"

text \<open>The target can be written: its parents are directories or missing, and it is not a directory.\<close>

definition writable :: "fs \<Rightarrow> path \<Rightarrow> bool" where
  "writable s p \<longleftrightarrow> \<not> is_dir_node s p \<and> (\<forall>q \<in> set (path_prefixes (butlast p)). content s q = None)"

section \<open>The contract of the file writers\<close>

locale atomic_files =
  fixes put_file :: "path \<Rightarrow> string \<Rightarrow> 's \<Rightarrow> ('r, 'e) result \<times> 's"
    and file_of :: "'s \<Rightarrow> path \<Rightarrow> string option"
    and scratch :: "path \<Rightarrow> bool"
    and inv :: "'s \<Rightarrow> bool"
  assumes keeps_inv: "inv s \<Longrightarrow> inv (snd (put_file p b s))"
    and replaces: "inv s \<Longrightarrow> \<not> scratch p \<Longrightarrow> put_file p b s = (Ok r, s') \<Longrightarrow> file_of s' p = Some b"
    and or_keeps: "inv s \<Longrightarrow> \<not> scratch p \<Longrightarrow> put_file p b s = (Err e, s') \<Longrightarrow> file_of s' p = file_of s p"
    and frame: "inv s \<Longrightarrow> q \<noteq> p \<Longrightarrow> \<not> scratch q \<Longrightarrow> file_of (snd (put_file p b s)) q = file_of s q"
begin

lemma all_or_nothing:
  assumes "inv s" "\<not> scratch p" "\<not> scratch q"
  shows "file_of (snd (put_file p b s)) q = file_of s q \<or> q = p \<and> file_of (snd (put_file p b s)) q = Some b"
proof (cases "q = p")
  case True
  then show ?thesis
    using replaces [OF assms(1,2)] or_keeps [OF assms(1,2)]
    by (cases "put_file p b s"; cases "fst (put_file p b s)") auto
qed (use frame [OF assms(1) _ assms(3)] in auto)

lemma same_content_kept:
  "inv s \<Longrightarrow> \<not> scratch p \<Longrightarrow> \<not> scratch q \<Longrightarrow> file_of s p = Some b \<Longrightarrow> file_of (snd (put_file p b s)) q = file_of s q"
  using all_or_nothing [of s p q b] by auto

end

section \<open>Lemmas: the calls\<close>

lemma bind_io_Ok: "bind_io m f s = (Ok b, s') \<longleftrightarrow> (\<exists>a t. m s = (Ok a, t) \<and> f a t = (Ok b, s'))"
  by (auto simp: bind_io_def split: prod.splits result.splits)

lemma bind_io_Err:
  "bind_io m f s = (Err e, s') \<longleftrightarrow> m s = (Err e, s') \<or> (\<exists>a t. m s = (Ok a, t) \<and> f a t = (Err e, s'))"
  by (auto simp: bind_io_def split: prod.splits result.splits)

lemma bind_io_run:
  "m s = (Ok a, t) \<Longrightarrow> bind_io m f s = f a t" "m s = (Err e, t) \<Longrightarrow> bind_io m f s = (Err e, t)"
  "bind_io (lift_io (Ok a)) f s = f a s" "bind_io (lift_io (Err e)) f s = (Err e, s)"
  "bind_io (return_io a) f s = f a s" "bind_io (fail_io e) f s = (Err e, s)"
  by (simp_all add: bind_io_def lift_io_def return_io_def fail_io_def)

lemma bind_io_bool:
  "m s = (Ok True, t) \<Longrightarrow> bind_io m f s = f True t" "m s = (Ok False, t) \<Longrightarrow> bind_io m g s = g False t"
  by (simp_all add: bind_io_def)

lemma io_simps [simp]:
  "return_io a s = (r, s') \<longleftrightarrow> r = Ok a \<and> s' = s" "fail_io e s = (r, s') \<longleftrightarrow> r = Err e \<and> s' = s"
  "lift_io x s = (r, s') \<longleftrightarrow> r = x \<and> s' = s"
  by (auto simp: return_io_def fail_io_def lift_io_def)

text \<open>Two states with the same files, and steps that may only change the files in a set.\<close>

definition same_nodes :: "fs \<Rightarrow> fs \<Rightarrow> bool" where
  "same_nodes s s' \<longleftrightarrow> nodes s' = nodes s"

definition touches :: "(path \<Rightarrow> bool) \<Rightarrow> fs \<Rightarrow> fs \<Rightarrow> bool" where
  "touches X s s' \<longleftrightarrow> (fs_inv s \<longrightarrow> fs_inv s') \<and> (fs_inv s \<longrightarrow> (\<forall>q. \<not> X q \<longrightarrow> content s' q = content s q))"

lemma same_nodes_content [simp]: "same_nodes s s' \<Longrightarrow> content s' = content s" "same_nodes s s' \<Longrightarrow> fs_inv s' = fs_inv s"
  "same_nodes s s' \<Longrightarrow> is_dir_node s' = is_dir_node s"
  by (auto simp: same_nodes_def content_def fs_inv_def is_dir_node_def fun_eq_iff)

lemma same_nodes_faults [simp]: "same_nodes s (s\<lparr>faults := f\<rparr>)"
  by (simp add: same_nodes_def)

lemma content_faults [simp]: "content (s\<lparr>faults := f\<rparr>) = content s" "fs_inv (s\<lparr>faults := f\<rparr>) = fs_inv s"
  by (simp_all add: content_def fs_inv_def fun_eq_iff)

lemma same_nodes_refl [simp]: "same_nodes s s"
  by (simp add: same_nodes_def)

lemma same_nodes_trans: "same_nodes s t \<Longrightarrow> same_nodes t u \<Longrightarrow> same_nodes s u"
  by (simp add: same_nodes_def)

lemma touches_same: "same_nodes s s' \<Longrightarrow> touches X s s'"
  by (simp add: touches_def)

lemma touches_refl [simp]: "touches X s s"
  by (simp add: touches_def)

lemma touches_trans: "touches X s t \<Longrightarrow> touches X t u \<Longrightarrow> touches X s u"
  by (auto simp: touches_def)

lemma touches_mono: "touches X s s' \<Longrightarrow> (\<And>q. X q \<Longrightarrow> Y q) \<Longrightarrow> touches Y s s'"
  by (auto simp: touches_def)

lemma next_fault_nodes: "next_fault s = (f, s') \<Longrightarrow> same_nodes s s'"
  by (auto simp: next_fault_def same_nodes_def split: list.splits)

lemma no_next_fault: "faults s = [] \<Longrightarrow> next_fault s = (None, s)"
  by (simp add: next_fault_def)

lemma probe_nodes: "probe f s = (r, s') \<Longrightarrow> same_nodes s s' \<and> is_ok r"
  by (auto simp: probe_def dest: next_fault_nodes split: prod.splits option.splits)

lemma perform_cases:
  assumes "perform f s = (r, s')"
  obtains (fault) e where "r = Err (RepoIo e)" "same_nodes s s'"
  | (run) t x where "same_nodes s t" "f t = (x, s')" "r = map_err RepoIo x"
  using assms next_fault_nodes by (fastforce simp: perform_def split: prod.splits option.splits)

lemma read_file_nodes: "read_file p s = (r, s') \<Longrightarrow> same_nodes s s' \<and> (\<forall>b. r = Ok b \<longrightarrow> content s p = Some b)"
  unfolding read_file_def by (erule perform_cases) (auto dest: same_nodes_content)

lemma read_file_content: "faults s = [] \<Longrightarrow> content s p = Some b \<Longrightarrow> read_file p s = (Ok b, s)"
  by (simp add: read_file_def perform_def no_next_fault)

lemma read_to_string_nodes:
  "read_to_string p s = (r, s') \<Longrightarrow> same_nodes s s' \<and> (\<forall>b. r = Ok b \<longrightarrow> content s p = Some b \<and> is_utf8 b)"
  by (cases r) (auto simp: read_to_string_def bind_io_Ok bind_io_Err split: if_splits dest: read_file_nodes)

lemma make_dirs_files:
  "bt_inv m \<Longrightarrow> make_dirs ps m = (r, m') \<Longrightarrow> bt_inv m' \<and> (\<forall>q b. bt_get m' q = Some (File b) \<longleftrightarrow> bt_get m q = Some (File b))"
proof (induction ps arbitrary: m)
  case (Cons p ps)
  show ?case
  proof (cases "bt_get m p")
    case None
    then show ?thesis using Cons.prems Cons.IH [of "bt_insert p Dir m"] by (auto simp: btm.get_insert)
  next
    case (Some n)
    then show ?thesis using Cons by (cases n) auto
  qed
qed simp

lemma content_eq_iff: "content s' q = content s q" if "\<And>b. bt_get (nodes s') q = Some (File b) \<longleftrightarrow> bt_get (nodes s) q = Some (File b)"
proof -
  have "content s' q = Some b \<longleftrightarrow> content s q = Some b" for b
    using that [of b] by (auto simp: content_def split: option.splits node.splits)
  then show ?thesis by (metis option.exhaust)
qed

lemma create_dir_all_files: "create_dir_all p s = (r, s') \<Longrightarrow> touches (\<lambda>_. False) s s'"
proof -
  assume run: "create_dir_all p s = (r, s')"
  obtain f t where f: "next_fault s = (f, t)" by force
  then have t: "nodes t = nodes s" using next_fault_nodes by (auto simp: same_nodes_def)
  have "\<exists>ps x. make_dirs ps (nodes s) = (x, nodes s')"
  proof (cases f)
    case None
    then show ?thesis using run f t
      by (cases "make_dirs (path_prefixes p) (nodes s)") (auto simp: create_dir_all_def intro!: exI [of _ "path_prefixes p"])
  next
    case (Some fault)
    obtain n e where "fault = (n, e)" by force
    then show ?thesis using run f t Some
      by (cases "make_dirs (take n (path_prefixes p)) (nodes s)")
         (auto simp: create_dir_all_def intro!: exI [of _ "take n (path_prefixes p)"])
  qed
  then obtain ps x where "make_dirs ps (nodes s) = (x, nodes s')" by blast
  then show ?thesis
    using make_dirs_files [of "nodes s" ps x "nodes s'"] content_eq_iff [of s' _ s]
    unfolding touches_def fs_inv_def by blast
qed

lemma set_file_content: "content (set_file p b s) = (content s)(p \<mapsto> b)"
  by (auto simp: content_def set_file_def bt_get_insert fun_eq_iff)

lemma set_file_inv: "fs_inv s \<Longrightarrow> fs_inv (set_file p b s)"
  by (simp add: fs_inv_def set_file_def)

lemma remove_node_content: "fs_inv s \<Longrightarrow> content (s\<lparr>nodes := bt_remove p (nodes s)\<rparr>) = (content s)(p := None)"
  by (auto simp: content_def fs_inv_def btm.get_remove fun_eq_iff)

lemma create_file_touches: "create_file p s = (r, s') \<Longrightarrow> touches (\<lambda>q. q = p) s s'"
  unfolding create_file_def
  by (erule perform_cases) (auto simp: touches_def set_file_content set_file_inv split: if_splits dest: same_nodes_content)

lemma write_all_touches: "write_all p b s = (r, s') \<Longrightarrow> touches (\<lambda>q. q = p) s s' \<and> (r = Ok () \<longrightarrow> content s' p = Some b)"
  by (auto simp: write_all_def touches_def set_file_content set_file_inv split: prod.splits option.splits
      dest!: next_fault_nodes dest: same_nodes_content)

lemma sync_all_same: "sync_all p s = (r, s') \<Longrightarrow> same_nodes s s'"
  unfolding sync_all_def by (erule perform_cases) auto

lemma rename_cases:
  assumes "rename p q s = (r, s')" "fs_inv s"
  obtains (failed) e where "r = Err e" "same_nodes s s'"
  | (moved) b where "r = Ok ()" "content s p = Some b" "content s' = (content s)(p := None, q \<mapsto> b)" "fs_inv s'"
  using assms(1) unfolding rename_def
proof (cases rule: perform_cases)
  case (run t x)
  have t: "fs_inv t" "content t = content s" using run(1) assms(2) by auto
  show ?thesis
  proof (cases "content t p")
    case (Some b)
    show ?thesis
    proof (cases "is_dir_node t q \<or> \<not> is_dir_node t (butlast q)")
      case False
      then have "x = Ok ()" "s' = set_file q b (t\<lparr>nodes := bt_remove p (nodes t)\<rparr>)" using run(2) Some by auto
      moreover have "fs_inv (t\<lparr>nodes := bt_remove p (nodes t)\<rparr>)" using t(1) by (simp add: fs_inv_def)
      ultimately show ?thesis
        using that(2) [of b] run(3) Some t by (simp add: set_file_content set_file_inv remove_node_content)
    qed (use that(1) run Some in \<open>auto split: if_splits\<close>)
  qed (use that(1) run in auto)
qed (use that(1) in auto)

section \<open>Publishing is atomic\<close>

lemma timestamp_nodes: "timestamp s = (n, s') \<Longrightarrow> same_nodes s s'"
  by (auto simp: timestamp_def same_nodes_def split: list.splits)

lemma publish_cases:
  assumes "publish prefix p b s = (r, s')" "fs_inv s"
  shows "fs_inv s' \<and> (\<forall>q. q \<noteq> p \<and> \<not> is_temp prefix q \<longrightarrow> content s' q = content s q)
    \<and> (\<not> is_temp prefix p \<longrightarrow> (case r of Ok _ \<Rightarrow> content s' p = Some b | Err _ \<Rightarrow> content s' p = content s p))"
proof -
  obtain r1 s1 where c1: "create_dir_all (butlast p) s = (r1, s1)" by force
  obtain n s2 where c2: "timestamp s1 = (n, s2)" by force
  let ?t = "butlast p @ [temp_name prefix (process_id s2) n]"
  have temp: "is_temp prefix ?t" by (simp add: is_temp_def temp_name_def starts_with_iff)
  let ?X = "\<lambda>q. q = ?t"
  have s2: "touches ?X s s2"
    using touches_mono [OF create_dir_all_files [OF c1], of ?X] touches_same [OF timestamp_nodes [OF c2]] touches_trans by blast
  have quiet: "?thesis" if "touches ?X s s'" "is_err r"
  proof -
    have "q \<noteq> ?t" if "\<not> is_temp prefix q" for q using that temp by blast
    then have "content s' q = content s q" if "\<not> is_temp prefix q" for q
      using that \<open>touches ?X s s'\<close> assms(2) unfolding touches_def by blast
    then show ?thesis using \<open>touches ?X s s'\<close> \<open>is_err r\<close> assms(2) unfolding touches_def by (cases r) auto
  qed
  show ?thesis
  proof (cases r1)
    case (Err e)
    then have "touches ?X s s'" "is_err r"
      using assms(1) c1 touches_mono [OF create_dir_all_files [OF c1], of ?X]
      by (auto simp: publish_def bind_io_def)
    then show ?thesis by (rule quiet)
  next
    case (Ok u)
    then have run: "bind_io (create_file ?t) (\<lambda>_. bind_io (write_all ?t b) (\<lambda>_. bind_io (sync_all ?t) (\<lambda>_. rename ?t p))) s2 = (r, s')"
      using assms(1) c1 c2 by (simp add: publish_def bind_io_def [of "create_dir_all (butlast p)"] Let_def)
    obtain r3 s3 where c3: "create_file ?t s2 = (r3, s3)" by force
    obtain r4 s4 where c4: "write_all ?t b s3 = (r4, s4)" by force
    obtain r5 s5 where c5: "sync_all ?t s4 = (r5, s5)" by force
    have s3: "touches ?X s s3" using s2 create_file_touches [OF c3] touches_trans by blast
    have s4: "touches ?X s s4" "r4 = Ok () \<Longrightarrow> content s4 ?t = Some b"
      using s3 write_all_touches [OF c4] touches_trans by blast+
    have s5: "touches ?X s s5" "content s5 = content s4" "fs_inv s5"
      using s4 touches_same [OF sync_all_same [OF c5]] touches_trans sync_all_same [OF c5] assms(2)
      by (blast, simp, metis touches_def)
    show ?thesis
    proof (cases "is_ok r3 \<and> is_ok r4 \<and> is_ok r5")
      case True
      then have rn: "rename ?t p s5 = (r, s')" and ok: "r4 = Ok ()"
        using run c3 c4 c5 by (auto simp: bind_io_def is_ok_iff)
      from rn s5(3) show ?thesis
      proof (cases rule: rename_cases)
        case (failed e)
        then have "touches ?X s s'" using s5(1) touches_same touches_trans by blast
        then show ?thesis using failed by (intro quiet) simp_all
      next
        case (moved c)
        then have "content s' q = content s q" if "q \<noteq> p" "\<not> is_temp prefix q" for q
          using s5(1) assms(2) that temp unfolding touches_def by (metis fun_upd_other)
        moreover have "c = b" using moved(2) s4(2) [OF ok] s5(2) by simp
        ultimately show ?thesis using moved by simp
      qed
    next
      case False
      then have "is_err r \<and> (s' = s3 \<or> s' = s4 \<or> s' = s5)"
        using run c3 c4 c5 by (cases r3; cases r4; cases r5) (auto simp: bind_io_def)
      then show ?thesis using s3 s4(1) s5(1) quiet by blast
    qed
  qed
qed

lemma remove_file_touches: "remove_file p s = (r, s') \<Longrightarrow> touches (\<lambda>q. q = p) s s'"
  unfolding remove_file_def
proof (erule perform_cases)
  fix t x
  assume t: "same_nodes s t" and run: "(case content t p of None \<Rightarrow> (Err ''No such file or directory'', t)
      | Some _ \<Rightarrow> (Ok (), t\<lparr>nodes := bt_remove p (nodes t)\<rparr>)) = (x, s')"
  show "touches (\<lambda>q. q = p) s s'"
  proof (cases "content t p")
    case None
    then show ?thesis using t run by (simp add: touches_same)
  next
    case (Some b)
    then have "s' = t\<lparr>nodes := bt_remove p (nodes t)\<rparr>" using run by simp
    moreover have "content t = content s" "fs_inv t = fs_inv s" using t by simp_all
    moreover have "fs_inv t \<Longrightarrow> fs_inv (t\<lparr>nodes := bt_remove p (nodes t)\<rparr>)" by (simp add: fs_inv_def)
    ultimately show ?thesis by (simp add: touches_def remove_node_content)
  qed
qed (simp add: touches_same)

interpretation pub: atomic_files "publish prefix" content "is_temp prefix" fs_inv for prefix
proof
  fix s p b r s' e q
  assume inv: "fs_inv s"
  show "\<not> is_temp prefix p \<Longrightarrow> publish prefix p b s = (Ok r, s') \<Longrightarrow> content s' p = Some b"
    and "\<not> is_temp prefix p \<Longrightarrow> publish prefix p b s = (Err e, s') \<Longrightarrow> content s' p = content s p"
    using publish_cases [OF _ inv] by fastforce+
  show "q \<noteq> p \<Longrightarrow> \<not> is_temp prefix q \<Longrightarrow> content (snd (publish prefix p b s)) q = content s q"
    and "fs_inv (snd (publish prefix p b s))"
    using publish_cases [OF prod.collapse [symmetric] inv] by blast+
qed

section \<open>Publishing succeeds without faults\<close>

lemma make_dirs_ok:
  assumes "\<forall>q \<in> set ps. \<forall>b. bt_get m q \<noteq> Some (File b)"
  shows "\<exists>m'. make_dirs ps m = (Ok (), m') \<and> (\<forall>q. bt_get m' q = (if q \<in> set ps then Some Dir else bt_get m q))"
  using assms
proof (induction ps arbitrary: m)
  case (Cons p ps)
  show ?case
  proof (cases "bt_get m p")
    case None
    have "\<forall>q \<in> set ps. \<forall>b. bt_get (bt_insert p Dir m) q \<noteq> Some (File b)"
      using Cons.prems by (auto simp: bt_get_insert)
    then obtain m' where "make_dirs ps (bt_insert p Dir m) = (Ok (), m')"
        "\<forall>q. bt_get m' q = (if q \<in> set ps then Some Dir else bt_get (bt_insert p Dir m) q)"
      using Cons.IH [of "bt_insert p Dir m"] by blast
    then show ?thesis using None by (auto simp: bt_get_insert)
  next
    case (Some n)
    then have "n = Dir" using Cons.prems by (cases n) auto
    then show ?thesis using Some Cons.IH [of m] Cons.prems by auto
  qed
qed simp

lemma content_None_iff: "content s q = None \<longleftrightarrow> (\<forall>b. bt_get (nodes s) q \<noteq> Some (File b))"
  by (auto simp: content_def split: option.splits node.splits)

lemma path_prefixes_length: "q \<in> set (path_prefixes p) \<Longrightarrow> length q \<le> length p"
  by (auto simp: path_prefixes_def)

lemma self_in_prefixes: "p \<in> set (path_prefixes p)"
  by (auto simp: path_prefixes_def intro!: image_eqI [of _ _ "length p"])

lemma publish_ok:
  assumes "faults s = []" "fs_inv s" "p \<noteq> []" "writable s p" "\<not> is_temp prefix p"
    and "\<And>t. is_temp prefix t \<Longrightarrow> \<not> is_dir_node s t"
  shows "\<exists>s'. publish prefix p b s = (Ok (), s') \<and> faults s' = []
     \<and> (\<forall>q. is_dir_node s' q \<longleftrightarrow> is_dir_node s q \<or> q \<in> set (path_prefixes (butlast p)))"
proof -
  let ?ps = "path_prefixes (butlast p)"
  obtain m where m: "make_dirs ?ps (nodes s) = (Ok (), m)" "\<And>q. bt_get m q = (if q \<in> set ?ps then Some Dir else bt_get (nodes s) q)"
    using make_dirs_ok [of ?ps "nodes s"] assms(4) unfolding writable_def content_None_iff by blast
  let ?s1 = "s\<lparr>nodes := m\<rparr>"
  have c1: "create_dir_all (butlast p) s = (Ok (), ?s1)"
    using m(1) by (simp add: create_dir_all_def no_next_fault assms(1))
  have inv1: "bt_inv m" using make_dirs_files [OF assms(2) [unfolded fs_inv_def] m(1)] by simp
  obtain n s2 where c2: "timestamp ?s1 = (n, s2)" by force
  then have s2: "nodes s2 = m" "faults s2 = []"
    using assms(1) by (auto simp: timestamp_def split: list.splits)
  let ?t = "butlast p @ [temp_name prefix (process_id s2) n]"
  have temp: "is_temp prefix ?t" by (simp add: is_temp_def temp_name_def starts_with_iff)
  have long: "q \<notin> set ?ps" if "length q = length p" for q
    using that path_prefixes_length [of q "butlast p"] assms(3) by (cases p) auto
  have len: "length ?t = length p" using assms(3) by (cases p) auto
  have dirs: "is_dir_node s2 (butlast p)" "\<not> is_dir_node s2 ?t" "\<not> is_dir_node s2 p"
    using s2(1) m(2) self_in_prefixes [of "butlast p"] assms(6) [OF temp] long [OF len] long [of p] assms(4)
    by (auto simp: is_dir_node_def writable_def)
  let ?s3 = "set_file ?t [] s2"
  let ?s4 = "set_file ?t b ?s3"
  have f: "faults ?s3 = []" "faults ?s4 = []" using s2(2) by (simp_all add: set_file_def)
  have c3: "create_file ?t s2 = (Ok (), ?s3)"
    using dirs s2(2) by (simp add: create_file_def perform_def no_next_fault)
  have c4: "write_all ?t b ?s3 = (Ok (), ?s4)" using f(1) by (simp add: write_all_def no_next_fault)
  have c5: "sync_all ?t ?s4 = (Ok (), ?s4)" using f(2) by (simp add: sync_all_def perform_def no_next_fault)
  have ne: "p \<noteq> ?t" "butlast p \<noteq> ?t" using temp assms(5) by (metis, simp)
  have d4: "is_dir_node ?s4 q \<longleftrightarrow> q \<noteq> ?t \<and> is_dir_node s2 q" for q
    by (auto simp: is_dir_node_def set_file_def bt_get_insert)
  let ?s5 = "set_file p b (?s4\<lparr>nodes := bt_remove ?t (nodes ?s4)\<rparr>)"
  have c6: "rename ?t p ?s4 = (Ok (), ?s5)"
    using d4 dirs ne f(2) by (simp add: rename_def perform_def no_next_fault set_file_content)
  have inv4: "bt_inv (nodes ?s4)" using s2(1) inv1 by (simp add: set_file_def)
  have "is_dir_node ?s5 q \<longleftrightarrow> is_dir_node s q \<or> q \<in> set ?ps" for q
  proof -
    have "is_dir_node ?s5 q \<longleftrightarrow> q \<noteq> p \<and> q \<noteq> ?t \<and> is_dir_node s2 q"
      using inv4 by (auto simp: is_dir_node_def set_file_def bt_get_insert btm.get_remove)
    then show ?thesis using dirs m(2) s2(1) by (auto simp: is_dir_node_def)
  qed
  moreover have "publish prefix p b s = (Ok (), ?s5)"
    using c1 c2 c3 c4 c5 c6 by (simp add: publish_def bind_io_run Let_def)
  moreover have "faults ?s5 = []" using f(2) by (simp add: set_file_def)
  ultimately show ?thesis by blast
qed

section \<open>No fault comes from nowhere\<close>

text \<open>A call that started without pending faults ends without pending faults.\<close>

definition calm :: "'a io \<Rightarrow> bool" where
  "calm m \<longleftrightarrow> (\<forall>s. faults s = [] \<longrightarrow> faults (snd (m s)) = [])"

named_theorems calm_intros \<open>calls that add no faults\<close>

lemma calm_run: "calm m \<Longrightarrow> m s = (r, s') \<Longrightarrow> faults s = [] \<Longrightarrow> faults s' = []"
  unfolding calm_def by (metis snd_conv)

lemma calm_basic [calm_intros]: "calm (return_io a)" "calm (fail_io e)" "calm (lift_io r)"
  by (simp_all add: calm_def return_io_def fail_io_def lift_io_def)

lemma calm_bind [calm_intros]: "calm m \<Longrightarrow> (\<And>a. calm (f a)) \<Longrightarrow> calm (bind_io m f)"
  unfolding calm_def bind_io_def by (auto split: prod.splits result.splits)

lemma calm_if [calm_intros]: "calm m \<Longrightarrow> calm n \<Longrightarrow> calm (if b then m else n)"
  by simp

lemma calm_case [calm_intros]: "calm m \<Longrightarrow> (\<And>a. calm (f a)) \<Longrightarrow> calm (case x of None \<Rightarrow> m | Some a \<Rightarrow> f a)"
  by (cases x) auto

lemma calm_ok [calm_intros]: "calm m \<Longrightarrow> calm (ok_io m)"
  unfolding calm_def ok_io_def by (auto split: prod.splits result.splits)

lemma calm_perform: "(\<And>s. faults (snd (f s)) = faults s) \<Longrightarrow> calm (perform f)"
  by (auto simp: calm_def perform_def no_next_fault split: prod.splits) (metis snd_conv)

lemma calm_probe [calm_intros]: "calm (path_exists p)" "calm (path_is_dir p)" "calm (path_is_file p)"
  by (simp_all add: calm_def path_exists_def path_is_dir_def path_is_file_def probe_def no_next_fault)

lemma calm_calls [calm_intros]:
  "calm (read_file p)" "calm (create_file p)" "calm (sync_all p)" "calm (rename p q)" "calm (remove_file p)" "calm (read_dir p)"
  unfolding read_file_def create_file_def sync_all_def rename_def remove_file_def read_dir_def
  by (rule calm_perform; simp add: set_file_def split: option.splits)+

lemma calm_writes [calm_intros]: "calm (write_all p b)" "calm (create_dir_all p)"
  by (auto simp: calm_def write_all_def create_dir_all_def no_next_fault set_file_def split: prod.splits)

lemma calm_read_to_string [calm_intros]: "calm (read_to_string p)"
  unfolding read_to_string_def by (intro calm_intros)

lemma calm_each [calm_intros]: "(\<And>x. calm (f x)) \<Longrightarrow> calm (each_io f xs)"
  by (induction xs) (auto intro: calm_intros)

lemma calm_publish [calm_intros]: "calm (publish prefix p b)"
  unfolding publish_def
proof (intro calm_bind calm_intros)
  fix u
  have inner: "calm (bind_io (create_file t) (\<lambda>_. bind_io (write_all t b) (\<lambda>_. bind_io (sync_all t) (\<lambda>_. rename t p))))" for t
    by (intro calm_intros)
  show "calm (\<lambda>s. case timestamp s of (n, s') \<Rightarrow>
       (let temp = butlast p @ [temp_name prefix (process_id s') n]
        in bind_io (create_file temp) (\<lambda>_. bind_io (write_all temp b) (\<lambda>_. bind_io (sync_all temp) (\<lambda>_. rename temp p)))) s')"
    using inner unfolding calm_def by (auto simp: timestamp_def Let_def split: list.splits)
qed

section \<open>What a program can touch\<close>

definition only :: "(path \<Rightarrow> bool) \<Rightarrow> 'a io \<Rightarrow> bool" where
  "only X m \<longleftrightarrow> (\<forall>s. touches X s (snd (m s)))"

named_theorems only_intros \<open>programs that only touch some files\<close>

lemma onlyI: "(\<And>s r s'. m s = (r, s') \<Longrightarrow> touches X s s') \<Longrightarrow> only X m"
  unfolding only_def by (metis prod.collapse)

lemma only_run: "only X m \<Longrightarrow> m s = (r, s') \<Longrightarrow> touches X s s'"
  unfolding only_def by (metis snd_conv)

lemma only_basic [only_intros]: "only X (return_io a)" "only X (fail_io e)" "only X (lift_io r)"
  by (simp_all add: only_def return_io_def fail_io_def lift_io_def)

lemma only_bind [only_intros]: "only X m \<Longrightarrow> (\<And>a. only X (f a)) \<Longrightarrow> only X (bind_io m f)"
  unfolding only_def bind_io_def by (auto split: prod.splits result.splits) (metis snd_conv touches_trans)+

lemma only_bind_lift: "(\<And>a. r = Ok a \<Longrightarrow> only X (f a)) \<Longrightarrow> only X (bind_io (lift_io r) f)"
  by (cases r) (auto simp: only_def bind_io_run)

lemma only_if [only_intros]: "only X m \<Longrightarrow> only X n \<Longrightarrow> only X (if b then m else n)"
  by simp

lemma only_case [only_intros]: "only X m \<Longrightarrow> (\<And>a. only X (f a)) \<Longrightarrow> only X (case x of None \<Rightarrow> m | Some a \<Rightarrow> f a)"
  by (cases x) auto

lemma only_ok [only_intros]: "only X m \<Longrightarrow> only X (ok_io m)"
  unfolding only_def ok_io_def by (auto split: prod.splits result.splits) (metis snd_conv)+

lemma only_probe [only_intros]: "only X (path_exists p)" "only X (path_is_dir p)" "only X (path_is_file p)"
  unfolding path_exists_def path_is_dir_def path_is_file_def
  by (rule onlyI, drule probe_nodes, simp add: touches_same)+

lemma only_reads [only_intros]: "only X (read_file p)" "only X (read_to_string p)" "only X (read_dir p)"
proof -
  show "only X (read_file p)"
    by (rule onlyI) (drule read_file_nodes, simp add: touches_same)
  then show "only X (read_to_string p)" unfolding read_to_string_def by (intro only_intros)
  have "touches X s s'" if "read_dir p s = (r, s')" for s r s'
    using that unfolding read_dir_def by (cases rule: perform_cases) (auto intro: touches_same split: if_splits)
  then show "only X (read_dir p)" by (rule onlyI)
qed

lemma only_remove [only_intros]: "X p \<Longrightarrow> only X (remove_file p)"
  by (rule onlyI, drule remove_file_touches, erule touches_mono, simp)

lemma only_create [only_intros]: "X p \<Longrightarrow> only X (create_file p)" "only X (create_dir_all p)"
  by (rule onlyI, drule create_file_touches, erule touches_mono, simp)
     (rule onlyI, drule create_dir_all_files, erule touches_mono, simp)

lemma only_publish: "X p \<Longrightarrow> (\<And>q. is_temp prefix q \<Longrightarrow> X q) \<Longrightarrow> only X (publish prefix p b)"
proof (rule onlyI)
  fix s r s'
  assume X: "X p" "\<And>q. is_temp prefix q \<Longrightarrow> X q" and run: "publish prefix p b s = (r, s')"
  show "touches X s s'"
    using publish_cases [OF run] X unfolding touches_def by metis
qed

lemma only_each [only_intros]: "(\<And>x. only X (f x)) \<Longrightarrow> only X (each_io f xs)"
  by (induction xs) (auto intro: only_intros)

lemma only_mono: "only X m \<Longrightarrow> (\<And>q. X q \<Longrightarrow> Y q) \<Longrightarrow> only Y m"
  unfolding only_def using touches_mono by metis

lemma only_inv: "only X m \<Longrightarrow> fs_inv s \<Longrightarrow> fs_inv (snd (m s))"
  unfolding only_def touches_def by blast

lemma only_keeps: "only X m \<Longrightarrow> fs_inv s \<Longrightarrow> \<not> X q \<Longrightarrow> content (snd (m s)) q = content s q"
  unfolding only_def touches_def by blast

end
