(* ===== verification/Object_Store.thy ===== *)
theory Object_Store
  imports Vault_Fs "HOL-Library.Countable"
begin

text \<open>
  \<open>object.rs\<close> and \<open>store.rs\<close>: the canonical envelope of an object, its content-derived id, and the store of
  objects under \<open>objects/sha256\<close>.  \<open>serde_json\<close> and \<open>sha2\<close> with \<open>hex\<close> are the record \<open>repo_codec\<close>; what the store relies on
  is \<open>repo_codec_ok\<close>: encoding succeeds, decoding inverts it, and a digest is 64 lowercase hexadecimal digits.
\<close>

section \<open>Objects\<close>

datatype object_type =
    ConfigValue | ManifestObject | CommitObject | PolicyObject | PolicyPackReference | EnvironmentDefinition
  | SecretRevisionMetadata

fun object_type_debug :: "object_type \<Rightarrow> string" where
  "object_type_debug ConfigValue = ''ConfigValue''"
| "object_type_debug ManifestObject = ''Manifest''"
| "object_type_debug CommitObject = ''Commit''"
| "object_type_debug PolicyObject = ''Policy''"
| "object_type_debug PolicyPackReference = ''PolicyPackReference''"
| "object_type_debug EnvironmentDefinition = ''EnvironmentDefinition''"
| "object_type_debug SecretRevisionMetadata = ''SecretRevisionMetadata''"

record object_envelope =
  env_format :: u16
  env_type :: object_type
  env_payload :: string

definition OBJECT_FORMAT_VERSION :: u16 where
  "OBJECT_FORMAT_VERSION = 1"

definition new_envelope :: "object_type \<Rightarrow> string \<Rightarrow> object_envelope" where
  "new_envelope t payload = \<lparr>env_format = OBJECT_FORMAT_VERSION, env_type = t, env_payload = payload\<rparr>"

text \<open>A commit, as \<open>commit.rs\<close> has it; the signature is the hexadecimal or raw form the codec uses.\<close>

record commit =
  com_format :: u16
  com_parents :: "commit_id list"
  com_manifest :: object_id
  com_author :: string
  com_message :: string
  com_signature :: string

datatype staged_change = StagedSet manifest_entry | StagedRemove

type_synonym staging_index = "(variable_name, staged_change) bt_map"

record repo_codec =
  enc_envelope :: "object_envelope \<Rightarrow> (string, string) result"
  dec_envelope :: "string \<Rightarrow> (object_envelope, string) result"
  enc_manifest :: "manifest \<Rightarrow> (string, string) result"
  dec_manifest :: "string \<Rightarrow> (manifest, string) result"
  enc_commit :: "commit \<Rightarrow> (string, string) result"
  dec_commit :: "string \<Rightarrow> (commit, string) result"
  enc_signable :: "u16 \<times> commit_id list \<times> object_id \<times> string \<times> string \<Rightarrow> (string, string) result"
  enc_index :: "staging_index \<Rightarrow> (string, string) result"
  dec_index :: "string \<Rightarrow> (staging_index, string) result"
  enc_protection :: "bool \<Rightarrow> (string, string) result"
  dec_protection :: "string \<Rightarrow> (bool, string) result"
  digest_hex :: "string \<Rightarrow> string"
  sign_bytes :: "string \<Rightarrow> string \<Rightarrow> string"
  verify_bytes :: "string \<Rightarrow> string \<Rightarrow> string \<Rightarrow> bool"

definition canonical_bytes :: "repo_codec \<Rightarrow> object_envelope \<Rightarrow> (string, repo_error) result" where
  "canonical_bytes c e = map_err RepoJson (enc_envelope c e)"

definition object_id_of :: "repo_codec \<Rightarrow> string \<Rightarrow> (object_id, repo_error) result" where
  "object_id_of c bytes = map_err IdConstruction (parse_object_id (''obj_'' @ digest_hex c bytes))"

section \<open>The store\<close>

definition OBJECTS :: path where
  "OBJECTS = [''objects'', ''sha256'']"

definition path_for :: "object_id \<Rightarrow> (path, repo_error) result" where
  "path_for id' =
     (case strip_prefix ''obj_'' id' of
        None \<Rightarrow> Err (ObjectNotFound id')
      | Some digest \<Rightarrow>
          if length digest \<noteq> 64 \<or> \<not> list_all is_ascii_hexdigit digest then Err (ObjectNotFound id')
          else Ok (OBJECTS @ [take 2 digest, drop 2 digest]))"

definition put :: "repo_codec \<Rightarrow> object_envelope \<Rightarrow> object_id io" where
  "put c e =
     (if env_format e \<noteq> OBJECT_FORMAT_VERSION
      then fail_io (ManifestMismatch (''unsupported envelope format '' @ dec_of_nat (unat (env_format e)) @ '' (expected 1)''))
      else
        bind_io (lift_io (canonical_bytes c e)) (\<lambda>canonical.
        bind_io (lift_io (object_id_of c canonical)) (\<lambda>id'.
        bind_io (lift_io (path_for id')) (\<lambda>p.
        bind_io (path_exists p) (\<lambda>present.
          if present
          then bind_io (read_file p) (\<lambda>existing.
                 if existing = canonical then return_io id'
                 else fail_io (CorruptObject id' ''refusing overwrite: existing content differs''))
          else bind_io (publish ''.tmp-'' p canonical) (\<lambda>_. return_io id'))))))"

definition get_object :: "repo_codec \<Rightarrow> object_id \<Rightarrow> object_envelope io" where
  "get_object c id' =
     bind_io (lift_io (path_for id')) (\<lambda>p.
     bind_io (path_exists p) (\<lambda>present.
       if \<not> present then fail_io (ObjectNotFound id')
       else bind_io (read_file p) (\<lambda>stored.
         if digest_hex c stored \<noteq> drop 4 id'
         then fail_io (CorruptObject id' (''sha256 mismatch (found '' @ digest_hex c stored @ '')''))
         else lift_io (map_err (\<lambda>e. CorruptObject id' (''payload does not decode: '' @ e)) (dec_envelope c stored)))))"

definition object_exists :: "object_id \<Rightarrow> bool io" where
  "object_exists id' = (case path_for id' of Ok p \<Rightarrow> path_exists p | Err _ \<Rightarrow> return_io False)"

definition is_hex_of_len :: "string \<Rightarrow> nat \<Rightarrow> bool" where
  "is_hex_of_len v n \<longleftrightarrow> length v = n \<and> list_all (\<lambda>ch. is_ascii_digit ch \<or> 97 \<le> byte_of ch \<and> byte_of ch \<le> 102) v"

definition verify_object :: "repo_codec \<Rightarrow> string \<Rightarrow> string \<Rightarrow> unit io" where
  "verify_object c shard name =
     (if starts_with ''.'' name \<or> \<not> is_hex_of_len name 62 then return_io ()
      else bind_io (lift_io (map_err IdConstruction (parse_object_id (''obj_'' @ shard @ name)))) (\<lambda>id'.
           bind_io (get_object c id') (\<lambda>_. return_io ())))"

definition verify_shard :: "repo_codec \<Rightarrow> string \<Rightarrow> unit io" where
  "verify_shard c shard =
     (if \<not> is_hex_of_len shard 2 then return_io ()
      else bind_io (read_dir (OBJECTS @ [shard])) (\<lambda>names. each_io (verify_object c shard) (sort names)))"

definition verify_all :: "repo_codec \<Rightarrow> unit io" where
  "verify_all c =
     bind_io (path_exists OBJECTS) (\<lambda>present.
       if \<not> present then return_io ()
       else bind_io (read_dir OBJECTS) (\<lambda>shards. each_io (verify_shard c) (sort shards)))"

section \<open>Reference definitions\<close>

definition valid_commit :: "commit \<Rightarrow> bool" where
  "valid_commit k \<longleftrightarrow>
     list_all (\<lambda>p. is_ok (parse_commit_id p)) (com_parents k) \<and> is_ok (parse_object_id (com_manifest k))
     \<and> is_ok (parse_identity_ref (com_author k)) \<and> is_utf8 (com_message k)"

fun valid_change :: "staged_change \<Rightarrow> bool" where
  "valid_change (StagedSet e) = valid_entry e"
| "valid_change StagedRemove = True"

definition valid_index :: "staging_index \<Rightarrow> bool" where
  "valid_index ix \<longleftrightarrow> bt_inv ix \<and> list_all (\<lambda>(n, ch). is_ok (parse_variable_name n) \<and> valid_change ch) ix"

text \<open>
  What the crate relies on: encoding a value built through the validating constructors succeeds and decoding
  inverts it, what decodes went through the constructors, and an encoded protection flag is one line that is
  not a commit id.
\<close>

definition repo_codec_ok :: "repo_codec \<Rightarrow> bool" where
  "repo_codec_ok c \<longleftrightarrow>
     (\<forall>e. \<exists>s. enc_envelope c e = Ok s \<and> dec_envelope c s = Ok e)
     \<and> (\<forall>b. is_hex_of_len (digest_hex c b) 64)
     \<and> (\<forall>m. valid_manifest m \<longrightarrow> (\<exists>t. enc_manifest c m = Ok t \<and> dec_manifest c t = Ok m))
     \<and> (\<forall>t m. dec_manifest c t = Ok m \<longrightarrow> valid_manifest m)
     \<and> (\<forall>k. valid_commit k \<longrightarrow> (\<exists>t. enc_commit c k = Ok t \<and> dec_commit c t = Ok k))
     \<and> (\<forall>t k. dec_commit c t = Ok k \<longrightarrow> valid_commit k)
     \<and> (\<forall>x. \<exists>t. enc_signable c x = Ok t)
     \<and> (\<forall>ix. valid_index ix \<longrightarrow> (\<exists>t. enc_index c ix = Ok t \<and> is_utf8 t \<and> dec_index c t = Ok ix))
     \<and> (\<forall>t ix. dec_index c t = Ok ix \<longrightarrow> valid_index ix)
     \<and> (\<forall>b. \<exists>t. enc_protection c b = Ok t \<and> is_utf8 t \<and> trim t = t \<and> t \<noteq> [] \<and> dec_protection c t = Ok b)
     \<and> (\<forall>t b. dec_protection c t = Ok b \<longrightarrow> is_err (parse_commit_id t))"

definition encoded :: "repo_codec \<Rightarrow> object_envelope \<Rightarrow> string" where
  "encoded c e = (case enc_envelope c e of Ok s \<Rightarrow> s | Err _ \<Rightarrow> [])"

definition digest_path :: "string \<Rightarrow> path" where
  "digest_path d = OBJECTS @ [take 2 d, drop 2 d]"

definition id_of :: "repo_codec \<Rightarrow> object_envelope \<Rightarrow> object_id" where
  "id_of c e = ''obj_'' @ digest_hex c (encoded c e)"

text \<open>The object an id stands for: what a reader without I/O failures gets.\<close>

definition stored :: "repo_codec \<Rightarrow> fs \<Rightarrow> object_id \<Rightarrow> object_envelope option" where
  "stored c s id' =
     (case path_for id' of
        Err _ \<Rightarrow> None
      | Ok p \<Rightarrow> (case content s p of
          None \<Rightarrow> None
        | Some b \<Rightarrow> if digest_hex c b = drop 4 id' then (case dec_envelope c b of Ok e \<Rightarrow> Some e | Err _ \<Rightarrow> None) else None))"

text \<open>Other content than the object's, with the object's digest, at the object's place.\<close>

definition clash :: "repo_codec \<Rightarrow> object_envelope \<Rightarrow> fs \<Rightarrow> bool" where
  "clash c e s \<longleftrightarrow>
     (\<exists>b. content s (digest_path (digest_hex c (encoded c e))) = Some b \<and> b \<noteq> encoded c e
          \<and> digest_hex c b = digest_hex c (encoded c e))"

section \<open>The contract of a content-addressed store\<close>

locale content_store =
  fixes put_obj :: "'o \<Rightarrow> 's \<Rightarrow> ('i, 'e) result \<times> 's"
    and lookup_obj :: "'s \<Rightarrow> 'i \<Rightarrow> 'o option"
    and inv :: "'s \<Rightarrow> bool"
    and collides :: "'o \<Rightarrow> 's \<Rightarrow> bool"
  assumes put_inv: "inv s \<Longrightarrow> inv (snd (put_obj ob s))"
    and put_found: "inv s \<Longrightarrow> put_obj ob s = (Ok i, s') \<Longrightarrow> lookup_obj s' i = Some ob"
    and put_keeps: "inv s \<Longrightarrow> \<not> collides ob s \<Longrightarrow> lookup_obj s i = Some x \<Longrightarrow> lookup_obj (snd (put_obj ob s)) i = Some x"
begin

lemma put_twice:
  assumes "inv s" "put_obj a s = (Ok i, s1)" "\<not> collides b s1" "put_obj b s1 = (r, s2)"
  shows "lookup_obj s2 i = Some a"
proof -
  have "inv s1" using put_inv [OF assms(1), of a] assms(2) by simp
  then show ?thesis using put_keeps [OF _ assms(3) put_found [OF assms(1,2)]] assms(4) by (metis snd_conv)
qed

end

section \<open>Lemmas\<close>

lemma hex_id_char: "is_hex_of_len d n \<Longrightarrow> list_all is_id_char d"
  by (auto simp: is_hex_of_len_def list_all_iff is_id_char_def is_ascii_lowercase_def)

lemma hex_not_underscore: "is_hex_of_len d n \<Longrightarrow> CHR ''_'' \<notin> set d"
  by (auto simp: is_hex_of_len_def list_all_iff is_ascii_digit_def)

lemma prefixes_have_underscore: "p \<in> set ID_PREFIXES \<Longrightarrow> CHR ''_'' \<in> set p"
  by (auto simp: ID_PREFIXES_def)

lemma parse_hex_ident:
  assumes "is_hex_of_len d n" "0 < n" "n \<le> MAX_ID_CONTENT_LEN" "prefix \<in> {''obj_'', ''cmt_'', ''aud_'', ''sec_'', ''sec_rev_''}"
  shows "parse_prefixed_id prefix (prefix @ d) = Ok (prefix @ d)"
proof -
  have "d \<noteq> []" using assms(1,2) by (auto simp: is_hex_of_len_def)
  have none: "\<not> starts_with p d" if "p \<in> set ID_PREFIXES" for p
    using prefixes_have_underscore [OF that] hex_not_underscore [OF assms(1)] by (auto simp: starts_with_iff)
  have "\<not> starts_with ''rev_'' d" using hex_not_underscore [OF assms(1)] by (auto simp: starts_with_iff)
  then have longer: "\<not> claimed_by_longer_registered_prefix (prefix @ d) prefix"
    using assms(4) by (auto simp: claimed_by_longer_registered_prefix_def ID_PREFIXES_def starts_with_iff)
  have "is_ascii d" using hex_id_char [OF assms(1)] is_id_char_ascii by blast
  then have "char_count d \<le> MAX_ID_CONTENT_LEN" using assms(1,3) by (simp add: char_count_ascii is_hex_of_len_def)
  then show ?thesis
    using \<open>d \<noteq> []\<close> hex_id_char [OF assms(1)] none longer assms(4)
    by (auto simp: parse_prefixed_id_def is_valid_id_content_def content_starts_with_registered_prefix_def list_ex_iff)
qed

lemma parse_hex_id:
  "is_hex_of_len d 64 \<Longrightarrow> prefix = ''obj_'' \<or> prefix = ''cmt_'' \<Longrightarrow> parse_prefixed_id prefix (prefix @ d) = Ok (prefix @ d)"
  by (rule parse_hex_ident [where n = 64]) (auto simp: MAX_ID_CONTENT_LEN_def)

lemma path_for_hex: "is_hex_of_len d 64 \<Longrightarrow> path_for (''obj_'' @ d) = Ok (digest_path d)"
  by (auto simp: path_for_def digest_path_def is_hex_of_len_def list_all_iff is_ascii_hexdigit_def)

lemma codec_facts:
  assumes "repo_codec_ok c"
  shows "enc_envelope c e = Ok (encoded c e)" "dec_envelope c (encoded c e) = Ok e" "is_hex_of_len (digest_hex c b) 64"
proof -
  obtain t where "enc_envelope c e = Ok t" "dec_envelope c t = Ok e" using assms unfolding repo_codec_ok_def by blast
  then show "enc_envelope c e = Ok (encoded c e)" "dec_envelope c (encoded c e) = Ok e" by (simp_all add: encoded_def)
  show "is_hex_of_len (digest_hex c b) 64" using assms unfolding repo_codec_ok_def by blast
qed

lemma codec_manifest:
  "repo_codec_ok c \<Longrightarrow> valid_manifest m \<Longrightarrow> \<exists>t. enc_manifest c m = Ok t \<and> dec_manifest c t = Ok m"
  "repo_codec_ok c \<Longrightarrow> dec_manifest c t = Ok m \<Longrightarrow> valid_manifest m"
  unfolding repo_codec_ok_def by blast+

lemma codec_commit:
  "repo_codec_ok c \<Longrightarrow> valid_commit k \<Longrightarrow> \<exists>t. enc_commit c k = Ok t \<and> dec_commit c t = Ok k"
  "repo_codec_ok c \<Longrightarrow> dec_commit c t = Ok k \<Longrightarrow> valid_commit k"
  "repo_codec_ok c \<Longrightarrow> \<exists>t. enc_signable c x = Ok t"
  unfolding repo_codec_ok_def by blast+

lemma codec_index:
  "repo_codec_ok c \<Longrightarrow> valid_index ix \<Longrightarrow> \<exists>t. enc_index c ix = Ok t \<and> is_utf8 t \<and> dec_index c t = Ok ix"
  "repo_codec_ok c \<Longrightarrow> dec_index c t = Ok ix \<Longrightarrow> valid_index ix"
  unfolding repo_codec_ok_def by blast+

lemma codec_protection:
  "repo_codec_ok c \<Longrightarrow> \<exists>t. enc_protection c b = Ok t \<and> is_utf8 t \<and> trim t = t \<and> t \<noteq> [] \<and> dec_protection c t = Ok b"
  "repo_codec_ok c \<Longrightarrow> dec_protection c t = Ok b \<Longrightarrow> is_err (parse_commit_id t)"
  unfolding repo_codec_ok_def by blast+

lemma digest_path_inj: "digest_path d = digest_path d' \<Longrightarrow> d = d'"
  unfolding digest_path_def by (metis append_take_drop_id list.inject same_append_eq)

lemma digest_path_not_temp: "is_hex_of_len d 64 \<Longrightarrow> \<not> is_temp ''.tmp-'' (digest_path d)"
proof
  assume d: "is_hex_of_len d 64" and "is_temp ''.tmp-'' (digest_path d)"
  then have "CHR ''.'' \<in> set (drop 2 d)" by (auto simp: is_temp_def digest_path_def starts_with_iff)
  then have "CHR ''.'' \<in> set d" using in_set_dropD by fast
  then show False using d by (auto simp: is_hex_of_len_def list_all_iff is_ascii_digit_def)
qed

lemma path_for_Ok: "path_for i = Ok p \<Longrightarrow> i = ''obj_'' @ drop 4 i \<and> p = digest_path (drop 4 i)"
  by (auto simp: path_for_def digest_path_def strip_prefix_Some_iff split: option.splits if_splits)

lemma id_of_path:
  "repo_codec_ok c \<Longrightarrow> path_for (id_of c e) = Ok (digest_path (digest_hex c (encoded c e)))"
  "repo_codec_ok c \<Longrightarrow> object_id_of c (encoded c e) = Ok (id_of c e)"
  unfolding id_of_def object_id_of_def
  by (rule path_for_hex, erule codec_facts(3)) (subst parse_hex_id; simp add: codec_facts(3))

lemma drop_id_of: "drop 4 (id_of c e) = digest_hex c (encoded c e)"
  by (simp add: id_of_def)

text \<open>What \<open>put\<close> does to the files, whatever calls fail.\<close>

lemma put_cases:
  assumes "repo_codec_ok c" "fs_inv s" "put c e s = (r, s')"
  defines "p \<equiv> digest_path (digest_hex c (encoded c e))"
  shows "fs_inv s' \<and> (\<forall>q. q \<noteq> p \<and> \<not> is_temp ''.tmp-'' q \<longrightarrow> content s' q = content s q)
    \<and> (content s' p = content s p \<or> content s' p = Some (encoded c e))
    \<and> (\<forall>i. r = Ok i \<longrightarrow> i = id_of c e \<and> content s' p = Some (encoded c e))"
proof (cases "env_format e = OBJECT_FORMAT_VERSION")
  case False
  then show ?thesis using assms(2,3) by (simp add: put_def)
next
  case True
  have p: "\<not> is_temp ''.tmp-'' p" using codec_facts(3) [OF assms(1)] by (simp add: p_def digest_path_not_temp)
  obtain present t where pr: "path_exists p s = (Ok present, t)" and t: "same_nodes s t"
    using probe_nodes by (metis is_ok_iff path_exists_def surj_pair)
  let ?id = "id_of c e"
  have run: "(if present then bind_io (read_file p) (\<lambda>existing. if existing = encoded c e then return_io ?id
                 else fail_io (CorruptObject ?id ''refusing overwrite: existing content differs''))
              else bind_io (publish ''.tmp-'' p (encoded c e)) (\<lambda>_. return_io ?id)) t = (r, s')"
    using assms(3) True pr codec_facts(1) [OF assms(1)] id_of_path [OF assms(1)]
    by (cases present) (simp_all add: put_def canonical_bytes_def bind_io_run p_def)
  show ?thesis
  proof (cases present)
    case True
    obtain x u where rd: "read_file p t = (x, u)" by force
    then have u: "same_nodes s u" "\<forall>b. x = Ok b \<longrightarrow> content s p = Some b"
      using read_file_nodes [OF rd] t same_nodes_trans by auto
    then show ?thesis
      using run True rd assms(2) by (cases x) (auto simp: bind_io_def split: if_splits)
  next
    case False
    obtain x u where pb: "publish ''.tmp-'' p (encoded c e) t = (x, u)" by force
    have inv: "fs_inv t" using t assms(2) by simp
    have "s' = u" "\<forall>i. r = Ok i \<longrightarrow> i = ?id \<and> is_ok x" using run False pb by (cases x; auto simp: bind_io_def)+
    then show ?thesis
      using publish_cases [OF pb inv] p t by (cases x) auto
  qed
qed

lemma put_store:
  assumes "repo_codec_ok c" "fs_inv s"
  shows "fs_inv (snd (put c e s))"
    and "put c e s = (Ok i, s') \<Longrightarrow> i = id_of c e \<and> stored c s' i = Some e"
    and "\<not> clash c e s \<Longrightarrow> stored c s i = Some x \<Longrightarrow> stored c (snd (put c e s)) i = Some x"
proof -
  note cases = put_cases [OF assms]
  show "fs_inv (snd (put c e s))" using cases by (metis surj_pair snd_conv)
  show "put c e s = (Ok i, s') \<Longrightarrow> i = id_of c e \<and> stored c s' i = Some e"
    using cases [of e "Ok i" s'] by (auto simp: stored_def id_of_path drop_id_of assms(1) codec_facts)
  assume nc: "\<not> clash c e s" and st: "stored c s i = Some x"
  let ?d = "digest_hex c (encoded c e)"
  obtain r s' where run: "put c e s = (r, s')" by force
  obtain p b where pb: "path_for i = Ok p" "content s p = Some b" "digest_hex c b = drop 4 i" "dec_envelope c b = Ok x"
    using st by (auto simp: stored_def split: result.splits option.splits if_splits)
  have p: "p = digest_path (digest_hex c b)" using path_for_Ok [OF pb(1)] pb(3) by simp
  have "content s' p = Some b"
  proof (cases "digest_hex c b = ?d")
    case True
    then have eq: "p = digest_path ?d" using p by simp
    then have b: "b = encoded c e" using nc pb(2) True unfolding clash_def by blast
    have "content s' (digest_path ?d) = content s (digest_path ?d) \<or> content s' (digest_path ?d) = Some (encoded c e)"
      using cases [OF run] by blast
    then show ?thesis using eq b pb(2) by auto
  next
    case False
    then have "p \<noteq> digest_path ?d" unfolding p using digest_path_inj [of "digest_hex c b" ?d] by auto
    moreover have "\<not> is_temp ''.tmp-'' p" unfolding p by (rule digest_path_not_temp [OF codec_facts(3) [OF assms(1)]])
    ultimately have "content s' p = content s p" using cases [OF run] by blast
    then show ?thesis using pb(2) by simp
  qed
  then show "stored c (snd (put c e s)) i = Some x" using pb run by (simp add: stored_def)
qed

lemma stored_same: "same_nodes s s' \<Longrightarrow> stored c s' = stored c s"
  unfolding stored_def fun_eq_iff by (drule same_nodes_content(1)) (simp cong: result.case_cong)

lemma stored_faults [simp]: "stored c (s\<lparr>faults := f\<rparr>) = stored c s"
  by (rule stored_same) simp

lemma get_object_sound:
  assumes "get_object c i s = (r, s')"
  shows "same_nodes s s' \<and> (\<forall>e. r = Ok e \<longrightarrow> stored c s i = Some e)"
proof (cases "path_for i")
  case (Err x)
  then have "r = Err x" "s' = s" using assms by (auto simp: get_object_def bind_io_def lift_io_def)
  then show ?thesis by simp
next
  case (Ok p)
  obtain present t where pr: "path_exists p s = (Ok present, t)" and t: "same_nodes s t"
    using probe_nodes by (metis is_ok_iff path_exists_def surj_pair)
  show ?thesis
  proof (cases present)
    case False
    then show ?thesis using assms Ok pr t by (simp add: get_object_def bind_io_def lift_io_def split: prod.splits)
  next
    case True
    obtain x u where rd: "read_file p t = (x, u)" by force
    have u: "same_nodes s u" "\<forall>b. x = Ok b \<longrightarrow> content s p = Some b"
      using read_file_nodes [OF rd] t same_nodes_trans by auto
    show ?thesis
    proof (cases x)
      case (Err y)
      then have "r = Err y" "s' = u" using assms Ok pr True rd by (auto simp: get_object_def bind_io_def lift_io_def)
      then show ?thesis using u by simp
    next
      case X: (Ok b)
      then show ?thesis using assms Ok pr True rd u
        by (cases "dec_envelope c b") (auto simp: get_object_def bind_io_def lift_io_def stored_def split: if_splits)
    qed
  qed
qed

lemma get_object_no_faults:
  assumes "faults s = []"
  shows "snd (get_object c i s) = s \<and> (\<forall>e. fst (get_object c i s) = Ok e \<longleftrightarrow> stored c s i = Some e)"
proof (cases "path_for i")
  case (Err x)
  then show ?thesis by (simp add: get_object_def bind_io_def lift_io_def stored_def)
next
  case (Ok p)
  have ex: "path_exists p s = (Ok (bt_get (nodes s) p \<noteq> None), s)"
    by (simp add: path_exists_def probe_def no_next_fault assms)
  have rd: "read_file p s = (map_err RepoIo (ok_or ''No such file or directory'' (content s p)), s)"
    by (simp add: read_file_def perform_def no_next_fault assms)
  show ?thesis
  proof (cases "content s p")
    case None
    then show ?thesis using Ok ex rd by (simp add: get_object_def bind_io_def lift_io_def stored_def fail_io_def)
  next
    case (Some b)
    then have "bt_get (nodes s) p \<noteq> None" by (auto simp: content_def split: option.splits)
    then show ?thesis using Ok ex rd Some
      by (cases "dec_envelope c b") (auto simp: get_object_def bind_io_def lift_io_def stored_def fail_io_def)
  qed
qed

interpretation objects: content_store "put c" "stored c" "\<lambda>s. fs_inv s \<and> repo_codec_ok c" "clash c" for c
  by unfold_locales (auto simp: put_store)

text \<open>A loop of calls that leave the state alone.\<close>

lemma each_io_pure:
  "(\<And>x. x \<in> set xs \<Longrightarrow> snd (f x s) = s) \<Longrightarrow>
   snd (each_io f xs s) = s \<and> (fst (each_io f xs s) = Ok () \<longleftrightarrow> (\<forall>x \<in> set xs. fst (f x s) = Ok ()))"
proof (induction xs)
  case (Cons x xs)
  obtain r where r: "f x s = (r, s)" using Cons.prems [of x] by (cases "f x s") auto
  show ?case
  proof (cases r)
    case (Ok u)
    then show ?thesis using Cons r by (simp add: bind_io_run)
  next
    case (Err e)
    then show ?thesis using r by (simp add: bind_io_run)
  qed
qed (simp add: return_io_def)

lemma read_dir_no_faults:
  assumes "faults s = []"
  shows "read_dir p s = (if is_dir_node s p then Ok (map last (filter (\<lambda>q. q \<noteq> [] \<and> butlast q = p) (bt_keys (nodes s))))
                         else Err (RepoIo (if content s p = None then ''No such file or directory'' else ''Not a directory'')), s)"
  by (simp add: read_dir_def perform_def no_next_fault assms)

lemma read_dir_members:
  assumes "faults s = []" "is_dir_node s p"
  obtains ns where "read_dir p s = (Ok ns, s)" "\<And>n. n \<in> set ns \<longleftrightarrow> bt_get (nodes s) (p @ [n]) \<noteq> None"
proof
  let ?ns = "map last (filter (\<lambda>q. q \<noteq> [] \<and> butlast q = p) (bt_keys (nodes s)))"
  show "read_dir p s = (Ok ?ns, s)" using read_dir_no_faults [OF assms(1), of p] assms(2) by simp
  have "n \<in> set ?ns \<longleftrightarrow> p @ [n] \<in> set (bt_keys (nodes s))" for n
    by (force simp: image_iff intro: append_butlast_last_id [symmetric])
  then show "n \<in> set ?ns \<longleftrightarrow> bt_get (nodes s) (p @ [n]) \<noteq> None" for n by (auto simp: in_bt_keys_iff)
qed

lemma verify_object_pure:
  assumes "faults s = []" "is_hex_of_len shard 2"
  shows "snd (verify_object c shard n s) = s
     \<and> (fst (verify_object c shard n s) = Ok () \<longleftrightarrow> (is_hex_of_len n 62 \<longrightarrow> stored c s (''obj_'' @ shard @ n) \<noteq> None))"
proof (cases "is_hex_of_len n 62")
  case True
  have hex: "is_hex_of_len (shard @ n) 64" using True assms(2) by (auto simp: is_hex_of_len_def)
  have dot: "\<not> starts_with ''.'' n" using True by (auto simp: is_hex_of_len_def starts_with_iff is_ascii_digit_def)
  obtain r where r: "get_object c (''obj_'' @ shard @ n) s = (r, s)" "\<forall>e. r = Ok e \<longleftrightarrow> stored c s (''obj_'' @ shard @ n) = Some e"
    using get_object_no_faults [OF assms(1), of c "''obj_'' @ shard @ n"]
    by (cases "get_object c (''obj_'' @ shard @ n) s") auto
  have "verify_object c shard n s = bind_io (get_object c (''obj_'' @ shard @ n)) (\<lambda>_. return_io ()) s"
    using True dot parse_hex_id [OF hex, of "''obj_''"] by (simp add: verify_object_def bind_io_run)
  then show ?thesis using r True by (cases r) (auto simp: bind_io_def return_io_def)
qed (simp add: verify_object_def return_io_def)

lemma verify_shard_pure:
  assumes "faults s = []"
  shows "snd (verify_shard c shard s) = s
     \<and> (fst (verify_shard c shard s) = Ok () \<longleftrightarrow>
          (is_hex_of_len shard 2 \<longrightarrow> is_dir_node s (OBJECTS @ [shard])
             \<and> (\<forall>n. is_hex_of_len n 62 \<and> bt_get (nodes s) (OBJECTS @ [shard, n]) \<noteq> None \<longrightarrow>
                    stored c s (''obj_'' @ shard @ n) \<noteq> None)))"
proof (cases "is_hex_of_len shard 2")
  case True
  show ?thesis
  proof (cases "is_dir_node s (OBJECTS @ [shard])")
    case dir: True
    obtain ns where ns: "read_dir (OBJECTS @ [shard]) s = (Ok ns, s)"
        "\<And>n. n \<in> set ns \<longleftrightarrow> bt_get (nodes s) ((OBJECTS @ [shard]) @ [n]) \<noteq> None"
      using read_dir_members [OF assms dir] by blast
    have "verify_shard c shard s = each_io (verify_object c shard) (sort ns) s"
      using True ns(1) by (simp add: verify_shard_def bind_io_run)
    then show ?thesis
      using each_io_pure [of "sort ns" "verify_object c shard" s] ns(2) True dir verify_object_pure [OF assms True] by auto
  next
    case False
    then show ?thesis
      using True read_dir_no_faults [OF assms, of "OBJECTS @ [shard]"] by (simp add: verify_shard_def bind_io_run)
  qed
qed (simp add: verify_shard_def return_io_def)

section \<open>A sample codec\<close>

text \<open>
  Encoders in unary, which satisfy the laws; an envelope starts with a digit for its type, and the digest repeats
  it, so that objects of different types never collide.
\<close>

instance manifest_entry :: countable
  by countable_datatype

instance staged_change :: countable
  by countable_datatype

definition unary :: "'a::countable \<Rightarrow> string" where
  "unary x = replicate (to_nat x) (CHR ''1'')"

definition from_unary :: "string \<Rightarrow> 'a::countable" where
  "from_unary s = from_nat (length s)"

fun type_digit :: "object_type \<Rightarrow> char" where
  "type_digit ConfigValue = CHR ''a''"
| "type_digit ManifestObject = CHR ''b''"
| "type_digit CommitObject = CHR ''c''"
| "type_digit PolicyObject = CHR ''d''"
| "type_digit PolicyPackReference = CHR ''e''"
| "type_digit EnvironmentDefinition = CHR ''f''"
| "type_digit SecretRevisionMetadata = CHR ''0''"

definition digit_type :: "char \<Rightarrow> object_type" where
  "digit_type d =
     (if d = CHR ''a'' then ConfigValue else if d = CHR ''b'' then ManifestObject else if d = CHR ''c'' then CommitObject
      else if d = CHR ''d'' then PolicyObject else if d = CHR ''e'' then PolicyPackReference
      else if d = CHR ''f'' then EnvironmentDefinition else SecretRevisionMetadata)"

definition checked :: "('a \<Rightarrow> bool) \<Rightarrow> 'a \<Rightarrow> ('a, string) result" where
  "checked valid x = (if valid x then Ok x else Err ''invalid value'')"

definition sample_repo_codec :: repo_codec where
  "sample_repo_codec =
     \<lparr>enc_envelope = (\<lambda>e. Ok (type_digit (env_type e) # unary (unat (env_format e), env_payload e))),
      dec_envelope = (\<lambda>s. case s of [] \<Rightarrow> Err ''empty'' | d # t \<Rightarrow>
        (case from_unary t of (n, payload) \<Rightarrow> Ok \<lparr>env_format = of_nat n, env_type = digit_type d, env_payload = payload\<rparr>)),
      enc_manifest = (\<lambda>m. Ok (unary (man_entries m, man_policies m))),
      dec_manifest = (\<lambda>s. case from_unary s of (es, ps) \<Rightarrow>
        checked valid_manifest \<lparr>man_entries = es, man_policies = ps\<rparr>),
      enc_commit = (\<lambda>k. Ok (unary (unat (com_format k), com_parents k, com_manifest k, com_author k, com_message k, com_signature k))),
      dec_commit = (\<lambda>s. case from_unary s of (f, ps, m, a, msg, sg) \<Rightarrow>
        checked valid_commit \<lparr>com_format = of_nat f, com_parents = ps, com_manifest = m, com_author = a, com_message = msg, com_signature = sg\<rparr>),
      enc_signable = (\<lambda>(f, ps, m, a, msg). Ok (unary (unat f, ps, m, a, msg))),
      enc_index = (\<lambda>ix. Ok (unary ix)), dec_index = (\<lambda>s. checked valid_index (from_unary s)),
      enc_protection = (\<lambda>b. Ok (if b then ''true'' else ''false'')),
      dec_protection = (\<lambda>s. if s = ''true'' then Ok True else if s = ''false'' then Ok False else Err ''expected a boolean''),
      digest_hex = (\<lambda>b. replicate 64 (case b of [] \<Rightarrow> CHR ''1'' | d # _ \<Rightarrow> if is_hex_of_len [d] 1 then d else CHR ''2'')),
      sign_bytes = (\<lambda>key msg. key @ msg),
      verify_bytes = (\<lambda>key msg sg. sg = key @ msg)\<rparr>"

lemma from_unary_unary [simp]: "from_unary (unary x) = x"
  by (simp add: from_unary_def unary_def)

lemma digit_type_type_digit [simp]: "digit_type (type_digit t) = t"
  by (cases t) (simp_all add: digit_type_def)

lemma checked_Ok [simp]: "checked valid x = Ok y \<longleftrightarrow> valid x \<and> y = x"
  by (auto simp: checked_def)

lemma unary_utf8: "is_utf8 (unary x)"
  unfolding is_utf8_def unary_def by (rule utf8_lossy_ascii) (simp add: is_ascii_def list_all_iff is_ascii_byte_def)

lemma sample_repo_codec_ok: "repo_codec_ok sample_repo_codec"
proof -
  have eta: "\<lparr>man_entries = man_entries m, man_policies = man_policies m\<rparr> = m"
    "\<lparr>com_format = com_format k, com_parents = com_parents k, com_manifest = com_manifest k, com_author = com_author k,
      com_message = com_message k, com_signature = com_signature k\<rparr> = k" for m k by simp_all
  have hex: "is_hex_of_len (replicate 64 ch) 64" if "is_hex_of_len [ch] 1" for ch
    using that by (auto simp: is_hex_of_len_def list_all_iff)
  have digits: "is_hex_of_len ''1'' 1" "is_hex_of_len ''2'' 1" by code_simp+
  have words: "is_utf8 ''true''" "is_utf8 ''false''" "trim ''true'' = ''true''" "trim ''false'' = ''false''"
    "is_err (parse_commit_id ''true'')" "is_err (parse_commit_id ''false'')" by code_simp+
  show ?thesis
    unfolding repo_codec_ok_def
  proof (intro conjI allI impI)
    show "is_hex_of_len (digest_hex sample_repo_codec b) 64" for b
      using hex digits by (auto simp: sample_repo_codec_def split: list.splits)
    show "\<exists>t. enc_protection sample_repo_codec b = Ok t \<and> is_utf8 t \<and> trim t = t \<and> t \<noteq> [] \<and> dec_protection sample_repo_codec t = Ok b" for b
      using words by (cases b) (simp_all add: sample_repo_codec_def)
    show "dec_protection sample_repo_codec t = Ok b \<Longrightarrow> is_err (parse_commit_id t)" for t b
      using words by (auto simp: sample_repo_codec_def split: if_splits)
  qed (auto simp: sample_repo_codec_def unary_utf8 eta split: prod.splits)
qed

definition empty_fs :: fs where
  "empty_fs = \<lparr>nodes = bt_empty, faults = [], process_id = 7, nanos = []\<rparr>"

lemma empty_fs_simps [simp]: "fs_inv empty_fs" "content empty_fs p = None" "faults empty_fs = []"
  by (simp_all add: empty_fs_def fs_inv_def content_def bt_empty_def)

section \<open>Properties\<close>

text \<open>
  A stored object reads back.  When \<open>put\<close> returns an id, the id is \<open>obj_\<close> and the digest of the object's
  canonical bytes, and \<open>get\<close> of this id without I/O failures gives the object, whatever calls failed before.
\<close>

lemma put_get_roundtrip:
  assumes "repo_codec_ok c" "fs_inv s" "put c e s = (Ok i, s')"
  shows "fst (get_object c i (s'\<lparr>faults := []\<rparr>)) = Ok e
     \<and> (\<exists>bytes. canonical_bytes c e = Ok bytes \<and> i = ''obj_'' @ digest_hex c bytes)"
proof -
  have "i = id_of c e" "stored c s' i = Some e" using put_store(2) [OF assms(1,2,3)] by auto
  moreover have "stored c (s'\<lparr>faults := []\<rparr>) i = stored c s' i" by simp
  ultimately show ?thesis
    using get_object_no_faults [of "s'\<lparr>faults := []\<rparr>" c i] codec_facts(1) [OF assms(1), of e]
    by (simp add: canonical_bytes_def id_of_def)
qed

definition sample_envelope :: object_envelope where
  "sample_envelope = new_envelope ManifestObject ''m''"

definition sample_commit_envelope :: object_envelope where
  "sample_commit_envelope = new_envelope CommitObject ''k''"

lemma put_fresh_ok:
  assumes "repo_codec_ok c" "fs_inv s" "faults s = []" "env_format e = OBJECT_FORMAT_VERSION"
    and "content s (digest_path (digest_hex c (encoded c e))) = None" "writable s (digest_path (digest_hex c (encoded c e)))"
    and "\<And>t. is_temp ''.tmp-'' t \<Longrightarrow> \<not> is_dir_node s t"
  shows "\<exists>s'. put c e s = (Ok (id_of c e), s') \<and> faults s' = []
     \<and> (\<forall>q. is_dir_node s' q \<longleftrightarrow> is_dir_node s q \<or> q \<in> set (path_prefixes (OBJECTS @ [take 2 (digest_hex c (encoded c e))])))"
proof -
  let ?p = "digest_path (digest_hex c (encoded c e))"
  have "\<not> is_temp ''.tmp-'' ?p" using codec_facts(3) [OF assms(1)] by (rule digest_path_not_temp)
  then obtain s' where s': "publish ''.tmp-'' ?p (encoded c e) s = (Ok (), s')" "faults s' = []"
      "\<forall>q. is_dir_node s' q \<longleftrightarrow> is_dir_node s q \<or> q \<in> set (path_prefixes (butlast ?p))"
    using publish_ok [OF assms(3,2) _ assms(6) _ assms(7), of "''.tmp-''"] by (auto simp: digest_path_def)
  have "bt_get (nodes s) ?p = None"
    using assms(5,6) by (auto simp: content_def writable_def is_dir_node_def split: option.splits node.splits)
  then have "path_exists ?p s = (Ok False, s)"
    using assms(3) by (simp add: path_exists_def probe_def no_next_fault)
  then have "put c e s = (Ok (id_of c e), s')"
    using assms(1,4) s'(1) codec_facts(1) [OF assms(1), of e] id_of_path [OF assms(1), of e]
    by (simp add: put_def canonical_bytes_def bind_io_run bind_io_bool)
  then show ?thesis using s' by (auto simp: digest_path_def butlast_append)
qed

lemma sample_put:
  "env_format e = OBJECT_FORMAT_VERSION \<Longrightarrow> \<exists>s'. put sample_repo_codec e empty_fs = (Ok (id_of sample_repo_codec e), s')"
  using put_fresh_ok [OF sample_repo_codec_ok, of empty_fs e]
  by (auto simp: writable_def is_dir_node_def empty_fs_def bt_empty_def fs_inv_def content_def)

lemma put_get_roundtrip_witness:
  "\<exists>s'. put sample_repo_codec sample_envelope empty_fs = (Ok (''obj_'' @ replicate 64 (CHR ''b'')), s')
     \<and> fst (get_object sample_repo_codec (''obj_'' @ replicate 64 (CHR ''b'')) (s'\<lparr>faults := []\<rparr>)) = Ok sample_envelope"
proof -
  have "id_of sample_repo_codec sample_envelope = ''obj_'' @ replicate 64 (CHR ''b'')"
    by (simp add: id_of_def encoded_def sample_repo_codec_def sample_envelope_def new_envelope_def is_hex_of_len_def)
  moreover obtain s' where "put sample_repo_codec sample_envelope empty_fs = (Ok (id_of sample_repo_codec sample_envelope), s')"
    using sample_put [of sample_envelope] by (auto simp: sample_envelope_def new_envelope_def)
  ultimately show ?thesis using put_get_roundtrip [OF sample_repo_codec_ok empty_fs_simps(1)] by auto
qed

text \<open>
  Stored objects are immutable.  Whatever calls fail, and even when the existence check lies, storing another object leaves
  every object readable with the same content, unless it collides: other bytes with its digest are
  already stored in its place.
\<close>

lemma put_keeps_objects:
  assumes "repo_codec_ok c" "fs_inv s" "\<not> clash c e s" "fst (get_object c i (s\<lparr>faults := []\<rparr>)) = Ok x"
  shows "fst (get_object c i ((snd (put c e s))\<lparr>faults := []\<rparr>)) = Ok x"
proof -
  have "stored c s i = Some x"
    using assms(4) get_object_no_faults [of "s\<lparr>faults := []\<rparr>" c i] by simp
  then have "stored c (snd (put c e s)) i = Some x"
    using objects.put_keeps [of s c e i x] assms(1-3) by simp
  then show ?thesis
    using get_object_no_faults [of "(snd (put c e s))\<lparr>faults := []\<rparr>" c i] by simp
qed

lemma put_keeps_objects_witness:
  "\<exists>s' i. put sample_repo_codec sample_envelope empty_fs = (Ok i, s')
     \<and> fst (get_object sample_repo_codec i ((snd (put sample_repo_codec sample_commit_envelope
          (s'\<lparr>faults := [None, Some (0, ''disk full'')]\<rparr>)))\<lparr>faults := []\<rparr>)) = Ok sample_envelope"
proof -
  let ?c = sample_repo_codec
  obtain s' where s': "put ?c sample_envelope empty_fs = (Ok (id_of ?c sample_envelope), s')"
    using sample_put [of sample_envelope] by (auto simp: sample_envelope_def new_envelope_def)
  let ?s = "s'\<lparr>faults := [None, Some (0, ''disk full'')]\<rparr>"
  note st = put_store [OF sample_repo_codec_ok empty_fs_simps(1), of sample_envelope]
  have inv: "fs_inv ?s" using st(1) s' by simp
  have "stored ?c s' (id_of ?c sample_envelope) = Some sample_envelope" using st(2) [OF s'] by simp
  then have get: "fst (get_object ?c (id_of ?c sample_envelope) (?s\<lparr>faults := []\<rparr>)) = Ok sample_envelope"
    using get_object_no_faults [of "?s\<lparr>faults := []\<rparr>" ?c "id_of ?c sample_envelope"] by simp
  let ?p = "digest_path (digest_hex ?c (encoded ?c sample_commit_envelope))"
  have "digest_hex ?c (encoded ?c sample_commit_envelope) = replicate 64 (CHR ''c'')"
    "digest_hex ?c (encoded ?c sample_envelope) = replicate 64 (CHR ''b'')"
    by (simp_all add: encoded_def sample_repo_codec_def sample_envelope_def sample_commit_envelope_def new_envelope_def
        is_hex_of_len_def)
  moreover have "\<not> is_temp ''.tmp-'' ?p" using codec_facts(3) [OF sample_repo_codec_ok] by (rule digest_path_not_temp)
  moreover have "digest_path (replicate 64 (CHR ''c'')) \<noteq> digest_path (replicate 64 (CHR ''b''))" by code_simp
  ultimately have "content s' ?p = None"
    using put_cases [OF sample_repo_codec_ok empty_fs_simps(1) s'] by simp
  then have "\<not> clash ?c sample_commit_envelope ?s" by (simp add: clash_def)
  from put_keeps_objects [OF sample_repo_codec_ok inv this get] s' show ?thesis by blast
qed

text \<open>
  \<open>verify_all\<close> is exact: without I/O failures it succeeds exactly when every file in the place of an object
  (two hexadecimal digits, then sixty-two) hashes to its place and decodes, and every shard is a directory.
\<close>

lemma verify_all_exact:
  assumes "faults s = []"
  shows "fst (verify_all c s) = Ok () \<longleftrightarrow>
     bt_get (nodes s) OBJECTS = None
     \<or> is_dir_node s OBJECTS
       \<and> (\<forall>shard. is_hex_of_len shard 2 \<and> bt_get (nodes s) (OBJECTS @ [shard]) \<noteq> None \<longrightarrow>
            is_dir_node s (OBJECTS @ [shard])
            \<and> (\<forall>n. is_hex_of_len n 62 \<and> bt_get (nodes s) (OBJECTS @ [shard, n]) \<noteq> None \<longrightarrow>
                 is_ok (fst (get_object c (''obj_'' @ shard @ n) s))))"
proof -
  have ok: "is_ok (fst (get_object c i s)) \<longleftrightarrow> stored c s i \<noteq> None" for i
    using get_object_no_faults [OF assms, of c i] by (auto simp: is_ok_iff)
  have ex: "path_exists OBJECTS s = (Ok (bt_get (nodes s) OBJECTS \<noteq> None), s)"
    by (simp add: path_exists_def probe_def no_next_fault assms)
  consider "bt_get (nodes s) OBJECTS = None" | "is_dir_node s OBJECTS"
    | "bt_get (nodes s) OBJECTS \<noteq> None" "\<not> is_dir_node s OBJECTS" by blast
  then show ?thesis
  proof cases
    case 1
    then show ?thesis using ex by (simp add: verify_all_def bind_io_bool return_io_def)
  next
    case 2
    obtain ns where ns: "read_dir OBJECTS s = (Ok ns, s)" "\<And>n. n \<in> set ns \<longleftrightarrow> bt_get (nodes s) (OBJECTS @ [n]) \<noteq> None"
      using read_dir_members [OF assms 2] by blast
    have "verify_all c s = each_io (verify_shard c) (sort ns) s"
      using ex 2 ns(1) by (simp add: verify_all_def bind_io_bool bind_io_run is_dir_node_def)
    then have "fst (verify_all c s) = Ok () \<longleftrightarrow>
        (\<forall>shard. bt_get (nodes s) (OBJECTS @ [shard]) \<noteq> None \<longrightarrow> fst (verify_shard c shard s) = Ok ())"
      using each_io_pure [of "sort ns" "verify_shard c" s] ns(2) verify_shard_pure [OF assms, of c] by auto
    also have "\<dots> \<longleftrightarrow> (\<forall>shard. is_hex_of_len shard 2 \<and> bt_get (nodes s) (OBJECTS @ [shard]) \<noteq> None \<longrightarrow>
            is_dir_node s (OBJECTS @ [shard])
            \<and> (\<forall>n. is_hex_of_len n 62 \<and> bt_get (nodes s) (OBJECTS @ [shard, n]) \<noteq> None \<longrightarrow>
                 is_ok (fst (get_object c (''obj_'' @ shard @ n) s))))"
      unfolding verify_shard_pure [OF assms, THEN conjunct2] ok by blast
    finally show ?thesis using 2 by (simp add: is_dir_node_def)
  next
    case 3
    then show ?thesis
      using ex read_dir_no_faults [OF assms, of OBJECTS] by (simp add: verify_all_def bind_io_bool bind_io_run)
  qed
qed

definition tampered_fs :: fs where
  "tampered_fs = empty_fs\<lparr>nodes := [([], Dir), ([''objects''], Dir), (OBJECTS, Dir), (OBJECTS @ [''bb''], Dir),
     (OBJECTS @ [''bb'', replicate 62 (CHR ''b'')], File ''junk'')]\<rparr>"

lemma verify_all_exact_witness: "fst (verify_all sample_repo_codec tampered_fs) \<noteq> Ok ()"
proof
  have f: "faults tampered_fs = []" by (simp add: tampered_fs_def empty_fs_def)
  assume "fst (verify_all sample_repo_codec tampered_fs) = Ok ()"
  note * = iffD1 [OF verify_all_exact [OF f] this]
  have "is_hex_of_len ''bb'' 2" "bt_get (nodes tampered_fs) (OBJECTS @ [''bb'']) \<noteq> None"
    "bt_get (nodes tampered_fs) OBJECTS \<noteq> None" by code_simp+
  with * have "is_hex_of_len n 62 \<Longrightarrow> bt_get (nodes tampered_fs) (OBJECTS @ [''bb'', n]) \<noteq> None \<Longrightarrow>
      is_ok (fst (get_object sample_repo_codec (''obj_'' @ ''bb'' @ n) tampered_fs))" for n by blast
  moreover have "is_hex_of_len (replicate 62 (CHR ''b'')) 62"
    "bt_get (nodes tampered_fs) (OBJECTS @ [''bb'', replicate 62 (CHR ''b'')]) \<noteq> None" by code_simp+
  ultimately have "is_ok (fst (get_object sample_repo_codec (''obj_'' @ ''bb'' @ replicate 62 (CHR ''b'')) tampered_fs))" .
  moreover have "path_for (''obj_'' @ ''bb'' @ replicate 62 (CHR ''b'')) = Ok (OBJECTS @ [''bb'', replicate 62 (CHR ''b'')])"
    "content tampered_fs (OBJECTS @ [''bb'', replicate 62 (CHR ''b'')]) = Some ''junk''"
    "drop 4 (''obj_'' @ ''bb'' @ replicate 62 (CHR ''b'')) \<noteq> replicate 64 (CHR ''2'')" by code_simp+
  moreover have "digest_hex sample_repo_codec ''junk'' = replicate 64 (CHR ''2'')"
    by (simp add: sample_repo_codec_def is_hex_of_len_def is_ascii_digit_def)
  ultimately show False
    using get_object_no_faults [OF f, of sample_repo_codec "''obj_'' @ ''bb'' @ replicate 62 (CHR ''b'')"]
    by (auto simp: is_ok_iff stored_def)
qed

end
