(* ===== verification/Ref_Store.thy ===== *)
theory Ref_Store
  imports Object_Store
begin

text \<open>
  \<open>refs.rs\<close> and \<open>staging.rs\<close>: branch and environment refs with their protection sidecars, the symbolic \<open>HEAD\<close>, and
  the staging index.  A ref name is split at the slashes; \<open>.\<close> components name the directory itself and vanish.
\<close>

section \<open>Data\<close>

datatype ref_namespace = Heads | Environments

fun dir_name :: "ref_namespace \<Rightarrow> string" where
  "dir_name Heads = ''heads''"
| "dir_name Environments = ''environments''"

datatype head_target = Branch string | Detached commit_id

fun encode_head :: "head_target \<Rightarrow> string" where
  "encode_head (Branch name) = ''ref: heads/'' @ name"
| "encode_head (Detached k) = ''commit: '' @ k"

definition decode_head :: "string \<Rightarrow> (head_target, repo_error) result" where
  "decode_head line =
     (case strip_prefix ''ref: heads/'' line of
        Some name \<Rightarrow> and_then (map_err IdConstruction (parse_branch_ref name)) (\<lambda>_. Ok (Branch name))
      | None \<Rightarrow>
          (case strip_prefix ''commit: '' line of
             Some k \<Rightarrow> and_then (map_err IdConstruction (parse_commit_id k)) (\<lambda>k'. Ok (Detached k'))
           | None \<Rightarrow> Err (InvalidRef (''unrecognized HEAD content '' @ backquoted line))))"

section \<open>Paths\<close>

definition HEAD_FILE :: path where
  "HEAD_FILE = [''HEAD'']"

definition ref_components :: "ref_namespace \<Rightarrow> string \<Rightarrow> path" where
  "ref_components ns name = [''refs'', dir_name ns] @ filter (\<lambda>x. x \<noteq> ''.'') (split_on (CHR ''/'') name)"

definition ref_path :: "ref_namespace \<Rightarrow> string \<Rightarrow> (path, repo_error) result" where
  "ref_path ns name =
     (if is_err (parse_branch_ref name) then Err (InvalidRef name)
      else if any_char (\<lambda>ch. is_whitespace_cp ch \<or> ch = 92 \<or> ch = 0) name then Err (InvalidRef name)
      else if take 1 (ref_components ns name) \<noteq> [''refs''] then Err (InvalidRef name)
      else Ok (ref_components ns name))"

definition protection_path :: "string \<Rightarrow> (path, repo_error) result" where
  "protection_path name =
     and_then (ref_path Environments name) (\<lambda>base. Ok (butlast base @ [last base @ ''.protection'']))"

section \<open>Reading and writing\<close>

definition write_atomically :: "path \<Rightarrow> string \<Rightarrow> unit io" where
  "write_atomically p contents = publish ''.tmp-'' p contents"

definition read_trimmed :: "path \<Rightarrow> string option io" where
  "read_trimmed p =
     bind_io (ok_io (read_to_string p)) (\<lambda>raw.
       return_io (case raw of None \<Rightarrow> None | Some text \<Rightarrow> if trim text = [] then None else Some (trim text)))"

definition read_ref :: "ref_namespace \<Rightarrow> string \<Rightarrow> commit_id option io" where
  "read_ref ns name =
     bind_io (lift_io (ref_path ns name)) (\<lambda>p.
     bind_io (read_trimmed p) (\<lambda>found.
       case found of
         None \<Rightarrow> return_io None
       | Some text \<Rightarrow> bind_io (lift_io (map_err IdConstruction (parse_commit_id text))) (\<lambda>k. return_io (Some k))))"

definition write_ref_at :: "ref_namespace \<Rightarrow> string \<Rightarrow> commit_id \<Rightarrow> unit io" where
  "write_ref_at ns name k =
     bind_io (lift_io (ref_path ns name)) (\<lambda>p. write_atomically p (k @ [newline]))"

definition write_ref :: "ref_namespace \<Rightarrow> string \<Rightarrow> commit_id \<Rightarrow> unit io" where
  "write_ref ns name k =
     (if ns = Environments
      then fail_io (InvalidRef ''environment refs must go through write_env_ref (protection-aware)'')
      else write_ref_at ns name k)"

definition remove_ref_file :: "ref_namespace \<Rightarrow> string \<Rightarrow> unit io" where
  "remove_ref_file ns name =
     bind_io (lift_io (ref_path ns name)) (\<lambda>p.
     bind_io (path_exists p) (\<lambda>present.
       if \<not> present then fail_io (RefNotFound (dir_name ns @ ''/'' @ name)) else remove_file p))"

definition read_head :: "head_target option io" where
  "read_head =
     bind_io (read_trimmed HEAD_FILE) (\<lambda>found.
       case found of
         None \<Rightarrow> return_io None
       | Some line \<Rightarrow> bind_io (lift_io (decode_head line)) (\<lambda>t. return_io (Some t)))"

definition write_head :: "head_target \<Rightarrow> unit io" where
  "write_head target = write_atomically HEAD_FILE (encode_head target @ [newline])"

definition delete_ref :: "ref_namespace \<Rightarrow> string \<Rightarrow> bool \<Rightarrow> unit io" where
  "delete_ref ns name force =
     (case ns of
        Environments \<Rightarrow> fail_io (InvalidRef ''environment refs must be deleted via delete_env_ref'')
      | Heads \<Rightarrow>
          bind_io read_head (\<lambda>head.
            if (case head of Some (Branch current) \<Rightarrow> current = name | _ \<Rightarrow> False) \<and> \<not> force
            then fail_io (ProtectedRef (''branch heads/'' @ name @ '' is checked out by HEAD; pass force''))
            else remove_ref_file ns name))"

definition read_env_protection :: "repo_codec \<Rightarrow> string \<Rightarrow> bool io" where
  "read_env_protection c name =
     bind_io (lift_io (protection_path name)) (\<lambda>p.
     bind_io (read_trimmed p) (\<lambda>found.
       case found of
         None \<Rightarrow> return_io False
       | Some text \<Rightarrow> lift_io (map_err RepoJson (dec_protection c text))))"

definition write_env_protection :: "repo_codec \<Rightarrow> string \<Rightarrow> bool \<Rightarrow> unit io" where
  "write_env_protection c name protected =
     bind_io (lift_io (protection_path name)) (\<lambda>p.
     bind_io (lift_io (map_err RepoJson (enc_protection c protected))) (\<lambda>text. write_atomically p text))"

definition write_env_ref :: "repo_codec \<Rightarrow> string \<Rightarrow> commit_id \<Rightarrow> bool \<Rightarrow> unit io" where
  "write_env_ref c name k force =
     bind_io (read_ref Environments name) (\<lambda>current.
       case current of
         Some current_commit \<Rightarrow>
           if current_commit \<noteq> k
           then bind_io (read_env_protection c name) (\<lambda>protected.
                  if protected \<and> \<not> force then fail_io (ProtectedRef name) else write_ref_at Environments name k)
           else write_ref_at Environments name k
       | None \<Rightarrow> write_ref_at Environments name k)"

definition delete_env_ref :: "repo_codec \<Rightarrow> string \<Rightarrow> bool \<Rightarrow> unit io" where
  "delete_env_ref c name force =
     bind_io (read_ref Environments name) (\<lambda>current.
     bind_io (if current \<noteq> None then read_env_protection c name else return_io False) (\<lambda>protected.
       if protected \<and> \<not> force then fail_io (ProtectedRef name)
       else bind_io (remove_ref_file Environments name) (\<lambda>_.
            bind_io (lift_io (protection_path name)) (\<lambda>p.
            bind_io (ok_io (remove_file p)) (\<lambda>_. return_io ())))))"

section \<open>The staging index\<close>

definition INDEX_FILE :: path where
  "INDEX_FILE = [''index.json'']"

fun as_entry :: "staged_change \<Rightarrow> manifest_entry option" where
  "as_entry (StagedSet e) = Some e"
| "as_entry StagedRemove = None"

definition load_index :: "repo_codec \<Rightarrow> staging_index io" where
  "load_index c =
     bind_io (path_exists INDEX_FILE) (\<lambda>present.
       if \<not> present then return_io bt_empty
       else bind_io (read_to_string INDEX_FILE) (\<lambda>raw. lift_io (map_err RepoJson (dec_index c raw))))"

text \<open>The index is encoded after the temporary file was created.\<close>

definition save_index :: "repo_codec \<Rightarrow> staging_index \<Rightarrow> unit io" where
  "save_index c ix =
     (case enc_index c ix of
        Ok text \<Rightarrow> publish ''.tmp-index-'' INDEX_FILE text
      | Err e \<Rightarrow>
          bind_io (create_dir_all []) (\<lambda>_ s.
            case timestamp s of (n, s') \<Rightarrow>
              bind_io (create_file [temp_name ''.tmp-index-'' (process_id s') n]) (\<lambda>_. fail_io (RepoJson e)) s'))"

definition stage_intent :: "variable_name \<Rightarrow> staged_change \<Rightarrow> staging_index \<Rightarrow> staging_index" where
  "stage_intent name change ix = bt_insert name change ix"

definition unstage :: "variable_name \<Rightarrow> staging_index \<Rightarrow> bool \<times> staging_index" where
  "unstage name ix = (bt_get ix name \<noteq> None, bt_remove name ix)"

definition apply_change :: "variable_name \<times> staged_change \<Rightarrow> manifest \<Rightarrow> manifest" where
  "apply_change nc m =
     (case nc of
        (name, StagedSet entry) \<Rightarrow> m\<lparr>man_entries := bt_insert name entry (man_entries m)\<rparr>
      | (name, StagedRemove) \<Rightarrow> m\<lparr>man_entries := bt_remove name (man_entries m)\<rparr>)"

definition apply_onto :: "staging_index \<Rightarrow> manifest \<Rightarrow> manifest" where
  "apply_onto ix base = fold apply_change ix base"

section \<open>Reference definitions\<close>

text \<open>What a reader without I/O failures sees.\<close>

definition trimmed :: "fs \<Rightarrow> path \<Rightarrow> string option" where
  "trimmed s p =
     (case content s p of
        None \<Rightarrow> None
      | Some b \<Rightarrow> if \<not> is_utf8 b \<or> trim b = [] then None else Some (trim b))"

definition ref_at :: "fs \<Rightarrow> ref_namespace \<Rightarrow> string \<Rightarrow> commit_id option" where
  "ref_at s ns name =
     (case trimmed s (ref_components ns name) of
        None \<Rightarrow> None
      | Some t \<Rightarrow> (case parse_commit_id t of Ok k \<Rightarrow> Some k | Err _ \<Rightarrow> None))"

definition index_at :: "repo_codec \<Rightarrow> fs \<Rightarrow> staging_index option" where
  "index_at c s =
     (if bt_get (nodes s) INDEX_FILE = None then Some bt_empty
      else (case content s INDEX_FILE of
          None \<Rightarrow> None
        | Some b \<Rightarrow> if is_utf8 b then (case dec_index c b of Ok ix \<Rightarrow> Some ix | Err _ \<Rightarrow> None) else None))"

definition protected_at :: "repo_codec \<Rightarrow> fs \<Rightarrow> string \<Rightarrow> bool" where
  "protected_at c s name \<longleftrightarrow>
     (\<exists>p t. protection_path name = Ok p \<and> trimmed s p = Some t \<and> dec_protection c t = Ok True)"

text \<open>The calls on the ref store, and a name whose file is neither a sidecar nor a temporary file.\<close>

datatype ref_call =
    WriteRef ref_namespace string commit_id
  | DeleteRef ref_namespace string bool
  | WriteEnvRef string commit_id bool
  | DeleteEnvRef string bool
  | WriteProtection string bool
  | WriteHead head_target

fun ref_call_io :: "repo_codec \<Rightarrow> ref_call \<Rightarrow> unit io" where
  "ref_call_io c (WriteRef ns name k) = write_ref ns name k"
| "ref_call_io c (DeleteRef ns name force) = delete_ref ns name force"
| "ref_call_io c (WriteEnvRef name k force) = write_env_ref c name k force"
| "ref_call_io c (DeleteEnvRef name force) = delete_env_ref c name force"
| "ref_call_io c (WriteProtection name b) = write_env_protection c name b"
| "ref_call_io c (WriteHead t) = write_head t"

fun unforced :: "string \<Rightarrow> ref_call \<Rightarrow> bool" where
  "unforced name (WriteEnvRef n k force) = (\<not> force)"
| "unforced name (DeleteEnvRef n force) = (\<not> force)"
| "unforced name (WriteProtection n b) = (b \<or> protection_path n \<noteq> protection_path name)"
| "unforced name _ = True"

definition plain_ref :: "string \<Rightarrow> bool" where
  "plain_ref name \<longleftrightarrow>
     is_ok (ref_path Environments name) \<and> filter (\<lambda>x. x \<noteq> ''.'') (split_on (CHR ''/'') name) \<noteq> []
     \<and> \<not> ends_with ''.protection'' (last (ref_components Environments name))
     \<and> \<not> starts_with ''.tmp-'' (last (ref_components Environments name))"

section \<open>Lemmas: the staging index\<close>

lemma apply_change_lookup:
  "manifest_inv m \<Longrightarrow> manifest_inv (apply_change (n, ch) m) \<and> man_policies (apply_change (n, ch) m) = man_policies m
     \<and> get_entry (apply_change (n, ch) m) = (get_entry m)(n := as_entry ch)"
  by (cases ch) (auto simp: apply_change_def manifest_inv_def get_entry_def btm.get_insert btm.get_remove fun_eq_iff)

lemma apply_onto_lookup:
  assumes "bt_inv ix" "manifest_inv base"
  shows "manifest_inv (apply_onto ix base) \<and> man_policies (apply_onto ix base) = man_policies base
     \<and> get_entry (apply_onto ix base) = (\<lambda>n. case bt_get ix n of None \<Rightarrow> get_entry base n | Some ch \<Rightarrow> as_entry ch)"
  using assms unfolding apply_onto_def
proof (induction ix arbitrary: base)
  case (Cons p ix)
  obtain n ch where p: "p = (n, ch)" by force
  have "bt_get ix n = None" using Cons.prems(1) p by (fastforce simp: bt_get_None_iff)
  with Cons apply_change_lookup [OF Cons.prems(2), of n ch] p show ?case
    by (auto simp: fun_eq_iff split: option.splits)
qed (simp add: fun_eq_iff)

lemma stage_lookup:
  "bt_inv ix \<Longrightarrow> bt_get (stage_intent n ch ix) = (bt_get ix)(n \<mapsto> ch)"
  "bt_inv ix \<Longrightarrow> fst (unstage n ix) = (bt_get ix n \<noteq> None) \<and> bt_get (snd (unstage n ix)) = (bt_get ix)(n := None)"
  by (simp_all add: stage_intent_def unstage_def btm.get_insert btm.get_remove)

section \<open>Lemmas: reading\<close>

lemma bind_ok_io: "m s = (r, s') \<Longrightarrow> bind_io (ok_io m) f s = f (case r of Ok a \<Rightarrow> Some a | Err _ \<Rightarrow> None) s'"
  by (simp add: ok_io_def bind_io_def split: result.splits)

lemma read_to_string_no_faults:
  "faults s = [] \<Longrightarrow> snd (read_to_string p s) = s
     \<and> (\<forall>b. fst (read_to_string p s) = Ok b \<longleftrightarrow> content s p = Some b \<and> is_utf8 b)"
  by (cases "content s p")
     (auto simp: read_to_string_def read_file_def perform_def no_next_fault bind_io_def return_io_def fail_io_def)

lemma read_trimmed_cases:
  "\<exists>x s'. read_trimmed p s = (Ok x, s') \<and> same_nodes s s' \<and> (x = None \<or> x = trimmed s p)"
proof -
  obtain r s' where r: "read_to_string p s = (r, s')" by force
  have "same_nodes s s'" "\<forall>b. r = Ok b \<longrightarrow> content s p = Some b \<and> is_utf8 b" using read_to_string_nodes [OF r] by auto
  then show ?thesis
    by (cases r) (auto simp: read_trimmed_def bind_ok_io [where m = "read_to_string p", OF r] return_io_def trimmed_def)
qed

lemma read_trimmed_no_faults: "faults s = [] \<Longrightarrow> read_trimmed p s = (Ok (trimmed s p), s)"
proof -
  assume f: "faults s = []"
  obtain r where r: "read_to_string p s = (r, s)" "\<forall>b. r = Ok b \<longleftrightarrow> content s p = Some b \<and> is_utf8 b"
    using read_to_string_no_faults [OF f, of p] by (cases "read_to_string p s") auto
  show ?thesis
  proof (cases r)
    case (Ok b)
    then have "content s p = Some b" "is_utf8 b" using r(2) by simp_all
    then have "trimmed s p = (if trim b = [] then None else Some (trim b))" by (simp add: trimmed_def)
    then show ?thesis using Ok by (simp add: read_trimmed_def bind_ok_io [where m = "read_to_string p", OF r(1)] return_io_def)
  next
    case (Err e)
    then have "trimmed s p = None" using r(2) by (auto simp: trimmed_def split: option.splits)
    then show ?thesis using Err by (simp add: read_trimmed_def bind_ok_io [where m = "read_to_string p", OF r(1)] return_io_def)
  qed
qed

lemma read_ref_no_faults:
  assumes "faults s = []" "ref_path ns name = Ok p"
  shows "read_ref ns name s =
     (case trimmed s p of
        None \<Rightarrow> Ok None
      | Some t \<Rightarrow> (case parse_commit_id t of Ok k \<Rightarrow> Ok (Some k) | Err e \<Rightarrow> Err (IdConstruction e)), s)"
  using read_trimmed_no_faults [OF assms(1), of p] assms(2)
  by (auto simp: read_ref_def bind_io_run return_io_def split: option.splits result.splits)

lemma read_protection_no_faults:
  assumes "faults s = []" "protection_path name = Ok p"
  shows "read_env_protection c name s =
     (case trimmed s p of None \<Rightarrow> Ok False | Some t \<Rightarrow> map_err RepoJson (dec_protection c t), s)"
  using read_trimmed_no_faults [OF assms(1), of p] assms(2)
  by (auto simp: read_env_protection_def bind_io_run return_io_def lift_io_def split: option.splits)

lemma ref_path_Ok: "ref_path ns name = Ok p \<Longrightarrow> p = ref_components ns name"
  by (auto simp: ref_path_def split: if_splits)

lemma ref_path_both: "is_ok (ref_path ns name) \<longleftrightarrow> is_ok (ref_path ns' name)"
  by (auto simp: ref_path_def ref_components_def)

section \<open>Lemmas: protected environments\<close>

lemma commit_id_ascii: "parse_commit_id k = Ok k' \<Longrightarrow> k' = k \<and> k \<noteq> [] \<and> list_all is_id_char k"
proof -
  assume "parse_commit_id k = Ok k'"
  then obtain t where "k = ''cmt_'' @ t" "k' = k" "list_all is_id_char t"
    by (auto simp: parse_prefixed_id_Ok_iff is_valid_id_content_def)
  moreover have "list_all is_id_char ''cmt_''" by code_simp
  ultimately show ?thesis by simp
qed

lemma temp_protection: "starts_with ''.tmp-'' (x @ ''.protection'') \<Longrightarrow> starts_with ''.tmp-'' x"
  by (auto simp: starts_with_iff append_eq_append_conv2 append_eq_Cons_conv Cons_eq_append_conv)

lemma trim_line: "list_all is_id_char k \<Longrightarrow> k \<noteq> [] \<Longrightarrow> trim (k @ [newline]) = k \<and> trim k = k \<and> is_utf8 (k @ [newline])"
proof -
  assume k: "list_all is_id_char k" "k \<noteq> []"
  have ascii: "is_ascii (k @ [newline])" "is_ascii k"
    using is_id_char_ascii [OF k(1)] by (simp_all add: is_ascii_def is_ascii_byte_def)
  have nows: "\<not> is_whitespace_cp (byte_of ch)" if "ch \<in> set k" for ch
    using k(1) that by (auto simp: list_all_iff is_id_char_def is_ascii_lowercase_def is_ascii_digit_def is_whitespace_cp_def)
  have keep: "dropWhile (\<lambda>g. is_whitespace_cp (code_point g)) (map (\<lambda>c. [c]) xs) = map (\<lambda>c. [c]) xs"
    if "\<forall>ch \<in> set xs. \<not> is_whitespace_cp (byte_of ch)" for xs using that by (cases xs) auto
  have keep': "dropWhile (\<lambda>g. is_whitespace_cp (code_point g)) (map (\<lambda>c. [c]) (k @ ys)) = map (\<lambda>c. [c]) (k @ ys)" for ys
    using k(2) nows by (cases k) auto
  have nl: "is_whitespace_cp (code_point [newline])" by code_simp
  have conc: "concat (map (\<lambda>c. [c]) xs) = xs" for xs :: string by (induction xs) auto
  have "trim k = k"
    using keep [of k] keep [of "rev k"] nows by (simp add: trim_def uchars_ascii [OF ascii(2)] Let_def rev_map [symmetric] conc)
  moreover have "trim (k @ [newline]) = k"
    using keep' [of "[newline]"] keep [of "rev k"] nows nl
    by (simp add: trim_def uchars_ascii [OF ascii(1)] Let_def rev_map [symmetric] conc)
  ultimately show ?thesis using utf8_lossy_ascii [OF ascii(1)] by (simp add: is_utf8_def)
qed

lemma ref_at_written:
  "parse_commit_id k = Ok k \<Longrightarrow> content s (ref_components ns name) = Some (k @ [newline]) \<Longrightarrow> ref_at s ns name = Some k"
  using commit_id_ascii [of k k] trim_line [of k] by (simp add: ref_at_def trimmed_def)

lemma protection_path_eq:
  "ref_path Environments n = Ok q \<Longrightarrow> protection_path n = Ok (butlast q @ [last q @ ''.protection''])"
  by (simp add: protection_path_def)

text \<open>
  The two files that make an environment protected: changes elsewhere keep the ref and its protection.
\<close>

definition guarded :: "repo_codec \<Rightarrow> string \<Rightarrow> commit_id \<Rightarrow> fs \<Rightarrow> bool" where
  "guarded c name k s \<longleftrightarrow> fs_inv s \<and> faults s = [] \<and> ref_at s Environments name = Some k \<and> protected_at c s name"

lemma guarded_frame:
  assumes "guarded c name k s" "plain_ref name" "touches X s s'" "faults s' = []"
    and "\<not> X (ref_components Environments name)"
    and "\<not> X (butlast (ref_components Environments name) @ [last (ref_components Environments name) @ ''.protection''])"
  shows "guarded c name k s'"
proof -
  let ?P = "ref_components Environments name"
  let ?PP = "butlast ?P @ [last ?P @ ''.protection'']"
  have pp: "protection_path name = Ok ?PP"
    using assms(2) ref_path_Ok unfolding plain_ref_def is_ok_iff by (metis protection_path_eq)
  have "content s' ?P = content s ?P" "content s' ?PP = content s ?PP" "fs_inv s'"
    using assms(1,3,5,6) unfolding touches_def guarded_def by blast+
  then show ?thesis using assms(1,4) pp by (auto simp: guarded_def ref_at_def protected_at_def trimmed_def)
qed

lemma env_paths:
  assumes "plain_ref name"
  defines "P \<equiv> ref_components Environments name"
  shows "P \<noteq> ref_components Heads n" "butlast P @ [last P @ ''.protection''] \<noteq> ref_components Heads n"
    and "P \<noteq> HEAD_FILE" "butlast P @ [last P @ ''.protection''] \<noteq> HEAD_FILE"
    and "P \<noteq> butlast q @ [last q @ ''.protection'']" "P \<noteq> butlast P @ [last P @ ''.protection'']"
    and "\<not> is_temp ''.tmp-'' P" "\<not> is_temp ''.tmp-'' (butlast P @ [last P @ ''.protection''])"
    and "q \<noteq> [] \<Longrightarrow> butlast q @ [last q @ ''.protection''] = butlast P @ [last P @ ''.protection''] \<Longrightarrow> q = P"
proof -
  let ?c = "filter (\<lambda>x. x \<noteq> ''.'') (split_on (CHR ''/'') name)"
  have c: "?c \<noteq> []" "\<not> ends_with ''.protection'' (last ?c)" "\<not> starts_with ''.tmp-'' (last ?c)"
    using assms(1) by (auto simp: plain_ref_def ref_components_def)
  have P: "P = ''refs'' # ''environments'' # ?c" "last P = last ?c" "butlast P = ''refs'' # ''environments'' # butlast ?c"
    using c(1) by (auto simp: P_def ref_components_def)
  show "P \<noteq> ref_components Heads n" "butlast P @ [last P @ ''.protection''] \<noteq> ref_components Heads n"
    "P \<noteq> HEAD_FILE" "butlast P @ [last P @ ''.protection''] \<noteq> HEAD_FILE"
    by (simp_all add: P ref_components_def HEAD_FILE_def)
  show other: "P \<noteq> butlast q @ [last q @ ''.protection'']" for q
    using c(2) P(2) unfolding ends_with_iff by (metis last_snoc)
  show "P \<noteq> butlast P @ [last P @ ''.protection'']" by (rule other)
  have "P \<noteq> []" using P(1) by simp
  show "\<not> is_temp ''.tmp-'' P" using c(3) P(2) by (simp add: is_temp_def)
  show "\<not> is_temp ''.tmp-'' (butlast P @ [last P @ ''.protection''])"
    using c(3) P(2) temp_protection [of "last P"] by (auto simp: is_temp_def)
  show "q \<noteq> [] \<Longrightarrow> butlast q @ [last q @ ''.protection''] = butlast P @ [last P @ ''.protection''] \<Longrightarrow> q = P"
  proof -
    assume q: "q \<noteq> []" "butlast q @ [last q @ ''.protection''] = butlast P @ [last P @ ''.protection'']"
    then have "butlast q @ [last q] = butlast P @ [last P]" by simp
    then show "q = P" using q(1) \<open>P \<noteq> []\<close> by (simp only: append_butlast_last_id not_False_eq_True)
  qed
qed

text \<open>What each operation can touch.\<close>

lemma only_write_atomically [only_intros]:
  "X p \<Longrightarrow> (\<And>q. is_temp ''.tmp-'' q \<Longrightarrow> X q) \<Longrightarrow> only X (write_atomically p b)"
  unfolding write_atomically_def by (rule only_publish)

lemma calm_write_atomically [calm_intros]: "calm (write_atomically p b)"
  unfolding write_atomically_def by (rule calm_publish)

lemma read_trimmed_frames [only_intros, calm_intros]: "only X (read_trimmed p)" "calm (read_trimmed p)"
  unfolding read_trimmed_def by (intro only_intros calm_intros)+

lemma read_frames [only_intros, calm_intros]:
  "only X (read_ref ns name)" "calm (read_ref ns name)" "only X read_head" "calm read_head"
  "only X (read_env_protection c name)" "calm (read_env_protection c name)"
  unfolding read_ref_def read_head_def read_env_protection_def by (intro only_intros calm_intros)+

lemma only_write_ref_at [only_intros]:
  "X (ref_components ns name) \<Longrightarrow> (\<And>q. is_temp ''.tmp-'' q \<Longrightarrow> X q) \<Longrightarrow> only X (write_ref_at ns name k)"
  unfolding write_ref_at_def by (rule only_bind_lift) (auto intro!: only_intros dest: ref_path_Ok)

lemma only_remove_ref_file [only_intros]: "X (ref_components ns name) \<Longrightarrow> only X (remove_ref_file ns name)"
  unfolding remove_ref_file_def by (rule only_bind_lift) (auto intro!: only_intros dest: ref_path_Ok)

lemma calm_ref_writes [calm_intros]: "calm (write_ref_at ns name k)" "calm (remove_ref_file ns name)" "calm (write_head t)"
  unfolding write_ref_at_def remove_ref_file_def write_head_def by (intro calm_intros)+

lemma calm_ref_calls [calm_intros]: "calm (ref_call_io c call)"
  by (cases call; auto simp: write_ref_def delete_ref_def write_env_ref_def delete_env_ref_def write_env_protection_def
        split: ref_namespace.splits intro!: calm_intros)

lemma guarded_only:
  assumes "guarded c name k s" "plain_ref name" "only X m" "calm m"
    and "\<not> X (ref_components Environments name)"
    and "\<not> X (butlast (ref_components Environments name) @ [last (ref_components Environments name) @ ''.protection''])"
  shows "guarded c name k (snd (m s))"
  by (rule guarded_frame [OF assms(1,2) _ _ assms(5,6)])
     (use assms(1,3,4) in \<open>auto simp: only_def calm_def guarded_def\<close>)

lemma guarded_reads:
  assumes "repo_codec_ok c" "guarded c name k s" "ref_path Environments n = Ok q" "plain_ref name"
  defines "P \<equiv> ref_components Environments name"
  shows "q = P \<Longrightarrow> read_ref Environments n s = (Ok (Some k), s) \<and> read_env_protection c n s = (Ok True, s)"
    and "q = butlast P @ [last P @ ''.protection''] \<Longrightarrow> \<exists>e. read_ref Environments n s = (Err e, s)"
proof -
  have f: "faults s = []" using assms(2) by (simp add: guarded_def)
  obtain pp where "ref_path Environments name = Ok pp" using assms(4) unfolding plain_ref_def is_ok_iff by blast
  then have path: "ref_path Environments name = Ok P" using ref_path_Ok P_def by metis
  obtain t where t: "trimmed s (butlast P @ [last P @ ''.protection'']) = Some t" "dec_protection c t = Ok True"
    using assms(2) unfolding guarded_def protected_at_def protection_path_eq [OF path] by auto
  { assume q: "q = P"
    have "read_ref Environments n s = (Ok (Some k), s)"
      using assms(2) q unfolding read_ref_no_faults [OF f assms(3)] guarded_def ref_at_def P_def
      by (auto split: option.splits result.splits)
    moreover have "read_env_protection c n s = (Ok True, s)"
      using read_protection_no_faults [OF f protection_path_eq [OF assms(3)], of c] t q by simp
    ultimately show "read_ref Environments n s = (Ok (Some k), s) \<and> read_env_protection c n s = (Ok True, s)" by simp }
  { assume q: "q = butlast P @ [last P @ ''.protection'']"
    have "is_err (parse_commit_id t)" using assms(1) t(2) unfolding repo_codec_ok_def by blast
    then show "\<exists>e. read_ref Environments n s = (Err e, s)"
      using t(1) q unfolding read_ref_no_faults [OF f assms(3)] by (cases "parse_commit_id t") auto }
qed

lemma guarded_rewrite:
  assumes "guarded c name k s" "plain_ref name" "ref_components Environments n = ref_components Environments name"
  shows "guarded c name k (snd (write_ref_at Environments n k s))"
proof -
  let ?P = "ref_components Environments name"
  let ?PP = "butlast ?P @ [last ?P @ ''.protection'']"
  note ne = env_paths [OF assms(2)]
  obtain r s' where run: "write_ref_at Environments n k s = (r, s')" by force
  have f: "faults s' = []"
    using run assms(1) calm_run [OF calm_ref_writes(1) run] by (simp add: guarded_def)
  have only': "only (\<lambda>q. q = ?P \<or> is_temp ''.tmp-'' q) (write_ref_at Environments n k)"
    by (intro only_intros) (simp_all add: assms(3))
  have inv: "fs_inv s" using assms(1) by (simp add: guarded_def)
  have PP: "content s' ?PP = content s ?PP" "fs_inv s'"
    using only_keeps [OF only' inv, of ?PP] only_inv [OF only' inv] ne run by auto
  have k: "parse_commit_id k = Ok k"
    using assms(1) commit_id_ascii by (auto simp: guarded_def ref_at_def split: option.splits result.splits)
  have P: "content s' ?P = content s ?P \<or> content s' ?P = Some (k @ [newline])"
  proof (cases "ref_path Environments n")
    case (Ok q)
    then have "publish ''.tmp-'' ?P (k @ [newline]) s = (r, s')"
      using run assms(3) ref_path_Ok [OF Ok] by (simp add: write_ref_at_def write_atomically_def bind_io_run)
    from publish_cases [OF this inv] show ?thesis using ne(7) by (cases r) auto
  qed (use run in \<open>simp add: write_ref_at_def bind_io_run\<close>)
  have "ref_at s' Environments name = Some k"
    using P ref_at_written [OF k, of s' Environments name] assms(1) by (auto simp: guarded_def ref_at_def trimmed_def)
  moreover obtain pp where "ref_path Environments name = Ok pp" using assms(2) unfolding plain_ref_def is_ok_iff by blast
  then have "protection_path name = Ok ?PP" using ref_path_Ok protection_path_eq by metis
  ultimately show ?thesis
    using assms(1) PP f run by (auto simp: guarded_def protected_at_def trimmed_def)
qed

lemma read_ref_same: "faults s = [] \<Longrightarrow> snd (read_ref ns name s) = s"
  using read_ref_no_faults [of s ns name] by (cases "ref_path ns name") (auto simp: read_ref_def bind_io_run)

lemma guarded_write_env_ref:
  assumes "repo_codec_ok c" "guarded c name k s" "plain_ref name"
  shows "guarded c name k (snd (write_env_ref c n k' False s))"
proof (cases "ref_path Environments n")
  case (Err e)
  then show ?thesis using assms(2) by (simp add: write_env_ref_def read_ref_def bind_io_run)
next
  case (Ok q)
  let ?P = "ref_components Environments name"
  note ne = env_paths [OF assms(3)]
  consider "q = ?P" | "q = butlast ?P @ [last ?P @ ''.protection'']" | "q \<noteq> ?P" "q \<noteq> butlast ?P @ [last ?P @ ''.protection'']" by blast
  then show ?thesis
  proof cases
    case 1
    then have reads: "read_ref Environments n s = (Ok (Some k), s)" "read_env_protection c n s = (Ok True, s)"
      using guarded_reads(1) [OF assms(1,2) Ok assms(3)] by auto
    have q: "ref_components Environments n = ?P" using ref_path_Ok [OF Ok] 1 by simp
    show ?thesis
    proof (cases "k' = k")
      case True
      then show ?thesis using guarded_rewrite [OF assms(2,3) q] reads(1) by (simp add: write_env_ref_def bind_io_run)
    next
      case False
      then show ?thesis using assms(2) reads by (simp add: write_env_ref_def bind_io_run bind_io_bool fail_io_def)
    qed
  next
    case 2
    then obtain e where "read_ref Environments n s = (Err e, s)"
      using guarded_reads(2) [OF assms(1,2) Ok assms(3)] by auto
    then show ?thesis using assms(2) by (simp add: write_env_ref_def bind_io_run)
  next
    case 3
    have "only (\<lambda>x. x = q \<or> is_temp ''.tmp-'' x) (write_env_ref c n k' False)"
      unfolding write_env_ref_def by (intro only_intros) (simp_all add: ref_path_Ok [OF Ok])
    then show ?thesis
      by (rule guarded_only [OF assms(2,3)]) (use 3 ne calm_ref_calls [of c "WriteEnvRef n k' False"] in auto)
  qed
qed

lemma bind_lift_Ok: "bind_io (lift_io (Ok a)) f = f a"
  by (simp add: fun_eq_iff bind_io_run)

lemma guarded_delete_env_ref:
  assumes "repo_codec_ok c" "guarded c name k s" "plain_ref name"
  shows "guarded c name k (snd (delete_env_ref c n False s))"
proof (cases "ref_path Environments n")
  case (Err e)
  then show ?thesis using assms(2) by (simp add: delete_env_ref_def read_ref_def bind_io_run)
next
  case (Ok q)
  let ?P = "ref_components Environments name"
  note ne = env_paths [OF assms(3)]
  consider "q = ?P" | "q = butlast ?P @ [last ?P @ ''.protection'']" | "q \<noteq> ?P" "q \<noteq> butlast ?P @ [last ?P @ ''.protection'']" by blast
  then show ?thesis
  proof cases
    case 1
    then have "read_ref Environments n s = (Ok (Some k), s)" "read_env_protection c n s = (Ok True, s)"
      using guarded_reads(1) [OF assms(1,2) Ok assms(3)] by auto
    then show ?thesis using assms(2) by (simp add: delete_env_ref_def bind_io_run bind_io_bool fail_io_def)
  next
    case 2
    then obtain e where "read_ref Environments n s = (Err e, s)"
      using guarded_reads(2) [OF assms(1,2) Ok assms(3)] by auto
    then show ?thesis using assms(2) by (simp add: delete_env_ref_def bind_io_run)
  next
    case 3
    have q: "q \<noteq> []" "q = ref_components Environments n" using ref_path_Ok [OF Ok] by (auto simp: ref_components_def)
    let ?X = "\<lambda>x. x = q \<or> x = butlast q @ [last q @ ''.protection'']"
    have "only ?X (remove_ref_file Environments n)" by (rule only_intros) (simp add: q)
    then have "only ?X (delete_env_ref c n False)"
      unfolding delete_env_ref_def protection_path_eq [OF Ok] bind_lift_Ok by (intro only_intros) (simp_all add: q)
    then show ?thesis
      by (rule guarded_only [OF assms(2,3)]) (use 3 ne q(1) calm_ref_calls [of c "DeleteEnvRef n False"] in auto)
  qed
qed

lemma guarded_protect:
  assumes "repo_codec_ok c" "guarded c name k s" "plain_ref name" "b \<or> protection_path n \<noteq> protection_path name"
  shows "guarded c name k (snd (write_env_protection c n b s))"
proof (cases "ref_path Environments n")
  case (Err e)
  then show ?thesis using assms(2) by (simp add: write_env_protection_def protection_path_def bind_io_run)
next
  case (Ok q)
  let ?P = "ref_components Environments name"
  let ?PP = "butlast ?P @ [last ?P @ ''.protection'']" and ?QQ = "butlast q @ [last q @ ''.protection'']"
  note ne = env_paths [OF assms(3)]
  obtain pp where "ref_path Environments name = Ok pp" using assms(3) unfolding plain_ref_def is_ok_iff by blast
  then have pp: "protection_path name = Ok ?PP" using ref_path_Ok protection_path_eq by metis
  obtain t where t: "enc_protection c b = Ok t" "is_utf8 t" "trim t = t" "t \<noteq> []" "dec_protection c t = Ok b"
    using assms(1) unfolding repo_codec_ok_def by blast
  have eq: "write_env_protection c n b s = publish ''.tmp-'' ?QQ t s"
    using protection_path_eq [OF Ok] t(1) by (simp add: write_env_protection_def write_atomically_def bind_io_run)
  have inv: "fs_inv s" "faults s = []" using assms(2) by (simp_all add: guarded_def)
  obtain r s' where run: "publish ''.tmp-'' ?QQ t s = (r, s')" by force
  note pub = publish_cases [OF run inv(1)]
  have "only (\<lambda>x. x = ?QQ \<or> is_temp ''.tmp-'' x) (publish ''.tmp-'' ?QQ t)" by (rule only_publish) auto
  note away = guarded_only [OF assms(2,3) this calm_publish]
  show ?thesis
  proof (cases "?QQ = ?PP")
    case False
    then show ?thesis unfolding eq using away ne by auto
  next
    case True
    then have b using assms(4) protection_path_eq [OF Ok] pp by auto
    have P: "content s' ?P = content s ?P" using pub ne True by metis
    have "content s' ?PP = Some t \<or> content s' ?PP = content s ?PP" using pub ne True by (cases r) auto
    then have "protected_at c s' name"
      using t \<open>b\<close> pp assms(2) by (auto simp: guarded_def protected_at_def trimmed_def)
    moreover have "faults s' = []" using calm_run [OF calm_publish run] inv(2) by simp
    ultimately show ?thesis
      using eq run pub P assms(2) by (simp add: guarded_def ref_at_def trimmed_def)
  qed
qed

lemma guarded_call:
  assumes "repo_codec_ok c" "guarded c name k s" "plain_ref name" "unforced name call"
  shows "guarded c name k (snd (ref_call_io c call s))"
proof -
  note ne = env_paths [OF assms(3)]
  have heads: "guarded c name k (snd (m s))"
    if "only (\<lambda>q. q = ref_components Heads n \<or> is_temp ''.tmp-'' q) m" "calm m" for n and m :: "unit io"
    by (rule guarded_only [OF assms(2,3) that]) (use ne in auto)
  show ?thesis
  proof (cases call)
    case (WriteRef ns n k')
    then show ?thesis
      using assms(2) heads [of n "write_ref_at Heads n k'"]
      by (cases ns) (auto simp: write_ref_def fail_io_def intro!: only_intros calm_intros)
  next
    case (DeleteRef ns n force)
    then show ?thesis
      using assms(2) heads [of n "delete_ref Heads n force"] calm_ref_calls [of c "DeleteRef Heads n force"]
      by (cases ns) (auto simp: delete_ref_def fail_io_def intro!: only_intros)
  next
    case (WriteHead t)
    have "only (\<lambda>q. q = HEAD_FILE \<or> is_temp ''.tmp-'' q) (write_head t)"
      unfolding write_head_def by (intro only_intros) auto
    from guarded_only [OF assms(2,3) this calm_ref_writes(3)] show ?thesis using WriteHead ne by auto
  qed (use assms guarded_write_env_ref guarded_delete_env_ref guarded_protect in auto)
qed

lemma guarded_calls:
  assumes "repo_codec_ok c" "plain_ref name" "list_all (unforced name) calls" "guarded c name k s"
  shows "guarded c name k (fold (\<lambda>call s. snd (ref_call_io c call s)) calls s)"
  using assms(3,4) by (induction calls arbitrary: s) (auto simp: guarded_call [OF assms(1) _ assms(2)])

section \<open>Properties\<close>

text \<open>
  C9. A protected environment moves only by force: as long as reads do not fail, no sequence of calls on the ref
  store in which environment writes and deletes are unforced and the environment's own protection is not switched
  off -- branch writes and deletes, \<open>HEAD\<close> moves, writes to other environments, and names chosen to hit the
  protection sidecar included -- changes the commit of a protected environment ref or removes its protection.
\<close>

theorem protected_env_moves_only_by_force:
  assumes "repo_codec_ok c" "plain_ref name" "fs_inv s" "faults s = []"
    and "ref_at s Environments name = Some k" "protected_at c s name"
    and "list_all (unforced name) calls"
  shows "ref_at (fold (\<lambda>call s. snd (ref_call_io c call s)) calls s) Environments name = Some k
     \<and> protected_at c (fold (\<lambda>call s. snd (ref_call_io c call s)) calls s) name"
  using guarded_calls [OF assms(1,2,7)] assms(3-6) unfolding guarded_def by blast

definition guarded_fs :: fs where
  "guarded_fs = empty_fs\<lparr>nodes :=
     [([], Dir), ([''refs''], Dir), ([''refs'', ''environments''], Dir),
      ([''refs'', ''environments'', ''prod''], File (''cmt_one'' @ [newline])),
      ([''refs'', ''environments'', ''prod.protection''], File ''true'')]\<rparr>"

lemma any_char_ascii: "is_ascii x \<Longrightarrow> any_char f x \<longleftrightarrow> list_ex (\<lambda>ch. f (byte_of ch)) x"
  by (simp add: any_char_def uchars_ascii list_ex_iff)

lemma prod_path:
  "ref_path Environments ''prod'' = Ok [''refs'', ''environments'', ''prod'']"
  "protection_path ''prod'' = Ok [''refs'', ''environments'', ''prod.protection'']"
  "ref_components Environments ''prod'' = [''refs'', ''environments'', ''prod'']"
proof -
  have "is_ascii ''prod''" by code_simp
  note any = any_char_ascii [OF this]
  have chars: "\<not> any_char (\<lambda>ch. is_whitespace_cp ch \<or> ch = 92 \<or> ch = 0) ''prod''" "\<not> any_char is_forbidden_control_char ''prod''"
    by (simp_all add: any is_whitespace_cp_def is_forbidden_control_char_def)
  have "\<not> starts_with ''/'' ''prod''" "\<not> ends_with ''/'' ''prod''" "\<not> contains_str ''//'' ''prod''" "\<not> contains_str ''..'' ''prod''"
    by code_simp+
  then have "parse_branch_ref ''prod'' = Ok ''prod''" using chars(2) by (simp add: parse_branch_ref_def)
  moreover show comps: "ref_components Environments ''prod'' = [''refs'', ''environments'', ''prod'']" by code_simp
  ultimately show "ref_path Environments ''prod'' = Ok [''refs'', ''environments'', ''prod'']"
    using chars(1) by (simp add: ref_path_def)
  from protection_path_eq [OF this] show "protection_path ''prod'' = Ok [''refs'', ''environments'', ''prod.protection'']" by simp
qed

lemma guarded_fs_facts:
  "plain_ref ''prod''" "fs_inv guarded_fs" "faults guarded_fs = []" "ref_at guarded_fs Environments ''prod'' = Some ''cmt_one''"
  "protected_at sample_repo_codec guarded_fs ''prod''"
proof -
  have "filter (\<lambda>x. x \<noteq> ''.'') (split_on (CHR ''/'') ''prod'') = [''prod'']" by code_simp
  then show "plain_ref ''prod''" by (simp add: plain_ref_def prod_path ends_with_iff starts_with_iff append_eq_Cons_conv)
  have files: "content guarded_fs [''refs'', ''environments'', ''prod''] = Some (''cmt_one'' @ [newline])"
    "content guarded_fs [''refs'', ''environments'', ''prod.protection''] = Some ''true''"
    by (simp_all add: guarded_fs_def content_def)
  have words: "parse_commit_id ''cmt_one'' = Ok ''cmt_one''" "is_utf8 ''true''" "trim ''true'' = ''true''" by code_simp+
  show "ref_at guarded_fs Environments ''prod'' = Some ''cmt_one''" by (rule ref_at_written [OF words(1)]) (simp only: prod_path files)
  show "protected_at sample_repo_codec guarded_fs ''prod''"
    using files(2) words by (simp add: protected_at_def prod_path trimmed_def sample_repo_codec_def)
  have "bt_inv (nodes guarded_fs)" by code_simp
  then show "fs_inv guarded_fs" by (simp add: fs_inv_def)
  show "faults guarded_fs = []" by (simp add: guarded_fs_def)
qed

theorem protected_env_moves_only_by_force_witness:
  "ref_at (fold (\<lambda>call s. snd (ref_call_io sample_repo_codec call s))
     [WriteEnvRef ''prod'' ''cmt_two'' False, DeleteEnvRef ''prod.protection'' False, DeleteEnvRef ''./prod'' False,
      WriteRef Heads ''prod'' ''cmt_two'', WriteProtection ''prod'' True] guarded_fs) Environments ''prod'' = Some ''cmt_one''"
proof -
  have "list_all (unforced ''prod'') [WriteEnvRef ''prod'' ''cmt_two'' False, DeleteEnvRef ''prod.protection'' False,
      DeleteEnvRef ''./prod'' False, WriteRef Heads ''prod'' ''cmt_two'', WriteProtection ''prod'' True]" by simp
  from protected_env_moves_only_by_force [OF sample_repo_codec_ok guarded_fs_facts this] show ?thesis by blast
qed

text \<open>
  The premise on reads is needed: \<open>read_trimmed\<close> turns a failed read into an absent file, so one failed read of the
  sidecar makes an unforced write to a protected environment the raw write.
\<close>

lemma failed_sidecar_read_unprotects:
  assumes "plain_ref name" "ref_at s Environments name = Some k" "faults s = [None, Some (n, e)]" "k' \<noteq> k"
  shows "write_env_ref c name k' False s = write_ref_at Environments name k' (s\<lparr>faults := []\<rparr>)"
proof -
  let ?P = "ref_components Environments name" and ?s = "s\<lparr>faults := [Some (n, e)]\<rparr>"
  obtain pp where "ref_path Environments name = Ok pp" using assms(1) unfolding plain_ref_def is_ok_iff by blast
  then have path: "ref_path Environments name = Ok ?P" using ref_path_Ok by metis
  obtain b where b: "content s ?P = Some b" "is_utf8 b" "trim b \<noteq> []" "parse_commit_id (trim b) = Ok k"
    using assms(2) by (auto simp: ref_at_def trimmed_def split: option.splits if_splits result.splits)
  have "content ?s ?P = Some b" using b(1) by (simp add: content_def)
  then have "read_to_string ?P s = (Ok b, ?s)"
    using assms(3) b(2) by (simp add: read_to_string_def read_file_def perform_def next_fault_def bind_io_run ok_or_def return_io_def)
  then have "read_ref Environments name s = (Ok (Some k), ?s)"
    using b(3,4) by (simp add: read_ref_def path bind_io_run read_trimmed_def bind_ok_io return_io_def)
  moreover have "read_to_string p ?s = (Err (RepoIo e), s\<lparr>faults := []\<rparr>)" for p
    by (simp add: read_to_string_def read_file_def perform_def next_fault_def bind_io_run)
  then have "read_env_protection c name ?s = (Ok False, s\<lparr>faults := []\<rparr>)"
    by (simp add: read_env_protection_def protection_path_eq [OF path] bind_io_run read_trimmed_def bind_ok_io return_io_def)
  ultimately show ?thesis using assms(4) by (simp add: write_env_ref_def bind_io_run bind_io_bool)
qed

text \<open>
  The staging index is replaced as a whole: whatever calls fail, saving an index either succeeds, and then loading
  it back gives exactly that index, or reports an error and leaves the saved index as it was.
\<close>

lemma save_index_atomic:
  assumes "repo_codec_ok c" "valid_index ix" "fs_inv s" "save_index c ix s = (r, s')"
  shows "case r of Ok _ \<Rightarrow> load_index c (s'\<lparr>faults := []\<rparr>) = (Ok ix, s'\<lparr>faults := []\<rparr>)
                 | Err _ \<Rightarrow> content s' INDEX_FILE = content s INDEX_FILE"
proof -
  obtain t where t: "enc_index c ix = Ok t" "is_utf8 t" "dec_index c t = Ok ix"
    using assms(1,2) unfolding repo_codec_ok_def by blast
  have "\<not> is_temp ''.tmp-index-'' INDEX_FILE" by code_simp
  moreover have "publish ''.tmp-index-'' INDEX_FILE t s = (r, s')" using assms(4) t(1) by (simp add: save_index_def)
  ultimately have cs: "case r of Ok _ \<Rightarrow> content s' INDEX_FILE = Some t | Err _ \<Rightarrow> content s' INDEX_FILE = content s INDEX_FILE"
    using publish_cases [OF _ assms(3)] by blast
  show ?thesis
  proof (cases r)
    case (Ok u)
    let ?s = "s'\<lparr>faults := []\<rparr>"
    have "content ?s INDEX_FILE = Some t" using cs Ok by (simp add: content_def)
    moreover from this have "path_exists INDEX_FILE ?s = (Ok True, ?s)"
      by (auto simp: path_exists_def probe_def no_next_fault content_def split: option.splits)
    moreover from calculation have "read_to_string INDEX_FILE ?s = (Ok t, ?s)"
      using read_to_string_no_faults [of ?s INDEX_FILE] t(2) by (cases "read_to_string INDEX_FILE ?s") auto
    ultimately show ?thesis using Ok t(3) by (simp add: load_index_def bind_io_run bind_io_bool)
  qed (use cs in simp)
qed

lemma save_index_atomic_witness:
  "case save_index sample_repo_codec [(''KEY'', StagedRemove)] (empty_fs\<lparr>faults := [None, None, Some (1, ''disk full'')]\<rparr>) of
     (Ok _, s') \<Rightarrow> load_index sample_repo_codec (s'\<lparr>faults := []\<rparr>) = (Ok [(''KEY'', StagedRemove)], s'\<lparr>faults := []\<rparr>)
   | (Err _, s') \<Rightarrow> content s' INDEX_FILE = None"
proof -
  let ?s = "empty_fs\<lparr>faults := [None, None, Some (1, ''disk full'')]\<rparr>"
  obtain r s' where run: "save_index sample_repo_codec [(''KEY'', StagedRemove)] ?s = (r, s')" by force
  have "valid_index [(''KEY'', StagedRemove)]" by code_simp
  moreover have "fs_inv ?s" "content ?s INDEX_FILE = None" by (simp_all add: fs_inv_def empty_fs_def bt_empty_def content_def)
  ultimately show ?thesis
    using save_index_atomic [OF sample_repo_codec_ok _ _ run] run by (cases r) auto
qed

end
