(* ===== verification/History.thy ===== *)
theory History
  imports Ref_Store
begin

text \<open>
  \<open>commit.rs\<close> and \<open>history.rs\<close>: signed commits, their content-derived identifiers, the lookup of a commit through the
  object store, the first-parent walk and the validation of parents.  Ed25519 is \<open>sign_bytes\<close> and \<open>verify_bytes\<close> of
  the codec.
\<close>

section \<open>Commits\<close>

definition COMMIT_FORMAT_VERSION :: u16 where
  "COMMIT_FORMAT_VERSION = 1"

definition new_commit :: "commit_id list \<Rightarrow> object_id \<Rightarrow> string \<Rightarrow> string \<Rightarrow> commit" where
  "new_commit parents manifest author message =
     \<lparr>com_format = COMMIT_FORMAT_VERSION, com_parents = parents, com_manifest = manifest, com_author = author,
      com_message = message, com_signature = []\<rparr>"

definition sign_payload :: "repo_codec \<Rightarrow> commit \<Rightarrow> (string, repo_error) result" where
  "sign_payload c k =
     map_err RepoJson (enc_signable c (com_format k, com_parents k, com_manifest k, com_author k, com_message k))"

definition sign_with :: "repo_codec \<Rightarrow> string \<Rightarrow> commit \<Rightarrow> (commit, repo_error) result" where
  "sign_with c keypair k =
     and_then (sign_payload c k) (\<lambda>payload. Ok (k\<lparr>com_signature := sign_bytes c keypair payload\<rparr>))"

definition verify_commit :: "repo_codec \<Rightarrow> string \<Rightarrow> commit \<Rightarrow> (unit, repo_error) result" where
  "verify_commit c public_key k =
     and_then (sign_payload c k) (\<lambda>payload.
       if verify_bytes c public_key payload (com_signature k) then Ok () else Err SignatureInvalid)"

definition commit_envelope :: "repo_codec \<Rightarrow> commit \<Rightarrow> (object_envelope, repo_error) result" where
  "commit_envelope c k =
     and_then (map_err RepoJson (enc_commit c k)) (\<lambda>payload. Ok (new_envelope CommitObject payload))"

definition storage_bytes :: "repo_codec \<Rightarrow> commit \<Rightarrow> (string, repo_error) result" where
  "storage_bytes c k = and_then (commit_envelope c k) (canonical_bytes c)"

definition commit_id_of :: "repo_codec \<Rightarrow> commit \<Rightarrow> (commit_id, repo_error) result" where
  "commit_id_of c k =
     and_then (storage_bytes c k) (\<lambda>bytes. map_err IdConstruction (parse_commit_id (''cmt_'' @ digest_hex c bytes)))"

definition commit_object_id :: "repo_codec \<Rightarrow> commit \<Rightarrow> (object_id, repo_error) result" where
  "commit_object_id c k =
     and_then (storage_bytes c k) (\<lambda>bytes. map_err IdConstruction (parse_object_id (''obj_'' @ digest_hex c bytes)))"

section \<open>History\<close>

definition find_commit :: "repo_codec \<Rightarrow> commit_id \<Rightarrow> commit io" where
  "find_commit c id' =
     bind_io (lift_io (map_err IdConstruction (parse_object_id (''obj_'' @ drop 4 id')))) (\<lambda>oid.
     bind_io (get_object c oid) (\<lambda>e.
       if env_type e \<noteq> CommitObject
       then fail_io (CorruptObject oid (''expected a commit object, found '' @ object_type_debug (env_type e)))
       else lift_io (map_err RepoJson (dec_commit c (env_payload e)))))"

definition first_parent :: "commit \<Rightarrow> commit_id option" where
  "first_parent k = (case com_parents k of [] \<Rightarrow> None | p # _ \<Rightarrow> Some p)"

text \<open>The loop of \<open>log\<close>; every turn appends an entry, and \<open>limit\<close> bounds their number.\<close>

function log_loop ::
  "repo_codec \<Rightarrow> nat \<Rightarrow> commit_id option \<Rightarrow> commit_id list \<Rightarrow> (commit_id \<times> commit) list \<Rightarrow> (commit_id \<times> commit) list io" where
  "log_loop c limit cursor visited out s =
     (case cursor of
        None \<Rightarrow> (Ok out, s)
      | Some id' \<Rightarrow>
          if limit \<le> length out \<or> id' \<in> set visited then (Ok out, s)
          else (case find_commit c id' s of
              (Err e, s') \<Rightarrow> (Err e, s')
            | (Ok k, s') \<Rightarrow> log_loop c limit (first_parent k) (id' # visited) (out @ [(id', k)]) s'))"
  by pat_completeness auto

termination log_loop
  by (relation "measure (\<lambda>(c, limit, cursor, visited, out, s). limit - length out)") auto

declare log_loop.simps [simp del]

definition history_log :: "repo_codec \<Rightarrow> commit_id \<Rightarrow> nat \<Rightarrow> (commit_id \<times> commit) list io" where
  "history_log c head limit = log_loop c limit (Some head) [] []"

fun validate_parents :: "repo_codec \<Rightarrow> commit_id list \<Rightarrow> unit io" where
  "validate_parents c [] s = (Ok (), s)"
| "validate_parents c (p # ps) s =
     (case find_commit c p s of
        (Err _, s') \<Rightarrow> (Err (ParentNotFound p), s')
      | (Ok _, s') \<Rightarrow> validate_parents c ps s')"

section \<open>Reference definitions\<close>

text \<open>The commit an id stands for: what a reader without I/O failures gets.\<close>

definition commit_at :: "repo_codec \<Rightarrow> fs \<Rightarrow> commit_id \<Rightarrow> commit option" where
  "commit_at c s id' =
     (if is_err (parse_object_id (''obj_'' @ drop 4 id')) then None
      else (case stored c s (''obj_'' @ drop 4 id') of
          None \<Rightarrow> None
        | Some e \<Rightarrow> if env_type e = CommitObject then (case dec_commit c (env_payload e) of Ok k \<Rightarrow> Some k | Err _ \<Rightarrow> None) else None))"

text \<open>A list of stored commits, each the first parent of the one before, and where the list leaves off.\<close>

fun chain :: "repo_codec \<Rightarrow> fs \<Rightarrow> commit_id option \<Rightarrow> (commit_id \<times> commit) list \<Rightarrow> bool" where
  "chain c s cursor [] \<longleftrightarrow> True"
| "chain c s cursor ((i, k) # out) \<longleftrightarrow> cursor = Some i \<and> commit_at c s i = Some k \<and> chain c s (first_parent k) out"

fun leaves_off :: "commit_id option \<Rightarrow> (commit_id \<times> commit) list \<Rightarrow> commit_id option" where
  "leaves_off cursor [] = cursor"
| "leaves_off cursor ((i, k) # out) = leaves_off (first_parent k) out"

section \<open>Lemmas\<close>

lemma find_commit_sound:
  assumes "find_commit c i s = (r, s')"
  shows "same_nodes s s' \<and> (\<forall>k. r = Ok k \<longrightarrow> commit_at c s i = Some k)"
proof (cases "parse_object_id (''obj_'' @ drop 4 i)")
  case (Err e)
  then show ?thesis using assms by (auto simp: find_commit_def bind_io_run)
next
  case (Ok oid)
  then have oid: "oid = ''obj_'' @ drop 4 i" by (simp add: parse_prefixed_id_Ok_iff)
  obtain x t where g: "get_object c oid s = (x, t)" by force
  note snd = get_object_sound [OF g]
  show ?thesis
  proof (cases x)
    case (Err e)
    then show ?thesis using assms Ok g snd by (auto simp: find_commit_def bind_io_run)
  next
    case X: (Ok e)
    then show ?thesis using assms Ok oid g snd
      by (cases "dec_commit c (env_payload e)") (auto simp: find_commit_def bind_io_run commit_at_def split: if_splits)
  qed
qed

lemma find_commit_no_faults:
  assumes "faults s = []"
  shows "snd (find_commit c i s) = s \<and> (\<forall>k. fst (find_commit c i s) = Ok k \<longleftrightarrow> commit_at c s i = Some k)"
proof (cases "parse_object_id (''obj_'' @ drop 4 i)")
  case (Err e)
  then show ?thesis by (simp add: find_commit_def bind_io_run commit_at_def)
next
  case (Ok oid)
  then have oid: "oid = ''obj_'' @ drop 4 i" by (simp add: parse_prefixed_id_Ok_iff)
  obtain x where g: "get_object c oid s = (x, s)" "\<forall>e. x = Ok e \<longleftrightarrow> stored c s oid = Some e"
    using get_object_no_faults [OF assms, of c oid] by (cases "get_object c oid s") auto
  show ?thesis
  proof (cases x)
    case (Err e)
    then show ?thesis using Ok g oid by (auto simp: find_commit_def bind_io_run commit_at_def split: option.splits)
  next
    case X: (Ok e)
    then show ?thesis using Ok oid g
      by (cases "dec_commit c (env_payload e)")
         (auto simp: find_commit_def bind_io_run commit_at_def lift_io_def fail_io_def)
  qed
qed

lemma find_commit_cases:
  assumes "faults s = []"
  obtains k where "commit_at c s i = Some k" "find_commit c i s = (Ok k, s)"
    | e where "commit_at c s i = None" "find_commit c i s = (Err e, s)"
  using find_commit_no_faults [OF assms, of c i] that
  by (cases "find_commit c i s"; cases "fst (find_commit c i s)"; cases "commit_at c s i") auto

lemma commit_at_same: "same_nodes s s' \<Longrightarrow> commit_at c s' = commit_at c s"
  by (simp add: commit_at_def fun_eq_iff stored_same)

lemma commit_at_faults [simp]: "commit_at c (s\<lparr>faults := f\<rparr>) = commit_at c s"
  by (simp add: commit_at_def fun_eq_iff)

lemma chain_append [simp]:
  "chain c s cur (xs @ [(i, k)]) \<longleftrightarrow> chain c s cur xs \<and> leaves_off cur xs = Some i \<and> commit_at c s i = Some k"
  "leaves_off cur (xs @ [(i, k)]) = first_parent k"
  by (induction xs arbitrary: cur) auto

lemma chain_same: "same_nodes s s' \<Longrightarrow> chain c s' cur out = chain c s cur out"
  by (induction out arbitrary: cur) (auto simp: commit_at_same)

text \<open>The loop invariant of \<open>log\<close>.\<close>

lemma log_loop_spec:
  assumes "log_loop c limit cursor visited out s = (r, s')"
    and "chain c s start out" "leaves_off start out = cursor" "set visited = fst ` set out" "distinct (map fst out)" "length out \<le> limit"
  shows "same_nodes s s' \<and>
    (case r of
       Ok res \<Rightarrow> chain c s start res \<and> distinct (map fst res) \<and> length res \<le> limit
         \<and> (length res = limit \<or> leaves_off start res = None \<or> (\<exists>i. leaves_off start res = Some i \<and> i \<in> fst ` set res))
     | Err _ \<Rightarrow> faults s = [] \<longrightarrow> (\<exists>res i. chain c s start res \<and> length res < limit \<and> leaves_off start res = Some i \<and> commit_at c s i = None))"
  using assms
proof (induction c limit cursor visited out s rule: log_loop.induct)
  case (1 c limit cursor visited out s)
  show ?case
  proof (cases cursor)
    case None
    then show ?thesis using "1.prems" by (auto simp: log_loop.simps)
  next
    case (Some i)
    show ?thesis
    proof (cases "limit \<le> length out \<or> i \<in> set visited")
      case True
      then have "r = Ok out" "s' = s" using "1.prems"(1) Some by (auto simp: log_loop.simps)
      then show ?thesis using "1.prems"(2-6) True Some by (simp add: le_antisym) blast
    next
      case False
      obtain x t where f: "find_commit c i s = (x, t)" by force
      note snd = find_commit_sound [OF f]
      show ?thesis
      proof (cases x)
        case (Err e)
        then have rs: "r = Err e" "s' = t" using "1.prems"(1) Some False f by (auto simp: log_loop.simps)
        have "faults s = [] \<Longrightarrow> commit_at c s i = None" using find_commit_cases [of s c i] f Err by fastforce
        moreover have "length out < limit" "leaves_off start out = Some i" using False Some "1.prems"(3) by auto
        ultimately show ?thesis using rs snd "1.prems"(2) by auto
      next
        case (Ok k)
        have run: "log_loop c limit (first_parent k) (i # visited) (out @ [(i, k)]) t = (r, s')"
          using "1.prems"(1) Some False f Ok by (simp add: log_loop.simps)
        have st: "same_nodes s t" "commit_at c s i = Some k" using snd Ok by auto
        have fresh: "i \<notin> fst ` set out" "Suc (length out) \<le> limit" using False "1.prems"(4) by auto
        have ih: "same_nodes t s' \<and>
          (case r of
             Ok res \<Rightarrow> chain c t start res \<and> distinct (map fst res) \<and> length res \<le> limit
               \<and> (length res = limit \<or> leaves_off start res = None \<or> (\<exists>i. leaves_off start res = Some i \<and> i \<in> fst ` set res))
           | Err _ \<Rightarrow> faults t = [] \<longrightarrow> (\<exists>res i. chain c t start res \<and> length res < limit \<and> leaves_off start res = Some i \<and> commit_at c t i = None))"
          by (rule "1.IH" [OF Some False f [symmetric] Ok run])
             (use "1.prems" Some st fresh in \<open>auto simp: chain_same commit_at_same\<close>)
        have "faults s = [] \<Longrightarrow> t = s" using find_commit_no_faults [of s c i] f by simp
        then show ?thesis
          using ih same_nodes_trans [OF st(1)] chain_same [OF st(1)] commit_at_same [OF st(1)] by (cases r) auto
      qed
    qed
  qed
qed

lemma validate_parents_spec:
  assumes "validate_parents c ps s = (r, s')"
  shows "same_nodes s s' \<and> (r = Ok () \<longrightarrow> (\<forall>p \<in> set ps. commit_at c s p \<noteq> None))"
  using assms
proof (induction ps arbitrary: s)
  case (Cons p ps)
  obtain x t where f: "find_commit c p s = (x, t)" by force
  note snd = find_commit_sound [OF f]
  show ?case
  proof (cases x)
    case (Ok k)
    then have run: "validate_parents c ps t = (r, s')" using Cons.prems f by simp
    show ?thesis using Cons.IH [OF run] snd Ok same_nodes_trans commit_at_same by (metis (mono_tags, opaque_lifting) option.distinct(1) set_ConsD)
  qed (use Cons.prems f snd in auto)
qed simp

lemma validate_parents_no_faults:
  assumes "faults s = []" "\<forall>p \<in> set ps. commit_at c s p \<noteq> None"
  shows "validate_parents c ps s = (Ok (), s)"
  using assms(2)
proof (induction ps)
  case (Cons p ps)
  then show ?case by (cases rule: find_commit_cases [OF assms(1), of c p]) auto
qed simp

text \<open>The object and the commit identifier of a commit share the digest.\<close>

lemma commit_ids:
  assumes "repo_codec_ok c" "valid_commit k"
  obtains t where "enc_commit c k = Ok t" "dec_commit c t = Ok k"
    "commit_envelope c k = Ok (new_envelope CommitObject t)"
    "commit_object_id c k = Ok (id_of c (new_envelope CommitObject t))"
    "commit_id_of c k = Ok (''cmt_'' @ drop 4 (id_of c (new_envelope CommitObject t)))"
    "''obj_'' @ drop 4 (id_of c (new_envelope CommitObject t)) = id_of c (new_envelope CommitObject t)"
proof -
  obtain t where t: "enc_commit c k = Ok t" "dec_commit c t = Ok k" using codec_commit(1) [OF assms] by blast
  let ?e = "new_envelope CommitObject t"
  have env: "commit_envelope c k = Ok ?e" using t by (simp add: commit_envelope_def)
  have bytes: "storage_bytes c k = Ok (encoded c ?e)"
    using env codec_facts(1) [OF assms(1), of ?e] by (simp add: storage_bytes_def canonical_bytes_def)
  note hex = parse_hex_id [OF codec_facts(3) [OF assms(1), of "encoded c ?e"]]
  show ?thesis
    by (rule that [OF t env]) (use bytes hex [of "''obj_''"] hex [of "''cmt_''"] in
      \<open>simp_all add: commit_object_id_def commit_id_of_def id_of_def\<close>)
qed

lemma stored_commit_at:
  assumes "repo_codec_ok c" "stored c s (id_of c e) = Some e" "env_type e = CommitObject" "dec_commit c (env_payload e) = Ok k"
  shows "commit_at c s (''cmt_'' @ drop 4 (id_of c e)) = Some k"
proof -
  have "parse_object_id (''obj_'' @ digest_hex c (encoded c e)) = Ok (''obj_'' @ digest_hex c (encoded c e))"
    by (rule parse_hex_id) (simp_all add: codec_facts(3) [OF assms(1)])
  then show ?thesis using assms(2-4) by (simp add: commit_at_def id_of_def)
qed

section \<open>Properties\<close>

text \<open>
  The log is the first-parent chain and is never silently truncated.  A log that is returned, whatever calls
  failed, starts at the head, follows first parents, shows each commit as stored, repeats none and has at most
  \<open>limit\<close> entries; it ends before \<open>limit\<close> only at a root commit or when the chain closes a cycle.  Without I/O failures an
  error means that the chain reaches, before \<open>limit\<close> entries, a commit that is not stored.
\<close>

lemma log_exact:
  "case history_log c head limit s of (r, s') \<Rightarrow> same_nodes s s' \<and>
    (case r of
       Ok res \<Rightarrow> chain c s (Some head) res \<and> distinct (map fst res) \<and> length res \<le> limit
         \<and> (length res = limit \<or> leaves_off (Some head) res = None
            \<or> (\<exists>i. leaves_off (Some head) res = Some i \<and> i \<in> fst ` set res))
     | Err _ \<Rightarrow> faults s = [] \<longrightarrow>
         (\<exists>res i. chain c s (Some head) res \<and> length res < limit \<and> leaves_off (Some head) res = Some i \<and> commit_at c s i = None))"
proof -
  obtain r s' where run: "log_loop c limit (Some head) [] [] s = (r, s')" by force
  show ?thesis using log_loop_spec [OF run, of "Some head"] run by (simp add: history_log_def)
qed

definition sample_commit :: commit where
  "sample_commit = new_commit [] (''obj_'' @ replicate 64 (CHR ''b'')) ''alice'' ''first''"

lemma sample_commit_valid: "valid_commit sample_commit"
proof -
  have "is_ok (parse_object_id (''obj_'' @ replicate 64 (CHR ''b'')))" "is_ok (parse_identity_ref ''alice'')" "is_utf8 ''first''"
    by code_simp+
  then show ?thesis by (simp add: valid_commit_def sample_commit_def new_commit_def)
qed

lemma sample_history:
  obtains s i where "fs_inv s" "faults s = []" "commit_at sample_repo_codec s i = Some sample_commit"
proof -
  let ?c = sample_repo_codec
  obtain t where t: "dec_commit ?c t = Ok sample_commit" using commit_ids [OF sample_repo_codec_ok sample_commit_valid] by blast
  let ?e = "new_envelope CommitObject t"
  obtain s where s: "put ?c ?e empty_fs = (Ok (id_of ?c ?e), s)" using sample_put [of ?e] by (auto simp: new_envelope_def)
  note st = put_store [OF sample_repo_codec_ok empty_fs_simps(1), of ?e]
  have "stored ?c s (id_of ?c ?e) = Some ?e" using st(2) [OF s] by simp
  then have "commit_at ?c s (''cmt_'' @ drop 4 (id_of ?c ?e)) = Some sample_commit"
    by (rule stored_commit_at [OF sample_repo_codec_ok]) (simp_all add: new_envelope_def t)
  then show thesis using st(1) s that [of "s\<lparr>faults := []\<rparr>"] by simp
qed

lemma log_exact_witness:
  "\<exists>s i. fst (history_log sample_repo_codec i 5 s) = Ok [(i, sample_commit)]"
proof -
  obtain s i where s: "faults s = []" "commit_at sample_repo_codec s i = Some sample_commit" using sample_history by metis
  obtain r s' where run: "history_log sample_repo_codec i 5 s = (r, s')" by force
  have root: "first_parent sample_commit = None" by (simp add: first_parent_def sample_commit_def new_commit_def)
  note spec = log_exact [where c = sample_repo_codec and head = i and limit = 5 and s = s, unfolded run prod.case]
  have one: "chain sample_repo_codec s (Some i) res \<Longrightarrow> res = [] \<or> res = [(i, sample_commit)]" for res
    using s(2) root by (cases res; cases "tl res") (auto split: prod.splits)
  show ?thesis
  proof (cases r)
    case (Ok res)
    then have "res = [(i, sample_commit)]" using spec one [of res] by auto
    then have "fst (history_log sample_repo_codec i 5 s) = Ok [(i, sample_commit)]" using run Ok by simp
    then show ?thesis by blast
  next
    case (Err e)
    then obtain res j where "chain sample_repo_codec s (Some i) res" "leaves_off (Some i) res = Some j" "commit_at sample_repo_codec s j = None"
      using spec s(1) by auto
    then show ?thesis using one [of res] s(2) root by auto
  qed
qed

end
