(* ===== verification/Repository.thy ===== *)
theory Repository
  imports History
begin

text \<open>
  \<open>repo.rs\<close>: the facade that binds the object store, the refs, the staging index and the history.  The state is the
  directory \<open>.vaultx\<close>; \<open>vault\<close> is its path as error messages print it.
\<close>

section \<open>Opening\<close>

definition init_repo :: "string \<Rightarrow> unit io" where
  "init_repo vault =
     bind_io (path_exists HEAD_FILE) (\<lambda>present.
       if present then fail_io (RefAlreadyExists (vault @ ''/HEAD''))
       else bind_io (create_dir_all [''objects'']) (\<lambda>_. write_head (Branch ''main'')))"

definition open_repo :: "string \<Rightarrow> unit io" where
  "open_repo vault =
     bind_io (path_is_dir []) (\<lambda>is_dir.
     bind_io (if is_dir then path_is_file HEAD_FILE else return_io False) (\<lambda>is_file.
       if \<not> is_dir \<or> \<not> is_file then fail_io (RepoIo (''not a vaultx repository: '' @ vault @ ''/HEAD missing''))
       else bind_io read_head (\<lambda>_. return_io ())))"

section \<open>Reading\<close>

definition current_head :: "commit_id option io" where
  "current_head =
     bind_io read_head (\<lambda>target.
       case target of
         None \<Rightarrow> return_io None
       | Some (Detached k) \<Rightarrow> return_io (Some k)
       | Some (Branch name) \<Rightarrow> read_ref Heads name)"

definition load_manifest_object :: "repo_codec \<Rightarrow> object_id \<Rightarrow> manifest io" where
  "load_manifest_object c oid =
     bind_io (get_object c oid) (\<lambda>e.
       if env_type e \<noteq> ManifestObject
       then fail_io (CorruptObject oid (''expected a manifest object, found '' @ object_type_debug (env_type e)))
       else lift_io (map_err RepoJson (dec_manifest c (env_payload e))))"

definition manifest_at :: "repo_codec \<Rightarrow> commit_id \<Rightarrow> manifest io" where
  "manifest_at c id' = bind_io (find_commit c id') (\<lambda>k. load_manifest_object c (com_manifest k))"

definition working_manifest :: "repo_codec \<Rightarrow> manifest io" where
  "working_manifest c =
     bind_io current_head (\<lambda>head. case head of None \<Rightarrow> return_io new_manifest | Some k \<Rightarrow> manifest_at c k)"

record status_report =
  st_branch :: "string option"
  st_head :: "commit_id option"
  st_staged :: "(variable_name \<times> staged_change) list"

definition repo_status :: "repo_codec \<Rightarrow> status_report io" where
  "repo_status c =
     bind_io read_head (\<lambda>target.
     bind_io current_head (\<lambda>head.
     bind_io (load_index c) (\<lambda>ix.
       return_io \<lparr>st_branch = (case target of Some (Branch name) \<Rightarrow> Some name | _ \<Rightarrow> None), st_head = head, st_staged = ix\<rparr>)))"

definition repo_log :: "repo_codec \<Rightarrow> nat \<Rightarrow> (commit_id \<times> commit) list io" where
  "repo_log c limit =
     bind_io current_head (\<lambda>head. case head of None \<Rightarrow> return_io [] | Some k \<Rightarrow> history_log c k limit)"

definition show_commit :: "repo_codec \<Rightarrow> commit_id \<Rightarrow> (commit \<times> manifest) io" where
  "show_commit c id' =
     bind_io (find_commit c id') (\<lambda>k.
     bind_io (load_manifest_object c (com_manifest k)) (\<lambda>m. return_io (k, m)))"

section \<open>Staging\<close>

definition stage_change :: "repo_codec \<Rightarrow> variable_name \<Rightarrow> staged_change \<Rightarrow> unit io" where
  "stage_change c name change = bind_io (load_index c) (\<lambda>ix. save_index c (stage_intent name change ix))"

definition add_entry :: "repo_codec \<Rightarrow> variable_name \<Rightarrow> manifest_entry \<Rightarrow> unit io" where
  "add_entry c name entry = stage_change c name (StagedSet entry)"

definition restore :: "repo_codec \<Rightarrow> variable_name \<Rightarrow> bool io" where
  "restore c name =
     bind_io (load_index c) (\<lambda>ix.
       case unstage name ix of (removed, ix') \<Rightarrow>
         if removed then bind_io (save_index c ix') (\<lambda>_. return_io removed) else return_io removed)"

definition clear_staging :: "repo_codec \<Rightarrow> unit io" where
  "clear_staging c = bind_io (load_index c) (\<lambda>_. save_index c bt_empty)"

section \<open>Committing\<close>

definition store_signed_commit ::
  "repo_codec \<Rightarrow> commit_id list \<Rightarrow> manifest \<Rightarrow> string \<Rightarrow> string \<Rightarrow> string \<Rightarrow> commit_id io" where
  "store_signed_commit c parents m message author keypair =
     bind_io (validate_parents c parents) (\<lambda>_.
     bind_io (lift_io (map_err RepoJson (enc_manifest c m))) (\<lambda>payload.
     bind_io (put c (new_envelope ManifestObject payload)) (\<lambda>manifest_id.
     bind_io (lift_io (sign_with c keypair (new_commit parents manifest_id author message))) (\<lambda>k.
     bind_io (lift_io (commit_object_id c k)) (\<lambda>expected_oid.
     bind_io (lift_io (commit_envelope c k)) (\<lambda>e.
     bind_io (put c e) (\<lambda>stored_oid.
       if stored_oid \<noteq> expected_oid
       then fail_io (CorruptObject stored_oid ''commit storage id diverged from derived id'')
       else lift_io (commit_id_of c k))))))))"

definition advance_head_to :: "commit_id \<Rightarrow> unit io" where
  "advance_head_to k =
     bind_io read_head (\<lambda>target.
       case target of
         Some (Branch name) \<Rightarrow> write_ref Heads name k
       | _ \<Rightarrow> write_head (Detached k))"

definition create_commit :: "repo_codec \<Rightarrow> string \<Rightarrow> string \<Rightarrow> string \<Rightarrow> commit_id io" where
  "create_commit c message author keypair =
     bind_io (load_index c) (\<lambda>ix.
       if ix = bt_empty then fail_io StagingEmpty
       else
         bind_io current_head (\<lambda>head.
         bind_io (case head of Some k \<Rightarrow> manifest_at c k | None \<Rightarrow> return_io new_manifest) (\<lambda>base.
         bind_io (store_signed_commit c (case head of Some k \<Rightarrow> [k] | None \<Rightarrow> []) (apply_onto ix base) message author keypair) (\<lambda>k.
         bind_io (advance_head_to k) (\<lambda>_.
         bind_io (clear_staging c) (\<lambda>_. return_io k))))))"

definition create_merge_commit ::
  "repo_codec \<Rightarrow> string \<Rightarrow> string \<Rightarrow> string \<Rightarrow> string \<Rightarrow> commit_id \<Rightarrow> manifest \<Rightarrow> commit_id io" where
  "create_merge_commit c message author keypair target_branch theirs_tip m =
     bind_io (read_ref Heads target_branch) (\<lambda>tip.
       case tip of
         None \<Rightarrow> fail_io (RefNotFound (''heads/'' @ target_branch))
       | Some ours_tip \<Rightarrow>
           bind_io (store_signed_commit c [ours_tip, theirs_tip] m message author keypair) (\<lambda>k.
           bind_io (write_ref Heads target_branch k) (\<lambda>_. return_io k)))"

definition create_rollback_commit :: "repo_codec \<Rightarrow> string \<Rightarrow> string \<Rightarrow> string \<Rightarrow> commit_id \<Rightarrow> commit_id io" where
  "create_rollback_commit c message author keypair target =
     bind_io (load_index c) (\<lambda>ix.
       if ix \<noteq> bt_empty then fail_io StagingNotEmpty
       else
         bind_io (manifest_at c target) (\<lambda>m.
         bind_io current_head (\<lambda>head.
           case head of
             None \<Rightarrow> fail_io (RefNotFound ''heads/HEAD'')
           | Some h \<Rightarrow>
               bind_io (store_signed_commit c [h] m message author keypair) (\<lambda>k.
               bind_io (advance_head_to k) (\<lambda>_. return_io k)))))"

section \<open>Branches\<close>

definition create_branch :: "string \<Rightarrow> commit_id option \<Rightarrow> unit io" where
  "create_branch name start =
     bind_io (read_ref Heads name) (\<lambda>existing.
       if existing \<noteq> None then fail_io (RefAlreadyExists (''heads/'' @ name))
       else
         case start of
           Some k \<Rightarrow> write_ref Heads name k
         | None \<Rightarrow>
             bind_io current_head (\<lambda>head.
               case head of
                 None \<Rightarrow> fail_io (RefNotFound ''heads/HEAD'')
               | Some k \<Rightarrow> write_ref Heads name k))"

definition checkout_branch :: "string \<Rightarrow> unit io" where
  "checkout_branch name =
     bind_io (read_ref Heads name) (\<lambda>existing.
       if existing = None then fail_io (RefNotFound (''heads/'' @ name)) else write_head (Branch name))"

definition checkout_commit :: "repo_codec \<Rightarrow> commit_id \<Rightarrow> unit io" where
  "checkout_commit c id' = bind_io (find_commit c id') (\<lambda>_. write_head (Detached id'))"

text \<open>\<open>None\<close> stands for a panic of the merge.\<close>

definition merge_branch :: "repo_codec \<Rightarrow> string \<Rightarrow> manifest option \<Rightarrow> manifest option io" where
  "merge_branch c theirs_branch base =
     bind_io (read_ref Heads theirs_branch) (\<lambda>tip.
       case tip of
         None \<Rightarrow> fail_io (RefNotFound (''heads/'' @ theirs_branch))
       | Some theirs_tip \<Rightarrow>
           bind_io (working_manifest c) (\<lambda>ours.
           bind_io (manifest_at c theirs_tip) (\<lambda>theirs.
             case three_way_merge (case base of None \<Rightarrow> new_manifest | Some b \<Rightarrow> b) ours theirs of
               None \<Rightarrow> return_io None
             | Some merged \<Rightarrow> bind_io (lift_io (map_err MergeConflict merged)) (\<lambda>m. return_io (Some m)))))"

section \<open>Reference definitions\<close>

definition head_at :: "fs \<Rightarrow> head_target option" where
  "head_at s = (case trimmed s HEAD_FILE of None \<Rightarrow> None | Some line \<Rightarrow> (case decode_head line of Ok t \<Rightarrow> Some t | Err _ \<Rightarrow> None))"

definition loaded_manifest :: "repo_codec \<Rightarrow> fs \<Rightarrow> object_id \<Rightarrow> manifest option" where
  "loaded_manifest c s oid =
     (case stored c s oid of
        None \<Rightarrow> None
      | Some e \<Rightarrow> if env_type e = ManifestObject then (case dec_manifest c (env_payload e) of Ok m \<Rightarrow> Some m | Err _ \<Rightarrow> None) else None)"

text \<open>A name whose ref file cannot be one of the temporary files of the writers; \<open>list_refs\<close> skips the others.\<close>

definition real_ref :: "ref_namespace \<Rightarrow> string \<Rightarrow> bool" where
  "real_ref ns name \<longleftrightarrow> is_ok (ref_path ns name) \<and> \<not> is_temp ''.tmp-'' (ref_components ns name)"

text \<open>No ref dangles: every branch, every environment and a detached \<open>HEAD\<close> name a stored commit.\<close>

definition refs_resolve :: "repo_codec \<Rightarrow> fs \<Rightarrow> bool" where
  "refs_resolve c s \<longleftrightarrow>
     (\<forall>ns name k. real_ref ns name \<and> ref_at s ns name = Some k \<longrightarrow> commit_at c s k \<noteq> None)
     \<and> (\<forall>k. head_at s = Some (Detached k) \<longrightarrow> commit_at c s k \<noteq> None)"

text \<open>The calls that change a repository, with the results dropped, and what their callers owe.\<close>

datatype repo_call =
    InitRepo string
  | StageChange variable_name staged_change
  | Restore variable_name
  | ClearStaging
  | CreateCommit string string string
  | CreateMergeCommit string string string string commit_id manifest
  | CreateRollbackCommit string string string commit_id
  | CreateBranch string "commit_id option"
  | CheckoutBranch string
  | CheckoutCommit commit_id
  | RefCall ref_call

definition done_io :: "'a io \<Rightarrow> unit io" where
  "done_io m = bind_io m (\<lambda>_. return_io ())"

fun repo_call_io :: "repo_codec \<Rightarrow> repo_call \<Rightarrow> unit io" where
  "repo_call_io c (InitRepo vault) = init_repo vault"
| "repo_call_io c (StageChange name change) = stage_change c name change"
| "repo_call_io c (Restore name) = done_io (restore c name)"
| "repo_call_io c ClearStaging = clear_staging c"
| "repo_call_io c (CreateCommit message author keypair) = done_io (create_commit c message author keypair)"
| "repo_call_io c (CreateMergeCommit message author keypair branch theirs m) =
     done_io (create_merge_commit c message author keypair branch theirs m)"
| "repo_call_io c (CreateRollbackCommit message author keypair target) =
     done_io (create_rollback_commit c message author keypair target)"
| "repo_call_io c (CreateBranch name start) = create_branch name start"
| "repo_call_io c (CheckoutBranch name) = checkout_branch name"
| "repo_call_io c (CheckoutCommit k) = checkout_commit c k"
| "repo_call_io c (RefCall call) = ref_call_io c call"

definition valid_args :: "commit_id list \<Rightarrow> string \<Rightarrow> string \<Rightarrow> bool" where
  "valid_args parents message author \<longleftrightarrow>
     list_all (\<lambda>p. is_ok (parse_commit_id p)) parents \<and> is_utf8 message \<and> is_ok (parse_identity_ref author)"

definition known_commit :: "repo_codec \<Rightarrow> fs \<Rightarrow> commit_id \<Rightarrow> bool" where
  "known_commit c s k \<longleftrightarrow> parse_commit_id k = Ok k \<and> commit_at c s k \<noteq> None"

definition head_real :: "fs \<Rightarrow> bool" where
  "head_real s \<longleftrightarrow> (case head_at s of Some (Branch name) \<Rightarrow> \<not> is_temp ''.tmp-'' (ref_components Heads name) | _ \<Rightarrow> True)"

text \<open>
  Authors, messages and ids came out of their constructors.  The callers that hand a commit to the ref store directly, or to
  \<open>create_branch\<close> as a start point, hand over a stored one: these calls do not look it up.  A new branch does not start
  at a checked-out temporary file.
\<close>

fun call_ok :: "repo_codec \<Rightarrow> fs \<Rightarrow> repo_call \<Rightarrow> bool" where
  "call_ok c s (CreateCommit message author keypair) = valid_args [] message author"
| "call_ok c s (CreateMergeCommit message author keypair branch theirs m) = valid_args [theirs] message author"
| "call_ok c s (CreateRollbackCommit message author keypair target) = valid_args [] message author"
| "call_ok c s (CreateBranch name (Some k)) = known_commit c s k"
| "call_ok c s (CreateBranch name None) = head_real s"
| "call_ok c s (CheckoutCommit k) = is_ok (parse_commit_id k)"
| "call_ok c s (RefCall (WriteRef ns name k)) = known_commit c s k"
| "call_ok c s (RefCall (WriteEnvRef name k force)) = known_commit c s k"
| "call_ok c s (RefCall (WriteHead (Detached k))) = known_commit c s k"
| "call_ok c s _ = True"

text \<open>No object was replaced by other bytes with the same digest.\<close>

definition no_collision :: "repo_codec \<Rightarrow> fs \<Rightarrow> fs \<Rightarrow> bool" where
  "no_collision c s s' \<longleftrightarrow>
     (\<forall>d b b'. is_hex_of_len d 64 \<and> content s (digest_path d) = Some b \<and> content s' (digest_path d) = Some b' \<and> digest_hex c b = digest_hex c b' \<longrightarrow> b = b')"

text \<open>
  The states of a repository: every call may meet any failures of the system calls, and runs in any process at any time.
\<close>

inductive repo_reachable :: "repo_codec \<Rightarrow> fs \<Rightarrow> bool" for c where
  fresh: "nodes s = bt_empty \<Longrightarrow> repo_reachable c s"
| call: "repo_reachable c s \<Longrightarrow> call_ok c s call \<Longrightarrow>
     repo_call_io c call (s\<lparr>faults := fs, process_id := pid, nanos := ns\<rparr>) = (r, s') \<Longrightarrow> no_collision c s s' \<Longrightarrow>
     repo_reachable c s'"

inductive_cases repo_callE: "repo_reachable c s"

section \<open>Lemmas: the two phases of an operation\<close>

text \<open>
  An operation first stores objects and then moves refs.  \<open>storing\<close> programs touch only object files, and replace the
  bytes of an object only by bytes with the same digest.
\<close>

definition object_or_temp :: "path \<Rightarrow> bool" where
  "object_or_temp q \<longleftrightarrow> is_temp ''.tmp-'' q \<or> (\<exists>d. is_hex_of_len d 64 \<and> q = digest_path d)"

definition holds_digest :: "repo_codec \<Rightarrow> fs \<Rightarrow> string \<Rightarrow> bool" where
  "holds_digest c s d \<longleftrightarrow> (\<exists>b. content s (digest_path d) = Some b \<and> digest_hex c b = d)"

definition storing :: "repo_codec \<Rightarrow> 'a io \<Rightarrow> bool" where
  "storing c m \<longleftrightarrow> only object_or_temp m \<and> (\<forall>s d. fs_inv s \<and> holds_digest c s d \<longrightarrow> holds_digest c (snd (m s)) d)"

named_theorems storing_intros \<open>programs that only store objects\<close>

lemma storing_read: "only (\<lambda>_. False) m \<Longrightarrow> storing c m"
  unfolding storing_def holds_digest_def using only_keeps only_mono by (metis (no_types, lifting))

lemma storing_bind [storing_intros]: "storing c m \<Longrightarrow> (\<And>a. storing c (f a)) \<Longrightarrow> storing c (bind_io m f)"
proof -
  assume m: "storing c m" and f: "\<And>a. storing c (f a)"
  have "holds_digest c (snd (bind_io m f s)) d" if s: "fs_inv s" "holds_digest c s d" for s d
  proof (cases "m s")
    case (Pair r t)
    then have "holds_digest c t d" "fs_inv t" using m s only_inv [of object_or_temp m s] unfolding storing_def by (metis snd_conv)+
    then show ?thesis using Pair f unfolding storing_def by (cases r) (auto simp: bind_io_run)
  qed
  then show ?thesis using m f unfolding storing_def by (auto intro: only_intros)
qed

lemma storing_if [storing_intros]: "storing c m \<Longrightarrow> storing c n \<Longrightarrow> storing c (if b then m else n)"
  by simp

lemma storing_pure [storing_intros]: "storing c (return_io a)" "storing c (fail_io e)" "storing c (lift_io r)"
  by (rule storing_read, intro only_intros)+

lemma storing_put [storing_intros]: "repo_codec_ok c \<Longrightarrow> storing c (put c e)"
proof -
  assume c: "repo_codec_ok c"
  let ?d = "digest_hex c (encoded c e)"
  have hex: "is_hex_of_len ?d 64" by (rule codec_facts(3) [OF c])
  have "touches object_or_temp s s'" if "put c e s = (r, s')" for s r s'
    using put_cases [OF c _ that] hex unfolding touches_def object_or_temp_def by metis
  then have "only object_or_temp (put c e)" by (rule onlyI)
  moreover have "holds_digest c (snd (put c e s)) d" if s: "fs_inv s" "holds_digest c s d" for s d
  proof -
    obtain r s' where run: "put c e s = (r, s')" by force
    have "is_hex_of_len d 64" using s(2) codec_facts(3) [OF c] unfolding holds_digest_def by metis
    then have nt: "\<not> is_temp ''.tmp-'' (digest_path d)" by (rule digest_path_not_temp)
    have "content s' (digest_path d) = content s (digest_path d)" if "d \<noteq> ?d"
      using put_cases [OF c s(1) run] nt digest_path_inj [of d ?d] that by blast
    then show ?thesis
      using put_cases [OF c s(1) run] s(2) run unfolding holds_digest_def by (cases "d = ?d") auto
  qed
  ultimately show ?thesis by (simp add: storing_def)
qed

lemma reads_find: "only X (find_commit c i)" "only X (get_object c i)" "only X (load_manifest_object c i)" "only X (manifest_at c i)"
proof -
  show g: "only X (get_object c i)" for X i unfolding get_object_def by (intro only_intros)
  show f: "only X (find_commit c i)" for X i unfolding find_commit_def by (intro only_intros g)
  show l: "only X (load_manifest_object c i)" for X i unfolding load_manifest_object_def by (intro only_intros g)
  show "only X (manifest_at c i)" unfolding manifest_at_def by (intro only_intros f l)
qed

lemma reads_validate: "only X (validate_parents c ps)"
  by (rule onlyI) (use validate_parents_spec touches_same in blast)

lemma storing_signed [storing_intros]:
  "repo_codec_ok c \<Longrightarrow> storing c (store_signed_commit c parents m message author keypair)"
  unfolding store_signed_commit_def by (intro storing_intros storing_read [OF reads_validate])

definition storing_to :: "repo_codec \<Rightarrow> fs \<Rightarrow> fs \<Rightarrow> bool" where
  "storing_to c s t \<longleftrightarrow>
     fs_inv t \<and> (\<forall>d. holds_digest c s d \<longrightarrow> holds_digest c t d) \<and> (\<forall>q. \<not> object_or_temp q \<longrightarrow> content t q = content s q)"

lemma storing_run: "storing c m \<Longrightarrow> fs_inv s \<Longrightarrow> m s = (r, t) \<Longrightarrow> storing_to c s t"
  using only_inv [of object_or_temp m s] only_keeps [of object_or_temp m s] unfolding storing_def storing_to_def by (metis snd_conv)

lemma storing_to_refl: "fs_inv s \<Longrightarrow> storing_to c s s"
  by (simp add: storing_to_def)

lemma storing_to_trans: "storing_to c s t \<Longrightarrow> storing_to c t u \<Longrightarrow> storing_to c s u"
  by (simp add: storing_to_def)

lemma kept_object:
  assumes "repo_codec_ok c" "storing_to c s t" "\<And>d. is_hex_of_len d 64 \<Longrightarrow> content s' (digest_path d) = content t (digest_path d)"
    and "no_collision c s s'" "stored c s i = Some e"
  shows "stored c s' i = Some e"
proof -
  obtain p b where pb: "path_for i = Ok p" "content s p = Some b" "digest_hex c b = drop 4 i" "dec_envelope c b = Ok e"
    using assms(5) by (auto simp: stored_def split: result.splits option.splits if_splits)
  have p: "p = digest_path (drop 4 i)" using path_for_Ok [OF pb(1)] by simp
  have hex: "is_hex_of_len (drop 4 i) 64" using codec_facts(3) [OF assms(1), of b] pb(3) by simp
  have "holds_digest c s (drop 4 i)" using p pb(2,3) by (auto simp: holds_digest_def)
  then have "holds_digest c t (drop 4 i)" using assms(2) unfolding storing_to_def by blast
  then obtain b' where b': "content s' p = Some b'" "digest_hex c b' = drop 4 i" using p assms(3) [OF hex] by (auto simp: holds_digest_def)
  then have "b' = b" using assms(4) pb(2,3) p hex unfolding no_collision_def by metis
  then show ?thesis using pb b' by (simp add: stored_def)
qed

text \<open>
  The second phase leaves the objects alone; what a ref or a detached \<open>HEAD\<close> names afterwards, it named before or is a
  stored commit.
\<close>

definition moving :: "repo_codec \<Rightarrow> fs \<Rightarrow> fs \<Rightarrow> bool" where
  "moving c t s' \<longleftrightarrow>
     fs_inv s'
     \<and> (\<forall>d. is_hex_of_len d 64 \<longrightarrow> content s' (digest_path d) = content t (digest_path d))
     \<and> (\<forall>ns name k. real_ref ns name \<and> ref_at s' ns name = Some k \<longrightarrow> ref_at t ns name = Some k \<or> commit_at c t k \<noteq> None)
     \<and> (\<forall>k. head_at s' = Some (Detached k) \<longrightarrow> head_at t = Some (Detached k) \<or> commit_at c t k \<noteq> None)"

lemma stored_objects:
  assumes "repo_codec_ok c" "\<And>d. is_hex_of_len d 64 \<Longrightarrow> content s' (digest_path d) = content t (digest_path d)"
  shows "stored c s' = stored c t"
proof
  fix i
  show "stored c s' i = stored c t i"
  proof (cases "path_for i")
    case (Ok p)
    then have p: "p = digest_path (drop 4 i)" using path_for_Ok by blast
    show ?thesis
    proof (cases "is_hex_of_len (drop 4 i) 64")
      case True
      then show ?thesis using Ok p assms(2) by (simp add: stored_def)
    next
      case False
      then have "digest_hex c b \<noteq> drop 4 i" for b using codec_facts(3) [OF assms(1), of b] by metis
      then show ?thesis using Ok by (simp add: stored_def split: option.splits)
    qed
  qed (simp add: stored_def)
qed

lemma moving_commit_at: "repo_codec_ok c \<Longrightarrow> moving c t s' \<Longrightarrow> commit_at c s' = commit_at c t"
  using stored_objects [of c s' t] by (auto simp: moving_def commit_at_def fun_eq_iff)

lemma moving_trans:
  assumes "repo_codec_ok c" "moving c t u" "moving c u s'"
  shows "moving c t s'"
  using assms(2,3) moving_commit_at [OF assms(1,2)] unfolding moving_def by (elim conjE, intro conjI) (simp | blast)+

lemma ref_components_not_object: "ref_components ns name \<noteq> digest_path d" "HEAD_FILE \<noteq> digest_path d" "INDEX_FILE \<noteq> digest_path d"
  by (simp_all add: ref_components_def digest_path_def OBJECTS_def HEAD_FILE_def INDEX_FILE_def)

lemma ref_components_not_head: "ref_components ns name \<noteq> HEAD_FILE" "ref_components ns name \<noteq> INDEX_FILE" "HEAD_FILE \<noteq> INDEX_FILE"
  by (simp_all add: ref_components_def HEAD_FILE_def INDEX_FILE_def)

lemma not_temp_files [simp]: "\<not> is_temp ''.tmp-'' HEAD_FILE" "\<not> is_temp ''.tmp-'' INDEX_FILE"
  by (simp_all add: is_temp_def HEAD_FILE_def INDEX_FILE_def starts_with_iff append_eq_Cons_conv)

text \<open>A write that touches neither objects nor refs nor \<open>HEAD\<close>, e.g. of the index.\<close>

lemma moving_frame:
  assumes "fs_inv t" "touches X t s'" "\<And>d. is_hex_of_len d 64 \<Longrightarrow> \<not> X (digest_path d)"
    and "\<And>ns name. real_ref ns name \<Longrightarrow> \<not> X (ref_components ns name)" "\<not> X HEAD_FILE"
  shows "moving c t s'"
proof -
  have k: "\<not> X q \<Longrightarrow> content s' q = content t q" for q using assms(1,2) by (auto simp: touches_def)
  have "real_ref ns name \<Longrightarrow> ref_at s' ns name = ref_at t ns name" for ns name
    using k [OF assms(4)] by (simp add: ref_at_def trimmed_def)
  moreover have "head_at s' = head_at t" using k [OF assms(5)] by (simp add: head_at_def trimmed_def)
  ultimately show ?thesis using assms(1-3) k by (auto simp: moving_def touches_def)
qed

lemma moving_read: "fs_inv t \<Longrightarrow> same_nodes t s' \<Longrightarrow> moving c t s'"
  using moving_frame [of t "\<lambda>_. False"] touches_same by blast

lemma is_temp_index: "is_temp ''.tmp-index-'' q \<Longrightarrow> is_temp ''.tmp-'' q"
  by (auto simp: is_temp_def starts_with_iff)

lemma only_save_index: "only (\<lambda>q. q = INDEX_FILE \<or> is_temp ''.tmp-'' q) (save_index c ix)"
proof -
  let ?X = "\<lambda>q. q = INDEX_FILE \<or> is_temp ''.tmp-'' q"
  have create: "only ?X (create_file [temp_name ''.tmp-index-'' pid n])" for pid n
    by (intro only_intros) (simp add: is_temp_def temp_name_def starts_with_iff)
  have "only ?X (\<lambda>s. case timestamp s of (n, s') \<Rightarrow>
      bind_io (create_file [temp_name ''.tmp-index-'' (process_id s') n]) (\<lambda>_. fail_io e) s')" for e
  proof (rule onlyI)
    fix s r s'
    assume run: "(case timestamp s of (n, s') \<Rightarrow>
      bind_io (create_file [temp_name ''.tmp-index-'' (process_id s') n]) (\<lambda>_. fail_io e) s') = (r, s')"
    obtain n t where t: "timestamp s = (n, t)" by force
    have "only ?X (bind_io (create_file [temp_name ''.tmp-index-'' (process_id t) n]) (\<lambda>_. fail_io e))"
      by (intro only_intros create)
    from only_run [OF this, of t r s'] have "touches ?X t s'" using run t by simp
    then show "touches ?X s s'" by (rule touches_trans [OF touches_same [OF timestamp_nodes [OF t]]])
  qed
  then show ?thesis
    unfolding save_index_def
    by (cases "enc_index c ix") (auto intro!: only_intros only_publish dest: is_temp_index)
qed

text \<open>The line in \<open>HEAD\<close>.\<close>

lemma trim_Cons:
  assumes "byte_of ch < 128" "\<not> is_whitespace_cp (byte_of ch)"
  shows "\<exists>y. trim (ch # x) = ch # y"
proof -
  have "uchars (ch # x) = [ch] # uchars x" using assms(1) by (simp add: utf8_width_def)
  then show ?thesis using assms(2) by (simp add: trim_def Let_def dropWhile_append3 del: uchars.simps)
qed

lemma trim_ascii_line:
  assumes "is_ascii (a # x @ [z])" "\<not> is_whitespace_cp (byte_of a)" "\<not> is_whitespace_cp (byte_of z)"
  shows "trim (a # x @ [z, newline]) = a # x @ [z] \<and> is_utf8 (a # x @ [z, newline])"
proof -
  have ascii: "is_ascii (a # x @ [z, newline])" using assms(1) by (simp add: is_ascii_def is_ascii_byte_def)
  have conc: "concat (map (\<lambda>c. [c]) xs) = xs" for xs :: string by (induction xs) auto
  have "is_whitespace_cp (code_point [newline])" by code_simp
  then have "trim (a # x @ [z, newline]) = a # x @ [z]"
    using assms(2,3) unfolding trim_def uchars_ascii [OF ascii] by (simp add: conc del: uchars.simps)
  then show ?thesis using utf8_lossy_ascii [OF ascii] by (simp add: is_utf8_def)
qed

lemma branch_line: "trimmed s HEAD_FILE = None \<or> head_at s \<noteq> Some (Detached k)"
  if "content s HEAD_FILE = Some (encode_head (Branch name) @ [newline])"
proof -
  have "\<exists>y. trim (CHR ''r'' # x) = CHR ''r'' # y" for x by (rule trim_Cons) (simp_all add: is_whitespace_cp_def)
  then obtain y where y: "trim (encode_head (Branch name) @ [newline]) = CHR ''r'' # y" by auto
  have "decode_head (CHR ''r'' # y) \<noteq> Ok (Detached k)"
    by (cases "strip_prefix ''ref: heads/'' (CHR ''r'' # y)"; cases "parse_branch_ref (the (strip_prefix ''ref: heads/'' (CHR ''r'' # y)))")
       (auto simp: decode_head_def)
  then show ?thesis using that y by (auto simp: head_at_def trimmed_def split: option.splits result.splits)
qed

lemma detached_line:
  assumes "parse_commit_id k = Ok k" "content s HEAD_FILE = Some (encode_head (Detached k) @ [newline])"
  shows "head_at s = Some (Detached k)"
proof -
  have k: "k \<noteq> []" "list_all is_id_char k" using commit_id_ascii [OF assms(1)] by simp_all
  obtain x ch where x: "k = x @ [ch]" using k(1) by (metis rev_exhaust)
  let ?l = "''commit: '' @ k"
  have chars: "\<not> is_whitespace_cp (byte_of ch)"
    using k(2) x by (auto simp: is_id_char_def is_ascii_lowercase_def is_ascii_digit_def is_whitespace_cp_def)
  have "is_ascii ?l" using is_id_char_ascii [OF k(2)] by (simp add: is_ascii_def is_ascii_byte_def)
  then have "trim (?l @ [newline]) = ?l" "is_utf8 (?l @ [newline])"
    using trim_ascii_line [of "CHR ''c''" "''ommit: '' @ x" ch] chars x by (simp_all add: is_whitespace_cp_def)
  then have "trimmed s HEAD_FILE = Some ?l" using assms(2) by (simp add: trimmed_def)
  then show ?thesis using assms(1) by (simp add: head_at_def decode_head_def)
qed

lemma moving_write_head:
  assumes "fs_inv t" "case target of Detached k \<Rightarrow> parse_commit_id k = Ok k \<and> commit_at c t k \<noteq> None | Branch _ \<Rightarrow> True"
  shows "moving c t (snd (write_head target t))"
proof -
  obtain r s' where run: "publish ''.tmp-'' HEAD_FILE (encode_head target @ [newline]) t = (r, s')" by force
  note pub = publish_cases [OF run assms(1)]
  have refs: "ref_at s' ns name = ref_at t ns name" if "real_ref ns name" for ns name
    using pub that ref_components_not_head(1) [of ns name] by (auto simp: real_ref_def ref_at_def trimmed_def)
  have "content s' HEAD_FILE = content t HEAD_FILE \<or> content s' HEAD_FILE = Some (encode_head target @ [newline])"
    using pub by (cases r) auto
  then have "head_at s' = Some (Detached k) \<Longrightarrow> head_at t = Some (Detached k) \<or> commit_at c t k \<noteq> None" for k
  proof (elim disjE)
    assume h: "head_at s' = Some (Detached k)" and "content s' HEAD_FILE = content t HEAD_FILE"
    then show ?thesis by (simp add: head_at_def trimmed_def)
  next
    assume h: "head_at s' = Some (Detached k)" and w: "content s' HEAD_FILE = Some (encode_head target @ [newline])"
    show ?thesis
    proof (cases target)
      case (Branch name)
      then show ?thesis using branch_line [of s' name k] w h by (simp add: head_at_def)
    next
      case (Detached k')
      then show ?thesis using detached_line [of k' s'] w h assms(2) by auto
    qed
  qed
  moreover have "content s' (digest_path d) = content t (digest_path d)" if "is_hex_of_len d 64" for d
    using pub that ref_components_not_object(2) [of d] digest_path_not_temp by metis
  ultimately show ?thesis using pub refs run by (auto simp: moving_def write_head_def write_atomically_def)
qed

lemma moving_write_ref_at:
  assumes "fs_inv t" "parse_commit_id k = Ok k" "commit_at c t k \<noteq> None"
  shows "moving c t (snd (write_ref_at ns name k t))"
proof (cases "ref_path ns name")
  case (Err e)
  then show ?thesis using moving_read [OF assms(1)] by (simp add: write_ref_at_def bind_io_run)
next
  case (Ok p)
  then have p: "p = ref_components ns name" by (rule ref_path_Ok)
  obtain r s' where run: "publish ''.tmp-'' p (k @ [newline]) t = (r, s')" by force
  note pub = publish_cases [OF run assms(1)]
  have w: "write_ref_at ns name k t = (r, s')" using Ok run by (simp add: write_ref_at_def write_atomically_def bind_io_run)
  have head: "head_at s' = head_at t"
    using pub ref_components_not_head(1) [of ns name] p by (auto simp: head_at_def trimmed_def)
  have "ref_at s' ns' name' = ref_at t ns' name' \<or> ref_at s' ns' name' = Some k" if "real_ref ns' name'" for ns' name'
  proof -
    let ?q = "ref_components ns' name'"
    have nt: "\<not> is_temp ''.tmp-'' ?q" using that by (simp add: real_ref_def)
    have "content s' ?q = content t ?q \<or> content s' ?q = Some (k @ [newline])"
      using pub nt by (cases "?q = p"; cases r) auto
    then show ?thesis using ref_at_written [OF assms(2), of s' ns' name'] by (auto simp: ref_at_def trimmed_def)
  qed
  moreover have "content s' (digest_path d) = content t (digest_path d)" if "is_hex_of_len d 64" for d
    using pub that ref_components_not_object(1) p digest_path_not_temp by metis
  ultimately show ?thesis using pub w head assms(3) unfolding moving_def by (simp, metis option.inject)
qed

section \<open>Lemmas: storing a commit\<close>

definition manifest_envelope :: "repo_codec \<Rightarrow> manifest \<Rightarrow> object_envelope" where
  "manifest_envelope c m = new_envelope ManifestObject (case enc_manifest c m of Ok t \<Rightarrow> t | Err _ \<Rightarrow> [])"

lemma id_of_valid: "repo_codec_ok c \<Longrightarrow> parse_object_id (id_of c e) = Ok (id_of c e)"
  unfolding id_of_def by (rule parse_hex_id) (simp_all add: codec_facts(3))

lemma signed_commit_stored:
  assumes "repo_codec_ok c" "fs_inv s" "valid_args parents message author"
    and "store_signed_commit c parents m message author keypair s = (Ok id', t)"
  obtains k u where "commit_at c t id' = Some k" "parse_commit_id id' = Ok id'" "com_parents k = parents" "com_author k = author"
    "com_message k = message" "com_manifest k = id_of c (manifest_envelope c m)"
    "\<forall>p \<in> set parents. commit_at c s p \<noteq> None" "stored c u (id_of c (manifest_envelope c m)) = Some (manifest_envelope c m)"
    "fs_inv u" "is_ok (enc_manifest c m)"
    "\<forall>t'. enc_commit c k = Ok t' \<longrightarrow> (\<exists>r. put c (new_envelope CommitObject t') u = (r, t)) \<and> id' = ''cmt_'' @ drop 4 (id_of c (new_envelope CommitObject t'))"
    "\<exists>payload. sign_payload c k = Ok payload \<and> com_signature k = sign_bytes c keypair payload"
proof -
  obtain s1 payload mid u k0 oid e where v: "validate_parents c parents s = (Ok (), s1)"
    and pl: "enc_manifest c m = Ok payload" and pm0: "put c (new_envelope ManifestObject payload) s1 = (Ok mid, u)"
    and sg0: "sign_with c keypair (new_commit parents mid author message) = Ok k0"
    and oid: "commit_object_id c k0 = Ok oid" and e: "commit_envelope c k0 = Ok e" and pk0: "put c e u = (Ok oid, t)"
    and fin: "commit_id_of c k0 = Ok id'"
  proof -
    have err: "Ok x = map_err RepoJson r \<longleftrightarrow> r = Ok x" for r :: "(string, string) result" and x by (cases r) auto
    show thesis
      using assms(4) unfolding store_signed_commit_def
      by (auto simp: bind_io_Ok err split: if_splits intro!: that [OF _ _ _ sym sym sym _ sym])
  qed
  have env: "manifest_envelope c m = new_envelope ManifestObject payload" by (simp add: manifest_envelope_def pl)
  let ?me = "manifest_envelope c m"
  have v': "same_nodes s s1" "\<forall>p \<in> set parents. commit_at c s p \<noteq> None" using validate_parents_spec [OF v] by auto
  then have inv1: "fs_inv s1" using assms(2) by simp
  have pm: "put c ?me s1 = (Ok mid, u)" using pm0 env by simp
  note sm = put_store [OF assms(1) inv1, of ?me]
  have mid: "mid = id_of c ?me" and stm: "stored c u mid = Some ?me" and invu: "fs_inv u"
    using sm(2) [OF pm] sm(1) pm by auto
  let ?unsigned = "new_commit parents mid author message"
  obtain pay where "enc_signable c (com_format ?unsigned, com_parents ?unsigned, com_manifest ?unsigned, com_author ?unsigned, com_message ?unsigned) = Ok pay"
    using codec_commit(3) [OF assms(1)] by blast
  then have pay: "sign_payload c ?unsigned = Ok pay" by (simp add: sign_payload_def)
  let ?k = "?unsigned\<lparr>com_signature := sign_bytes c keypair pay\<rparr>"
  have sg: "sign_with c keypair ?unsigned = Ok ?k" by (simp add: sign_with_def pay)
  have vk: "valid_commit ?k"
    using assms(3) id_of_valid [OF assms(1), of ?me] mid by (simp add: valid_commit_def valid_args_def new_commit_def)
  obtain tk where tk: "enc_commit c ?k = Ok tk" "dec_commit c tk = Ok ?k" "commit_envelope c ?k = Ok (new_envelope CommitObject tk)"
    "commit_object_id c ?k = Ok (id_of c (new_envelope CommitObject tk))"
    "commit_id_of c ?k = Ok (''cmt_'' @ drop 4 (id_of c (new_envelope CommitObject tk)))"
    using commit_ids [OF assms(1) vk] by blast
  let ?e = "new_envelope CommitObject tk"
  have pk: "put c ?e u = (Ok oid, t)" and idk: "id' = ''cmt_'' @ drop 4 (id_of c ?e)"
    using sg0 sg e pk0 fin tk by auto
  have "stored c t (id_of c ?e) = Some ?e" using put_store(2) [OF assms(1) invu pk] by metis
  then have at: "commit_at c t id' = Some ?k"
    unfolding idk by (rule stored_commit_at [OF assms(1)]) (simp_all add: new_envelope_def tk(2))
  have "parse_commit_id id' = Ok id'"
    unfolding idk drop_id_of by (rule parse_hex_id) (simp_all add: codec_facts(3) [OF assms(1)])
  moreover have "\<exists>payload. sign_payload c ?k = Ok payload \<and> com_signature ?k = sign_bytes c keypair payload"
    using pay by (simp add: sign_payload_def)
  ultimately show thesis
    using that [OF at _ _ _ _ _ v'(2) _ invu] stm mid pl pk idk tk(1) by (simp add: new_commit_def) 
qed

section \<open>Lemmas: no ref dangles\<close>

definition two_phase :: "repo_codec \<Rightarrow> fs \<Rightarrow> fs \<Rightarrow> bool" where
  "two_phase c s s' \<longleftrightarrow> (\<exists>t. storing_to c s t \<and> moving c t s')"

lemma two_phase_resolves:
  assumes "repo_codec_ok c" "two_phase c s s'" "refs_resolve c s" "no_collision c s s'"
  shows "fs_inv s' \<and> refs_resolve c s'"
proof -
  obtain t where st: "storing_to c s t" and mv: "moving c t s'" using assms(2) unfolding two_phase_def by blast
  have obj: "content s' (digest_path d) = content t (digest_path d)" if "is_hex_of_len d 64" for d
    using mv that by (simp add: moving_def)
  have kept: "commit_at c s k \<noteq> None \<Longrightarrow> commit_at c s' k \<noteq> None" for k
    using kept_object [OF assms(1) st obj assms(4)]
    by (auto simp: commit_at_def split: if_splits option.splits result.splits)
  have new: "commit_at c s' = commit_at c t" by (rule moving_commit_at [OF assms(1) mv])
  have same: "\<not> object_or_temp q \<Longrightarrow> content t q = content s q" for q using st by (simp add: storing_to_def)
  have "ref_at t ns name = ref_at s ns name" if "real_ref ns name" for ns name
    using same [of "ref_components ns name"] that ref_components_not_object(1)
    by (auto simp: object_or_temp_def real_ref_def ref_at_def trimmed_def)
  moreover have "head_at t = head_at s"
    using same [of HEAD_FILE] ref_components_not_object(2) by (auto simp: object_or_temp_def head_at_def trimmed_def)
  ultimately show ?thesis
    using mv assms(3) kept unfolding moving_def refs_resolve_def new by metis
qed

lemma moving_refl: "fs_inv t \<Longrightarrow> moving c t t"
  by (simp add: moving_def)

lemma two_phase_move: "fs_inv s \<Longrightarrow> moving c s s' \<Longrightarrow> two_phase c s s'"
  using storing_to_refl unfolding two_phase_def by blast

lemma two_phase_bind:
  assumes "fs_inv s" "storing c m" "\<And>a t. m s = (Ok a, t) \<Longrightarrow> fs_inv t \<Longrightarrow> storing_to c s t \<Longrightarrow> two_phase c t (snd (f a t))"
  shows "two_phase c s (snd (bind_io m f s))"
proof (cases "m s")
  case (Pair r t)
  have st: "storing_to c s t" by (rule storing_run [OF assms(2,1) Pair])
  then have inv: "fs_inv t" by (simp add: storing_to_def)
  show ?thesis
  proof (cases r)
    case (Ok a)
    then obtain u where "storing_to c t u" "moving c u (snd (f a t))"
      using assms(3) Pair inv st unfolding two_phase_def by blast
    then show ?thesis using storing_to_trans [OF st] Pair Ok unfolding two_phase_def by (auto simp: bind_io_run)
  next
    case (Err e)
    then show ?thesis using st moving_refl [OF inv] Pair unfolding two_phase_def by (auto simp: bind_io_run)
  qed
qed

lemma moving_bind:
  assumes "repo_codec_ok c" "moving c t (snd (m t))" "\<And>a u. m t = (Ok a, u) \<Longrightarrow> moving c t u \<Longrightarrow> moving c u (snd (f a u))"
  shows "moving c t (snd (bind_io m f t))"
proof (cases "m t")
  case (Pair r u)
  then show ?thesis using assms moving_trans [OF assms(1), of t u] by (cases r) (auto simp: bind_io_run)
qed

lemma reads_head: "only X current_head" "only X (load_index c)"
  unfolding current_head_def load_index_def
  by (intro only_intros; (rule only_intros | simp split: head_target.split add: only_intros))+

lemma moving_inv: "moving c t u \<Longrightarrow> fs_inv u"
  by (simp add: moving_def)

lemma commit_id_self: "parse_commit_id y = Ok k \<Longrightarrow> parse_commit_id k = Ok k"
  using commit_id_ascii by metis

lemma read_ref_nodes: "read_ref ns name s = (r, u) \<Longrightarrow> same_nodes s u"
proof (cases "ref_path ns name")
  case (Ok p)
  assume run: "read_ref ns name s = (r, u)"
  obtain x t where "read_trimmed p s = (Ok x, t)" "same_nodes s t" using read_trimmed_cases by blast
  then show ?thesis using run Ok by (auto simp: read_ref_def bind_io_def lift_io_def return_io_def split: option.splits result.splits)
qed (auto simp: read_ref_def bind_io_run)

lemma read_ref_valid:
  assumes "read_ref ns name s = (Ok (Some k), t)"
  shows "parse_commit_id k = Ok k \<and> ref_at s ns name = Some k \<and> same_nodes s t"
proof -
  obtain p where p: "ref_path ns name = Ok p" using assms by (cases "ref_path ns name") (auto simp: read_ref_def bind_io_run)
  obtain x u where x: "read_trimmed p s = (Ok x, u)" "same_nodes s u" "x = None \<or> x = trimmed s p" using read_trimmed_cases by blast
  obtain w where w: "x = Some w" using assms p x(1) by (cases x) (auto simp: read_ref_def bind_io_run)
  have parsed: "parse_commit_id w = Ok k" "t = u"
    using assms p x(1) w by (cases "parse_commit_id w"; auto simp: read_ref_def bind_io_run)+
  then have "trimmed s (ref_components ns name) = Some w" using x(3) w ref_path_Ok [OF p] by simp
  then show ?thesis using parsed x(2) commit_id_self [OF parsed(1)] by (simp add: ref_at_def)
qed

lemma current_head_valid: "current_head s = (Ok (Some k), s') \<Longrightarrow> parse_commit_id k = Ok k"
proof -
  assume run: "current_head s = (Ok (Some k), s')"
  obtain r t where h: "read_head s = (r, t)" by force
  show ?thesis
  proof (cases r)
    case (Ok target)
    have "decode_head line = Ok (Detached k) \<Longrightarrow> parse_commit_id k = Ok k" for line
      using commit_id_ascii by (auto simp: decode_head_def split: option.splits)
    then have "target = Some (Detached k) \<Longrightarrow> parse_commit_id k = Ok k"
      using h Ok by (auto simp: read_head_def bind_io_Ok split: option.splits)
    then show ?thesis
      using run h Ok read_ref_valid by (auto simp: current_head_def bind_io_run split: option.splits head_target.splits)
  qed (use run h in \<open>simp add: current_head_def bind_io_run\<close>)
qed

lemma moving_advance:
  assumes "repo_codec_ok c" "fs_inv t" "parse_commit_id k = Ok k" "commit_at c t k \<noteq> None"
  shows "moving c t (snd (advance_head_to k t))"
  unfolding advance_head_to_def
proof (rule moving_bind [OF assms(1)])
  have "only (\<lambda>_. False) read_head" by (rule read_frames)
  then show "moving c t (snd (read_head t))"
    using moving_frame [OF assms(2), of "\<lambda>_. False"] unfolding only_def by blast
next
  fix a u
  assume mv: "moving c t u"
  then have u: "fs_inv u" "commit_at c u k \<noteq> None" using moving_commit_at [OF assms(1) mv] assms(4) by (simp_all add: moving_def)
  then show "moving c u (snd ((case a of Some (Branch name) \<Rightarrow> write_ref Heads name k | _ \<Rightarrow> write_head (Detached k)) u))"
    using moving_write_ref_at [OF u(1) assms(3) u(2)] moving_write_head [OF u(1), where target = "Detached k" and c = c] assms(3)
    by (auto simp: write_ref_def split: option.splits head_target.splits)
qed

lemma moving_index:
  assumes "repo_codec_ok c" "fs_inv t"
  shows "moving c t (snd (save_index c' ix t))" "moving c t (snd (clear_staging c' t))" "moving c t (snd (load_index c' t))"
proof -
  have save: "moving c u (snd (save_index c' ix u))" if "fs_inv u" for ix u
  proof (rule moving_frame [OF that])
    show "touches (\<lambda>q. q = INDEX_FILE \<or> is_temp ''.tmp-'' q) u (snd (save_index c' ix u))"
      using only_save_index [of c' ix] by (simp add: only_def)
  qed (use ref_components_not_object(3) ref_components_not_head digest_path_not_temp in \<open>auto simp: real_ref_def dest: sym\<close>)
  then show "moving c t (snd (save_index c' ix t))" by (simp add: assms(2))
  have "only (\<lambda>_. False) (load_index c')" by (rule reads_head)
  then show load: "moving c t (snd (load_index c' t))"
    using moving_frame [OF assms(2), of "\<lambda>_. False"] unfolding only_def by blast
  show "moving c t (snd (clear_staging c' t))"
    unfolding clear_staging_def by (rule moving_bind [where m = "load_index c'", OF assms(1) load]) (rule save, erule moving_inv)
qed

lemma two_phase_pure: "fs_inv s \<Longrightarrow> two_phase c s (snd (fail_io e s))" "fs_inv s \<Longrightarrow> two_phase c s (snd (return_io a s))"
  by (simp_all add: fail_io_def return_io_def two_phase_move moving_refl)

text \<open>A commit is stored, and then a ref may move to it.\<close>

lemma two_phase_signed:
  assumes "repo_codec_ok c" "fs_inv s" "valid_args parents message author"
    and "\<And>k t. fs_inv t \<Longrightarrow> parse_commit_id k = Ok k \<Longrightarrow> commit_at c t k \<noteq> None \<Longrightarrow> moving c t (snd (f k t))"
  shows "two_phase c s (snd (bind_io (store_signed_commit c parents m message author keypair) f s))"
proof (rule two_phase_bind [OF assms(2)])
  fix k t
  assume run: "store_signed_commit c parents m message author keypair s = (Ok k, t)" and t: "fs_inv t"
  have "parse_commit_id k = Ok k" "commit_at c t k \<noteq> None"
    using signed_commit_stored [OF assms(1-3) run] by auto
  then show "two_phase c t (snd (f k t))" by (intro two_phase_move t assms(4))
qed (intro storing_intros assms(1))

lemma moving_return: "fs_inv t \<Longrightarrow> moving c t (snd (return_io a t))"
  by (simp add: return_io_def moving_refl)

lemma head_parents_valid:
  "current_head s = (Ok head, s') \<Longrightarrow> valid_args [] message author \<Longrightarrow>
   valid_args (case head of Some k \<Rightarrow> [k] | None \<Rightarrow> []) message author"
  using current_head_valid by (cases head) (auto simp: valid_args_def is_ok_iff)

lemma two_phase_create_commit:
  assumes "repo_codec_ok c" "fs_inv s" "valid_args [] message author"
  shows "two_phase c s (snd (create_commit c message author keypair s))"
proof -
  let ?move = "\<lambda>k. bind_io (advance_head_to k) (\<lambda>_. bind_io (clear_staging c) (\<lambda>_. return_io k))"
  let ?rest = "\<lambda>ix head. bind_io (case head of Some k \<Rightarrow> manifest_at c k | None \<Rightarrow> return_io new_manifest) (\<lambda>base.
     bind_io (store_signed_commit c (case head of Some k \<Rightarrow> [k] | None \<Rightarrow> []) (apply_onto ix base) message author keypair) ?move)"
  have move: "moving c t (snd (?move k t))" if "fs_inv t" "parse_commit_id k = Ok k" "commit_at c t k \<noteq> None" for k t
    by (intro moving_bind [OF assms(1)] moving_advance [OF assms(1) that] moving_index [OF assms(1)] moving_return)
       (auto dest: moving_inv)
  have rest: "two_phase c t (snd (?rest ix head t))" if "fs_inv t" "current_head u = (Ok head, t)" for ix head t u
    by (rule two_phase_bind [OF that(1) storing_read])
       (use two_phase_signed [OF assms(1) _ head_parents_valid [OF that(2) assms(3)] move] in
         \<open>auto split: option.splits intro: only_intros reads_find\<close>)
  have "two_phase c t (snd ((if ix = bt_empty then fail_io StagingEmpty else bind_io current_head (?rest ix)) t))"
    if "fs_inv t" for ix t
    by (cases "ix = bt_empty") (use that rest two_phase_bind [where f = "?rest ix", OF that storing_read [OF reads_head(1)]] in \<open>auto intro: two_phase_pure\<close>)
  then show ?thesis
    unfolding create_commit_def by (intro two_phase_bind [OF assms(2)] storing_read reads_head) simp
qed

lemma two_phase_after_read:
  assumes "fs_inv s" "\<And>X. only X m" "\<And>a t. m s = (Ok a, t) \<Longrightarrow> fs_inv t \<Longrightarrow> two_phase c t (snd (f a t))"
  shows "two_phase c s (snd (bind_io m f s))"
  using two_phase_bind [where m = m and f = f, OF assms(1) storing_read [OF assms(2)]] assms(3) by blast

lemma two_phase_merge_commit:
  assumes "repo_codec_ok c" "fs_inv s" "valid_args [theirs] message author"
  shows "two_phase c s (snd (create_merge_commit c message author keypair branch theirs m s))"
  unfolding create_merge_commit_def
proof (rule two_phase_after_read [OF assms(2) read_frames(1)])
  fix tip t
  assume tip: "read_ref Heads branch s = (Ok tip, t)" and t: "fs_inv t"
  have move: "moving c u (snd (bind_io (write_ref Heads branch k) (\<lambda>_. return_io k) u))"
    if "fs_inv u" "parse_commit_id k = Ok k" "commit_at c u k \<noteq> None" for k u
    by (rule moving_bind [OF assms(1)]) (use moving_write_ref_at [OF that] in \<open>auto simp: write_ref_def dest: moving_inv intro: moving_return\<close>)
  show "two_phase c t (snd ((case tip of None \<Rightarrow> fail_io (RefNotFound (''heads/'' @ branch)) | Some ours_tip \<Rightarrow>
      bind_io (store_signed_commit c [ours_tip, theirs] m message author keypair) (\<lambda>k.
      bind_io (write_ref Heads branch k) (\<lambda>_. return_io k))) t))"
  proof (cases tip)
    case (Some ours)
    then have "valid_args [ours, theirs] message author"
      using assms(3) read_ref_valid tip by (auto simp: valid_args_def is_ok_iff)
    then show ?thesis using two_phase_signed [OF assms(1) t _ move] Some by simp
  qed (simp add: two_phase_pure t)
qed

lemma two_phase_rollback_commit:
  assumes "repo_codec_ok c" "fs_inv s" "valid_args [] message author"
  shows "two_phase c s (snd (create_rollback_commit c message author keypair target s))"
proof -
  let ?move = "\<lambda>k. bind_io (advance_head_to k) (\<lambda>_. return_io k)"
  let ?fin = "\<lambda>m head. case head of None \<Rightarrow> fail_io (RefNotFound ''heads/HEAD'')
     | Some h \<Rightarrow> bind_io (store_signed_commit c [h] m message author keypair) ?move"
  have move: "moving c t (snd (?move k t))" if "fs_inv t" "parse_commit_id k = Ok k" "commit_at c t k \<noteq> None" for k t
    by (intro moving_bind [OF assms(1)] moving_advance [OF assms(1) that] moving_return) (auto dest: moving_inv)
  have fin: "two_phase c t (snd (?fin m head t))" if "fs_inv t" "current_head u = (Ok head, t)" for m head t u
    using two_phase_signed [OF assms(1) that(1) _ move, of "[the head]"] head_parents_valid [OF that(2) assms(3)] that(1)
    by (cases head) (simp_all add: two_phase_pure)
  have rest: "two_phase c t (snd (bind_io (manifest_at c target) (\<lambda>m. bind_io current_head (?fin m)) t))" if "fs_inv t" for t
    using that fin by (intro two_phase_after_read reads_find reads_head) auto
  have "two_phase c t (snd ((if ix \<noteq> bt_empty then fail_io StagingNotEmpty
      else bind_io (manifest_at c target) (\<lambda>m. bind_io current_head (?fin m))) t))" if "fs_inv t" for ix t
    using that rest by (simp add: two_phase_pure)
  then show ?thesis unfolding create_rollback_commit_def by (rule two_phase_after_read [OF assms(2) reads_head(2)])
qed

lemma two_phase_done: "fs_inv s \<Longrightarrow> two_phase c s (snd (m s)) \<Longrightarrow> two_phase c s (snd (done_io m s))"
  by (cases "m s"; cases "fst (m s)") (auto simp: done_io_def bind_io_run return_io_def)

lemma moving_after_read:
  assumes "repo_codec_ok c" "fs_inv s" "\<And>X. only X m"
    and "\<And>a u. m s = (Ok a, u) \<Longrightarrow> fs_inv u \<Longrightarrow> commit_at c u = commit_at c s \<Longrightarrow> moving c u (snd (f a u))"
  shows "moving c s (snd (bind_io m f s))"
proof (rule moving_bind [OF assms(1)])
  show "moving c s (snd (m s))" using moving_frame [OF assms(2), of "\<lambda>_. False"] assms(3) unfolding only_def by blast
qed (use assms(4) moving_inv moving_commit_at [OF assms(1)] in blast)

lemma moving_fail: "fs_inv t \<Longrightarrow> moving c t (snd (fail_io e t))"
  by (simp add: fail_io_def moving_refl)

lemma moving_staging:
  assumes "repo_codec_ok c" "fs_inv s"
  shows "moving c s (snd (stage_change c name change s))" "moving c s (snd (restore c name s))"
proof -
  show "moving c s (snd (stage_change c name change s))"
    unfolding stage_change_def by (rule moving_after_read [OF assms reads_head(2)]) (rule moving_index(1) [OF assms(1)])
  have "moving c t (snd (bind_io (save_index c ix) (\<lambda>_. return_io b) t))" if "fs_inv t" for ix b t
    by (intro moving_bind [OF assms(1)] moving_index [OF assms(1) that]) (auto dest: moving_inv intro: moving_return)
  then show "moving c s (snd (restore c name s))"
    unfolding restore_def
    by (intro moving_after_read [OF assms reads_head(2)]) (auto split: prod.splits intro: moving_return)
qed

lemma known_commit_moves:
  "known_commit c s k \<Longrightarrow> fs_inv u \<Longrightarrow> commit_at c u = commit_at c s \<Longrightarrow> moving c u (snd (write_ref_at ns name k u))"
  "known_commit c s k \<Longrightarrow> fs_inv u \<Longrightarrow> commit_at c u = commit_at c s \<Longrightarrow> moving c u (snd (write_ref Heads name k u))"
  using moving_write_ref_at by (simp_all add: known_commit_def write_ref_def)

lemma refs_known:
  assumes "refs_resolve c s" "head_real s" "current_head s = (Ok (Some k), t)"
  shows "known_commit c s k"
proof -
  obtain x u where h: "read_trimmed HEAD_FILE s = (Ok x, u)" "same_nodes s u" "x = None \<or> x = trimmed s HEAD_FILE"
    using read_trimmed_cases by blast
  obtain l where l: "x = Some l" using assms(3) h(1) by (cases x) (auto simp: current_head_def read_head_def bind_io_def return_io_def)
  obtain target where tg: "decode_head l = Ok target"
    using assms(3) h(1) l by (cases "decode_head l") (auto simp: current_head_def read_head_def bind_io_def lift_io_def)
  have run: "(case target of Detached k \<Rightarrow> return_io (Some k) | Branch name \<Rightarrow> read_ref Heads name) u = (Ok (Some k), t)"
    using assms(3) h(1) l tg by (simp add: current_head_def read_head_def bind_io_def lift_io_def return_io_def split: head_target.splits)
  have "trimmed s HEAD_FILE = Some l" using h(3) l by simp
  then have at: "head_at s = Some target" using tg by (simp add: head_at_def)
  show ?thesis
  proof (cases target)
    case (Detached k')
    then show ?thesis
      using run at assms(1) current_head_valid [OF assms(3)] by (auto simp: refs_resolve_def known_commit_def)
  next
    case (Branch name)
    then have rd: "read_ref Heads name u = (Ok (Some k), t)" using run by simp
    have "ref_at s Heads name = Some k"
      using read_ref_valid [OF rd] h(2) by (simp add: ref_at_def trimmed_def)
    moreover have "is_ok (ref_path Heads name)" using rd by (cases "ref_path Heads name") (auto simp: read_ref_def bind_io_run is_ok_iff)
    ultimately show ?thesis
      using assms(1,2) at Branch current_head_valid [OF assms(3)] by (auto simp: refs_resolve_def real_ref_def head_real_def known_commit_def)
  qed
qed

lemma hd_digest_path: "hd (digest_path d) = ''objects''"
  by (simp add: digest_path_def OBJECTS_def)

text \<open>Removing a ref, or writing something that is not a commit id.\<close>

lemma moving_shrink:
  assumes "fs_inv t" "touches X t s'" "\<And>d. is_hex_of_len d 64 \<Longrightarrow> \<not> X (digest_path d)" "\<not> X HEAD_FILE"
    and "\<And>ns name. real_ref ns name \<Longrightarrow> X (ref_components ns name) \<Longrightarrow>
      content s' (ref_components ns name) = content t (ref_components ns name) \<or> ref_at s' ns name = None"
  shows "moving c t s'"
proof -
  have k: "\<not> X q \<Longrightarrow> content s' q = content t q" for q using assms(1,2) by (auto simp: touches_def)
  have "ref_at s' ns name = Some x \<Longrightarrow> ref_at t ns name = Some x" if "real_ref ns name" for ns name x
    using k [of "ref_components ns name"] assms(5) [OF that] by (cases "X (ref_components ns name)") (auto simp: ref_at_def trimmed_def)
  moreover have "head_at s' = head_at t" using k [OF assms(4)] by (simp add: head_at_def trimmed_def)
  ultimately show ?thesis using assms(1-3) k by (auto simp: moving_def touches_def)
qed

lemma remove_file_content:
  assumes "fs_inv s" "remove_file p s = (r, s')"
  shows "content s' p = content s p \<or> content s' p = None"
  using assms(2) unfolding remove_file_def
proof (cases rule: perform_cases)
  case (run t x)
  then have t: "same_nodes s t" and r: "(case content t p of None \<Rightarrow> (Err ''No such file or directory'', t)
      | Some _ \<Rightarrow> (Ok (), t\<lparr>nodes := bt_remove p (nodes t)\<rparr>)) = (x, s')"
    by blast+
  have "bt_inv (nodes t)" using assms(1) t by (simp add: fs_inv_def same_nodes_def)
  then have "content (t\<lparr>nodes := bt_remove p (nodes t)\<rparr>) p = None" by (simp add: content_def btm.get_remove)
  then show ?thesis using r t by (cases "content t p") auto
qed simp

lemma moving_remove:
  assumes "fs_inv t" "hd p = ''refs''" "p \<noteq> []"
  shows "moving c t (snd (remove_file p t))"
proof -
  obtain r s' where run: "remove_file p t = (r, s')" by force
  have "moving c t s'"
  proof (rule moving_shrink [OF assms(1) remove_file_touches [OF run]])
    show "digest_path d \<noteq> p" for d using assms(2) by (auto simp: digest_path_def OBJECTS_def)
    show "HEAD_FILE \<noteq> p" using assms(2) by (auto simp: HEAD_FILE_def)
    show "content s' (ref_components ns name) = content t (ref_components ns name) \<or> ref_at s' ns name = None"
      if "ref_components ns name = p" for ns name
      using remove_file_content [OF assms(1) run] that by (auto simp: ref_at_def trimmed_def)
  qed
  then show ?thesis using run by simp
qed

lemma moving_remove_ref: "repo_codec_ok c \<Longrightarrow> fs_inv s \<Longrightarrow> moving c s (snd (remove_ref_file ns name s))"
proof -
  assume c: "repo_codec_ok c" and s: "fs_inv s"
  show ?thesis
  proof (cases "ref_path ns name")
    case (Ok p)
    then have p: "hd p = ''refs''" "p \<noteq> []" using ref_path_Ok [OF Ok] by (simp_all add: ref_components_def)
    have "moving c s (snd (bind_io (path_exists p) (\<lambda>present. if \<not> present then fail_io (RefNotFound (dir_name ns @ ''/'' @ name)) else remove_file p) s))"
      by (rule moving_after_read [OF c s]) (auto intro: only_intros moving_fail moving_remove [OF _ p])
    then show ?thesis using Ok by (simp add: remove_ref_file_def bind_io_run)
  qed (simp add: remove_ref_file_def bind_io_run moving_refl s)
qed

lemma moving_ok: "moving c s (snd (m s)) \<Longrightarrow> moving c s (snd (ok_io m s))"
  by (cases "m s"; cases "fst (m s)") (auto simp: ok_io_def)

lemma moving_delete_env:
  assumes "repo_codec_ok c" "fs_inv s"
  shows "moving c s (snd (delete_env_ref c name force s))"
proof -
  let ?side = "bind_io (lift_io (protection_path name)) (\<lambda>p. bind_io (ok_io (remove_file p)) (\<lambda>_. return_io ()))"
  have side: "moving c u (snd (?side u))" if u: "fs_inv u" for u
  proof (cases "protection_path name")
    case (Ok p)
    then obtain q where "ref_path Environments name = Ok q" "p = butlast q @ [last q @ ''.protection'']"
      by (auto simp: protection_path_def)
    then have "hd p = ''refs''" "p \<noteq> []" using ref_path_Ok by (fastforce simp: ref_components_def)+
    then have "moving c u (snd (bind_io (ok_io (remove_file p)) (\<lambda>_. return_io ()) u))"
      by (intro moving_bind [OF assms(1)] moving_ok moving_remove u) (auto dest: moving_inv intro: moving_return)
    then show ?thesis using Ok by (simp add: bind_io_run)
  qed (simp add: bind_io_run moving_refl u)
  have rm: "moving c u (snd (bind_io (remove_ref_file Environments name) (\<lambda>_. ?side) u))" if "fs_inv u" for u
    by (rule moving_bind [OF assms(1)], rule moving_remove_ref [OF assms(1) that], rule side, erule moving_inv)
  have "moving c u (snd (bind_io (if b then read_env_protection c name else return_io False) (\<lambda>protected.
      if protected \<and> \<not> force then fail_io (ProtectedRef name) else bind_io (remove_ref_file Environments name) (\<lambda>_. ?side)) u))"
    if "fs_inv u" for u b
    by (rule moving_after_read [OF assms(1) that]) (auto intro: only_intros moving_fail rm)
  then show ?thesis
    unfolding delete_env_ref_def by (intro moving_after_read [OF assms] read_frames)
qed

lemma moving_protect:
  assumes "repo_codec_ok c" "fs_inv s"
  shows "moving c s (snd (write_env_protection c name b s))"
proof (cases "ref_path Environments name")
  case (Ok q)
  let ?p = "butlast q @ [last q @ ''.protection'']"
  obtain t where t: "enc_protection c b = Ok t" "trim t = t" "dec_protection c t = Ok b" using codec_protection(1) [OF assms(1)] by blast
  obtain r s' where run: "publish ''.tmp-'' ?p t s = (r, s')" by force
  note pub = publish_cases [OF run assms(2)]
  have hd: "hd ?p = ''refs''" using ref_path_Ok [OF Ok] by (auto simp: ref_components_def)
  have "moving c s s'"
  proof (rule moving_shrink [OF assms(2)])
    show "touches (\<lambda>x. x = ?p \<or> is_temp ''.tmp-'' x) s s'" using pub by (auto simp: touches_def)
    show "\<not> (digest_path d = ?p \<or> is_temp ''.tmp-'' (digest_path d))" if "is_hex_of_len d 64" for d
    proof -
      have "digest_path d \<noteq> ?p" using hd hd_digest_path [of d] by (intro notI) simp
      then show ?thesis using digest_path_not_temp [OF that] by blast
    qed
    have "HEAD_FILE \<noteq> ?p" using hd by (intro notI) (simp add: HEAD_FILE_def flip: hd_conv_nth)
    then show "\<not> (HEAD_FILE = ?p \<or> is_temp ''.tmp-'' HEAD_FILE)" by simp
    fix ns n
    assume "real_ref ns n" "ref_components ns n = ?p \<or> is_temp ''.tmp-'' (ref_components ns n)"
    then have n: "ref_components ns n = ?p" "\<not> is_temp ''.tmp-'' ?p" by (auto simp: real_ref_def)
    have "is_err (parse_commit_id t)" by (rule codec_protection(2) [OF assms(1) t(3)])
    then have "content s' ?p = Some t \<Longrightarrow> ref_at s' ns n = None"
      using n(1) t(2) by (cases "parse_commit_id t") (auto simp: ref_at_def trimmed_def)
    then show "content s' (ref_components ns n) = content s (ref_components ns n) \<or> ref_at s' ns n = None"
      using pub n by (cases r) auto
  qed
  then show ?thesis
    using run protection_path_eq [OF Ok] t(1) by (simp add: write_env_protection_def write_atomically_def bind_io_run)
qed (use assms in \<open>simp add: write_env_protection_def protection_path_def bind_io_run moving_refl\<close>)

lemma moving_ref_call:
  assumes "repo_codec_ok c" "fs_inv s" "call_ok c s (RefCall call)"
  shows "moving c s (snd (ref_call_io c call s))"
proof (cases call)
  case (WriteRef ns name k)
  then show ?thesis using assms known_commit_moves by (cases ns) (auto simp: write_ref_def moving_fail)
next
  case (DeleteRef ns name force)
  have "moving c s (snd (delete_ref Heads name force s))"
    unfolding delete_ref_def
    by (simp, rule moving_after_read [OF assms(1,2) read_frames(3)]) (auto intro: moving_fail moving_remove_ref [OF assms(1)])
  then show ?thesis using DeleteRef assms(2) by (cases ns) (auto simp: delete_ref_def moving_fail)
next
  case (WriteEnvRef name k force)
  have k: "known_commit c s k" using assms(3) WriteEnvRef by simp
  have "moving c u (snd (bind_io (read_env_protection c name) (\<lambda>protected.
      if protected \<and> \<not> force then fail_io (ProtectedRef name) else write_ref_at Environments name k) u))"
    if u: "fs_inv u" "commit_at c u = commit_at c s" for u
    by (rule moving_after_read [OF assms(1) u(1) read_frames(5)]) (auto intro: moving_fail known_commit_moves [OF k] simp: u(2))
  then have "moving c s (snd (write_env_ref c name k force s))"
    unfolding write_env_ref_def
    by (intro moving_after_read [OF assms(1,2) read_frames(1)]) (auto split: option.splits intro: known_commit_moves [OF k])
  then show ?thesis using WriteEnvRef by simp
next
  case (WriteHead t)
  then show ?thesis using assms moving_write_head [where target = t and c = c, OF assms(2)] by (cases t) (auto simp: known_commit_def)
qed (use assms moving_delete_env moving_protect in simp_all)

lemma two_phase_call:
  assumes "repo_codec_ok c" "fs_inv s" "refs_resolve c s" "call_ok c s call"
  shows "two_phase c s (snd (repo_call_io c call s))"
proof (cases call)
  case (InitRepo vault)
  have dirs: "moving c u (snd (create_dir_all p u))" if "fs_inv u" for u p
    using moving_frame [OF that, of "\<lambda>_. False"] only_create(2) [of "\<lambda>_. False" p] unfolding only_def by blast
  have "moving c u (snd (bind_io (create_dir_all [''objects'']) (\<lambda>_. write_head (Branch ''main'')) u))" if "fs_inv u" for u
    by (rule moving_bind [OF assms(1)], rule dirs [OF that], rule moving_write_head, erule moving_inv) simp
  then have "moving c s (snd (init_repo vault s))"
    unfolding init_repo_def by (intro moving_after_read [OF assms(1,2)]) (auto intro: only_intros moving_fail)
  then show ?thesis using InitRepo two_phase_move [OF assms(2)] by simp
next
  case (CreateBranch name start)
  have "moving c s (snd (create_branch name start s))"
    unfolding create_branch_def
  proof (rule moving_after_read [OF assms(1,2) read_frames(1)])
    fix existing u
    assume rd: "read_ref Heads name s = (Ok existing, u)" and u: "fs_inv u" "commit_at c u = commit_at c s"
    have nodes: "same_nodes s u" using rd by (rule read_ref_nodes)
    show "moving c u (snd ((if existing \<noteq> None then fail_io (RefAlreadyExists (''heads/'' @ name)) else
        case start of Some k \<Rightarrow> write_ref Heads name k
        | None \<Rightarrow> bind_io current_head (\<lambda>head. case head of None \<Rightarrow> fail_io (RefNotFound ''heads/HEAD'') | Some k \<Rightarrow> write_ref Heads name k)) u))"
    proof (cases start)
      case (Some k)
      then show ?thesis using assms(4) CreateBranch u known_commit_moves(2) [of c s k u name] by (simp add: moving_fail)
    next
      case None
      have "head_real u" "refs_resolve c u"
        using assms(3,4) nodes CreateBranch None u(2)
        by (simp_all add: head_real_def head_at_def trimmed_def refs_resolve_def ref_at_def cong: option.case_cong)
      then have "current_head u = (Ok (Some k), v) \<Longrightarrow> known_commit c u k" for k v using refs_known by blast
      then have "moving c u (snd (bind_io current_head (\<lambda>head. case head of None \<Rightarrow> fail_io (RefNotFound ''heads/HEAD'')
          | Some k \<Rightarrow> write_ref Heads name k) u))"
        by (intro moving_after_read [OF assms(1) u(1) reads_head(1)])
           (auto split: option.splits intro: moving_fail known_commit_moves(2))
      then show ?thesis using None u(1) by (simp add: moving_fail)
    qed
  qed
  then show ?thesis using CreateBranch two_phase_move [OF assms(2)] by simp
next
  case (CheckoutBranch name)
  have "moving c s (snd (checkout_branch name s))"
    unfolding checkout_branch_def
    by (intro moving_after_read [OF assms(1,2) read_frames(1)]) (auto intro: moving_fail moving_write_head)
  then show ?thesis using CheckoutBranch two_phase_move [OF assms(2)] by simp
next
  case (CheckoutCommit k)
  have valid: "parse_commit_id k = Ok k" using assms(4) CheckoutCommit commit_id_ascii by (auto simp: is_ok_iff)
  have "moving c u (snd (write_head (Detached k) u))"
    if "find_commit c k s = (Ok x, u)" "fs_inv u" "commit_at c u = commit_at c s" for x u
    by (rule moving_write_head [OF that(2)]) (use find_commit_sound [OF that(1)] valid that(3) in auto)
  then have "moving c s (snd (checkout_commit c k s))"
    unfolding checkout_commit_def by (intro moving_after_read [OF assms(1,2) reads_find(1)])
  then show ?thesis using CheckoutCommit two_phase_move [OF assms(2)] by simp
next
  case (RefCall call)
  then show ?thesis using two_phase_move [OF assms(2) moving_ref_call [OF assms(1,2)]] assms(4) by simp
qed (use assms in \<open>auto intro!: two_phase_done two_phase_create_commit two_phase_merge_commit two_phase_rollback_commit
      intro: two_phase_move moving_staging moving_index\<close>)

text \<open>The counters and the pending faults do not matter for what is stored.\<close>

lemma same_world [simp]:
  "content (s\<lparr>faults := f, process_id := pid, nanos := n\<rparr>) = content s"
  "fs_inv (s\<lparr>faults := f, process_id := pid, nanos := n\<rparr>) = fs_inv s"
  "commit_at c (s\<lparr>faults := f, process_id := pid, nanos := n\<rparr>) = commit_at c s"
proof -
  have "same_nodes s (s\<lparr>faults := f, process_id := pid, nanos := n\<rparr>)" by (simp add: same_nodes_def)
  from same_nodes_content [OF this] commit_at_same [OF this] show
    "content (s\<lparr>faults := f, process_id := pid, nanos := n\<rparr>) = content s"
    "fs_inv (s\<lparr>faults := f, process_id := pid, nanos := n\<rparr>) = fs_inv s"
    "commit_at c (s\<lparr>faults := f, process_id := pid, nanos := n\<rparr>) = commit_at c s" by simp_all
qed

lemma same_world_refs [simp]:
  "refs_resolve c (s\<lparr>faults := f, process_id := pid, nanos := n\<rparr>) = refs_resolve c s"
  "call_ok c (s\<lparr>faults := f, process_id := pid, nanos := n\<rparr>) call = call_ok c s call"
  "no_collision c (s\<lparr>faults := f, process_id := pid, nanos := n\<rparr>) s' = no_collision c s s'"
proof -
  show "refs_resolve c (s\<lparr>faults := f, process_id := pid, nanos := n\<rparr>) = refs_resolve c s"
    by (simp add: refs_resolve_def ref_at_def head_at_def trimmed_def cong: option.case_cong)
  show "call_ok c (s\<lparr>faults := f, process_id := pid, nanos := n\<rparr>) call = call_ok c s call"
    by (cases "(c, s, call)" rule: call_ok.cases)
       (simp_all add: known_commit_def head_real_def head_at_def trimmed_def cong: option.case_cong)
qed (simp add: no_collision_def)

lemma reachable_resolves:
  assumes "repo_codec_ok c" "repo_reachable c s"
  shows "fs_inv s \<and> refs_resolve c s"
  using assms(2)
proof (induction rule: repo_reachable.induct)
  case (fresh s)
  then have "content s p = None" for p by (simp add: content_def bt_empty_def)
  then show ?case using fresh by (simp add: fs_inv_def bt_empty_def refs_resolve_def ref_at_def head_at_def trimmed_def)
next
  case (call s call ns pid fs r s')
  let ?s = "s\<lparr>faults := fs, process_id := pid, nanos := ns\<rparr>"
  have "two_phase c ?s s'"
    using two_phase_call [OF assms(1), of ?s call] call by simp
  then show ?case using two_phase_resolves [OF assms(1), of ?s s'] call by simp
qed

end
