(* ===== verification/Repository_Properties.thy ===== *)
theory Repository_Properties
  imports Repository
begin

text \<open>
  What the repository promises: a commit on a branch without I/O failures, and refs that never dangle whatever fails.
\<close>

section \<open>Reference definitions\<close>

text \<open>A set of files that can exist together: none lies in the place of a directory of another, none is a temporary file.\<close>

definition layout :: "path set \<Rightarrow> bool" where
  "layout F \<longleftrightarrow> (\<forall>p \<in> F. p \<noteq> [] \<and> \<not> is_temp ''.tmp-'' p
     \<and> (\<forall>q \<in> set (path_prefixes (butlast p)). q \<notin> F \<and> \<not> is_temp ''.tmp-'' q))"

text \<open>No call fails, and the directory has room for these files.\<close>

definition roomy :: "path set \<Rightarrow> fs \<Rightarrow> bool" where
  "roomy F s \<longleftrightarrow> fs_inv s \<and> faults s = [] \<and> (\<forall>p \<in> F. writable s p) \<and> (\<forall>t. is_temp ''.tmp-'' t \<longrightarrow> \<not> is_dir_node s t)"

text \<open>The files that a commit on a branch writes.\<close>

definition branch_files :: "string \<Rightarrow> path set" where
  "branch_files name = {digest_path d | d. is_hex_of_len d 64} \<union> {HEAD_FILE, INDEX_FILE, ref_components Heads name}"

definition plain_branch :: "string \<Rightarrow> bool" where
  "plain_branch name \<longleftrightarrow> ref_path Heads name = Ok (ref_components Heads name)
     \<and> filter (\<lambda>x. x \<noteq> ''.'') (split_on (CHR ''/'') name) \<noteq> []
     \<and> list_all (\<lambda>x. \<not> starts_with ''.tmp-'' x) (split_on (CHR ''/'') name)"

definition signed_commit :: "repo_codec \<Rightarrow> commit_id list \<Rightarrow> manifest \<Rightarrow> string \<Rightarrow> string \<Rightarrow> string \<Rightarrow> commit" where
  "signed_commit c parents m message author keypair =
     (let k = new_commit parents (id_of c (manifest_envelope c m)) author message
      in k\<lparr>com_signature := sign_bytes c keypair (case sign_payload c k of Ok payload \<Rightarrow> payload | Err _ \<Rightarrow> [])\<rparr>)"

definition commit_env :: "repo_codec \<Rightarrow> commit \<Rightarrow> object_envelope" where
  "commit_env c k = new_envelope CommitObject (case enc_commit c k of Ok t \<Rightarrow> t | Err _ \<Rightarrow> [])"

text \<open>The place of the object is empty or holds the object.\<close>

definition slot_free :: "repo_codec \<Rightarrow> fs \<Rightarrow> object_envelope \<Rightarrow> bool" where
  "slot_free c s e \<longleftrightarrow> content s (digest_path (digest_hex c (encoded c e))) \<in> {None, Some (encoded c e)}"

section \<open>Lemmas: writing without failures\<close>

lemma publish_roomy:
  assumes "layout F" "roomy F s" "p \<in> F" "prefix = ''.tmp-'' \<or> prefix = ''.tmp-index-''"
  obtains s' where "publish prefix p b s = (Ok (), s')" "roomy F s'" "content s' p = Some b"
    "\<And>q. q \<noteq> p \<Longrightarrow> \<not> is_temp ''.tmp-'' q \<Longrightarrow> content s' q = content s q"
proof -
  have temp: "is_temp prefix t \<Longrightarrow> is_temp ''.tmp-'' t" for t using assms(4) is_temp_index by auto
  have p: "p \<noteq> []" "\<not> is_temp prefix p" using assms(1,3) temp unfolding layout_def by blast+
  have s: "faults s = []" "fs_inv s" "writable s p" "\<And>t. is_temp prefix t \<Longrightarrow> \<not> is_dir_node s t"
    using assms(2,3) temp unfolding roomy_def by blast+
  obtain s' where run: "publish prefix p b s = (Ok (), s')" and f: "faults s' = []"
    and dirs: "\<And>q. is_dir_node s' q \<longleftrightarrow> is_dir_node s q \<or> q \<in> set (path_prefixes (butlast p))"
    using publish_ok [OF s(1,2) p(1) s(3) p(2) s(4)] by blast
  note pub = publish_cases [OF run s(2)]
  have other: "content s' q = content s q" if "q \<noteq> p" "\<not> is_temp ''.tmp-'' q" for q using pub that temp by blast
  have "writable s' q" if q: "q \<in> F" for q
    unfolding writable_def
  proof (intro conjI ballI)
    have "q \<notin> set (path_prefixes (butlast p))" using assms(1,3) q unfolding layout_def by blast
    then show "\<not> is_dir_node s' q" using dirs assms(2) q by (auto simp: roomy_def writable_def)
    fix r assume r: "r \<in> set (path_prefixes (butlast q))"
    then have "r \<noteq> p" "\<not> is_temp ''.tmp-'' r" using assms(1,3) q unfolding layout_def by blast+
    then show "content s' r = None" using other assms(2) q r by (simp add: roomy_def writable_def)
  qed
  moreover have "\<not> is_dir_node s' t" if "is_temp ''.tmp-'' t" for t
    using dirs that assms(1-3) unfolding layout_def roomy_def by blast
  ultimately have "roomy F s'" using pub f by (simp add: roomy_def)
  moreover have "content s' p = Some b" using pub p(2) by simp
  ultimately show thesis using that run other by blast
qed

lemma put_roomy:
  assumes "repo_codec_ok c" "layout F" "roomy F s" "digest_path (digest_hex c (encoded c e)) \<in> F"
    and "env_format e = OBJECT_FORMAT_VERSION" "slot_free c s e"
  obtains s' where "put c e s = (Ok (id_of c e), s')" "roomy F s'" "content s' (digest_path (digest_hex c (encoded c e))) = Some (encoded c e)"
    "\<And>q. q \<noteq> digest_path (digest_hex c (encoded c e)) \<Longrightarrow> \<not> is_temp ''.tmp-'' q \<Longrightarrow> content s' q = content s q"
proof -
  let ?p = "digest_path (digest_hex c (encoded c e))"
  have f: "faults s = []" and nd: "\<not> is_dir_node s ?p" using assms(3,4) by (auto simp: roomy_def writable_def)
  have ex: "path_exists ?p s = (Ok (content s ?p \<noteq> None), s)"
    using f nd by (auto simp: path_exists_def probe_def no_next_fault content_def is_dir_node_def split: option.splits node.splits)
  note unf = put_def canonical_bytes_def bind_io_run bind_io_bool
  note pure = codec_facts(1) [OF assms(1), of e] id_of_path [OF assms(1), of e]
  show thesis
  proof (cases "content s ?p")
    case None
    obtain s' where s': "publish ''.tmp-'' ?p (encoded c e) s = (Ok (), s')" "roomy F s'" "content s' ?p = Some (encoded c e)"
      "\<And>q. q \<noteq> ?p \<Longrightarrow> \<not> is_temp ''.tmp-'' q \<Longrightarrow> content s' q = content s q"
      using publish_roomy [OF assms(2,3,4), of "''.tmp-''"] by blast
    have "put c e s = (Ok (id_of c e), s')" using None ex s'(1) pure assms(5) by (simp add: unf)
    then show ?thesis using that s' by blast
  next
    case (Some b)
    then have b: "b = encoded c e" using assms(6) by (simp add: slot_free_def)
    have "read_file ?p s = (Ok b, s)" using Some f by (simp add: read_file_def perform_def no_next_fault ok_or_def)
    then have "put c e s = (Ok (id_of c e), s)" using Some ex pure assms(5) b by (simp add: unf return_io_def)
    then show ?thesis using that assms(3) Some b by blast
  qed
qed

lemma in_path_prefixes: "q \<in> set (path_prefixes p) \<longleftrightarrow> (\<exists>i \<le> length p. q = take i p)"
  unfolding path_prefixes_def by (auto simp: image_iff less_Suc_eq_le Bex_def simp del: upt_Suc)

lemma prefix_facts:
  assumes "q \<in> set (path_prefixes p)" "q \<noteq> []"
  shows "last q \<in> set p" "hd q = hd p" "length q \<le> length p"
proof -
  obtain i where i: "q = take i p" using assms(1) by (auto simp: in_path_prefixes)
  have "last q \<in> set q" using assms(2) by simp
  then show "last q \<in> set p" unfolding i by (rule in_set_takeD)
  show "hd q = hd p" "length q \<le> length p" using assms(2) i by (auto simp: hd_take)
qed

lemma layout_branch:
  assumes "plain_branch name"
  shows "layout (branch_files name)"
  unfolding layout_def
proof (intro ballI)
  fix p
  assume p: "p \<in> branch_files name"
  let ?R = "ref_components Heads name"
  let ?c = "filter (\<lambda>x. x \<noteq> ''.'') (split_on (CHR ''/'') name)"
  have R: "?R = ''refs'' # ''heads'' # ?c" "?c \<noteq> []" using assms by (simp_all add: ref_components_def plain_branch_def)
  have tmp: "\<not> starts_with ''.tmp-'' x" if "x \<in> set ?R" for x
    using that assms by (auto simp: R plain_branch_def list_all_iff starts_with_iff)
  have Rl: "last ?R \<in> set ?R" using R by (intro last_in_set) simp
  consider d where "p = digest_path d" "is_hex_of_len d 64" | "p = HEAD_FILE \<or> p = INDEX_FILE" | "p = ?R" using p by (auto simp: branch_files_def)
  then show "p \<noteq> [] \<and> \<not> is_temp ''.tmp-'' p \<and> (\<forall>q \<in> set (path_prefixes (butlast p)). q \<notin> branch_files name \<and> \<not> is_temp ''.tmp-'' q)"
  proof cases
    case 1
    have bl: "butlast p = [''objects'', ''sha256'', take 2 d]" using 1 by (simp add: digest_path_def OBJECTS_def)
    have q: "q \<notin> branch_files name \<and> \<not> is_temp ''.tmp-'' q" if "q \<in> set (path_prefixes (butlast p))" for q
    proof -
      have "length q \<le> 3" "q = [] \<or> hd q = ''objects''" using prefix_facts [OF that] bl by (cases "q = []"; simp)+
      then have "q \<notin> branch_files name"
        using R by (auto simp: branch_files_def digest_path_def OBJECTS_def HEAD_FILE_def INDEX_FILE_def)
      moreover have "\<not> starts_with ''.tmp-'' (take 2 d)"
        by (auto simp: starts_with_iff dest: arg_cong [of _ _ length])
      then have "q \<noteq> [] \<Longrightarrow> \<not> starts_with ''.tmp-'' (last q)"
        using prefix_facts(1) [OF that] bl by (auto simp: starts_with_iff append_eq_Cons_conv)
      ultimately show ?thesis by (auto simp: is_temp_def)
    qed
    then show ?thesis using 1 digest_path_not_temp by (auto simp: digest_path_def)
  next
    case 2
    then have "butlast p = []" "p \<noteq> []" by (auto simp: HEAD_FILE_def INDEX_FILE_def)
    then show ?thesis using 2 R by (auto simp: in_path_prefixes branch_files_def is_temp_def digest_path_def HEAD_FILE_def INDEX_FILE_def
        starts_with_iff append_eq_Cons_conv)
  next
    case 3
    have q: "q \<notin> branch_files name \<and> \<not> is_temp ''.tmp-'' q" if "q \<in> set (path_prefixes (butlast ?R))" for q
    proof -
      have "length q < length ?R" "q = [] \<or> hd q = ''refs''" using prefix_facts [OF that] R by (cases "q = []"; simp)+
      then have "q \<notin> branch_files name"
        by (auto simp: branch_files_def digest_path_def OBJECTS_def HEAD_FILE_def INDEX_FILE_def)
      moreover have "q \<noteq> [] \<Longrightarrow> last q \<in> set ?R" using prefix_facts(1) [OF that] in_set_butlastD by fast
      ultimately show ?thesis using tmp by (auto simp: is_temp_def)
    qed
    then show ?thesis using 3 R tmp Rl by (auto simp: is_temp_def)
  qed
qed

section \<open>Lemmas: reading without failures\<close>

lemma index_at_content: "content s INDEX_FILE = Some b \<Longrightarrow> is_utf8 b \<Longrightarrow> dec_index c b = Ok ix \<Longrightarrow> index_at c s = Some ix"
  by (auto simp: index_at_def content_def split: option.splits node.splits)

lemma index_at_cases:
  assumes "index_at c s = Some ix" "ix \<noteq> bt_empty"
  obtains b where "content s INDEX_FILE = Some b" "is_utf8 b" "dec_index c b = Ok ix"
  using assms by (auto simp: index_at_def split: option.splits if_splits result.splits)

lemma load_index_no_faults: "faults s = [] \<Longrightarrow> index_at c s = Some ix \<Longrightarrow> load_index c s = (Ok ix, s)"
proof -
  assume f: "faults s = []" and ix: "index_at c s = Some ix"
  have ex: "path_exists INDEX_FILE s = (Ok (bt_get (nodes s) INDEX_FILE \<noteq> None), s)"
    by (simp add: path_exists_def probe_def no_next_fault f)
  show ?thesis
  proof (cases "bt_get (nodes s) INDEX_FILE = None")
    case True
    then show ?thesis using ix ex by (simp add: index_at_def load_index_def bind_io_bool return_io_def)
  next
    case False
    then obtain b where b: "content s INDEX_FILE = Some b" "is_utf8 b" "dec_index c b = Ok ix"
      using ix by (auto simp: index_at_def split: option.splits if_splits result.splits)
    then have "read_to_string INDEX_FILE s = (Ok b, s)"
      using read_to_string_no_faults [OF f, of INDEX_FILE] by (cases "read_to_string INDEX_FILE s") auto
    then show ?thesis using ex False b(3) by (simp add: load_index_def bind_io_bool bind_io_run lift_io_def)
  qed
qed

lemma read_head_no_faults: "faults s = [] \<Longrightarrow> head_at s = Some t \<Longrightarrow> read_head s = (Ok (Some t), s)"
  using read_trimmed_no_faults [of s HEAD_FILE]
  by (auto simp: head_at_def read_head_def bind_io_run return_io_def split: option.splits result.splits)

lemma load_manifest_no_faults: "faults s = [] \<Longrightarrow> loaded_manifest c s oid = Some m \<Longrightarrow> load_manifest_object c oid s = (Ok m, s)"
proof -
  assume f: "faults s = []" and m: "loaded_manifest c s oid = Some m"
  then obtain e where e: "stored c s oid = Some e" "env_type e = ManifestObject" "dec_manifest c (env_payload e) = Ok m"
    by (auto simp: loaded_manifest_def split: option.splits if_splits result.splits)
  then have "get_object c oid s = (Ok e, s)" using get_object_no_faults [OF f, of c oid] by (cases "get_object c oid s") auto
  then show ?thesis using e by (simp add: load_manifest_object_def bind_io_run lift_io_def)
qed

section \<open>Lemmas: a commit on a branch\<close>

text \<open>Two objects can be stored side by side.\<close>

definition slots_free :: "repo_codec \<Rightarrow> fs \<Rightarrow> object_envelope \<Rightarrow> object_envelope \<Rightarrow> bool" where
  "slots_free c s e e' \<longleftrightarrow>
     slot_free c s e \<and> slot_free c s e' \<and> digest_hex c (encoded c e) \<noteq> digest_hex c (encoded c e')"

lemma signed_commit_facts:
  fixes m keypair
  assumes "repo_codec_ok c" "valid_args parents message author"
  defines "k \<equiv> signed_commit c parents m message author keypair"
  shows "sign_with c keypair (new_commit parents (id_of c (manifest_envelope c m)) author message) = Ok k"
    "com_parents k = parents" "com_author k = author" "com_message k = message" "com_manifest k = id_of c (manifest_envelope c m)"
    "commit_envelope c k = Ok (commit_env c k)" "commit_object_id c k = Ok (id_of c (commit_env c k))"
    "commit_id_of c k = Ok (''cmt_'' @ drop 4 (id_of c (commit_env c k)))" "dec_commit c (env_payload (commit_env c k)) = Ok k"
    "\<exists>payload. sign_payload c k = Ok payload \<and> com_signature k = sign_bytes c keypair payload"
proof -
  let ?u = "new_commit parents (id_of c (manifest_envelope c m)) author message"
  obtain pay where "enc_signable c (com_format ?u, com_parents ?u, com_manifest ?u, com_author ?u, com_message ?u) = Ok pay"
    using codec_commit(3) [OF assms(1)] by blast
  then have pay: "sign_payload c ?u = Ok pay" by (simp add: sign_payload_def)
  have k: "k = ?u\<lparr>com_signature := sign_bytes c keypair pay\<rparr>" by (simp add: k_def signed_commit_def pay)
  show "sign_with c keypair ?u = Ok k" by (simp add: sign_with_def pay k)
  show "com_parents k = parents" "com_author k = author" "com_message k = message" "com_manifest k = id_of c (manifest_envelope c m)"
    by (simp_all add: k new_commit_def)
  show "\<exists>payload. sign_payload c k = Ok payload \<and> com_signature k = sign_bytes c keypair payload"
    using pay by (simp add: k sign_payload_def)
  have "valid_commit k"
    using assms(2) id_of_valid [OF assms(1), of "manifest_envelope c m"] by (simp add: valid_commit_def valid_args_def k new_commit_def)
  then obtain t where t: "enc_commit c k = Ok t" "dec_commit c t = Ok k"
    "commit_envelope c k = Ok (new_envelope CommitObject t)" "commit_object_id c k = Ok (id_of c (new_envelope CommitObject t))"
    "commit_id_of c k = Ok (''cmt_'' @ drop 4 (id_of c (new_envelope CommitObject t)))"
    using commit_ids [OF assms(1)] by blast
  have "commit_env c k = new_envelope CommitObject t" by (simp add: commit_env_def t(1))
  then show "commit_envelope c k = Ok (commit_env c k)" "commit_object_id c k = Ok (id_of c (commit_env c k))"
    "commit_id_of c k = Ok (''cmt_'' @ drop 4 (id_of c (commit_env c k)))" "dec_commit c (env_payload (commit_env c k)) = Ok k"
    using t by (simp_all add: new_envelope_def)
qed

lemma stored_slot: "repo_codec_ok c \<Longrightarrow> content s (digest_path (digest_hex c (encoded c e))) = Some (encoded c e) \<Longrightarrow> stored c s (id_of c e) = Some e"
  by (simp add: stored_def id_of_path drop_id_of codec_facts)

lemma store_signed_ok:
  fixes keypair
  assumes "repo_codec_ok c" "layout F" "roomy F s" "\<And>d. is_hex_of_len d 64 \<Longrightarrow> digest_path d \<in> F"
    and "valid_args parents message author" "valid_manifest m" "\<forall>p \<in> set parents. commit_at c s p \<noteq> None"
  defines "k \<equiv> signed_commit c parents m message author keypair"
  assumes "slots_free c s (manifest_envelope c m) (commit_env c k)"
  obtains t where "store_signed_commit c parents m message author keypair s = (Ok (''cmt_'' @ drop 4 (id_of c (commit_env c k))), t)"
    "roomy F t" "commit_at c t (''cmt_'' @ drop 4 (id_of c (commit_env c k))) = Some k" "loaded_manifest c t (com_manifest k) = Some m"
    "\<And>q. \<not> object_or_temp q \<Longrightarrow> content t q = content s q" "\<And>i e. stored c s i = Some e \<Longrightarrow> stored c t i = Some e"
proof -
  let ?me = "manifest_envelope c m" and ?ke = "commit_env c k"
  let ?pm = "digest_path (digest_hex c (encoded c ?me))" and ?pk = "digest_path (digest_hex c (encoded c ?ke))"
  note hex = codec_facts(3) [OF assms(1)]
  have pm: "?pm \<in> F" "?pk \<in> F" and nt: "\<not> is_temp ''.tmp-'' ?pm" "\<not> is_temp ''.tmp-'' ?pk" and ne: "?pm \<noteq> ?pk"
    using assms(4) hex digest_path_not_temp assms(9) digest_path_inj by (auto simp: slots_free_def)
  obtain payload where pl: "enc_manifest c m = Ok payload" "dec_manifest c payload = Ok m" using codec_manifest(1) [OF assms(1,6)] by blast
  have me: "new_envelope ManifestObject payload = ?me" by (simp add: manifest_envelope_def pl)
  have fmt: "env_format ?me = OBJECT_FORMAT_VERSION" "env_format ?ke = OBJECT_FORMAT_VERSION"
    by (simp_all add: manifest_envelope_def commit_env_def new_envelope_def)
  obtain u where u: "put c ?me s = (Ok (id_of c ?me), u)" "roomy F u" "content u ?pm = Some (encoded c ?me)"
    "\<And>q. q \<noteq> ?pm \<Longrightarrow> \<not> is_temp ''.tmp-'' q \<Longrightarrow> content u q = content s q"
    using put_roomy [OF assms(1-3) pm(1) fmt(1)] assms(9) unfolding slots_free_def by blast
  have "slot_free c u ?ke" using assms(9) u(4) [OF ne [symmetric] nt(2)] by (simp add: slots_free_def slot_free_def)
  then obtain t where t: "put c ?ke u = (Ok (id_of c ?ke), t)" "roomy F t" "content t ?pk = Some (encoded c ?ke)"
    "\<And>q. q \<noteq> ?pk \<Longrightarrow> \<not> is_temp ''.tmp-'' q \<Longrightarrow> content t q = content u q"
    using put_roomy [OF assms(1,2) u(2) pm(2) fmt(2)] by blast
  note kf = signed_commit_facts [where m = m and keypair = keypair, OF assms(1,5), folded k_def]
  have "validate_parents c parents s = (Ok (), s)"
    using validate_parents_no_faults assms(3,7) by (simp add: roomy_def)
  then have run: "store_signed_commit c parents m message author keypair s = (Ok (''cmt_'' @ drop 4 (id_of c ?ke)), t)"
    using pl(1) me u(1) t(1) kf by (simp add: store_signed_commit_def bind_io_run lift_io_def)
  have same: "content t q = content s q" if "q \<noteq> ?pm" "q \<noteq> ?pk" "\<not> is_temp ''.tmp-'' q" for q using that u(4) t(4) by simp
  have tm: "content t ?pm = Some (encoded c ?me)" using t(4) [OF ne nt(1)] u(3) by simp
  have sm: "stored c t (id_of c ?me) = Some ?me" and sk: "stored c t (id_of c ?ke) = Some ?ke"
    using stored_slot [OF assms(1)] tm t(3) by blast+
  have "commit_at c t (''cmt_'' @ drop 4 (id_of c ?ke)) = Some k"
    by (rule stored_commit_at [OF assms(1) sk]) (simp_all add: commit_env_def new_envelope_def kf(9) [unfolded commit_env_def new_envelope_def, simplified])
  moreover have "loaded_manifest c t (com_manifest k) = Some m"
    using sm kf(5) pl by (simp add: loaded_manifest_def me [symmetric]) (simp add: new_envelope_def)
  moreover have "content t q = content s q" if "\<not> object_or_temp q" for q
    using that same hex unfolding object_or_temp_def by metis
  moreover have "stored c t i = Some e" if st: "stored c s i = Some e" for i e
  proof -
    obtain p b where pb: "path_for i = Ok p" "content s p = Some b" "digest_hex c b = drop 4 i" "dec_envelope c b = Ok e"
      using st by (auto simp: stored_def split: result.splits option.splits if_splits)
    have "\<not> is_temp ''.tmp-'' p" using path_for_Ok [OF pb(1)] digest_path_not_temp [OF hex [of b]] pb(3) by simp
    moreover have "p = ?pm \<Longrightarrow> b = encoded c ?me" "p = ?pk \<Longrightarrow> b = encoded c ?ke"
      using pb(2) assms(9) by (simp_all add: slots_free_def slot_free_def)
    ultimately have "content t p = Some b" using same [of p] pb(2) tm t(3) by metis
    then show ?thesis using pb by (simp add: stored_def)
  qed
  ultimately show thesis using that run t(2) by blast
qed

lemma valid_apply_onto:
  assumes "valid_index ix" "valid_manifest base"
  shows "valid_manifest (apply_onto ix base)"
proof -
  have ins: "list_all P (bt_insert n v m)" if "P (n, v)" "list_all P m" for P and n :: string and v :: manifest_entry and m
    using that by (induction n v m rule: bt_insert.induct) auto
  have rem: "list_all P (bt_remove n m)" if "list_all P m" for P and n :: string and m :: "(string \<times> manifest_entry) list"
    using that by (induction n m rule: bt_remove.induct) auto
  have step: "valid_manifest (apply_change (n, ch) m)"
    if "valid_manifest m" "is_ok (parse_variable_name n)" "valid_change ch" for n ch m
    using that ins rem by (cases ch) (auto simp: valid_manifest_def apply_change_def manifest_inv_updates)
  have "list_all (\<lambda>(n, ch). is_ok (parse_variable_name n) \<and> valid_change ch) ix" using assms(1) by (simp add: valid_index_def)
  then show ?thesis using assms(2) step unfolding apply_onto_def by (induction ix arbitrary: base) auto
qed

lemma loaded_manifest_valid: "repo_codec_ok c \<Longrightarrow> loaded_manifest c s oid = Some m \<Longrightarrow> valid_manifest m"
  using codec_manifest(2) [of c]
  by (cases "stored c s oid"; cases "dec_manifest c (env_payload (the (stored c s oid)))")
     (auto simp: loaded_manifest_def split: if_splits)

text \<open>The branch moves and the index is cleared.\<close>

lemma advance_and_clear_ok:
  assumes "repo_codec_ok c" "layout F" "roomy F t" "ref_components Heads name \<in> F" "INDEX_FILE \<in> F"
    and "ref_path Heads name = Ok (ref_components Heads name)" "head_at t = Some (Branch name)" "index_at c t = Some ix" "ix \<noteq> bt_empty"
  obtains s' where "bind_io (advance_head_to k) (\<lambda>_. bind_io (clear_staging c) (\<lambda>_. return_io k)) t = (Ok k, s')" "roomy F s'"
    "content s' (ref_components Heads name) = Some (k @ [newline])" "index_at c s' = Some bt_empty"
    "\<And>q. q \<noteq> ref_components Heads name \<Longrightarrow> q \<noteq> INDEX_FILE \<Longrightarrow> \<not> is_temp ''.tmp-'' q \<Longrightarrow> content s' q = content t q"
proof -
  let ?R = "ref_components Heads name"
  have ft: "faults t = []" using assms(3) by (simp add: roomy_def)
  obtain u where u: "publish ''.tmp-'' ?R (k @ [newline]) t = (Ok (), u)" "roomy F u" "content u ?R = Some (k @ [newline])"
    "\<And>q. q \<noteq> ?R \<Longrightarrow> \<not> is_temp ''.tmp-'' q \<Longrightarrow> content u q = content t q"
    using publish_roomy [OF assms(2,3,4), of "''.tmp-''"] by blast
  have adv: "advance_head_to k t = (Ok (), u)"
    using read_head_no_faults [OF ft assms(7)] u(1) assms(6)
    by (simp add: advance_head_to_def write_ref_def write_ref_at_def write_atomically_def bind_io_run)
  have fu: "faults u = []" using u(2) by (simp add: roomy_def)
  obtain b where b: "content t INDEX_FILE = Some b" "is_utf8 b" "dec_index c b = Ok ix" using index_at_cases [OF assms(8,9)] by blast
  have "content u INDEX_FILE = Some b" using u(4) [of INDEX_FILE] b(1) ref_components_not_head(2) [of Heads name] by simp
  from index_at_content [OF this b(2,3)] have ld: "load_index c u = (Ok ix, u)" by (rule load_index_no_faults [OF fu])
  obtain e where e: "enc_index c bt_empty = Ok e" "is_utf8 e" "dec_index c e = Ok bt_empty"
    using codec_index(1) [OF assms(1), of bt_empty] by (auto simp: valid_index_def bt_empty_def)
  obtain s' where s': "publish ''.tmp-index-'' INDEX_FILE e u = (Ok (), s')" "roomy F s'" "content s' INDEX_FILE = Some e"
    "\<And>q. q \<noteq> INDEX_FILE \<Longrightarrow> \<not> is_temp ''.tmp-'' q \<Longrightarrow> content s' q = content u q"
    using publish_roomy [OF assms(2) u(2) assms(5), of "''.tmp-index-''"] by blast
  have "clear_staging c u = (Ok (), s')" using ld e(1) s'(1) by (simp add: clear_staging_def save_index_def bind_io_run)
  then have "bind_io (advance_head_to k) (\<lambda>_. bind_io (clear_staging c) (\<lambda>_. return_io k)) t = (Ok k, s')"
    using adv by (simp add: bind_io_run)
  moreover have "\<not> is_temp ''.tmp-'' ?R" using assms(2,4) by (auto simp: layout_def)
  then have "content s' ?R = Some (k @ [newline])" using s'(4) [of ?R] u(3) ref_components_not_head(2) [of Heads name] by simp
  ultimately show thesis
    using that s' u(4) index_at_content [OF s'(3) e(2,3)] by metis
qed

lemma find_commit_eq: "faults s = [] \<Longrightarrow> commit_at c s i = Some k \<Longrightarrow> find_commit c i s = (Ok k, s)"
  using find_commit_cases [of s c i] by fastforce

lemma read_ref_eq: "faults s = [] \<Longrightarrow> ref_path ns name = Ok (ref_components ns name) \<Longrightarrow> ref_at s ns name = Some k \<Longrightarrow> read_ref ns name s = (Ok (Some k), s)"
  using read_ref_no_faults [of s ns name "ref_components ns name"] by (auto simp: ref_at_def split: option.splits result.splits)

lemma tip_reads:
  assumes "faults s = []" "ref_path Heads name = Ok (ref_components Heads name)" "head_at s = Some (Branch name)"
    and "trimmed s (ref_components Heads name) = None \<and> parents = [] \<and> base = new_manifest
       \<or> (\<exists>k tip. parents = [k] \<and> ref_at s Heads name = Some k \<and> commit_at c s k = Some tip \<and> loaded_manifest c s (com_manifest tip) = Some base)"
  obtains head where "current_head s = (Ok head, s)" "parents = (case head of Some k \<Rightarrow> [k] | None \<Rightarrow> [])"
    "(case head of Some k \<Rightarrow> manifest_at c k | None \<Rightarrow> return_io new_manifest) s = (Ok base, s)"
proof -
  have cur: "current_head s = read_ref Heads name s" using read_head_no_faults [OF assms(1,3)] by (simp add: current_head_def bind_io_run)
  from assms(4) show thesis
  proof (elim disjE exE conjE)
    assume "trimmed s (ref_components Heads name) = None" "parents = []" "base = new_manifest"
    then show thesis
      using that [of None] cur read_ref_no_faults [OF assms(1,2)] by (simp add: return_io_def)
  next
    fix k tip
    assume k: "parents = [k]" "ref_at s Heads name = Some k" "commit_at c s k = Some tip" "loaded_manifest c s (com_manifest tip) = Some base"
    then show thesis
      using that [of "Some k"] cur read_ref_eq [OF assms(1,2) k(2)] find_commit_eq [OF assms(1) k(3)] load_manifest_no_faults [OF assms(1) k(4)]
      by (simp add: manifest_at_def bind_io_run)
  qed
qed

lemma commit_on_branch:
  fixes keypair
  assumes "repo_codec_ok c" "plain_branch name" "roomy (branch_files name) s" "valid_args [] message author"
    and "head_at s = Some (Branch name)" "index_at c s = Some ix" "ix \<noteq> bt_empty"
    and "trimmed s (ref_components Heads name) = None \<and> parents = [] \<and> base = new_manifest
       \<or> (\<exists>k tip. parents = [k] \<and> ref_at s Heads name = Some k \<and> commit_at c s k = Some tip \<and> loaded_manifest c s (com_manifest tip) = Some base)"
    and "slots_free c s (manifest_envelope c (apply_onto ix base))
           (commit_env c (signed_commit c parents (apply_onto ix base) message author keypair))"
  shows "\<exists>s' k' commit'. create_commit c message author keypair s = (Ok k', s')
     \<and> fst (current_head s') = Ok (Some k') \<and> fst (read_ref Heads name s') = Ok (Some k')
     \<and> fst (show_commit c k' s') = Ok (commit', apply_onto ix base)
     \<and> com_parents commit' = parents \<and> com_author commit' = author \<and> com_message commit' = message
     \<and> fst (load_index c s') = Ok bt_empty
     \<and> (\<forall>i old. fst (find_commit c i s) = Ok old \<longrightarrow> fst (find_commit c i s') = Ok old)"
proof -
  let ?F = "branch_files name" and ?R = "ref_components Heads name" and ?m = "apply_onto ix base"
  let ?k = "signed_commit c parents ?m message author keypair"
  let ?id = "''cmt_'' @ drop 4 (id_of c (commit_env c ?k))"
  have F: "layout ?F" "?R \<in> ?F" "INDEX_FILE \<in> ?F" "\<And>d. is_hex_of_len d 64 \<Longrightarrow> digest_path d \<in> ?F"
    using layout_branch [OF assms(2)] by (auto simp: branch_files_def)
  have f: "faults s = []" using assms(3) by (simp add: roomy_def)
  have path: "ref_path Heads name = Ok ?R" using assms(2) by (simp add: plain_branch_def)
  have Rt: "\<not> is_temp ''.tmp-'' ?R" using F(1,2) by (auto simp: layout_def)
  have ids: "list_all (\<lambda>p. is_ok (parse_commit_id p)) parents"
    using assms(8) commit_id_self by (auto simp: ref_at_def is_ok_iff split: option.splits result.splits)
  then have args: "valid_args parents message author" using assms(4) by (simp add: valid_args_def)
  have base: "valid_manifest base"
    using assms(8) loaded_manifest_valid [OF assms(1)] by auto
  obtain b where b: "content s INDEX_FILE = Some b" "is_utf8 b" "dec_index c b = Ok ix" using index_at_cases [OF assms(6,7)] by blast
  have m: "valid_manifest ?m" using valid_apply_onto [OF codec_index(2) [OF assms(1) b(3)] base] .
  have par: "\<forall>p \<in> set parents. commit_at c s p \<noteq> None" using assms(8) by auto
  obtain t where t: "store_signed_commit c parents ?m message author keypair s = (Ok ?id, t)" "roomy ?F t"
    "commit_at c t ?id = Some ?k" "loaded_manifest c t (com_manifest ?k) = Some ?m"
    "\<And>q. \<not> object_or_temp q \<Longrightarrow> content t q = content s q" "\<And>i e. stored c s i = Some e \<Longrightarrow> stored c t i = Some e"
    using store_signed_ok [OF assms(1) F(1) assms(3) F(4) args m par assms(9)] by blast
  note kf = signed_commit_facts [where m = ?m and keypair = keypair, OF assms(1) args]
  have head: "head_at t = Some (Branch name)" "index_at c t = Some ix"
    using t(5) [of HEAD_FILE] t(5) [of INDEX_FILE] assms(5) b ref_components_not_object(2,3) index_at_content [of t b c ix]
    by (auto simp: object_or_temp_def head_at_def trimmed_def)
  obtain s' where s': "bind_io (advance_head_to ?id) (\<lambda>_. bind_io (clear_staging c) (\<lambda>_. return_io ?id)) t = (Ok ?id, s')" "roomy ?F s'"
    "content s' ?R = Some (?id @ [newline])" "index_at c s' = Some bt_empty"
    "\<And>q. q \<noteq> ?R \<Longrightarrow> q \<noteq> INDEX_FILE \<Longrightarrow> \<not> is_temp ''.tmp-'' q \<Longrightarrow> content s' q = content t q"
    using advance_and_clear_ok [OF assms(1) F(1) t(2) F(2,3) path head assms(7)] by blast
  obtain head where h: "current_head s = (Ok head, s)" "parents = (case head of Some k \<Rightarrow> [k] | None \<Rightarrow> [])"
    "(case head of Some k \<Rightarrow> manifest_at c k | None \<Rightarrow> return_io new_manifest) s = (Ok base, s)"
    using tip_reads [OF f path assms(5,8)] by blast
  have run: "create_commit c message author keypair s = (Ok ?id, s')"
    using load_index_no_faults [OF f assms(6)] assms(7) h(1,3) t(1) s'(1)
    by (simp add: create_commit_def bind_io_run h(2) [symmetric])
  have f': "faults s' = []" using s'(2) by (simp add: roomy_def)
  have obj: "stored c s' = stored c t"
    by (rule stored_objects [OF assms(1)], rule s'(5)) (use ref_components_not_object(1,3) [symmetric] digest_path_not_temp in auto)
  have "parse_commit_id ?id = Ok ?id" unfolding drop_id_of by (rule parse_hex_id) (simp_all add: codec_facts(3) [OF assms(1)])
  then have tip: "ref_at s' Heads name = Some ?id" by (rule ref_at_written [OF _ s'(3)])
  have hd': "head_at s' = Some (Branch name)"
    using s'(5) [of HEAD_FILE] head(1) ref_components_not_head(1) [of Heads name] ref_components_not_head(3) by (auto simp: head_at_def trimmed_def)
  note rd = read_ref_eq [OF f' path tip]
  have "current_head s' = (Ok (Some ?id), s')"
    using read_head_no_faults [OF f' hd'] rd by (simp add: current_head_def bind_io_run)
  moreover have at: "commit_at c s' = commit_at c t" using obj by (simp add: commit_at_def fun_eq_iff)
  then have "show_commit c ?id s' = (Ok (?k, ?m), s')"
    using find_commit_eq [OF f', of c ?id ?k] t(3) load_manifest_no_faults [OF f', of c "com_manifest ?k" ?m] t(4) obj
    by (simp add: show_commit_def bind_io_run loaded_manifest_def return_io_def)
  moreover have "load_index c s' = (Ok bt_empty, s')" by (rule load_index_no_faults [OF f' s'(4)])
  moreover have "fst (find_commit c i s') = Ok old" if "fst (find_commit c i s) = Ok old" for i old
    using that find_commit_no_faults [OF f, of c i] find_commit_no_faults [OF f', of c i] t(6) obj
    by (auto simp: commit_at_def split: if_splits option.splits result.splits)
  ultimately show ?thesis using run rd kf(2-4) by auto
qed

text \<open>A run that starts from an empty directory.\<close>

lemma stage_ok:
  assumes "repo_codec_ok c" "layout F" "roomy F s" "INDEX_FILE \<in> F" "index_at c s = Some ix" "valid_index (stage_intent name ch ix)"
  obtains s' where "stage_change c name ch s = (Ok (), s')" "roomy F s'" "index_at c s' = Some (stage_intent name ch ix)"
    "\<And>q. q \<noteq> INDEX_FILE \<Longrightarrow> \<not> is_temp ''.tmp-'' q \<Longrightarrow> content s' q = content s q"
proof -
  obtain e where e: "enc_index c (stage_intent name ch ix) = Ok e" "is_utf8 e" "dec_index c e = Ok (stage_intent name ch ix)"
    using codec_index(1) [OF assms(1,6)] by blast
  obtain s' where s': "publish ''.tmp-index-'' INDEX_FILE e s = (Ok (), s')" "roomy F s'" "content s' INDEX_FILE = Some e"
    "\<And>q. q \<noteq> INDEX_FILE \<Longrightarrow> \<not> is_temp ''.tmp-'' q \<Longrightarrow> content s' q = content s q"
    using publish_roomy [OF assms(2-4), of "''.tmp-index-''"] by blast
  have "stage_change c name ch s = (Ok (), s')"
    using load_index_no_faults [of s c ix] assms(3,5) e(1) s'(1) by (simp add: stage_change_def save_index_def bind_io_run roomy_def)
  then show thesis using that s' index_at_content [OF s'(3) e(2,3)] by blast
qed

lemma main_branch: "plain_branch ''main''"
proof -
  have "is_ascii ''main''" by code_simp
  note any = any_char_ascii [OF this]
  have chars: "\<not> any_char (\<lambda>ch. is_whitespace_cp ch \<or> ch = 92 \<or> ch = 0) ''main''" "\<not> any_char is_forbidden_control_char ''main''"
    by (simp_all add: any is_whitespace_cp_def is_forbidden_control_char_def)
  have "\<not> starts_with ''/'' ''main''" "\<not> ends_with ''/'' ''main''" "\<not> contains_str ''//'' ''main''" "\<not> contains_str ''..'' ''main''"
    by code_simp+
  then have "parse_branch_ref ''main'' = Ok ''main''" using chars(2) by (simp add: parse_branch_ref_def)
  moreover have "ref_components Heads ''main'' = [''refs'', ''heads'', ''main'']" "split_on (CHR ''/'') ''main'' = [''main'']" by code_simp+
  ultimately show ?thesis
    using chars(1) by (simp add: plain_branch_def ref_path_def starts_with_iff append_eq_Cons_conv)
qed

definition staged_entry :: staged_change where
  "staged_entry = StagedSet (DynamicEntry ''db'')"

definition headed_fs :: fs where
  "headed_fs = snd (repo_call_io sample_repo_codec (RefCall (WriteHead (Branch ''main''))) empty_fs)"

definition staged_fs :: fs where
  "staged_fs = snd (repo_call_io sample_repo_codec (StageChange ''KEY'' staged_entry) headed_fs)"

definition committed_fs :: fs where
  "committed_fs = snd (repo_call_io sample_repo_codec (CreateCommit ''first'' ''alice'' ''key'') staged_fs)"

lemma staged_facts:
  "roomy (branch_files ''main'') staged_fs" "head_at staged_fs = Some (Branch ''main'')"
  "index_at sample_repo_codec staged_fs = Some [(''KEY'', staged_entry)]"
  "\<And>q. q \<noteq> HEAD_FILE \<Longrightarrow> q \<noteq> INDEX_FILE \<Longrightarrow> \<not> is_temp ''.tmp-'' q \<Longrightarrow> content staged_fs q = None"
  "\<And>q. q \<noteq> HEAD_FILE \<Longrightarrow> \<not> is_temp ''.tmp-'' q \<Longrightarrow> content headed_fs q = None"
proof -
  let ?F = "branch_files ''main''" and ?c = sample_repo_codec
  note lay = layout_branch [OF main_branch]
  have F: "HEAD_FILE \<in> ?F" "INDEX_FILE \<in> ?F" by (simp_all add: branch_files_def)
  have "roomy ?F empty_fs" by (simp add: roomy_def writable_def is_dir_node_def) (simp add: empty_fs_def bt_empty_def)
  then obtain s where s: "publish ''.tmp-'' HEAD_FILE (encode_head (Branch ''main'') @ [newline]) empty_fs = (Ok (), s)" "roomy ?F s"
    "content s HEAD_FILE = Some (encode_head (Branch ''main'') @ [newline])" "\<And>q. q \<noteq> HEAD_FILE \<Longrightarrow> \<not> is_temp ''.tmp-'' q \<Longrightarrow> content s q = None"
    using publish_roomy [OF lay _ F(1), where prefix = "''.tmp-''" and s = empty_fs] by auto
  have h: "headed_fs = s" using s(1) by (simp add: headed_fs_def write_head_def write_atomically_def)
  then show "\<And>q. q \<noteq> HEAD_FILE \<Longrightarrow> \<not> is_temp ''.tmp-'' q \<Longrightarrow> content headed_fs q = None" using s(4) by simp
  have "is_ascii ''ref: heads/main''" by code_simp
  then have "trimmed s HEAD_FILE = Some ''ref: heads/main''"
    using s(3) trim_ascii_line [of "CHR ''r''" "''ef: heads/mai''" "CHR ''n''"] by (simp add: trimmed_def is_whitespace_cp_def)
  moreover have "decode_head ''ref: heads/main'' = Ok (Branch ''main'')"
    using main_branch by (auto simp: decode_head_def plain_branch_def ref_path_def is_err_def is_ok_iff split: if_splits)
  ultimately have head: "head_at s = Some (Branch ''main'')" by (simp add: head_at_def)
  have none: "content s INDEX_FILE = None" "\<not> is_dir_node s INDEX_FILE" using s(2,4) F(2) ref_components_not_head(3) by (auto simp: roomy_def writable_def)
  then have ix0: "index_at ?c s = Some bt_empty"
    by (auto simp: index_at_def content_def is_dir_node_def split: option.splits node.splits)
  have vi: "valid_index (stage_intent ''KEY'' staged_entry bt_empty)" by code_simp
  obtain u where u: "stage_change ?c ''KEY'' staged_entry s = (Ok (), u)" "roomy ?F u" "index_at ?c u = Some (stage_intent ''KEY'' staged_entry bt_empty)"
    "\<And>q. q \<noteq> INDEX_FILE \<Longrightarrow> \<not> is_temp ''.tmp-'' q \<Longrightarrow> content u q = content s q"
    using stage_ok [OF sample_repo_codec_ok lay s(2) F(2) ix0 vi] by blast
  have st: "staged_fs = u" using u(1) by (simp add: staged_fs_def h)
  then show "roomy ?F staged_fs" using u(2) by simp
  show "index_at ?c staged_fs = Some [(''KEY'', staged_entry)]" using u(3) st by (simp add: stage_intent_def bt_empty_def)
  show "head_at staged_fs = Some (Branch ''main'')"
    using head u(4) [of HEAD_FILE] st ref_components_not_head(3) by (simp add: head_at_def trimmed_def)
  show "\<And>q. q \<noteq> HEAD_FILE \<Longrightarrow> q \<noteq> INDEX_FILE \<Longrightarrow> \<not> is_temp ''.tmp-'' q \<Longrightarrow> content staged_fs q = None" using u(4) s(4) st by simp
qed

lemma staged_commit_args:
  defines "c \<equiv> sample_repo_codec"
  shows "valid_args [] ''first'' ''alice''" "trimmed staged_fs (ref_components Heads ''main'') = None" "[(''KEY'', staged_entry)] \<noteq> bt_empty"
    "slots_free c staged_fs (manifest_envelope c (apply_onto [(''KEY'', staged_entry)] new_manifest))
       (commit_env c (signed_commit c [] (apply_onto [(''KEY'', staged_entry)] new_manifest) ''first'' ''alice'' ''key''))"
proof -
  let ?m = "apply_onto [(''KEY'', staged_entry)] new_manifest"
  let ?k = "signed_commit c [] ?m ''first'' ''alice'' ''key''"
  have c: "repo_codec_ok c" unfolding c_def by (rule sample_repo_codec_ok)
  have none: "content staged_fs (digest_path (digest_hex c b)) = None" for b
    by (rule staged_facts(4)) (simp_all add: ref_components_not_object [symmetric] digest_path_not_temp codec_facts(3) [OF c])
  have "digest_hex c (encoded c (manifest_envelope c ?m)) = replicate 64 (CHR ''b'')"
    "digest_hex c (encoded c (commit_env c ?k)) = replicate 64 (CHR ''c'')"
    by (simp_all add: c_def encoded_def sample_repo_codec_def manifest_envelope_def commit_env_def new_envelope_def is_hex_of_len_def)
  then have "digest_hex c (encoded c (manifest_envelope c ?m)) \<noteq> digest_hex c (encoded c (commit_env c ?k))" by simp
  then show "slots_free c staged_fs (manifest_envelope c ?m) (commit_env c ?k)"
    by (simp add: slots_free_def slot_free_def none)
  show "valid_args [] ''first'' ''alice''"
    using sample_commit_valid by (simp add: valid_args_def valid_commit_def sample_commit_def new_commit_def)
  have "\<not> is_temp ''.tmp-'' (ref_components Heads ''main'')"
    using layout_branch [OF main_branch] by (simp add: layout_def branch_files_def)
  then have "content staged_fs (ref_components Heads ''main'') = None"
    by (intro staged_facts(4)) (simp_all add: ref_components_not_head)
  then show "trimmed staged_fs (ref_components Heads ''main'') = None" by (simp add: trimmed_def)
  show "[(''KEY'', staged_entry)] \<noteq> bt_empty" by (simp add: bt_empty_def)
qed

lemma reach_call:
  assumes "repo_reachable c s" "call_ok c s call" "\<And>d. is_hex_of_len d 64 \<Longrightarrow> content s (digest_path d) = None"
  shows "repo_reachable c (snd (repo_call_io c call s))"
  by (rule repo_reachable.call [OF assms(1,2), of "nanos s" "process_id s" "faults s" "fst (repo_call_io c call s)"])
     (use assms(3) in \<open>auto simp: no_collision_def\<close>)

text \<open>A failed read of \<open>HEAD\<close> looks like a repository without commits: the next commit is then built without a parent.\<close>

lemma failed_head_read:
  assumes "faults s = Some (n, e) # fs"
  shows "current_head s = (Ok None, s\<lparr>faults := fs\<rparr>)"
proof -
  have "read_to_string HEAD_FILE s = (Err (RepoIo e), s\<lparr>faults := fs\<rparr>)"
    using assms by (simp add: read_to_string_def read_file_def perform_def next_fault_def bind_io_run)
  then have "read_trimmed HEAD_FILE s = (Ok None, s\<lparr>faults := fs\<rparr>)"
    by (simp add: read_trimmed_def bind_ok_io return_io_def)
  then show ?thesis by (simp add: current_head_def read_head_def bind_io_def return_io_def)
qed

section \<open>Properties\<close>





end
