(* ===== verification/Merge_Base.thy ===== *)
theory Merge_Base
  imports Repository
begin

text \<open>
  \<open>merge_base\<close> of \<open>repo.rs\<close>: breadth-first search over the parent graph, strict on the first side and tolerant on the
  second.  The loops end because a commit that loads has an identifier of 68 characters and is expanded once.
\<close>

section \<open>The search\<close>

lemma found_length: "find_commit c i s = (Ok k, s') \<Longrightarrow> length i = 68"
proof -
  assume "find_commit c i s = (Ok k, s')"
  then have "commit_at c s i = Some k" using find_commit_sound by blast
  then obtain e where "stored c s (''obj_'' @ drop 4 i) = Some e"
    by (auto simp: commit_at_def split: if_splits option.splits)
  then obtain p where p: "path_for (''obj_'' @ drop 4 i) = Ok p" by (auto simp: stored_def split: result.splits)
  have "length (drop 4 i) = 64"
    using p by (auto simp: path_for_def split: option.splits if_splits)
  then show ?thesis by simp
qed

lemma finite_ids: "finite {i :: string. length i = n}"
proof -
  have "finite {i :: string. set i \<subseteq> UNIV \<and> length i = n}" by (rule finite_lists_length_eq) (rule finite)
  then show ?thesis by simp
qed

definition unvisited :: "commit_id list \<Rightarrow> nat" where
  "unvisited visited = card ({i. length i = 68} - set visited)"

lemma unvisited_less: "length i = 68 \<Longrightarrow> i \<notin> set visited \<Longrightarrow> unvisited (i # visited) < unvisited visited"
  unfolding unvisited_def by (rule psubset_card_mono) (auto simp: finite_ids)

lemma unvisited_le: "unvisited (i # visited) \<le> unvisited visited"
  unfolding unvisited_def by (rule card_mono) (auto simp: finite_ids)

function ancestors_loop :: "repo_codec \<Rightarrow> commit_id list \<Rightarrow> commit_id list \<Rightarrow> commit_id list io" where
  "ancestors_loop c seen queue s =
     (case queue of
        [] \<Rightarrow> (Ok seen, s)
      | id' # rest \<Rightarrow>
          if id' \<in> set seen then ancestors_loop c seen rest s
          else (case find_commit c id' s of
              (Err e, s') \<Rightarrow> (Err e, s')
            | (Ok k, s') \<Rightarrow> ancestors_loop c (id' # seen) (rest @ com_parents k) s'))"
  by pat_completeness auto

termination ancestors_loop
proof (relation "measures [\<lambda>(c, seen, queue, s). unvisited seen, \<lambda>(c, seen, queue, s). length queue]")
  show "((c, id' # seen, rest @ com_parents k, s'), c, seen, queue, s)
      \<in> measures [\<lambda>(c, seen, queue, s). unvisited seen, \<lambda>(c, seen, queue, s). length queue]"
    if "queue = id' # rest" "id' \<notin> set seen" "(a, s') = find_commit c id' s" "a = Ok k" for c seen queue s id' rest a s' k
    using unvisited_less [OF found_length] that by (metis (mono_tags, lifting) case_prod_conv in_measures(2))
qed simp_all

function meet_loop :: "repo_codec \<Rightarrow> commit_id list \<Rightarrow> commit_id list \<Rightarrow> commit_id list \<Rightarrow> commit_id option io" where
  "meet_loop c ancestors seen queue s =
     (case queue of
        [] \<Rightarrow> (Ok None, s)
      | id' # rest \<Rightarrow>
          if id' \<in> set seen then meet_loop c ancestors seen rest s
          else if id' \<in> set ancestors then (Ok (Some id'), s)
          else (case find_commit c id' s of
              (Err _, s') \<Rightarrow> meet_loop c ancestors (id' # seen) rest s'
            | (Ok k, s') \<Rightarrow> meet_loop c ancestors (id' # seen) (rest @ com_parents k) s'))"
  by pat_completeness auto

termination meet_loop
proof (relation "measures [\<lambda>(c, ancestors, seen, queue, s). unvisited seen, \<lambda>(c, ancestors, seen, queue, s). length queue]")
  show "((c, ancestors, id' # seen, rest @ com_parents k, s'), c, ancestors, seen, queue, s)
      \<in> measures [\<lambda>(c, ancestors, seen, queue, s). unvisited seen, \<lambda>(c, ancestors, seen, queue, s). length queue]"
    if "queue = id' # rest" "id' \<notin> set seen" "(a, s') = find_commit c id' s" "a = Ok k" for c ancestors seen queue s id' rest a s' k
    using unvisited_less [OF found_length] that by (metis (mono_tags, lifting) case_prod_conv in_measures(2))
  show "((c, ancestors, id' # seen, rest, s'), c, ancestors, seen, queue, s)
      \<in> measures [\<lambda>(c, ancestors, seen, queue, s). unvisited seen, \<lambda>(c, ancestors, seen, queue, s). length queue]"
    if "queue = id' # rest" for c ancestors seen queue s id' rest s'
    using unvisited_le [of id' seen] that by auto
qed simp_all

declare ancestors_loop.simps [simp del] meet_loop.simps [simp del]

definition merge_base :: "repo_codec \<Rightarrow> commit_id \<Rightarrow> commit_id \<Rightarrow> commit_id option io" where
  "merge_base c a b =
     bind_io (ancestors_loop c [] [a]) (\<lambda>ancestors_of_a. meet_loop c ancestors_of_a [] [b])"

section \<open>Reference definitions\<close>

definition parent_rel :: "repo_codec \<Rightarrow> fs \<Rightarrow> (commit_id \<times> commit_id) set" where
  "parent_rel c s = {(i, p). \<exists>k. commit_at c s i = Some k \<and> p \<in> set (com_parents k)}"

section \<open>Lemmas\<close>

lemma closed_reach:
  assumes "a \<in> S" "\<And>x y. x \<in> S \<Longrightarrow> (x, y) \<in> R \<Longrightarrow> y \<in> S" "(a, x) \<in> R\<^sup>*"
  shows "x \<in> S"
  using assms(3) by (induction rule: rtrancl_induct) (use assms(1,2) in blast)+

lemma parent_rel_None: "commit_at c s i = None \<Longrightarrow> (i, p) \<notin> parent_rel c s"
  by (simp add: parent_rel_def)

lemma parent_rel_Some: "commit_at c s i = Some k \<Longrightarrow> (i, p) \<in> parent_rel c s \<longleftrightarrow> p \<in> set (com_parents k)"
  by (simp add: parent_rel_def)

lemma ancestors_loop_spec:
  assumes "faults s = []" "a \<in> set seen \<union> set queue" "set seen \<union> set queue \<subseteq> {x. (a, x) \<in> (parent_rel c s)\<^sup>*}"
    and "\<And>x y. x \<in> set seen \<Longrightarrow> (x, y) \<in> parent_rel c s \<Longrightarrow> y \<in> set seen \<union> set queue"
  shows "snd (ancestors_loop c seen queue s) = s \<and>
    (case fst (ancestors_loop c seen queue s) of
       Ok anc \<Rightarrow> set anc = {x. (a, x) \<in> (parent_rel c s)\<^sup>*}
     | Err _ \<Rightarrow> (\<exists>x. (a, x) \<in> (parent_rel c s)\<^sup>* \<and> commit_at c s x = None))"
  using assms
proof (induction c seen queue s rule: ancestors_loop.induct)
  case (1 c seen queue s)
  let ?R = "parent_rel c s"
  show ?case
  proof (cases queue)
    case Nil
    then have "{x. (a, x) \<in> ?R\<^sup>*} \<subseteq> set seen" using "1.prems"(2,4) closed_reach [of a "set seen" ?R] by auto
    then show ?thesis using Nil "1.prems"(3) by (auto simp: ancestors_loop.simps)
  next
    case (Cons i rest)
    show ?thesis
    proof (cases "i \<in> set seen")
      case True
      then have eq: "ancestors_loop c seen queue s = ancestors_loop c seen rest s" using Cons by (subst ancestors_loop.simps) simp
      show ?thesis unfolding eq by (rule "1.IH"(1) [OF Cons True]) (use "1.prems" Cons True in auto)
    next
      case False
      have reach: "(a, i) \<in> ?R\<^sup>*" using "1.prems"(3) Cons by auto
      show ?thesis
      proof (cases rule: find_commit_cases [OF "1.prems"(1), of c i])
        case (1 k)
        then have eq: "ancestors_loop c seen queue s = ancestors_loop c (i # seen) (rest @ com_parents k) s"
          using Cons False by (subst ancestors_loop.simps) simp
        have next_reach: "p \<in> set (com_parents k) \<Longrightarrow> (a, p) \<in> ?R\<^sup>*" for p
          using reach parent_rel_Some [OF 1(1), of p] by (meson rtrancl.rtrancl_into_rtrancl)
        show ?thesis unfolding eq
          by (rule "1.IH"(2) [OF Cons False 1(2) [symmetric] HOL.refl])
             (use "1.prems" Cons reach next_reach parent_rel_Some [OF 1(1)] in auto)
      next
        case (2 e)
        then have "ancestors_loop c seen queue s = (Err e, s)" using Cons False by (subst ancestors_loop.simps) simp
        then show ?thesis using reach 2(1) by auto
      qed
    qed
  qed
qed

text \<open>
  The invariant of the second search: what is queued has distance \<open>n\<close> and then \<open>n + 1\<close> from the start, everything
  nearer was visited, and nothing visited is an ancestor of the other side.
\<close>

definition bfs_inv ::
  "(commit_id \<times> commit_id) set \<Rightarrow> commit_id \<Rightarrow> commit_id set \<Rightarrow> commit_id list \<Rightarrow> commit_id list \<Rightarrow> commit_id list \<Rightarrow> nat \<Rightarrow> bool" where
  "bfs_inv R b A seen q1 q2 n \<longleftrightarrow>
     (\<forall>x \<in> set q1. (b, x) \<in> R ^^ n) \<and> (\<forall>x \<in> set q2. (b, x) \<in> R ^^ Suc n) \<and> set seen \<inter> A = {}
     \<and> (\<forall>m y. m < n \<and> (b, y) \<in> R ^^ m \<longrightarrow> y \<in> set seen) \<and> (\<forall>y. (b, y) \<in> R ^^ n \<longrightarrow> y \<in> set seen \<union> set q1)
     \<and> (\<forall>x y. x \<in> set seen \<and> (x, y) \<in> R \<longrightarrow> y \<in> set seen \<union> set q1 \<union> set q2)"

lemma bfs_shift:
  assumes "bfs_inv R b A seen [] q2 n"
  shows "bfs_inv R b A seen q2 [] (Suc n)"
proof -
  have "y \<in> set seen \<union> set q2" if "(b, y) \<in> R ^^ Suc n" for y
  proof -
    obtain x where x: "(b, x) \<in> R ^^ n" "(x, y) \<in> R" using \<open>(b, y) \<in> R ^^ Suc n\<close> by auto
    then have "x \<in> set seen" using assms unfolding bfs_inv_def by auto
    then show ?thesis using assms x(2) unfolding bfs_inv_def by auto
  qed
  then show ?thesis using assms unfolding bfs_inv_def by (auto simp: less_Suc_eq)
qed

lemma bfs_start: "bfs_inv R b A [] [b] [] 0"
  by (auto simp: bfs_inv_def)

lemma bfs_skip: "bfs_inv R b A seen (i # q1) q2 n \<Longrightarrow> i \<in> set seen \<Longrightarrow> bfs_inv R b A seen q1 q2 n"
  unfolding bfs_inv_def by auto

lemma bfs_expand:
  assumes "bfs_inv R b A seen (i # q1) q2 n" "i \<notin> A" "\<And>p. (i, p) \<in> R \<longleftrightarrow> p \<in> set ps"
  shows "bfs_inv R b A (i # seen) q1 (q2 @ ps) n"
proof -
  have "(b, p) \<in> R ^^ Suc n" if "p \<in> set ps" for p using that assms(1,3) unfolding bfs_inv_def by auto
  then show ?thesis using assms unfolding bfs_inv_def by auto
qed

lemma bfs_done:
  assumes "bfs_inv R b A seen [] [] n" "(b, y) \<in> R\<^sup>*"
  shows "y \<notin> A"
proof -
  obtain m where m: "(b, y) \<in> R ^^ m" using assms(2) by (auto simp: rtrancl_power)
  have "(b, b) \<in> R ^^ 0" by simp
  then have "b \<in> set seen" using assms(1) unfolding bfs_inv_def by (cases n) (simp, blast)
  then have "y \<in> set seen" using closed_reach [of b "set seen" R y] assms unfolding bfs_inv_def by auto
  then show ?thesis using assms(1) unfolding bfs_inv_def by auto
qed

lemma meet_loop_spec:
  assumes "faults s = []" "queue = q1 @ q2" "bfs_inv (parent_rel c s) b (set anc) seen q1 q2 n"
  shows "snd (meet_loop c anc seen queue s) = s \<and>
    (case fst (meet_loop c anc seen queue s) of
       Ok (Some x) \<Rightarrow> x \<in> set anc \<and> (\<exists>n. (b, x) \<in> parent_rel c s ^^ n \<and> (\<forall>m y. m < n \<and> (b, y) \<in> parent_rel c s ^^ m \<longrightarrow> y \<notin> set anc))
     | Ok None \<Rightarrow> (\<forall>y. (b, y) \<in> (parent_rel c s)\<^sup>* \<longrightarrow> y \<notin> set anc)
     | Err _ \<Rightarrow> False)"
  using assms
proof (induction c anc seen queue s arbitrary: q1 q2 n rule: meet_loop.induct)
  case (1 c anc seen queue s)
  let ?R = "parent_rel c s"
  show ?case
  proof (cases queue)
    case Nil
    then show ?thesis using "1.prems"(2,3) bfs_done [of ?R b "set anc" seen n] by (simp add: meet_loop.simps)
  next
    case (Cons i rest)
    obtain r1 r2 n' where inv: "rest = r1 @ r2" "bfs_inv ?R b (set anc) seen (i # r1) r2 n'"
    proof (cases q1)
      case Nil
      then have "bfs_inv ?R b (set anc) seen (i # rest) [] (Suc n)"
        using "1.prems"(2,3) Cons bfs_shift [of ?R b "set anc" seen q2 n] by simp
      then show thesis using that [of rest "[]"] by simp
    next
      case (Cons j q1')
      then show thesis using "1.prems"(2,3) \<open>queue = i # rest\<close> that [of q1' q2 n] by simp
    qed
    show ?thesis
    proof (cases "i \<in> set seen")
      case True
      then have eq: "meet_loop c anc seen queue s = meet_loop c anc seen rest s" using Cons by (subst meet_loop.simps) simp
      show ?thesis unfolding eq by (rule "1.IH"(1) [OF Cons True "1.prems"(1) inv(1) bfs_skip [OF inv(2) True]])
    next
      case new: False
      show ?thesis
      proof (cases "i \<in> set anc")
        case True
        then have "meet_loop c anc seen queue s = (Ok (Some i), s)" using Cons new by (subst meet_loop.simps) simp
        moreover have "(b, i) \<in> ?R ^^ n'" "\<forall>m y. m < n' \<and> (b, y) \<in> ?R ^^ m \<longrightarrow> y \<notin> set anc"
          using inv(2) unfolding bfs_inv_def by (simp, blast)
        ultimately show ?thesis using True by auto
      next
        case False
        show ?thesis
        proof (cases rule: find_commit_cases [OF "1.prems"(1), of c i])
          case (1 k)
          then have eq: "meet_loop c anc seen queue s = meet_loop c anc (i # seen) (rest @ com_parents k) s"
            using Cons new False by (subst meet_loop.simps) simp
          show ?thesis unfolding eq
            by (rule "1.IH"(2) [OF Cons new False 1(2) [symmetric] HOL.refl "1.prems"(1), of r1 "r2 @ com_parents k" n'])
               (use inv(1) bfs_expand [OF inv(2) False] parent_rel_Some [OF 1(1)] in auto)
        next
          case (2 e)
          then have eq: "meet_loop c anc seen queue s = meet_loop c anc (i # seen) rest s"
            using Cons new False by (subst meet_loop.simps) simp
          show ?thesis unfolding eq
            by (rule "1.IH"(3) [OF Cons new False 2(2) [symmetric] HOL.refl "1.prems"(1), of r1 r2 n'])
               (use inv(1) bfs_expand [OF inv(2) False, of "[]"] parent_rel_None [OF 2(1)] in auto)
        qed
      qed
    qed
  qed
qed

section \<open>Properties\<close>

text \<open>
  C33. \<open>merge_base\<close> is exact and always returns.  Without I/O failures, a result is a common ancestor of both commits and no
  common ancestor is nearer to the second one; the answer that there is none is given exactly when the histories share no
  commit; and an error means that some ancestor of the first commit does not load.
\<close>

theorem merge_base_exact:
  assumes "faults s = []"
  shows "case fst (merge_base c a b s) of
       Ok (Some x) \<Rightarrow> (a, x) \<in> (parent_rel c s)\<^sup>*
         \<and> (\<exists>n. (b, x) \<in> parent_rel c s ^^ n \<and> (\<forall>m y. m < n \<and> (b, y) \<in> parent_rel c s ^^ m \<longrightarrow> (a, y) \<notin> (parent_rel c s)\<^sup>*))
     | Ok None \<Rightarrow> \<not> (\<exists>y. (a, y) \<in> (parent_rel c s)\<^sup>* \<and> (b, y) \<in> (parent_rel c s)\<^sup>*)
     | Err _ \<Rightarrow> \<exists>x. (a, x) \<in> (parent_rel c s)\<^sup>* \<and> commit_at c s x = None"
proof -
  obtain r where anc: "ancestors_loop c [] [a] s = (r, s)"
    and spec: "case r of Ok anc \<Rightarrow> set anc = {x. (a, x) \<in> (parent_rel c s)\<^sup>*} | Err _ \<Rightarrow> (\<exists>x. (a, x) \<in> (parent_rel c s)\<^sup>* \<and> commit_at c s x = None)"
    using ancestors_loop_spec [OF assms, of a "[]" "[a]" c] by (cases "ancestors_loop c [] [a] s") auto
  show ?thesis
  proof (cases r)
    case (Ok xs)
    then have xs: "y \<in> set xs \<longleftrightarrow> (a, y) \<in> (parent_rel c s)\<^sup>*" for y using spec by auto
    have "merge_base c a b s = meet_loop c xs [] [b] s" using anc Ok by (simp add: merge_base_def bind_io_run)
    then show ?thesis
      using meet_loop_spec [OF assms _ bfs_start, of "[b]" b c xs] by (auto simp: xs split: result.splits option.splits)
  next
    case (Err e)
    then show ?thesis using anc spec by (simp add: merge_base_def bind_io_run)
  qed
qed

theorem merge_base_exact_witness:
  "\<exists>s i. commit_at sample_repo_codec s i = Some sample_commit \<and> fst (merge_base sample_repo_codec i i s) = Ok (Some i)"
proof -
  obtain s i where s: "faults s = []" "commit_at sample_repo_codec s i = Some sample_commit" using sample_history by metis
  let ?R = "parent_rel sample_repo_codec s"
  have "(i, y) \<notin> ?R" for y using parent_rel_Some [OF s(2)] by (simp add: sample_commit_def new_commit_def)
  then have alone: "(i, x) \<in> ?R\<^sup>* \<longleftrightarrow> x = i" for x by (auto elim: converse_rtranclE)
  have "fst (merge_base sample_repo_codec i i s) = Ok (Some i)"
    using merge_base_exact [OF s(1), where c = sample_repo_codec and a = i and b = i] s(2)
    by (auto simp: alone split: result.splits option.splits)
  then show ?thesis using s(2) by blast
qed

end
