(* ===== verification/Policy_Packs.thy ===== *)
theory Policy_Packs
  imports Policy_Engine Injection
begin

text \<open>
  \<open>vaultx-policy-packs\<close>: declarative capability packs (\<open>schema.rs\<close>), their compilation to policy documents
  (\<open>compiler.rs\<close>) and the loading of a directory of them (\<open>loader.rs\<close>).

  The reasons inside an error are constructors of \<open>pack_reason\<close>.  YAML decoding is the parameter \<open>from_yaml\<close>;
  serde's \<open>deny_unknown_fields\<close> is part of it.  A directory tree is a value of \<open>pack_node\<close>, in which every
  call of \<open>std::fs\<close> on a node has its recorded outcome.
\<close>

section \<open>Data\<close>

datatype pack_reason =
    MustBeFormat u16
  | MustNotBeEmptyR
  | AtMostBytes nat
  | NotDottedSegments string
  | NeedsOneHost | NeedsOneMethod | NeedsOnePath
  | NotBareQueryKey string
  | NotVariableName string
  | MustExceedZero
  | NotMediaType string
  | NotLowercaseHeader string
  | NotBareObjectKey string
  | MustStartWithSlash string
  | MixedPlaceholder string string
  | BadPlaceholder string string
  | StrayBrace string
  | PatternRefused string policy_error
  | NoPolicyName string

datatype host_reason =
    MetadataEndpoint | HostLength | HostCharset | SingleLabel | BadLabel | LoopbackName
  | PrivateSuffix | LiteralIp | HexQuad

datatype pack_error =
    PackParse string
  | PackInvalidField string pack_reason
  | UnsupportedInjection string
  | ForbiddenHost string host_reason
  | LimitTooLarge string u64 u64
  | UndeclaredPlaceholder string string
  | DuplicateCapability string
  | AmbiguousCapabilityName string
  | PackFileError "string list" pack_error
  | PackIo string

record pack_request_template =
  rt_hosts :: "string list"
  rt_methods :: "http_method list"
  rt_paths :: "string list"
  rt_query_allowlist :: "string list option"
  rt_variables :: "(string, string) bt_map option"

record pack_credential_binding =
  cb_credential_ref :: credential_ref
  cb_injection :: injection_template_id

record pack_constraints =
  pc_max_body_bytes :: "u64 option"
  pc_content_types :: "string list option"

record pack_response_rules =
  pr_max_body_bytes :: "u64 option"
  pr_redact_headers :: "string list"
  pr_redact_fields :: "string list"

record policy_pack =
  pack_format :: u16
  pack_name :: string
  pack_provider :: string
  pack_request :: pack_request_template
  pack_credential :: pack_credential_binding
  pack_constraints :: pack_constraints
  pack_response :: "pack_response_rules option"

definition PACK_FORMAT_VERSION :: u16 where
  "PACK_FORMAT_VERSION = 1"

definition MAX_REQUEST_BODY_BYTES_CAP :: u64 where
  "MAX_REQUEST_BODY_BYTES_CAP = 256 * 1024"

definition MAX_RESPONSE_BODY_BYTES_CAP :: u64 where
  "MAX_RESPONSE_BODY_BYTES_CAP = 1024 * 1024"

definition FORCED_REDACT_HEADER :: string where
  "FORCED_REDACT_HEADER = ''set-cookie''"

definition CAPABILITY_MAX_LEN :: nat where
  "CAPABILITY_MAX_LEN = 120"

definition METADATA_IPV4_HOST :: string where
  "METADATA_IPV4_HOST = ''169.254.169.254''"

definition METADATA_IPV6_HOST :: string where
  "METADATA_IPV6_HOST = ''fd00:ec2::254''"

section \<open>Validation\<close>

definition parse_injection_template :: "string \<Rightarrow> injection_template_id option" where
  "parse_injection_template raw =
     (if raw = ''bearer'' then Some Bearer
      else if raw = ''basic-password'' \<or> raw = ''basic_password'' then Some BasicPassword
      else if raw = ''api-key-header'' \<or> raw = ''api_key_header'' then Some ApiKeyHeader
      else if raw = ''github-bearer'' \<or> raw = ''github_bearer'' then Some GithubBearer
      else if raw = ''query-parameter'' \<or> raw = ''query_parameter'' then Some QueryParameter
      else if raw = ''aws-sigv4'' \<or> raw = ''aws_sigv4'' then Some AwsSigv4
      else if raw = ''custom-static-header-plus-secret'' \<or> raw = ''custom_static_header_plus_secret''
      then Some CustomStaticHeaderPlusSecret
      else None)"

definition validate_format :: "policy_pack \<Rightarrow> (unit, pack_error) result" where
  "validate_format p =
     (if pack_format p = PACK_FORMAT_VERSION then Ok ()
      else Err (PackInvalidField ''format'' (MustBeFormat (pack_format p))))"

definition is_name_segment :: "string \<Rightarrow> bool" where
  "is_name_segment segment \<longleftrightarrow>
     \<not> (segment = []
        \<or> \<not> list_all (\<lambda>c. is_ascii_lowercase c \<or> is_ascii_digit c \<or> c = CHR ''-'' \<or> c = CHR ''_'') segment
        \<or> starts_with ''-'' segment
        \<or> ends_with ''-'' segment)"

definition validate_name :: "policy_pack \<Rightarrow> (unit, pack_error) result" where
  "validate_name p =
     (let invalid = PackInvalidField ''name''
      in if pack_name p = [] then Err (invalid MustNotBeEmptyR)
         else if CAPABILITY_MAX_LEN < length (pack_name p) then Err (invalid (AtMostBytes CAPABILITY_MAX_LEN))
         else try_each (\<lambda>segment. if is_name_segment segment then Ok ()
                                  else Err (invalid (NotDottedSegments (pack_name p))))
                (split_on (CHR ''.'') (pack_name p)))"

definition validate_size_limit :: "string \<Rightarrow> u64 option \<Rightarrow> u64 \<Rightarrow> (unit, pack_error) result" where
  "validate_size_limit field value mx =
     (case value of
        None \<Rightarrow> Ok ()
      | Some v \<Rightarrow>
          if v = 0 then Err (PackInvalidField field MustExceedZero)
          else if mx < v then Err (LimitTooLarge field v mx)
          else Ok ())"

definition is_redactable_header :: "string \<Rightarrow> bool" where
  "is_redactable_header name \<longleftrightarrow>
     name \<noteq> [] \<and> list_all (\<lambda>c. is_ascii_lowercase c \<or> is_ascii_digit c \<or> c = CHR ''-'') name"

definition is_placeholder_charset :: "string \<Rightarrow> bool" where
  "is_placeholder_charset value \<longleftrightarrow>
     value \<noteq> [] \<and> list_all (\<lambda>c. is_ascii_alphanumeric c \<or> c = CHR ''_'' \<or> c = CHR ''-'') value"

definition validate_query_key :: "string \<Rightarrow> (unit, pack_error) result" where
  "validate_query_key key =
     (if key = [] \<or> CHR ''='' \<in> set key \<or> any_char (\<lambda>c. is_whitespace_cp c \<or> is_control_cp c) key
      then Err (PackInvalidField ''request.query_allowlist'' (NotBareQueryKey key))
      else Ok ())"

definition is_ascii_graphic :: "char \<Rightarrow> bool" where
  "is_ascii_graphic c \<longleftrightarrow> 33 \<le> byte_of c \<and> byte_of c \<le> 126"

definition validate_content_type :: "string \<Rightarrow> (unit, pack_error) result" where
  "validate_content_type ct =
     (let invalid = Err (PackInvalidField ''constraints.content_types'' (NotMediaType ct));
          ok_part = (\<lambda>part. part \<noteq> [] \<and> list_all is_ascii_graphic part)
      in case split_once ''/'' ct of
           None \<Rightarrow> invalid
         | Some (main, sub) \<Rightarrow>
             if \<not> ok_part main \<or> \<not> ok_part sub \<or> CHR ''/'' \<in> set main then invalid else Ok ())"

text \<open>The loop over the segments after the first; it returns the placeholders it met.\<close>

fun template_segments :: "string \<Rightarrow> string list \<Rightarrow> ((string \<times> string) list, pack_error) result" where
  "template_segments path [] = Ok []"
| "template_segments path (segment # rest) =
     (if segment = [] then template_segments path rest
      else if starts_with ''{'' segment then
        (case (case strip_prefix ''{'' segment of Some r \<Rightarrow> strip_suffix ''}'' r | None \<Rightarrow> None) of
           None \<Rightarrow> Err (PackInvalidField ''request.paths'' (MixedPlaceholder path segment))
         | Some inner \<Rightarrow>
             if \<not> is_placeholder_charset inner
             then Err (PackInvalidField ''request.paths'' (BadPlaceholder path inner))
             else and_then (template_segments path rest) (\<lambda>found. Ok ((path, inner) # found)))
      else if CHR ''{'' \<in> set segment \<or> CHR ''}'' \<in> set segment
      then Err (PackInvalidField ''request.paths'' (StrayBrace path))
      else template_segments path rest)"

definition validate_path_template :: "string \<Rightarrow> ((string \<times> string) list, pack_error) result" where
  "validate_path_template path =
     (if \<not> starts_with ''/'' path then Err (PackInvalidField ''request.paths'' (MustStartWithSlash path))
      else and_then (template_segments path (drop 1 (split_on (CHR ''/'') path))) (\<lambda>placeholders.
        and_then (map_err (\<lambda>e. PackInvalidField ''request.paths'' (PatternRefused path e)) (validate_pattern path))
          (\<lambda>_. Ok placeholders)))"

definition validate_pack_host :: "string \<Rightarrow> (unit, pack_error) result" where
  "validate_pack_host host =
     (let reject = (\<lambda>reason. Err (ForbiddenHost host reason));
          labels = split_on (CHR ''.'') host
      in if host = METADATA_IPV4_HOST \<or> host = METADATA_IPV6_HOST then reject MetadataEndpoint
         else if host = [] \<or> 253 < length host then reject HostLength
         else if \<not> list_all (\<lambda>c. is_ascii_lowercase c \<or> is_ascii_digit c \<or> c = CHR ''.'' \<or> c = CHR ''-'') host
         then reject HostCharset
         else if length labels < 2 then reject SingleLabel
         else if list_ex (\<lambda>label. label = [] \<or> starts_with ''-'' label \<or> ends_with ''-'' label) labels
         then reject BadLabel
         else if host = ''localhost'' \<or> ends_with ''.localhost'' host then reject LoopbackName
         else if ends_with ''.local'' host \<or> ends_with ''.internal'' host then reject PrivateSuffix
         else if list_all (\<lambda>label. label \<noteq> [] \<and> list_all is_ascii_digit label) labels then reject LiteralIp
         else if length labels \<le> 4 \<and> list_all (\<lambda>label. label \<noteq> [] \<and> list_all is_ascii_hexdigit label) labels
         then reject HexQuad
         else Ok ())"

text \<open>The placeholders of all paths, in order; the first refused path is the error.\<close>

fun all_placeholders :: "string list \<Rightarrow> ((string \<times> string) list, pack_error) result" where
  "all_placeholders [] = Ok []"
| "all_placeholders (path # rest) =
     and_then (validate_path_template path) (\<lambda>found.
       and_then (all_placeholders rest) (\<lambda>more. Ok (found @ more)))"

definition validate_variables ::
  "(string, string) bt_map \<Rightarrow> (string \<times> string) list \<Rightarrow> (unit, pack_error) result" where
  "validate_variables variables used =
     and_then
       (try_each (\<lambda>key. if is_placeholder_charset key then Ok ()
                        else Err (PackInvalidField ''request.variables'' (NotVariableName key)))
          (bt_keys variables))
       (\<lambda>_. try_each (\<lambda>(path, placeholder). if bt_get variables placeholder = None
                        then Err (UndeclaredPlaceholder path placeholder) else Ok ()) used)"

definition validate_request :: "policy_pack \<Rightarrow> (unit, pack_error) result" where
  "validate_request p =
     (let r = pack_request p
      in if rt_hosts r = [] then Err (PackInvalidField ''request.hosts'' NeedsOneHost)
         else and_then (try_each validate_pack_host (rt_hosts r)) (\<lambda>_.
           if rt_methods r = [] then Err (PackInvalidField ''request.methods'' NeedsOneMethod)
           else if rt_paths r = [] then Err (PackInvalidField ''request.paths'' NeedsOnePath)
           else and_then (all_placeholders (rt_paths r)) (\<lambda>used.
             and_then (case rt_query_allowlist r of
                         Some allowlist \<Rightarrow> try_each validate_query_key allowlist | None \<Rightarrow> Ok ()) (\<lambda>_.
               case rt_variables r of
                 Some variables \<Rightarrow> validate_variables variables used | None \<Rightarrow> Ok ()))))"

definition validate_credential :: "policy_pack \<Rightarrow> (unit, pack_error) result" where
  "validate_credential p =
     (if cb_injection (pack_credential p) \<noteq> AwsSigv4 then Ok ()
      else Err (UnsupportedInjection ''aws-sigv4''))"

definition validate_constraints :: "policy_pack \<Rightarrow> (unit, pack_error) result" where
  "validate_constraints p =
     and_then (validate_size_limit ''constraints.max_body_bytes'' (pc_max_body_bytes (pack_constraints p))
                 MAX_REQUEST_BODY_BYTES_CAP)
       (\<lambda>_. try_each validate_content_type (case pc_content_types (pack_constraints p) of Some ts \<Rightarrow> ts | None \<Rightarrow> []))"

definition is_bare_object_key :: "string \<Rightarrow> bool" where
  "is_bare_object_key key \<longleftrightarrow>
     \<not> (key = [] \<or> CHR ''.'' \<in> set key \<or> CHR ''['' \<in> set key \<or> CHR '']'' \<in> set key
        \<or> any_char (\<lambda>c. is_control_cp c \<or> is_whitespace_cp c) key)"

definition validate_response :: "policy_pack \<Rightarrow> (unit, pack_error) result" where
  "validate_response p =
     (case pack_response p of
        None \<Rightarrow> Ok ()
      | Some response \<Rightarrow>
          and_then (validate_size_limit ''response.max_body_bytes'' (pr_max_body_bytes response)
                      MAX_RESPONSE_BODY_BYTES_CAP) (\<lambda>_.
            and_then (try_each (\<lambda>header. if is_redactable_header header then Ok ()
                        else Err (PackInvalidField ''response.redact_headers'' (NotLowercaseHeader header)))
                       (pr_redact_headers response)) (\<lambda>_.
              try_each (\<lambda>key. if is_bare_object_key key then Ok ()
                        else Err (PackInvalidField ''response.redact_fields'' (NotBareObjectKey key)))
                (pr_redact_fields response))))"

definition validate_pack :: "policy_pack \<Rightarrow> (unit, pack_error) result" where
  "validate_pack p =
     and_then (validate_format p) (\<lambda>_.
       and_then (validate_name p) (\<lambda>_.
         and_then (validate_request p) (\<lambda>_.
           and_then (validate_credential p) (\<lambda>_.
             and_then (validate_constraints p) (\<lambda>_. validate_response p)))))"

section \<open>Compilation\<close>

definition POLICY_NAME_PREFIX :: string where
  "POLICY_NAME_PREFIX = ''pack-''"

definition FORCED_REQUEST_DENY_HEADERS :: "string list" where
  "FORCED_REQUEST_DENY_HEADERS = [''authorization'', ''proxy-authorization'']"

record compiled_pack =
  capability :: string
  cp_policy_name :: policy_name
  cp_provider :: string
  cp_hosts :: "string list"
  cp_methods :: "http_method list"
  path_templates :: "string list"
  path_patterns :: "string list"
  query_allowlist :: "string list"
  cp_credential_ref :: credential_ref
  cp_injection :: injection_template_id
  max_request_body_bytes :: "u64 option"
  content_type_allowlist :: "string list"
  deny_request_headers :: "string list"
  max_response_body_bytes :: "u64 option"
  redact_response_headers :: "string list"
  redact_response_fields :: "string list"

definition policy_name_for :: "string \<Rightarrow> (policy_name, pack_error) result" where
  "policy_name_for cap =
     map_err (\<lambda>_. PackInvalidField ''name'' (NoPolicyName cap))
       (parse_policy_name (POLICY_NAME_PREFIX @ map (\<lambda>c. if c = CHR ''.'' then CHR ''_'' else c) cap))"

definition to_policy_document :: "compiled_pack \<Rightarrow> principal \<Rightarrow> policy_document" where
  "to_policy_document c pr =
     \<lparr>doc_name = cp_policy_name c, doc_principal = pr, doc_credential = cp_credential_ref c,
      doc_environment = [],
      doc_http = \<lparr>hosts = cp_hosts c,
                  allow_rules = [\<lparr>methods = cp_methods c, paths = path_patterns c\<rparr>],
                  deny_rules = []\<rparr>,
      doc_request = \<lparr>req_max_body_bytes = max_request_body_bytes c, deny_headers = deny_request_headers c\<rparr>,
      doc_response = \<lparr>resp_max_body_bytes = max_response_body_bytes c,
                      redact_headers = redact_response_headers c\<rparr>\<rparr>"

definition pattern_segment :: "string \<Rightarrow> string" where
  "pattern_segment segment =
     (if starts_with ''{'' segment \<and> ends_with ''}'' segment \<and> 2 \<le> length segment then ''*'' else segment)"

definition compile_path_pattern :: "string \<Rightarrow> string" where
  "compile_path_pattern template = join_with ''/'' (map pattern_segment (split_on (CHR ''/'') template))"

definition compile_pack :: "policy_pack \<Rightarrow> (compiled_pack, pack_error) result" where
  "compile_pack p =
     and_then (validate_pack p) (\<lambda>_.
       let declared = (case pack_response p of Some rules \<Rightarrow> pr_redact_headers rules | None \<Rightarrow> []);
           redacted = (if list_ex (\<lambda>h. h = FORCED_REDACT_HEADER) declared then declared
                       else declared @ [FORCED_REDACT_HEADER])
       in and_then (policy_name_for (pack_name p)) (\<lambda>name.
            Ok \<lparr>capability = pack_name p, cp_policy_name = name, cp_provider = pack_provider p,
                cp_hosts = rt_hosts (pack_request p), cp_methods = rt_methods (pack_request p),
                path_templates = rt_paths (pack_request p),
                path_patterns = map compile_path_pattern (rt_paths (pack_request p)),
                query_allowlist = (case rt_query_allowlist (pack_request p) of Some l \<Rightarrow> l | None \<Rightarrow> []),
                cp_credential_ref = cb_credential_ref (pack_credential p),
                cp_injection = cb_injection (pack_credential p),
                max_request_body_bytes = pc_max_body_bytes (pack_constraints p),
                content_type_allowlist =
                  map to_ascii_lowercase (case pc_content_types (pack_constraints p) of Some ts \<Rightarrow> ts | None \<Rightarrow> []),
                deny_request_headers = FORCED_REQUEST_DENY_HEADERS,
                max_response_body_bytes =
                  (case pack_response p of Some r \<Rightarrow> pr_max_body_bytes r | None \<Rightarrow> None),
                redact_response_headers = redacted,
                redact_response_fields =
                  (case pack_response p of Some rules \<Rightarrow> pr_redact_fields rules | None \<Rightarrow> [])\<rparr>))"

section \<open>Loading\<close>

text \<open>
  The outcome of every call on a node: \<open>read_dir\<close> lists a directory or fails, \<open>read_to_string\<close> reads a file
  or fails.  A symbolic link is not a directory for \<open>file_type\<close>, and reading it gives what its target gives.
  \<open>NodeUnknown\<close> is an entry whose \<open>file_type\<close> call fails.
\<close>

datatype pack_node =
    NodeDir "(string \<times> pack_node) list"
  | NodeUnlistable string
  | NodeFile "(string, string) result"
  | NodeLink "(string, string) result"
  | NodeUnknown string

type_synonym fs_path = "string list"

text \<open>\<open>Path::extension\<close> of a file name that does not start with a dot.\<close>

definition path_extension :: "string \<Rightarrow> string option" where
  "path_extension name =
     (if CHR ''.'' \<in> set name then Some (last (split_on (CHR ''.'') name)) else None)"

definition is_pack_file_name :: "string \<Rightarrow> bool" where
  "is_pack_file_name name \<longleftrightarrow> path_extension name = Some ''yaml'' \<or> path_extension name = Some ''yml''"

primrec try_concat :: "('a \<Rightarrow> ('b list, 'e) result) \<Rightarrow> 'a list \<Rightarrow> ('b list, 'e) result" where
  "try_concat f [] = Ok []"
| "try_concat f (x # xs) = and_then (f x) (\<lambda>ys. and_then (try_concat f xs) (\<lambda>zs. Ok (ys @ zs)))"

lemma try_concat_cong [fundef_cong]:
  "xs = ys \<Longrightarrow> (\<And>x. x \<in> set ys \<Longrightarrow> f x = g x) \<Longrightarrow> try_concat f xs = try_concat g ys"
  by (induction xs arbitrary: ys) auto

fun collect_pack_files :: "fs_path \<Rightarrow> pack_node \<Rightarrow> (fs_path list, pack_error) result" where
  "collect_pack_files dir (NodeDir entries) =
     try_concat (\<lambda>(name, node).
         if starts_with ''.'' name then Ok []
         else (case node of
             NodeUnknown e \<Rightarrow> Err (PackIo e)
           | NodeDir es \<Rightarrow> collect_pack_files (dir @ [name]) node
           | NodeUnlistable e \<Rightarrow> Err (PackIo e)
           | _ \<Rightarrow> if is_pack_file_name name then Ok [dir @ [name]] else Ok []))
       (sort_key fst entries)"
| "collect_pack_files dir (NodeUnlistable e) = Err (PackIo e)"
| "collect_pack_files dir (NodeUnknown e) = Err (PackIo e)"
| "collect_pack_files dir (NodeFile c) = Err (PackIo ''not a directory'')"
| "collect_pack_files dir (NodeLink c) = Err (PackIo ''not a directory'')"

definition pack_files :: "pack_node \<Rightarrow> (fs_path list, pack_error) result" where
  "pack_files tree = and_then (collect_pack_files [] tree) (\<lambda>files. Ok (sort files))"

fun node_at :: "pack_node \<Rightarrow> fs_path \<Rightarrow> pack_node option" where
  "node_at node [] = Some node"
| "node_at (NodeDir entries) (name # rest) =
     (case map_of entries name of Some node \<Rightarrow> node_at node rest | None \<Rightarrow> None)"
| "node_at node (name # rest) = None"

definition read_pack_file :: "pack_node \<Rightarrow> fs_path \<Rightarrow> (string, string) result" where
  "read_pack_file tree path =
     (case node_at tree path of
        Some (NodeFile c) \<Rightarrow> c
      | Some (NodeLink c) \<Rightarrow> c
      | _ \<Rightarrow> Err ''not a file'')"

definition parse_pack_yaml ::
  "(string \<Rightarrow> (policy_pack, string) result) \<Rightarrow> string \<Rightarrow> (policy_pack, pack_error) result" where
  "parse_pack_yaml from_yaml content =
     and_then (map_err PackParse (from_yaml content)) (\<lambda>p. and_then (validate_pack p) (\<lambda>_. Ok p))"

definition load_pack ::
  "(string \<Rightarrow> (policy_pack, string) result) \<Rightarrow> pack_node \<Rightarrow> fs_path \<Rightarrow> (policy_pack, pack_error) result" where
  "load_pack from_yaml tree path =
     and_then (map_err PackIo (read_pack_file tree path)) (parse_pack_yaml from_yaml)"

fun annotate :: "fs_path \<Rightarrow> pack_error \<Rightarrow> pack_error" where
  "annotate path (PackIo e) = PackIo e"
| "annotate path other = PackFileError path other"

text \<open>The loop of \<open>load_pack_dir\<close>, with the packs loaded and the policy names claimed so far.\<close>

fun load_files ::
  "(fs_path \<Rightarrow> (policy_pack, pack_error) result) \<Rightarrow> fs_path list \<Rightarrow> policy_pack list \<Rightarrow> policy_name list
   \<Rightarrow> (policy_pack list, pack_error) result" where
  "load_files load [] loaded policy_names = Ok loaded"
| "load_files load (path # rest) loaded policy_names =
     and_then (map_err (annotate path) (load path)) (\<lambda>p.
       if list_ex (\<lambda>q. pack_name q = pack_name p) loaded then Err (DuplicateCapability (pack_name p))
       else and_then (policy_name_for (pack_name p)) (\<lambda>derived.
         if list_ex (\<lambda>n. n = derived) policy_names then Err (AmbiguousCapabilityName (pack_name p))
         else load_files load rest (loaded @ [p]) (policy_names @ [derived])))"

definition load_pack_dir ::
  "(string \<Rightarrow> (policy_pack, string) result) \<Rightarrow> pack_node \<Rightarrow> (policy_pack list, pack_error) result" where
  "load_pack_dir from_yaml tree =
     and_then (pack_files tree) (\<lambda>files.
       and_then (load_files (load_pack from_yaml tree) files [] [])
         (\<lambda>packs. Ok (sort_key pack_name packs)))"

section \<open>Reference definitions\<close>

text \<open>
  The language of a path template: a placeholder (or a literal \<open>*\<close>) stands for one non-empty segment, a
  trailing \<open>**\<close> for any continuation, everything else for itself.
\<close>

definition is_placeholder :: "string \<Rightarrow> bool" where
  "is_placeholder segment \<longleftrightarrow> (\<exists>name. segment = ''{'' @ name @ ''}'')"

definition segment_admits :: "string \<Rightarrow> string \<Rightarrow> bool" where
  "segment_admits t x \<longleftrightarrow> (if is_placeholder t \<or> t = ''*'' then x \<noteq> [] else x = t)"

definition template_admits :: "string \<Rightarrow> string \<Rightarrow> bool" where
  "template_admits template path \<longleftrightarrow>
     (let ts = split_segments template; xs = split_segments path
      in if last ts = ''**'' then \<exists>ys zs. xs = ys @ zs \<and> list_all2 segment_admits (butlast ts) ys
         else list_all2 segment_admits ts xs)"

text \<open>A host no pack may name: an address in dotted decimal or bare hexadecimal labels, a metadata
  endpoint, or a name that resolves inside the machine or the site.\<close>

definition forbidden_target :: "string \<Rightarrow> bool" where
  "forbidden_target host \<longleftrightarrow>
     host \<in> {METADATA_IPV4_HOST, METADATA_IPV6_HOST, ''localhost''}
     \<or> (\<exists>s \<in> {''.localhost'', ''.local'', ''.internal''}. ends_with s host)
     \<or> (\<forall>label \<in> set (split_on (CHR ''.'') host). list_all is_ascii_digit label)
     \<or> length (split_on (CHR ''.'') host) \<le> 4
       \<and> (\<forall>label \<in> set (split_on (CHR ''.'') host). list_all is_ascii_hexdigit label)"

text \<open>What a capability is meant to permit, read off its pack.\<close>

definition capability_grants :: "policy_pack \<Rightarrow> principal \<Rightarrow> authorization_request \<Rightarrow> bool" where
  "capability_grants p pr r \<longleftrightarrow>
     req_principal r = pr \<and> req_resource r = cb_credential_ref (pack_credential p)
     \<and> ctx_host (req_context r) \<in> set (rt_hosts (pack_request p))
     \<and> ctx_method (req_context r) \<in> set (rt_methods (pack_request p))
     \<and> (\<exists>t \<in> set (rt_paths (pack_request p)). template_admits t (ctx_path (req_context r)))
     \<and> (\<forall>m. pc_max_body_bytes (pack_constraints p) = Some m \<longrightarrow> ctx_body_len_bytes (req_context r) \<le> m)"

definition pack_document :: "policy_pack \<Rightarrow> principal \<Rightarrow> policy_document option" where
  "pack_document p pr = (case compile_pack p of Ok c \<Rightarrow> Some (to_policy_document c pr) | Err _ \<Rightarrow> None)"

section \<open>Lemmas: validation\<close>

lemma is_placeholder_iff:
  "is_placeholder s \<longleftrightarrow> starts_with ''{'' s \<and> ends_with ''}'' s \<and> 2 \<le> length s"
proof
  assume "starts_with ''{'' s \<and> ends_with ''}'' s \<and> 2 \<le> length s"
  then obtain t u where t: "s = ''{'' @ t" and u: "s = u @ ''}''" and len: "2 \<le> length s"
    unfolding starts_with_iff ends_with_iff by blast
  from t len obtain v c where "t = v @ [c]" by (cases t rule: rev_cases) auto
  with t u show "is_placeholder s" by (simp add: is_placeholder_def)
qed (auto simp: is_placeholder_def starts_with_iff ends_with_iff)

lemma pattern_segment_alt: "pattern_segment s = (if is_placeholder s then ''*'' else s)"
  by (simp add: pattern_segment_def is_placeholder_iff)

lemma segment_matches_pattern: "segment_matches (pattern_segment t) x \<longleftrightarrow> segment_admits t x"
  by (auto simp: segment_matches_def pattern_segment_alt segment_admits_def)

lemma pattern_segment_literals [simp]:
  "pattern_segment t = [] \<longleftrightarrow> t = []" "pattern_segment t = ''..'' \<longleftrightarrow> t = ''..''"
  "pattern_segment t = ''**'' \<longleftrightarrow> t = ''**''"
  by (auto simp: pattern_segment_alt is_placeholder_def)

lemma literal_in_compiled:
  "x \<in> {[], ''..'', ''**''} \<Longrightarrow> x \<in> pattern_segment ` S \<longleftrightarrow> x \<in> S"
  by (force simp: pattern_segment_alt is_placeholder_def image_iff)

lemma pattern_segment_no_slash: "CHR ''/'' \<notin> set t \<Longrightarrow> CHR ''/'' \<notin> set (pattern_segment t)"
  by (simp add: pattern_segment_alt)

lemma split_segments_slash: "split_segments (CHR ''/'' # s) = split_on (CHR ''/'') s"
  by (simp add: split_segments_def)

lemma compile_path_pattern_slash:
  "compile_path_pattern (CHR ''/'' # s) = CHR ''/'' # join_with ''/'' (map pattern_segment (split_on (CHR ''/'') s))"
  by (cases "split_on (CHR ''/'') s")
     (auto simp: compile_path_pattern_def pattern_segment_def starts_with_def)

lemma split_segments_compiled:
  assumes "starts_with ''/'' t"
  shows "starts_with ''/'' (compile_path_pattern t)"
    and "split_segments (compile_path_pattern t) = map pattern_segment (split_segments t)"
proof -
  obtain s where t: "t = CHR ''/'' # s" using assms by (auto simp: starts_with_iff)
  show "starts_with ''/'' (compile_path_pattern t)" by (simp add: t compile_path_pattern_slash starts_with_def)
  show "split_segments (compile_path_pattern t) = map pattern_segment (split_segments t)"
    unfolding t compile_path_pattern_slash split_segments_slash
    by (rule split_on_join) (auto intro!: pattern_segment_no_slash dest: split_on_no_sep)
qed

lemma valid_compiled_segments: "valid_segments (map pattern_segment ts) \<longleftrightarrow> valid_segments ts"
  by (simp add: valid_segments_iff literal_in_compiled flip: map_butlast)

lemma list_all2_prefix_iff:
  "length ps \<le> length xs \<and> list_all2 P ps (take (length ps) xs) \<longleftrightarrow> (\<exists>ys zs. xs = ys @ zs \<and> list_all2 P ps ys)"
proof
  assume "length ps \<le> length xs \<and> list_all2 P ps (take (length ps) xs)"
  then show "\<exists>ys zs. xs = ys @ zs \<and> list_all2 P ps ys"
    by (intro exI [of _ "take (length ps) xs"] exI [of _ "drop (length ps) xs"]) simp
next
  assume "\<exists>ys zs. xs = ys @ zs \<and> list_all2 P ps ys"
  then obtain ys zs where "xs = ys @ zs" "list_all2 P ps ys" by blast
  then show "length ps \<le> length xs \<and> list_all2 P ps (take (length ps) xs)"
    by (simp add: list_all2_lengthD)
qed

lemma compiled_pattern_matches:
  assumes "starts_with ''/'' t" "valid_segments (split_segments t)"
  shows "path_matches (compile_path_pattern t) x \<longleftrightarrow> template_admits t x"
proof -
  let ?ts = "split_segments t"
  have ne: "?ts \<noteq> []" by (simp add: split_segments_def)
  have last: "last (map pattern_segment ?ts) = ''**'' \<longleftrightarrow> last ?ts = ''**''" using ne by (simp add: last_map)
  have "path_matches (compile_path_pattern t) x \<longleftrightarrow> pattern_denotes (map pattern_segment ?ts) (split_segments x)"
    using assms split_segments_compiled [OF assms(1)]
    by (simp add: path_matches_iff match_segments_denotes valid_compiled_segments)
  also have "\<dots> \<longleftrightarrow> template_admits t x"
    using ne list_all2_prefix_iff [of "butlast ?ts" "split_segments x" segment_admits]
    by (simp add: pattern_denotes_def template_admits_def last Let_def segment_matches_pattern list_all2_map1
        flip: map_butlast)
  finally show ?thesis .
qed

lemma validate_path_template_Ok:
  "validate_path_template t = Ok v \<Longrightarrow> starts_with ''/'' t \<and> valid_segments (split_segments t)"
  by (auto simp: validate_path_template_def validate_pattern_Ok_iff split: if_splits)

lemma all_placeholders_Ok:
  "all_placeholders ts = Ok v \<Longrightarrow> t \<in> set ts \<Longrightarrow> starts_with ''/'' t \<and> valid_segments (split_segments t)"
  by (induction ts arbitrary: v) (auto dest: validate_path_template_Ok)

lemma validate_pack_Ok_iff:
  "validate_pack p = Ok () \<longleftrightarrow>
     validate_format p = Ok () \<and> validate_name p = Ok () \<and> validate_request p = Ok ()
     \<and> validate_credential p = Ok () \<and> validate_constraints p = Ok () \<and> validate_response p = Ok ()"
  by (simp add: validate_pack_def)

lemma validate_request_Ok:
  assumes "validate_request p = Ok ()"
  shows "rt_hosts (pack_request p) \<noteq> []" "rt_methods (pack_request p) \<noteq> []" "rt_paths (pack_request p) \<noteq> []"
    and "\<And>h. h \<in> set (rt_hosts (pack_request p)) \<Longrightarrow> validate_pack_host h = Ok ()"
    and "\<And>t. t \<in> set (rt_paths (pack_request p)) \<Longrightarrow> starts_with ''/'' t \<and> valid_segments (split_segments t)"
  using assms all_placeholders_Ok
  by (fastforce simp: validate_request_def Let_def try_each_Ok_iff split: if_splits)+

lemma validate_size_limit_Ok_iff:
  "validate_size_limit f v m = Ok () \<longleftrightarrow> (\<forall>n. v = Some n \<longrightarrow> n \<noteq> 0 \<and> n \<le> m)"
  by (auto simp: validate_size_limit_def not_less split: option.splits)

lemma validate_pack_host_Ok:
  assumes "validate_pack_host h = Ok ()"
  shows "is_valid_hostname h" "\<not> forbidden_target h" "2 \<le> length (split_on (CHR ''.'') h)"
proof -
  have "\<not> starts_with ''.'' h"
  proof
    assume "starts_with ''.'' h"
    then have "[] \<in> set (split_on (CHR ''.'') h)" by (auto simp: starts_with_iff)
    with assms show False by (auto simp: validate_pack_host_def Let_def list_ex_iff split: if_splits)
  qed
  moreover have "\<not> ends_with ''.'' h"
  proof
    assume "ends_with ''.'' h"
    then obtain t where h: "h = t @ ''.''" by (auto simp: ends_with_iff)
    have "split_on d (t @ [d]) = split_on d t @ [[]]" for d :: char by (induction t) (auto split: list.splits)
    then have "[] \<in> set (split_on (CHR ''.'') h)" unfolding h by simp
    with assms show False by (auto simp: validate_pack_host_def Let_def list_ex_iff split: if_splits)
  qed
  moreover have parts: "h \<noteq> METADATA_IPV4_HOST" "h \<noteq> METADATA_IPV6_HOST" "h \<noteq> []"
    "list_all (\<lambda>c. is_ascii_lowercase c \<or> is_ascii_digit c \<or> c = CHR ''.'' \<or> c = CHR ''-'') h"
    "\<not> length (split_on (CHR ''.'') h) < 2"
    "\<not> list_ex (\<lambda>label. label = [] \<or> starts_with ''-'' label \<or> ends_with ''-'' label) (split_on (CHR ''.'') h)"
    "h \<noteq> ''localhost''" "\<not> ends_with ''.localhost'' h" "\<not> ends_with ''.local'' h" "\<not> ends_with ''.internal'' h"
    "\<not> list_all (\<lambda>label. label \<noteq> [] \<and> list_all is_ascii_digit label) (split_on (CHR ''.'') h)"
    "\<not> (length (split_on (CHR ''.'') h) \<le> 4
       \<and> list_all (\<lambda>label. label \<noteq> [] \<and> list_all is_ascii_hexdigit label) (split_on (CHR ''.'') h))"
    using assms unfolding validate_pack_host_def Let_def by (simp_all split: if_splits)
  ultimately show "is_valid_hostname h" by (auto simp: is_valid_hostname_def list_ex_iff list_all_iff)
  show "2 \<le> length (split_on (CHR ''.'') h)" using parts(5) by simp
  have nonempty: "[] \<notin> set (split_on (CHR ''.'') h)" using parts(6) by (auto simp: list_ex_iff)
  have "\<not> (\<forall>label \<in> set (split_on (CHR ''.'') h). list_all is_ascii_digit label)"
    using parts(11) nonempty unfolding list_all_iff [of "\<lambda>label. label \<noteq> [] \<and> _ label"] by metis
  moreover have "\<not> (length (split_on (CHR ''.'') h) \<le> 4
       \<and> (\<forall>label \<in> set (split_on (CHR ''.'') h). list_all is_ascii_hexdigit label))"
    using parts(12) nonempty unfolding list_all_iff [of "\<lambda>label. label \<noteq> [] \<and> _ label"] by metis
  ultimately show "\<not> forbidden_target h" unfolding forbidden_target_def using parts(1,2,7-10) by blast
qed

lemma redactable_is_header_token: "is_redactable_header n \<Longrightarrow> is_lowercase_header_token n"
proof -
  have "CHR ''-'' \<in> set HEADER_TOKEN_EXTRA_CHARS" by (simp add: HEADER_TOKEN_EXTRA_CHARS_def)
  then show "is_redactable_header n \<Longrightarrow> is_lowercase_header_token n"
    by (auto simp: is_redactable_header_def is_lowercase_header_token_def list_all_iff)
qed

lemma validate_name_policy_name:
  assumes "validate_name p = Ok ()"
  shows "\<exists>n. policy_name_for (pack_name p) = Ok n"
proof -
  let ?n = "pack_name p"
  have len: "?n \<noteq> []" "length ?n \<le> 120"
    using assms by (auto simp: validate_name_def Let_def CAPABILITY_MAX_LEN_def split: if_splits)
  have seg: "is_name_segment s" if "s \<in> set (split_on (CHR ''.'') ?n)" for s
    using assms that by (auto simp: validate_name_def Let_def try_each_Ok_iff split: if_splits)
  have chars: "c = CHR ''.'' \<or> is_id_char c" if "c \<in> set ?n" for c
  proof -
    have "set (join_with [d] ps) \<subseteq> insert d (\<Union>(set ` set ps))" for d :: char and ps
      by (induction "[d]" ps rule: join_with.induct) auto
    from this [of "CHR ''.''" "split_on (CHR ''.'') ?n"] that
    consider "c = CHR ''.''" | s where "s \<in> set (split_on (CHR ''.'') ?n)" "c \<in> set s" by auto
    then show ?thesis
      using seg by cases (auto simp: is_name_segment_def is_id_char_def list_all_iff)
  qed
  let ?d = "''pack-'' @ map (\<lambda>c. if c = CHR ''.'' then CHR ''_'' else c) ?n"
  have idc: "list_all is_id_char ?d"
    using chars by (auto simp: list_all_iff is_id_char_def ascii_defs)
  have "is_ascii ?d" unfolding is_ascii_def
    using idc by (rule list.pred_mono_strong) (auto simp: is_id_char_def ascii_defs)
  then have "char_count ?d = length ?d" by (rule char_count_ascii)
  with idc len have "parse_policy_name ?d = Ok ?d"
    by (simp add: parse_policy_name_def is_valid_id_content_def)
  then show ?thesis by (simp add: policy_name_for_def POLICY_NAME_PREFIX_def)
qed

section \<open>Lemmas: compilation\<close>

lemma compile_pack_OkD:
  assumes "compile_pack p = Ok c"
  shows "validate_pack p = Ok ()" "policy_name_for (pack_name p) = Ok (cp_policy_name c)"
    and "cp_hosts c = rt_hosts (pack_request p)" "cp_methods c = rt_methods (pack_request p)"
    and "path_patterns c = map compile_path_pattern (rt_paths (pack_request p))"
    and "cp_credential_ref c = cb_credential_ref (pack_credential p)"
    and "cp_injection c = cb_injection (pack_credential p)"
    and "max_request_body_bytes c = pc_max_body_bytes (pack_constraints p)"
    and "max_response_body_bytes c = Option.bind (pack_response p) pr_max_body_bytes"
    and "deny_request_headers c = FORCED_REQUEST_DENY_HEADERS"
    and "set (redact_response_headers c) =
          insert FORCED_REDACT_HEADER (set (case pack_response p of Some r \<Rightarrow> pr_redact_headers r | None \<Rightarrow> []))"
  using assms unfolding compile_pack_def Let_def
  by (auto simp: list_ex_iff split: option.splits if_splits)

lemma compile_pack_complete: "(\<exists>c. compile_pack p = Ok c) \<longleftrightarrow> validate_pack p = Ok ()"
proof
  assume "validate_pack p = Ok ()"
  moreover from this obtain n where "policy_name_for (pack_name p) = Ok n"
    using validate_name_policy_name unfolding validate_pack_Ok_iff by blast
  ultimately show "\<exists>c. compile_pack p = Ok c" by (simp add: compile_pack_def Let_def)
qed (auto dest: compile_pack_OkD(1))

lemma forced_header_tokens:
  "\<forall>n \<in> set FORCED_REQUEST_DENY_HEADERS. is_lowercase_header_token n" "is_lowercase_header_token FORCED_REDACT_HEADER"
  by (auto simp: FORCED_REQUEST_DENY_HEADERS_def FORCED_REDACT_HEADER_def is_redactable_header_def ascii_defs
      intro!: redactable_is_header_token)

lemma compiled_document_well_formed:
  assumes "compile_pack p = Ok c"
  shows "well_formed_policy (to_policy_document c pr)"
proof -
  note c = compile_pack_OkD [OF assms]
  have ok: "validate_request p = Ok ()" "validate_constraints p = Ok ()" "validate_response p = Ok ()"
    using c(1) by (simp_all add: validate_pack_Ok_iff)
  note req = validate_request_Ok [OF ok(1)]
  have pats: "is_ok (validate_pattern (compile_path_pattern t))" if "t \<in> set (rt_paths (pack_request p))" for t
    using req(5) [OF that] split_segments_compiled [of t]
    by (simp add: is_ok_iff validate_pattern_Ok_iff valid_compiled_segments)
  have lim: "max_request_body_bytes c \<noteq> Some 0" "max_response_body_bytes c \<noteq> Some 0"
    using ok(2,3) by (auto simp: c validate_constraints_def validate_response_def validate_size_limit_Ok_iff
        bind_eq_Some_conv)
  have hdr: "is_lowercase_header_token n" if "n \<in> set (redact_response_headers c)" for n
    using ok(3) that forced_header_tokens(2)
    by (auto simp: c validate_response_def try_each_Ok_iff dest: redactable_is_header_token split: option.splits if_splits)
  show ?thesis
    using req(1-3) validate_pack_host_Ok(1) [OF req(4)] pats lim hdr forced_header_tokens(1)
    by (auto simp: well_formed_policy_def to_policy_document_def valid_rules_def c)
qed

lemma compiled_document_grants:
  assumes "compile_pack p = Ok c" "validate_context (req_context r) = Ok ()"
  shows "grants (to_policy_document c pr) r \<longleftrightarrow> capability_grants p pr r"
    and "\<not> denies (to_policy_document c pr) r"
proof -
  note c = compile_pack_OkD [OF assms(1)]
  have req: "validate_request p = Ok ()" using c(1) by (simp add: validate_pack_Ok_iff)
  have low: "to_ascii_lowercase (ctx_host (req_context r)) = ctx_host (req_context r)"
    using assms(2) valid_hostname_lower by (simp add: validate_context_Ok_iff)
  have host: "(\<exists>h \<in> set (rt_hosts (pack_request p)). to_ascii_lowercase h = ctx_host (req_context r))
      \<longleftrightarrow> ctx_host (req_context r) \<in> set (rt_hosts (pack_request p))"
    using validate_request_Ok(4) [OF req] validate_pack_host_Ok(1) valid_hostname_lower by metis
  have path: "(\<exists>t \<in> set (rt_paths (pack_request p)). path_matches (compile_path_pattern t) x)
      \<longleftrightarrow> (\<exists>t \<in> set (rt_paths (pack_request p)). template_admits t x)" for x
    using validate_request_Ok(5) [OF req] compiled_pattern_matches by blast
  show "grants (to_policy_document c pr) r \<longleftrightarrow> capability_grants p pr r"
    by (auto simp: grants_def is_candidate_def to_policy_document_def c host path capability_grants_def low)
  show "\<not> denies (to_policy_document c pr) r" by (simp add: denies_def to_policy_document_def)
qed

section \<open>Lemmas: loading\<close>

abbreviation names_claimed :: "policy_pack list \<Rightarrow> policy_name list \<Rightarrow> bool" where
  "names_claimed packs names \<equiv> list_all2 (\<lambda>p n. policy_name_for (pack_name p) = Ok n) packs names"

lemma load_files_Ok:
  assumes "load_files load files loaded names = Ok packs"
    and "names_claimed loaded names" "distinct names" "distinct (map pack_name loaded)"
  shows "\<exists>fresh names'. packs = loaded @ fresh \<and> list_all2 (\<lambda>f p. load f = Ok p) files fresh
           \<and> names_claimed packs names' \<and> distinct names' \<and> distinct (map pack_name packs)"
  using assms
proof (induction load files loaded names rule: load_files.induct)
  case (2 load path rest loaded names)
  from "2.prems"(1) obtain p n where p: "load path = Ok p" "\<not> list_ex (\<lambda>q. pack_name q = pack_name p) loaded"
      "policy_name_for (pack_name p) = Ok n" "\<not> list_ex (\<lambda>m. m = n) names"
      "load_files load rest (loaded @ [p]) (names @ [n]) = Ok packs"
    by (auto split: if_splits)
  have "names_claimed (loaded @ [p]) (names @ [n])" "distinct (names @ [n])" "distinct (map pack_name (loaded @ [p]))"
    using "2.prems"(2-4) p by (auto simp: list_all2_appendI list_ex_iff)
  from "2.IH" [OF p(2,4,5) this] p(1) obtain fresh names' where
    "packs = (loaded @ [p]) @ fresh" "list_all2 (\<lambda>f p. load f = Ok p) rest fresh" "names_claimed packs names'"
    "distinct names'" "distinct (map pack_name packs)" by auto
  with p(1) show ?case by (intro exI [of _ "p # fresh"] exI [of _ names']) auto
qed auto

lemma load_pack_valid: "load_pack from_yaml tree f = Ok p \<Longrightarrow> validate_pack p = Ok ()"
  by (auto simp: load_pack_def parse_pack_yaml_def)

lemma load_pack_dir_OkD:
  assumes "load_pack_dir from_yaml tree = Ok packs"
  shows "\<exists>files fresh. pack_files tree = Ok files \<and> list_all2 (\<lambda>f p. load_pack from_yaml tree f = Ok p) files fresh
           \<and> packs = sort_key pack_name fresh"
    and "sorted_wrt (<) (map pack_name packs)"
    and "\<And>p. p \<in> set packs \<Longrightarrow> validate_pack p = Ok ()"
    and "inj_on (\<lambda>p. policy_name_for (pack_name p)) (set packs)" "distinct packs"
proof -
  from assms obtain files fresh where f: "pack_files tree = Ok files"
      "load_files (load_pack from_yaml tree) files [] [] = Ok fresh" "packs = sort_key pack_name fresh"
    by (auto simp: load_pack_dir_def)
  from load_files_Ok [OF f(2)] obtain names where
    l: "list_all2 (\<lambda>f p. load_pack from_yaml tree f = Ok p) files fresh" "names_claimed fresh names"
      "distinct names" "distinct (map pack_name fresh)" by auto
  show "\<exists>files fresh. pack_files tree = Ok files \<and> list_all2 (\<lambda>f p. load_pack from_yaml tree f = Ok p) files fresh
      \<and> packs = sort_key pack_name fresh" using f(1,3) l(1) by blast
  have "distinct (map pack_name packs)" using l(4) by (simp add: f(3) distinct_map)
  then show "sorted_wrt (<) (map pack_name packs)" by (simp add: strict_sorted_iff f(3))
  from \<open>distinct (map pack_name packs)\<close> show "distinct packs" by (simp add: distinct_map)
  show "validate_pack p = Ok ()" if "p \<in> set packs" for p
  proof -
    from that obtain i where i: "i < length fresh" "fresh ! i = p" by (auto simp: f(3) in_set_conv_nth)
    then have "load_pack from_yaml tree (files ! i) = Ok p" using l(1) by (auto simp: list_all2_conv_all_nth)
    then show ?thesis by (rule load_pack_valid)
  qed
  show "inj_on (\<lambda>p. policy_name_for (pack_name p)) (set packs)"
  proof (rule inj_onI)
    fix p q assume "p \<in> set packs" "q \<in> set packs" and eq: "policy_name_for (pack_name p) = policy_name_for (pack_name q)"
    then obtain i j where ij: "i < length fresh" "fresh ! i = p" "j < length fresh" "fresh ! j = q"
      by (auto simp: f(3) in_set_conv_nth)
    with l(2) eq have "names ! i = names ! j" "length names = length fresh"
      by (auto simp: list_all2_conv_all_nth)
    with l(3) ij have "i = j" by (simp add: nth_eq_iff_index_eq)
    with ij show "p = q" by simp
  qed
qed

section \<open>A sample directory\<close>

lemma char_count_code [code]: "char_count s = (if is_ascii s then length s else length (uchars s))"
  using char_count_ascii by (simp add: char_count_def)

lemma any_char_code [code]:
  "any_char P s = (if is_ascii s then list_ex (\<lambda>c. P (byte_of c)) s else list_ex (\<lambda>g. P (code_point g)) (uchars s))"
  by (simp add: any_char_def uchars_ascii list_ex_iff)

definition sample_pack :: policy_pack where
  "sample_pack =
     \<lparr>pack_format = 1, pack_name = ''gh.read'', pack_provider = ''gh'',
      pack_request = \<lparr>rt_hosts = [''api.gh.dev''], rt_methods = [GET], rt_paths = [''/r/{o}'', ''/u/**''],
                      rt_query_allowlist = Some [''page''], rt_variables = None\<rparr>,
      pack_credential = \<lparr>cb_credential_ref = ''gh'', cb_injection = GithubBearer\<rparr>,
      pack_constraints = \<lparr>pc_max_body_bytes = Some 4096, pc_content_types = Some [''Text/X'']\<rparr>,
      pack_response = Some \<lparr>pr_max_body_bytes = None, pr_redact_headers = [''x-token''], pr_redact_fields = [''note'']\<rparr>\<rparr>"

definition sample_pack_yaml :: "string \<Rightarrow> (policy_pack, string) result" where
  "sample_pack_yaml content =
     (if content = ''read'' then Ok sample_pack
      else if content = ''list'' then Ok (sample_pack\<lparr>pack_name := ''gh.list''\<rparr>)
      else Err ''unknown'')"

definition sample_pack_tree :: pack_node where
  "sample_pack_tree =
     NodeDir [(''zz.yml'', NodeFile (Ok ''read'')), (''.git'', NodeUnlistable ''hidden''),
              (''gh'', NodeDir [(''list.yaml'', NodeFile (Ok ''list'')), (''notes.txt'', NodeFile (Err ''binary''))]),
              (''link'', NodeLink (Err ''directory''))]"

lemma sample_pack_parts:
  "validate_pack_host ''api.gh.dev'' = Ok ()" "validate_query_key ''page'' = Ok ()"
  "all_placeholders [''/r/{o}'', ''/u/**'']
     = Ok [(''/r/{o}'', ''o'')]"
proof -
  show "validate_pack_host ''api.gh.dev'' = Ok ()"
    by (simp add: validate_pack_host_def METADATA_IPV4_HOST_def METADATA_IPV6_HOST_def ascii_defs starts_with_def
        ends_with_def strip_suffix_def)
  show "validate_query_key ''page'' = Ok ()"
    by (simp add: validate_query_key_def any_char_code is_ascii_def is_ascii_byte_def is_whitespace_cp_def is_control_cp_def)
  show "all_placeholders [''/r/{o}'', ''/u/**''] = Ok [(''/r/{o}'', ''o'')]"
    by (simp add: validate_path_template_def starts_with_def strip_suffix_def is_placeholder_charset_def ascii_defs
        validate_pattern_Ok_iff split_segments_def)
qed

lemma renamed_pack:
  "validate_format (p\<lparr>pack_name := n\<rparr>) = validate_format p" "validate_request (p\<lparr>pack_name := n\<rparr>) = validate_request p"
  "validate_credential (p\<lparr>pack_name := n\<rparr>) = validate_credential p"
  "validate_constraints (p\<lparr>pack_name := n\<rparr>) = validate_constraints p"
  "validate_response (p\<lparr>pack_name := n\<rparr>) = validate_response p"
  by (simp_all add: validate_format_def validate_request_def validate_credential_def validate_constraints_def
      validate_response_def)

lemma sample_pack_valid:
  assumes "validate_name (sample_pack\<lparr>pack_name := n\<rparr>) = Ok ()"
  shows "validate_pack (sample_pack\<lparr>pack_name := n\<rparr>) = Ok ()"
proof -
  have "validate_format sample_pack = Ok ()" "validate_credential sample_pack = Ok ()" by code_simp+
  moreover have "validate_constraints sample_pack = Ok ()"
    by (simp add: validate_constraints_def sample_pack_def validate_size_limit_def MAX_REQUEST_BODY_BYTES_CAP_def
        validate_content_type_def is_ascii_graphic_def)
  moreover have "validate_response sample_pack = Ok ()"
    by (simp add: validate_response_def sample_pack_def validate_size_limit_def is_redactable_header_def ascii_defs
        is_bare_object_key_def any_char_code is_ascii_def is_whitespace_cp_def is_control_cp_def)
  moreover have "validate_request sample_pack = Ok ()"
    using sample_pack_parts
    by (simp add: validate_request_def sample_pack_def del: all_placeholders.simps and_then_Ok_iff)
  ultimately show ?thesis using assms by (simp add: validate_pack_Ok_iff renamed_pack)
qed

lemma sample_pack_names:
  "validate_name (sample_pack\<lparr>pack_name := ''gh.read''\<rparr>) = Ok ()"
  "validate_name (sample_pack\<lparr>pack_name := ''gh.list''\<rparr>) = Ok ()"
  "policy_name_for ''gh.read'' = Ok ''pack-gh_read''"
  "policy_name_for ''gh.list'' = Ok ''pack-gh_list''"
  by code_simp+

lemma sample_pack_name [simp]: "sample_pack\<lparr>pack_name := ''gh.read''\<rparr> = sample_pack"
  by (simp add: sample_pack_def)

lemma sample_directory:
  "load_pack_dir sample_pack_yaml sample_pack_tree = Ok [sample_pack\<lparr>pack_name := ''gh.list''\<rparr>, sample_pack]"
proof -
  have files: "pack_files sample_pack_tree = Ok [[''gh'', ''list.yaml''], [''zz.yml'']]" by code_simp
  have name: "pack_name sample_pack = ''gh.read''" by (simp add: sample_pack_def)
  have "load_pack sample_pack_yaml sample_pack_tree [''gh'', ''list.yaml''] = Ok (sample_pack\<lparr>pack_name := ''gh.list''\<rparr>)"
    "load_pack sample_pack_yaml sample_pack_tree [''zz.yml''] = Ok sample_pack"
    using sample_pack_valid [OF sample_pack_names(1)] sample_pack_valid [OF sample_pack_names(2)]
    by (simp_all add: load_pack_def read_pack_file_def sample_pack_tree_def parse_pack_yaml_def sample_pack_yaml_def)
  then show ?thesis
    by (simp add: load_pack_dir_def files sample_pack_names name)
qed

section \<open>Properties\<close>

text \<open>
  C28. A directory of packs that loads is a working policy set that permits exactly what the packs declare.
  Every pack of it compiles, the compiled documents always build an engine, and for every principal and
  request the engine answers allow exactly when the context is canonical and some pack of the directory
  binds that credential and lists the host, the method, a path template that admits the path, and a body
  limit that the body respects.  The packs are those of the pack files, sorted by distinct capability names.
\<close>

theorem pack_directory_authorizes_exactly:
  assumes "load_pack_dir from_yaml tree = Ok packs"
  shows "\<exists>docs e files loaded. map (\<lambda>p. pack_document p pr) packs = map Some docs \<and> from_documents docs = Ok e
           \<and> (\<forall>r. (\<exists>n. authorize e r = Allow n) \<longleftrightarrow>
                  validate_context (req_context r) = Ok () \<and> (\<exists>p \<in> set packs. capability_grants p pr r))
           \<and> pack_files tree = Ok files \<and> list_all2 (\<lambda>f p. load_pack from_yaml tree f = Ok p) files loaded
           \<and> packs = sort_key pack_name loaded \<and> sorted_wrt (<) (map pack_name packs)"
proof -
  note l = load_pack_dir_OkD [OF assms]
  define doc where "doc p = to_policy_document (case compile_pack p of Ok c \<Rightarrow> c) pr" for p
  have comp: "compile_pack p = Ok (case compile_pack p of Ok c \<Rightarrow> c)" if "p \<in> set packs" for p
    using l(3) [OF that] compile_pack_complete [of p] by auto
  let ?docs = "map doc packs"
  have docs: "map (\<lambda>p. pack_document p pr) packs = map Some ?docs"
    using comp by (auto simp: pack_document_def doc_def dest!: comp split: result.splits)
  have names: "policy_name_for (pack_name p) = Ok (doc_name (doc p))" if "p \<in> set packs" for p
    using compile_pack_OkD(2) [OF comp [OF that]] by (simp add: doc_def to_policy_document_def)
  have "inj_on (\<lambda>p. doc_name (doc p)) (set packs)"
    using l(4) names by (metis (mono_tags, lifting) inj_on_def)
  moreover have "well_formed_policy d" if "d \<in> set ?docs" for d
    using that compiled_document_well_formed [OF comp] by (auto simp: doc_def)
  ultimately have "engine_inv (new_engine\<lparr>policies := policies new_engine @ ?docs\<rparr>)"
    using l(5) by (auto simp: engine_inv_def new_engine_def distinct_map comp_def)
  then obtain e where e: "from_documents ?docs = Ok e" unfolding from_documents_def using push_all_complete by blast
  then have pol: "set (policies e) = doc ` set packs"
    by (auto simp: from_documents_def new_engine_def dest: push_all_policies)
  have "(\<exists>n. authorize e r = Allow n) \<longleftrightarrow>
      validate_context (req_context r) = Ok () \<and> (\<exists>p \<in> set packs. capability_grants p pr r)" for r
    using compiled_document_grants [OF comp] by (auto simp: re.allow_iff_permitted permitted_def pol doc_def)
  with docs e l(1,2) show ?thesis by blast
qed

theorem pack_directory_authorizes_exactly_witness:
  "\<exists>packs docs e. load_pack_dir sample_pack_yaml sample_pack_tree = Ok packs
     \<and> map (\<lambda>p. pack_document p ''agent:ci'') packs = map Some docs \<and> from_documents docs = Ok e
     \<and> map pack_name packs = [''gh.list'', ''gh.read'']"
proof -
  have "pack_name sample_pack = ''gh.read''" by (simp add: sample_pack_def)
  then have names: "map pack_name [sample_pack\<lparr>pack_name := ''gh.list''\<rparr>, sample_pack]
      = [''gh.list'', ''gh.read'']" by simp
  obtain docs e where "map (\<lambda>p. pack_document p ''agent:ci'') [sample_pack\<lparr>pack_name := ''gh.list''\<rparr>, sample_pack]
      = map Some docs" "from_documents docs = Ok e"
    using pack_directory_authorizes_exactly [OF sample_directory, of "''agent:ci''"] by blast
  with sample_directory names show ?thesis by (intro exI conjI)
qed



end
