(* ===== verification/Control_Store.thy ===== *)
theory Control_Store
  imports Ids Ordered_Map "HOL-Library.Product_Lexorder"
begin

text \<open>
  \<open>vaultx-control-plane\<close>: the records (\<open>model.rs\<close>, \<open>protocol.rs\<close>), the errors (\<open>error.rs\<close>) and the in-memory store
  (\<open>store.rs\<close>) of the team server.

  Every method of the store holds the mutex for its whole body, so one call is one atomic step; an
  interleaving of concurrent requests is a sequence of calls, and the properties quantify over all
  sequences.  Random bytes and clock readings are the streams of \<open>cp_world\<close>; an empty entropy stream is a failing
  source.  \<open>serde_json\<close>, \<open>sha2\<close>, \<open>hex\<close> and Ed25519 are the record \<open>cp_codec\<close>.
\<close>

section \<open>JSON values and errors\<close>

text \<open>A number is kept as its text; an object is a \<open>BTreeMap\<close>.\<close>

datatype json =
    JNull | JBool bool | JNumber string | JString string | JArray "json list" | JObject "(string \<times> json) list"

definition json_nat :: "nat \<Rightarrow> json" where
  "json_nat n = JNumber (dec_of_nat n)"

datatype control_error =
    CpNotFound | CpUnauthorized | CpForbidden | CpBadRequest string | CpSignatureInvalid | CpHashMismatch
  | CpConflict json | CpStorage string

fun error_status :: "control_error \<Rightarrow> nat" where
  "error_status CpNotFound = 404"
| "error_status CpUnauthorized = 401"
| "error_status CpSignatureInvalid = 401"
| "error_status CpForbidden = 403"
| "error_status (CpBadRequest _) = 400"
| "error_status CpHashMismatch = 422"
| "error_status (CpConflict _) = 409"
| "error_status (CpStorage _) = 500"

fun error_code :: "control_error \<Rightarrow> string" where
  "error_code CpNotFound = ''not_found''"
| "error_code CpUnauthorized = ''unauthorized''"
| "error_code CpForbidden = ''forbidden''"
| "error_code (CpBadRequest _) = ''bad_request''"
| "error_code CpSignatureInvalid = ''signature_verification_failed''"
| "error_code CpHashMismatch = ''hash_mismatch''"
| "error_code (CpConflict _) = ''ref_conflict''"
| "error_code (CpStorage _) = ''storage_failure''"

fun error_display :: "control_error \<Rightarrow> string" where
  "error_display CpNotFound = ''not found''"
| "error_display CpUnauthorized = ''unauthorized''"
| "error_display CpForbidden = ''forbidden''"
| "error_display (CpBadRequest r) = ''bad request: '' @ r"
| "error_display CpSignatureInvalid = ''signature verification failed''"
| "error_display CpHashMismatch = ''content hash mismatch''"
| "error_display (CpConflict _) = ''conflict''"
| "error_display (CpStorage r) = ''storage failure: '' @ r"

fun error_body :: "control_error \<Rightarrow> json" where
  "error_body (CpConflict detail) = detail"
| "error_body other =
     JObject [(''error'', JObject [(''code'', JString (error_code other)), (''message'', JString (error_display other))])]"

section \<open>Records\<close>

datatype cp_namespace = CpHeads | CpEnvironments

datatype token_class = ControlSession | WorkloadExchange | AgentClass

record user_record =
  usr_login :: string
  usr_display_name :: "string option"
  usr_verifier :: string

record workspace_record =
  ws_id :: string
  ws_name :: string
  ws_owner :: string

record workspace_membership =
  mb_workspace :: string
  mb_user :: string
  mb_role :: string

definition ROLE_OWNER :: string where
  "ROLE_OWNER = ''owner''"

record project_record =
  pj_id :: project_id
  pj_workspace :: string
  pj_name :: string

record device_record =
  dv_public_key_hex :: string
  dv_owner :: string
  dv_label :: "string option"

record ref_state =
  rs_namespace :: cp_namespace
  rs_name :: string
  rs_commit :: commit_id
  rs_protected :: bool

record stored_policy =
  sp_name :: policy_name
  sp_document_json :: string

record cp_principal =
  subject :: string
  principal_class :: token_class

record object_entry_wire =
  oe_id :: object_id
  oe_content_hash :: string
  oe_envelope_json :: string

record environment_metadata =
  em_name :: string
  em_protected :: bool

record agent_view =
  av_agent_id :: agent_id
  av_display_name :: string
  av_policy_name :: policy_name
  av_revoked :: bool

record audit_event_view =
  aev_event_id :: string
  aev_actor :: string
  aev_action :: string
  aev_detail :: json
  aev_occurred_at :: u64
  aev_sequence :: u64
  aev_prev_hash :: "string option"

record ingest_event =
  ie_actor :: string
  ie_action :: string
  ie_detail :: json

record ingest_rejection =
  ij_index :: nat
  ij_reason :: string

record agent_session_context =
  asc_agent_id :: agent_id
  asc_parent_principal :: string
  asc_project :: project_id

record agent_row =
  ar_project :: string
  ar_display_name :: string
  ar_policy_name :: string
  ar_revoked :: bool

datatype ref_cas_outcome = CasApplied ref_state | CasRejected "ref_state option"

section \<open>Parameters and state\<close>

record cp_codec =
  cc_json_str :: "json \<Rightarrow> string"
  cc_json_parse :: "string \<Rightarrow> json option"
  cc_event_vec :: "audit_event_view \<Rightarrow> string option"
  cc_sha256 :: "string \<Rightarrow> string"
  cc_hex_encode :: "string \<Rightarrow> string"
  cc_hex_decode :: "string \<Rightarrow> string option"
  cc_public_key :: "string \<Rightarrow> string option"
  cc_verify :: "string \<Rightarrow> string \<Rightarrow> string \<Rightarrow> bool"
  cc_ingest_parse :: "string \<Rightarrow> ingest_event list option"

record store_state =
  st_users :: "(string, user_record) bt_map"
  st_sessions :: "(string, cp_principal) bt_map"
  st_workspaces :: "(string, workspace_record) bt_map"
  st_memberships :: "(string \<times> string, unit) bt_map"
  st_projects :: "(string, project_record) bt_map"
  st_devices :: "(string, device_record) bt_map"
  st_objects :: "(string \<times> string, object_entry_wire) bt_map"
  st_refs :: "(string \<times> nat \<times> string, ref_state) bt_map"
  st_environments :: "(string \<times> string, bool) bt_map"
  st_policies :: "(string \<times> string, stored_policy) bt_map"
  st_agents :: "(string, agent_row) bt_map"
  st_agent_sessions :: "(string, agent_session_context) bt_map"
  st_audit :: "(string option \<times> audit_event_view) list"
  st_sync_state :: "(string \<times> string, commit_id option) bt_map"
  st_oidc_allowlist :: "(string \<times> string, unit) bt_map"

record cp_world =
  cw_store :: store_state
  cw_entropy :: "string option list"
  cw_clock :: "(u64 \<times> nat) list"

type_synonym 'a cp = "cp_world \<Rightarrow> ('a, control_error) result \<times> cp_world"

definition cp_ok :: "'a \<Rightarrow> 'a cp" where
  "cp_ok a w = (Ok a, w)"

definition cp_err :: "control_error \<Rightarrow> 'a cp" where
  "cp_err e w = (Err e, w)"

definition cp_lift :: "('a, control_error) result \<Rightarrow> 'a cp" where
  "cp_lift r w = (r, w)"

definition cp_bind :: "'a cp \<Rightarrow> ('a \<Rightarrow> 'b cp) \<Rightarrow> 'b cp" where
  "cp_bind m f w = (case m w of (Ok a, w') \<Rightarrow> f a w' | (Err e, w') \<Rightarrow> (Err e, w'))"

text \<open>A store method that only reads, and one that updates the state.\<close>

definition cp_read :: "(store_state \<Rightarrow> 'a) \<Rightarrow> 'a cp" where
  "cp_read f w = (Ok (f (cw_store w)), w)"

definition cp_update :: "(store_state \<Rightarrow> ('a, control_error) result \<times> store_state) \<Rightarrow> 'a cp" where
  "cp_update f w = (case f (cw_store w) of (r, s) \<Rightarrow> (r, w\<lparr>cw_store := s\<rparr>))"

definition draw_bytes :: "string \<Rightarrow> string cp" where
  "draw_bytes what w =
     (case cw_entropy w of
        Some b # rest \<Rightarrow> (Ok b, w\<lparr>cw_entropy := rest\<rparr>)
      | None # rest \<Rightarrow> (Err (CpStorage what), w\<lparr>cw_entropy := rest\<rparr>)
      | [] \<Rightarrow> (Err (CpStorage what), w))"

definition clock_now :: "(u64 \<times> nat) cp" where
  "clock_now w = (case cw_clock w of t # rest \<Rightarrow> (Ok t, w\<lparr>cw_clock := rest\<rparr>) | [] \<Rightarrow> (Ok (0, 0), w))"

definition empty_store :: store_state where
  "empty_store =
     \<lparr>st_users = [], st_sessions = [], st_workspaces = [], st_memberships = [], st_projects = [], st_devices = [],
      st_objects = [], st_refs = [], st_environments = [], st_policies = [], st_agents = [], st_agent_sessions = [],
      st_audit = [], st_sync_state = [], st_oidc_allowlist = []\<rparr>"

section \<open>Users, sessions, workspaces, projects and devices\<close>

definition find_user :: "string \<Rightarrow> store_state \<Rightarrow> user_record option" where
  "find_user login s = bt_get (st_users s) login"

definition upsert_user :: "user_record \<Rightarrow> store_state \<Rightarrow> (unit, control_error) result \<times> store_state" where
  "upsert_user u s = (Ok (), s\<lparr>st_users := bt_insert (usr_login u) u (st_users s)\<rparr>)"

definition trust_oidc_subject :: "string \<Rightarrow> string \<Rightarrow> store_state \<Rightarrow> (unit, control_error) result \<times> store_state" where
  "trust_oidc_subject provider sub s =
     (Ok (), s\<lparr>st_oidc_allowlist := bt_insert (provider, sub) () (st_oidc_allowlist s)\<rparr>)"

definition allows_oidc_subject :: "string \<Rightarrow> string \<Rightarrow> store_state \<Rightarrow> bool" where
  "allows_oidc_subject provider sub s \<longleftrightarrow> bt_get (st_oidc_allowlist s) (provider, sub) \<noteq> None"

definition issue_session :: "string \<Rightarrow> cp_principal \<Rightarrow> store_state \<Rightarrow> (unit, control_error) result \<times> store_state" where
  "issue_session token p s = (Ok (), s\<lparr>st_sessions := bt_insert token p (st_sessions s)\<rparr>)"

definition resolve_token :: "string \<Rightarrow> store_state \<Rightarrow> cp_principal option" where
  "resolve_token token s = bt_get (st_sessions s) token"

definition store_create_workspace :: "workspace_record \<Rightarrow> store_state \<Rightarrow> (unit, control_error) result \<times> store_state" where
  "store_create_workspace r s =
     (if bt_get (st_workspaces s) (ws_id r) \<noteq> None then (Ok (), s)
      else (Ok (), s\<lparr>st_workspaces := bt_insert (ws_id r) r (st_workspaces s),
                     st_memberships := bt_insert (ws_id r, ws_owner r) () (st_memberships s)\<rparr>))"

definition list_workspaces_for_user :: "string \<Rightarrow> store_state \<Rightarrow> workspace_record list" where
  "list_workspaces_for_user user s =
     List.map_filter (\<lambda>(w, _). bt_get (st_workspaces s) w)
       (filter (\<lambda>(_, member). member = user) (bt_keys (st_memberships s)))"

definition add_workspace_member ::
  "workspace_membership \<Rightarrow> store_state \<Rightarrow> (unit, control_error) result \<times> store_state" where
  "add_workspace_member m s =
     (if bt_get (st_workspaces s) (mb_workspace m) = None then (Err CpNotFound, s)
      else (Ok (), s\<lparr>st_memberships := bt_insert (mb_workspace m, mb_user m) () (st_memberships s)\<rparr>))"

definition is_workspace_member :: "string \<Rightarrow> string \<Rightarrow> store_state \<Rightarrow> (bool, control_error) result" where
  "is_workspace_member w user s =
     (if bt_get (st_workspaces s) w = None then Err CpNotFound
      else Ok (bt_get (st_memberships s) (w, user) \<noteq> None))"

definition create_project :: "project_record \<Rightarrow> store_state \<Rightarrow> (unit, control_error) result \<times> store_state" where
  "create_project p s = (Ok (), s\<lparr>st_projects := bt_insert (pj_id p) p (st_projects s)\<rparr>)"

definition store_get_project :: "project_id \<Rightarrow> store_state \<Rightarrow> project_record option" where
  "store_get_project i s = bt_get (st_projects s) i"

definition register_device :: "device_record \<Rightarrow> store_state \<Rightarrow> (bool, control_error) result \<times> store_state" where
  "register_device d s =
     (if bt_get (st_devices s) (dv_public_key_hex d) \<noteq> None then (Ok False, s)
      else (Ok True, s\<lparr>st_devices := bt_insert (dv_public_key_hex d) d (st_devices s)\<rparr>))"

definition list_devices_for_user :: "string \<Rightarrow> store_state \<Rightarrow> device_record list" where
  "list_devices_for_user user s = filter (\<lambda>d. dv_owner d = user) (map snd (st_devices s))"

definition list_workspace_device_keys :: "string \<Rightarrow> store_state \<Rightarrow> device_record list" where
  "list_workspace_device_keys w s =
     sort_key dv_public_key_hex
       (filter (\<lambda>d. bt_get (st_memberships s) (w, dv_owner d) \<noteq> None) (map snd (st_devices s)))"

section \<open>Objects and refs\<close>

definition put_object :: "project_id \<Rightarrow> object_entry_wire \<Rightarrow> store_state \<Rightarrow> (bool, control_error) result \<times> store_state" where
  "put_object p e s =
     (case bt_get (st_objects s) (p, oe_id e) of
        Some existing \<Rightarrow>
          if oe_envelope_json existing = oe_envelope_json e then (Ok False, s) else (Err CpHashMismatch, s)
      | None \<Rightarrow> (Ok True, s\<lparr>st_objects := bt_insert (p, oe_id e) e (st_objects s)\<rparr>))"

definition list_object_ids :: "project_id \<Rightarrow> store_state \<Rightarrow> object_id list" where
  "list_object_ids p s =
     sort (List.map_filter (\<lambda>(_, i). case parse_object_id i of Ok x \<Rightarrow> Some x | Err _ \<Rightarrow> None)
            (filter (\<lambda>(q, _). q = p) (bt_keys (st_objects s))))"

definition get_objects :: "project_id \<Rightarrow> object_id list \<Rightarrow> store_state \<Rightarrow> object_entry_wire list" where
  "get_objects p ids s =
     sort_key oe_id (map snd (filter (\<lambda>((q, i), _). q = p \<and> i \<in> set ids) (st_objects s)))"

fun namespace_rank :: "cp_namespace \<Rightarrow> nat" where
  "namespace_rank CpHeads = 0"
| "namespace_rank CpEnvironments = 1"

definition list_ref_states :: "project_id \<Rightarrow> store_state \<Rightarrow> ref_state list" where
  "list_ref_states p s =
     map snd (sort_key (\<lambda>(ns, r). (ns, rs_name r))
       (map (\<lambda>((_, ns, _), r). (ns, r)) (filter (\<lambda>((q, _, _), _). q = p) (st_refs s))))"

definition get_ref_state :: "project_id \<Rightarrow> cp_namespace \<Rightarrow> string \<Rightarrow> store_state \<Rightarrow> ref_state option" where
  "get_ref_state p ns name s = bt_get (st_refs s) (p, namespace_rank ns, name)"

definition set_ref_state :: "project_id \<Rightarrow> ref_state \<Rightarrow> store_state \<Rightarrow> (unit, control_error) result \<times> store_state" where
  "set_ref_state p r s =
     (Ok (), s\<lparr>st_refs := bt_insert (p, namespace_rank (rs_namespace r), rs_name r) r (st_refs s)\<rparr>)"

definition compare_and_swap_ref ::
  "project_id \<Rightarrow> cp_namespace \<Rightarrow> string \<Rightarrow> commit_id option \<Rightarrow> commit_id \<Rightarrow> store_state
   \<Rightarrow> (ref_cas_outcome, control_error) result \<times> store_state" where
  "compare_and_swap_ref p ns name expected next_commit s =
     (let key = (p, namespace_rank ns, name)
      in case bt_get (st_refs s) key of
           Some existing \<Rightarrow>
             if expected = Some (rs_commit existing)
             then (let moved = existing\<lparr>rs_commit := next_commit\<rparr>
                   in (Ok (CasApplied moved), s\<lparr>st_refs := bt_insert key moved (st_refs s)\<rparr>))
             else (Ok (CasRejected (Some existing)), s)
         | None \<Rightarrow>
             (case expected of
                Some _ \<Rightarrow> (Ok (CasRejected None), s)
              | None \<Rightarrow>
                  (let created = \<lparr>rs_namespace = ns, rs_name = name, rs_commit = next_commit, rs_protected = False\<rparr>
                   in (Ok (CasApplied created), s\<lparr>st_refs := bt_insert key created (st_refs s)\<rparr>))))"

definition set_environment_protection ::
  "project_id \<Rightarrow> string \<Rightarrow> bool \<Rightarrow> store_state \<Rightarrow> (unit, control_error) result \<times> store_state" where
  "set_environment_protection p name b s = (Ok (), s\<lparr>st_environments := bt_insert (p, name) b (st_environments s)\<rparr>)"

definition environment_protection :: "project_id \<Rightarrow> string \<Rightarrow> store_state \<Rightarrow> bool" where
  "environment_protection p name s = (case bt_get (st_environments s) (p, name) of Some b \<Rightarrow> b | None \<Rightarrow> False)"

definition list_environments :: "project_id \<Rightarrow> store_state \<Rightarrow> environment_metadata list" where
  "list_environments p s =
     sort_key em_name
       (map (\<lambda>((_, name), b). \<lparr>em_name = name, em_protected = b\<rparr>) (filter (\<lambda>((q, _), _). q = p) (st_environments s)))"

section \<open>Policies and agents\<close>

definition upsert_policy :: "project_id \<Rightarrow> stored_policy \<Rightarrow> store_state \<Rightarrow> (unit, control_error) result \<times> store_state" where
  "upsert_policy p d s = (Ok (), s\<lparr>st_policies := bt_insert (p, sp_name d) d (st_policies s)\<rparr>)"

definition store_list_policies :: "project_id \<Rightarrow> store_state \<Rightarrow> stored_policy list" where
  "store_list_policies p s = sort_key sp_name (map snd (filter (\<lambda>((q, _), _). q = p) (st_policies s)))"

definition create_agent_identity ::
  "project_id \<Rightarrow> agent_id \<Rightarrow> string \<Rightarrow> policy_name \<Rightarrow> string \<Rightarrow> store_state \<Rightarrow> (unit, control_error) result \<times> store_state" where
  "create_agent_identity p a display policy created_by s =
     (if bt_get (st_agents s) a \<noteq> None
      then (Err (CpConflict (JObject [(''error'', JString ''agent_already_exists'')])), s)
      else (Ok (), s\<lparr>st_agents := bt_insert a
              \<lparr>ar_project = p, ar_display_name = display, ar_policy_name = policy, ar_revoked = False\<rparr> (st_agents s)\<rparr>))"

text \<open>The loop of \<open>list_agents\<close>: a row whose identifiers do not parse ends it with an error.\<close>

fun agent_views :: "project_id \<Rightarrow> (string \<times> agent_row) list \<Rightarrow> (agent_view list, control_error) result" where
  "agent_views p [] = Ok []"
| "agent_views p ((a, row) # rest) =
     (if ar_project row \<noteq> p then agent_views p rest
      else and_then (map_err (\<lambda>_. CpStorage ''agent id'') (parse_prefixed_id ''agent_'' a)) (\<lambda>i.
           and_then (map_err (\<lambda>_. CpStorage ''policy name'') (parse_policy_name (ar_policy_name row))) (\<lambda>n.
           and_then (agent_views p rest) (\<lambda>views.
             Ok (\<lparr>av_agent_id = i, av_display_name = ar_display_name row, av_policy_name = n,
                  av_revoked = ar_revoked row\<rparr> # views)))))"

definition store_list_agents :: "project_id \<Rightarrow> store_state \<Rightarrow> (agent_view list, control_error) result" where
  "store_list_agents p s = and_then (agent_views p (st_agents s)) (\<lambda>views. Ok (sort_key av_agent_id views))"

definition issue_agent_session ::
  "string \<Rightarrow> agent_session_context \<Rightarrow> store_state \<Rightarrow> (unit, control_error) result \<times> store_state" where
  "issue_agent_session token ctx s = (Ok (), s\<lparr>st_agent_sessions := bt_insert token ctx (st_agent_sessions s)\<rparr>)"

section \<open>The audit chain\<close>

definition MAX_AUDIT_DETAIL_BYTES :: nat where
  "MAX_AUDIT_DETAIL_BYTES = 16 * 1024"

definition MAX_AUDIT_ACTOR_LEN :: nat where
  "MAX_AUDIT_ACTOR_LEN = 256"

definition MAX_AUDIT_ACTION_LEN :: nat where
  "MAX_AUDIT_ACTION_LEN = 128"

text \<open>\<open>{:08x}\<close>.\<close>

fun hex_digit :: "nat \<Rightarrow> char" where
  "hex_digit n = char_of (if n < 10 then 48 + n else 87 + n)"

fun hex_low :: "nat \<Rightarrow> nat \<Rightarrow> string" where
  "hex_low 0 n = []"
| "hex_low (Suc k) n = hex_low k (n div 16) @ [hex_digit (n mod 16)]"

definition fresh_entity_id :: "cp_codec \<Rightarrow> string \<Rightarrow> string cp" where
  "fresh_entity_id c prefix =
     cp_bind (draw_bytes ''id entropy unavailable'') (\<lambda>bytes.
     cp_bind clock_now (\<lambda>(_, nano). cp_ok (prefix @ hex_low 8 nano @ cc_hex_encode c bytes)))"

definition tail_hash :: "cp_codec \<Rightarrow> audit_event_view \<Rightarrow> (string, control_error) result" where
  "tail_hash c e =
     (case cc_event_vec c e of
        Some bytes \<Rightarrow> Ok (cc_hex_encode c (cc_sha256 c bytes))
      | None \<Rightarrow> Err (CpStorage ''audit serialization''))"

definition chain_append ::
  "cp_codec \<Rightarrow> string option \<Rightarrow> (audit_event_view \<Rightarrow> audit_event_view) \<Rightarrow> audit_event_view cp" where
  "chain_append c key build =
     cp_bind (cp_read (\<lambda>s. find (\<lambda>(p, _). p = key) (rev (st_audit s)))) (\<lambda>tail.
     cp_bind (case tail of
                Some (_, e) \<Rightarrow> cp_lift (and_then (tail_hash c e) (\<lambda>h. Ok (aev_sequence e + 1, Some h)))
              | None \<Rightarrow> cp_ok (0, None)) (\<lambda>(sequence, prev).
     cp_bind (fresh_entity_id c ''aud_'') (\<lambda>raw.
     cp_bind (cp_lift (map_err (\<lambda>_. CpStorage ''audit id'') (parse_audit_event_id raw))) (\<lambda>i.
     cp_bind clock_now (\<lambda>(secs, _).
       let view = build \<lparr>aev_event_id = i, aev_actor = [], aev_action = [], aev_detail = JObject [],
                         aev_occurred_at = secs, aev_sequence = sequence, aev_prev_hash = prev\<rparr>
       in cp_update (\<lambda>s. (Ok view, s\<lparr>st_audit := st_audit s @ [(key, view)]\<rparr>)))))))"

definition append_audit_event ::
  "cp_codec \<Rightarrow> project_id option \<Rightarrow> string \<Rightarrow> string \<Rightarrow> string \<Rightarrow> audit_event_view cp" where
  "append_audit_event c project actor action detail_json =
     cp_bind (cp_lift (ok_or (CpStorage ''audit detail'') (cc_json_parse c detail_json))) (\<lambda>detail.
       chain_append c project (\<lambda>view. view\<lparr>aev_actor := actor, aev_action := action, aev_detail := detail\<rparr>))"

definition list_audit_events :: "project_id \<Rightarrow> store_state \<Rightarrow> audit_event_view list" where
  "list_audit_events p s = map snd (filter (\<lambda>(q, _). q = Some p) (st_audit s))"

definition ingest_refusal :: "cp_codec \<Rightarrow> ingest_event \<Rightarrow> string option" where
  "ingest_refusal c e =
     (if trim (ie_actor e) = [] then Some ''actor must not be empty''
      else if MAX_AUDIT_ACTOR_LEN < char_count (ie_actor e) then Some ''actor exceeds maximum length''
      else if ie_action e = [] \<or> MAX_AUDIT_ACTION_LEN < char_count (ie_action e)
      then Some ''action must be non-empty and bounded''
      else if MAX_AUDIT_DETAIL_BYTES < length (cc_json_str c (ie_detail e))
      then Some ''detail payload exceeds size limit''
      else None)"

fun append_from ::
  "cp_codec \<Rightarrow> project_id \<Rightarrow> nat \<Rightarrow> ingest_event list \<Rightarrow> nat \<Rightarrow> ingest_rejection list \<Rightarrow> (nat \<times> ingest_rejection list) cp" where
  "append_from c p index [] accepted rejected = cp_ok (accepted, rejected)"
| "append_from c p index (e # rest) accepted rejected =
     (case ingest_refusal c e of
        Some reason \<Rightarrow>
          append_from c p (index + 1) rest accepted (rejected @ [\<lparr>ij_index = index, ij_reason = reason\<rparr>])
      | None \<Rightarrow>
          cp_bind (chain_append c (Some p)
              (\<lambda>view. view\<lparr>aev_actor := ie_actor e, aev_action := ie_action e, aev_detail := ie_detail e\<rparr>))
            (\<lambda>_. append_from c p (index + 1) rest (accepted + 1) rejected))"

definition append_events :: "cp_codec \<Rightarrow> project_id \<Rightarrow> ingest_event list \<Rightarrow> (nat \<times> ingest_rejection list) cp" where
  "append_events c p events = append_from c p 0 events 0 []"

definition update_sync_state ::
  "project_id \<Rightarrow> string \<Rightarrow> commit_id option \<Rightarrow> store_state \<Rightarrow> (unit, control_error) result \<times> store_state" where
  "update_sync_state p key newest s = (Ok (), s\<lparr>st_sync_state := bt_insert (p, key) newest (st_sync_state s)\<rparr>)"

section \<open>Sequences of calls\<close>

text \<open>The calls that change the store, as the handlers and the tooling make them.\<close>

datatype store_call =
    UpsertUser user_record
  | TrustOidcSubject string string
  | IssueSession string cp_principal
  | CreateWorkspace workspace_record
  | AddWorkspaceMember workspace_membership
  | CreateProject project_record
  | RegisterDevice device_record
  | PutObject project_id object_entry_wire
  | SetRefState project_id ref_state
  | CompareAndSwapRef project_id cp_namespace string "commit_id option" commit_id
  | SetEnvironmentProtection project_id string bool
  | UpsertPolicy project_id stored_policy
  | CreateAgentIdentity project_id agent_id string policy_name string
  | IssueAgentSession string agent_session_context
  | AppendAuditEvent "project_id option" string string string
  | AppendEvents project_id "ingest_event list"
  | UpdateSyncState project_id string "commit_id option"

fun run_call :: "cp_codec \<Rightarrow> store_call \<Rightarrow> cp_world \<Rightarrow> cp_world" where
  "run_call c (UpsertUser u) w = snd (cp_update (upsert_user u) w)"
| "run_call c (TrustOidcSubject p x) w = snd (cp_update (trust_oidc_subject p x) w)"
| "run_call c (IssueSession t p) w = snd (cp_update (issue_session t p) w)"
| "run_call c (CreateWorkspace r) w = snd (cp_update (store_create_workspace r) w)"
| "run_call c (AddWorkspaceMember m) w = snd (cp_update (add_workspace_member m) w)"
| "run_call c (CreateProject p) w = snd (cp_update (create_project p) w)"
| "run_call c (RegisterDevice d) w = snd (cp_update (register_device d) w)"
| "run_call c (PutObject p e) w = snd (cp_update (put_object p e) w)"
| "run_call c (SetRefState p r) w = snd (cp_update (set_ref_state p r) w)"
| "run_call c (CompareAndSwapRef p ns n x y) w = snd (cp_update (compare_and_swap_ref p ns n x y) w)"
| "run_call c (SetEnvironmentProtection p n b) w = snd (cp_update (set_environment_protection p n b) w)"
| "run_call c (UpsertPolicy p d) w = snd (cp_update (upsert_policy p d) w)"
| "run_call c (CreateAgentIdentity p a d n b) w = snd (cp_update (create_agent_identity p a d n b) w)"
| "run_call c (IssueAgentSession t x) w = snd (cp_update (issue_agent_session t x) w)"
| "run_call c (AppendAuditEvent p a x d) w = snd (append_audit_event c p a x d w)"
| "run_call c (AppendEvents p es) w = snd (append_events c p es w)"
| "run_call c (UpdateSyncState p k x) w = snd (cp_update (update_sync_state p k x) w)"

definition run_calls :: "cp_codec \<Rightarrow> store_call list \<Rightarrow> cp_world \<Rightarrow> cp_world" where
  "run_calls c calls w = fold (run_call c) calls w"

section \<open>Reference definitions\<close>

definition events_of :: "string option \<Rightarrow> store_state \<Rightarrow> audit_event_view list" where
  "events_of key s = map snd (filter (\<lambda>(p, _). p = key) (st_audit s))"

definition event_digest :: "cp_codec \<Rightarrow> audit_event_view \<Rightarrow> string" where
  "event_digest c e = cc_hex_encode c (cc_sha256 c (case cc_event_vec c e of Some b \<Rightarrow> b | None \<Rightarrow> []))"

text \<open>Sequence numbers count from zero, and every event names the digest of the one before it.\<close>

definition audit_chain :: "cp_codec \<Rightarrow> audit_event_view list \<Rightarrow> bool" where
  "audit_chain c es \<longleftrightarrow>
     (\<forall>i < length es. aev_sequence (es ! i) = of_nat i
        \<and> aev_prev_hash (es ! i) = (if i = 0 then None else Some (event_digest c (es ! (i - 1)))))"

type_synonym ref_key = "string \<times> nat \<times> string"

definition tip_of :: "ref_key \<Rightarrow> store_state \<Rightarrow> commit_id option" where
  "tip_of key s = map_option rs_commit (bt_get (st_refs s) key)"

definition swap_applied :: "(ref_cas_outcome, control_error) result \<Rightarrow> bool" where
  "swap_applied r \<longleftrightarrow> (case r of Ok (CasApplied _) \<Rightarrow> True | _ \<Rightarrow> False)"

text \<open>The compare-and-swap calls on one ref that were applied, in order, with their expectations.\<close>

fun applied_swaps :: "cp_codec \<Rightarrow> ref_key \<Rightarrow> store_call list \<Rightarrow> cp_world \<Rightarrow> (commit_id option \<times> commit_id) list" where
  "applied_swaps c key [] w = []"
| "applied_swaps c key (call # rest) w =
     (case call of
        CompareAndSwapRef p ns n x y \<Rightarrow>
          (if (p, namespace_rank ns, n) = key
              \<and> swap_applied (fst (compare_and_swap_ref p ns n x y (cw_store w)))
           then [(x, y)] else [])
      | _ \<Rightarrow> []) @ applied_swaps c key rest (run_call c call w)"

fun linked :: "commit_id option \<Rightarrow> (commit_id option \<times> commit_id) list \<Rightarrow> commit_id option \<Rightarrow> bool" where
  "linked tip [] tip' = (tip' = tip)"
| "linked tip ((x, y) # rest) tip' = (x = tip \<and> linked (Some y) rest tip')"

fun sets_ref :: "ref_key \<Rightarrow> store_call \<Rightarrow> bool" where
  "sets_ref key (SetRefState p r) = ((p, namespace_rank (rs_namespace r), rs_name r) = key)"
| "sets_ref key _ = False"

section \<open>Lemmas\<close>

lemma cp_bind_eq_Ok:
  "cp_bind m f w = (Ok b, w') \<longleftrightarrow> (\<exists>a w1. m w = (Ok a, w1) \<and> f a w1 = (Ok b, w'))"
  by (auto simp: cp_bind_def split: prod.splits result.splits)

lemma cp_bind_cases:
  assumes "cp_bind m f w = (r, w')"
  obtains (failed) e where "m w = (Err e, w')" "r = Err e" | (went_on) a w1 where "m w = (Ok a, w1)" "f a w1 = (r, w')"
  using assms by (auto simp: cp_bind_def split: prod.splits result.splits)

lemma draw_bytes_store: "draw_bytes x w = (r, w') \<Longrightarrow> cw_store w' = cw_store w"
  by (auto simp: draw_bytes_def split: list.splits option.splits)

lemma clock_now_store: "clock_now w = (r, w') \<Longrightarrow> cw_store w' = cw_store w"
  by (auto simp: clock_now_def split: list.splits)

lemma clock_now_ok: "\<exists>t w'. clock_now w = (Ok t, w')"
  by (auto simp: clock_now_def split: list.splits)

lemma fresh_entity_id_store: "fresh_entity_id c prefix w = (r, w') \<Longrightarrow> cw_store w' = cw_store w"
  by (auto simp: fresh_entity_id_def cp_ok_def elim!: cp_bind_cases dest!: draw_bytes_store clock_now_store)

lemma find_rev_filter: "find P (rev xs) = (if filter P xs = [] then None else Some (last (filter P xs)))"
proof (induction xs rule: rev_induct)
  case (snoc x xs)
  then show ?case by (auto simp: find_None_iff)
qed simp

definition chain_link :: "cp_codec \<Rightarrow> audit_event_view list \<Rightarrow> audit_event_view \<Rightarrow> bool" where
  "chain_link c es v \<longleftrightarrow>
     (if es = [] then aev_sequence v = 0 \<and> aev_prev_hash v = None
      else aev_sequence v = aev_sequence (last es) + 1 \<and> aev_prev_hash v = Some (event_digest c (last es)))"

lemma chain_append_cases:
  assumes "chain_append c key build w = (r, w')"
  obtains (refused) e where "r = Err e" "cw_store w' = cw_store w"
  | (appended) v where "r = Ok (build v)" "cw_store w' = (cw_store w)\<lparr>st_audit := st_audit (cw_store w) @ [(key, build v)]\<rparr>"
      "chain_link c (events_of key (cw_store w)) v"
proof -
  let ?es = "filter (\<lambda>(p, _). p = key) (st_audit (cw_store w))"
  let ?link = "if ?es = [] then Ok (0, None)
    else and_then (tail_hash c (snd (last ?es))) (\<lambda>h. Ok (aev_sequence (snd (last ?es)) + 1, Some h))"
  have tail: "find (\<lambda>(p, _). p = key) (rev (st_audit (cw_store w))) = (if ?es = [] then None else Some (last ?es))"
    by (rule find_rev_filter)
  have link: "(case find (\<lambda>(p, _). p = key) (rev (st_audit (cw_store w))) of
      Some (_, e) \<Rightarrow> cp_lift (and_then (tail_hash c e) (\<lambda>h. Ok (aev_sequence e + 1, Some h))) | None \<Rightarrow> cp_ok (0, None)) w
    = (?link, w)"
    unfolding tail by (cases "last ?es") (simp add: cp_lift_def cp_ok_def)
  note run = assms [unfolded chain_append_def cp_read_def]
  show thesis
  proof (cases ?link)
    case (Err e)
    with run link have "r = Err e" "w' = w" by (auto simp: cp_bind_def)
    with refused show thesis by simp
  next
    case (Ok nq)
    obtain n q where nq: "nq = (n, q)" by force
    obtain r1 w1 where fresh: "fresh_entity_id c ''aud_'' w = (r1, w1)" by force
    obtain secs nano w2 where now: "clock_now w1 = (Ok (secs, nano), w2)" using clock_now_ok [of w1] by auto
    have same: "cw_store w1 = cw_store w" "cw_store w2 = cw_store w"
      using fresh_entity_id_store [OF fresh] clock_now_store [OF now] by auto
    have linked: "?es = [] \<Longrightarrow> n = 0 \<and> q = None"
      "?es \<noteq> [] \<Longrightarrow> n = aev_sequence (snd (last ?es)) + 1 \<and> q = Some (event_digest c (snd (last ?es)))"
      using Ok nq by (auto simp: tail_hash_def event_digest_def split: option.splits)
    note go = run [unfolded cp_bind_def] link Ok nq fresh
    show thesis
    proof (cases r1)
      case (Err e)
      with go have "r = Err e" "w' = w1" by auto
      with same refused show thesis by simp
    next
      case (Ok raw)
      show thesis
      proof (cases "parse_audit_event_id raw")
        case (Err e)
        with go \<open>r1 = Ok raw\<close> have "is_err r" "w' = w1" by (auto simp: cp_lift_def)
        with same refused show thesis by (cases r) auto
      next
        case (Ok i)
        define v where "v = \<lparr>aev_event_id = i, aev_actor = [], aev_action = [], aev_detail = JObject [],
          aev_occurred_at = secs, aev_sequence = n, aev_prev_hash = q\<rparr>"
        have "r = Ok (build v)" "cw_store w' = (cw_store w)\<lparr>st_audit := st_audit (cw_store w) @ [(key, build v)]\<rparr>"
          using go \<open>r1 = Ok raw\<close> Ok now same by (auto simp: cp_lift_def cp_update_def Let_def v_def)
        with appended [of v] linked show thesis
          by (auto simp: chain_link_def events_of_def last_map v_def)
      qed
    qed
  qed
qed

lemma events_of_append:
  "events_of k (s\<lparr>st_audit := st_audit s @ [(key, v)]\<rparr>) = events_of k s @ (if k = key then [v] else [])"
  by (simp add: events_of_def)

lemma audit_chain_snoc:
  assumes "audit_chain c es" "chain_link c es v"
  shows "audit_chain c (es @ [v])"
proof (cases es rule: rev_cases)
  case Nil
  then show ?thesis using assms by (simp add: audit_chain_def chain_link_def)
next
  case (snoc ys y)
  with assms have "aev_sequence v = of_nat (length es)" "aev_prev_hash v = Some (event_digest c (es ! (length es - 1)))"
    by (auto simp: audit_chain_def chain_link_def nth_append)
  with assms(1) snoc show ?thesis by (auto simp: audit_chain_def nth_append less_Suc_eq)
qed

definition extends_chain :: "cp_codec \<Rightarrow> store_state \<Rightarrow> store_state \<Rightarrow> bool" where
  "extends_chain c s s' \<longleftrightarrow>
     (\<forall>key. \<exists>new. events_of key s' = events_of key s @ new)
     \<and> ((\<forall>key. audit_chain c (events_of key s)) \<longrightarrow> (\<forall>key. audit_chain c (events_of key s')))"

lemma extends_chain_refl: "st_audit s' = st_audit s \<Longrightarrow> extends_chain c s s'"
  by (simp add: extends_chain_def events_of_def)

lemma extends_chain_trans: "extends_chain c s s1 \<Longrightarrow> extends_chain c s1 s2 \<Longrightarrow> extends_chain c s s2"
  unfolding extends_chain_def by (metis append.assoc)

lemma chain_append_extends:
  assumes "chain_append c key build w = (r, w')"
    and "\<And>v. aev_sequence (build v) = aev_sequence v \<and> aev_prev_hash (build v) = aev_prev_hash v"
  shows "extends_chain c (cw_store w) (cw_store w')"
  using assms(1)
proof (cases rule: chain_append_cases)
  case (appended v)
  have "audit_chain c (events_of k (cw_store w'))" if "\<forall>key. audit_chain c (events_of key (cw_store w))" for k
    using that audit_chain_snoc [of c "events_of key (cw_store w)" "build v"] appended assms(2) [of v]
    by (auto simp: events_of_append chain_link_def)
  then show ?thesis by (auto simp: extends_chain_def appended(2) events_of_append)
qed (simp add: extends_chain_refl)

lemma append_audit_event_extends:
  "append_audit_event c p a x d w = (r, w') \<Longrightarrow> extends_chain c (cw_store w) (cw_store w')"
  unfolding append_audit_event_def
  by (elim cp_bind_cases) (auto simp: cp_lift_def extends_chain_refl dest: chain_append_extends)

lemma append_from_extends:
  "append_from c p i es n rej w = (r, w') \<Longrightarrow> extends_chain c (cw_store w) (cw_store w')"
proof (induction es arbitrary: i n rej w)
  case (Cons e es)
  show ?case
  proof (cases "ingest_refusal c e")
    case None
    with Cons.prems obtain r1 w1 where 1: "chain_append c (Some p)
        (\<lambda>view. view\<lparr>aev_actor := ie_actor e, aev_action := ie_action e, aev_detail := ie_detail e\<rparr>) w = (r1, w1)"
      by (metis surj_pair)
    have "extends_chain c (cw_store w) (cw_store w1)" by (rule chain_append_extends [OF 1]) simp
    moreover have "w' = w1 \<or> extends_chain c (cw_store w1) (cw_store w')"
      using Cons.prems None 1 Cons.IH by (auto elim!: cp_bind_cases)
    ultimately show ?thesis using extends_chain_trans by blast
  qed (use Cons in auto)
qed (simp add: cp_ok_def extends_chain_refl)

lemma cp_update_store: "cw_store (snd (cp_update f w)) = snd (f (cw_store w))"
  by (simp add: cp_update_def split: prod.splits)

lemmas store_op_defs = upsert_user_def trust_oidc_subject_def issue_session_def store_create_workspace_def
  add_workspace_member_def create_project_def register_device_def put_object_def set_ref_state_def
  compare_and_swap_ref_def set_environment_protection_def upsert_policy_def create_agent_identity_def
  issue_agent_session_def update_sync_state_def Let_def

lemma run_call_extends: "extends_chain c (cw_store w) (cw_store (run_call c call w))"
proof (cases call)
  case (AppendAuditEvent p a x d)
  then show ?thesis using append_audit_event_extends by (simp add: prod.split_sel) (metis prod.collapse)
next
  case (AppendEvents p es)
  then show ?thesis using append_from_extends by (simp add: append_events_def) (metis prod.collapse)
qed (auto simp: cp_update_store store_op_defs intro!: extends_chain_refl split: option.splits)

lemma run_calls_Cons: "run_calls c (call # calls) w = run_calls c calls (run_call c call w)"
  by (simp add: run_calls_def)

lemma run_calls_Nil [simp]: "run_calls c [] w = w"
  by (simp add: run_calls_def)

lemma chain_append_store:
  assumes "chain_append c key build w = (r, w')"
  obtains new where "cw_store w' = (cw_store w)\<lparr>st_audit := st_audit (cw_store w) @ new\<rparr>"
  using assms by (cases rule: chain_append_cases) (auto intro: that [of "[]"] that)

text \<open>An audit call changes nothing but the log.\<close>

lemma append_audit_event_store:
  assumes "append_audit_event c p a x d w = (r, w')"
  obtains new where "cw_store w' = (cw_store w)\<lparr>st_audit := st_audit (cw_store w) @ new\<rparr>"
  using assms unfolding append_audit_event_def
  by (elim cp_bind_cases) (auto simp: cp_lift_def intro: that [of "[]"] elim: chain_append_store)

lemma append_from_store:
  "append_from c p i es n rej w = (r, w') \<Longrightarrow>
     \<exists>new. cw_store w' = (cw_store w)\<lparr>st_audit := st_audit (cw_store w) @ new\<rparr>"
proof (induction es arbitrary: i n rej w)
  case (Cons e es)
  let ?build = "\<lambda>view :: audit_event_view. view\<lparr>aev_actor := ie_actor e, aev_action := ie_action e, aev_detail := ie_detail e\<rparr>"
  show ?case
  proof (cases "ingest_refusal c e")
    case None
    obtain r1 w1 where 1: "chain_append c (Some p) ?build w = (r1, w1)" by force
    obtain new1 where n1: "cw_store w1 = (cw_store w)\<lparr>st_audit := st_audit (cw_store w) @ new1\<rparr>"
      using 1 by (rule chain_append_store)
    have "w' = w1 \<or> (\<exists>new. cw_store w' = (cw_store w1)\<lparr>st_audit := st_audit (cw_store w1) @ new\<rparr>)"
      using Cons.prems None 1 by (auto elim!: cp_bind_cases dest!: Cons.IH)
    with n1 show ?thesis by auto
  qed (use Cons in auto)
qed (auto simp: cp_ok_def intro: exI [of _ "[]"])

lemma audit_calls_store:
  "\<exists>new. cw_store (run_call c (AppendAuditEvent p a x d) w) = (cw_store w)\<lparr>st_audit := st_audit (cw_store w) @ new\<rparr>"
  "\<exists>new. cw_store (run_call c (AppendEvents q es) w) = (cw_store w)\<lparr>st_audit := st_audit (cw_store w) @ new\<rparr>"
  using append_audit_event_store [of c p a x d w] append_from_store [of c q 0 es 0 "[]" w]
  by (simp_all add: append_events_def) (metis prod.collapse)+

lemma audit_calls_keep:
  "st_refs (cw_store (run_call c (AppendAuditEvent p a x d) w)) = st_refs (cw_store w)"
  "st_refs (cw_store (run_call c (AppendEvents q es) w)) = st_refs (cw_store w)"
  "st_objects (cw_store (run_call c (AppendAuditEvent p a x d) w)) = st_objects (cw_store w)"
  "st_objects (cw_store (run_call c (AppendEvents q es) w)) = st_objects (cw_store w)"
  using audit_calls_store(1) [of c p a x d w] audit_calls_store(2) [of c q es w] by (auto simp del: run_call.simps)

lemma run_call_keeps_object:
  "bt_get (st_objects (cw_store w)) k = Some e \<Longrightarrow> bt_get (st_objects (cw_store (run_call c call w))) k = Some e"
  by (cases call) (auto simp: cp_update_store store_op_defs bt_get_insert audit_calls_keep
      simp del: run_call.simps(15,16) split: option.splits)

lemma run_calls_keep_object:
  "bt_get (st_objects (cw_store w)) k = Some e \<Longrightarrow> bt_get (st_objects (cw_store (run_calls c calls w))) k = Some e"
  by (induction calls arbitrary: w) (auto simp: run_calls_Cons run_call_keeps_object)

text \<open>One compare-and-swap call on a ref, and every other call.\<close>

lemma swap_step:
  "swap_applied (fst (compare_and_swap_ref p ns n x y s)) \<longleftrightarrow> x = tip_of (p, namespace_rank ns, n) s"
  "tip_of key (snd (compare_and_swap_ref p ns n x y s)) =
     (if key = (p, namespace_rank ns, n) \<and> x = tip_of key s then Some y else tip_of key s)"
  by (auto simp: compare_and_swap_ref_def tip_of_def swap_applied_def Let_def bt_get_insert split: option.splits)

lemma other_step:
  "\<not> (\<exists>p ns n x y. call = CompareAndSwapRef p ns n x y) \<Longrightarrow> \<not> sets_ref key call \<Longrightarrow>
     tip_of key (cw_store (run_call c call w)) = tip_of key (cw_store w)"
  by (cases call) (auto simp: tip_of_def cp_update_store store_op_defs bt_get_insert audit_calls_keep
      simp del: run_call.simps(15,16) split: option.splits)

lemma tip_after_audit: "tip_of key (cw_store (run_call c (AppendAuditEvent p a x d) w)) = tip_of key (cw_store w)"
  by (rule other_step) simp_all

lemma swaps_linked:
  "\<forall>call \<in> set calls. \<not> sets_ref key call \<Longrightarrow>
     linked (tip_of key (cw_store w)) (applied_swaps c key calls w) (tip_of key (cw_store (run_calls c calls w)))"
proof (induction calls arbitrary: w)
  case (Cons call calls)
  show ?case
  proof (cases "\<exists>p ns n x y. call = CompareAndSwapRef p ns n x y")
    case True
    then obtain p ns n x y where call: "call = CompareAndSwapRef p ns n x y" by blast
    have store: "cw_store (run_call c call w) = snd (compare_and_swap_ref p ns n x y (cw_store w))"
      by (simp add: call cp_update_store)
    show ?thesis
      using Cons.IH [of "run_call c call w"] Cons.prems swap_step(1) [of p ns n x y "cw_store w"]
        swap_step(2) [of key p ns n x y "cw_store w"]
      by (auto simp: call run_calls_Cons store [unfolded call] simp del: run_call.simps split: if_splits)
  next
    case False
    with Cons.IH [of "run_call c call w"] Cons.prems other_step [of call key c w] show ?thesis
      by (auto simp: run_calls_Cons simp del: run_call.simps split: store_call.splits)
  qed
qed simp

section \<open>A sample server\<close>

definition sample_cp_codec :: cp_codec where
  "sample_cp_codec =
     \<lparr>cc_json_str = (\<lambda>_. ''{}''), cc_json_parse = (\<lambda>_. Some (JObject [])),
      cc_event_vec = (\<lambda>e. Some (aev_event_id e)), cc_sha256 = (\<lambda>b. b), cc_hex_encode = (\<lambda>b. b),
      cc_hex_decode = Some, cc_public_key = Some, cc_verify = (\<lambda>_ _ _. True),
      cc_ingest_parse = (\<lambda>_. Some [])\<rparr>"

definition sample_event :: audit_event_view where
  "sample_event =
     \<lparr>aev_event_id = ''aud_1'', aev_actor = ''ana'', aev_action = ''policy.update'', aev_detail = JObject [],
      aev_occurred_at = 5, aev_sequence = 0, aev_prev_hash = None\<rparr>"

definition sample_cp_world :: cp_world where
  "sample_cp_world = \<lparr>cw_store = empty_store\<lparr>st_audit := [(Some ''proj_a'', sample_event)]\<rparr>, cw_entropy = replicate 4 (Some ''ab''), cw_clock = [(7, 2), (8, 2)]\<rparr>"

definition sample_calls :: "store_call list" where
  "sample_calls =
     [CompareAndSwapRef ''proj_a'' CpHeads ''main'' None ''cmt_1'',
      CompareAndSwapRef ''proj_a'' CpHeads ''main'' None ''cmt_2'',
      AppendAuditEvent (Some ''proj_a'') ''ana'' ''ref.update'' ''{}'',
      CompareAndSwapRef ''proj_a'' CpHeads ''main'' (Some ''cmt_1'') ''cmt_3'']"

section \<open>Properties\<close>

text \<open>
  C25. The audit trail of the team server is one hash chain per project, however requests interleave.  From a store
  whose chains are intact, any sequence of store calls (appends of any project, batches with refused events,
  failing entropy, everything else) leaves every project's events contiguously numbered from zero and linked to
  their predecessors' digests, and only ever appends to them.
\<close>

theorem control_audit_chain:
  assumes "\<forall>key. audit_chain c (events_of key (cw_store w))"
  shows "audit_chain c (events_of key (cw_store (run_calls c calls w)))
       \<and> (\<exists>new. events_of key (cw_store (run_calls c calls w)) = events_of key (cw_store w) @ new)"
proof -
  have "extends_chain c (cw_store w) (cw_store (run_calls c calls w))"
  proof (induction calls arbitrary: w)
    case (Cons call calls)
    from extends_chain_trans [OF run_call_extends this] show ?case by (simp add: run_calls_Cons)
  qed (simp add: extends_chain_refl)
  with assms show ?thesis by (auto simp: extends_chain_def)
qed

theorem control_audit_chain_witness:
  "\<exists>new. events_of (Some ''proj_a'') (cw_store (run_calls sample_cp_codec sample_calls sample_cp_world)) = sample_event # new
     \<and> audit_chain sample_cp_codec (sample_event # new)"
proof -
  have ev: "events_of key (cw_store sample_cp_world) = (if key = Some ''proj_a'' then [sample_event] else [])" for key
    by (simp add: events_of_def sample_cp_world_def empty_store_def)
  then have "\<forall>key. audit_chain sample_cp_codec (events_of key (cw_store sample_cp_world))"
    by (simp add: audit_chain_def sample_event_def)
  from control_audit_chain [OF this, of "Some ''proj_a''" sample_calls] ev show ?thesis by auto
qed

text \<open>
  C20. No update of a shared ref is lost.  In any interleaving of store calls, the compare-and-swap writes that the
  server reported as applied on one ref form a chain: each expected exactly the commit that the previous one
  wrote (the first, what the ref held before, or its absence), and the last is what the ref holds afterwards.
  Two writers with the same base cannot both succeed unless the ref came back to that base in between.
\<close>

theorem no_lost_ref_update:
  assumes "\<forall>call \<in> set calls. \<not> sets_ref key call"
  shows "linked (tip_of key (cw_store w)) (applied_swaps c key calls w) (tip_of key (cw_store (run_calls c calls w)))"
  using assms by (rule swaps_linked)

theorem no_lost_ref_update_witness:
  "applied_swaps sample_cp_codec (''proj_a'', 0, ''main'') sample_calls sample_cp_world
     = [(None, ''cmt_1''), (Some ''cmt_1'', ''cmt_3'')]
   \<and> tip_of (''proj_a'', 0, ''main'') (cw_store (run_calls sample_cp_codec sample_calls sample_cp_world)) = Some ''cmt_3''"
proof -
  have tip: "tip_of key (cw_store sample_cp_world) = None" for key
    by (simp add: tip_of_def sample_cp_world_def empty_store_def)
  have log: "applied_swaps sample_cp_codec (''proj_a'', 0, ''main'') sample_calls sample_cp_world
      = [(None, ''cmt_1''), (Some ''cmt_1'', ''cmt_3'')]"
    using tip by (simp add: sample_calls_def swap_step cp_update_store tip_after_audit del: run_call.simps(15,16))
  have "\<forall>call \<in> set sample_calls. \<not> sets_ref (''proj_a'', 0, ''main'') call" by (simp add: sample_calls_def)
  from no_lost_ref_update [OF this, of sample_cp_world sample_cp_codec] log show ?thesis by simp
qed

end
