(* ===== verification/Control_Api.thy ===== *)
theory Control_Api
  imports Control_Store
begin

text \<open>
  \<open>vaultx-control-plane\<close>: bearer tokens and route authorization (\<open>auth.rs\<close>), the wire records (\<open>protocol.rs\<close>)
  and the handlers behind the router (\<open>api.rs\<close>).

  A handler takes the decoded path parameters and body (the extractors of \<open>axum\<close>) and the text of the first
  \<open>Authorization\<close> header, when there is one and it is text.  \<open>serve\<close> is the router: one constructor of
  \<open>api_request\<close> per route.
\<close>

section \<open>Credential verifiers\<close>

definition VERIFIER_SALT_LEN :: nat where
  "VERIFIER_SALT_LEN = 16"

definition password_digest :: "cp_codec \<Rightarrow> string \<Rightarrow> string \<Rightarrow> string" where
  "password_digest c salt password = cc_hex_encode c (cc_sha256 c (salt @ password))"

definition hash_verifier :: "cp_codec \<Rightarrow> string \<Rightarrow> string cp" where
  "hash_verifier c password =
     cp_bind (draw_bytes ''verifier entropy unavailable'') (\<lambda>salt.
       cp_ok (''sha256$'' @ cc_hex_encode c salt @ ''$'' @ password_digest c salt password))"

definition verify_verifier :: "cp_codec \<Rightarrow> string \<Rightarrow> string \<Rightarrow> bool" where
  "verify_verifier c password stored =
     (case split_once ''$'' stored of
        Some (scheme, rest) \<Rightarrow>
          scheme = ''sha256'' \<and>
          (case split_once ''$'' rest of
             Some (salt_hex, expected_hex) \<Rightarrow>
               (case cc_hex_decode c salt_hex of
                  Some salt \<Rightarrow> length salt = VERIFIER_SALT_LEN \<and> password_digest c salt password = expected_hex
                | None \<Rightarrow> False)
           | None \<Rightarrow> False)
      | None \<Rightarrow> False)"

definition oidc_exchange_subject :: "cp_codec \<Rightarrow> string \<Rightarrow> string \<Rightarrow> string" where
  "oidc_exchange_subject c provider assertion =
     ''oidc:'' @ provider @ '':'' @ take 16 (cc_hex_encode c (cc_sha256 c assertion))"

section \<open>Tokens\<close>

fun wire_name :: "token_class \<Rightarrow> string" where
  "wire_name ControlSession = ''control_session''"
| "wire_name WorkloadExchange = ''workload_exchange''"
| "wire_name AgentClass = ''agent''"

fun token_prefix :: "token_class \<Rightarrow> string" where
  "token_prefix ControlSession = ''vxs_''"
| "token_prefix WorkloadExchange = ''vxw_''"
| "token_prefix AgentClass = ''vxa_''"

definition of_token :: "string \<Rightarrow> token_class option" where
  "of_token token =
     find (\<lambda>cl. starts_with (token_prefix cl) token) [ControlSession, WorkloadExchange, AgentClass]"

definition mint_token :: "cp_codec \<Rightarrow> token_class \<Rightarrow> string cp" where
  "mint_token c cl =
     cp_bind (draw_bytes ''token entropy unavailable'') (\<lambda>bytes. cp_ok (token_prefix cl @ cc_hex_encode c bytes))"

type_synonym auth_header = "string option"

definition bearer_token :: "auth_header \<Rightarrow> string option" where
  "bearer_token headers =
     Option.bind headers (\<lambda>value.
       Option.bind (case strip_prefix ''Bearer '' value of Some r \<Rightarrow> Some r | None \<Rightarrow> strip_prefix ''bearer '' value)
         (\<lambda>rest. if trim rest = [] then None else Some (trim rest)))"

definition authorize_route :: "auth_header \<Rightarrow> token_class list \<Rightarrow> cp_principal cp" where
  "authorize_route headers allowed =
     cp_bind (cp_lift (ok_or CpUnauthorized (bearer_token headers))) (\<lambda>token.
     cp_bind (cp_lift (ok_or CpUnauthorized (of_token token))) (\<lambda>cl.
       if cl \<notin> set allowed then cp_err CpForbidden
       else cp_bind (cp_read (resolve_token token)) (\<lambda>p. cp_lift (ok_or CpUnauthorized p))))"

definition ADMIN_CLASSES :: "token_class list" where
  "ADMIN_CLASSES = [ControlSession]"

definition SYNC_CLASSES :: "token_class list" where
  "SYNC_CLASSES = [ControlSession, WorkloadExchange]"

section \<open>Wire records\<close>

datatype session_request = PasswordGrant string string | OidcExchange string string

record session_response =
  sr_token :: string
  sr_token_class :: string

record workspace_view =
  wv_id :: string
  wv_name :: string

record project_view =
  pv_id :: project_id
  pv_workspace :: string
  pv_name :: string

record batch_objects_response =
  bo_stored :: nat
  bo_duplicates :: nat

record device_identity =
  di_public_key_hex :: string
  di_signature_hex :: string

record device_key_fingerprint =
  dk_public_key_hex :: string
  dk_fingerprint :: string

record query_missing_request =
  qm_known_object_ids :: "object_id list"
  qm_known_refs :: "ref_state list"
  qm_project :: project_id
  qm_device :: device_identity

record query_missing_response =
  qr_missing_objects :: "object_entry_wire list"
  qr_missing_objects_truncated :: bool
  qr_remote_refs :: "ref_state list"
  qr_remote_object_ids :: "object_id list"
  qr_policies :: "stored_policy list"
  qr_environments :: "environment_metadata list"
  qr_server_key_fingerprints :: "device_key_fingerprint list"

record put_ref_request =
  pr_namespace :: cp_namespace
  pr_commit :: commit_id
  pr_base_commit :: "commit_id option"
  pr_authorized :: bool

record create_agent_request =
  ca_display_name :: string
  ca_policy_name :: policy_name

record created_agent_response =
  cr_agent_id :: agent_id
  cr_policy_name :: policy_name
  cr_session_token :: string

record audit_ingest_result =
  ai_accepted :: nat
  ai_rejected :: "ingest_rejection list"

definition device_attestation_message :: "project_id \<Rightarrow> string \<Rightarrow> string" where
  "device_attestation_message project public_key_hex =
     ''vaultx-device-attestation-v1'' @ [newline] @ ''project:'' @ project @ [newline]
     @ ''public-key:'' @ public_key_hex @ [newline]"

section \<open>Handlers\<close>

definition MAX_LIST_ITEMS :: nat where
  "MAX_LIST_ITEMS = 10000"

definition DEFAULT_MAX_MISSING_OBJECTS :: nat where
  "DEFAULT_MAX_MISSING_OBJECTS = 10000"

record app_state =
  app_codec :: cp_codec
  app_max_missing_objects :: nat

definition new_app :: "cp_codec \<Rightarrow> app_state" where
  "new_app c = \<lparr>app_codec = c, app_max_missing_objects = DEFAULT_MAX_MISSING_OBJECTS\<rparr>"

definition fresh_typed_id :: "cp_codec \<Rightarrow> string \<Rightarrow> (string \<Rightarrow> (string, type_error) result) \<Rightarrow> string cp" where
  "fresh_typed_id c prefix parse =
     cp_bind (fresh_entity_id c prefix) (\<lambda>raw. cp_lift (map_err (\<lambda>_. CpStorage ''entity id'') (parse raw)))"

definition require_project :: "cp_principal \<Rightarrow> project_id \<Rightarrow> project_record cp" where
  "require_project p project =
     cp_bind (cp_read (store_get_project project)) (\<lambda>found.
     cp_bind (cp_lift (ok_or CpNotFound found)) (\<lambda>rec.
     cp_bind (cp_read (is_workspace_member (pj_workspace rec) (subject p))) (\<lambda>answer.
     cp_bind (cp_lift answer) (\<lambda>member. if \<not> member then cp_err CpForbidden else cp_ok rec))))"

definition is_provider_slug :: "string \<Rightarrow> bool" where
  "is_provider_slug provider \<longleftrightarrow>
     provider \<noteq> [] \<and> length provider \<le> 32
     \<and> list_all (\<lambda>ch. is_ascii_lowercase ch \<or> is_ascii_digit ch \<or> ch = CHR ''-'') provider"

definition open_session :: "cp_codec \<Rightarrow> string \<Rightarrow> token_class \<Rightarrow> session_response cp" where
  "open_session c sub cl =
     cp_bind (mint_token c cl) (\<lambda>token.
     cp_bind (cp_update (issue_session token \<lparr>subject = sub, principal_class = cl\<rparr>)) (\<lambda>_.
       cp_ok \<lparr>sr_token = token, sr_token_class = wire_name cl\<rparr>))"

fun create_session :: "app_state \<Rightarrow> session_request \<Rightarrow> session_response cp" where
  "create_session st (PasswordGrant username password) =
     (let login = trim username
      in if login = [] \<or> password = [] then cp_err (CpBadRequest ''credentials required'')
         else cp_bind (cp_read (find_user login)) (\<lambda>found.
              cp_bind (cp_lift (ok_or CpUnauthorized found)) (\<lambda>user.
                if \<not> verify_verifier (app_codec st) password (usr_verifier user) then cp_err CpUnauthorized
                else open_session (app_codec st) login ControlSession)))"
| "create_session st (OidcExchange provider assertion) =
     (if \<not> is_provider_slug provider \<or> assertion = [] then cp_err (CpBadRequest ''invalid oidc exchange grant'')
      else let sub = oidc_exchange_subject (app_codec st) provider assertion
           in cp_bind (cp_read (allows_oidc_subject provider sub)) (\<lambda>allowed.
                if \<not> allowed then cp_err CpUnauthorized else open_session (app_codec st) sub WorkloadExchange))"

definition list_workspaces :: "app_state \<Rightarrow> auth_header \<Rightarrow> workspace_view list cp" where
  "list_workspaces st headers =
     cp_bind (authorize_route headers ADMIN_CLASSES) (\<lambda>p.
     cp_bind (cp_read (list_workspaces_for_user (subject p))) (\<lambda>ws.
       cp_ok (map (\<lambda>w. \<lparr>wv_id = ws_id w, wv_name = ws_name w\<rparr>) ws)))"

definition create_workspace :: "app_state \<Rightarrow> auth_header \<Rightarrow> workspace_view \<Rightarrow> workspace_view cp" where
  "create_workspace st headers body =
     cp_bind (authorize_route headers ADMIN_CLASSES) (\<lambda>p.
     cp_bind (fresh_typed_id (app_codec st) ''ws_'' (parse_prefixed_id ''ws_'')) (\<lambda>i.
     cp_bind (cp_update (store_create_workspace \<lparr>ws_id = i, ws_name = wv_name body, ws_owner = subject p\<rparr>)) (\<lambda>_.
     cp_bind (cp_update (add_workspace_member \<lparr>mb_workspace = i, mb_user = subject p, mb_role = ROLE_OWNER\<rparr>)) (\<lambda>_.
       cp_ok \<lparr>wv_id = i, wv_name = wv_name body\<rparr>))))"

definition get_project :: "app_state \<Rightarrow> auth_header \<Rightarrow> project_id \<Rightarrow> project_view cp" where
  "get_project st headers project =
     cp_bind (authorize_route headers ADMIN_CLASSES) (\<lambda>p.
     cp_bind (require_project p project) (\<lambda>rec.
       cp_ok \<lparr>pv_id = pj_id rec, pv_workspace = pj_workspace rec, pv_name = pj_name rec\<rparr>))"

definition validate_object_entry :: "cp_codec \<Rightarrow> object_entry_wire \<Rightarrow> (unit, control_error) result" where
  "validate_object_entry c e =
     (let expected_hex = (case strip_prefix ''obj_'' (oe_id e) of Some h \<Rightarrow> h | None \<Rightarrow> [])
      in if length expected_hex \<noteq> 64 \<or> oe_content_hash e \<noteq> expected_hex then Err CpHashMismatch
         else if cc_hex_encode c (cc_sha256 c (oe_envelope_json e)) \<noteq> expected_hex then Err CpHashMismatch
         else Ok ())"

text \<open>The loop of \<open>batch_objects\<close>; an entry that is refused ends it, and the entries before it stay stored.\<close>

fun put_entries ::
  "cp_codec \<Rightarrow> project_id \<Rightarrow> object_entry_wire list \<Rightarrow> nat \<Rightarrow> nat \<Rightarrow> (nat \<times> nat) cp" where
  "put_entries c project [] stored duplicates = cp_ok (stored, duplicates)"
| "put_entries c project (e # rest) stored duplicates =
     cp_bind (cp_lift (validate_object_entry c e)) (\<lambda>_.
     cp_bind (cp_update (put_object project e)) (\<lambda>fresh.
       if fresh then put_entries c project rest (stored + 1) duplicates
       else put_entries c project rest stored (duplicates + 1)))"

definition batch_objects ::
  "app_state \<Rightarrow> auth_header \<Rightarrow> project_id \<Rightarrow> object_entry_wire list \<Rightarrow> batch_objects_response cp" where
  "batch_objects st headers project entries =
     cp_bind (authorize_route headers ADMIN_CLASSES) (\<lambda>p.
     cp_bind (require_project p project) (\<lambda>_.
       if MAX_LIST_ITEMS < length entries then cp_err (CpBadRequest ''too many entries'')
       else
         cp_bind (put_entries (app_codec st) project entries 0 0) (\<lambda>(stored, duplicates).
         cp_bind (append_audit_event (app_codec st) (Some project) (subject p) ''objects.batch_upload''
                    (cc_json_str (app_codec st)
                       (JObject [(''duplicates'', json_nat duplicates), (''stored'', json_nat stored)]))) (\<lambda>_.
           cp_ok \<lparr>bo_stored = stored, bo_duplicates = duplicates\<rparr>))))"

definition key_bytes :: "cp_codec \<Rightarrow> string \<Rightarrow> (string, control_error) result" where
  "key_bytes c key_hex =
     and_then (ok_or (CpBadRequest ''device public key must be hex'') (cc_hex_decode c key_hex)) (\<lambda>bytes.
       if length bytes = 32 then Ok bytes else Err (CpBadRequest ''device public key must be 32 bytes''))"

definition validate_key :: "cp_codec \<Rightarrow> device_record \<Rightarrow> (string, control_error) result" where
  "validate_key c d = key_bytes c (dv_public_key_hex d)"

definition verify_device_identity ::
  "cp_codec \<Rightarrow> device_identity \<Rightarrow> project_id \<Rightarrow> (unit, control_error) result" where
  "verify_device_identity c d project =
     and_then (key_bytes c (di_public_key_hex d)) (\<lambda>key.
     and_then (ok_or (CpBadRequest ''device public key invalid'') (cc_public_key c key)) (\<lambda>public.
     and_then (ok_or (CpBadRequest ''device signature must be hex'') (cc_hex_decode c (di_signature_hex d))) (\<lambda>sig.
       if cc_verify c public (device_attestation_message project (di_public_key_hex d)) sig then Ok ()
       else Err CpSignatureInvalid)))"

fun fingerprints :: "cp_codec \<Rightarrow> device_record list \<Rightarrow> (device_key_fingerprint list, control_error) result" where
  "fingerprints c [] = Ok []"
| "fingerprints c (d # rest) =
     and_then (validate_key c d) (\<lambda>key.
     and_then (fingerprints c rest) (\<lambda>more.
       Ok (\<lparr>dk_public_key_hex = dv_public_key_hex d, dk_fingerprint = cc_hex_encode c (cc_sha256 c key)\<rparr> # more)))"

definition with_protection :: "project_id \<Rightarrow> store_state \<Rightarrow> ref_state \<Rightarrow> ref_state" where
  "with_protection project s r =
     (if rs_namespace r = CpEnvironments
      then r\<lparr>rs_protected := environment_protection project (rs_name r) s\<rparr> else r)"

definition query_missing ::
  "app_state \<Rightarrow> auth_header \<Rightarrow> project_id \<Rightarrow> query_missing_request \<Rightarrow> query_missing_response cp" where
  "query_missing st headers project body =
     cp_bind (authorize_route headers SYNC_CLASSES) (\<lambda>p.
       if qm_project body \<noteq> project then cp_err (CpBadRequest ''project mismatch'')
       else if MAX_LIST_ITEMS < length (qm_known_object_ids body)
       then cp_err (CpBadRequest ''too many known object ids'')
       else
         cp_bind (require_project p project) (\<lambda>rec.
         cp_bind (cp_lift (verify_device_identity (app_codec st) (qm_device body) project)) (\<lambda>_.
         cp_bind (cp_update (register_device
                    \<lparr>dv_public_key_hex = di_public_key_hex (qm_device body), dv_owner = subject p, dv_label = None\<rparr>)) (\<lambda>_.
         cp_bind (cp_read (list_workspace_device_keys (pj_workspace rec))) (\<lambda>devices.
         cp_bind (cp_lift (fingerprints (app_codec st) devices)) (\<lambda>server_keys.
         cp_bind (cp_read (list_object_ids project)) (\<lambda>remote_ids.
         cp_bind (cp_read (get_objects project (filter (\<lambda>i. i \<notin> set (qm_known_object_ids body)) remote_ids))) (\<lambda>missing.
         let truncated = app_max_missing_objects st < length missing;
             offered = (if truncated then take (app_max_missing_objects st) missing else missing)
         in
         cp_bind (cp_read (\<lambda>s. map (with_protection project s) (list_ref_states project s))) (\<lambda>remote_refs.
         let newest_head = map_option rs_commit
               (find (\<lambda>r. rs_namespace r = CpHeads \<and> rs_name r = ''main'') remote_refs)
         in
         cp_bind (cp_update (update_sync_state project (di_public_key_hex (qm_device body)) newest_head)) (\<lambda>_.
         cp_bind (append_audit_event (app_codec st) (Some project) (subject p) ''objects.query_missing''
                    (cc_json_str (app_codec st)
                       (JObject [(''known_objects'', json_nat (length (qm_known_object_ids body))),
                                 (''missing_returned'', json_nat (length offered)),
                                 (''missing_truncated'', JBool truncated)]))) (\<lambda>_.
         cp_bind (cp_read (store_list_policies project)) (\<lambda>policies.
         cp_bind (cp_read (list_environments project)) (\<lambda>environments.
           cp_ok \<lparr>qr_missing_objects = offered, qr_missing_objects_truncated = truncated,
                  qr_remote_refs = remote_refs, qr_remote_object_ids = remote_ids, qr_policies = policies,
                  qr_environments = environments, qr_server_key_fingerprints = server_keys\<rparr>)))))))))))))"

definition ref_conflict :: "ref_state option \<Rightarrow> control_error" where
  "ref_conflict current =
     CpConflict (JObject [(''current_commit'', case current of Some r \<Rightarrow> JString (rs_commit r) | None \<Rightarrow> JNull),
                          (''error'', JString ''ref_conflict'')])"

definition list_refs :: "app_state \<Rightarrow> auth_header \<Rightarrow> project_id \<Rightarrow> ref_state list cp" where
  "list_refs st headers project =
     cp_bind (authorize_route headers ADMIN_CLASSES) (\<lambda>p.
     cp_bind (require_project p project) (\<lambda>_. cp_read (list_ref_states project)))"

fun namespace_json :: "cp_namespace \<Rightarrow> json" where
  "namespace_json CpHeads = JString ''heads''"
| "namespace_json CpEnvironments = JString ''environments''"

definition put_ref ::
  "app_state \<Rightarrow> auth_header \<Rightarrow> project_id \<Rightarrow> string \<Rightarrow> put_ref_request \<Rightarrow> commit_id cp" where
  "put_ref st headers project ref_name body =
     cp_bind (authorize_route headers ADMIN_CLASSES) (\<lambda>p.
     cp_bind (require_project p project) (\<lambda>_.
       if is_err (parse_branch_ref ref_name) then cp_err (CpBadRequest ''invalid ref name'')
       else
         cp_bind (cp_read (get_ref_state project (pr_namespace body) ref_name)) (\<lambda>current.
         cp_bind (cp_read (environment_protection project ref_name)) (\<lambda>protected.
           if pr_namespace body = CpEnvironments \<and> protected
              \<and> (case current of None \<Rightarrow> True | Some r \<Rightarrow> rs_commit r \<noteq> pr_commit body)
              \<and> \<not> pr_authorized body
           then cp_err (CpConflict (JObject [(''error'', JString ''protected_environment_ref''), (''name'', JString ref_name)]))
           else
             cp_bind (cp_update (compare_and_swap_ref project (pr_namespace body) ref_name (pr_base_commit body) (pr_commit body)))
               (\<lambda>outcome.
                  case outcome of
                    CasRejected found \<Rightarrow> cp_err (ref_conflict found)
                  | CasApplied next_state \<Rightarrow>
                      cp_bind (append_audit_event (app_codec st) (Some project) (subject p) ''ref.update''
                         (cc_json_str (app_codec st)
                            (JObject [(''commit'', JString (rs_commit next_state)),
                                      (''namespace'', namespace_json (rs_namespace next_state)),
                                      (''ref'', JString (rs_name next_state))])))
                        (\<lambda>_. cp_ok (pr_commit body)))))))"

definition list_policies :: "app_state \<Rightarrow> auth_header \<Rightarrow> project_id \<Rightarrow> stored_policy list cp" where
  "list_policies st headers project =
     cp_bind (authorize_route headers SYNC_CLASSES) (\<lambda>p.
     cp_bind (require_project p project) (\<lambda>_. cp_read (store_list_policies project)))"

definition put_policy :: "app_state \<Rightarrow> auth_header \<Rightarrow> project_id \<Rightarrow> string \<Rightarrow> stored_policy \<Rightarrow> stored_policy cp" where
  "put_policy st headers project policy_name body =
     cp_bind (authorize_route headers ADMIN_CLASSES) (\<lambda>p.
     cp_bind (require_project p project) (\<lambda>_.
     cp_bind (cp_lift (map_err (\<lambda>_. CpBadRequest ''invalid policy name'') (parse_policy_name policy_name))) (\<lambda>name.
       if cc_json_parse (app_codec st) (sp_document_json body) = None
       then cp_err (CpBadRequest ''policy document must be JSON'')
       else
         let named = body\<lparr>sp_name := name\<rparr>
         in cp_bind (cp_update (upsert_policy project named)) (\<lambda>_.
            cp_bind (append_audit_event (app_codec st) (Some project) (subject p) ''policy.update''
                       (cc_json_str (app_codec st) (JObject [(''policy'', JString name)]))) (\<lambda>_.
              cp_ok named)))))"

definition list_agents :: "app_state \<Rightarrow> auth_header \<Rightarrow> project_id \<Rightarrow> agent_view list cp" where
  "list_agents st headers project =
     cp_bind (authorize_route headers ADMIN_CLASSES) (\<lambda>p.
     cp_bind (require_project p project) (\<lambda>_.
     cp_bind (cp_read (store_list_agents project)) cp_lift))"

definition create_agent ::
  "app_state \<Rightarrow> auth_header \<Rightarrow> project_id \<Rightarrow> create_agent_request \<Rightarrow> created_agent_response cp" where
  "create_agent st headers project body =
     cp_bind (authorize_route headers ADMIN_CLASSES) (\<lambda>p.
     cp_bind (require_project p project) (\<lambda>_.
     cp_bind (fresh_typed_id (app_codec st) ''agent_'' (parse_prefixed_id ''agent_'')) (\<lambda>i.
     cp_bind (cp_update (create_agent_identity project i (ca_display_name body) (ca_policy_name body) (subject p))) (\<lambda>_.
     cp_bind (mint_token (app_codec st) AgentClass) (\<lambda>token.
     cp_bind (cp_update (issue_agent_session token
                \<lparr>asc_agent_id = i, asc_parent_principal = subject p, asc_project = project\<rparr>)) (\<lambda>_.
     cp_bind (append_audit_event (app_codec st) (Some project) (subject p) ''agent.created''
                (cc_json_str (app_codec st)
                   (JObject [(''agent_id'', JString i), (''policy'', JString (ca_policy_name body))]))) (\<lambda>_.
       cp_ok \<lparr>cr_agent_id = i, cr_policy_name = ca_policy_name body, cr_session_token = token\<rparr>)))))))"

definition project_audit :: "app_state \<Rightarrow> auth_header \<Rightarrow> project_id \<Rightarrow> audit_event_view list cp" where
  "project_audit st headers project =
     cp_bind (authorize_route headers ADMIN_CLASSES) (\<lambda>p.
     cp_bind (require_project p project) (\<lambda>_. cp_read (list_audit_events project)))"

definition ingest_audit :: "app_state \<Rightarrow> auth_header \<Rightarrow> project_id \<Rightarrow> string \<Rightarrow> audit_ingest_result cp" where
  "ingest_audit st headers project body =
     cp_bind (authorize_route headers ADMIN_CLASSES) (\<lambda>p.
     cp_bind (require_project p project) (\<lambda>_.
     cp_bind (cp_lift (ok_or (CpBadRequest ''malformed audit ingest envelope'') (cc_ingest_parse (app_codec st) body))) (\<lambda>events.
       if MAX_LIST_ITEMS < length events then cp_err (CpBadRequest ''too many events'')
       else
         cp_bind (append_events (app_codec st) project events) (\<lambda>(accepted, rejected).
         cp_bind (append_audit_event (app_codec st) (Some project) (subject p) ''audit.ingest''
                    (cc_json_str (app_codec st)
                       (JObject [(''accepted'', json_nat accepted), (''rejected'', json_nat (length rejected)),
                                 (''submitted'', json_nat (length events))]))) (\<lambda>_.
           cp_ok \<lparr>ai_accepted = accepted, ai_rejected = rejected\<rparr>)))))"

section \<open>The router\<close>

datatype api_request =
    PostSession session_request
  | GetWorkspaces
  | PostWorkspaces workspace_view
  | GetProject project_id
  | PostObjectsBatch project_id "object_entry_wire list"
  | PostQueryMissing project_id query_missing_request
  | GetRefs project_id
  | PutRef project_id string put_ref_request
  | GetPolicies project_id
  | PutPolicy project_id string stored_policy
  | GetAgents project_id
  | PostAgents project_id create_agent_request
  | GetAudit project_id
  | PostAudit project_id string

datatype api_response =
    SessionBody session_response
  | WorkspacesBody "workspace_view list"
  | WorkspaceBody workspace_view
  | ProjectBody project_view
  | BatchBody batch_objects_response
  | MissingBody query_missing_response
  | RefsBody "ref_state list"
  | RefBody commit_id
  | PoliciesBody "stored_policy list"
  | PolicyBody stored_policy
  | AgentsBody "agent_view list"
  | AgentBody created_agent_response
  | AuditBody "audit_event_view list"
  | IngestBody audit_ingest_result

definition respond :: "('a \<Rightarrow> api_response) \<Rightarrow> 'a cp \<Rightarrow> api_response cp" where
  "respond f m = cp_bind m (\<lambda>a. cp_ok (f a))"

fun serve :: "app_state \<Rightarrow> auth_header \<Rightarrow> api_request \<Rightarrow> api_response cp" where
  "serve st h (PostSession r) = respond SessionBody (create_session st r)"
| "serve st h GetWorkspaces = respond WorkspacesBody (list_workspaces st h)"
| "serve st h (PostWorkspaces b) = respond WorkspaceBody (create_workspace st h b)"
| "serve st h (GetProject p) = respond ProjectBody (get_project st h p)"
| "serve st h (PostObjectsBatch p es) = respond BatchBody (batch_objects st h p es)"
| "serve st h (PostQueryMissing p b) = respond MissingBody (query_missing st h p b)"
| "serve st h (GetRefs p) = respond RefsBody (list_refs st h p)"
| "serve st h (PutRef p n b) = respond RefBody (put_ref st h p n b)"
| "serve st h (GetPolicies p) = respond PoliciesBody (list_policies st h p)"
| "serve st h (PutPolicy p n b) = respond PolicyBody (put_policy st h p n b)"
| "serve st h (GetAgents p) = respond AgentsBody (list_agents st h p)"
| "serve st h (PostAgents p b) = respond AgentBody (create_agent st h p b)"
| "serve st h (GetAudit p) = respond AuditBody (project_audit st h p)"
| "serve st h (PostAudit p b) = respond IngestBody (ingest_audit st h p b)"

section \<open>Reference definitions\<close>

fun route_classes :: "api_request \<Rightarrow> token_class list" where
  "route_classes (PostQueryMissing _ _) = [ControlSession, WorkloadExchange]"
| "route_classes (GetPolicies _) = [ControlSession, WorkloadExchange]"
| "route_classes _ = [ControlSession]"

fun route_project :: "api_request \<Rightarrow> project_id option" where
  "route_project (GetProject p) = Some p"
| "route_project (PostObjectsBatch p _) = Some p"
| "route_project (PostQueryMissing p _) = Some p"
| "route_project (GetRefs p) = Some p"
| "route_project (PutRef p _ _) = Some p"
| "route_project (GetPolicies p) = Some p"
| "route_project (PutPolicy p _ _) = Some p"
| "route_project (GetAgents p) = Some p"
| "route_project (PostAgents p _) = Some p"
| "route_project (GetAudit p) = Some p"
| "route_project (PostAudit p _) = Some p"
| "route_project _ = None"

definition presents :: "auth_header \<Rightarrow> token_class list \<Rightarrow> store_state \<Rightarrow> cp_principal \<Rightarrow> bool" where
  "presents h classes s p \<longleftrightarrow>
     (\<exists>token cl. bearer_token h = Some token \<and> of_token token = Some cl \<and> cl \<in> set classes
        \<and> resolve_token token s = Some p)"

definition belongs :: "cp_principal \<Rightarrow> project_id \<Rightarrow> store_state \<Rightarrow> bool" where
  "belongs p project s \<longleftrightarrow>
     (\<exists>rec. store_get_project project s = Some rec \<and> is_workspace_member (pj_workspace rec) (subject p) s = Ok True)"

text \<open>The caller presents a live token of a class the route takes, and belongs to the project's workspace.\<close>

definition admitted :: "auth_header \<Rightarrow> api_request \<Rightarrow> store_state \<Rightarrow> bool" where
  "admitted h req s \<longleftrightarrow>
     (\<exists>p. presents h (route_classes req) s p \<and> (\<forall>project. route_project req = Some project \<longrightarrow> belongs p project s))"

definition remote_id :: "cp_codec \<Rightarrow> string \<Rightarrow> object_id" where
  "remote_id c envelope = ''obj_'' @ cc_hex_encode c (cc_sha256 c envelope)"

definition addressed :: "cp_codec \<Rightarrow> store_state \<Rightarrow> bool" where
  "addressed c s \<longleftrightarrow>
     (\<forall>p i e. bt_get (st_objects s) (p, i) = Some e \<longrightarrow> i = remote_id c (oe_envelope_json e) \<and> oe_id e = i)"

definition classes_match :: "store_state \<Rightarrow> bool" where
  "classes_match s \<longleftrightarrow> (\<forall>t p. resolve_token t s = Some p \<longrightarrow> of_token t = Some (principal_class p))"

definition serve_all :: "app_state \<Rightarrow> (auth_header \<times> api_request) list \<Rightarrow> cp_world \<Rightarrow> cp_world" where
  "serve_all st reqs w = fold (\<lambda>(h, req) w. snd (serve st h req w)) reqs w"

fun authorized_move :: "project_id \<Rightarrow> string \<Rightarrow> api_request \<Rightarrow> bool" where
  "authorized_move p n (PutRef q m b) = (p = q \<and> n = m \<and> pr_namespace b = CpEnvironments \<and> pr_authorized b)"
| "authorized_move p n _ = False"

section \<open>Lemmas: authorization\<close>

lemma authorize_route_cases:
  obtains (granted) p where "authorize_route h cls w = (Ok p, w)" "presents h cls (cw_store w) p"
  | (refused) e where "authorize_route h cls w = (Err e, w)" "\<forall>p. \<not> presents h cls (cw_store w) p"
proof (cases "bearer_token h")
  case None
  then show thesis by (intro refused) (auto simp: authorize_route_def cp_bind_def cp_lift_def presents_def)
next
  case (Some token)
  show thesis
  proof (cases "of_token token")
    case None
    then show thesis using Some by (intro refused) (auto simp: authorize_route_def cp_bind_def cp_lift_def presents_def)
  next
    case (Some cl)
    note known = \<open>bearer_token h = Some token\<close> Some
    show thesis
    proof (cases "cl \<in> set cls")
      case False
      then show thesis using known
        by (intro refused) (auto simp: authorize_route_def cp_bind_def cp_lift_def cp_err_def presents_def)
    next
      case True
      then show thesis using known refused granted
        by (cases "resolve_token token (cw_store w)")
           (auto simp: authorize_route_def cp_bind_def cp_lift_def cp_read_def presents_def)
    qed
  qed
qed

lemma presents_unique: "presents h cls s p \<Longrightarrow> presents h cls s q \<Longrightarrow> p = q"
  by (auto simp: presents_def)

lemma require_project_cases:
  obtains (granted) rec where "require_project p project w = (Ok rec, w)" "belongs p project (cw_store w)"
      "store_get_project project (cw_store w) = Some rec"
  | (refused) e where "require_project p project w = (Err e, w)" "\<not> belongs p project (cw_store w)"
proof (cases "store_get_project project (cw_store w)")
  case None
  then show thesis by (intro refused) (auto simp: require_project_def cp_bind_def cp_read_def cp_lift_def belongs_def)
next
  case (Some rec)
  show thesis
  proof (cases "is_workspace_member (pj_workspace rec) (subject p) (cw_store w)")
    case (Ok b)
    with Some show thesis using granted refused
      by (cases b) (auto simp: require_project_def cp_bind_def cp_read_def cp_lift_def cp_err_def cp_ok_def belongs_def)
  next
    case (Err e)
    with Some show thesis
      by (intro refused) (auto simp: require_project_def cp_bind_def cp_read_def cp_lift_def belongs_def)
  qed
qed

lemma guard_refuses:
  assumes "\<not> (\<exists>p. presents h cls (cw_store w) p \<and> belongs p project (cw_store w))"
  shows "\<exists>e. cp_bind (authorize_route h cls) (\<lambda>p. cp_bind (require_project p project) (f p)) w = (Err e, w)"
proof (cases rule: authorize_route_cases [of h cls w])
  case (granted p)
  with assms have "\<not> belongs p project (cw_store w)" by blast
  then show ?thesis using granted by (cases rule: require_project_cases [of p project w]) (auto simp: cp_bind_def)
qed (auto simp: cp_bind_def)

lemma bind_refused: "m w = (Err e, w') \<Longrightarrow> cp_bind m f w = (Err e, w')"
  by (simp add: cp_bind_def)

lemma query_missing_refused:
  assumes "\<not> (\<exists>p. presents h SYNC_CLASSES (cw_store w) p \<and> belongs p project (cw_store w))"
  shows "\<exists>e. query_missing st h project b w = (Err e, w)"
proof (cases rule: authorize_route_cases [of h SYNC_CLASSES w])
  case (granted p)
  with assms have "\<not> belongs p project (cw_store w)" by blast
  then show ?thesis using granted
    by (cases rule: require_project_cases [of p project w]) (auto simp: query_missing_def cp_bind_def cp_err_def)
qed (auto simp: query_missing_def cp_bind_def)

lemma project_handlers_refuse:
  assumes "\<not> (\<exists>p. presents h ADMIN_CLASSES (cw_store w) p \<and> belongs p project (cw_store w))"
  shows "\<exists>e. get_project st h project w = (Err e, w)" "\<exists>e. batch_objects st h project es w = (Err e, w)"
    "\<exists>e. list_refs st h project w = (Err e, w)" "\<exists>e. put_ref st h project n pr w = (Err e, w)"
    "\<exists>e. put_policy st h project n d w = (Err e, w)" "\<exists>e. list_agents st h project w = (Err e, w)"
    "\<exists>e. create_agent st h project a w = (Err e, w)" "\<exists>e. project_audit st h project w = (Err e, w)"
    "\<exists>e. ingest_audit st h project b w = (Err e, w)"
  unfolding get_project_def batch_objects_def list_refs_def put_ref_def put_policy_def list_agents_def create_agent_def
    project_audit_def ingest_audit_def
  by (rule guard_refuses [OF assms])+

lemma list_policies_refuses:
  "\<not> (\<exists>p. presents h SYNC_CLASSES (cw_store w) p \<and> belongs p project (cw_store w)) \<Longrightarrow>
     \<exists>e. list_policies st h project w = (Err e, w)"
  unfolding list_policies_def by (rule guard_refuses)

lemma respond_refused: "\<exists>e. m w = (Err e, w) \<Longrightarrow> \<exists>e. respond f m w = (Err e, w)"
  by (auto simp: respond_def cp_bind_def)

lemma serve_refuses:
  assumes "\<not> admitted h req (cw_store w)" "\<And>r. req \<noteq> PostSession r"
  shows "\<exists>e. serve st h req w = (Err e, w)"
proof (cases "route_project req")
  case None
  with assms have "\<not> presents h ADMIN_CLASSES (cw_store w) p" "req = GetWorkspaces \<or> (\<exists>b. req = PostWorkspaces b)" for p
    by (cases req; auto simp: admitted_def ADMIN_CLASSES_def)+
  then show ?thesis
    by (cases rule: authorize_route_cases [of h ADMIN_CLASSES w])
       (auto simp: respond_def list_workspaces_def create_workspace_def cp_bind_def)
next
  case (Some project)
  then have no: "\<not> (\<exists>p. presents h (route_classes req) (cw_store w) p \<and> belongs p project (cw_store w))"
    using assms(1) by (auto simp: admitted_def)
  show ?thesis
    using Some no project_handlers_refuse [of h w project] list_policies_refuses [of h w project]
      query_missing_refused [of h w project]
    unfolding ADMIN_CLASSES_def SYNC_CLASSES_def by (cases req) (auto intro!: respond_refused)
qed

lemma agent_token_refused:
  assumes "bearer_token h = Some t" "of_token t = Some AgentClass" "\<And>r. req \<noteq> PostSession r"
  shows "serve st h req w = (Err CpForbidden, w)"
proof -
  have "authorize_route h ADMIN_CLASSES w = (Err CpForbidden, w)" "authorize_route h SYNC_CLASSES w = (Err CpForbidden, w)"
    using assms(1,2)
    by (simp_all add: authorize_route_def cp_bind_def cp_lift_def cp_err_def ADMIN_CLASSES_def SYNC_CLASSES_def)
  then show ?thesis
    using assms(3)
    by (cases req) (auto simp: respond_def cp_bind_def list_workspaces_def create_workspace_def get_project_def
        batch_objects_def query_missing_def list_refs_def put_ref_def list_policies_def put_policy_def list_agents_def
        create_agent_def project_audit_def ingest_audit_def)
qed

section \<open>The contract of a frame\<close>

text \<open>
  A relation between the store before and after a request.  Whoever shows that it holds of the store methods
  that the handlers call gets it for every route.
\<close>

definition framed :: "(store_state \<Rightarrow> store_state \<Rightarrow> bool) \<Rightarrow> 'a cp \<Rightarrow> bool" where
  "framed R m \<longleftrightarrow> (\<forall>w. R (cw_store w) (cw_store (snd (m w))))"

named_theorems frame_rules \<open>what a frame gives for the combinators\<close>

locale store_frame =
  fixes c :: cp_codec
    and R :: "store_state \<Rightarrow> store_state \<Rightarrow> bool"
  assumes frame_refl: "R s s"
    and frame_trans: "R s s1 \<Longrightarrow> R s1 s2 \<Longrightarrow> R s s2"
    and frame_audit: "R s (s\<lparr>st_audit := st_audit s @ new\<rparr>)"
    and frame_session: "R s (snd (issue_session (token_prefix cl @ x) \<lparr>subject = sub, principal_class = cl\<rparr> s))"
    and frame_workspace: "R s (snd (store_create_workspace r s))"
    and frame_member: "R s (snd (add_workspace_member m s))"
    and frame_device: "R s (snd (register_device d s))"
    and frame_object: "validate_object_entry c e = Ok () \<Longrightarrow> R s (snd (put_object p e s))"
    and frame_policy: "R s (snd (upsert_policy p pd s))"
    and frame_agent: "R s (snd (create_agent_identity p a dn pn by_whom s))"
    and frame_agent_session: "R s (snd (issue_agent_session t ctx s))"
    and frame_sync: "R s (snd (update_sync_state p k newest s))"
begin

lemma framed_bind [frame_rules]: "framed R m \<Longrightarrow> (\<And>a. framed R (f a)) \<Longrightarrow> framed R (cp_bind m f)"
  unfolding framed_def cp_bind_def
  by (auto split: prod.splits result.splits) (metis frame_trans snd_conv)+

lemma framed_bind_at:
  "R (cw_store w) (cw_store (snd (m w))) \<Longrightarrow> (\<And>a. framed R (f a)) \<Longrightarrow>
     R (cw_store w) (cw_store (snd (cp_bind m f w)))"
  unfolding framed_def cp_bind_def by (auto split: prod.splits result.splits) (metis frame_trans snd_conv)+

lemma framed_simple [frame_rules]:
  "framed R (cp_ok a)" "framed R (cp_err e)" "framed R (cp_lift r)" "framed R (cp_read g)"
  by (simp_all add: framed_def cp_ok_def cp_err_def cp_lift_def cp_read_def frame_refl)

lemma framed_update: "(\<And>s. R s (snd (g s))) \<Longrightarrow> framed R (cp_update g)"
  by (simp add: framed_def cp_update_store)

lemma framed_streams [frame_rules]: "framed R (draw_bytes x)" "framed R clock_now"
  unfolding framed_def using draw_bytes_store clock_now_store frame_refl by (metis prod.collapse)+

lemma framed_audit [frame_rules]: "framed R (append_audit_event cc p a x d)" "framed R (append_events cc q es)"
  unfolding framed_def append_events_def
  using append_audit_event_store append_from_store frame_audit by (metis prod.collapse)+

lemmas framed_calls [frame_rules] =
  framed_update [OF frame_session] framed_update [OF frame_workspace] framed_update [OF frame_member]
  framed_update [OF frame_device] framed_update [OF frame_policy] framed_update [OF frame_agent]
  framed_update [OF frame_agent_session] framed_update [OF frame_sync]

lemma framed_if [frame_rules]: "(b \<Longrightarrow> framed R m) \<Longrightarrow> (\<not> b \<Longrightarrow> framed R n) \<Longrightarrow> framed R (if b then m else n)"
  by simp

lemma framed_case_prod [frame_rules]: "(\<And>x y. framed R (f x y)) \<Longrightarrow> framed R (case z of (x, y) \<Rightarrow> f x y)"
  by (cases z) simp

lemma framed_authorize [frame_rules]: "framed R (authorize_route h cls)" "framed R (require_project p project)"
  unfolding authorize_route_def require_project_def by (intro frame_rules)+

lemma framed_fresh [frame_rules]: "framed R (fresh_typed_id cc prefix parse)" "framed R (mint_token cc cl)"
  unfolding fresh_typed_id_def fresh_entity_id_def mint_token_def by (intro frame_rules)+

lemma framed_checked: "(\<And>a. r = Ok a \<Longrightarrow> framed R (f a)) \<Longrightarrow> framed R (cp_bind (cp_lift r) f)"
  by (cases r) (auto simp: framed_def cp_bind_def cp_lift_def frame_refl)

lemma framed_case_cas [frame_rules]:
  "(\<And>x. framed R (f x)) \<Longrightarrow> (\<And>x. framed R (g x)) \<Longrightarrow>
     framed R (case out of CasApplied x \<Rightarrow> f x | CasRejected x \<Rightarrow> g x)"
  by (cases out) auto

lemma framed_put_entries [frame_rules]: "framed R (put_entries c project es n m)"
proof (induction es arbitrary: n m)
  case (Cons e es)
  show ?case
    unfolding put_entries.simps
    by (rule framed_checked) (auto intro!: framed_bind framed_if framed_update frame_object Cons.IH)
qed (simp add: framed_simple)

lemma framed_open_session [frame_rules]: "framed R (open_session cc sub cl)"
proof -
  have "framed R (cp_bind (mint_token cc cl) f)" if "\<And>x. framed R (f (token_prefix cl @ x))" for f :: "string \<Rightarrow> session_response cp"
    unfolding mint_token_def framed_def
  proof
    fix w
    show "R (cw_store w) (cw_store (snd (cp_bind (cp_bind (draw_bytes ''token entropy unavailable'')
        (\<lambda>bytes. cp_ok (token_prefix cl @ cc_hex_encode cc bytes))) f w)))"
    proof (cases "draw_bytes ''token entropy unavailable'' w")
      case (Pair r w1)
      have "R (cw_store w1) (cw_store (snd (f (token_prefix cl @ x) w1)))" for x
        using that by (simp add: framed_def)
      with Pair draw_bytes_store [OF Pair] show ?thesis
        by (cases r) (simp_all add: cp_bind_def cp_ok_def frame_refl)
    qed
  qed
  note mint = this
  show ?thesis
    unfolding open_session_def by (rule mint) (intro framed_bind framed_simple framed_update frame_session)
qed

lemma framed_create_session [frame_rules]: "framed R (create_session st r)"
  by (cases r) (auto simp: Let_def intro!: frame_rules)

lemma serve_framed:
  assumes "app_codec st = c" "\<And>p n b. req \<noteq> PutRef p n b"
  shows "framed R (serve st h req)"
  using assms(2)
  by (cases req) (auto simp: assms(1) respond_def list_workspaces_def create_workspace_def get_project_def
      batch_objects_def query_missing_def list_refs_def list_policies_def put_policy_def list_agents_def
      create_agent_def project_audit_def ingest_audit_def Let_def intro!: frame_rules)

lemma put_ref_framed:
  assumes "\<And>x y s. R s (snd (compare_and_swap_ref project (pr_namespace b) n x y s))"
  shows "framed R (put_ref st h project n b)"
  unfolding put_ref_def by (intro frame_rules framed_update assms)

end

section \<open>Frames of the server\<close>

definition objects_kept :: "cp_codec \<Rightarrow> store_state \<Rightarrow> store_state \<Rightarrow> bool" where
  "objects_kept c s s' \<longleftrightarrow>
     (addressed c s \<longrightarrow> addressed c s') \<and> (\<forall>k e. bt_get (st_objects s) k = Some e \<longrightarrow> bt_get (st_objects s') k = Some e)"

definition ref_kept :: "ref_key \<Rightarrow> store_state \<Rightarrow> store_state \<Rightarrow> bool" where
  "ref_kept key s s' \<longleftrightarrow> tip_of key s' = tip_of key s \<and> st_environments s' = st_environments s"

definition classes_kept :: "store_state \<Rightarrow> store_state \<Rightarrow> bool" where
  "classes_kept s s' \<longleftrightarrow> (classes_match s \<longrightarrow> classes_match s')"

lemma validated_entry: "validate_object_entry c e = Ok () \<Longrightarrow> oe_id e = remote_id c (oe_envelope_json e)"
  by (auto simp: validate_object_entry_def Let_def remote_id_def strip_prefix_Some_iff split: if_splits option.splits)

lemma put_object_addressed:
  assumes "validate_object_entry c e = Ok ()"
  shows "objects_kept c s (snd (put_object p e s))"
  using validated_entry [OF assms]
  by (auto simp: put_object_def objects_kept_def addressed_def bt_get_insert split: option.splits)

lemma of_token_prefix: "of_token (token_prefix cl @ x) = Some cl"
  by (cases cl) (simp_all add: of_token_def starts_with_def)

lemmas other_ops = issue_session_def store_create_workspace_def add_workspace_member_def register_device_def
  upsert_policy_def create_agent_identity_def issue_agent_session_def update_sync_state_def

lemma objects_kept_same: "st_objects s' = st_objects s \<Longrightarrow> objects_kept c s s'"
  by (simp add: objects_kept_def addressed_def)

lemma ref_kept_same: "st_refs s' = st_refs s \<and> st_environments s' = st_environments s \<Longrightarrow> ref_kept key s s'"
  by (simp add: ref_kept_def tip_of_def)

lemma classes_kept_same: "st_sessions s' = st_sessions s \<Longrightarrow> classes_kept s s'"
  by (simp add: classes_kept_def classes_match_def resolve_token_def)

lemma kept_trans:
  "objects_kept c s s1 \<Longrightarrow> objects_kept c s1 s2 \<Longrightarrow> objects_kept c s s2"
  "ref_kept key s s1 \<Longrightarrow> ref_kept key s1 s2 \<Longrightarrow> ref_kept key s s2"
  "classes_kept s s1 \<Longrightarrow> classes_kept s1 s2 \<Longrightarrow> classes_kept s s2"
  by (simp_all add: objects_kept_def ref_kept_def classes_kept_def)

lemma session_classes:
  "classes_kept s (snd (issue_session (token_prefix cl @ x) \<lparr>subject = sub, principal_class = cl\<rparr> s))"
  by (auto simp: classes_kept_def classes_match_def issue_session_def resolve_token_def bt_get_insert of_token_prefix)

interpretation objects_frame: store_frame c "objects_kept c" for c
  by unfold_locales
     (fact kept_trans put_object_addressed | rule objects_kept_same, simp add: other_ops)+

interpretation ref_frame: store_frame c "ref_kept key" for c key
  by unfold_locales
     (fact kept_trans | rule ref_kept_same, simp add: other_ops put_object_def split: option.split)+

interpretation class_frame: store_frame c classes_kept for c
  by unfold_locales
     (fact kept_trans session_classes | rule classes_kept_same, simp add: other_ops put_object_def split: option.split)+

lemma cas_keeps:
  "objects_kept c s (snd (compare_and_swap_ref p ns n x y s))"
  "classes_kept s (snd (compare_and_swap_ref p ns n x y s))"
  "key \<noteq> (p, namespace_rank ns, n) \<Longrightarrow> ref_kept key s (snd (compare_and_swap_ref p ns n x y s))"
  by (auto simp: compare_and_swap_ref_def Let_def objects_kept_def addressed_def classes_kept_def classes_match_def
      resolve_token_def ref_kept_def tip_of_def bt_get_insert split: option.splits)

lemma respond_framed: "framed R m \<Longrightarrow> framed R (respond f m)"
  by (auto simp: framed_def respond_def cp_bind_def cp_ok_def split: prod.splits result.splits) (metis snd_conv)+

lemma serve_objects: "framed (objects_kept (app_codec st)) (serve st h req)"
proof (cases "\<exists>p n b. req = PutRef p n b")
  case True
  then show ?thesis by (auto intro!: respond_framed objects_frame.put_ref_framed cas_keeps)
qed (auto intro: objects_frame.serve_framed)

lemma serve_classes: "framed classes_kept (serve st h req)"
proof (cases "\<exists>p n b. req = PutRef p n b")
  case True
  then show ?thesis by (auto intro!: respond_framed class_frame.put_ref_framed cas_keeps)
qed (auto intro: class_frame.serve_framed)

text \<open>The one route that moves a ref, on the environment in question.\<close>

abbreviation env_key :: "project_id \<Rightarrow> string \<Rightarrow> ref_key" where
  "env_key project n \<equiv> (project, namespace_rank CpEnvironments, n)"

lemma env_tip: "tip_of (env_key project n) s = map_option rs_commit (get_ref_state project CpEnvironments n s)"
  by (simp add: tip_of_def get_ref_state_def)

lemma swap_to_same:
  assumes "tip_of key s = Some y" "key = (p, namespace_rank ns, n)"
  shows "ref_kept key s (snd (compare_and_swap_ref p ns n x y s))"
  using assms swap_step(2) [of key p ns n x y s]
  by (auto simp: ref_kept_def compare_and_swap_ref_def Let_def split: option.splits)

lemma put_ref_protected:
  assumes "environment_protection project n (cw_store w)" "pr_namespace b = CpEnvironments" "\<not> pr_authorized b"
  shows "ref_kept (env_key project n) (cw_store w) (cw_store (snd (put_ref st h project n b w)))"
proof (cases rule: authorize_route_cases [of h ADMIN_CLASSES w])
  case (refused e)
  then show ?thesis by (simp add: put_ref_def cp_bind_def ref_frame.frame_refl)
next
  case (granted p)
  show ?thesis
  proof (cases rule: require_project_cases [of p project w])
    case (refused e)
    with granted show ?thesis by (simp add: put_ref_def cp_bind_def ref_frame.frame_refl)
  next
    case granted2: (granted rec)
    show ?thesis
    proof (cases "\<not> is_err (parse_branch_ref n) \<and> tip_of (env_key project n) (cw_store w) = Some (pr_commit b)")
      case False
      with granted granted2 assms show ?thesis
        by (auto simp: put_ref_def cp_bind_def cp_read_def cp_err_def ref_frame.frame_refl env_tip
            simp del: namespace_rank.simps split: option.splits)
    next
      case True
      note swap = swap_to_same [OF conjunct2 [OF True] HOL.refl]
      have "ref_kept (env_key project n) (cw_store w) (cw_store (snd (cp_bind
          (cp_update (compare_and_swap_ref project CpEnvironments n (pr_base_commit b) (pr_commit b))) k w)))"
        if "\<And>out. framed (ref_kept (env_key project n)) (k out)" for k :: "ref_cas_outcome \<Rightarrow> commit_id cp"
        by (rule ref_frame.framed_bind_at) (simp_all add: cp_update_store swap that del: namespace_rank.simps)
      note step = this
      from True granted granted2 assms have "put_ref st h project n b w =
        cp_bind (cp_update (compare_and_swap_ref project CpEnvironments n (pr_base_commit b) (pr_commit b)))
         (\<lambda>outcome. case outcome of
            CasRejected found \<Rightarrow> cp_err (ref_conflict found)
          | CasApplied next_state \<Rightarrow>
              cp_bind (append_audit_event (app_codec st) (Some project) (subject p) ''ref.update''
                 (cc_json_str (app_codec st)
                    (JObject [(''commit'', JString (rs_commit next_state)),
                              (''namespace'', namespace_json (rs_namespace next_state)),
                              (''ref'', JString (rs_name next_state))])))
                (\<lambda>_. cp_ok (pr_commit b))) w"
        by (auto simp: put_ref_def cp_bind_def [of "authorize_route h ADMIN_CLASSES"] cp_bind_def [of "require_project p project"]
            cp_bind_def [of "cp_read _"] cp_read_def env_tip simp del: namespace_rank.simps)
      then show ?thesis
        by (simp only:) (rule step, intro ref_frame.framed_case_cas ref_frame.framed_bind ref_frame.framed_audit
            ref_frame.framed_simple)
    qed
  qed
qed

lemma serve_ref_kept:
  assumes "environment_protection project n (cw_store w)" "\<not> authorized_move project n req"
  shows "ref_kept (env_key project n) (cw_store w) (cw_store (snd (serve st h req w)))"
proof (cases "\<exists>q m b. req = PutRef q m b")
  case False
  then have "framed (ref_kept (env_key project n)) (serve st h req)" by (intro ref_frame.serve_framed) auto
  then show ?thesis by (simp add: framed_def)
next
  case True
  then obtain q m b where req: "req = PutRef q m b" by blast
  have "ref_kept (env_key project n) (cw_store w) (cw_store (snd (put_ref st h q m b w)))"
  proof (cases "env_key project n = (q, namespace_rank (pr_namespace b), m)")
    case True
    then have "q = project" "m = n" "pr_namespace b = CpEnvironments" by (cases "pr_namespace b"; simp)+
    with put_ref_protected assms req show ?thesis by simp
  next
    case False
    then have "framed (ref_kept (env_key project n)) (put_ref st h q m b)"
      by (intro ref_frame.put_ref_framed cas_keeps)
    then show ?thesis by (simp add: framed_def)
  qed
  then show ?thesis
    using ref_frame.framed_bind_at [of "env_key project n" w "put_ref st h q m b" "\<lambda>a. cp_ok (RefBody a)"]
    by (simp add: req respond_def ref_frame.framed_simple)
qed

section \<open>Lemmas: sessions and answers\<close>

lemma open_session_Ok:
  assumes "open_session c sub cl w = (Ok r, w')"
  shows "sr_token_class r = wire_name cl" "of_token (sr_token r) = Some cl"
    and "resolve_token (sr_token r) (cw_store w') = Some \<lparr>subject = sub, principal_class = cl\<rparr>"
proof -
  from assms obtain b w1 where "draw_bytes ''token entropy unavailable'' w = (Ok b, w1)"
      "r = \<lparr>sr_token = token_prefix cl @ cc_hex_encode c b, sr_token_class = wire_name cl\<rparr>"
      "w' = w1\<lparr>cw_store := snd (issue_session (token_prefix cl @ cc_hex_encode c b) \<lparr>subject = sub, principal_class = cl\<rparr> (cw_store w1))\<rparr>"
    by (auto simp: open_session_def mint_token_def cp_bind_eq_Ok cp_ok_def cp_update_def issue_session_def)
  then show "sr_token_class r = wire_name cl" "of_token (sr_token r) = Some cl"
    "resolve_token (sr_token r) (cw_store w') = Some \<lparr>subject = sub, principal_class = cl\<rparr>"
    by (simp_all add: of_token_prefix resolve_token_def issue_session_def bt_get_insert)
qed

lemma serve_all_simps [simp]:
  "serve_all st [] w = w" "serve_all st ((h, req) # rest) w = serve_all st rest (snd (serve st h req w))"
  by (simp_all add: serve_all_def)

lemma sorted_ids_of_map: "bt_inv m \<Longrightarrow> sorted_wrt (<) (map fst (filter P m))"
  by (auto simp: bt_inv_def sorted_wrt_map intro: sorted_wrt_filter)

text \<open>What the server holds for a project, in the order of the identifiers.\<close>

definition project_objects :: "project_id \<Rightarrow> store_state \<Rightarrow> object_entry_wire list" where
  "project_objects p s = map snd (filter (\<lambda>((q, _), _). q = p) (st_objects s))"

lemma get_objects_filter:
  assumes "addressed c s" "bt_inv (st_objects s)"
  shows "get_objects p ids s = filter (\<lambda>e. oe_id e \<in> set ids) (project_objects p s)"
    and "sorted_wrt (<) (map oe_id (project_objects p s))"
proof -
  have id: "snd k = oe_id e" if "(k, e) \<in> set (st_objects s)" for k e
    using that assms bt_get_Some_iff [OF assms(2), of k e] by (cases k) (auto simp: addressed_def)
  have keys: "map oe_id (project_objects p s) = map (snd \<circ> fst) (filter (\<lambda>((q, _), _). q = p) (st_objects s))"
    using id by (auto simp: project_objects_def)
  have "sorted_wrt (\<lambda>x y. fst x < fst y) (filter (\<lambda>((q, _), _). q = p) (st_objects s))"
    using assms(2) by (auto simp: bt_inv_def sorted_wrt_map intro: sorted_wrt_filter)
  then have "sorted_wrt (\<lambda>x y. snd (fst x) < snd (fst y)) (filter (\<lambda>((q, _), _). q = p) (st_objects s))"
    by (rule sorted_wrt_mono_rel [rotated]) (auto simp: less_prod_def')
  then show sorted: "sorted_wrt (<) (map oe_id (project_objects p s))"
    unfolding keys by (simp add: sorted_wrt_map)
  have "map snd (filter (\<lambda>((q, i), _). q = p \<and> i \<in> set ids) (st_objects s))
      = filter (\<lambda>e. oe_id e \<in> set ids) (project_objects p s)"
    unfolding project_objects_def filter_map filter_filter comp_def
    using id by (intro arg_cong [where f = "map snd"] filter_cong) auto
  moreover have "sorted (map oe_id (filter (\<lambda>e. oe_id e \<in> set ids) (project_objects p s)))"
    using sorted by (intro sorted_filter) (simp add: strict_sorted_imp_sorted)
  ultimately show "get_objects p ids s = filter (\<lambda>e. oe_id e \<in> set ids) (project_objects p s)"
    unfolding get_objects_def by (simp add: sorted_sort_id sort_key_id_if_sorted)
qed

text \<open>A digest gives a well-formed identifier.\<close>

definition digest_ids_ok :: "cp_codec \<Rightarrow> bool" where
  "digest_ids_ok c \<longleftrightarrow> (\<forall>b. parse_object_id (remote_id c b) = Ok (remote_id c b))"

lemma list_object_ids_all:
  assumes "addressed c s" "bt_inv (st_objects s)" "digest_ids_ok c"
  shows "list_object_ids p s = map oe_id (project_objects p s)"
proof -
  have entry: "snd k = oe_id e \<and> parse_object_id (oe_id e) = Ok (oe_id e)" if "(k, e) \<in> set (st_objects s)" for k e
    using that assms bt_get_Some_iff [OF assms(2), of k e] by (cases k) (auto simp: addressed_def digest_ids_ok_def)
  have "List.map_filter (\<lambda>(_, i). case parse_object_id i of Ok x \<Rightarrow> Some x | Err _ \<Rightarrow> None)
      (filter (\<lambda>(q, _). q = p) (map fst xs)) = map oe_id (map snd (filter (\<lambda>((q, _), _). q = p) xs))"
    if "set xs \<subseteq> set (st_objects s)" for xs
    using that
  proof (induction xs)
    case (Cons x xs)
    obtain q i e where x: "x = ((q, i), e)" by (metis prod.exhaust)
    with Cons entry [of "(q, i)" e] show ?case by (auto simp: map_filter_simps)
  qed (simp add: map_filter_simps)
  then have "list_object_ids p s = sort (map oe_id (project_objects p s))"
    by (simp add: list_object_ids_def bt_keys_def project_objects_def)
  then show ?thesis using get_objects_filter(2) [OF assms(1,2)] by (simp add: sorted_sort_id strict_sorted_imp_sorted)
qed

lemma query_missing_answer:
  assumes "query_missing st h project body w = (Ok resp, w')"
  obtains missing where
    "missing = get_objects project (filter (\<lambda>i. i \<notin> set (qm_known_object_ids body)) (list_object_ids project (cw_store w))) (cw_store w)"
    "qr_missing_objects resp = take (app_max_missing_objects st) missing"
    "qr_missing_objects_truncated resp \<longleftrightarrow> app_max_missing_objects st < length missing"
    "qr_remote_object_ids resp = list_object_ids project (cw_store w)"
    "qr_remote_refs resp = map (with_protection project (cw_store w)) (list_ref_states project (cw_store w))"
    "st_objects (cw_store w') = st_objects (cw_store w)" "st_refs (cw_store w') = st_refs (cw_store w)"
proof -
  let ?d = "\<lparr>dv_public_key_hex = di_public_key_hex (qm_device body), dv_owner = sub, dv_label = None\<rparr>"
  have dev: "st_objects (snd (register_device d s)) = st_objects s \<and> st_refs (snd (register_device d s)) = st_refs s
      \<and> st_environments (snd (register_device d s)) = st_environments s" for d s
    by (simp add: register_device_def)
  have reads: "list_object_ids project (snd (register_device d s)) = list_object_ids project s"
    "get_objects project ids (snd (register_device d s)) = get_objects project ids s"
    "list_ref_states project (snd (register_device d s)) = list_ref_states project s"
    "with_protection project (snd (register_device d s)) = with_protection project s" for d s ids
    using dev [of d s]
    by (simp_all add: list_object_ids_def get_objects_def list_ref_states_def with_protection_def environment_protection_def fun_eq_iff)
  obtain p where p: "authorize_route h SYNC_CLASSES w = (Ok p, w)"
    using assms by (cases rule: authorize_route_cases [of h SYNC_CLASSES w]) (auto simp: query_missing_def cp_bind_def)
  obtain rec where "require_project p project w = (Ok rec, w)"
  proof (cases rule: require_project_cases [of p project w])
    case (refused e)
    with assms p have False by (auto simp: query_missing_def cp_bind_def cp_err_def split: if_splits)
    then show thesis ..
  qed
  note auth = p this
  let ?w1 = "w\<lparr>cw_store := snd (register_device \<lparr>dv_public_key_hex = di_public_key_hex (qm_device body),
    dv_owner = subject p, dv_label = None\<rparr> (cw_store w))\<rparr>"
  define missing where "missing = get_objects project
    (filter (\<lambda>i. i \<notin> set (qm_known_object_ids body)) (list_object_ids project (cw_store w))) (cw_store w)"
  have "\<exists>v x y. append_audit_event (app_codec st) (Some project) (subject p) ''objects.query_missing'' x
        (?w1\<lparr>cw_store := snd (update_sync_state project (di_public_key_hex (qm_device body)) y (cw_store ?w1))\<rparr>) = (Ok v, w')
      \<and> qr_missing_objects resp = take (app_max_missing_objects st) missing
      \<and> qr_missing_objects_truncated resp = (app_max_missing_objects st < length missing)
      \<and> qr_remote_object_ids resp = list_object_ids project (cw_store w)
      \<and> qr_remote_refs resp = map (with_protection project (cw_store w)) (list_ref_states project (cw_store w))"
    using assms auth
    by (auto simp: query_missing_def cp_bind_def [of "authorize_route h SYNC_CLASSES"] cp_bind_def [of "require_project p project"]
        cp_bind_eq_Ok cp_err_def cp_ok_def cp_lift_def cp_read_def cp_update_def Let_def reads missing_def case_prod_unfold
        split: if_splits)
  then obtain x y v where aud: "append_audit_event (app_codec st) (Some project) (subject p) ''objects.query_missing'' x
        (?w1\<lparr>cw_store := snd (update_sync_state project (di_public_key_hex (qm_device body)) y (cw_store ?w1))\<rparr>) = (Ok v, w')"
    and resp: "qr_missing_objects resp = take (app_max_missing_objects st) missing"
      "qr_missing_objects_truncated resp = (app_max_missing_objects st < length missing)"
      "qr_remote_object_ids resp = list_object_ids project (cw_store w)"
      "qr_remote_refs resp = map (with_protection project (cw_store w)) (list_ref_states project (cw_store w))"
    by (elim exE conjE) (rule that)
  have "st_objects (cw_store w') = st_objects (cw_store w) \<and> st_refs (cw_store w') = st_refs (cw_store w)"
    by (rule append_audit_event_store [OF aud]) (simp add: dev update_sync_state_def)
  then show thesis using resp by (intro that [OF missing_def]) simp_all
qed

end
