(* ===== verification/Control_Properties.thy ===== *)
theory Control_Properties
  imports Control_Api Ref_Store
begin

text \<open>
  Properties of the team server (\<open>Control_Store\<close>, \<open>Control_Api\<close>) over any sequence of requests: who is let in and with
  which error the others are refused, what the token classes mean, that uploaded objects stay what they were, that a
  protected environment moves only on an authorized request, and what a device that asks for missing objects gets.
\<close>

section \<open>The exact refusal of a route\<close>

definition token_refusal :: "auth_header \<Rightarrow> token_class list \<Rightarrow> store_state \<Rightarrow> control_error + cp_principal" where
  "token_refusal h classes s =
     (case bearer_token h of
        None \<Rightarrow> Inl CpUnauthorized
      | Some token \<Rightarrow>
          (case of_token token of
             None \<Rightarrow> Inl CpUnauthorized
           | Some cl \<Rightarrow>
               if cl \<notin> set classes then Inl CpForbidden
               else case resolve_token token s of None \<Rightarrow> Inl CpUnauthorized | Some p \<Rightarrow> Inr p))"

definition project_refusal :: "cp_principal \<Rightarrow> project_id \<Rightarrow> store_state \<Rightarrow> control_error option" where
  "project_refusal p project s =
     (case store_get_project project s of
        None \<Rightarrow> Some CpNotFound
      | Some rec \<Rightarrow>
          (case is_workspace_member (pj_workspace rec) (subject p) s of
             Err e \<Rightarrow> Some e
           | Ok member \<Rightarrow> if member then None else Some CpForbidden))"

definition refusal :: "auth_header \<Rightarrow> api_request \<Rightarrow> store_state \<Rightarrow> control_error option" where
  "refusal h req s =
     (case token_refusal h (route_classes req) s of
        Inl e \<Rightarrow> Some e
      | Inr p \<Rightarrow> (case route_project req of None \<Rightarrow> None | Some project \<Rightarrow> project_refusal p project s))"

text \<open>The checks of the body that \<open>query_missing\<close> makes before it looks at the project.\<close>

fun body_in_order :: "api_request \<Rightarrow> bool" where
  "body_in_order (PostQueryMissing p b) \<longleftrightarrow> qm_project b = p \<and> length (qm_known_object_ids b) \<le> MAX_LIST_ITEMS"
| "body_in_order (PostSession _) = False"
| "body_in_order _ = True"

lemma authorize_route_exact:
  "authorize_route h classes w = (case token_refusal h classes (cw_store w) of Inl e \<Rightarrow> (Err e, w) | Inr p \<Rightarrow> (Ok p, w))"
  by (simp add: authorize_route_def token_refusal_def cp_bind_def cp_lift_def cp_err_def cp_read_def split: option.split)

lemma require_project_refused:
  "project_refusal p project (cw_store w) = Some e \<Longrightarrow> require_project p project w = (Err e, w)"
  by (auto simp: require_project_def project_refusal_def cp_bind_def cp_lift_def cp_err_def cp_read_def
      split: option.splits result.splits if_splits)

lemma guard_exact:
  assumes "(case token_refusal h classes (cw_store w) of Inl e \<Rightarrow> Some e | Inr p \<Rightarrow> project_refusal p project (cw_store w)) = Some e"
  shows "cp_bind (authorize_route h classes) (\<lambda>p. cp_bind (require_project p project) (f p)) w = (Err e, w)"
  using assms by (auto simp: cp_bind_def authorize_route_exact require_project_refused split: sum.splits)

lemma query_missing_exact_refusal:
  assumes "(case token_refusal h SYNC_CLASSES (cw_store w) of Inl e \<Rightarrow> Some e | Inr p \<Rightarrow> project_refusal p project (cw_store w)) = Some e"
    "body_in_order (PostQueryMissing project b)"
  shows "query_missing st h project b w = (Err e, w)"
  using assms by (auto simp: query_missing_def cp_bind_def authorize_route_exact require_project_refused split: sum.splits)

lemma respond_refused_at: "m w = (Err e, w) \<Longrightarrow> respond f m w = (Err e, w)"
  by (simp add: respond_def cp_bind_def)

lemmas guarded_handlers = get_project_def batch_objects_def list_refs_def put_ref_def put_policy_def list_agents_def
  create_agent_def project_audit_def ingest_audit_def list_policies_def

lemma refusal_admitted: "refusal h req s = None \<longleftrightarrow> admitted h req s"
  by (auto simp: refusal_def token_refusal_def project_refusal_def admitted_def presents_def belongs_def
      split: option.splits sum.splits result.splits if_splits)

section \<open>Digests in hexadecimal\<close>

text \<open>What the server relies on of \<open>hex\<close>: decoding inverts encoding, and the digits are hexadecimal.\<close>

definition hex_codec :: "cp_codec \<Rightarrow> bool" where
  "hex_codec c \<longleftrightarrow> (\<forall>b. cc_hex_decode c (cc_hex_encode c b) = Some b \<and> list_all is_ascii_hexdigit (cc_hex_encode c b))"

lemma hex_inject: "hex_codec c \<Longrightarrow> cc_hex_encode c a = cc_hex_encode c b \<longleftrightarrow> a = b"
  by (metis hex_codec_def option.inject)

lemma split_once_char: "ch \<notin> set a \<Longrightarrow> split_once [ch] (a @ ch # b) = Some (a, b)"
  by (induction a) auto

lemma hash_verify:
  assumes "hex_codec c" "cw_entropy w = Some salt # rest" "length salt = VERIFIER_SALT_LEN"
    "hash_verifier c password w = (Ok v, w')"
  shows "verify_verifier c attempt v \<longleftrightarrow> cc_sha256 c (salt @ attempt) = cc_sha256 c (salt @ password)"
proof -
  have v: "v = ''sha256'' @ CHR ''$'' # (cc_hex_encode c salt @ CHR ''$'' # password_digest c salt password)"
    using assms by (auto simp: hash_verifier_def cp_bind_def draw_bytes_def cp_ok_def)
  have "CHR ''$'' \<notin> set (cc_hex_encode c salt)"
    using assms(1) by (force simp: hex_codec_def list_all_iff ascii_defs)
  then show ?thesis
    unfolding verify_verifier_def v using assms(1,3)
    by (subst split_once_char, simp) (simp add: split_once_char hex_codec_def password_digest_def hex_inject [OF assms(1)])
qed

lemma create_session_password:
  assumes "find_user (trim login) (cw_store w) = Some u" "trim login \<noteq> []" "attempt \<noteq> []"
  shows "create_session st (PasswordGrant login attempt) w =
    (if verify_verifier (app_codec st) attempt (usr_verifier u) then open_session (app_codec st) (trim login) ControlSession w
     else (Err CpUnauthorized, w))"
  using assms by (simp add: Let_def cp_bind_def cp_read_def cp_lift_def cp_err_def)

lemma open_session_draws:
  "cw_entropy w = Some b # rest \<Longrightarrow> \<exists>r w'. open_session c sub cl w = (Ok r, w')"
  by (simp add: open_session_def mint_token_def cp_bind_def draw_bytes_def cp_ok_def cp_update_def issue_session_def)

section \<open>Sequences of requests\<close>

lemma serve_all_framed:
  assumes "\<And>h req. framed R (serve st h req)" "\<And>s. R s s" "\<And>s t u. R s t \<Longrightarrow> R t u \<Longrightarrow> R s u"
  shows "R (cw_store w) (cw_store (serve_all st reqs w))"
proof (induction reqs arbitrary: w)
  case (Cons a reqs)
  obtain h req where a: "a = (h, req)" by (cases a)
  have "R (cw_store w) (cw_store (snd (serve st h req w)))" using assms(1) [of h req] by (simp add: framed_def)
  from assms(3) [OF this Cons] show ?case by (simp add: a)
qed (simp add: assms(2))

lemma serve_all_ref_kept:
  assumes "environment_protection project n (cw_store w)" "list_all (\<lambda>(h, req). \<not> authorized_move project n req) reqs"
  shows "ref_kept (env_key project n) (cw_store w) (cw_store (serve_all st reqs w))"
  using assms
proof (induction reqs arbitrary: w)
  case (Cons a reqs)
  obtain h req where a: "a = (h, req)" by (cases a)
  with Cons.prems have step: "ref_kept (env_key project n) (cw_store w) (cw_store (snd (serve st h req w)))"
    by (intro serve_ref_kept) auto
  with Cons.prems have "environment_protection project n (cw_store (snd (serve st h req w)))"
    by (simp add: ref_kept_def environment_protection_def)
  with Cons.IH [OF this] Cons.prems a step show ?case by (auto intro: kept_trans(2))
qed (simp add: ref_frame.frame_refl)

section \<open>A sample server\<close>

text \<open>Hexadecimal as \<open>hex\<close> writes and reads it.\<close>

definition sample_encode :: "string \<Rightarrow> string" where
  "sample_encode b = concat (map (\<lambda>ch. [hex_digit (of_char ch div 16), hex_digit (of_char ch mod 16)]) b)"

fun sample_nibble :: "char \<Rightarrow> nat" where
  "sample_nibble ch = (if is_ascii_digit ch then of_char ch - 48 else of_char ch - 87)"

fun sample_decode :: "string \<Rightarrow> string option" where
  "sample_decode [] = Some []"
| "sample_decode [a] = None"
| "sample_decode (a # b # r) = map_option ((#) (char_of (16 * sample_nibble a + sample_nibble b))) (sample_decode r)"

definition sample_api :: app_state where
  "sample_api = new_app (sample_cp_codec\<lparr>cc_sha256 := \<lambda>b. replicate 31 (CHR ''z'') @ [if b = [] then CHR ''y'' else hd (rev b)],
     cc_hex_encode := sample_encode, cc_hex_decode := sample_decode\<rparr>)"

definition sample_salt :: string where
  "sample_salt = replicate 16 (CHR ''s'')"

definition sample_object :: object_entry_wire where
  "sample_object = (let i = sample_encode (replicate 31 (CHR ''z'') @ ''}'')
     in \<lparr>oe_id = ''obj_'' @ i, oe_content_hash = i, oe_envelope_json = ''{}''\<rparr>)"

definition sample_server :: cp_world where
  "sample_server = \<lparr>cw_store = empty_store\<lparr>
       st_sessions := [(''vxs_1'', \<lparr>subject = ''ana'', principal_class = ControlSession\<rparr>)],
       st_workspaces := [(''ws_1'', \<lparr>ws_id = ''ws_1'', ws_name = ''team'', ws_owner = ''ana''\<rparr>)],
       st_memberships := [((''ws_1'', ''ana''), ())],
       st_projects := [(''proj_a'', \<lparr>pj_id = ''proj_a'', pj_workspace = ''ws_1'', pj_name = ''api''\<rparr>)],
       st_objects := [((''proj_a'', oe_id sample_object), sample_object)],
       st_refs := [((''proj_a'', 1, ''prod''), \<lparr>rs_namespace = CpEnvironments, rs_name = ''prod'', rs_commit = ''cmt_1'', rs_protected = False\<rparr>)],
       st_environments := [((''proj_a'', ''prod''), True)]\<rparr>,
     cw_entropy = replicate 4 (Some sample_salt), cw_clock = [(7, 2), (8, 2)]\<rparr>"

lemma sample_digit: "n < 16 \<Longrightarrow> sample_nibble (hex_digit n) = n" "n < 16 \<Longrightarrow> is_ascii_hexdigit (hex_digit n)"
  "n < 16 \<Longrightarrow> is_ascii_digit (hex_digit n) \<or> 97 \<le> byte_of (hex_digit n) \<and> byte_of (hex_digit n) \<le> 102"
proof -
  assume "n < 16"
  then have "n \<in> {0,1,2,3,4,5,6,7,8,9,10,11,12,13,14,15}" by (auto simp: numeral_eq_Suc less_Suc_eq)
  then show "sample_nibble (hex_digit n) = n" "is_ascii_hexdigit (hex_digit n)"
    "is_ascii_digit (hex_digit n) \<or> 97 \<le> byte_of (hex_digit n) \<and> byte_of (hex_digit n) \<le> 102" by (auto simp: ascii_defs)
qed

lemma sample_hex_codec: "hex_codec (app_codec sample_api)"
proof -
  have "char_of (16 * (of_char ch div 16 :: nat) + of_char ch mod 16) = ch" for ch by simp
  then have "sample_decode (sample_encode b) = Some b" for b
    by (induction b) (simp_all add: sample_encode_def sample_digit less_mult_imp_div_less del: hex_digit.simps sample_nibble.simps)
  moreover have "list_all is_ascii_hexdigit (sample_encode b)" for b
    by (induction b) (simp_all add: sample_encode_def sample_digit less_mult_imp_div_less del: hex_digit.simps)
  ultimately show ?thesis by (simp add: hex_codec_def sample_api_def new_app_def)
qed

definition sample_query :: query_missing_request where
  "sample_query = \<lparr>qm_known_object_ids = [], qm_known_refs = [], qm_project = ''proj_a'',
     qm_device = \<lparr>di_public_key_hex = sample_encode (replicate 32 (CHR ''k'')), di_signature_hex = []\<rparr>\<rparr>"

lemma sample_trim [simp]: "trim ''vxs_1'' = ''vxs_1''" "trim ''ana'' = ''ana''"
  using trim_line [of "''vxs_1''"] trim_line [of "''ana''"] by (simp_all add: is_id_char_def ascii_defs)

lemma sample_token [simp]:
  "bearer_token (Some ''Bearer vxs_1'') = Some ''vxs_1''" "of_token ''vxs_1'' = Some ControlSession"
  by (simp_all add: bearer_token_def of_token_def starts_with_def)

lemma sample_authorized: "authorize_route (Some ''Bearer vxs_1'') SYNC_CLASSES sample_server =
    (Ok \<lparr>subject = ''ana'', principal_class = ControlSession\<rparr>, sample_server)"
  by (simp add: authorize_route_exact token_refusal_def SYNC_CLASSES_def resolve_token_def sample_server_def bt_get_def empty_store_def)

lemma sample_encode_hex: "is_hex_of_len (sample_encode b) (2 * length b)"
  by (induction b) (simp_all add: is_hex_of_len_def sample_encode_def sample_digit(3) less_mult_imp_div_less del: hex_digit.simps)

lemma hex_low_hex: "is_hex_of_len (hex_low k n) k"
  by (induction k arbitrary: n) (simp_all add: is_hex_of_len_def sample_digit(3) del: hex_digit.simps)

lemma sample_id: "is_hex_of_len (sample_encode (replicate 31 (CHR ''z'') @ [ch])) 64"
  using sample_encode_hex [of "replicate 31 (CHR ''z'') @ [ch]"] by simp

lemma sample_append:
  assumes "cw_entropy w = Some sample_salt # rest" "st_audit (cw_store w) = []" "cw_clock w = (7, 2) # more_clock"
  shows "\<exists>v w'. append_audit_event (app_codec sample_api) p a x d w = (Ok v, w')"
proof -
  have "parse_audit_event_id (''aud_'' @ hex_low 8 2 @ sample_encode sample_salt) = Ok (''aud_'' @ hex_low 8 2 @ sample_encode sample_salt)"
  proof (rule parse_hex_ident)
    show "is_hex_of_len (hex_low 8 2 @ sample_encode sample_salt) 40"
      using sample_encode_hex [of sample_salt] hex_low_hex [of 8 2]
      by (simp add: is_hex_of_len_def sample_salt_def del: hex_low.simps)
  qed (simp_all add: MAX_ID_CONTENT_LEN_def)
  then show ?thesis
    using assms
    by (simp add: append_audit_event_def chain_append_def fresh_entity_id_def cp_bind_def cp_lift_def cp_read_def cp_ok_def
        draw_bytes_def clock_now_def cp_update_def Let_def sample_api_def new_app_def sample_cp_codec_def
        del: hex_low.simps split: list.split)
qed

lemma sample_query_accepted:
  "\<exists>resp w'. query_missing sample_api (Some ''Bearer vxs_1'') ''proj_a'' sample_query sample_server = (Ok resp, w')"
proof -
  let ?key = "sample_encode (replicate 32 (CHR ''k''))"
  have key: "key_bytes (app_codec sample_api) ?key = Ok (replicate 32 (CHR ''k''))"
    using sample_hex_codec by (simp add: key_bytes_def hex_codec_def sample_api_def new_app_def)
  have p: "require_project \<lparr>subject = ''ana'', principal_class = ControlSession\<rparr> ''proj_a'' sample_server =
    (Ok \<lparr>pj_id = ''proj_a'', pj_workspace = ''ws_1'', pj_name = ''api''\<rparr>, sample_server)"
    by (simp add: require_project_def cp_bind_def cp_read_def cp_lift_def store_get_project_def is_workspace_member_def
        sample_server_def bt_get_def empty_store_def cp_ok_def)
  have d: "verify_device_identity (app_codec sample_api) \<lparr>di_public_key_hex = ?key, di_signature_hex = []\<rparr> ''proj_a'' = Ok ()"
    by (simp add: verify_device_identity_def key) (simp add: sample_api_def new_app_def sample_cp_codec_def)
  let ?d = "\<lparr>dv_public_key_hex = ?key, dv_owner = ''ana'', dv_label = None\<rparr>"
  have reg: "register_device ?d (cw_store sample_server) = (Ok True, (cw_store sample_server)\<lparr>st_devices := [(?key, ?d)]\<rparr>)"
    by (simp add: register_device_def sample_server_def empty_store_def)
  have dk: "list_workspace_device_keys ''ws_1'' ((cw_store sample_server)\<lparr>st_devices := [(?key, ?d)]\<rparr>) = [?d]"
    by (simp add: list_workspace_device_keys_def sample_server_def bt_get_def empty_store_def)
  have step: "\<exists>r w'. cp_bind (append_audit_event (app_codec sample_api) a b x y) k
      (sample_server\<lparr>cw_store := (cw_store sample_server)\<lparr>st_devices := z, st_sync_state := z'\<rparr>\<rparr>) = (Ok r, w')"
    if "\<And>v w. \<exists>r. k v w = (Ok r, w)" for a b x y z z' and k :: "audit_event_view \<Rightarrow> query_missing_response cp"
  proof -
    obtain v w' where "append_audit_event (app_codec sample_api) a b x y
        (sample_server\<lparr>cw_store := (cw_store sample_server)\<lparr>st_devices := z, st_sync_state := z'\<rparr>\<rparr>) = (Ok v, w')"
      using sample_append [of "sample_server\<lparr>cw_store := (cw_store sample_server)\<lparr>st_devices := z, st_sync_state := z'\<rparr>\<rparr>"]
      by (fastforce simp: sample_server_def empty_store_def numeral_eq_Suc)
    with that [of v w'] show ?thesis by (auto simp: cp_bind_def)
  qed
  have reads: "\<exists>r. cp_bind (cp_read f) (\<lambda>x. cp_bind (cp_read g) (\<lambda>y. cp_ok (h x y))) w = (Ok r, w)" for f g h w
    by (simp add: cp_bind_def cp_read_def cp_ok_def)
  show ?thesis
    by (simp add: query_missing_def sample_query_def cp_bind_def [of "authorize_route _ _"] sample_authorized
        cp_bind_def [of "require_project _ _"] p MAX_LIST_ITEMS_def cp_bind_def [of "cp_lift _"] cp_lift_def d
        cp_bind_def [of "cp_update _"] cp_update_def reg cp_bind_def [of "cp_read _"] cp_read_def dk validate_key_def key
        Let_def update_sync_state_def)
       (intro conjI impI step reads)
qed

section \<open>Properties\<close>



text \<open>
  C26. The class of a token is what its prefix says, and routes see principals of their classes only.  From a store
  in which every live token carries the class of its prefix, any sequence of requests (sessions of both grants,
  agents, everything else) leaves such a store, and the principal that \<open>authorize_route\<close> hands to a handler has one of the
  classes the route allows.
\<close>

theorem token_classes_typed:
  assumes "classes_match (cw_store w)"
  shows "classes_match (cw_store (serve_all st reqs w))
       \<and> (authorize_route h allowed (serve_all st reqs w) = (Ok p, w') \<longrightarrow> principal_class p \<in> set allowed)"
proof -
  have "classes_kept (cw_store w) (cw_store (serve_all st reqs w))"
    by (rule serve_all_framed [OF serve_classes class_frame.frame_refl kept_trans(3)])
  with assms have typed: "classes_match (cw_store (serve_all st reqs w))" by (simp add: classes_kept_def)
  moreover have "principal_class p \<in> set allowed" if "authorize_route h allowed (serve_all st reqs w) = (Ok p, w')"
    using that typed
    by (cases rule: authorize_route_cases [of h allowed "serve_all st reqs w"]) (auto simp: presents_def classes_match_def)
  ultimately show ?thesis by blast
qed

theorem token_classes_typed_witness:
  "classes_match (cw_store (serve_all sample_api [(None, PostSession (OidcExchange ''ci'' ''tok'')), (None, GetWorkspaces)] sample_server))"
proof -
  have "classes_match (cw_store sample_server)"
    by (auto simp: classes_match_def resolve_token_def sample_server_def bt_get_def of_token_def starts_with_def empty_store_def
        split: if_splits)
  from conjunct1 [OF token_classes_typed [OF this]] show ?thesis .
qed

text \<open>
  C21. What was uploaded stays what it was.  In a store whose objects are filed under the digest of their
  envelope, any sequence of requests files every new object under the digest of its envelope too, in whatever
  project and order, and neither removes nor replaces an object that was there.
\<close>

theorem uploaded_objects_immutable:
  assumes "addressed (app_codec st) (cw_store w)"
  shows "addressed (app_codec st) (cw_store (serve_all st reqs w))
       \<and> (bt_get (st_objects (cw_store w)) k = Some entry \<longrightarrow> bt_get (st_objects (cw_store (serve_all st reqs w))) k = Some entry)"
proof -
  have "objects_kept (app_codec st) (cw_store w) (cw_store (serve_all st reqs w))"
    by (rule serve_all_framed [OF serve_objects objects_frame.frame_refl kept_trans(1)])
  with assms show ?thesis unfolding objects_kept_def by blast
qed

theorem uploaded_objects_immutable_witness:
  "bt_get (st_objects (cw_store (serve_all sample_api
      [(Some ''Bearer vxs_1'', PostObjectsBatch ''proj_a'' [sample_object\<lparr>oe_envelope_json := ''[]''\<rparr>, sample_object])] sample_server)))
     (''proj_a'', oe_id sample_object) = Some sample_object"
proof -
  have "addressed (app_codec sample_api) (cw_store sample_server)"
    by (auto simp: addressed_def sample_server_def bt_get_def remote_id_def sample_object_def sample_api_def new_app_def
        Let_def empty_store_def split: if_splits)
  moreover have "bt_get (st_objects (cw_store sample_server)) (''proj_a'', oe_id sample_object) = Some sample_object"
    by (simp add: sample_server_def bt_get_def empty_store_def)
  ultimately show ?thesis using uploaded_objects_immutable by blast
qed





text \<open>
  A device that asks for what it lacks gets it, in order and without surprises.  An accepted query offers the objects of
  the project whose identifiers the device did not list, by increasing identifier and cut at the server's limit; the answer
  says that it was cut exactly when more are missing; it lists every identifier of the project and every ref; and it
  changes neither objects nor refs.
\<close>

lemma query_missing_complete:
  assumes "addressed (app_codec st) (cw_store w)" "bt_inv (st_objects (cw_store w))" "digest_ids_ok (app_codec st)"
    and "query_missing st h project body w = (Ok resp, w')"
  defines "lacking \<equiv> filter (\<lambda>x. oe_id x \<notin> set (qm_known_object_ids body)) (project_objects project (cw_store w))"
  shows "qr_missing_objects resp = take (app_max_missing_objects st) lacking \<and> sorted_wrt (<) (map oe_id lacking)
    \<and> (qr_missing_objects_truncated resp \<longleftrightarrow> app_max_missing_objects st < length lacking)
    \<and> qr_remote_object_ids resp = map oe_id (project_objects project (cw_store w))
    \<and> qr_remote_refs resp = map (with_protection project (cw_store w)) (list_ref_states project (cw_store w))
    \<and> st_objects (cw_store w') = st_objects (cw_store w) \<and> st_refs (cw_store w') = st_refs (cw_store w)"
proof -
  note ids = list_object_ids_all [OF assms(1-3), of project]
  have "get_objects project (filter (\<lambda>i. i \<notin> set (qm_known_object_ids body)) (list_object_ids project (cw_store w))) (cw_store w) = lacking"
    unfolding get_objects_filter(1) [OF assms(1,2)] ids lacking_def by (intro filter_cong) auto
  moreover have "sorted_wrt (<) (map oe_id lacking)"
    using get_objects_filter(2) [OF assms(1,2), of project] by (simp add: lacking_def sorted_wrt_map sorted_wrt_filter)
  ultimately show ?thesis
    using query_missing_answer [OF assms(4)] ids by auto
qed

lemma query_missing_complete_witness:
  "\<exists>resp w'. query_missing sample_api (Some ''Bearer vxs_1'') ''proj_a'' sample_query sample_server = (Ok resp, w')
     \<and> qr_missing_objects resp = [sample_object] \<and> \<not> qr_missing_objects_truncated resp"
proof -
  have addr: "addressed (app_codec sample_api) (cw_store sample_server)"
    by (auto simp: addressed_def sample_server_def bt_get_def remote_id_def sample_object_def sample_api_def new_app_def
        Let_def empty_store_def split: if_splits)
  have inv: "bt_inv (st_objects (cw_store sample_server))" by (simp add: sample_server_def bt_inv_def empty_store_def)
  have ids: "digest_ids_ok (app_codec sample_api)"
    using parse_hex_id [OF sample_id, of "''obj_''"]
    by (simp add: digest_ids_ok_def remote_id_def sample_api_def new_app_def)
  obtain resp w' where q: "query_missing sample_api (Some ''Bearer vxs_1'') ''proj_a'' sample_query sample_server = (Ok resp, w')"
    using sample_query_accepted by blast
  have "project_objects ''proj_a'' (cw_store sample_server) = [sample_object]"
    by (simp add: project_objects_def sample_server_def empty_store_def)
  then have "qr_missing_objects resp = [sample_object] \<and> \<not> qr_missing_objects_truncated resp"
    using query_missing_complete [OF addr inv ids q]
    by (simp add: sample_query_def sample_api_def new_app_def DEFAULT_MAX_MISSING_OBJECTS_def)
  with q show ?thesis by blast
qed

end
