(* ===== verification/Sync_Client.thy ===== *)
theory Sync_Client
  imports Control_Api History
begin

text \<open>
  \<open>vaultx-sync-client\<close>: the protocol driver (\<open>client.rs\<close>), its results (\<open>lib.rs\<close>), errors (\<open>error.rs\<close>), transport seam
  (\<open>transport.rs\<close>), device attestation (\<open>device.rs\<close>) and the ancestry walk (\<open>local.rs\<close>).

  The client is generic, as in the source: the workspace is a record of operations on a state \<open>'w\<close> (the trait
  \<open>LocalWorkspace\<close>), the network and the key store are operations on a state \<open>'o\<close>, and the server may answer anything.
  A run that never returns is \<open>None\<close>.  \<open>serde_json\<close>, \<open>hex\<close> and Ed25519 are the record \<open>sync_codec\<close>; an error of the
  repository is kept as the value whose text the source carries.
\<close>

section \<open>Errors and results\<close>

datatype sync_error =
    SyncTransport string
  | SyncApi nat
  | SyncProtocol string
  | SyncHashMismatch string
  | SyncSignatureVerificationFailed string
  | SyncSignatureRejected
  | SyncKeyring string
  | SyncRepository repo_error

datatype conflict_reason = Diverged | ProtectedEnvironment | UnverifiableHistory

record sync_conflict =
  sf_namespace :: cp_namespace
  sf_name :: string
  sf_local_commit :: "commit_id option"
  sf_remote_commit :: "commit_id option"
  sf_reason :: conflict_reason

fun namespace_name :: "cp_namespace \<Rightarrow> string" where
  "namespace_name CpHeads = ''heads''"
| "namespace_name CpEnvironments = ''environments''"

record sync_result =
  sr_uploaded :: nat
  sr_downloaded :: nat
  sr_conflicts :: "sync_conflict list"
  sr_policies_applied :: nat

definition clean_result :: sync_result where
  "clean_result = \<lparr>sr_uploaded = 0, sr_downloaded = 0, sr_conflicts = [], sr_policies_applied = 0\<rparr>"

definition is_converged :: "sync_result \<Rightarrow> bool" where
  "is_converged r \<longleftrightarrow> sr_conflicts r = []"

section \<open>Transport\<close>

record transport_request =
  tq_method :: string
  tq_path :: string
  tq_json_body :: "string option"

definition get_request :: "string \<Rightarrow> transport_request" where
  "get_request p = \<lparr>tq_method = ''GET'', tq_path = p, tq_json_body = None\<rparr>"

definition post_request :: "string \<Rightarrow> string \<Rightarrow> transport_request" where
  "post_request p body = \<lparr>tq_method = ''POST'', tq_path = p, tq_json_body = Some body\<rparr>"

definition put_request :: "string \<Rightarrow> string \<Rightarrow> transport_request" where
  "put_request p body = \<lparr>tq_method = ''PUT'', tq_path = p, tq_json_body = Some body\<rparr>"

record transport_response =
  tr_status :: nat
  tr_body :: string

definition is_success :: "transport_response \<Rightarrow> bool" where
  "is_success r \<longleftrightarrow> 200 \<le> tr_status r \<and> tr_status r < 300"

section \<open>Parameters\<close>

datatype ref_apply_outcome = RefApplied | RefAlreadyCurrent | RefRefusedProtected

type_synonym ('w, 'a) op = "'w \<Rightarrow> ('a, sync_error) result \<times> 'w"

record 'w local_workspace =
  lw_known_object_ids :: "('w, object_id list) op"
  lw_canonical_bytes :: "object_id \<Rightarrow> ('w, string option) op"
  lw_apply_object :: "object_envelope \<Rightarrow> ('w, bool) op"
  lw_all_refs :: "('w, ref_state list) op"
  lw_read_ref :: "cp_namespace \<Rightarrow> string \<Rightarrow> ('w, commit_id option) op"
  lw_apply_ref :: "cp_namespace \<Rightarrow> string \<Rightarrow> commit_id \<Rightarrow> bool \<Rightarrow> ('w, ref_apply_outcome) op"
  lw_commit_parents :: "commit_id \<Rightarrow> ('w, commit_id list option) op"
  lw_apply_remote_policy :: "string \<Rightarrow> string \<Rightarrow> ('w, bool) op"

record sync_codec =
  sc_query_str :: "query_missing_request \<Rightarrow> string option"
  sc_query_parse :: "string \<Rightarrow> query_missing_response option"
  sc_batch_str :: "object_entry_wire list \<Rightarrow> string option"
  sc_batch_parse :: "string \<Rightarrow> batch_objects_response option"
  sc_put_ref_str :: "put_ref_request \<Rightarrow> string option"
  sc_policies_parse :: "string \<Rightarrow> stored_policy list option"
  sc_agents_parse :: "string \<Rightarrow> agent_view list option"
  sc_events_str :: "ingest_event list \<Rightarrow> string option"
  sc_ingest_parse :: "string \<Rightarrow> audit_ingest_result option"
  sc_error_code :: "string \<Rightarrow> string option"
  sc_json :: "string \<Rightarrow> json option"
  sc_hex_encode :: "string \<Rightarrow> string"
  sc_hex_decode :: "string \<Rightarrow> string option"
  sc_public_key :: "string \<Rightarrow> string option"
  sc_keypair :: "string \<Rightarrow> (string, string) result"
  sc_public_of :: "string \<Rightarrow> string"
  sc_sign :: "string \<Rightarrow> string \<Rightarrow> string"
  sc_repo :: repo_codec

record ('w, 'o) sync_client =
  cl_send :: "transport_request \<Rightarrow> ('o, transport_response) op"
  cl_obtain :: "'o \<Rightarrow> (string, string) result \<times> 'o"
  cl_workspace :: "'w local_workspace"
  cl_codec :: sync_codec
  cl_authorize_protected :: bool

section \<open>Runs\<close>

type_synonym ('w, 'o, 'a) run = "'w \<times> 'o \<Rightarrow> (('a, sync_error) result \<times> 'w \<times> 'o) option"

definition sy_ok :: "'a \<Rightarrow> ('w, 'o, 'a) run" where
  "sy_ok a s = Some (Ok a, s)"

definition sy_lift :: "('a, sync_error) result \<Rightarrow> ('w, 'o, 'a) run" where
  "sy_lift r s = Some (r, s)"

definition sy_bind :: "('w, 'o, 'a) run \<Rightarrow> ('a \<Rightarrow> ('w, 'o, 'b) run) \<Rightarrow> ('w, 'o, 'b) run" where
  "sy_bind m f s =
     (case m s of None \<Rightarrow> None | Some (Err e, s') \<Rightarrow> Some (Err e, s') | Some (Ok a, s') \<Rightarrow> f a s')"

text \<open>A call on the workspace, and one on the network or the key store.\<close>

definition on_workspace :: "('w, 'a) op \<Rightarrow> ('w, 'o, 'a) run" where
  "on_workspace f s = (case s of (w, out) \<Rightarrow> case f w of (r, w') \<Rightarrow> Some (r, w', out))"

definition on_network :: "('o, 'a) op \<Rightarrow> ('w, 'o, 'a) run" where
  "on_network f s = (case s of (w, out) \<Rightarrow> case f out of (r, out') \<Rightarrow> Some (r, w, out'))"

section \<open>Requests\<close>

definition attestation :: "('w, 'o) sync_client \<Rightarrow> project_id \<Rightarrow> 'o \<Rightarrow> (device_identity, string) result \<times> 'o" where
  "attestation cl project out =
     (case cl_obtain cl out of
        (Err e, out') \<Rightarrow> (Err e, out')
      | (Ok seed, out') \<Rightarrow>
          (and_then (sc_keypair (cl_codec cl) seed) (\<lambda>key.
             let public_key_hex = sc_hex_encode (cl_codec cl) (sc_public_of (cl_codec cl) key)
             in Ok \<lparr>di_public_key_hex = public_key_hex,
                    di_signature_hex = sc_hex_encode (cl_codec cl)
                      (sc_sign (cl_codec cl) key (device_attestation_message project public_key_hex))\<rparr>), out'))"

definition attest :: "('w, 'o) sync_client \<Rightarrow> project_id \<Rightarrow> ('w, 'o, device_identity) run" where
  "attest cl project = on_network (\<lambda>out. case attestation cl project out of (r, out') \<Rightarrow> (map_err SyncKeyring r, out'))"

definition map_rejection :: "sync_codec \<Rightarrow> transport_response \<Rightarrow> sync_error" where
  "map_rejection c r =
     (if tr_status r = 401 \<and> sc_error_code c (tr_body r) = Some ''signature_verification_failed''
      then SyncSignatureRejected else SyncApi (tr_status r))"

definition send_json ::
  "('w, 'o) sync_client \<Rightarrow> transport_request \<Rightarrow> string option option \<Rightarrow> (string \<Rightarrow> 'a option) \<Rightarrow> ('w, 'o, 'a) run" where
  "send_json cl request body decode =
     sy_bind (case body of
                None \<Rightarrow> sy_ok request
              | Some text \<Rightarrow>
                  sy_lift (and_then (ok_or (SyncProtocol ''request encode'') text) (\<lambda>t. Ok (request\<lparr>tq_json_body := Some t\<rparr>))))
       (\<lambda>full.
     sy_bind (on_network (cl_send cl full)) (\<lambda>response.
       if \<not> is_success response then sy_lift (Err (map_rejection (cl_codec cl) response))
       else sy_lift (ok_or (SyncProtocol ''response decode'') (decode (tr_body response)))))"

definition project_path :: "project_id \<Rightarrow> string \<Rightarrow> string" where
  "project_path project rest = ''/projects/'' @ project @ rest"

section \<open>The probe\<close>

definition PROBE_KNOWN_IDS_CHUNK :: nat where
  "PROBE_KNOWN_IDS_CHUNK = 4000"

function chunks :: "nat \<Rightarrow> 'a list \<Rightarrow> 'a list list" where
  "chunks n xs = (if xs = [] \<or> n = 0 then [] else take n xs # chunks n (drop n xs))"
  by pat_completeness auto

termination chunks
  by (relation "measure (\<lambda>(n, xs). length xs)") auto

declare chunks.simps [simp del]

definition query_once ::
  "('w, 'o) sync_client \<Rightarrow> project_id \<Rightarrow> object_id list \<Rightarrow> ref_state list \<Rightarrow> ('w, 'o, query_missing_response) run" where
  "query_once cl project known known_refs =
     sy_bind (attest cl project) (\<lambda>device.
       send_json cl (post_request (project_path project ''/objects/query-missing'') [])
         (Some (sc_query_str (cl_codec cl)
            \<lparr>qm_known_object_ids = known, qm_known_refs = known_refs, qm_project = project, qm_device = device\<rparr>))
         (sc_query_parse (cl_codec cl)))"

fun push_unseen :: "object_entry_wire list \<Rightarrow> object_entry_wire list \<Rightarrow> object_entry_wire list" where
  "push_unseen missing [] = missing"
| "push_unseen missing (e # es) =
     push_unseen (if oe_id e \<in> oe_id ` set missing then missing else missing @ [e]) es"

text \<open>The rounds over the chunks; the set of seen identifiers is that of the collected entries.\<close>

fun probe_chunks ::
  "('w, 'o) sync_client \<Rightarrow> project_id \<Rightarrow> ref_state list \<Rightarrow> object_id list list \<Rightarrow> object_entry_wire list \<Rightarrow> bool \<Rightarrow>
     query_missing_response option \<Rightarrow> ('w, 'o, query_missing_response option) run" where
  "probe_chunks cl project known_refs [] missing truncated tail =
     sy_ok (map_option (\<lambda>r. r\<lparr>qr_missing_objects := missing, qr_missing_objects_truncated := truncated\<rparr>) tail)"
| "probe_chunks cl project known_refs (chunk # rest) missing truncated tail =
     sy_bind (query_once cl project chunk known_refs) (\<lambda>response.
       probe_chunks cl project known_refs rest (push_unseen missing (qr_missing_objects response))
         (truncated \<or> qr_missing_objects_truncated response) (Some response))"

definition sync_probe :: "('w, 'o) sync_client \<Rightarrow> project_id \<Rightarrow> ('w, 'o, query_missing_response) run" where
  "sync_probe cl project =
     sy_bind (on_workspace (lw_known_object_ids (cl_workspace cl))) (\<lambda>known.
     sy_bind (on_workspace (lw_all_refs (cl_workspace cl))) (\<lambda>known_refs.
       if length known \<le> PROBE_KNOWN_IDS_CHUNK then query_once cl project known known_refs
       else sy_bind (probe_chunks cl project known_refs (chunks PROBE_KNOWN_IDS_CHUNK known) [] False None) (\<lambda>merged.
              sy_lift (ok_or (SyncProtocol ''at least one chunk was sent'') merged))))"

section \<open>Objects\<close>

definition digest_suffix :: "string \<Rightarrow> string" where
  "digest_suffix i = drop 4 i"

definition trusted_device_keys :: "sync_codec \<Rightarrow> device_key_fingerprint list \<Rightarrow> string list" where
  "trusted_device_keys c fps =
     List.map_filter (\<lambda>f. Option.bind (sc_hex_decode c (dk_public_key_hex f)) (\<lambda>bytes.
       if length bytes = 32 then sc_public_key c bytes else None)) fps"

definition verify_commit_signature ::
  "repo_codec \<Rightarrow> string \<Rightarrow> object_envelope \<Rightarrow> string list \<Rightarrow> (unit, sync_error) result" where
  "verify_commit_signature c i e keys =
     and_then (map_err (\<lambda>_. SyncProtocol ''commit decode'') (dec_commit c (env_payload e))) (\<lambda>k.
       if com_signature k = [] then Ok ()
       else and_then (map_err SyncRepository (sign_payload c k)) (\<lambda>payload.
              if list_ex (\<lambda>key. verify_bytes c key payload (com_signature k)) keys then Ok ()
              else Err (SyncSignatureVerificationFailed i)))"

definition verify_entry :: "repo_codec \<Rightarrow> string list \<Rightarrow> object_entry_wire \<Rightarrow> (object_envelope, sync_error) result" where
  "verify_entry c keys entry =
     and_then (map_err (\<lambda>_. SyncProtocol ''envelope decode'') (dec_envelope c (oe_envelope_json entry))) (\<lambda>e.
     and_then (map_err SyncRepository (canonical_bytes c e)) (\<lambda>canonical.
       let digest = digest_hex c canonical
       in if digest \<noteq> oe_content_hash entry \<or> digest \<noteq> digest_suffix (oe_id entry)
          then Err (SyncHashMismatch (oe_id entry))
          else if env_type e = CommitObject
          then and_then (verify_commit_signature c (oe_id entry) e keys) (\<lambda>_. Ok e)
          else Ok e))"

fun verify_entries ::
  "repo_codec \<Rightarrow> string list \<Rightarrow> object_entry_wire list \<Rightarrow> (object_envelope list, sync_error) result" where
  "verify_entries c keys [] = Ok []"
| "verify_entries c keys (x # xs) =
     and_then (verify_entry c keys x) (\<lambda>e. and_then (verify_entries c keys xs) (\<lambda>es. Ok (e # es)))"

fun apply_envelopes :: "('w, 'o) sync_client \<Rightarrow> object_envelope list \<Rightarrow> nat \<Rightarrow> ('w, 'o, nat) run" where
  "apply_envelopes cl [] n = sy_ok n"
| "apply_envelopes cl (e # es) n =
     sy_bind (on_workspace (lw_apply_object (cl_workspace cl) e)) (\<lambda>fresh.
       apply_envelopes cl es (if fresh then n + 1 else n))"

definition download_and_apply :: "('w, 'o) sync_client \<Rightarrow> query_missing_response \<Rightarrow> ('w, 'o, nat) run" where
  "download_and_apply cl response =
     sy_bind (sy_lift (verify_entries (sc_repo (cl_codec cl))
                (trusted_device_keys (cl_codec cl) (qr_server_key_fingerprints response)) (qr_missing_objects response)))
       (\<lambda>verified. apply_envelopes cl verified 0)"

section \<open>Ancestry\<close>

text \<open>The loop of \<open>is_ancestor_or_equal\<close>; the top of the stack comes first.\<close>

partial_function (option) ancestry_loop ::
  "'w local_workspace \<Rightarrow> commit_id \<Rightarrow> commit_id list \<Rightarrow> commit_id list \<Rightarrow> 'w \<Rightarrow> ((bool, sync_error) result \<times> 'w) option" where
  "ancestry_loop ws ancestor queue visited w =
     (case queue of
        [] \<Rightarrow> Some (Ok False, w)
      | current # rest \<Rightarrow>
          if current \<in> set visited then ancestry_loop ws ancestor rest visited w
          else (case lw_commit_parents ws current w of
              (Err e, w') \<Rightarrow> Some (Err e, w')
            | (Ok found, w') \<Rightarrow>
                (case found of
                   None \<Rightarrow> ancestry_loop ws ancestor rest (current # visited) w'
                 | Some parents \<Rightarrow>
                     if ancestor \<in> set parents then Some (Ok True, w')
                     else ancestry_loop ws ancestor (rev parents @ rest) (current # visited) w')))"

definition is_ancestor_or_equal :: "('w, 'o) sync_client \<Rightarrow> commit_id \<Rightarrow> commit_id \<Rightarrow> ('w, 'o, bool) run" where
  "is_ancestor_or_equal cl ancestor descendant s =
     (if ancestor = descendant then Some (Ok True, s)
      else case s of (w, out) \<Rightarrow>
        map_option (\<lambda>(r, w'). (r, w', out)) (ancestry_loop (cl_workspace cl) ancestor [descendant] [] w))"

section \<open>Pull\<close>

definition apply_with_protection ::
  "('w, 'o) sync_client \<Rightarrow> ref_state \<Rightarrow> sync_conflict list \<Rightarrow> ('w, 'o, sync_conflict list) run" where
  "apply_with_protection cl remote conflicts =
     sy_bind (on_workspace (lw_apply_ref (cl_workspace cl) (rs_namespace remote) (rs_name remote) (rs_commit remote)
                (cl_authorize_protected cl))) (\<lambda>outcome.
       case outcome of
         RefRefusedProtected \<Rightarrow>
           sy_bind (on_workspace (lw_read_ref (cl_workspace cl) (rs_namespace remote) (rs_name remote))) (\<lambda>current.
             sy_ok (conflicts @ [\<lparr>sf_namespace = rs_namespace remote, sf_name = rs_name remote, sf_local_commit = current,
                                  sf_remote_commit = Some (rs_commit remote), sf_reason = ProtectedEnvironment\<rparr>]))
       | _ \<Rightarrow> sy_ok conflicts)"

definition reconcile_one ::
  "('w, 'o) sync_client \<Rightarrow> ref_state \<Rightarrow> sync_conflict list \<Rightarrow> ('w, 'o, sync_conflict list) run" where
  "reconcile_one cl remote conflicts =
     sy_bind (on_workspace (lw_commit_parents (cl_workspace cl) (rs_commit remote))) (\<lambda>known.
     sy_bind (on_workspace (lw_read_ref (cl_workspace cl) (rs_namespace remote) (rs_name remote))) (\<lambda>local.
       if known = None
       then sy_ok (conflicts @ [\<lparr>sf_namespace = rs_namespace remote, sf_name = rs_name remote, sf_local_commit = local,
                                 sf_remote_commit = Some (rs_commit remote), sf_reason = UnverifiableHistory\<rparr>])
       else (case local of
           None \<Rightarrow> apply_with_protection cl remote conflicts
         | Some current \<Rightarrow>
             if current = rs_commit remote then sy_ok conflicts
             else
               sy_bind (is_ancestor_or_equal cl current (rs_commit remote)) (\<lambda>remote_ahead.
               sy_bind (is_ancestor_or_equal cl (rs_commit remote) current) (\<lambda>local_ahead.
                 if remote_ahead then apply_with_protection cl remote conflicts
                 else if local_ahead then sy_ok conflicts
                 else sy_ok (conflicts @ [\<lparr>sf_namespace = rs_namespace remote, sf_name = rs_name remote,
                        sf_local_commit = Some current, sf_remote_commit = Some (rs_commit remote), sf_reason = Diverged\<rparr>]))))))"

fun reconcile_remote_refs ::
  "('w, 'o) sync_client \<Rightarrow> ref_state list \<Rightarrow> sync_conflict list \<Rightarrow> ('w, 'o, sync_conflict list) run" where
  "reconcile_remote_refs cl [] conflicts = sy_ok conflicts"
| "reconcile_remote_refs cl (r # rs) conflicts =
     sy_bind (reconcile_one cl r conflicts) (\<lambda>conflicts'. reconcile_remote_refs cl rs conflicts')"

fun apply_policies :: "('w, 'o) sync_client \<Rightarrow> stored_policy list \<Rightarrow> nat \<Rightarrow> ('w, 'o, nat) run" where
  "apply_policies cl [] n = sy_ok n"
| "apply_policies cl (p # ps) n =
     sy_bind (on_workspace (lw_apply_remote_policy (cl_workspace cl) (sp_name p) (sp_document_json p))) (\<lambda>changed.
       apply_policies cl ps (if changed then n + 1 else n))"

definition apply_remote_policies :: "('w, 'o) sync_client \<Rightarrow> project_id \<Rightarrow> ('w, 'o, nat) run" where
  "apply_remote_policies cl project =
     sy_bind (send_json cl (get_request (project_path project ''/policies'')) None (sc_policies_parse (cl_codec cl))) (\<lambda>ps.
       apply_policies cl ps 0)"

partial_function (option) pull_loop ::
  "('w, 'o) sync_client \<Rightarrow> project_id \<Rightarrow> nat \<Rightarrow> 'w \<times> 'o \<Rightarrow>
     ((query_missing_response \<times> nat, sync_error) result \<times> 'w \<times> 'o) option" where
  "pull_loop cl project sofar s =
     (case sync_probe cl project s of
        None \<Rightarrow> None
      | Some (r, s1) \<Rightarrow>
          (case r of
             Err e \<Rightarrow> Some (Err e, s1)
           | Ok response \<Rightarrow>
               (case download_and_apply cl response s1 of
                  None \<Rightarrow> None
                | Some (d, s2) \<Rightarrow>
                    (case d of
                       Err e \<Rightarrow> Some (Err e, s2)
                     | Ok downloaded \<Rightarrow>
                         if \<not> qr_missing_objects_truncated response \<or> downloaded = 0
                         then Some (Ok (response, sofar + downloaded), s2)
                         else pull_loop cl project (sofar + downloaded) s2))))"

definition pull :: "('w, 'o) sync_client \<Rightarrow> project_id \<Rightarrow> ('w, 'o, sync_result) run" where
  "pull cl project =
     sy_bind (pull_loop cl project 0) (\<lambda>(response, downloaded).
     sy_bind (reconcile_remote_refs cl (qr_remote_refs response) []) (\<lambda>conflicts.
     sy_bind (apply_remote_policies cl project) (\<lambda>policies.
       sy_ok (clean_result\<lparr>sr_downloaded := downloaded, sr_conflicts := conflicts, sr_policies_applied := policies\<rparr>))))"

section \<open>Push\<close>

definition UPLOAD_MAX_ENTRIES :: nat where
  "UPLOAD_MAX_ENTRIES = 256"

definition UPLOAD_MAX_BATCH_BYTES :: nat where
  "UPLOAD_MAX_BATCH_BYTES = 512 * 1024"

definition UPLOAD_ENTRY_OVERHEAD :: nat where
  "UPLOAD_ENTRY_OVERHEAD = 96"

fun collect_uploads ::
  "('w, 'o) sync_client \<Rightarrow> object_id list \<Rightarrow> object_id list \<Rightarrow> object_entry_wire list \<Rightarrow> ('w, 'o, object_entry_wire list) run" where
  "collect_uploads cl remote [] entries = sy_ok entries"
| "collect_uploads cl remote (i # ids) entries =
     (if i \<in> set remote then collect_uploads cl remote ids entries
      else
        sy_bind (on_workspace (lw_canonical_bytes (cl_workspace cl) i)) (\<lambda>found.
        sy_bind (sy_lift (ok_or (SyncProtocol ''known object unreadable'') found)) (\<lambda>canonical.
          let digest = digest_hex (sc_repo (cl_codec cl)) canonical
          in if digest \<noteq> digest_suffix i then sy_lift (Err (SyncHashMismatch i))
             else if \<not> is_utf8 canonical then sy_lift (Err (SyncProtocol ''non-utf8 canonical bytes''))
             else collect_uploads cl remote ids
                    (entries @ [\<lparr>oe_id = i, oe_content_hash = digest, oe_envelope_json = canonical\<rparr>]))))"

definition entry_cost :: "object_entry_wire \<Rightarrow> nat" where
  "entry_cost e = length (oe_envelope_json e) + length (oe_id e) + length (oe_content_hash e) + UPLOAD_ENTRY_OVERHEAD"

fun batch_entries ::
  "object_entry_wire list \<Rightarrow> object_entry_wire list list \<Rightarrow> object_entry_wire list \<Rightarrow> nat \<Rightarrow> object_entry_wire list list" where
  "batch_entries [] batches current bytes = (if current \<noteq> [] then batches @ [current] else batches)"
| "batch_entries (e # es) batches current bytes =
     (if current \<noteq> [] \<and> (UPLOAD_MAX_ENTRIES \<le> length current \<or> UPLOAD_MAX_BATCH_BYTES < bytes + entry_cost e)
      then batch_entries es (batches @ [current]) [e] (entry_cost e)
      else batch_entries es batches (current @ [e]) (bytes + entry_cost e))"

fun send_batches :: "('w, 'o) sync_client \<Rightarrow> project_id \<Rightarrow> object_entry_wire list list \<Rightarrow> nat \<Rightarrow> ('w, 'o, nat) run" where
  "send_batches cl project [] stored_total = sy_ok stored_total"
| "send_batches cl project (b # bs) stored_total =
     sy_bind (send_json cl (post_request (project_path project ''/objects/batch'') [])
                (Some (sc_batch_str (cl_codec cl) b)) (sc_batch_parse (cl_codec cl))) (\<lambda>response.
       if bo_stored response = 0 then sy_ok (stored_total + bo_stored response)
       else send_batches cl project bs (stored_total + bo_stored response))"

definition upload_missing_objects ::
  "('w, 'o) sync_client \<Rightarrow> project_id \<Rightarrow> object_id list \<Rightarrow> ('w, 'o, nat) run" where
  "upload_missing_objects cl project remote =
     sy_bind (on_workspace (lw_known_object_ids (cl_workspace cl))) (\<lambda>known.
     sy_bind (collect_uploads cl remote known []) (\<lambda>entries.
       send_batches cl project (batch_entries entries [] [] 0) 0))"

definition json_field :: "string \<Rightarrow> json option \<Rightarrow> json" where
  "json_field key v =
     (case v of Some (JObject kvs) \<Rightarrow> (case map_of kvs key of Some x \<Rightarrow> x | None \<Rightarrow> JNull) | _ \<Rightarrow> JNull)"

definition conflict_of_409 :: "sync_codec \<Rightarrow> ref_state \<Rightarrow> commit_id option \<Rightarrow> string \<Rightarrow> sync_conflict" where
  "conflict_of_409 c reference base_commit body =
     (let detail = sc_json c body;
          server_current =
            (case json_field ''current_commit'' detail of
               JString raw \<Rightarrow> (case parse_commit_id raw of Ok k \<Rightarrow> Some k | Err _ \<Rightarrow> None)
             | _ \<Rightarrow> None)
      in \<lparr>sf_namespace = rs_namespace reference, sf_name = rs_name reference, sf_local_commit = Some (rs_commit reference),
          sf_remote_commit = (case server_current of Some k \<Rightarrow> Some k | None \<Rightarrow> base_commit),
          sf_reason = (if json_field ''error'' detail = JString ''protected_environment_ref'' then ProtectedEnvironment
                       else Diverged)\<rparr>)"

definition put_one ::
  "('w, 'o) sync_client \<Rightarrow> project_id \<Rightarrow> ref_state \<Rightarrow> commit_id option \<Rightarrow> sync_conflict list \<Rightarrow> ('w, 'o, sync_conflict list) run" where
  "put_one cl project reference base_commit conflicts =
     sy_bind (sy_lift (ok_or (SyncProtocol ''request encode'') (sc_put_ref_str (cl_codec cl)
        \<lparr>pr_namespace = rs_namespace reference, pr_commit = rs_commit reference, pr_base_commit = base_commit,
         pr_authorized = cl_authorize_protected cl\<rparr>))) (\<lambda>body.
     sy_bind (on_network (cl_send cl (put_request (project_path project (''/refs/'' @ rs_name reference)) body))) (\<lambda>response.
       if is_success response then sy_ok conflicts
       else if tr_status response = 409
       then sy_ok (conflicts @ [conflict_of_409 (cl_codec cl) reference base_commit (tr_body response)])
       else sy_lift (Err (map_rejection (cl_codec cl) response))))"

definition publish_one ::
  "('w, 'o) sync_client \<Rightarrow> project_id \<Rightarrow> ref_state list \<Rightarrow> ref_state \<Rightarrow> sync_conflict list \<Rightarrow> ('w, 'o, sync_conflict list) run" where
  "publish_one cl project remote_refs reference conflicts =
     (case find (\<lambda>r. rs_namespace r = rs_namespace reference \<and> rs_name r = rs_name reference) remote_refs of
        None \<Rightarrow> put_one cl project reference None conflicts
      | Some r \<Rightarrow>
          if rs_commit r = rs_commit reference then sy_ok conflicts
          else
            sy_bind (is_ancestor_or_equal cl (rs_commit r) (rs_commit reference)) (\<lambda>ahead.
              if ahead then put_one cl project reference (Some (rs_commit r)) conflicts
              else sy_bind (is_ancestor_or_equal cl (rs_commit reference) (rs_commit r)) (\<lambda>behind.
                if behind then sy_ok conflicts
                else sy_ok (conflicts @ [\<lparr>sf_namespace = rs_namespace reference, sf_name = rs_name reference,
                       sf_local_commit = Some (rs_commit reference), sf_remote_commit = Some (rs_commit r),
                       sf_reason = Diverged\<rparr>]))))"

fun publish_refs ::
  "('w, 'o) sync_client \<Rightarrow> project_id \<Rightarrow> ref_state list \<Rightarrow> ref_state list \<Rightarrow> sync_conflict list \<Rightarrow> ('w, 'o, sync_conflict list) run" where
  "publish_refs cl project remote_refs [] conflicts = sy_ok conflicts"
| "publish_refs cl project remote_refs (r # rs) conflicts =
     sy_bind (publish_one cl project remote_refs r conflicts) (\<lambda>conflicts'. publish_refs cl project remote_refs rs conflicts')"

definition publish_local_refs ::
  "('w, 'o) sync_client \<Rightarrow> project_id \<Rightarrow> ref_state list \<Rightarrow> ('w, 'o, sync_conflict list) run" where
  "publish_local_refs cl project remote_refs =
     sy_bind (on_workspace (lw_all_refs (cl_workspace cl))) (\<lambda>refs. publish_refs cl project remote_refs refs [])"

definition push :: "('w, 'o) sync_client \<Rightarrow> project_id \<Rightarrow> ('w, 'o, sync_result) run" where
  "push cl project =
     sy_bind (sync_probe cl project) (\<lambda>response.
     sy_bind (upload_missing_objects cl project (qr_remote_object_ids response)) (\<lambda>uploaded.
     sy_bind (publish_local_refs cl project (qr_remote_refs response)) (\<lambda>conflicts.
       sy_ok (clean_result\<lparr>sr_uploaded := uploaded, sr_conflicts := conflicts\<rparr>))))"

definition push_then_pull :: "('w, 'o) sync_client \<Rightarrow> project_id \<Rightarrow> ('w, 'o, sync_result) run" where
  "push_then_pull cl project =
     sy_bind (push cl project) (\<lambda>pushed.
     sy_bind (pull cl project) (\<lambda>pulled.
       sy_ok \<lparr>sr_uploaded = sr_uploaded pushed, sr_downloaded = sr_downloaded pulled,
              sr_conflicts = sr_conflicts pushed @ sr_conflicts pulled,
              sr_policies_applied = sr_policies_applied pulled\<rparr>))"

section \<open>Other requests\<close>

definition upload_audit_events ::
  "('w, 'o) sync_client \<Rightarrow> project_id \<Rightarrow> ingest_event list \<Rightarrow> ('w, 'o, audit_ingest_result) run" where
  "upload_audit_events cl project events =
     send_json cl (post_request (project_path project ''/audit'') []) (Some (sc_events_str (cl_codec cl) events))
       (sc_ingest_parse (cl_codec cl))"

definition list_remote_agents :: "('w, 'o) sync_client \<Rightarrow> project_id \<Rightarrow> ('w, 'o, agent_view list) run" where
  "list_remote_agents cl project =
     send_json cl (get_request (project_path project ''/agents'')) None (sc_agents_parse (cl_codec cl))"

end
