(* ===== verification/Sync_Contract.thy ===== *)
theory Sync_Contract
  imports Sync_Client "HOL-Library.Sublist"
begin

text \<open>
  The contract between the sync client and a workspace, and what the client guarantees over every workspace that keeps
  it, whatever the server answers: refs move only forward along the commit graph and only to commits that are there,
  locked environments stay put, the ancestry walk always returns the right answer, and a push publishes nothing but
  fast-forwards of what it saw.
\<close>

section \<open>Reference definitions\<close>

definition edges :: "(commit_id \<Rightarrow> commit_id list option) \<Rightarrow> (commit_id \<times> commit_id) set" where
  "edges par = {(x, y). \<exists>ps. par x = Some ps \<and> y \<in> set ps}"

text \<open>A ref may stay, or move to a known commit that its old value precedes.\<close>

definition forward ::
  "(commit_id \<Rightarrow> commit_id list option) \<Rightarrow> commit_id option \<Rightarrow> commit_id option \<Rightarrow> bool" where
  "forward par old new \<longleftrightarrow>
     new = old \<or> (\<exists>k. new = Some k \<and> par k \<noteq> None \<and> (\<forall>x. old = Some x \<longrightarrow> (k, x) \<in> (edges par)\<^sup>*))"

datatype verdict = Keep | Adopt | Refuse conflict_reason

text \<open>What is to become of a ref, from its value here and there.\<close>

definition verdict_of :: "(commit_id \<Rightarrow> commit_id list option) \<Rightarrow> commit_id option \<Rightarrow> commit_id \<Rightarrow> verdict" where
  "verdict_of par here there =
     (if par there = None then Refuse UnverifiableHistory
      else case here of
          None \<Rightarrow> Adopt
        | Some x \<Rightarrow>
            if x = there then Keep
            else if (there, x) \<in> (edges par)\<^sup>* then Adopt
            else if (x, there) \<in> (edges par)\<^sup>* then Keep
            else Refuse Diverged)"

definition conflict_on :: "ref_state \<Rightarrow> commit_id option \<Rightarrow> conflict_reason \<Rightarrow> sync_conflict" where
  "conflict_on r here reason =
     \<lparr>sf_namespace = rs_namespace r, sf_name = rs_name r, sf_local_commit = here, sf_remote_commit = Some (rs_commit r),
      sf_reason = reason\<rparr>"

definition valid_refs :: "ref_state list \<Rightarrow> bool" where
  "valid_refs rs \<longleftrightarrow> list_all (\<lambda>r. parse_commit_id (rs_commit r) = Ok (rs_commit r)) rs"

text \<open>The decoders of the wire records construct identifiers and names through their parsers.\<close>

definition sync_codec_typed :: "sync_codec \<Rightarrow> bool" where
  "sync_codec_typed c \<longleftrightarrow>
     (\<forall>b r. sc_query_parse c b = Some r \<longrightarrow> valid_refs (qr_remote_refs r))
     \<and> (\<forall>b ps. sc_policies_parse c b = Some ps \<longrightarrow> list_all (\<lambda>p. parse_policy_name (sp_name p) = Ok (sp_name p)) ps)"

text \<open>The client with a transport that records the requests.\<close>

definition logging :: "('w, 'o) sync_client \<Rightarrow> ('w, transport_request list \<times> 'o) sync_client" where
  "logging cl =
     \<lparr>cl_send = (\<lambda>rq (sent, out). case cl_send cl rq out of (r, out') \<Rightarrow> (r, sent @ [rq], out')),
      cl_obtain = (\<lambda>(sent, out). case cl_obtain cl out of (r, out') \<Rightarrow> (r, sent, out')),
      cl_workspace = cl_workspace cl, cl_codec = cl_codec cl, cl_authorize_protected = cl_authorize_protected cl\<rparr>"

definition ref_request :: "('w, 'o) sync_client \<Rightarrow> project_id \<Rightarrow> ref_state \<Rightarrow> commit_id option \<Rightarrow> transport_request option" where
  "ref_request cl project r base =
     map_option (put_request (project_path project (''/refs/'' @ rs_name r)))
       (sc_put_ref_str (cl_codec cl) \<lparr>pr_namespace = rs_namespace r, pr_commit = rs_commit r, pr_base_commit = base,
          pr_authorized = cl_authorize_protected cl\<rparr>)"

text \<open>The update of a ref that a push owes the server: none when the server is level with it, ahead of it or diverged.\<close>

definition publication ::
  "(commit_id \<Rightarrow> commit_id list option) \<Rightarrow> ('w, 'o) sync_client \<Rightarrow> project_id \<Rightarrow> ref_state list \<Rightarrow> ref_state \<Rightarrow> transport_request option" where
  "publication par cl project remote_refs r =
     (let base = map_option rs_commit
            (find (\<lambda>q. rs_namespace q = rs_namespace r \<and> rs_name q = rs_name r) remote_refs)
      in case base of
           Some b \<Rightarrow> if b = rs_commit r \<or> (rs_commit r, b) \<notin> (edges par)\<^sup>* then None else ref_request cl project r base
         | None \<Rightarrow> ref_request cl project r base)"

section \<open>Lemmas: runs\<close>

definition run_keeps :: "('w \<times> 'o \<Rightarrow> 'w \<times> 'o \<Rightarrow> bool) \<Rightarrow> ('w, 'o, 'a) run \<Rightarrow> bool" where
  "run_keeps R m \<longleftrightarrow> (\<forall>s r s'. m s = Some (r, s') \<longrightarrow> R s s')"

named_theorems run_rules

locale run_frame =
  fixes R :: "'w \<times> 'o \<Rightarrow> 'w \<times> 'o \<Rightarrow> bool"
  assumes run_refl: "R s s"
    and run_trans: "R s t \<Longrightarrow> R t u \<Longrightarrow> R s u"
begin

lemma keeps_bind [run_rules]: "run_keeps R m \<Longrightarrow> (\<And>a. run_keeps R (f a)) \<Longrightarrow> run_keeps R (sy_bind m f)"
  unfolding run_keeps_def sy_bind_def by (force split: option.splits result.splits intro: run_trans)

lemma keeps_simple [run_rules]: "run_keeps R (sy_ok a)" "run_keeps R (sy_lift r)"
  by (auto simp: run_keeps_def sy_ok_def sy_lift_def run_refl)

lemma keeps_if [run_rules]: "run_keeps R m \<Longrightarrow> run_keeps R n \<Longrightarrow> run_keeps R (if b then m else n)"
  by simp

lemma keeps_option [run_rules]:
  "run_keeps R m \<Longrightarrow> (\<And>a. run_keeps R (f a)) \<Longrightarrow> run_keeps R (case x of None \<Rightarrow> m | Some a \<Rightarrow> f a)"
  by (cases x) auto

end

lemma run_keepsD: "run_keeps R m \<Longrightarrow> m s = Some (r, s') \<Longrightarrow> R s s'"
  unfolding run_keeps_def by blast

lemma on_workspace_keeps: "(\<And>w out r w'. f w = (r, w') \<Longrightarrow> R (w, out) (w', out)) \<Longrightarrow> run_keeps R (on_workspace f)"
  by (auto simp: run_keeps_def on_workspace_def split: prod.splits)

lemma on_network_keeps: "(\<And>w out r out'. f out = (r, out') \<Longrightarrow> R (w, out) (w, out')) \<Longrightarrow> run_keeps R (on_network f)"
  by (auto simp: run_keeps_def on_network_def split: prod.splits)

lemma sy_bind_Some:
  "sy_bind m f s = Some (r, s') \<longleftrightarrow>
     (\<exists>e. m s = Some (Err e, s') \<and> r = Err e) \<or> (\<exists>a t. m s = Some (Ok a, t) \<and> f a t = Some (r, s'))"
  by (auto simp: sy_bind_def split: option.splits result.splits)

lemma sy_bind_run:
  "m s = Some (Ok a, t) \<Longrightarrow> sy_bind m f s = f a t" "m s = Some (Err e, t) \<Longrightarrow> sy_bind m f s = Some (Err e, t)"
  by (simp_all add: sy_bind_def)

lemma on_workspace_run: "f w = (r, w') \<Longrightarrow> on_workspace f (w, out) = Some (r, w', out)"
  by (simp add: on_workspace_def)

section \<open>Lemmas: the commit graph\<close>

lemma edges_mono: "(\<And>k ps. par k = Some ps \<Longrightarrow> par' k = Some ps) \<Longrightarrow> edges par \<subseteq> edges par'"
  by (auto simp: edges_def)

lemma forward_refl [simp]: "forward par old old"
  by (simp add: forward_def)

lemma forward_trans:
  assumes "forward par a b" "forward par' b d" "\<And>k ps. par k = Some ps \<Longrightarrow> par' k = Some ps"
  shows "forward par' a d"
proof -
  have sub: "(edges par)\<^sup>* \<subseteq> (edges par')\<^sup>*" by (rule rtrancl_mono [OF edges_mono]) (rule assms(3))
  have known: "par k \<noteq> None \<Longrightarrow> par' k \<noteq> None" for k using assms(3) by fastforce
  show ?thesis
  proof (cases "d = b")
    case True
    from assms(1) consider "b = a"
      | k where "b = Some k" "par k \<noteq> None" "\<And>x. a = Some x \<Longrightarrow> (k, x) \<in> (edges par)\<^sup>*"
      by (auto simp: forward_def)
    then show ?thesis
    proof cases
      case (2 k)
      then have "(k, x) \<in> (edges par')\<^sup>*" if "a = Some x" for x using sub that by blast
      with 2 True known show ?thesis by (auto simp: forward_def)
    qed (use True in simp)
  next
    case False
    then obtain k where k: "d = Some k" "par' k \<noteq> None" "\<And>x. b = Some x \<Longrightarrow> (k, x) \<in> (edges par')\<^sup>*"
      using assms(2) by (auto simp: forward_def)
    have "(k, x) \<in> (edges par')\<^sup>*" if a: "a = Some x" for x
    proof (cases "b = a")
      case True
      then show ?thesis using k(3) a by simp
    next
      case False
      then obtain y where "b = Some y" "(y, x) \<in> (edges par)\<^sup>*" using assms(1) unfolding forward_def a by blast
      with k(3) [of y] subsetD [OF sub, of "(y, x)"] show ?thesis by auto
    qed
    with k show ?thesis by (auto simp: forward_def)
  qed
qed

lemma forward_mono:
  "forward par a b \<Longrightarrow> (\<And>k ps. par k = Some ps \<Longrightarrow> par' k = Some ps) \<Longrightarrow> forward par' a b"
  using forward_trans [of par a b par' b] by simp

lemma adopt_forward: "verdict_of par here there = Adopt \<Longrightarrow> forward par here (Some there)"
  by (auto simp: verdict_of_def forward_def split: if_splits option.splits)

section \<open>The contract of a workspace\<close>

locale sync_workspace =
  fixes ws :: "'w local_workspace"
    and inv :: "'w \<Rightarrow> bool"
    and tip :: "'w \<Rightarrow> cp_namespace \<Rightarrow> string \<Rightarrow> commit_id option"
    and parents :: "'w \<Rightarrow> commit_id \<Rightarrow> commit_id list option"
    and locked :: "'w \<Rightarrow> string \<Rightarrow> bool"
    and tracked :: "cp_namespace \<Rightarrow> string \<Rightarrow> bool"
  assumes ids_read: "inv w \<Longrightarrow> lw_known_object_ids ws w = (r1, w') \<Longrightarrow> w' = w"
    and bytes_read: "inv w \<Longrightarrow> lw_canonical_bytes ws i w = (r2, w') \<Longrightarrow> w' = w"
    and refs_read: "inv w \<Longrightarrow> lw_all_refs ws w = (r3, w') \<Longrightarrow> w' = w"
    and tip_read: "inv w \<Longrightarrow> lw_read_ref ws ns n w = (r4, w') \<Longrightarrow> w' = w \<and> (\<forall>t. r4 = Ok t \<longrightarrow> t = tip w ns n)"
    and parents_read: "inv w \<Longrightarrow> lw_commit_parents ws k w = (r5, w') \<Longrightarrow> w' = w \<and> (\<forall>t. r5 = Ok t \<longrightarrow> t = parents w k)"
    and finitely_many: "inv w \<Longrightarrow> finite (dom (parents w))"
    and locked_tracked: "locked w n \<Longrightarrow> tracked CpEnvironments n"
    and object_applied: "inv w \<Longrightarrow> lw_apply_object ws e w = (r6, w') \<Longrightarrow>
        inv w' \<and> (\<forall>k ps. parents w k = Some ps \<longrightarrow> parents w' k = Some ps)
        \<and> (\<forall>ns n. tracked ns n \<longrightarrow> tip w' ns n = tip w ns n) \<and> (\<forall>n. locked w n \<longrightarrow> locked w' n)"
    and ref_applied: "inv w \<Longrightarrow> parse_commit_id k = Ok k \<Longrightarrow> lw_apply_ref ws ns n k auth w = (r7, w') \<Longrightarrow>
        inv w' \<and> parents w' = parents w
        \<and> (\<forall>ns' n'. tracked ns' n' \<longrightarrow> tip w' ns' n' = tip w ns' n' \<or> tip w' ns' n' = Some k \<and> tip w ns' n' = tip w ns n)
        \<and> (\<forall>n'. locked w n' \<longrightarrow> locked w' n' \<and> (auth \<or> tip w' CpEnvironments n' = tip w CpEnvironments n'))"
    and policy_applied: "inv w \<Longrightarrow> parse_policy_name n = Ok n \<Longrightarrow> lw_apply_remote_policy ws n y w = (r8, w') \<Longrightarrow>
        inv w' \<and> parents w' = parents w \<and> (\<forall>ns n. tracked ns n \<longrightarrow> tip w' ns n = tip w ns n) \<and> (\<forall>n. locked w n \<longrightarrow> locked w' n)"
begin

text \<open>What a step of a client may do to the workspace.\<close>

definition step :: "bool \<Rightarrow> 'w \<times> 'o \<Rightarrow> 'w \<times> 'o \<Rightarrow> bool" where
  "step auth s s' \<longleftrightarrow>
     (inv (fst s) \<longrightarrow>
        inv (fst s') \<and> (\<forall>k ps. parents (fst s) k = Some ps \<longrightarrow> parents (fst s') k = Some ps)
        \<and> (\<forall>ns n. tracked ns n \<longrightarrow> forward (parents (fst s')) (tip (fst s) ns n) (tip (fst s') ns n))
        \<and> (\<forall>n. locked (fst s) n \<longrightarrow> locked (fst s') n
             \<and> (auth \<or> tip (fst s') CpEnvironments n = tip (fst s) CpEnvironments n)))"

lemma step_refl: "step auth s s"
  by (simp add: step_def)

lemma step_trans:
  assumes "step auth s t" "step auth t u"
  shows "step auth s u"
  unfolding step_def
proof (intro impI conjI allI)
  assume i: "inv (fst s)"
  note st = assms(1) [unfolded step_def, rule_format, OF i]
  note tu = assms(2) [unfolded step_def, rule_format, OF conjunct1 [OF st]]
  show "inv (fst u)" using tu by simp
  show "parents (fst u) k = Some ps" if "parents (fst s) k = Some ps" for k ps using st tu that by simp
  show "forward (parents (fst u)) (tip (fst s) ns n) (tip (fst u) ns n)" if "tracked ns n" for ns n
    by (rule forward_trans [where par = "parents (fst t)" and b = "tip (fst t) ns n"]) (use st tu that in simp_all)
  show "locked (fst u) n" "auth \<or> tip (fst u) CpEnvironments n = tip (fst s) CpEnvironments n"
    if l: "locked (fst s) n" for n
  proof -
    have "locked (fst t) n" "auth \<or> tip (fst t) CpEnvironments n = tip (fst s) CpEnvironments n" using st l by blast+
    then show "locked (fst u) n" "auth \<or> tip (fst u) CpEnvironments n = tip (fst s) CpEnvironments n" using tu by auto
  qed
qed

lemma ancestry_total:
  assumes "inv w" "a \<noteq> d"
    and "d \<in> set visited \<union> set queue" "set visited \<union> set queue \<subseteq> {x. (d, x) \<in> (edges (parents w))\<^sup>*}"
    and "\<And>x y. x \<in> set visited \<Longrightarrow> (x, y) \<in> edges (parents w) \<Longrightarrow> y \<in> set visited \<union> set queue \<and> y \<noteq> a"
  shows "\<exists>r. ancestry_loop ws a queue visited w = Some (r, w) \<and> (\<forall>b. r = Ok b \<longrightarrow> (b \<longleftrightarrow> (d, a) \<in> (edges (parents w))\<^sup>*))"
  using assms(3-)
proof (induction "(card (dom (parents w) - set visited), length queue)" arbitrary: queue visited rule: wf_induct_rule [OF wf_lex_prod [OF wf_less_than wf_less_than]])
  case (1 queue visited)
  let ?E = "edges (parents w)"
  show ?case
  proof (cases queue)
    case Nil
    have "set visited \<supseteq> {x. (d, x) \<in> ?E\<^sup>*}"
    proof (intro subsetI, clarify)
      fix x assume "(d, x) \<in> ?E\<^sup>*"
      then show "x \<in> set visited" by (induction rule: rtrancl_induct) (use 1(2,4) Nil in auto)
    qed
    then have "(d, a) \<notin> ?E\<^sup>*"
      using assms(2) 1(4) by (metis (mono_tags, lifting) mem_Collect_eq rtranclE subsetD)
    then show ?thesis using Nil by (simp add: ancestry_loop.simps)
  next
    case (Cons cur rest)
    show ?thesis
    proof (cases "cur \<in> set visited")
      case True
      then have "ancestry_loop ws a queue visited w = ancestry_loop ws a rest visited w"
        using Cons by (subst ancestry_loop.simps) simp
      moreover have "\<exists>r. ancestry_loop ws a rest visited w = Some (r, w) \<and> (\<forall>b. r = Ok b \<longrightarrow> (b \<longleftrightarrow> (d, a) \<in> ?E\<^sup>*))"
        by (rule 1(1)) (use 1(2-4) Cons True in auto)
      ultimately show ?thesis by simp
    next
      case False
      obtain r5 where read: "lw_commit_parents ws cur w = (r5, w)" "\<And>t. r5 = Ok t \<Longrightarrow> t = parents w cur"
        using parents_read [OF assms(1)] by (metis surj_pair)
      show ?thesis
      proof (cases r5)
        case (Err e)
        then show ?thesis using read(1) Cons False by (simp add: ancestry_loop.simps)
      next
        case (Ok t)
        note t = read(2) [OF Ok]
        show ?thesis
        proof (cases t)
          case None
          then have "ancestry_loop ws a queue visited w = ancestry_loop ws a rest (cur # visited) w"
            using Cons False read(1) Ok by (subst ancestry_loop.simps) simp
          moreover have "dom (parents w) - set (cur # visited) = dom (parents w) - set visited"
            using t None by auto
          moreover have "\<exists>r. ancestry_loop ws a rest (cur # visited) w = Some (r, w) \<and> (\<forall>b. r = Ok b \<longrightarrow> (b \<longleftrightarrow> (d, a) \<in> ?E\<^sup>*))"
            by (rule 1(1)) (use 1(2-4) Cons t None calculation(2) in \<open>auto simp: edges_def\<close>)
          ultimately show ?thesis by simp
        next
          case (Some ps)
          have ps: "(cur, y) \<in> ?E \<longleftrightarrow> y \<in> set ps" for y using t [symmetric] Some by (simp add: edges_def)
          have reach: "(d, cur) \<in> ?E\<^sup>*" using 1(3) Cons by auto
          show ?thesis
          proof (cases "a \<in> set ps")
            case True
            then have "(d, a) \<in> ?E\<^sup>*" using reach ps by (meson rtrancl.rtrancl_into_rtrancl)
            then show ?thesis using Cons False read(1) Ok Some True by (subst ancestry_loop.simps) simp
          next
            case noa: False
            have "card (dom (parents w) - set (cur # visited)) < card (dom (parents w) - set visited)"
              by (rule psubset_card_mono) (use finitely_many [OF assms(1)] domI [of "parents w" cur ps] t Some False in auto)
            moreover have "ancestry_loop ws a queue visited w = ancestry_loop ws a (rev ps @ rest) (cur # visited) w"
              using Cons False read(1) Ok Some noa by (subst ancestry_loop.simps) simp
            moreover have "\<exists>r. ancestry_loop ws a (rev ps @ rest) (cur # visited) w = Some (r, w) \<and> (\<forall>b. r = Ok b \<longrightarrow> (b \<longleftrightarrow> (d, a) \<in> ?E\<^sup>*))"
              by (rule 1(1))
                 (use 1(2-4) Cons calculation(1) noa ps reach in \<open>auto intro: rtrancl.rtrancl_into_rtrancl\<close>)
            ultimately show ?thesis by simp
          qed
        qed
      qed
    qed
  qed
qed

lemma is_ancestor_exact:
  assumes "inv w" "cl_workspace cl = ws"
  shows "\<exists>r. is_ancestor_or_equal cl a d (w, out) = Some (r, w, out) \<and> (\<forall>b. r = Ok b \<longrightarrow> (b \<longleftrightarrow> (d, a) \<in> (edges (parents w))\<^sup>*))"
proof (cases "a = d")
  case False
  from ancestry_total [OF assms(1) False, of "[]" "[d]"] obtain r where
    "ancestry_loop ws a [d] [] w = Some (r, w)" "\<forall>b. r = Ok b \<longrightarrow> (b \<longleftrightarrow> (d, a) \<in> (edges (parents w))\<^sup>*)" by auto
  then show ?thesis using False assms(2) by (simp add: is_ancestor_or_equal_def)
qed (simp add: is_ancestor_or_equal_def)

lemma apply_ref_step:
  assumes "inv w" "verdict_of (parents w) (tip w ns n) k = Adopt" "parse_commit_id k = Ok k"
    and "lw_apply_ref ws ns n k auth w = (r, w')"
  shows "step auth (w, out) (w', out)"
proof -
  note new = ref_applied [OF assms(1,3,4)]
  have "forward (parents w') (tip w ns' n') (tip w' ns' n')" if tr: "tracked ns' n'" for ns' n'
  proof -
    consider "tip w' ns' n' = tip w ns' n'" | "tip w' ns' n' = Some k" "tip w ns' n' = tip w ns n" using new tr by blast
    then show ?thesis using adopt_forward [OF assms(2)] new by cases auto
  qed
  with new show ?thesis by (auto simp: step_def)
qed

text \<open>Reconciling one ref follows the verdict, or fails in between.\<close>

lemma reconcile_one_spec:
  assumes "inv w" "cl_workspace cl = ws" "parse_commit_id (rs_commit r) = Ok (rs_commit r)"
  defines "here \<equiv> tip w (rs_namespace r) (rs_name r)"
  defines "v \<equiv> verdict_of (parents w) here (rs_commit r)"
  shows "\<exists>res w'. reconcile_one cl r cf (w, out) = Some (res, w', out)
     \<and> step (cl_authorize_protected cl) (w, out) (w', out)
     \<and> (\<forall>cf'. res = Ok cf' \<longrightarrow>
          (case v of
             Keep \<Rightarrow> cf' = cf \<and> w' = w
           | Refuse reason \<Rightarrow> cf' = cf @ [conflict_on r here reason] \<and> w' = w
           | Adopt \<Rightarrow> cf' = cf \<or> cf' = cf @ [conflict_on r (tip w' (rs_namespace r) (rs_name r)) ProtectedEnvironment]))"
proof -
  let ?k = "rs_commit r"
  obtain r5 where par: "lw_commit_parents ws ?k w = (r5, w)" "\<And>t. r5 = Ok t \<Longrightarrow> t = parents w ?k"
    using parents_read [OF assms(1)] by (metis surj_pair)
  obtain r4 where rd: "lw_read_ref ws (rs_namespace r) (rs_name r) w = (r4, w)" "\<And>t. r4 = Ok t \<Longrightarrow> t = here"
    using tip_read [OF assms(1)] unfolding here_def by (metis surj_pair)
  have adopt: "\<exists>res w'. apply_with_protection cl r cf (w, out) = Some (res, w', out)
      \<and> step (cl_authorize_protected cl) (w, out) (w', out)
      \<and> (\<forall>cf'. res = Ok cf' \<longrightarrow> cf' = cf \<or> cf' = cf @ [conflict_on r (tip w' (rs_namespace r) (rs_name r)) ProtectedEnvironment])"
    if "v = Adopt"
  proof -
    obtain o7 w7 where ap: "lw_apply_ref ws (rs_namespace r) (rs_name r) ?k (cl_authorize_protected cl) w = (o7, w7)" by force
    have st: "step (cl_authorize_protected cl) (w, out) (w7, out)"
      by (rule apply_ref_step [OF assms(1) _ assms(3) ap]) (use that in \<open>simp add: v_def here_def\<close>)
    then have i7: "inv w7" using assms(1) by (simp add: step_def)
    obtain x7 where x7: "lw_read_ref ws (rs_namespace r) (rs_name r) w7 = (x7, w7)"
        "\<And>t. x7 = Ok t \<Longrightarrow> t = tip w7 (rs_namespace r) (rs_name r)"
      using tip_read [OF i7] by (metis surj_pair)
    show ?thesis
      using ap x7 st assms(2)
      by (auto simp: apply_with_protection_def sy_bind_def on_workspace_def sy_ok_def conflict_on_def
          split: result.splits ref_apply_outcome.splits)
  qed
  show ?thesis
  proof (cases "\<exists>known local. r5 = Ok known \<and> r4 = Ok local")
    case False
    then show ?thesis using par(1) rd(1) assms(2)
      by (cases r5; cases r4) (auto simp: reconcile_one_def sy_bind_def on_workspace_def step_refl)
  next
    case True
    then obtain known local where ok: "r5 = Ok known" "r4 = Ok local" by blast
    have kn: "known = parents w ?k" "local = here" using par(2) rd(2) ok by auto
    have run: "reconcile_one cl r cf (w, out) =
        (if parents w ?k = None then Some (Ok (cf @ [conflict_on r here UnverifiableHistory]), w, out)
         else case here of
             None \<Rightarrow> apply_with_protection cl r cf (w, out)
           | Some current \<Rightarrow>
               if current = ?k then Some (Ok cf, w, out)
               else sy_bind (is_ancestor_or_equal cl current ?k) (\<lambda>remote_ahead.
                    sy_bind (is_ancestor_or_equal cl ?k current) (\<lambda>local_ahead.
                      if remote_ahead then apply_with_protection cl r cf
                      else if local_ahead then sy_ok cf
                      else sy_ok (cf @ [conflict_on r (Some current) Diverged]))) (w, out))"
      using par(1) rd(1) ok kn assms(2)
      by (auto simp: reconcile_one_def sy_bind_run(1) on_workspace_run sy_ok_def conflict_on_def cong: if_cong split: option.splits)
    show ?thesis
    proof (cases "parents w ?k = None \<or> here = None \<or> here = Some ?k")
      case True
      then show ?thesis using run adopt by (auto simp: v_def verdict_of_def step_refl split: option.splits)
    next
      case False
      then obtain current where cur: "here = Some current" "current \<noteq> ?k" "parents w ?k \<noteq> None" by auto
      obtain r1 where a1: "is_ancestor_or_equal cl current ?k (w, out) = Some (r1, w, out)"
          "\<And>b. r1 = Ok b \<Longrightarrow> b \<longleftrightarrow> (?k, current) \<in> (edges (parents w))\<^sup>*"
        using is_ancestor_exact [OF assms(1,2), of current ?k out] by auto
      obtain r2 where a2: "is_ancestor_or_equal cl ?k current (w, out) = Some (r2, w, out)"
          "\<And>b. r2 = Ok b \<Longrightarrow> b \<longleftrightarrow> (current, ?k) \<in> (edges (parents w))\<^sup>*"
        using is_ancestor_exact [OF assms(1,2), of ?k current out] by auto
      show ?thesis
      proof (cases "\<exists>b1 b2. r1 = Ok b1 \<and> r2 = Ok b2")
        case True
        then obtain b1 b2 where b: "r1 = Ok b1" "r2 = Ok b2" by blast
        have vd: "v = (if b1 then Adopt else if b2 then Keep else Refuse Diverged)"
          using a1(2) [OF b(1)] a2(2) [OF b(2)] cur by (simp add: v_def verdict_of_def)
        show ?thesis using run a1(1) a2(1) b cur adopt
          by (auto simp: vd sy_bind_run(1) sy_ok_def step_refl split: if_splits)
      next
        case no: False
        then show ?thesis using run a1(1) a2(1) cur
          by (cases r1; cases r2) (auto simp: sy_bind_run step_refl)
      qed
    qed
  qed
qed

lemma reconcile_step:
  assumes "inv w" "cl_workspace cl = ws" "valid_refs rs"
  shows "\<exists>res w'. reconcile_remote_refs cl rs cf (w, out) = Some (res, w', out)
     \<and> step (cl_authorize_protected cl) (w, out) (w', out)"
  using assms(1,3)
proof (induction rs arbitrary: cf w)
  case (Cons r rs)
  then have k: "parse_commit_id (rs_commit r) = Ok (rs_commit r)" by (simp add: valid_refs_def)
  obtain res w1 where one: "reconcile_one cl r cf (w, out) = Some (res, w1, out)"
      "step (cl_authorize_protected cl) (w, out) (w1, out)"
    using reconcile_one_spec [OF Cons.prems(1) assms(2) k, of cf out] by blast
  then have i1: "inv w1" using Cons.prems(1) by (simp add: step_def)
  show ?case
  proof (cases res)
    case (Ok cf1)
    have "valid_refs rs" using Cons.prems(2) by (simp add: valid_refs_def)
    then obtain res' w' where "reconcile_remote_refs cl rs cf1 (w1, out) = Some (res', w', out)"
        "step (cl_authorize_protected cl) (w1, out) (w', out)" using Cons.IH [OF i1] by blast
    with one Ok show ?thesis using step_trans by (auto simp: sy_bind_run(1))
  qed (use one in \<open>auto simp: sy_bind_run\<close>)
qed (simp add: sy_ok_def step_refl)

end

sublocale sync_workspace \<subseteq> runs: run_frame "step auth" for auth
  by unfold_locales (fact step_refl step_trans)+

lemma send_json_value: "send_json cl rq body dec s = Some (Ok x, s') \<Longrightarrow> \<exists>b. dec b = Some x"
  by (auto simp: send_json_def sy_bind_Some sy_lift_def split: if_splits option.splits)

lemma query_once_value:
  "sync_codec_typed (cl_codec cl) \<Longrightarrow> query_once cl p known refs s = Some (Ok x, s') \<Longrightarrow> valid_refs (qr_remote_refs x)"
  unfolding query_once_def sync_codec_typed_def by (auto simp: sy_bind_Some dest!: send_json_value)

lemma probe_chunks_value:
  assumes "sync_codec_typed (cl_codec cl)" "probe_chunks cl p refs cs ms t tail s = Some (Ok (Some x), s')"
    and "\<And>y. tail = Some y \<Longrightarrow> valid_refs (qr_remote_refs y)"
  shows "valid_refs (qr_remote_refs x)"
  using assms(2,3)
proof (induction cs arbitrary: ms t tail s)
  case (Cons ch cs)
  from Cons.prems(1) obtain resp t' where once: "query_once cl p ch refs s = Some (Ok resp, t')"
      "probe_chunks cl p refs cs (push_unseen ms (qr_missing_objects resp)) (t \<or> qr_missing_objects_truncated resp)
         (Some resp) t' = Some (Ok (Some x), s')"
    unfolding probe_chunks.simps sy_bind_Some by blast
  show ?case by (rule Cons.IH [OF once(2)]) (use query_once_value [OF assms(1) once(1)] in simp)
qed (auto simp: sy_ok_def)

lemma sync_probe_value:
  assumes "sync_codec_typed (cl_codec cl)" "sync_probe cl p s = Some (Ok x, s')"
  shows "valid_refs (qr_remote_refs x)"
proof -
  from assms(2) obtain known refs t where "(if length known \<le> PROBE_KNOWN_IDS_CHUNK then query_once cl p known refs
       else sy_bind (probe_chunks cl p refs (chunks PROBE_KNOWN_IDS_CHUNK known) [] False None) (\<lambda>merged.
              sy_lift (ok_or (SyncProtocol ''at least one chunk was sent'') merged))) t = Some (Ok x, s')"
    unfolding sync_probe_def sy_bind_Some by blast
  then consider (one) "query_once cl p known refs t = Some (Ok x, s')"
    | (more) cs where "probe_chunks cl p refs cs [] False None t = Some (Ok (Some x), s')"
    by (auto simp: sy_bind_Some sy_lift_def split: if_splits)
  then show ?thesis
  proof cases
    case one
    then show ?thesis by (rule query_once_value [OF assms(1)])
  next
    case (more cs)
    then show ?thesis by (rule probe_chunks_value [OF assms(1)]) simp
  qed
qed

lemma verify_entries_Err: "verify_entries (sc_repo (cl_codec cl)) (trusted_device_keys (cl_codec cl) (qr_server_key_fingerprints resp))
     (qr_missing_objects resp) = Err e \<Longrightarrow> download_and_apply cl resp s = Some (Err e, s)"
  by (simp add: download_and_apply_def sy_bind_def sy_lift_def)

context sync_workspace
begin

lemma network_step: "run_keeps (step auth) (on_network f)"
  by (rule on_network_keeps) (simp add: step_def)

lemma send_json_step: "run_keeps (step auth) (send_json cl rq body dec)"
  unfolding send_json_def by (intro run_rules network_step)

lemma query_once_step: "run_keeps (step auth) (query_once cl p known refs)"
  unfolding query_once_def attest_def by (intro run_rules send_json_step network_step)

lemma probe_chunks_step: "run_keeps (step auth) (probe_chunks cl p refs cs ms t tail)"
  by (induction cs arbitrary: ms t tail) (auto intro!: run_rules query_once_step)

lemma workspace_reads:
  "run_keeps (step auth) (on_workspace (lw_known_object_ids ws))" "run_keeps (step auth) (on_workspace (lw_all_refs ws))"
  "run_keeps (step auth) (on_workspace (lw_canonical_bytes ws i))"
  by (rule on_workspace_keeps, auto simp: step_def dest: ids_read refs_read bytes_read)+

lemma sync_probe_step: "cl_workspace cl = ws \<Longrightarrow> run_keeps (step auth) (sync_probe cl p)"
  unfolding sync_probe_def by (simp only:) (intro run_rules workspace_reads query_once_step probe_chunks_step)

lemma apply_object_step: "run_keeps (step auth) (on_workspace (lw_apply_object ws e))"
proof (rule on_workspace_keeps)
  fix w out r w'
  assume ap: "lw_apply_object ws e w = (r, w')"
  show "step auth (w, out) (w', out)"
    unfolding step_def using object_applied [OF _ ap] locked_tracked by (auto simp: forward_def)
qed

lemma download_step: "cl_workspace cl = ws \<Longrightarrow> run_keeps (step auth) (download_and_apply cl resp)"
proof -
  assume cl: "cl_workspace cl = ws"
  have "run_keeps (step auth) (apply_envelopes cl es n)" for es n
    by (induction es arbitrary: n) (auto simp only: apply_envelopes.simps cl intro!: run_rules apply_object_step)
  then show ?thesis unfolding download_and_apply_def by (intro run_rules)
qed

lemma apply_policies_step:
  assumes "cl_workspace cl = ws"
  shows "list_all (\<lambda>p. parse_policy_name (sp_name p) = Ok (sp_name p)) ps \<Longrightarrow> run_keeps (step auth) (apply_policies cl ps n)"
proof (induction ps arbitrary: n)
  case (Cons p ps)
  have "run_keeps (step auth) (on_workspace (lw_apply_remote_policy ws (sp_name p) (sp_document_json p)))"
  proof (rule on_workspace_keeps)
    fix w out r w'
    assume ap: "lw_apply_remote_policy ws (sp_name p) (sp_document_json p) w = (r, w')"
    show "step auth (w, out) (w', out)"
      unfolding step_def using policy_applied [OF _ _ ap] Cons.prems locked_tracked by (auto simp: forward_def)
  qed
  with Cons assms show ?case by (auto intro!: run_rules)
qed (auto intro: run_rules)

lemma remote_policies_step:
  assumes "cl_workspace cl = ws" "sync_codec_typed (cl_codec cl)"
  shows "run_keeps (step auth) (apply_remote_policies cl p)"
  unfolding run_keeps_def
proof (intro allI impI)
  fix s r s'
  assume run: "apply_remote_policies cl p s = Some (r, s')"
  let ?send = "send_json cl (get_request (project_path p ''/policies'')) None (sc_policies_parse (cl_codec cl))"
  consider e where "?send s = Some (Err e, s')" | ps t where "?send s = Some (Ok ps, t)" "apply_policies cl ps 0 t = Some (r, s')"
    using run by (auto simp: apply_remote_policies_def sy_bind_Some)
  then show "step auth s s'"
  proof cases
    case (1 e)
    then show ?thesis by (rule run_keepsD [OF send_json_step])
  next
    case (2 ps t)
    have names: "list_all (\<lambda>p. parse_policy_name (sp_name p) = Ok (sp_name p)) ps"
      using send_json_value [OF 2(1)] assms(2) by (auto simp: sync_codec_typed_def)
    have "step auth t s'" by (rule run_keepsD [OF apply_policies_step [OF assms(1) names] 2(2)])
    moreover have "step auth s t" by (rule run_keepsD [OF send_json_step 2(1)])
    ultimately show ?thesis using step_trans by blast
  qed
qed

lemma pull_loop_step:
  assumes "cl_workspace cl = ws" "sync_codec_typed (cl_codec cl)" "pull_loop cl p n s = Some (r, s')"
  shows "step auth s s' \<and> (\<forall>resp d. r = Ok (resp, d) \<longrightarrow> valid_refs (qr_remote_refs resp))"
proof -
  have "cl_workspace cl = ws \<longrightarrow> sync_codec_typed (cl_codec cl) \<longrightarrow>
      step auth s (snd (r, s')) \<and> (\<forall>resp d. fst (r, s') = Ok (resp, d) \<longrightarrow> valid_refs (qr_remote_refs resp))"
  proof (rule pull_loop.raw_induct [OF _ assms(3),
      where P = "\<lambda>cl p n s y. cl_workspace cl = ws \<longrightarrow> sync_codec_typed (cl_codec cl) \<longrightarrow> step auth s (snd y)
        \<and> (\<forall>resp d. fst y = Ok (resp, d) \<longrightarrow> valid_refs (qr_remote_refs resp))"], intro impI)
    fix f and cl :: "('w, 'a) sync_client" and p n s y
    assume ih: "\<And>cl p n s y. f cl p n s = Some y \<Longrightarrow> cl_workspace cl = ws \<longrightarrow> sync_codec_typed (cl_codec cl) \<longrightarrow>
        step auth s (snd y) \<and> (\<forall>resp d. fst y = Ok (resp, d) \<longrightarrow> valid_refs (qr_remote_refs resp))"
      and body: "(case sync_probe cl p s of
        None \<Rightarrow> None
      | Some (r, s1) \<Rightarrow>
          (case r of
             Err e \<Rightarrow> Some (Err e, s1)
           | Ok response \<Rightarrow>
               (case download_and_apply cl response s1 of
                  None \<Rightarrow> None
                | Some (d, s2) \<Rightarrow>
                    (case d of
                       Err e \<Rightarrow> Some (Err e, s2)
                     | Ok downloaded \<Rightarrow>
                         if \<not> qr_missing_objects_truncated response \<or> downloaded = 0
                         then Some (Ok (response, n + downloaded), s2)
                         else f cl p (n + downloaded) s2)))) = Some y"
      and cl: "cl_workspace cl = ws" "sync_codec_typed (cl_codec cl)"
    note probe = sync_probe_step [OF cl(1), of auth p, unfolded run_keeps_def, rule_format]
    note down = download_step [OF cl(1), of auth, unfolded run_keeps_def, rule_format]
    from body obtain r1 s1 where pr: "sync_probe cl p s = Some (r1, s1)" by (auto split: option.splits)
    have s1: "step auth s s1" using probe [OF pr] .
    show "step auth s (snd y) \<and> (\<forall>resp d. fst y = Ok (resp, d) \<longrightarrow> valid_refs (qr_remote_refs resp))"
    proof (cases r1)
      case (Err e)
      then show ?thesis using body pr s1 by auto
    next
      case (Ok resp)
      note typed = sync_probe_value [OF cl(2) pr [unfolded Ok]]
      from body pr Ok obtain d s2 where dl: "download_and_apply cl resp s1 = Some (d, s2)" by (auto split: option.splits)
      have s2: "step auth s s2" using step_trans [OF s1 down [OF dl]] .
      show ?thesis
      proof (cases d)
        case (Err e)
        then show ?thesis using body pr Ok dl s2 by auto
      next
        case D: (Ok k)
        show ?thesis
        proof (cases "\<not> qr_missing_objects_truncated resp \<or> k = 0")
          case True
          then show ?thesis using body pr Ok dl D s2 typed by auto
        next
          case False
          then have "f cl p (n + k) s2 = Some y" using body pr Ok dl D by simp
          from ih [OF this] cl show ?thesis using step_trans [OF s2] by blast
        qed
      qed
    qed
  qed
  with assms(1,2) show ?thesis by simp
qed

lemma pull_step:
  assumes "cl_workspace cl = ws" "sync_codec_typed (cl_codec cl)" "pull cl p s = Some (r, s')" "inv (fst s)"
  shows "step (cl_authorize_protected cl) s s'"
proof -
  let ?a = "cl_authorize_protected cl"
  consider e where "pull_loop cl p 0 s = Some (Err e, s')"
    | resp d t where "pull_loop cl p 0 s = Some (Ok (resp, d), t)"
        "sy_bind (reconcile_remote_refs cl (qr_remote_refs resp) []) (\<lambda>conflicts.
           sy_bind (apply_remote_policies cl p) (\<lambda>policies.
             sy_ok (clean_result\<lparr>sr_downloaded := d, sr_conflicts := conflicts, sr_policies_applied := policies\<rparr>))) t = Some (r, s')"
    using assms(3) by (auto simp: pull_def sy_bind_Some)
  then show ?thesis
  proof cases
    case (1 e)
    then show ?thesis using pull_loop_step [OF assms(1,2)] by blast
  next
    case (2 resp d t)
    have t: "step ?a s t" "valid_refs (qr_remote_refs resp)" using pull_loop_step [OF assms(1,2) 2(1)] by auto
    then have "inv (fst t)" using assms(4) by (simp add: step_def)
    then obtain res w' where rec: "reconcile_remote_refs cl (qr_remote_refs resp) [] t = Some (res, w', snd t)"
        "step ?a t (w', snd t)"
      using reconcile_step [OF _ assms(1) t(2), of "fst t" "[]" "snd t"] by auto
    have "step ?a (w', snd t) s' \<or> s' = (w', snd t)"
    proof (cases res)
      case (Err e)
      then show ?thesis using 2(2) rec(1) by (auto simp: sy_bind_Some)
    next
      case (Ok cf)
      then have "\<exists>r'. apply_remote_policies cl p (w', snd t) = Some (r', s')"
        using 2(2) rec(1) by (auto simp: sy_bind_Some sy_ok_def)
      then show ?thesis using run_keepsD [OF remote_policies_step [OF assms(1,2)]] by blast
    qed
    then show ?thesis using step_trans [OF t(1) rec(2)] step_trans by blast
  qed
qed

lemma put_one_log:
  "\<exists>res out'. put_one (logging cl) p r base cf (w, sent, out) = Some (res, w, sent @ (case ref_request cl p r base of None \<Rightarrow> [] | Some rq \<Rightarrow> [rq]), out')
     \<and> (ref_request cl p r base = None \<longrightarrow> is_err res)"
  by (auto simp: put_one_def ref_request_def logging_def sy_bind_def sy_lift_def on_network_def sy_ok_def
      split: option.splits prod.splits result.splits)

lemma publish_one_log:
  assumes "inv w" "cl_workspace cl = ws"
  shows "\<exists>res more out'. publish_one (logging cl) p remote r cf (w, sent, out) = Some (res, w, sent @ more, out')
     \<and> (\<forall>cf'. res = Ok cf' \<longrightarrow> more = (case publication (parents w) cl p remote r of None \<Rightarrow> [] | Some rq \<Rightarrow> [rq]))
     \<and> (more = [] \<or> (\<exists>rq. publication (parents w) cl p remote r = Some rq \<and> more = [rq]))"
proof -
  let ?q = "find (\<lambda>q. rs_namespace q = rs_namespace r \<and> rs_name q = rs_name r) remote"
  have put: "\<exists>res more out'. put_one (logging cl) p r base cf (w, sent, out) = Some (res, w, sent @ more, out')
      \<and> (\<forall>cf'. res = Ok cf' \<longrightarrow> more = (case ref_request cl p r base of None \<Rightarrow> [] | Some rq \<Rightarrow> [rq]))
      \<and> (more = [] \<or> (\<exists>rq. ref_request cl p r base = Some rq \<and> more = [rq]))" for base
    using put_one_log [of cl p r base cf w sent out] by (auto split: option.splits)
  have lws: "cl_workspace (logging cl) = ws" using assms(2) by (simp add: logging_def)
  show ?thesis
  proof (cases ?q)
    case None
    then show ?thesis using put [of None] by (simp add: publish_one_def publication_def)
  next
    case (Some q)
    show ?thesis
    proof (cases "rs_commit q = rs_commit r")
      case True
      then show ?thesis using Some by (simp add: publish_one_def publication_def sy_ok_def)
    next
      case False
      obtain r1 where a1: "is_ancestor_or_equal (logging cl) (rs_commit q) (rs_commit r) (w, sent, out) = Some (r1, w, sent, out)"
          "\<And>b. r1 = Ok b \<Longrightarrow> b \<longleftrightarrow> (rs_commit r, rs_commit q) \<in> (edges (parents w))\<^sup>*"
        using is_ancestor_exact [OF assms(1) lws, of "rs_commit q" "rs_commit r" "(sent, out)"] by auto
      obtain r2 where a2: "is_ancestor_or_equal (logging cl) (rs_commit r) (rs_commit q) (w, sent, out) = Some (r2, w, sent, out)"
        using is_ancestor_exact [OF assms(1) lws, of "rs_commit r" "rs_commit q" "(sent, out)"] by auto
      show ?thesis
      proof (cases r1)
        case (Err e)
        then show ?thesis using Some False a1(1) by (auto simp: publish_one_def sy_bind_run)
      next
        case (Ok b)
        show ?thesis
        proof (cases b)
          case True
          then have "publish_one (logging cl) p remote r cf (w, sent, out) = put_one (logging cl) p r (Some (rs_commit q)) cf (w, sent, out)"
            using Some False a1(1) Ok by (simp add: publish_one_def sy_bind_run)
          moreover have "publication (parents w) cl p remote r = ref_request cl p r (Some (rs_commit q))"
            using Some False a1(2) [OF Ok] True by (simp add: publication_def)
          ultimately show ?thesis using put [of "Some (rs_commit q)"] by simp
        next
          case nb: False
          then have "publication (parents w) cl p remote r = None"
            using Some a1(2) [OF Ok] by (simp add: publication_def)
          moreover have "\<exists>res. publish_one (logging cl) p remote r cf (w, sent, out) = Some (res, w, sent, out)"
            using Some False a1(1) Ok nb a2 by (cases r2) (auto simp: publish_one_def sy_bind_run sy_ok_def)
          ultimately show ?thesis by auto
        qed
      qed
    qed
  qed
qed

text \<open>Publishing sends the owed updates, in order; when it stops early, a first part of them.\<close>

lemma publish_refs_log:
  assumes "inv w" "cl_workspace cl = ws"
  shows "\<exists>res more out'. publish_refs (logging cl) p remote rs cf (w, sent, out) = Some (res, w, sent @ more, out')
     \<and> prefix more (List.map_filter (publication (parents w) cl p remote) rs)
     \<and> (\<forall>cf'. res = Ok cf' \<longrightarrow> more = List.map_filter (publication (parents w) cl p remote) rs)"
proof (induction rs arbitrary: cf sent out)
  case Nil
  then show ?case by (simp add: sy_ok_def map_filter_simps)
next
  case (Cons r rs)
  obtain res more out' where one: "publish_one (logging cl) p remote r cf (w, sent, out) = Some (res, w, sent @ more, out')"
      "\<And>cf'. res = Ok cf' \<Longrightarrow> more = (case publication (parents w) cl p remote r of None \<Rightarrow> [] | Some rq \<Rightarrow> [rq])"
      "more = [] \<or> (\<exists>rq. publication (parents w) cl p remote r = Some rq \<and> more = [rq])"
    using publish_one_log [OF assms, of p remote r cf sent out] by blast
  show ?case
  proof (cases res)
    case (Err e)
    then show ?thesis using one(1,3)
      by (intro exI [of _ "Err e"] exI [of _ more] exI [of _ out']) (auto simp: sy_bind_run map_filter_simps)
  next
    case (Ok cf1)
    obtain res' more' out2 where rest: "publish_refs (logging cl) p remote rs cf1 (w, sent @ more, out') = Some (res', w, (sent @ more) @ more', out2)"
        "prefix more' (List.map_filter (publication (parents w) cl p remote) rs)"
        "\<And>cf'. res' = Ok cf' \<Longrightarrow> more' = List.map_filter (publication (parents w) cl p remote) rs"
      using Cons.IH [of cf1 "sent @ more" out'] by blast
    then show ?thesis using one(1) one(2) [OF Ok] Ok
      by (intro exI [of _ res'] exI [of _ "more @ more'"] exI [of _ out2])
         (auto simp: sy_bind_run map_filter_simps split: option.splits)
  qed
qed

end

end
