(* ===== verification/Sync_Workspace.thy ===== *)
theory Sync_Workspace
  imports Sync_Contract Merge_Base
begin

text \<open>
  \<open>local.rs\<close>: the adapter \<open>FsWorkspace\<close> that the sync client uses over the repository of \<open>Object_Store\<close>, \<open>Ref_Store\<close> and
  \<open>History\<close>, with the listing of refs (\<open>refs.rs\<close>), and that it keeps the contract of \<open>Sync_Contract\<close>.
\<close>

section \<open>Listing refs\<close>

fun fold_io :: "('a \<Rightarrow> 'b \<Rightarrow> 'b io) \<Rightarrow> 'a list \<Rightarrow> 'b \<Rightarrow> 'b io" where
  "fold_io f [] b = return_io b"
| "fold_io f (x # xs) b = bind_io (f x b) (\<lambda>b'. fold_io f xs b')"

text \<open>
  The recursion goes into subdirectories; every call is one component longer, so one more than the number of nodes
  is fuel enough.
\<close>

fun collect_refs :: "nat \<Rightarrow> path \<Rightarrow> string \<Rightarrow> (string \<times> commit_id) list \<Rightarrow> (string \<times> commit_id) list io" where
  "collect_refs 0 dir base out = return_io out"
| "collect_refs (Suc fuel) dir base out =
     bind_io (path_exists dir) (\<lambda>present.
       if \<not> present then return_io out
       else bind_io (read_dir dir) (\<lambda>names.
         fold_io (\<lambda>raw_name out.
           let full_name = (if base = [] then raw_name else base @ ''/'' @ raw_name)
           in if ends_with ''.protection'' raw_name \<or> starts_with ''.tmp-'' raw_name then return_io out
              else bind_io (path_is_dir (dir @ [raw_name])) (\<lambda>is_dir.
                if is_dir then collect_refs fuel (dir @ [raw_name]) full_name out
                else bind_io (read_trimmed (dir @ [raw_name])) (\<lambda>found.
                  case found of
                    None \<Rightarrow> return_io out
                  | Some k \<Rightarrow> bind_io (lift_io (map_err IdConstruction (parse_commit_id k))) (\<lambda>commit.
                      return_io (out @ [(full_name, commit)])))))
           (sort names) out))"

definition namespace_dir :: "ref_namespace \<Rightarrow> path" where
  "namespace_dir ns = [''refs'', dir_name ns]"

definition list_repo_refs :: "ref_namespace \<Rightarrow> (string \<times> commit_id) list io" where
  "list_repo_refs ns s =
     bind_io (collect_refs (Suc (length (nodes s))) (namespace_dir ns) [] []) (\<lambda>refs. return_io (sort_key fst refs)) s"

section \<open>The adapter\<close>

definition repo_op :: "'a io \<Rightarrow> (fs, 'a) op" where
  "repo_op m s = (case m s of (r, s') \<Rightarrow> (map_err SyncRepository r, s'))"

fun map_namespace :: "cp_namespace \<Rightarrow> ref_namespace" where
  "map_namespace CpHeads = Heads"
| "map_namespace CpEnvironments = Environments"

definition shard_ids :: "string \<Rightarrow> string list \<Rightarrow> object_id list" where
  "shard_ids shard names =
     List.map_filter (\<lambda>name.
       if starts_with ''.'' name \<or> length name \<noteq> 62 \<or> \<not> list_all is_ascii_hexdigit name then None
       else case parse_object_id (''obj_'' @ shard @ name) of Ok i \<Rightarrow> Some i | Err _ \<Rightarrow> None) (sort names)"

definition known_object_ids :: "object_id list io" where
  "known_object_ids =
     bind_io (path_exists OBJECTS) (\<lambda>present.
       if \<not> present then return_io []
       else bind_io (read_dir OBJECTS) (\<lambda>shards.
         fold_io (\<lambda>shard ids.
           if length shard \<noteq> 2 \<or> \<not> list_all is_ascii_hexdigit shard then return_io ids
           else bind_io (read_dir (OBJECTS @ [shard])) (\<lambda>names. return_io (ids @ shard_ids shard names)))
           (sort shards) []))"

text \<open>A missing object is no error: \<open>Err(ObjectNotFound(_)) => Ok(None)\<close>.\<close>

fun is_object_not_found :: "repo_error \<Rightarrow> bool" where
  "is_object_not_found (ObjectNotFound _) = True"
| "is_object_not_found _ = False"

definition or_absent :: "'a io \<Rightarrow> 'a option io" where
  "or_absent m s =
     (case m s of
        (Ok a, s') \<Rightarrow> (Ok (Some a), s')
      | (Err e, s') \<Rightarrow> (if is_object_not_found e then Ok None else Err e, s'))"

definition workspace_bytes :: "repo_codec \<Rightarrow> object_id \<Rightarrow> string option io" where
  "workspace_bytes c i =
     bind_io (or_absent (get_object c i)) (\<lambda>found.
       case found of
         None \<Rightarrow> return_io None
       | Some e \<Rightarrow> bind_io (lift_io (canonical_bytes c e)) (\<lambda>bytes. return_io (Some bytes)))"

definition apply_object :: "repo_codec \<Rightarrow> object_envelope \<Rightarrow> bool io" where
  "apply_object c e =
     bind_io (lift_io (and_then (canonical_bytes c e) (object_id_of c))) (\<lambda>i.
     bind_io (object_exists i) (\<lambda>existed.
     bind_io (put c e) (\<lambda>_. return_io (\<not> existed))))"

fun ref_states :: "repo_codec \<Rightarrow> cp_namespace \<Rightarrow> (string \<times> commit_id) list \<Rightarrow> ref_state list \<Rightarrow> ref_state list io" where
  "ref_states c ns [] out = return_io out"
| "ref_states c ns ((name, k) # rest) out =
     bind_io (if ns = CpEnvironments then read_env_protection c name else return_io False) (\<lambda>protected.
       ref_states c ns rest (out @ [\<lparr>rs_namespace = ns, rs_name = name, rs_commit = k, rs_protected = protected\<rparr>]))"

definition all_refs :: "repo_codec \<Rightarrow> ref_state list io" where
  "all_refs c =
     bind_io (list_repo_refs Heads) (\<lambda>heads.
     bind_io (ref_states c CpHeads heads []) (\<lambda>out.
     bind_io (list_repo_refs Environments) (\<lambda>envs.
     bind_io (ref_states c CpEnvironments envs out) (\<lambda>out.
       return_io (sort_key (\<lambda>r. (namespace_rank (rs_namespace r), rs_name r)) out)))))"

definition apply_ref :: "repo_codec \<Rightarrow> cp_namespace \<Rightarrow> string \<Rightarrow> commit_id \<Rightarrow> bool \<Rightarrow> ref_apply_outcome io" where
  "apply_ref c ns name k allow_protected_override =
     (case ns of
        CpHeads \<Rightarrow>
          bind_io (read_ref Heads name) (\<lambda>current.
            if current = Some k then return_io RefAlreadyCurrent
            else bind_io (write_ref Heads name k) (\<lambda>_. return_io RefApplied))
      | CpEnvironments \<Rightarrow>
          bind_io (read_ref Environments name) (\<lambda>current.
            if current = Some k then return_io RefAlreadyCurrent
            else bind_io (read_env_protection c name) (\<lambda>protected.
              if protected \<and> \<not> allow_protected_override then return_io RefRefusedProtected
              else bind_io (write_env_ref c name k allow_protected_override) (\<lambda>_. return_io RefApplied))))"

definition commit_parents :: "repo_codec \<Rightarrow> commit_id \<Rightarrow> commit_id list option io" where
  "commit_parents c k =
     bind_io (or_absent (find_commit c k)) (\<lambda>found. return_io (map_option com_parents found))"

text \<open>\<open>std::fs::write\<close> creates or truncates the file and writes it; a policy name has no slash.\<close>

definition policy_file :: "string \<Rightarrow> path" where
  "policy_file name = [''policies'', name @ ''.yaml'']"

definition apply_remote_policy :: "string \<Rightarrow> string \<Rightarrow> bool io" where
  "apply_remote_policy name yaml =
     bind_io (create_dir_all [''policies'']) (\<lambda>_.
     bind_io (ok_io (read_to_string (policy_file name))) (\<lambda>existing.
       if existing = Some yaml then return_io False
       else bind_io (create_file (policy_file name)) (\<lambda>_.
            bind_io (write_all (policy_file name) yaml) (\<lambda>_. return_io True))))"

definition fs_workspace :: "repo_codec \<Rightarrow> fs local_workspace" where
  "fs_workspace c =
     \<lparr>lw_known_object_ids = repo_op known_object_ids,
      lw_canonical_bytes = (\<lambda>i. repo_op (workspace_bytes c i)),
      lw_apply_object = (\<lambda>e. repo_op (apply_object c e)),
      lw_all_refs = repo_op (all_refs c),
      lw_read_ref = (\<lambda>ns name. repo_op (read_ref (map_namespace ns) name)),
      lw_apply_ref = (\<lambda>ns name k override. repo_op (apply_ref c ns name k override)),
      lw_commit_parents = (\<lambda>k. repo_op (commit_parents c k)),
      lw_apply_remote_policy = (\<lambda>name yaml. repo_op (apply_remote_policy name yaml))\<rparr>"

section \<open>Reference definitions\<close>

definition known_parents :: "repo_codec \<Rightarrow> fs \<Rightarrow> commit_id \<Rightarrow> commit_id list option" where
  "known_parents c s k = map_option com_parents (commit_at c s k)"

text \<open>An environment whose protection is set, or is not readable as unset.\<close>

definition locked_env :: "repo_codec \<Rightarrow> fs \<Rightarrow> string \<Rightarrow> bool" where
  "locked_env c s n \<longleftrightarrow>
     plain_ref n \<and> (\<exists>p t. protection_path n = Ok p \<and> trimmed s p = Some t \<and> dec_protection c t \<noteq> Ok False)"

definition calm_repo :: "repo_codec \<Rightarrow> fs \<Rightarrow> bool" where
  "calm_repo c s \<longleftrightarrow> repo_codec_ok c \<and> fs_inv s \<and> faults s = []"

section \<open>Lemmas: reading changes nothing\<close>

definition silent :: "'a io \<Rightarrow> bool" where
  "silent m \<longleftrightarrow> (\<forall>s. faults s = [] \<longrightarrow> snd (m s) = s)"

named_theorems silent_intros

lemma silent_basic [silent_intros]: "silent (return_io a)" "silent (fail_io e)" "silent (lift_io r)"
  by (simp_all add: silent_def return_io_def fail_io_def lift_io_def)

lemma silent_bind [silent_intros]: "silent m \<Longrightarrow> (\<And>a. silent (f a)) \<Longrightarrow> silent (bind_io m f)"
  unfolding silent_def bind_io_def by (auto split: prod.splits result.splits)

lemma silent_if [silent_intros]: "silent m \<Longrightarrow> silent n \<Longrightarrow> silent (if b then m else n)"
  by simp

lemma silent_case [silent_intros]: "silent m \<Longrightarrow> (\<And>a. silent (f a)) \<Longrightarrow> silent (case x of None \<Rightarrow> m | Some a \<Rightarrow> f a)"
  by (cases x) auto

lemma silent_calls [silent_intros]:
  "silent (path_exists p)" "silent (path_is_dir p)" "silent (read_dir p)" "silent (read_trimmed p)"
  by (simp_all add: silent_def path_exists_def path_is_dir_def probe_def read_dir_def perform_def no_next_fault
      read_trimmed_no_faults)

lemma silent_fold [silent_intros]: "(\<And>x b. silent (f x b)) \<Longrightarrow> silent (fold_io f xs b)"
  by (induction xs arbitrary: b) (auto intro: silent_intros)

lemma silent_reads [silent_intros]: "silent (read_ref ns name)" "silent (read_env_protection c name)"
  unfolding read_ref_def read_env_protection_def by (intro silent_intros)+

lemma silent_collect: "silent (collect_refs fuel dir base out)"
  by (induction fuel arbitrary: dir base out) (auto simp: Let_def intro!: silent_intros)

lemma silent_list [silent_intros]: "silent (list_repo_refs ns)"
proof -
  have "silent (bind_io (collect_refs n (namespace_dir ns) [] []) (\<lambda>refs. return_io (sort_key fst refs)))" for n
    by (intro silent_intros silent_collect)
  then show ?thesis by (simp add: silent_def list_repo_refs_def del: collect_refs.simps)
qed

lemma silent_states [silent_intros]: "silent (ref_states c ns refs out)"
  by (induction c ns refs out rule: ref_states.induct) (auto intro!: silent_intros)

lemma silent_workspace [silent_intros]: "silent known_object_ids" "silent (all_refs c)"
  unfolding known_object_ids_def all_refs_def by (intro silent_intros)+

lemma silent_absent [silent_intros]: "silent m \<Longrightarrow> silent (or_absent m)"
  unfolding silent_def or_absent_def by (auto split: prod.splits result.splits)

lemma silent_gets [silent_intros]: "silent (get_object c i)" "silent (find_commit c k)"
  using get_object_no_faults find_commit_no_faults by (auto simp: silent_def)

lemma silent_objects [silent_intros]: "silent (workspace_bytes c i)" "silent (commit_parents c k)"
  unfolding workspace_bytes_def commit_parents_def by (intro silent_intros)+

lemma repo_op_run: "repo_op m s = (r, s') \<longleftrightarrow> (\<exists>x. m s = (x, s') \<and> r = map_err SyncRepository x)"
  by (auto simp: repo_op_def split: prod.splits)

lemma silent_op: "silent m \<Longrightarrow> faults s = [] \<Longrightarrow> repo_op m s = (r, s') \<Longrightarrow> s' = s"
  by (auto simp: silent_def repo_op_run)

section \<open>Lemmas: the laws\<close>

lemma commit_at_length: "commit_at c s k = Some x \<Longrightarrow> length k = 68"
proof -
  assume "commit_at c s k = Some x"
  then obtain e where "stored c s (''obj_'' @ drop 4 k) = Some e"
    by (auto simp: commit_at_def split: if_splits option.splits)
  then obtain p where p: "path_for (''obj_'' @ drop 4 k) = Ok p" by (auto simp: stored_def split: result.splits)
  have "length (drop 4 k) = 64" using p by (auto simp: path_for_def split: option.splits if_splits)
  then show ?thesis by simp
qed

lemma known_parents_finite: "finite (dom (known_parents c s))"
  by (rule finite_subset [OF _ finite_ids [of 68]]) (auto simp: known_parents_def dest: commit_at_length)

text \<open>Without failures, \<open>find_commit\<close> misses exactly the commits that do not load.\<close>

lemma commit_parents_exact:
  assumes "faults s = []" "commit_parents c k s = (Ok t, s')"
  shows "t = known_parents c s k"
proof -
  obtain r where f: "find_commit c k s = (r, s)" using silent_gets(2) assms(1) by (metis prod.collapse silent_def)
  note x = find_commit_no_faults [OF assms(1), of c k]
  show ?thesis
  proof (cases r)
    case (Ok y)
    then have "commit_at c s k = Some y" using f x by (metis fst_conv)
    then show ?thesis using assms(2) f Ok by (auto simp: commit_parents_def or_absent_def bind_io_def return_io_def known_parents_def)
  next
    case (Err e)
    then have "commit_at c s k = None" using f x by (metis fst_conv not_Some_eq result.distinct(1))
    then show ?thesis using assms(2) f Err
      by (auto simp: commit_parents_def or_absent_def bind_io_def return_io_def known_parents_def split: if_splits)
  qed
qed

lemma read_ref_exact:
  assumes "faults s = []" "read_ref ns name s = (Ok t, s')"
  shows "t = ref_at s ns name"
proof (cases "ref_path ns name")
  case (Ok p)
  then show ?thesis using read_ref_no_faults [OF assms(1) Ok] assms(2) ref_path_Ok [OF Ok]
    by (auto simp: ref_at_def split: option.splits result.splits)
qed (use assms(2) in \<open>simp add: read_ref_def bind_io_run\<close>)

lemma write_ref_files:
  assumes "calm_repo c s" "parse_commit_id k = Ok k" "write_ref_at ns n k s = (r, s')"
  shows "calm_repo c s'" "\<And>q. q \<noteq> ref_components ns n \<Longrightarrow> \<not> is_temp ''.tmp-'' q \<Longrightarrow> content s' q = content s q"
    and "\<not> is_temp ''.tmp-'' (ref_components ns n) \<Longrightarrow>
      content s' (ref_components ns n) = content s (ref_components ns n) \<or> content s' (ref_components ns n) = Some (k @ [newline])"
proof -
  have all: "fs_inv s' \<and> (\<forall>q. q \<noteq> ref_components ns n \<and> \<not> is_temp ''.tmp-'' q \<longrightarrow> content s' q = content s q)
    \<and> (\<not> is_temp ''.tmp-'' (ref_components ns n) \<longrightarrow>
      content s' (ref_components ns n) = content s (ref_components ns n) \<or> content s' (ref_components ns n) = Some (k @ [newline]))"
  proof (cases "ref_path ns n")
    case (Ok p)
    then have run: "publish ''.tmp-'' (ref_components ns n) (k @ [newline]) s = (r, s')"
      using assms(3) ref_path_Ok [OF Ok] by (simp add: write_ref_at_def write_atomically_def bind_io_run)
    show ?thesis using publish_cases [OF run] assms(1) by (auto simp: calm_repo_def split: result.splits)
  qed (use assms in \<open>auto simp: write_ref_at_def bind_io_run calm_repo_def\<close>)
  then show "\<And>q. q \<noteq> ref_components ns n \<Longrightarrow> \<not> is_temp ''.tmp-'' q \<Longrightarrow> content s' q = content s q"
    "\<not> is_temp ''.tmp-'' (ref_components ns n) \<Longrightarrow>
      content s' (ref_components ns n) = content s (ref_components ns n) \<or> content s' (ref_components ns n) = Some (k @ [newline])"
    by blast+
  have "calm (write_ref_at ns n k)" unfolding write_ref_at_def by (intro calm_intros)
  then show "calm_repo c s'" using all assms(1,3) calm_run by (auto simp: calm_repo_def)
qed

text \<open>A write of a ref, by what it may do: the law of \<open>apply_ref\<close> but for the locks.\<close>

lemma write_ref_moves:
  assumes "calm_repo c s" "parse_commit_id k = Ok k" "write_ref_at ns n k s = (r, s')"
  shows "known_parents c s' = known_parents c s"
    and "real_ref ns' n' \<Longrightarrow> ref_at s' ns' n' = ref_at s ns' n' \<or> ref_at s' ns' n' = Some k \<and> ref_at s ns' n' = ref_at s ns n"
    and "locked_env c s m \<Longrightarrow> locked_env c s' m"
    and "locked_env c s m \<Longrightarrow> ref_components ns n \<noteq> ref_components Environments m \<Longrightarrow>
      ref_at s' Environments m = ref_at s Environments m"
proof -
  note files = write_ref_files [OF assms]
  have c: "repo_codec_ok c" using assms(1) by (simp add: calm_repo_def)
  have "stored c s' = stored c s"
    by (rule stored_objects [OF c])
       (use files(2) ref_components_not_object(1) digest_path_not_temp in metis)
  then show "known_parents c s' = known_parents c s" by (simp add: known_parents_def commit_at_def fun_eq_iff)
  show "ref_at s' ns' n' = ref_at s ns' n' \<or> ref_at s' ns' n' = Some k \<and> ref_at s ns' n' = ref_at s ns n" if rr: "real_ref ns' n'"
  proof (cases "ref_components ns' n' = ref_components ns n")
    case True
    then consider "content s' (ref_components ns' n') = content s (ref_components ns' n')"
      | "content s' (ref_components ns' n') = Some (k @ [newline])"
      using files(3) rr by (auto simp: real_ref_def)
    then show ?thesis
      by cases (use True ref_at_written [OF assms(2)] in \<open>auto simp: ref_at_def trimmed_def\<close>)
  next
    case False
    then have "content s' (ref_components ns' n') = content s (ref_components ns' n')"
      using files(2) rr by (simp add: real_ref_def)
    then show ?thesis by (simp add: ref_at_def trimmed_def)
  qed
  assume l: "locked_env c s m"
  let ?P = "ref_components Environments m"
  let ?PP = "butlast ?P @ [last ?P @ ''.protection'']"
  from l have plain: "plain_ref m" by (simp add: locked_env_def)
  note paths = env_paths [OF plain]
  have pp: "protection_path m = Ok ?PP"
    using plain ref_path_Ok unfolding plain_ref_def is_ok_iff by (metis protection_path_eq)
  from l pp obtain t where t: "trimmed s ?PP = Some t" "dec_protection c t \<noteq> Ok False" by (auto simp: locked_env_def)
  have "\<exists>t. trimmed s' ?PP = Some t \<and> dec_protection c t \<noteq> Ok False"
  proof (cases "?PP = ref_components ns n")
    case True
    have "trimmed s' ?PP = Some k \<or> trimmed s' ?PP = trimmed s ?PP"
      using files(3) paths(8) commit_id_ascii [OF assms(2)] trim_line [of k] by (auto simp: True trimmed_def)
    moreover have "dec_protection c k \<noteq> Ok b" for b
      using c assms(2) codec_protection(2) by fastforce
    ultimately show ?thesis using t by auto
  next
    case False
    then have "content s' ?PP = content s ?PP" using files(2) paths(8) by blast
    then show ?thesis using t by (simp add: trimmed_def)
  qed
  with plain pp show "locked_env c s' m" by (auto simp: locked_env_def)
  show "ref_at s' Environments m = ref_at s Environments m" if "ref_components ns n \<noteq> ?P"
    using files(2) [of ?P] that paths(7) by (simp add: ref_at_def trimmed_def)
qed

lemma locked_protection:
  assumes "locked_env c s m" "faults s = []" "ref_components Environments n = ref_components Environments m"
    and "read_env_protection c n s = (Ok b, s')"
  shows b
proof -
  from assms(1) have plain: "plain_ref m" by (simp add: locked_env_def)
  let ?P = "ref_components Environments m"
  have pp: "protection_path m = Ok (butlast ?P @ [last ?P @ ''.protection''])"
    using plain ref_path_Ok unfolding plain_ref_def is_ok_iff by (metis protection_path_eq)
  show ?thesis
  proof (cases "ref_path Environments n")
    case (Ok p)
    then have "protection_path n = protection_path m"
      using pp assms(3) ref_path_Ok [OF Ok] protection_path_eq [OF Ok] by simp
    with pp have pn: "protection_path n = Ok (butlast ?P @ [last ?P @ ''.protection''])" by simp
    from assms(1) pp obtain t where "trimmed s (butlast ?P @ [last ?P @ ''.protection'']) = Some t" "dec_protection c t \<noteq> Ok False"
      by (auto simp: locked_env_def)
    then show ?thesis using read_protection_no_faults [OF assms(2) pn, of c] assms(4)
      by (cases "dec_protection c t"; cases b) auto
  qed (use assms(4) in \<open>simp add: read_env_protection_def protection_path_def bind_io_run\<close>)
qed

text \<open>Either nothing was written, or the ref was, and then no lock stood in the way.\<close>

lemma apply_ref_cases:
  assumes "faults s = []" "apply_ref c ns name k auth s = (r, s')"
  obtains (kept) "s' = s"
  | (written) r' where "write_ref_at (map_namespace ns) name k s = (r', s')"
      "ns = CpEnvironments \<Longrightarrow> \<not> auth \<Longrightarrow> \<exists>t. read_env_protection c name s = (Ok False, t)"
proof (cases ns)
  case CpHeads
  obtain x where rd: "read_ref Heads name s = (x, s)" using silent_reads(1) assms(1) by (metis prod.collapse silent_def)
  show thesis
  proof (cases "\<exists>cur. x = Ok cur \<and> cur \<noteq> Some k")
    case False
    then have "s' = s" using assms(2) rd CpHeads by (cases x) (auto simp: apply_ref_def bind_io_def return_io_def)
    then show thesis by (rule kept)
  next
    case True
    obtain y t where w: "write_ref_at Heads name k s = (y, t)" by force
    then have "s' = t" using assms(2) rd CpHeads True
      by (cases y) (auto simp: apply_ref_def write_ref_def bind_io_def return_io_def)
    then show thesis using w CpHeads by (intro written) auto
  qed
next
  case CpEnvironments
  obtain x where rd: "read_ref Environments name s = (x, s)" using silent_reads(1) assms(1) by (metis prod.collapse silent_def)
  obtain pr where pr: "read_env_protection c name s = (pr, s)" using silent_reads(2) assms(1) by (metis prod.collapse silent_def)
  show thesis
  proof (cases "\<exists>cur b. x = Ok cur \<and> cur \<noteq> Some k \<and> pr = Ok b \<and> (b \<longrightarrow> auth)")
    case False
    then have "s' = s" using assms(2) rd pr CpEnvironments
      by (cases x; cases pr) (auto simp: apply_ref_def bind_io_def return_io_def split: if_splits)
    then show thesis by (rule kept)
  next
    case True
    then obtain cur b where ok: "x = Ok cur" "cur \<noteq> Some k" "pr = Ok b" "b \<longrightarrow> auth" by blast
    obtain y t where w: "write_ref_at Environments name k s = (y, t)" by force
    have "write_env_ref c name k auth s = (y, t)"
      using rd pr ok w by (cases cur) (auto simp: write_env_ref_def bind_io_run)
    then have "s' = t" using assms(2) rd pr CpEnvironments ok
      by (cases y) (auto simp: apply_ref_def bind_io_def return_io_def)
    then show thesis using w CpEnvironments ok pr by (intro written) auto
  qed
qed

lemma apply_ref_law:
  assumes "calm_repo c s" "parse_commit_id k = Ok k" "apply_ref c ns n k auth s = (r, s')"
  shows "calm_repo c s' \<and> known_parents c s' = known_parents c s
     \<and> (\<forall>ns' n'. real_ref (map_namespace ns') n' \<longrightarrow> ref_at s' (map_namespace ns') n' = ref_at s (map_namespace ns') n'
          \<or> ref_at s' (map_namespace ns') n' = Some k \<and> ref_at s (map_namespace ns') n' = ref_at s (map_namespace ns) n)
     \<and> (\<forall>m. locked_env c s m \<longrightarrow> locked_env c s' m \<and> (auth \<or> ref_at s' Environments m = ref_at s Environments m))"
proof -
  have f: "faults s = []" using assms(1) by (simp add: calm_repo_def)
  from f assms(3) show ?thesis
  proof (cases rule: apply_ref_cases)
    case kept
    then show ?thesis using assms(1) by simp
  next
    case (written r')
    note moves = write_ref_moves [OF assms(1,2) written(1)]
    have "auth \<or> ref_at s' Environments m = ref_at s Environments m" if l: "locked_env c s m" for m
    proof (cases "ref_components (map_namespace ns) n = ref_components Environments m")
      case True
      then have ns: "ns = CpEnvironments" using l env_paths(1) [of m n] by (cases ns) (auto simp: locked_env_def)
      then show ?thesis using written(2) locked_protection [OF l f] True by fastforce
    next
      case False
      then show ?thesis using moves(4) l by blast
    qed
    then show ?thesis using moves write_ref_files(1) [OF assms(1,2) written(1)] by blast
  qed
qed

lemma object_exists_silent [silent_intros]: "silent (object_exists i)"
  unfolding object_exists_def by (cases "path_for i") (auto intro: silent_intros)

lemma put_calm: "calm (put c e)"
  unfolding put_def by (intro calm_intros)

text \<open>Without failures, \<open>put\<close> leaves every file alone that is there already.\<close>

lemma put_adds:
  assumes "calm_repo c s" "put c e s = (r, s')"
  shows "calm_repo c s'"
    and "\<And>q b. \<not> is_temp ''.tmp-'' q \<Longrightarrow> content s q = Some b \<Longrightarrow> content s' q = Some b"
    and "\<And>q. \<not> is_temp ''.tmp-'' q \<Longrightarrow> hd q \<noteq> ''objects'' \<Longrightarrow> content s' q = content s q"
    and "\<And>i. r = Ok i \<Longrightarrow> i = id_of c e \<and> content s' (digest_path (digest_hex c (encoded c e))) = Some (encoded c e)"
proof -
  let ?p = "digest_path (digest_hex c (encoded c e))"
  have c: "repo_codec_ok c" "fs_inv s" "faults s = []" using assms(1) by (simp_all add: calm_repo_def)
  note cases = put_cases [OF c(1,2) assms(2)]
  show "calm_repo c s'" using cases c(1) calm_run [OF put_calm assms(2) c(3)] by (simp add: calm_repo_def)
  show "\<And>i. r = Ok i \<Longrightarrow> i = id_of c e \<and> content s' ?p = Some (encoded c e)" using cases by blast
  show "content s' q = content s q" if "\<not> is_temp ''.tmp-'' q" "hd q \<noteq> ''objects''" for q
    using cases that hd_digest_path by metis
  show "content s' q = Some b" if q: "\<not> is_temp ''.tmp-'' q" "content s q = Some b" for q b
  proof (cases "q = ?p")
    case True
    have "path_exists ?p s = (Ok True, s)"
      using q(2) c(3) True by (auto simp: path_exists_def probe_def no_next_fault content_def split: option.splits)
    moreover have "read_file ?p s = (Ok b, s)" using read_file_content [OF c(3)] q(2) True by simp
    ultimately have "s' = s"
      using assms(2) codec_facts(1) [OF c(1)] id_of_path [OF c(1)]
      by (auto simp: put_def canonical_bytes_def bind_io_run fail_io_def return_io_def split: if_splits)
    then show ?thesis using q(2) by simp
  next
    case False
    then show ?thesis using cases q by metis
  qed
qed

lemma stored_kept:
  assumes "calm_repo c s" "put c e s = (r, s')" "stored c s i = Some x"
  shows "stored c s' i = Some x"
proof -
  have c: "repo_codec_ok c" using assms(1) by (simp add: calm_repo_def)
  from assms(3) obtain b where b: "path_for i = Ok (digest_path (drop 4 i))" "content s (digest_path (drop 4 i)) = Some b"
      "digest_hex c b = drop 4 i" "dec_envelope c b = Ok x"
    by (auto simp: stored_def split: result.splits option.splits if_splits dest: path_for_Ok)
  have "is_hex_of_len (drop 4 i) 64" using codec_facts(3) [OF c, of b] b(3) by simp
  then have "content s' (digest_path (drop 4 i)) = Some b"
    using put_adds(2) [OF assms(1,2)] digest_path_not_temp b(2) by blast
  with b show ?thesis by (simp add: stored_def)
qed

lemma apply_object_run:
  assumes "calm_repo c s" "apply_object c e s = (r, s')"
  obtains x where "put c e s = (x, s')" "is_ok r \<longleftrightarrow> is_ok x"
proof -
  have f: "faults s = []" and c: "repo_codec_ok c" using assms(1) by (simp_all add: calm_repo_def)
  have i: "and_then (canonical_bytes c e) (object_id_of c) = Ok (id_of c e)"
    using codec_facts(1) [OF c, of e] id_of_path [OF c, of e] by (simp add: canonical_bytes_def)
  obtain b where "object_exists (id_of c e) s = (Ok b, s)"
  proof -
    have "\<exists>b. object_exists (id_of c e) s = (Ok b, s)"
      using f by (auto simp: object_exists_def path_exists_def probe_def no_next_fault return_io_def split: result.splits)
    then show thesis using that by blast
  qed
  then show thesis
    using assms(2) i that by (cases "put c e s"; cases "fst (put c e s)") (auto simp: apply_object_def bind_io_run)
qed

lemma commit_at_stored: "(\<And>i x. stored c s i = Some x \<Longrightarrow> stored c s' i = Some x) \<Longrightarrow> commit_at c s k = Some y \<Longrightarrow> commit_at c s' k = Some y"
  by (auto simp: commit_at_def split: if_splits option.splits)

text \<open>Files outside the objects: refs and protection files.\<close>

lemma refs_kept:
  assumes "\<And>q. \<not> is_temp ''.tmp-'' q \<Longrightarrow> hd q = ''refs'' \<Longrightarrow> content s' q = content s q"
  shows "real_ref ns n \<Longrightarrow> ref_at s' ns n = ref_at s ns n" "locked_env c s m \<Longrightarrow> locked_env c s' m"
proof -
  show "real_ref ns n \<Longrightarrow> ref_at s' ns n = ref_at s ns n"
    using assms [of "ref_components ns n"] by (simp add: real_ref_def ref_at_def trimmed_def ref_components_def)
  assume l: "locked_env c s m"
  then have plain: "plain_ref m" by (simp add: locked_env_def)
  let ?P = "ref_components Environments m"
  have pp: "protection_path m = Ok (butlast ?P @ [last ?P @ ''.protection''])"
    using plain ref_path_Ok unfolding plain_ref_def is_ok_iff by (metis protection_path_eq)
  have "hd (butlast ?P @ [last ?P @ ''.protection'']) = ''refs''" by (simp add: ref_components_def)
  then have "trimmed s' (butlast ?P @ [last ?P @ ''.protection'']) = trimmed s (butlast ?P @ [last ?P @ ''.protection''])"
    using assms env_paths(8) [OF plain] by (simp add: trimmed_def)
  with l pp show "locked_env c s' m" by (simp add: locked_env_def)
qed

lemma apply_object_law:
  assumes "calm_repo c s" "apply_object c e s = (r, s')"
  shows "calm_repo c s' \<and> (\<forall>k ps. known_parents c s k = Some ps \<longrightarrow> known_parents c s' k = Some ps)
     \<and> (\<forall>ns n. real_ref ns n \<longrightarrow> ref_at s' ns n = ref_at s ns n) \<and> (\<forall>m. locked_env c s m \<longrightarrow> locked_env c s' m)"
proof -
  obtain x where p: "put c e s = (x, s')" using apply_object_run [OF assms] .
  note adds = put_adds [OF assms(1) p]
  have files: "content s' q = content s q" if "\<not> is_temp ''.tmp-'' q" "hd q = ''refs''" for q
    using adds(3) that by simp
  have "known_parents c s' k = Some ps" if "known_parents c s k = Some ps" for k ps
    using that commit_at_stored [OF stored_kept [OF assms(1) p]] by (auto simp: known_parents_def)
  with adds(1) refs_kept [OF files] show ?thesis by blast
qed

lemma policy_only: "only (\<lambda>q. q = policy_file n) (apply_remote_policy n y)" "calm (apply_remote_policy n y)"
proof -
  have "only (\<lambda>q. q = policy_file n) (write_all (policy_file n) y)"
    by (rule onlyI) (use write_all_touches in blast)
  then show "only (\<lambda>q. q = policy_file n) (apply_remote_policy n y)"
    unfolding apply_remote_policy_def by (intro only_intros) auto
qed (auto simp: apply_remote_policy_def intro!: calm_intros)

lemma apply_policy_law:
  assumes "calm_repo c s" "apply_remote_policy n y s = (r, s')"
  shows "calm_repo c s' \<and> known_parents c s' = known_parents c s
     \<and> (\<forall>ns n. real_ref ns n \<longrightarrow> ref_at s' ns n = ref_at s ns n) \<and> (\<forall>m. locked_env c s m \<longrightarrow> locked_env c s' m)"
proof -
  have c: "repo_codec_ok c" "fs_inv s" "faults s = []" using assms(1) by (simp_all add: calm_repo_def)
  have t: "touches (\<lambda>q. q = policy_file n) s s'" using only_run [OF policy_only(1) assms(2)] .
  have files: "content s' q = content s q" if "hd q \<noteq> ''policies''" for q
  proof -
    have "q \<noteq> policy_file n" using that by (auto simp: policy_file_def)
    then show ?thesis using t c(2) by (simp add: touches_def)
  qed
  have "stored c s' = stored c s" by (rule stored_objects [OF c(1)]) (simp add: files hd_digest_path)
  then have "known_parents c s' = known_parents c s" by (simp add: known_parents_def commit_at_def fun_eq_iff)
  moreover have "calm_repo c s'" using t c calm_run [OF policy_only(2) assms(2)] by (simp add: calm_repo_def touches_def)
  ultimately show ?thesis using refs_kept [OF files] by auto
qed

interpretation fsw: sync_workspace "fs_workspace c" "calm_repo c" "\<lambda>s ns n. ref_at s (map_namespace ns) n" "known_parents c"
  "locked_env c" "\<lambda>ns n. real_ref (map_namespace ns) n" for c
proof unfold_locales
  fix s r s' i k ns n
  assume inv: "calm_repo c s"
  then have f: "faults s = []" by (simp add: calm_repo_def)
  show "lw_known_object_ids (fs_workspace c) s = (r, s') \<Longrightarrow> s' = s" for r
    using silent_op [OF silent_workspace(1) f] by (simp add: fs_workspace_def)
  show "lw_canonical_bytes (fs_workspace c) i s = (r, s') \<Longrightarrow> s' = s" for r
    using silent_op [OF silent_objects(1) f] by (simp add: fs_workspace_def)
  show "lw_all_refs (fs_workspace c) s = (r, s') \<Longrightarrow> s' = s" for r
    using silent_op [OF silent_workspace(2) f] by (simp add: fs_workspace_def)
  show "lw_read_ref (fs_workspace c) ns n s = (r, s') \<Longrightarrow> s' = s \<and> (\<forall>t. r = Ok t \<longrightarrow> t = ref_at s (map_namespace ns) n)" for r
    using silent_op [OF silent_reads(1) f] read_ref_exact [OF f] by (auto simp: fs_workspace_def repo_op_run)
  show "lw_commit_parents (fs_workspace c) k s = (r, s') \<Longrightarrow> s' = s \<and> (\<forall>t. r = Ok t \<longrightarrow> t = known_parents c s k)" for r
    using silent_op [OF silent_objects(2) f] commit_parents_exact [OF f] by (auto simp: fs_workspace_def repo_op_run)
  show "finite (dom (known_parents c s))" by (rule known_parents_finite)
next
  show "locked_env c s n \<Longrightarrow> real_ref (map_namespace CpEnvironments) n" for s n
    using env_paths(7) [of n] by (simp add: locked_env_def real_ref_def plain_ref_def)
next
  fix s e r s'
  assume "calm_repo c s" "lw_apply_object (fs_workspace c) e s = (r, s')"
  then show "calm_repo c s' \<and> (\<forall>k ps. known_parents c s k = Some ps \<longrightarrow> known_parents c s' k = Some ps)
      \<and> (\<forall>ns n. real_ref (map_namespace ns) n \<longrightarrow> ref_at s' (map_namespace ns) n = ref_at s (map_namespace ns) n)
      \<and> (\<forall>n. locked_env c s n \<longrightarrow> locked_env c s' n)"
    using apply_object_law by (auto simp: fs_workspace_def repo_op_run)
next
  fix s k ns n auth r s'
  assume a: "calm_repo c s" "parse_commit_id k = Ok k" "lw_apply_ref (fs_workspace c) ns n k auth s = (r, s')"
  from a(3) obtain x where "apply_ref c ns n k auth s = (x, s')" by (auto simp: fs_workspace_def repo_op_run)
  from apply_ref_law [OF a(1,2) this]
  show "calm_repo c s' \<and> known_parents c s' = known_parents c s
      \<and> (\<forall>ns' n'. real_ref (map_namespace ns') n' \<longrightarrow> ref_at s' (map_namespace ns') n' = ref_at s (map_namespace ns') n'
           \<or> ref_at s' (map_namespace ns') n' = Some k \<and> ref_at s (map_namespace ns') n' = ref_at s (map_namespace ns) n)
      \<and> (\<forall>n'. locked_env c s n' \<longrightarrow> locked_env c s' n'
           \<and> (auth \<or> ref_at s' (map_namespace CpEnvironments) n' = ref_at s (map_namespace CpEnvironments) n'))"
    by simp
next
  fix s n y r s'
  assume a: "calm_repo c s" "lw_apply_remote_policy (fs_workspace c) n y s = (r, s')"
  from a(2) obtain x where "apply_remote_policy n y s = (x, s')" by (auto simp: fs_workspace_def repo_op_run)
  from apply_policy_law [OF a(1) this]
  show "calm_repo c s' \<and> known_parents c s' = known_parents c s
      \<and> (\<forall>ns n. real_ref (map_namespace ns) n \<longrightarrow> ref_at s' (map_namespace ns) n = ref_at s (map_namespace ns) n)
      \<and> (\<forall>n. locked_env c s n \<longrightarrow> locked_env c s' n)"
    by simp
qed

end
