(* ===== verification/Sync_Properties.thy ===== *)
theory Sync_Properties
  imports Sync_Workspace Repository_Properties
begin

text \<open>
  Properties of the sync client over the repository on disk, against any server: what a pull may do to refs and objects,
  which commits count as ancestors, what a push sends and that it ends.
\<close>

section \<open>Lemmas\<close>

lemma edges_known: "edges (known_parents c s) = parent_rel c s"
  by (auto simp: edges_def known_parents_def parent_rel_def)

lemma namespace_onto: "\<exists>n. map_namespace n = ns"
  by (cases ns) (metis map_namespace.simps)+

lemma protected_locked: "plain_ref n \<Longrightarrow> protected_at c s n \<Longrightarrow> locked_env c s n"
  by (auto simp: protected_at_def locked_env_def)

subsection \<open>Downloads\<close>

lemma verify_entry_Ok:
  assumes "repo_codec_ok c" "verify_entry c keys x = Ok e"
  shows "digest_hex c (encoded c e) = oe_content_hash x" "digest_hex c (encoded c e) = drop 4 (oe_id x)"
  using assms codec_facts(1) [OF assms(1), of e]
  by (auto simp: verify_entry_def and_then_Ok_iff canonical_bytes_def digest_suffix_def Let_def split: if_splits)

lemma verify_entries_Ok:
  "repo_codec_ok c \<Longrightarrow> verify_entries c keys xs = Ok es \<Longrightarrow>
     list_all2 (\<lambda>x e. digest_hex c (encoded c e) = oe_content_hash x \<and> digest_hex c (encoded c e) = drop 4 (oe_id x)) xs es"
  by (induction xs arbitrary: es) (auto simp: and_then_Ok_iff dest: verify_entry_Ok)

lemma stored_put:
  assumes "calm_repo c s" "put c e s = (Ok i, s')"
  shows "stored c s' (id_of c e) = Some e"
  using put_adds(4) [OF assms] assms(1) stored_slot by (auto simp: calm_repo_def)

lemma apply_envelopes_stored:
  assumes "calm_repo c s" "cl_workspace cl = fs_workspace c" "apply_envelopes cl es n (s, out) = Some (r, s', out')"
  shows "(\<forall>i x. stored c s i = Some x \<longrightarrow> stored c s' i = Some x) \<and> out' = out
     \<and> (is_ok r \<longrightarrow> (\<forall>e \<in> set es. stored c s' (id_of c e) = Some e))"
  using assms(1,3)
proof (induction es arbitrary: s n)
  case Nil
  then show ?case by (auto simp: sy_ok_def)
next
  case (Cons e es)
  obtain x t where ap: "apply_object c e s = (x, t)" by force
  obtain y where p: "put c e s = (y, t)" "is_ok x \<longleftrightarrow> is_ok y" using apply_object_run [OF Cons.prems(1) ap] .
  note kept = stored_kept [OF Cons.prems(1) p(1)]
  have w: "on_workspace (lw_apply_object (cl_workspace cl) e) (s, out) = Some (map_err SyncRepository x, t, out)"
    using ap assms(2) by (simp add: on_workspace_def fs_workspace_def repo_op_def)
  show ?case
  proof (cases x)
    case (Err z)
    then show ?thesis using Cons.prems(2) w kept by (auto simp: sy_bind_run)
  next
    case (Ok b)
    then obtain i where i: "put c e s = (Ok i, t)" using p by (cases y) auto
    have run: "apply_envelopes cl es (if b then n + 1 else n) (t, out) = Some (r, s', out')"
      using Cons.prems(2) w Ok by (simp add: sy_bind_run)
    from Cons.IH [OF put_adds(1) [OF Cons.prems(1) p(1)] run] stored_put [OF Cons.prems(1) i] kept show ?thesis by auto
  qed
qed

subsection \<open>Batches\<close>

definition batch_fits :: "object_entry_wire list \<Rightarrow> bool" where
  "batch_fits b \<longleftrightarrow> b \<noteq> [] \<and> length b \<le> UPLOAD_MAX_ENTRIES
     \<and> (sum_list (map entry_cost b) \<le> UPLOAD_MAX_BATCH_BYTES \<or> length b = 1)"

lemma batch_entries_fit:
  assumes "list_all batch_fits batches" "cur \<noteq> [] \<Longrightarrow> batch_fits cur" "bytes = sum_list (map entry_cost cur)"
  shows "list_all batch_fits (batch_entries es batches cur bytes)
     \<and> concat (batch_entries es batches cur bytes) = concat batches @ cur @ es"
  using assms
proof (induction es arbitrary: batches cur bytes)
  case (Cons e es)
  let ?full = "cur \<noteq> [] \<and> (UPLOAD_MAX_ENTRIES \<le> length cur \<or> UPLOAD_MAX_BATCH_BYTES < bytes + entry_cost e)"
  have one: "batch_fits [e]" by (simp add: batch_fits_def UPLOAD_MAX_ENTRIES_def)
  show ?case
  proof (cases ?full)
    case True
    then show ?thesis using Cons.IH [of "batches @ [cur]" "[e]" "entry_cost e"] Cons.prems one by simp
  next
    case False
    then have "batch_fits (cur @ [e])"
      using Cons.prems one by (cases "cur = []") (auto simp: batch_fits_def)
    moreover have "batch_entries (e # es) batches cur bytes = batch_entries es batches (cur @ [e]) (bytes + entry_cost e)"
      using False by (simp only: batch_entries.simps if_False)
    ultimately show ?thesis using Cons.IH [of batches "cur @ [e]" "bytes + entry_cost e"] Cons.prems by simp
  qed
qed auto

subsection \<open>Push ends\<close>

definition total_run :: "('w, 'o, 'a) run \<Rightarrow> bool" where
  "total_run m \<longleftrightarrow> (\<forall>s. m s \<noteq> None)"

named_theorems total_intros

lemma total_bind [total_intros]: "total_run m \<Longrightarrow> (\<And>a. total_run (f a)) \<Longrightarrow> total_run (sy_bind m f)"
  unfolding total_run_def sy_bind_def by (auto split: option.splits result.splits)

lemma total_basic [total_intros]: "total_run (sy_ok a)" "total_run (sy_lift r)" "total_run (on_workspace f)" "total_run (on_network g)"
  by (auto simp: total_run_def sy_ok_def sy_lift_def on_workspace_def on_network_def split: prod.splits)

lemma total_cases [total_intros]:
  "total_run m \<Longrightarrow> total_run m' \<Longrightarrow> total_run (if b then m else m')"
  "total_run m \<Longrightarrow> (\<And>a. total_run (f a)) \<Longrightarrow> total_run (case x of None \<Rightarrow> m | Some a \<Rightarrow> f a)"
  by (auto split: option.splits)

lemma total_send [total_intros]: "total_run (send_json cl rq body dec)"
  unfolding send_json_def by (intro total_intros)

lemma total_query [total_intros]: "total_run (query_once cl p known refs)"
  unfolding query_once_def attest_def by (intro total_intros)

lemma total_chunks [total_intros]: "total_run (probe_chunks cl p refs cs ms t tail)"
  by (induction cs arbitrary: ms t tail) (auto intro!: total_intros)

lemma total_probe: "total_run (sync_probe cl p)"
  unfolding sync_probe_def by (intro total_intros)

lemma total_uploads: "total_run (collect_uploads cl remote ids entries)"
  by (induction ids arbitrary: entries) (auto simp: Let_def intro!: total_intros)

lemma total_batches: "total_run (send_batches cl p bs n)"
  by (induction bs arbitrary: n) (auto intro!: total_intros)

lemma total_upload_missing: "total_run (upload_missing_objects cl p remote)"
  unfolding upload_missing_objects_def by (intro total_intros total_uploads total_batches)

definition still :: "('w \<Rightarrow> bool) \<Rightarrow> 'w \<times> 'o \<Rightarrow> 'w \<times> 'o \<Rightarrow> bool" where
  "still I s s' \<longleftrightarrow> (I (fst s) \<longrightarrow> fst s' = fst s)"

interpretation still: run_frame "still I" for I
  by unfold_locales (auto simp: still_def)

lemma network_still: "run_keeps (still I) (on_network f)"
  by (rule on_network_keeps) (simp add: still_def)

lemma reads_still:
  "run_keeps (still (calm_repo c)) (on_workspace (lw_known_object_ids (fs_workspace c)))"
  "run_keeps (still (calm_repo c)) (on_workspace (lw_all_refs (fs_workspace c)))"
  "run_keeps (still (calm_repo c)) (on_workspace (lw_canonical_bytes (fs_workspace c) i))"
  by (rule on_workspace_keeps, auto simp: still_def dest: fsw.ids_read fsw.refs_read fsw.bytes_read)+

lemma send_still: "run_keeps (still I) (send_json cl rq body dec)"
  unfolding send_json_def by (intro still.keeps_bind still.keeps_option still.keeps_if still.keeps_simple network_still)

lemma query_still: "run_keeps (still I) (query_once cl p known refs)"
  unfolding query_once_def attest_def by (intro still.keeps_bind send_still network_still)

lemma chunks_still: "run_keeps (still I) (probe_chunks cl p refs cs ms t tail)"
  by (induction cs arbitrary: ms t tail) (auto intro!: still.keeps_bind still.keeps_simple query_still)

lemma probe_still: "cl_workspace cl = fs_workspace c \<Longrightarrow> run_keeps (still (calm_repo c)) (sync_probe cl p)"
  unfolding sync_probe_def
  by (simp only:) (intro still.keeps_bind still.keeps_if still.keeps_simple reads_still query_still chunks_still)

lemma uploads_still:
  assumes "cl_workspace cl = fs_workspace c"
  shows "run_keeps (still (calm_repo c)) (collect_uploads cl remote ids entries)"
proof (induction ids arbitrary: entries)
  case (Cons i ids)
  show ?case unfolding collect_uploads.simps Let_def assms
    by (intro still.keeps_if still.keeps_bind still.keeps_simple reads_still Cons.IH)
qed (simp add: still.keeps_simple)

lemma batches_still: "run_keeps (still I) (send_batches cl p bs n)"
  by (induction bs arbitrary: n) (auto intro!: still.keeps_bind still.keeps_simple send_still)

lemma upload_still: "cl_workspace cl = fs_workspace c \<Longrightarrow> run_keeps (still (calm_repo c)) (upload_missing_objects cl p remote)"
  unfolding upload_missing_objects_def
  by (simp only:) (intro still.keeps_bind reads_still uploads_still batches_still)

lemma put_one_returns: "\<exists>r out'. put_one cl p rf base cf (s, out) = Some (r, s, out')"
  by (auto simp: put_one_def sy_bind_def sy_lift_def on_network_def sy_ok_def
      split: option.splits prod.splits result.splits)

lemma publish_one_returns:
  assumes "calm_repo c s" "cl_workspace cl = fs_workspace c"
  shows "\<exists>r out'. publish_one cl p remote rf cf (s, out) = Some (r, s, out')"
proof (cases "find (\<lambda>r. rs_namespace r = rs_namespace rf \<and> rs_name r = rs_name rf) remote")
  case None
  then show ?thesis using put_one_returns by (simp add: publish_one_def)
next
  case (Some q)
  obtain r1 where a1: "is_ancestor_or_equal cl (rs_commit q) (rs_commit rf) (s, out) = Some (r1, s, out)"
    using fsw.is_ancestor_exact [OF assms, of "rs_commit q" "rs_commit rf" out] by auto
  obtain r2 where a2: "is_ancestor_or_equal cl (rs_commit rf) (rs_commit q) (s, out) = Some (r2, s, out)"
    using fsw.is_ancestor_exact [OF assms, of "rs_commit rf" "rs_commit q" out] by auto
  show ?thesis
    using Some a1 a2 put_one_returns [of cl p rf "Some (rs_commit q)" cf s out]
    by (cases r1; cases r2) (auto simp: publish_one_def sy_bind_run sy_ok_def split: if_splits)
qed

lemma publish_refs_returns:
  assumes "calm_repo c s" "cl_workspace cl = fs_workspace c"
  shows "\<exists>r out'. publish_refs cl p remote rs cf (s, out) = Some (r, s, out')"
proof (induction rs arbitrary: cf out)
  case (Cons rf rs)
  obtain r out' where one: "publish_one cl p remote rf cf (s, out) = Some (r, s, out')"
    using publish_one_returns [OF assms] by blast
  show ?case
  proof (cases r)
    case (Ok cf1)
    then show ?thesis using Cons [of cf1 out'] one by (simp add: sy_bind_run)
  qed (use one in \<open>simp add: sy_bind_run\<close>)
qed (simp add: sy_ok_def)

lemma total_returns: "total_run m \<Longrightarrow> \<exists>r t. m s = Some (r, t)"
  by (metis not_Some_eq surj_pair total_run_def)

lemma publish_local_returns:
  assumes "calm_repo c s" "cl_workspace cl = fs_workspace c"
  shows "\<exists>r out'. publish_local_refs cl p remote (s, out) = Some (r, s, out')"
proof -
  obtain x s' where "lw_all_refs (cl_workspace cl) s = (x, s')" by force
  then have "on_workspace (lw_all_refs (cl_workspace cl)) (s, out) = Some (x, s, out)"
    using fsw.refs_read [OF assms(1)] assms(2) by (auto simp: on_workspace_def)
  then show ?thesis using publish_refs_returns [OF assms]
    by (cases x) (auto simp: publish_local_refs_def sy_bind_run)
qed

section \<open>A sample client\<close>

text \<open>A server that offers one branch whose commit it does not send.\<close>

definition sample_remote_ref :: ref_state where
  "sample_remote_ref = \<lparr>rs_namespace = CpHeads, rs_name = ''main'', rs_commit = ''cmt_'' @ replicate 64 (CHR ''a''), rs_protected = False\<rparr>"

definition sample_answer :: query_missing_response where
  "sample_answer = \<lparr>qr_missing_objects = [], qr_missing_objects_truncated = False, qr_remote_refs = [sample_remote_ref],
     qr_remote_object_ids = [], qr_policies = [], qr_environments = [], qr_server_key_fingerprints = []\<rparr>"

definition sample_sync_codec :: sync_codec where
  "sample_sync_codec = \<lparr>sc_query_str = (\<lambda>_. Some ''q''), sc_query_parse = (\<lambda>_. Some sample_answer), sc_batch_str = (\<lambda>_. Some ''b''),
     sc_batch_parse = (\<lambda>_. Some \<lparr>bo_stored = 1, bo_duplicates = 0\<rparr>), sc_put_ref_str = (\<lambda>_. Some ''r''),
     sc_policies_parse = (\<lambda>_. Some []), sc_agents_parse = (\<lambda>_. Some []), sc_events_str = (\<lambda>_. Some ''e''),
     sc_ingest_parse = (\<lambda>_. None), sc_error_code = (\<lambda>_. None), sc_json = (\<lambda>_. None), sc_hex_encode = (\<lambda>b. b),
     sc_hex_decode = Some, sc_public_key = Some, sc_keypair = Ok, sc_public_of = (\<lambda>k. k), sc_sign = (\<lambda>_ m. m),
     sc_repo = sample_repo_codec\<rparr>"

definition sample_sync :: "(fs, unit) sync_client" where
  "sample_sync = \<lparr>cl_send = (\<lambda>_ out. (Ok \<lparr>tr_status = 200, tr_body = ''{}''\<rparr>, out)), cl_obtain = (\<lambda>out. (Ok ''seed'', out)),
     cl_workspace = fs_workspace sample_repo_codec, cl_codec = sample_sync_codec, cl_authorize_protected = False\<rparr>"

lemma sample_digest: "is_hex_of_len (replicate 64 (CHR ''a'')) 64"
  by (auto simp: is_hex_of_len_def list_all_iff)

lemma sample_commit_id: "parse_commit_id (''cmt_'' @ replicate 64 (CHR ''a'')) = Ok (''cmt_'' @ replicate 64 (CHR ''a''))"
  by (rule parse_hex_id [OF sample_digest]) simp

lemma sample_codec_typed: "sync_codec_typed sample_sync_codec"
  using sample_commit_id
  by (simp add: sync_codec_typed_def sample_sync_codec_def sample_answer_def sample_remote_ref_def valid_refs_def)

lemma empty_repo: "calm_repo sample_repo_codec empty_fs"
  by (simp add: calm_repo_def sample_repo_codec_ok)

lemma sample_probe: "sync_probe sample_sync p (empty_fs, ()) = Some (Ok sample_answer, empty_fs, ())"
proof -
  have e: "path_exists p empty_fs = (Ok False, empty_fs)" for p
    by (simp add: path_exists_def probe_def no_next_fault empty_fs_def bt_empty_def)
  have "lw_known_object_ids (fs_workspace c) empty_fs = (Ok [], empty_fs)" for c
    by (simp add: fs_workspace_def repo_op_def known_object_ids_def bind_io_def e return_io_def)
  moreover have "list_repo_refs ns empty_fs = (Ok [], empty_fs)" for ns
    by (simp add: list_repo_refs_def bind_io_def e return_io_def)
  then have "lw_all_refs (fs_workspace c) empty_fs = (Ok [], empty_fs)" for c
    by (simp add: fs_workspace_def repo_op_def all_refs_def bind_io_def return_io_def)
  ultimately show ?thesis
    by (simp add: sync_probe_def sample_sync_def sy_bind_def on_workspace_def PROBE_KNOWN_IDS_CHUNK_def query_once_def attest_def
        attestation_def on_network_def sample_sync_codec_def Let_def send_json_def sy_lift_def is_success_def)
qed

lemma sample_pull:
  "pull sample_sync ''proj_a'' (empty_fs, ()) = Some (Ok (clean_result\<lparr>sr_conflicts := [conflict_on sample_remote_ref None UnverifiableHistory]\<rparr>), empty_fs, ())"
proof -
  have loop: "pull_loop sample_sync ''proj_a'' 0 (empty_fs, ()) = Some (Ok (sample_answer, 0), empty_fs, ())"
    by (subst pull_loop.simps)
       (simp add: sample_probe download_and_apply_def sample_answer_def sy_bind_def sy_lift_def sy_ok_def)
  have f: "faults empty_fs = []" by simp
  have k: "known_parents sample_repo_codec empty_fs (rs_commit sample_remote_ref) = None"
    by (auto simp: known_parents_def commit_at_def stored_def split: result.splits)
  have "parse_object_id (''obj_'' @ replicate 64 (CHR ''a'')) = Ok (''obj_'' @ replicate 64 (CHR ''a''))"
    by (rule parse_hex_id [OF sample_digest]) simp
  moreover have "path_for (''obj_'' @ replicate 64 (CHR ''a'')) = Ok (digest_path (replicate 64 (CHR ''a'')))"
    by (rule path_for_hex [OF sample_digest])
  moreover have "path_exists p empty_fs = (Ok False, empty_fs)" for p
    by (simp add: path_exists_def probe_def no_next_fault empty_fs_def bt_empty_def)
  ultimately have par: "lw_commit_parents (fs_workspace sample_repo_codec) (rs_commit sample_remote_ref) empty_fs = (Ok None, empty_fs)"
    by (simp add: fs_workspace_def repo_op_def commit_parents_def sample_remote_ref_def find_commit_def or_absent_def
        get_object_def bind_io_def lift_io_def fail_io_def return_io_def)
  have "lw_read_ref (fs_workspace sample_repo_codec) CpHeads ''main'' empty_fs = (Ok None, empty_fs)"
    using main_branch read_ref_no_faults [OF f, of Heads "''main''"]
    by (auto simp: fs_workspace_def repo_op_def plain_branch_def is_ok_iff trimmed_def)
  with par have rec: "reconcile_remote_refs sample_sync (qr_remote_refs sample_answer) [] (empty_fs, ())
      = Some (Ok [conflict_on sample_remote_ref None UnverifiableHistory], empty_fs, ())"
    by (simp add: sample_answer_def reconcile_one_def sample_sync_def sy_bind_def on_workspace_def sy_ok_def conflict_on_def)
       (simp add: sample_remote_ref_def sy_ok_def)
  show ?thesis
    by (simp add: pull_def sy_bind_run(1) loop rec)
       (simp add: apply_remote_policies_def send_json_def sy_bind_def sy_lift_def sy_ok_def on_network_def sample_sync_def
        sample_sync_codec_def is_success_def clean_result_def)
qed

section \<open>Properties\<close>

text \<open>
  C17. A pull moves refs only forward, whatever the server sends.  After a pull that ended in any way, every branch and environment
  ref is where it was, or at a commit that is in the repository and that descends from the old one; every commit that was
  known is still known with the same parents; and a protected environment is where it was unless the client was run with
  authorization.
\<close>

theorem pull_moves_refs_forward:
  assumes "calm_repo c s" "cl_workspace cl = fs_workspace c" "sync_codec_typed (cl_codec cl)"
    and "pull cl project (s, out) = Some (r, s', out')"
  shows "(real_ref ns name \<longrightarrow>
       ref_at s' ns name = ref_at s ns name
       \<or> (\<exists>k. ref_at s' ns name = Some k \<and> commit_at c s' k \<noteq> None
            \<and> (\<forall>old. ref_at s ns name = Some old \<longrightarrow> (k, old) \<in> (parent_rel c s')\<^sup>*)))
     \<and> (\<forall>k. known_parents c s k \<noteq> None \<longrightarrow> known_parents c s' k = known_parents c s k)
     \<and> (plain_ref name \<and> protected_at c s name \<and> \<not> cl_authorize_protected cl \<longrightarrow>
          ref_at s' Environments name = ref_at s Environments name)"
proof -
  note st = fsw.pull_step [OF assms(2-4)] assms(1)
  obtain n where n: "map_namespace n = ns" using namespace_onto by blast
  have st: "(\<forall>k ps. known_parents c s k = Some ps \<longrightarrow> known_parents c s' k = Some ps)
      \<and> (\<forall>ns n. real_ref (map_namespace ns) n \<longrightarrow> forward (known_parents c s') (ref_at s (map_namespace ns) n) (ref_at s' (map_namespace ns) n))
      \<and> (\<forall>n. locked_env c s n \<longrightarrow> cl_authorize_protected cl \<or> ref_at s' Environments n = ref_at s Environments n)"
    using st by (simp add: fsw.step_def)
  then have "real_ref ns name \<Longrightarrow> forward (known_parents c s') (ref_at s ns name) (ref_at s' ns name)" using n by blast
  then have one: "real_ref ns name \<longrightarrow> ref_at s' ns name = ref_at s ns name
       \<or> (\<exists>k. ref_at s' ns name = Some k \<and> commit_at c s' k \<noteq> None
            \<and> (\<forall>old. ref_at s ns name = Some old \<longrightarrow> (k, old) \<in> (parent_rel c s')\<^sup>*))"
    by (auto simp: forward_def edges_known known_parents_def)
  have two: "\<forall>k. known_parents c s k \<noteq> None \<longrightarrow> known_parents c s' k = known_parents c s k" using st by fastforce
  have three: "plain_ref name \<and> protected_at c s name \<and> \<not> cl_authorize_protected cl \<longrightarrow>
      ref_at s' Environments name = ref_at s Environments name"
    using st protected_locked by blast
  from one two three show ?thesis by blast
qed

theorem pull_moves_refs_forward_witness:
  "real_ref Heads ''main''
   \<and> pull sample_sync ''proj_a'' (empty_fs, ()) = Some (Ok (clean_result\<lparr>sr_conflicts := [conflict_on sample_remote_ref None UnverifiableHistory]\<rparr>), empty_fs, ())
   \<and> (ref_at empty_fs Heads ''main'' = None
      \<or> (\<exists>k. ref_at empty_fs Heads ''main'' = Some k \<and> commit_at sample_repo_codec empty_fs k \<noteq> None))"
proof -
  have w: "cl_workspace sample_sync = fs_workspace sample_repo_codec" "sync_codec_typed (cl_codec sample_sync)"
    using sample_codec_typed by (simp_all add: sample_sync_def)
  have r: "real_ref Heads ''main''"
    using main_branch by (auto simp: plain_branch_def real_ref_def is_temp_def ref_components_def starts_with_def)
  have "ref_at empty_fs Heads ''main'' = None" by (simp add: ref_at_def trimmed_def)
  with pull_moves_refs_forward [OF empty_repo w sample_pull, of Heads "''main''"] r sample_pull show ?thesis by simp
qed


definition sample_entry :: object_entry_wire where
  "sample_entry = \<lparr>oe_id = id_of sample_repo_codec sample_envelope, oe_content_hash = drop 4 (id_of sample_repo_codec sample_envelope),
     oe_envelope_json = encoded sample_repo_codec sample_envelope\<rparr>"


text \<open>
  The ancestry walk of the client always returns, changes nothing, and answers correctly.  Over any repository,
  cycles in damaged histories included, it says that one commit precedes another exactly when the parents of the stored
  commits lead from the second to the first; a commit that cannot be read stops it with an error, never with an answer.
\<close>

lemma ancestry_exact:
  assumes "calm_repo c s" "cl_workspace cl = fs_workspace c"
  shows "\<exists>r. is_ancestor_or_equal cl a d (s, out) = Some (r, s, out)
     \<and> (\<forall>b. r = Ok b \<longrightarrow> (b \<longleftrightarrow> (d, a) \<in> (parent_rel c s)\<^sup>*))"
  using fsw.is_ancestor_exact [OF assms] by (simp add: edges_known)

lemma ancestry_exact_witness:
  "\<exists>r. is_ancestor_or_equal sample_sync ''cmt_a'' ''cmt_b'' (empty_fs, ()) = Some (r, empty_fs, ()) \<and> r \<noteq> Ok True"
proof -
  have "parent_rel sample_repo_codec empty_fs = {}"
    by (auto simp: parent_rel_def commit_at_def stored_def split: result.splits if_splits)
  then show ?thesis using ancestry_exact [OF empty_repo, of sample_sync "''cmt_a''" "''cmt_b''" "()"]
    by (auto simp: sample_sync_def)
qed



text \<open>
  A push always ends, whatever the server answers, and leaves the repository as it is.
\<close>

lemma push_returns:
  assumes "calm_repo c s" "cl_workspace cl = fs_workspace c"
  shows "\<exists>r out'. push cl project (s, out) = Some (r, s, out')"
proof -
  obtain r1 t1 where p: "sync_probe cl project (s, out) = Some (r1, t1)" using total_returns [OF total_probe] by blast
  then have t1: "t1 = (s, snd t1)"
    using run_keepsD [OF probe_still [OF assms(2)] p] assms(1) by (simp add: still_def prod_eq_iff)
  show ?thesis
  proof (cases r1)
    case (Err e)
    then have "push cl project (s, out) = Some (Err e, t1)" using p by (simp add: push_def sy_bind_run)
    then show ?thesis using t1 by metis
  next
    case (Ok resp)
    obtain r2 t2 where u: "upload_missing_objects cl project (qr_remote_object_ids resp) t1 = Some (r2, t2)"
      using total_returns [OF total_upload_missing] by blast
    then have t2: "t2 = (s, snd t2)"
      using run_keepsD [OF upload_still [OF assms(2)] u] assms(1) t1 by (metis fst_conv prod.collapse still_def)
    show ?thesis
    proof (cases r2)
      case (Err e)
      then have "push cl project (s, out) = Some (Err e, t2)" using p Ok u by (simp add: push_def sy_bind_run)
      then show ?thesis using t2 by metis
    next
      case O2: (Ok n)
      obtain r3 out3 where "publish_local_refs cl project (qr_remote_refs resp) t2 = Some (r3, s, out3)"
        using publish_local_returns [OF assms, of project "qr_remote_refs resp" "snd t2"] t2 by metis
      with p Ok u O2 show ?thesis by (cases r3) (simp_all add: push_def sy_bind_run sy_ok_def)
    qed
  qed
qed

lemma push_returns_witness:
  "\<exists>r out'. push sample_sync ''proj_a'' (empty_fs, ()) = Some (r, empty_fs, out')"
  by (rule push_returns [OF empty_repo]) (simp add: sample_sync_def)

text \<open>
  C24. A push publishes exactly the fast-forwards.  Given the refs the server reported, it sends one update, with the server's
  commit as base, for every local ref that the server lacks or whose commit descends from the server's, in the order of the
  listing, and none for refs that are level, behind or diverged; a run that stops with an error sent a first part of these.
\<close>

theorem push_sends_fast_forwards:
  fixes project :: project_id and remote :: "ref_state list"
  assumes "calm_repo c s" "cl_workspace cl = fs_workspace c" "all_refs c s = (Ok refs, s)"
  defines "owed \<equiv> List.map_filter (publication (known_parents c s) cl project remote) refs"
  shows "\<exists>res more out'. publish_local_refs (logging cl) project remote (s, sent, out) = Some (res, s, sent @ more, out')
     \<and> prefix more owed \<and> (is_ok res \<longrightarrow> more = owed)"
proof -
  have "on_workspace (lw_all_refs (cl_workspace (logging cl))) (s, sent, out) = Some (Ok refs, s, sent, out)"
    using assms(2,3) by (simp add: on_workspace_def logging_def fs_workspace_def repo_op_def)
  then have "publish_local_refs (logging cl) project remote (s, sent, out) = publish_refs (logging cl) project remote refs [] (s, sent, out)"
    by (simp add: publish_local_refs_def sy_bind_run)
  then show ?thesis
    using fsw.publish_refs_log [OF assms(1,2), of project remote refs "[]" sent out] unfolding owed_def is_ok_iff by metis
qed

theorem push_sends_fast_forwards_witness:
  "\<exists>res out'. publish_local_refs (logging sample_sync) ''proj_a'' [sample_remote_ref] (empty_fs, [], ()) = Some (res, empty_fs, [], out')"
proof -
  have e: "path_exists p empty_fs = (Ok False, empty_fs)" for p
    by (simp add: path_exists_def probe_def no_next_fault empty_fs_def bt_empty_def)
  have "list_repo_refs ns empty_fs = (Ok [], empty_fs)" for ns
    by (simp add: list_repo_refs_def bind_io_def e return_io_def)
  then have r: "all_refs sample_repo_codec empty_fs = (Ok [], empty_fs)"
    by (simp add: all_refs_def bind_io_def return_io_def)
  have w: "cl_workspace sample_sync = fs_workspace sample_repo_codec" by (simp add: sample_sync_def)
  show ?thesis using push_sends_fast_forwards [OF empty_repo w r, of "''proj_a''" "[sample_remote_ref]" "[]" "()"]
    by (auto simp: map_filter_simps)
qed

text \<open>
  Uploads are cut into batches that the server takes.  The batches hold exactly the objects to upload, in order;
  none is empty, none has more than 256 entries, and the estimated size stays below 512 KiB unless a single object
  exceeds that.
\<close>

lemma upload_batches_fit:
  "concat (batch_entries es [] [] 0) = es
   \<and> list_all (\<lambda>b. b \<noteq> [] \<and> length b \<le> 256 \<and> (sum_list (map entry_cost b) \<le> 512 * 1024 \<or> length b = 1)) (batch_entries es [] [] 0)"
  using batch_entries_fit [of "[]" "[]" 0 es]
  by (simp add: batch_fits_def [abs_def] UPLOAD_MAX_ENTRIES_def UPLOAD_MAX_BATCH_BYTES_def)

end
