(* ===== verification/Vault_Keys.thy ===== *)
theory Vault_Keys
  imports Repository Injection Audit_Event
begin

text \<open>
  The key hierarchy of the vault: the envelope operations of \<open>vaultx-crypto\<close> (\<open>aead.rs\<close>, \<open>envelope.rs\<close>, \<open>fingerprint.rs\<close>,
  \<open>error.rs\<close>, \<open>provider.rs\<close>), the root-key stores of \<open>vaultx-keyring\<close>, and the errors of \<open>vaultx-core\<close>.

  AES-256-GCM, HMAC-SHA256 and the \<open>hex\<close> crate are the record \<open>vault_crypto\<close>.  Its laws \<open>vault_crypto_ok\<close> are the exact
  behaviour of the algorithms: opening succeeds with \<open>m\<close> exactly when the ciphertext is the sealing of \<open>m\<close>.  That a
  forgery is hard to find is no law; the theorems name the ciphertexts that are accepted.  A world holds the file
  system, the byte stream of the random generator and the clock readings; a key is its 32 bytes.
\<close>

section \<open>Errors\<close>

datatype crypto_error =
    EncryptionFailed | DecryptionFailed | KeyGenerationFailed | SignatureInvalid | UnwrapFailed | ProviderError string

datatype core_error =
    NotARepository string | AlreadyInitialized string | InvalidVariableName string | VariableNotFound string
  | PolicyLoadFailed string | AgentNotFound string | EnvironmentNotFound string | SecretNotFound string
  | SecretDestroyed string | EmptySecretValue | InconsistentBinding string | ProjectKeyError string
  | UnsupportedOperation string | AlreadyExists string | ProtectionWeakening string | DeviceKeyError string
  | MissingRevision variable_name secret_revision_id | CoreRepo repo_error | CoreCrypto crypto_error
  | CorePolicy policy_error | CoreAudit audit_error | CoreId type_error | CoreIo string | CoreJson string

fun crypto_error_text :: "crypto_error \<Rightarrow> string" where
  "crypto_error_text EncryptionFailed = ''encryption failed''"
| "crypto_error_text DecryptionFailed = ''decryption failed''"
| "crypto_error_text KeyGenerationFailed = ''key generation failed''"
| "crypto_error_text SignatureInvalid = ''signature verification failed''"
| "crypto_error_text UnwrapFailed = ''key unwrap failed''"
| "crypto_error_text (ProviderError e) = ''key provider error: '' @ e"

section \<open>The world of a process\<close>

type_synonym key = string

record project_keys =
  pk_project :: key
  pk_fingerprint :: key

record vault_world =
  vw_fs :: fs
  vw_rng :: "nat \<Rightarrow> char"
  vw_drawn :: nat
  vw_clock :: "nat \<Rightarrow> nat"
  vw_readings :: nat
  vw_memory_key :: "key option"
  vw_cache :: "(nat \<times> project_keys) option"

type_synonym ('e, 'a) vio = "vault_world \<Rightarrow> ('a, 'e) result \<times> vault_world"

definition vok :: "'a \<Rightarrow> ('e, 'a) vio" where
  "vok a w = (Ok a, w)"

definition verr :: "'e \<Rightarrow> ('e, 'a) vio" where
  "verr e w = (Err e, w)"

definition vlift :: "('a, 'e) result \<Rightarrow> ('e, 'a) vio" where
  "vlift r w = (r, w)"

definition vbind :: "('e, 'a) vio \<Rightarrow> ('a \<Rightarrow> ('e, 'b) vio) \<Rightarrow> ('e, 'b) vio" where
  "vbind m f w = (case m w of (Ok a, w') \<Rightarrow> f a w' | (Err e, w') \<Rightarrow> (Err e, w'))"

definition vmap_err :: "('e \<Rightarrow> 'f) \<Rightarrow> ('e, 'a) vio \<Rightarrow> ('f, 'a) vio" where
  "vmap_err g m w = (case m w of (r, w') \<Rightarrow> (map_err g r, w'))"

text \<open>A call of \<open>std::fs\<close> with its \<open>std::io::Error\<close>, and a call of the repository.\<close>

definition on_fs :: "'a io \<Rightarrow> (repo_error, 'a) vio" where
  "on_fs m w = (case m (vw_fs w) of (r, s) \<Rightarrow> (r, w\<lparr>vw_fs := s\<rparr>))"

fun io_text :: "repo_error \<Rightarrow> string" where
  "io_text (RepoIo e) = e"
| "io_text _ = []"

definition std_io :: "'a io \<Rightarrow> (string, 'a) vio" where
  "std_io m = vmap_err io_text (on_fs m)"

text \<open>\<open>ErrorKind\<close> of an error, by the message of the operating system.\<close>

definition NOT_FOUND :: string where
  "NOT_FOUND = ''No such file or directory''"

definition ALREADY_EXISTS :: string where
  "ALREADY_EXISTS = ''File exists''"

definition NOT_A_DIRECTORY :: string where
  "NOT_A_DIRECTORY = ''Not a directory''"

text \<open>\<open>OsRng.fill_bytes\<close> and the clock.\<close>

definition fill_bytes :: "nat \<Rightarrow> ('e, string) vio" where
  "fill_bytes n w = (Ok (map (vw_rng w) [vw_drawn w ..< vw_drawn w + n]), w\<lparr>vw_drawn := vw_drawn w + n\<rparr>)"

definition clock_nanos :: "('e, nat) vio" where
  "clock_nanos w = (Ok (vw_clock w (vw_readings w)), w\<lparr>vw_readings := Suc (vw_readings w)\<rparr>)"

definition unix_now :: "('e, u64) vio" where
  "unix_now = vbind clock_nanos (\<lambda>n. vok (of_nat (n div 1000000000)))"

definition unix_nanos :: "('e, u64) vio" where
  "unix_nanos = vbind clock_nanos (\<lambda>n. vok (of_nat n))"

section \<open>Authenticated encryption\<close>

record vault_crypto =
  vc_seal :: "key \<Rightarrow> string \<Rightarrow> string \<Rightarrow> string \<Rightarrow> string option"
  vc_open :: "key \<Rightarrow> string \<Rightarrow> string \<Rightarrow> string \<Rightarrow> string option"
  vc_hmac :: "key \<Rightarrow> string \<Rightarrow> string"
  vc_hex_encode :: "string \<Rightarrow> string"
  vc_hex_decode :: "string \<Rightarrow> string option"

text \<open>A ciphertext bundle, and a wrapped key, which has the same two fields.\<close>

record ciphertext_bundle =
  cb_nonce :: string
  cb_ciphertext :: string

type_synonym wrapped_key = ciphertext_bundle

definition aead_encrypt :: "vault_crypto \<Rightarrow> key \<Rightarrow> string \<Rightarrow> string \<Rightarrow> (crypto_error, ciphertext_bundle) vio" where
  "aead_encrypt c k plaintext aad =
     vbind (fill_bytes 12) (\<lambda>nonce.
     vbind (vlift (ok_or EncryptionFailed (vc_seal c k nonce aad plaintext))) (\<lambda>ciphertext.
       vok \<lparr>cb_nonce = nonce, cb_ciphertext = ciphertext\<rparr>))"

definition aead_decrypt :: "vault_crypto \<Rightarrow> key \<Rightarrow> ciphertext_bundle \<Rightarrow> string \<Rightarrow> (string, crypto_error) result" where
  "aead_decrypt c k b aad = ok_or DecryptionFailed (vc_open c k (cb_nonce b) aad (cb_ciphertext b))"

section \<open>The envelope\<close>

definition KEY_LEN :: nat where
  "KEY_LEN = 32"

definition PROJECT_WRAP_AAD :: string where
  "PROJECT_WRAP_AAD = ''vaultx:wrap:v1:project''"

definition DEK_WRAP_AAD :: string where
  "DEK_WRAP_AAD = ''vaultx:wrap:v1:dek''"

definition FINGERPRINT_WRAP_AAD :: string where
  "FINGERPRINT_WRAP_AAD = ''vaultx:wrap:v1:fingerprint''"

definition generate_key :: "('e, key) vio" where
  "generate_key = fill_bytes 32"

definition wrap_child :: "vault_crypto \<Rightarrow> key \<Rightarrow> key \<Rightarrow> string \<Rightarrow> (crypto_error, wrapped_key) vio" where
  "wrap_child c kek child purpose_aad = aead_encrypt c kek child purpose_aad"

definition unwrap_child :: "vault_crypto \<Rightarrow> key \<Rightarrow> wrapped_key \<Rightarrow> string \<Rightarrow> (key, crypto_error) result" where
  "unwrap_child c kek wrapped purpose_aad =
     and_then (map_err (\<lambda>_. UnwrapFailed) (aead_decrypt c kek wrapped purpose_aad)) (\<lambda>plaintext.
       if length plaintext \<noteq> KEY_LEN then Err UnwrapFailed else Ok plaintext)"

definition wrap_project_key :: "vault_crypto \<Rightarrow> key \<Rightarrow> key \<Rightarrow> (crypto_error, wrapped_key) vio" where
  "wrap_project_key c root k = wrap_child c root k PROJECT_WRAP_AAD"

definition unwrap_project_key :: "vault_crypto \<Rightarrow> key \<Rightarrow> wrapped_key \<Rightarrow> (key, crypto_error) result" where
  "unwrap_project_key c root wrapped = unwrap_child c root wrapped PROJECT_WRAP_AAD"

definition wrap_dek :: "vault_crypto \<Rightarrow> key \<Rightarrow> key \<Rightarrow> (crypto_error, wrapped_key) vio" where
  "wrap_dek c k dek = wrap_child c k dek DEK_WRAP_AAD"

definition unwrap_dek :: "vault_crypto \<Rightarrow> key \<Rightarrow> wrapped_key \<Rightarrow> (key, crypto_error) result" where
  "unwrap_dek c k wrapped = unwrap_child c k wrapped DEK_WRAP_AAD"

definition wrap_fingerprint_key :: "vault_crypto \<Rightarrow> key \<Rightarrow> key \<Rightarrow> (crypto_error, wrapped_key) vio" where
  "wrap_fingerprint_key c k fpk = wrap_child c k fpk FINGERPRINT_WRAP_AAD"

definition unwrap_fingerprint_key :: "vault_crypto \<Rightarrow> key \<Rightarrow> wrapped_key \<Rightarrow> (key, crypto_error) result" where
  "unwrap_fingerprint_key c k wrapped = unwrap_child c k wrapped FINGERPRINT_WRAP_AAD"

definition encrypt_with_dek :: "vault_crypto \<Rightarrow> key \<Rightarrow> string \<Rightarrow> string \<Rightarrow> (crypto_error, ciphertext_bundle) vio" where
  "encrypt_with_dek c dek plaintext aad = aead_encrypt c dek plaintext aad"

definition decrypt_with_dek :: "vault_crypto \<Rightarrow> key \<Rightarrow> ciphertext_bundle \<Rightarrow> string \<Rightarrow> (string, crypto_error) result" where
  "decrypt_with_dek c dek b aad = aead_decrypt c dek b aad"

section \<open>Fingerprints\<close>

definition HEX_DIGITS :: string where
  "HEX_DIGITS = ''0123456789abcdef''"

definition to_hex :: "string \<Rightarrow> string" where
  "to_hex bytes = concat (map (\<lambda>b. [HEX_DIGITS ! (byte_of b div 16), HEX_DIGITS ! (byte_of b mod 16)]) bytes)"

definition keyed_fingerprint :: "vault_crypto \<Rightarrow> key \<Rightarrow> string \<Rightarrow> string" where
  "keyed_fingerprint c k secret = to_hex (vc_hmac c k secret)"

definition verify_fingerprint :: "vault_crypto \<Rightarrow> key \<Rightarrow> string \<Rightarrow> string \<Rightarrow> bool" where
  "verify_fingerprint c k secret expected \<longleftrightarrow>
     (let computed = to_hex (vc_hmac c k secret)
      in if length computed \<noteq> length expected then False else computed = expected)"

section \<open>Root-key stores\<close>

text \<open>The trait \<open>WrappingKeyProvider\<close>; \<open>rs_identity\<close> stands for the allocation that \<open>Arc::ptr_eq\<close> compares.\<close>

record root_store =
  rk_identity :: nat
  rk_obtain :: "(crypto_error, key) vio"
  rk_load :: "(crypto_error, key) vio"

definition memory_obtain :: "(crypto_error, key) vio" where
  "memory_obtain w =
     (case vw_memory_key w of
        Some k \<Rightarrow> (Ok k, w)
      | None \<Rightarrow> vbind generate_key (\<lambda>k w'. (Ok k, w'\<lparr>vw_memory_key := Some k\<rparr>)) w)"

definition memory_load :: "(crypto_error, key) vio" where
  "memory_load w =
     (ok_or (ProviderError ''no root wrapping key has been created yet'') (vw_memory_key w), w)"

definition in_memory_key_store :: "nat \<Rightarrow> root_store" where
  "in_memory_key_store i = \<lparr>rk_identity = i, rk_obtain = memory_obtain, rk_load = memory_load\<rparr>"

text \<open>\<open>OpenOptions::create_new\<close>, and \<open>set_permissions\<close>, which has no effect on the model but may fail.\<close>

definition create_new_file :: "path \<Rightarrow> unit io" where
  "create_new_file p = perform (\<lambda>s.
     if bt_get (nodes s) p \<noteq> None then (Err ALREADY_EXISTS, s)
     else if \<not> is_dir_node s (butlast p) then (Err NOT_FOUND, s)
     else (Ok (), set_file p [] s))"

definition set_permissions :: "path \<Rightarrow> unit io" where
  "set_permissions p = perform (\<lambda>s. (Ok (), s))"

definition create_private_file_exclusive :: "path \<Rightarrow> string \<Rightarrow> unit io" where
  "create_private_file_exclusive p contents =
     bind_io (create_dir_all (butlast p)) (\<lambda>_.
     bind_io (create_new_file p) (\<lambda>_.
     bind_io (write_all p contents) (\<lambda>_.
     bind_io (sync_all p) (\<lambda>_.
     set_permissions p))))"

definition path_display :: "path \<Rightarrow> string" where
  "path_display p = join_with ''/'' (''.vaultx'' # p)"

definition decode_key_text :: "vault_crypto \<Rightarrow> string \<Rightarrow> path \<Rightarrow> (key, crypto_error) result" where
  "decode_key_text c text p =
     (let corrupt = (\<lambda>reason. ProviderError (''root key file '' @ path_display p @ '' is unusable ('' @ reason
            @ ''); refusing to overwrite it''))
      in case vc_hex_decode c (trim text) of
           None \<Rightarrow> Err (corrupt ''not hex'')
         | Some bytes \<Rightarrow>
             if length bytes = 32 then Ok bytes
             else Err (corrupt (''expected 32 bytes, found '' @ dec_of_nat (length bytes))))"

definition file_load :: "vault_crypto \<Rightarrow> path \<Rightarrow> (crypto_error, key) vio" where
  "file_load c p =
     vbind (vmap_err (\<lambda>e. ProviderError
              (if e = NOT_FOUND then ''no root wrapping key file at '' @ path_display p
               else ''cannot read '' @ path_display p @ '': '' @ e)) (std_io (read_to_string p))) (\<lambda>text.
     vbind (vlift (decode_key_text c text p)) (\<lambda>bytes.
     vbind (vmap_err (\<lambda>e. ProviderError (''cannot tighten permissions on '' @ path_display p @ '': '' @ e))
              (std_io (set_permissions p))) (\<lambda>_.
       vok bytes)))"

definition file_obtain :: "vault_crypto \<Rightarrow> path \<Rightarrow> (crypto_error, key) vio" where
  "file_obtain c p =
     vbind (fill_bytes 32) (\<lambda>bytes w.
       case std_io (create_private_file_exclusive p (vc_hex_encode c bytes @ [newline])) w of
         (Ok _, w') \<Rightarrow> (Ok bytes, w')
       | (Err e, w') \<Rightarrow>
           if e = ALREADY_EXISTS then file_load c p w'
           else (Err (ProviderError (''cannot create '' @ path_display p @ '': '' @ e)), w'))"

definition file_key_store :: "vault_crypto \<Rightarrow> nat \<Rightarrow> path \<Rightarrow> root_store" where
  "file_key_store c i p = \<lparr>rk_identity = i, rk_obtain = file_obtain c p, rk_load = file_load c p\<rparr>"

section \<open>The in-memory key provider\<close>

text \<open>\<open>provider.rs\<close>: project keys in a map behind a mutex.\<close>

type_synonym key_provider = "(project_id, key) bt_map"

definition create_project_key :: "project_id \<Rightarrow> key_provider \<Rightarrow> (crypto_error, key \<times> key_provider) vio" where
  "create_project_key p ks = vbind generate_key (\<lambda>k. vok (k, bt_insert p k ks))"

definition load_project_key :: "project_id \<Rightarrow> key_provider \<Rightarrow> (key, crypto_error) result" where
  "load_project_key p ks =
     ok_or (ProviderError (''no project key registered for ProjectId('' @ [CHR 0x22] @ p @ [CHR 0x22] @ '')'')) (bt_get ks p)"

definition provider_wrap_dek :: "vault_crypto \<Rightarrow> project_id \<Rightarrow> key \<Rightarrow> key_provider \<Rightarrow> (crypto_error, wrapped_key) vio" where
  "provider_wrap_dek c p dek ks = vbind (vlift (load_project_key p ks)) (\<lambda>k. wrap_dek c k dek)"

definition provider_unwrap_dek :: "vault_crypto \<Rightarrow> project_id \<Rightarrow> wrapped_key \<Rightarrow> key_provider \<Rightarrow> (key, crypto_error) result" where
  "provider_unwrap_dek c p wrapped ks = and_then (load_project_key p ks) (\<lambda>k. unwrap_dek c k wrapped)"

section \<open>Laws of the parameters\<close>

definition vault_crypto_ok :: "vault_crypto \<Rightarrow> bool" where
  "vault_crypto_ok c \<longleftrightarrow>
     (\<forall>k n a m t. vc_open c k n a t = Some m \<longleftrightarrow> vc_seal c k n a m = Some t)
     \<and> (\<forall>k n a m. length k = 32 \<longrightarrow> length n = 12 \<longrightarrow> length a < 2 ^ 36 \<longrightarrow> length m < 2 ^ 36 \<longrightarrow> vc_seal c k n a m \<noteq> None)
     \<and> (\<forall>b. vc_hex_decode c (vc_hex_encode c b) = Some b \<and> is_hex_of_len (vc_hex_encode c b) (2 * length b))"

section \<open>Lemmas: running programs\<close>

lemma vbind_Ok: "vbind m f w = (Ok b, w') \<longleftrightarrow> (\<exists>a t. m w = (Ok a, t) \<and> f a t = (Ok b, w'))"
  by (auto simp: vbind_def split: prod.splits result.splits)

lemma vbind_Err:
  "vbind m f w = (Err e, w') \<longleftrightarrow> m w = (Err e, w') \<or> (\<exists>a t. m w = (Ok a, t) \<and> f a t = (Err e, w'))"
  by (auto simp: vbind_def split: prod.splits result.splits)

lemma vbind_run:
  "m w = (Ok a, t) \<Longrightarrow> vbind m f w = f a t" "m w = (Err e, t) \<Longrightarrow> vbind m f w = (Err e, t)"
  "vbind (vok a) f w = f a w" "vbind (vlift (Ok a)) f w = f a w" "vbind (vlift (Err e)) f w = (Err e, w)"
  by (simp_all add: vbind_def vok_def vlift_def)

lemma vio_simps [simp]:
  "vok a w = (r, w') \<longleftrightarrow> r = Ok a \<and> w' = w" "verr e w = (r, w') \<longleftrightarrow> r = Err e \<and> w' = w"
  "vlift x w = (r, w') \<longleftrightarrow> r = x \<and> w' = w"
  by (auto simp: vok_def verr_def vlift_def)

lemma vmap_err_run:
  "m w = (r, w') \<Longrightarrow> vmap_err g m w = (map_err g r, w')"
  "vmap_err g m w = (Ok a, w') \<longleftrightarrow> m w = (Ok a, w')"
  "vmap_err g m w = (Err e, w') \<longleftrightarrow> (\<exists>e'. m w = (Err e', w') \<and> e = g e')"
  unfolding vmap_err_def by (cases "m w"; cases "fst (m w)"; auto)+

lemma on_fs_run: "m (vw_fs w) = (r, s) \<Longrightarrow> on_fs m w = (r, w\<lparr>vw_fs := s\<rparr>)"
  by (simp add: on_fs_def)

lemma on_fs_eq: "on_fs m w = (r, w') \<longleftrightarrow> (\<exists>s. m (vw_fs w) = (r, s) \<and> w' = w\<lparr>vw_fs := s\<rparr>)"
  by (auto simp: on_fs_def split: prod.splits)

lemma std_io_eq:
  "std_io m w = (r, w') \<longleftrightarrow> (\<exists>x s. m (vw_fs w) = (x, s) \<and> r = map_err io_text x \<and> w' = w\<lparr>vw_fs := s\<rparr>)"
  by (auto simp: std_io_def vmap_err_def on_fs_def split: prod.splits)

text \<open>
  Relations that every step of a program keeps: \<open>vkeeps R m\<close> says that \<open>m\<close> relates its first to its last file system.
\<close>

definition vkeeps :: "(fs \<Rightarrow> fs \<Rightarrow> bool) \<Rightarrow> ('e, 'a) vio \<Rightarrow> bool" where
  "vkeeps R m \<longleftrightarrow> (\<forall>w. fs_inv (vw_fs w) \<longrightarrow> fs_inv (vw_fs (snd (m w))) \<and> R (vw_fs w) (vw_fs (snd (m w))))"

lemma vkeepsI:
  "(\<And>w r w'. m w = (r, w') \<Longrightarrow> fs_inv (vw_fs w) \<Longrightarrow> fs_inv (vw_fs w') \<and> R (vw_fs w) (vw_fs w')) \<Longrightarrow> vkeeps R m"
  unfolding vkeeps_def by (metis prod.collapse)

lemma vkeepsD: "vkeeps R m \<Longrightarrow> m w = (r, w') \<Longrightarrow> fs_inv (vw_fs w) \<Longrightarrow> fs_inv (vw_fs w') \<and> R (vw_fs w) (vw_fs w')"
  unfolding vkeeps_def by (metis snd_conv)

lemma vkeeps_mono: "vkeeps R m \<Longrightarrow> (\<And>s t. fs_inv s \<Longrightarrow> fs_inv t \<Longrightarrow> R s t \<Longrightarrow> Q s t) \<Longrightarrow> vkeeps Q m"
  unfolding vkeeps_def by blast

lemma vkeeps_on_fs: "(\<And>s r s'. m s = (r, s') \<Longrightarrow> fs_inv s \<Longrightarrow> fs_inv s' \<and> R s s') \<Longrightarrow> vkeeps R (on_fs m)"
  by (rule vkeepsI) (auto simp: on_fs_eq)

lemma vkeeps_vmap [simp]: "vkeeps R (vmap_err g m) \<longleftrightarrow> vkeeps R m"
  by (simp add: vkeeps_def vmap_err_def split_beta)

lemma vkeeps_only: "only X m \<Longrightarrow> vkeeps (touches X) (on_fs m)"
  by (rule vkeeps_on_fs) (auto dest: only_run simp: touches_def)

locale frame_relation =
  fixes R :: "fs \<Rightarrow> fs \<Rightarrow> bool"
  assumes same: "fs_inv s \<Longrightarrow> same_nodes s t \<Longrightarrow> R s t"
    and trans: "fs_inv s \<Longrightarrow> R s t \<Longrightarrow> R t u \<Longrightarrow> R s u"
begin

lemma keeps_same: "(\<And>w. same_nodes (vw_fs w) (vw_fs (snd (m w)))) \<Longrightarrow> vkeeps R m"
  unfolding vkeeps_def using same same_nodes_content(2) by blast

lemma keeps_bind: "vkeeps R m \<Longrightarrow> (\<And>a. vkeeps R (f a)) \<Longrightarrow> vkeeps R (vbind m f)"
proof (rule vkeepsI)
  fix w r w'
  assume m: "vkeeps R m" and f: "\<And>a. vkeeps R (f a)" and run: "vbind m f w = (r, w')" and inv: "fs_inv (vw_fs w)"
  obtain x t where x: "m w = (x, t)" by force
  note step = vkeepsD [OF m x inv]
  show "fs_inv (vw_fs w') \<and> R (vw_fs w) (vw_fs w')"
  proof (cases x)
    case (Ok a)
    then have "f a t = (r, w')" using run x by (simp add: vbind_run)
    then show ?thesis using step vkeepsD [OF f] trans inv by blast
  qed (use run x step in \<open>simp add: vbind_run\<close>)
qed

lemma keeps_pure: "vkeeps R (vok a)" "vkeeps R (verr e)" "vkeeps R (vlift r)" "vkeeps R (fill_bytes n)" "vkeeps R clock_nanos"
  by (rule keeps_same, simp add: vok_def verr_def vlift_def fill_bytes_def clock_nanos_def)+

lemma keeps_clock: "vkeeps R unix_now" "vkeeps R unix_nanos"
  unfolding unix_now_def unix_nanos_def by (intro keeps_bind keeps_pure)+

lemma keeps_reads: "only (\<lambda>_. False) m \<Longrightarrow> (\<And>s. same_nodes s (snd (m s))) \<Longrightarrow> vkeeps R (std_io m)"
  unfolding std_io_def vkeeps_vmap by (rule keeps_same) (simp add: on_fs_def split_beta)

lemma keeps_crypto:
  "vkeeps R (aead_encrypt c k m a)" "vkeeps R (generate_key :: ('e, key) vio)" "vkeeps R (wrap_project_key c k x)" "vkeeps R (wrap_dek c k x)"
  "vkeeps R (wrap_fingerprint_key c k x)" "vkeeps R (encrypt_with_dek c k m a)"
  unfolding wrap_project_key_def wrap_dek_def wrap_fingerprint_key_def encrypt_with_dek_def wrap_child_def aead_encrypt_def generate_key_def
  by (intro keeps_bind keeps_pure)+

end

section \<open>Lemmas: the key file is written once\<close>

lemma perform_same: "perform (\<lambda>s. (x, s)) s = (r, s') \<Longrightarrow> same_nodes s s'"
  by (erule perform_cases) auto

lemma create_new_cases:
  assumes "create_new_file p s = (r, s')"
  obtains (failed) e where "r = Err (RepoIo e)" "same_nodes s s'"
  | (made) "r = Ok ()" "bt_get (nodes s) p = None" "nodes s' = bt_insert p (File []) (nodes s)"
  using assms unfolding create_new_file_def
proof (cases rule: perform_cases)
  case (run t x)
  show ?thesis
  proof (cases "bt_get (nodes t) p \<noteq> None \<or> \<not> is_dir_node t (butlast p)")
    case True
    then obtain e where "x = Err e" "s' = t" using run(2) by (auto split: if_splits)
    then show ?thesis using run(1,3) that(1) by simp
  next
    case False
    then have "x = Ok ()" "s' = set_file p [] t" using run(2) by auto
    moreover from False have "bt_get (nodes t) p = None" by simp
    ultimately show ?thesis using run(1,3) that(2) by (simp add: same_nodes_def set_file_def)
  qed
qed (use that(1) in auto)

text \<open>A file that is there stays as it is, whatever fails.\<close>

definition keeps_file :: "path \<Rightarrow> fs \<Rightarrow> fs \<Rightarrow> bool" where
  "keeps_file p s t \<longleftrightarrow> (\<forall>b. content s p = Some b \<longrightarrow> content t p = Some b)"

interpretation keepf: frame_relation "keeps_file p" for p
  by unfold_locales (auto simp: keeps_file_def)

lemma touches_keeps: "touches X s t \<Longrightarrow> fs_inv s \<Longrightarrow> \<not> X p \<Longrightarrow> keeps_file p s t"
  by (simp add: touches_def keeps_file_def)

lemma create_exclusive_touches: "only (\<lambda>q. q = p) (create_private_file_exclusive p b)"
proof -
  have new: "touches (\<lambda>q. q = p) s s'" if "create_new_file p s = (r, s')" for s r s'
    using that
  proof (cases rule: create_new_cases)
    case made
    then have "content s' = content (set_file p [] s)" "fs_inv s' = fs_inv (set_file p [] s)"
      by (simp_all add: content_def set_file_def fs_inv_def fun_eq_iff)
    then show ?thesis by (simp add: touches_def set_file_content set_file_inv)
  qed (simp add: touches_same)
  have only_new: "only (\<lambda>q. q = p) (create_new_file p)" using new by (rule onlyI)
  have only_perm: "only (\<lambda>q. q = p) (set_permissions p)"
    unfolding set_permissions_def by (rule onlyI) (drule perform_same, erule touches_same)
  have only_sync: "only (\<lambda>q. q = p) (sync_all p)" by (rule onlyI) (drule sync_all_same, erule touches_same)
  have only_write: "only (\<lambda>q. q = p) (write_all p b)" by (rule onlyI) (drule write_all_touches, simp)
  show ?thesis
    unfolding create_private_file_exclusive_def
    by (intro only_bind only_create only_new only_perm only_write only_sync)
qed

lemma create_exclusive_keeps:
  assumes "create_private_file_exclusive p b s = (r, s')" "fs_inv s"
  shows "keeps_file p s s'"
proof (cases "content s p")
  case (Some old)
  obtain r1 s1 where c1: "create_dir_all (butlast p) s = (r1, s1)" by force
  have s1: "content s1 p = Some old" using create_dir_all_files [OF c1] assms(2) Some by (simp add: touches_def)
  obtain r2 s2 where c2: "create_new_file p s1 = (r2, s2)" by force
  have "is_err r2 \<and> content s2 p = Some old"
    using c2
  proof (cases rule: create_new_cases)
    case made
    then show ?thesis using s1 by (simp add: content_def)
  qed (use s1 in auto)
  then have "content s' p = Some old"
    using assms(1) c1 c2 s1 by (cases r1; cases r2) (auto simp: create_private_file_exclusive_def bind_io_run)
  then show ?thesis using Some by (simp add: keeps_file_def)
qed (simp add: keeps_file_def)

lemma file_load_same: "file_load c p w = (r, w') \<Longrightarrow> same_nodes (vw_fs w) (vw_fs w')"
  by (cases r)
     (auto simp: file_load_def vbind_Ok vbind_Err vmap_err_run std_io_eq set_permissions_def
       dest!: read_to_string_nodes perform_same intro: same_nodes_trans)

lemma file_obtain_keeps: "vkeeps (\<lambda>s t. touches (\<lambda>q. q = p) s t \<and> keeps_file p s t) (file_obtain c p)"
proof (rule vkeepsI)
  fix w r w'
  assume run: "file_obtain c p w = (r, w')" and inv: "fs_inv (vw_fs w)"
  obtain b t where b: "(fill_bytes 32 :: (crypto_error, string) vio) w = (Ok b, t)" "vw_fs t = vw_fs w" by (simp add: fill_bytes_def)
  obtain x s where x: "create_private_file_exclusive p (vc_hex_encode c b @ [newline]) (vw_fs t) = (x, s)" by force
  have step: "touches (\<lambda>q. q = p) (vw_fs w) s" "keeps_file p (vw_fs w) s"
    using only_run [OF create_exclusive_touches x] create_exclusive_keeps [OF x] b(2) inv by auto
  have "same_nodes s (vw_fs w')"
    using run x unfolding file_obtain_def vbind_run(1) [where w = w and m = "fill_bytes 32", OF b(1)]
    by (cases x) (auto simp: std_io_def vmap_err_def on_fs_def split: if_splits dest!: file_load_same)
  then have "touches (\<lambda>q. q = p) (vw_fs w) (vw_fs w')" "keeps_file p (vw_fs w) (vw_fs w')"
    using step touches_trans touches_same by (blast, simp add: keeps_file_def)
  then show "fs_inv (vw_fs w') \<and> touches (\<lambda>q. q = p) (vw_fs w) (vw_fs w') \<and> keeps_file p (vw_fs w) (vw_fs w')"
    using inv by (simp add: touches_def)
qed

end
