(* ===== verification/Secret_Store.thy ===== *)
theory Secret_Store
  imports Vault_Keys "HOL-Library.Product_Lexorder"
begin

text \<open>
  \<open>vaultx-core/src/secrets.rs\<close>: the encrypted secret store.  A revision of a secret is one file
  \<open>secrets/<secret id>/<revision id>.json\<close> with the value encrypted under a key of its own, which is wrapped under the
  project key of \<open>keys/project.json\<close>; that is wrapped under the root key.  Every call of the file system may fail.
  \<open>serde_json\<close> is the record \<open>secret_codec\<close> over the parameters of \<open>Vault_Keys\<close>.
\<close>

section \<open>Data\<close>

type_synonym secret_id = string

datatype secret_revision_state = Active | Revoked | Destroyed

fun show_state :: "secret_revision_state \<Rightarrow> string" where
  "show_state Active = ''active''"
| "show_state Revoked = ''revoked''"
| "show_state Destroyed = ''destroyed''"

record secret_binding =
  sb_credential :: credential_ref
  sb_injection :: injection_template_id
  sb_provider :: "string option"

record secret_revision_aad =
  aad_project :: project_id
  aad_secret :: secret_id
  aad_revision :: secret_revision_id
  aad_kind :: variable_kind
  aad_format :: nat

record secret_revision =
  sr_id :: secret_revision_id
  sr_secret :: secret_id
  sr_name :: variable_name
  sr_environment :: environment_id
  sr_kind :: variable_kind
  sr_brokered :: "secret_binding option"
  sr_state :: secret_revision_state
  sr_created_at :: u64
  sr_created_nanos :: u64
  sr_ciphertext_hex :: string
  sr_nonce_hex :: string
  sr_wrapped_dek_hex :: string
  sr_aad :: secret_revision_aad
  sr_fingerprint_hex :: string
  sr_shredded :: bool

record stored_project_keys =
  sk_format :: nat
  sk_project_nonce_hex :: string
  sk_project_ciphertext_hex :: string
  sk_fingerprint_nonce_hex :: string
  sk_fingerprint_ciphertext_hex :: string

datatype resolved_revision = Plain string | DestroyedRevision

record secret_revision_info =
  si_id :: secret_revision_id
  si_state :: secret_revision_state
  si_created_at :: u64

record secret_metadata_view =
  sm_secret :: secret_id
  sm_name :: variable_name
  sm_environment :: environment_id
  sm_current :: secret_revision_id
  sm_state :: secret_revision_state
  sm_kind :: variable_kind
  sm_brokered :: "secret_binding option"
  sm_fingerprint_hex :: string
  sm_created_at :: u64
  sm_history :: "secret_revision_info list"

record secret_list_entry =
  sl_name :: variable_name
  sl_kind :: variable_kind
  sl_state :: secret_revision_state

record revision_input =
  ri_name :: variable_name
  ri_secret :: secret_id
  ri_env :: environment_id
  ri_kind :: variable_kind
  ri_binding :: "secret_binding option"
  ri_bytes :: string

record secret_codec =
  sc_crypto :: vault_crypto
  sc_aad :: "secret_revision_aad \<Rightarrow> (string, string) result"
  sc_enc_record :: "secret_revision \<Rightarrow> (string, string) result"
  sc_dec_record :: "string \<Rightarrow> (secret_revision, string) result"
  sc_enc_keys :: "stored_project_keys \<Rightarrow> (string, string) result"
  sc_dec_keys :: "string \<Rightarrow> (stored_project_keys, string) result"
  sc_enc_wrapped :: "wrapped_key \<Rightarrow> (string, string) result"
  sc_dec_wrapped :: "string \<Rightarrow> wrapped_key option"
  sc_repo :: repo_codec

record secret_service =
  sv_codec :: secret_codec
  sv_root :: root_store

abbreviation crypto :: "secret_service \<Rightarrow> vault_crypto" where
  "crypto v \<equiv> sc_crypto (sv_codec v)"

type_synonym 'a core = "(core_error, 'a) vio"

section \<open>Constants and paths\<close>

definition SECRETS_DIR :: path where
  "SECRETS_DIR = [''secrets'']"

definition KEYS_PATH :: path where
  "KEYS_PATH = [''keys'', ''project.json'']"

definition ROOT_KEY_PATH :: path where
  "ROOT_KEY_PATH = [''root.key'']"

definition SECRET_FORMAT_VERSION :: nat where
  "SECRET_FORMAT_VERSION = 1"

definition LOCAL_PROJECT_ID :: project_id where
  "LOCAL_PROJECT_ID = ''proj_local''"

definition record_path :: "secret_revision \<Rightarrow> path" where
  "record_path r = SECRETS_DIR @ [sr_secret r, sr_id r @ ''.json'']"

text \<open>\<open>Path::extension\<close> of a file name.\<close>

definition name_extension :: "string \<Rightarrow> string option" where
  "name_extension name =
     (if CHR ''.'' \<in> set (tl name) then Some (last (split_on (CHR ''.'') name)) else None)"

text \<open>\<open>SecretService::new\<close>: the root key in a file of the vault; \<open>i\<close> is the identity of the new provider.\<close>

definition new_secret_service :: "secret_codec \<Rightarrow> nat \<Rightarrow> secret_service" where
  "new_secret_service c i = \<lparr>sv_codec = c, sv_root = file_key_store (sc_crypto c) i ROOT_KEY_PATH\<rparr>"

section \<open>Helpers\<close>

definition secret_io :: "'a io \<Rightarrow> 'a core" where
  "secret_io m = vmap_err CoreIo (std_io m)"

definition parse_secret_name :: "string \<Rightarrow> (variable_name, core_error) result" where
  "parse_secret_name name = map_err (\<lambda>_. InvalidVariableName name) (parse_variable_name name)"

definition environment_id_of :: "string \<Rightarrow> (environment_id, core_error) result" where
  "environment_id_of bare = map_err CoreId (parse_prefixed_id ''env_'' (''env_'' @ bare))"

definition kind_text :: "variable_kind \<Rightarrow> string" where
  "kind_text k = (case k of Config \<Rightarrow> ''Config'' | Secret \<Rightarrow> ''Secret'' | Brokered \<Rightarrow> ''Brokered'' | Dynamic \<Rightarrow> ''Dynamic'')"

definition validate_binding ::
  "variable_kind \<Rightarrow> secret_binding option \<Rightarrow> string \<Rightarrow> (secret_binding option, core_error) result" where
  "validate_binding kind brokered name =
     (case kind of
        Brokered \<Rightarrow>
          (case brokered of
             Some b \<Rightarrow> Ok (Some b)
           | None \<Rightarrow> Err (InconsistentBinding (''`brokered` kind requires a brokered binding for '' @ backquoted name)))
      | Secret \<Rightarrow>
          if brokered \<noteq> None
          then Err (InconsistentBinding (''plain secret '' @ backquoted name @ '' cannot carry a brokered binding''))
          else Ok None
      | other \<Rightarrow> Err (InconsistentBinding (''unsupported secret kind '' @ backquoted (kind_text other) @ '' for '' @ backquoted name)))"

definition plaintext_bytes :: "string \<Rightarrow> (string, core_error) result" where
  "plaintext_bytes plaintext = (if plaintext = [] then Err EmptySecretValue else Ok plaintext)"

definition ordering_key :: "secret_revision \<Rightarrow> u64 \<times> u64 \<times> string" where
  "ordering_key r = (sr_created_nanos r, sr_created_at r, sr_id r)"

text \<open>\<open>Iterator::max_by\<close> keeps the last of equal maxima.\<close>

fun pick_latest :: "secret_revision list \<Rightarrow> secret_revision option" where
  "pick_latest [] = None"
| "pick_latest (r # rs) =
     (case pick_latest rs of
        None \<Rightarrow> Some r
      | Some m \<Rightarrow> if ordering_key r \<le> ordering_key m then Some m else Some r)"

definition random_suffix :: "secret_service \<Rightarrow> string core" where
  "random_suffix v = vbind (fill_bytes 16) (\<lambda>bytes. vok (vc_hex_encode (crypto v) bytes))"

definition new_secret_id :: "secret_service \<Rightarrow> secret_id core" where
  "new_secret_id v =
     vbind (random_suffix v) (\<lambda>suffix. vlift (map_err CoreId (parse_prefixed_id ''sec_'' (''sec_'' @ suffix))))"

definition new_revision_id :: "secret_service \<Rightarrow> secret_revision_id core" where
  "new_revision_id v =
     vbind (random_suffix v) (\<lambda>suffix. vlift (map_err CoreId (parse_prefixed_id ''sec_rev_'' (''sec_rev_'' @ suffix))))"

definition decode_hex :: "vault_crypto \<Rightarrow> string \<Rightarrow> (string, crypto_error) result" where
  "decode_hex c h = ok_or DecryptionFailed (vc_hex_decode c (trim h))"

definition decode_nonce :: "vault_crypto \<Rightarrow> string \<Rightarrow> (string, crypto_error) result" where
  "decode_nonce c h =
     and_then (decode_hex c h) (\<lambda>bytes. if length bytes = 12 then Ok bytes else Err DecryptionFailed)"

definition encode_wrapped :: "secret_codec \<Rightarrow> wrapped_key \<Rightarrow> string" where
  "encode_wrapped c wrapped =
     (case sc_enc_wrapped c wrapped of Ok bytes \<Rightarrow> vc_hex_encode (sc_crypto c) bytes | Err _ \<Rightarrow> [])"

definition decode_wrapped_json :: "secret_codec \<Rightarrow> string \<Rightarrow> (wrapped_key, crypto_error) result" where
  "decode_wrapped_json c h =
     and_then (decode_hex (sc_crypto c) h) (\<lambda>bytes. ok_or UnwrapFailed (sc_dec_wrapped c bytes))"

definition decode_stored_wrapped :: "vault_crypto \<Rightarrow> string \<Rightarrow> string \<Rightarrow> string \<Rightarrow> (wrapped_key, core_error) result" where
  "decode_stored_wrapped c nonce_hex ciphertext_hex field =
     and_then (map_err (\<lambda>_. ProjectKeyError (''malformed '' @ backquoted field @ '' nonce'')) (decode_nonce c nonce_hex)) (\<lambda>nonce.
     and_then (ok_or (ProjectKeyError (''malformed '' @ backquoted field @ '' ciphertext'')) (vc_hex_decode c (trim ciphertext_hex)))
       (\<lambda>ciphertext. Ok \<lparr>cb_nonce = nonce, cb_ciphertext = ciphertext\<rparr>))"

section \<open>Writing files\<close>

definition write_atomic :: "path \<Rightarrow> string \<Rightarrow> unit io" where
  "write_atomic p bytes = publish ''.tmp-'' p bytes"

definition hard_link :: "path \<Rightarrow> path \<Rightarrow> unit io" where
  "hard_link p q = perform (\<lambda>s.
     case content s p of
       None \<Rightarrow> (Err NOT_FOUND, s)
     | Some b \<Rightarrow>
         if bt_get (nodes s) q \<noteq> None then (Err ALREADY_EXISTS, s)
         else if \<not> is_dir_node s (butlast q) then (Err NOT_FOUND, s)
         else (Ok (), set_file q b s))"

definition publish_file_no_clobber :: "path \<Rightarrow> string \<Rightarrow> unit io" where
  "publish_file_no_clobber p bytes =
     bind_io (create_dir_all (butlast p)) (\<lambda>_ s.
       case timestamp s of (n, s') \<Rightarrow>
       (let temp = butlast p @ [temp_name ''.tmp-new-'' (process_id s') n]
        in bind_io (write_atomic temp bytes) (\<lambda>_ t.
             case hard_link temp p t of
               (linked, t') \<Rightarrow> (linked, snd (remove_file temp t')))) s')"

section \<open>The key hierarchy\<close>

definition read_project_keys :: "secret_service \<Rightarrow> key \<Rightarrow> project_keys option core" where
  "read_project_keys v root w =
     (case std_io (read_to_string KEYS_PATH) w of
        (Err e, w') \<Rightarrow> if e = NOT_FOUND then (Ok None, w') else (Err (CoreIo e), w')
      | (Ok text, w') \<Rightarrow>
          vlift (and_then (map_err (\<lambda>e. ProjectKeyError (''unreadable ('' @ e @ ''); refusing to overwrite'')) (sc_dec_keys (sv_codec v) text)) (\<lambda>stored.
            if sk_format stored \<noteq> SECRET_FORMAT_VERSION
            then Err (ProjectKeyError (''unsupported format version '' @ dec_of_nat (sk_format stored)))
            else
              and_then (decode_stored_wrapped (crypto v) (sk_project_nonce_hex stored) (sk_project_ciphertext_hex stored) ''project key'') (\<lambda>wrapped.
              and_then (map_err (\<lambda>_. ProjectKeyError ''cannot unwrap the project key with the configured root key'')
                          (unwrap_project_key (crypto v) root wrapped)) (\<lambda>project.
              and_then (decode_stored_wrapped (crypto v) (sk_fingerprint_nonce_hex stored) (sk_fingerprint_ciphertext_hex stored) ''fingerprint key'') (\<lambda>wrapped'.
              and_then (map_err (\<lambda>_. ProjectKeyError ''cannot unwrap the fingerprint key with the project key'')
                          (unwrap_fingerprint_key (crypto v) project wrapped')) (\<lambda>fpk.
                Ok (Some \<lparr>pk_project = project, pk_fingerprint = fpk\<rparr>)))))))
            w')"

definition new_key_bundle :: "secret_service \<Rightarrow> key \<Rightarrow> (project_keys \<times> stored_project_keys) core" where
  "new_key_bundle v root =
     vbind generate_key (\<lambda>project.
     vbind generate_key (\<lambda>fpk.
     vbind (vmap_err CoreCrypto (wrap_project_key (crypto v) root project)) (\<lambda>wp.
     vbind (vmap_err CoreCrypto (wrap_fingerprint_key (crypto v) project fpk)) (\<lambda>wf.
       vok (\<lparr>pk_project = project, pk_fingerprint = fpk\<rparr>,
            \<lparr>sk_format = SECRET_FORMAT_VERSION,
             sk_project_nonce_hex = vc_hex_encode (crypto v) (cb_nonce wp),
             sk_project_ciphertext_hex = vc_hex_encode (crypto v) (cb_ciphertext wp),
             sk_fingerprint_nonce_hex = vc_hex_encode (crypto v) (cb_nonce wf),
             sk_fingerprint_ciphertext_hex = vc_hex_encode (crypto v) (cb_ciphertext wf)\<rparr>)))))"

definition load_or_init_keys :: "secret_service \<Rightarrow> project_keys core" where
  "load_or_init_keys v =
     vbind (vmap_err CoreCrypto (rk_obtain (sv_root v))) (\<lambda>root.
     vbind (read_project_keys v root) (\<lambda>present.
       case present of
         Some keys \<Rightarrow> vok keys
       | None \<Rightarrow>
           vbind (new_key_bundle v root) (\<lambda>(keys, stored).
           vbind (vlift (map_err CoreJson (sc_enc_keys (sv_codec v) stored))) (\<lambda>bytes w.
             case std_io (publish_file_no_clobber KEYS_PATH bytes) w of
               (Ok _, w') \<Rightarrow> (Ok keys, w')
             | (Err e, w') \<Rightarrow>
                 if e = ALREADY_EXISTS
                 then vbind (read_project_keys v root) (\<lambda>again.
                        vlift (ok_or (ProjectKeyError ''key bundle vanished between create and read'') again)) w'
                 else (Err (CoreIo e), w')))))"

definition cached_keys :: "secret_service \<Rightarrow> project_keys core" where
  "cached_keys v w =
     (case vw_cache w of
        Some (owner, keys) \<Rightarrow>
          if owner = rk_identity (sv_root v) then (Ok keys, w)
          else vbind (load_or_init_keys v) (\<lambda>keys w'. (Ok keys, w'\<lparr>vw_cache := Some (rk_identity (sv_root v), keys)\<rparr>)) w
      | None \<Rightarrow> vbind (load_or_init_keys v) (\<lambda>keys w'. (Ok keys, w'\<lparr>vw_cache := Some (rk_identity (sv_root v), keys)\<rparr>)) w)"

definition verify_project_keys :: "secret_service \<Rightarrow> unit core" where
  "verify_project_keys v =
     vbind (vmap_err (\<lambda>e. ProjectKeyError (''root wrapping key unavailable: '' @ crypto_error_text e)) (rk_load (sv_root v))) (\<lambda>root.
     vbind (read_project_keys v root) (\<lambda>present.
       vlift (and_then (ok_or (ProjectKeyError ''wrapped key bundle not found at .vaultx/keys/project.json'') present) (\<lambda>_. Ok ()))))"

section \<open>Records on disk\<close>

definition save_record :: "secret_service \<Rightarrow> secret_revision \<Rightarrow> unit core" where
  "save_record v r =
     vbind (vlift (map_err CoreJson (sc_enc_record (sv_codec v) r))) (\<lambda>bytes.
       secret_io (write_atomic (record_path r) bytes))"

definition scan_file ::
  "secret_service \<Rightarrow> environment_id option \<Rightarrow> path \<Rightarrow> string \<Rightarrow> secret_revision list \<Rightarrow> secret_revision list core" where
  "scan_file v env dir name records =
     (if name_extension name \<noteq> Some ''json'' then vok records
      else vbind (secret_io (read_to_string (dir @ [name]))) (\<lambda>text.
           vbind (vlift (map_err (\<lambda>e. CoreJson (''corrupt secret record '' @ path_display (dir @ [name]) @ '': '' @ e))
                           (sc_dec_record (sv_codec v) text))) (\<lambda>r.
             vok (if env = None \<or> env = Some (sr_environment r) then records @ [r] else records))))"

fun fold_vio :: "('a \<Rightarrow> 'b \<Rightarrow> ('e, 'b) vio) \<Rightarrow> 'a list \<Rightarrow> 'b \<Rightarrow> ('e, 'b) vio" where
  "fold_vio f [] b = vok b"
| "fold_vio f (x # xs) b = vbind (f x b) (fold_vio f xs)"

definition scan_secret_dir ::
  "secret_service \<Rightarrow> environment_id option \<Rightarrow> string \<Rightarrow> secret_revision list \<Rightarrow> secret_revision list core" where
  "scan_secret_dir v env dir records w =
     (case std_io (read_dir (SECRETS_DIR @ [dir])) w of
        (Err e, w') \<Rightarrow> if e = NOT_A_DIRECTORY then (Ok records, w') else (Err (CoreIo e), w')
      | (Ok files, w') \<Rightarrow> fold_vio (scan_file v env (SECRETS_DIR @ [dir])) files records w')"

definition scan_records :: "secret_service \<Rightarrow> environment_id option \<Rightarrow> secret_revision list core" where
  "scan_records v env w =
     (case std_io (read_dir SECRETS_DIR) w of
        (Err e, w') \<Rightarrow> if e = NOT_FOUND then (Ok [], w') else (Err (CoreIo e), w')
      | (Ok dirs, w') \<Rightarrow>
          vbind (fold_vio (scan_secret_dir v env) dirs []) (\<lambda>records. vok (sort_key ordering_key records)) w')"

definition records_for :: "secret_service \<Rightarrow> variable_name \<Rightarrow> environment_id \<Rightarrow> secret_revision list core" where
  "records_for v name env =
     vbind (scan_records v (Some env)) (\<lambda>records. vok (filter (\<lambda>r. sr_name r = name) records))"

definition latest_record :: "secret_service \<Rightarrow> variable_name \<Rightarrow> environment_id \<Rightarrow> (secret_id \<times> secret_revision) option core" where
  "latest_record v name env =
     vbind (records_for v name env) (\<lambda>records. vok (map_option (\<lambda>r. (sr_secret r, r)) (pick_latest records)))"

section \<open>Writing and reading revisions\<close>

definition stage_binding :: "secret_service \<Rightarrow> variable_name \<Rightarrow> secret_binding option \<Rightarrow> secret_revision_id \<Rightarrow> unit core" where
  "stage_binding v name binding revision =
     vmap_err CoreRepo (on_fs (add_entry (sc_repo (sv_codec v)) name
       (case binding of Some b \<Rightarrow> BrokeredEntry (sb_credential b) revision | None \<Rightarrow> SecretEntry revision)))"

definition write_revision :: "secret_service \<Rightarrow> revision_input \<Rightarrow> secret_revision option \<Rightarrow> secret_revision_id core" where
  "write_revision v i previous =
     vbind (cached_keys v) (\<lambda>keys.
     vbind (new_revision_id v) (\<lambda>revision.
     vbind generate_key (\<lambda>dek.
     vbind (vlift (map_err CoreId (parse_prefixed_id ''proj_'' LOCAL_PROJECT_ID))) (\<lambda>project.
       let aad = \<lparr>aad_project = project, aad_secret = ri_secret i, aad_revision = revision, aad_kind = ri_kind i,
                  aad_format = SECRET_FORMAT_VERSION\<rparr>
       in
     vbind (vlift (map_err CoreJson (sc_aad (sv_codec v) aad))) (\<lambda>aad_bytes.
     vbind (vmap_err CoreCrypto (encrypt_with_dek (crypto v) dek (ri_bytes i) aad_bytes)) (\<lambda>bundle.
     vbind (vmap_err CoreCrypto (wrap_dek (crypto v) (pk_project keys) dek)) (\<lambda>wrapped.
     vbind unix_now (\<lambda>now.
     vbind unix_nanos (\<lambda>nanos.
     vbind (save_record v
        \<lparr>sr_id = revision, sr_secret = ri_secret i, sr_name = ri_name i, sr_environment = ri_env i, sr_kind = ri_kind i,
         sr_brokered = ri_binding i, sr_state = Active, sr_created_at = now, sr_created_nanos = nanos,
         sr_ciphertext_hex = vc_hex_encode (crypto v) (cb_ciphertext bundle),
         sr_nonce_hex = vc_hex_encode (crypto v) (cb_nonce bundle),
         sr_wrapped_dek_hex = encode_wrapped (sv_codec v) wrapped, sr_aad = aad,
         sr_fingerprint_hex = keyed_fingerprint (crypto v) (pk_fingerprint keys) (ri_bytes i), sr_shredded = False\<rparr>) (\<lambda>_.
     vbind (case previous of Some old \<Rightarrow> save_record v (old\<lparr>sr_state := Revoked\<rparr>) | None \<Rightarrow> vok ()) (\<lambda>_.
     vbind (stage_binding v (ri_name i) (ri_binding i) revision) (\<lambda>_.
       vok revision))))))))))))"

definition decrypt_record :: "secret_service \<Rightarrow> secret_revision \<Rightarrow> string core" where
  "decrypt_record v r =
     vbind (cached_keys v) (\<lambda>keys. vlift (
       and_then (map_err CoreCrypto (decode_wrapped_json (sv_codec v) (sr_wrapped_dek_hex r))) (\<lambda>wrapped.
       and_then (map_err CoreCrypto (unwrap_dek (crypto v) (pk_project keys) wrapped)) (\<lambda>dek.
       and_then (map_err CoreCrypto (decode_nonce (crypto v) (sr_nonce_hex r))) (\<lambda>nonce.
       and_then (map_err CoreCrypto (decode_hex (crypto v) (sr_ciphertext_hex r))) (\<lambda>ciphertext.
       and_then (map_err CoreJson (sc_aad (sv_codec v) (sr_aad r))) (\<lambda>aad_bytes.
       and_then (map_err CoreCrypto (decrypt_with_dek (crypto v) dek \<lparr>cb_nonce = nonce, cb_ciphertext = ciphertext\<rparr> aad_bytes)) (\<lambda>plaintext.
         if verify_fingerprint (crypto v) (pk_fingerprint keys) plaintext (sr_fingerprint_hex r) then Ok plaintext
         else Err (CoreCrypto DecryptionFailed)))))))))"

section \<open>The service\<close>

definition set_secret ::
  "secret_service \<Rightarrow> string \<Rightarrow> string \<Rightarrow> variable_kind \<Rightarrow> string \<Rightarrow> secret_binding option \<Rightarrow> secret_revision_id core" where
  "set_secret v name plaintext kind env_bare brokered =
     vbind (vlift (parse_secret_name name)) (\<lambda>parsed.
     vbind (vlift (environment_id_of env_bare)) (\<lambda>env.
     vbind (vlift (validate_binding kind brokered name)) (\<lambda>binding.
     vbind (vlift (plaintext_bytes plaintext)) (\<lambda>bytes.
     vbind (latest_record v parsed env) (\<lambda>latest.
     vbind (case latest of
              Some (i, r) \<Rightarrow> if sr_state r \<noteq> Destroyed then vok i else new_secret_id v
            | None \<Rightarrow> new_secret_id v) (\<lambda>secret.
       write_revision v \<lparr>ri_name = parsed, ri_secret = secret, ri_env = env, ri_kind = kind, ri_binding = binding,
                         ri_bytes = bytes\<rparr> None))))))"

definition rotate_secret :: "secret_service \<Rightarrow> string \<Rightarrow> string \<Rightarrow> string \<Rightarrow> secret_revision_id core" where
  "rotate_secret v name plaintext env_bare =
     vbind (vlift (parse_secret_name name)) (\<lambda>parsed.
     vbind (vlift (environment_id_of env_bare)) (\<lambda>env.
     vbind (vlift (plaintext_bytes plaintext)) (\<lambda>bytes.
     vbind (latest_record v parsed env) (\<lambda>latest.
       case latest of
         None \<Rightarrow> verr (SecretNotFound name)
       | Some (secret, r) \<Rightarrow>
           if sr_state r = Destroyed then verr (SecretDestroyed name)
           else write_revision v \<lparr>ri_name = parsed, ri_secret = secret, ri_env = env, ri_kind = sr_kind r,
                  ri_binding = sr_brokered r, ri_bytes = bytes\<rparr> (Some r)))))"

definition destroy_secret :: "secret_service \<Rightarrow> string \<Rightarrow> string \<Rightarrow> unit core" where
  "destroy_secret v name env_bare =
     vbind (vlift (parse_secret_name name)) (\<lambda>parsed.
     vbind (vlift (environment_id_of env_bare)) (\<lambda>env.
     vbind (latest_record v parsed env) (\<lambda>latest.
       case latest of
         None \<Rightarrow> verr (SecretNotFound name)
       | Some (_, r) \<Rightarrow>
           if sr_state r = Destroyed then vok ()
           else save_record v (r\<lparr>sr_state := Destroyed, sr_wrapped_dek_hex := [], sr_shredded := True\<rparr>))))"

definition secret_metadata :: "secret_service \<Rightarrow> string \<Rightarrow> string \<Rightarrow> secret_metadata_view core" where
  "secret_metadata v name env_bare =
     vbind (vlift (parse_secret_name name)) (\<lambda>parsed.
     vbind (vlift (environment_id_of env_bare)) (\<lambda>env.
     vbind (records_for v parsed env) (\<lambda>records.
     vbind (vlift (ok_or (SecretNotFound name) (pick_latest records))) (\<lambda>r.
       vok \<lparr>sm_secret = sr_secret r, sm_name = sr_name r, sm_environment = sr_environment r, sm_current = sr_id r,
            sm_state = sr_state r, sm_kind = sr_kind r, sm_brokered = sr_brokered r, sm_fingerprint_hex = sr_fingerprint_hex r,
            sm_created_at = sr_created_at r,
            sm_history = map (\<lambda>x. \<lparr>si_id = sr_id x, si_state = sr_state x, si_created_at = sr_created_at x\<rparr>)
                           (filter (\<lambda>x. sr_secret x = sr_secret r) records)\<rparr>))))"

definition reveal_secret :: "secret_service \<Rightarrow> string \<Rightarrow> string \<Rightarrow> string core" where
  "reveal_secret v name env_bare =
     vbind (vlift (parse_secret_name name)) (\<lambda>parsed.
     vbind (vlift (environment_id_of env_bare)) (\<lambda>env.
     vbind (latest_record v parsed env) (\<lambda>latest.
       case latest of
         None \<Rightarrow> verr (SecretNotFound name)
       | Some (_, r) \<Rightarrow> if sr_state r = Destroyed then verr (SecretDestroyed name) else decrypt_record v r)))"

definition resolve_revision :: "secret_service \<Rightarrow> variable_name \<Rightarrow> secret_revision_id \<Rightarrow> resolved_revision core" where
  "resolve_revision v name revision =
     vbind (scan_records v None) (\<lambda>records.
     vbind (vlift (ok_or (MissingRevision name revision) (find (\<lambda>r. sr_id r = revision) records))) (\<lambda>r.
       if sr_name r \<noteq> name then verr (SecretNotFound name)
       else if sr_kind r = Brokered
       then verr (InconsistentBinding (''brokered credential ''
              @ backquoted (case sr_brokered r of Some b \<Rightarrow> sb_credential b | None \<Rightarrow> sr_name r)
              @ '' values are never revealed outside the broker''))
       else if sr_state r = Destroyed then vok DestroyedRevision
       else vbind (decrypt_record v r) (\<lambda>plaintext. vok (Plain plaintext))))"

definition reveal_revision :: "secret_service \<Rightarrow> variable_name \<Rightarrow> secret_revision_id \<Rightarrow> string core" where
  "reveal_revision v name revision =
     vbind (resolve_revision v name revision) (\<lambda>resolved.
       case resolved of Plain plaintext \<Rightarrow> vok plaintext | DestroyedRevision \<Rightarrow> verr (SecretDestroyed name))"

definition list_secrets :: "secret_service \<Rightarrow> string \<Rightarrow> secret_list_entry list core" where
  "list_secrets v env_bare =
     vbind (vlift (environment_id_of env_bare)) (\<lambda>env.
     vbind (scan_records v (Some env)) (\<lambda>records.
       vok (map (\<lambda>(_, r). \<lparr>sl_name = sr_name r, sl_kind = sr_kind r, sl_state = sr_state r\<rparr>)
             (fold (\<lambda>r latest. bt_insert (sr_name r) r latest) records bt_empty))))"

definition revision_state :: "secret_service \<Rightarrow> secret_revision_id \<Rightarrow> secret_revision_state option core" where
  "revision_state v revision =
     vbind (scan_records v None) (\<lambda>records. vok (map_option sr_state (find (\<lambda>r. sr_id r = revision) records)))"

end
