(* ===== verification/Secret_History.thy ===== *)
theory Secret_History
  imports Secret_Store
begin

text \<open>
  What the secret store does to the files of the vault, whatever calls of the file system fail: the key files are
  written once, and a revision record only moves forward in its life cycle.  The locale \<open>vault_frame\<close> collects the
  kinds of writes; its interpretations are these two relations.
\<close>

section \<open>Reference definitions\<close>

definition valid_binding :: "secret_binding \<Rightarrow> bool" where
  "valid_binding b \<longleftrightarrow> is_ok (parse_plain_id 128 (sb_credential b))
     \<and> (case sb_provider b of None \<Rightarrow> True | Some p \<Rightarrow> is_ok (parse_provider_name p))"

definition valid_aad :: "secret_revision_aad \<Rightarrow> bool" where
  "valid_aad a \<longleftrightarrow> is_ok (parse_prefixed_id ''proj_'' (aad_project a)) \<and> is_ok (parse_prefixed_id ''sec_'' (aad_secret a))
     \<and> is_ok (parse_prefixed_id ''sec_rev_'' (aad_revision a))"

definition valid_record :: "secret_revision \<Rightarrow> bool" where
  "valid_record r \<longleftrightarrow>
     is_ok (parse_prefixed_id ''sec_rev_'' (sr_id r)) \<and> is_ok (parse_prefixed_id ''sec_'' (sr_secret r))
     \<and> is_ok (parse_variable_name (sr_name r)) \<and> is_ok (parse_prefixed_id ''env_'' (sr_environment r))
     \<and> (case sr_brokered r of None \<Rightarrow> True | Some b \<Rightarrow> valid_binding b)
     \<and> is_utf8 (sr_ciphertext_hex r) \<and> is_utf8 (sr_nonce_hex r) \<and> is_utf8 (sr_wrapped_dek_hex r)
     \<and> is_utf8 (sr_fingerprint_hex r) \<and> valid_aad (sr_aad r)"

text \<open>What the store relies on of \<open>serde_json\<close>, beside the laws of the algorithms.\<close>

definition secret_codec_ok :: "secret_codec \<Rightarrow> bool" where
  "secret_codec_ok c \<longleftrightarrow>
     vault_crypto_ok (sc_crypto c)
     \<and> (\<forall>r. valid_record r \<longrightarrow> (\<exists>t. sc_enc_record c r = Ok t \<and> is_utf8 t \<and> sc_dec_record c t = Ok r))
     \<and> (\<forall>t r. sc_dec_record c t = Ok r \<longrightarrow> valid_record r)
     \<and> (\<forall>a. valid_aad a \<longrightarrow> (\<exists>t. sc_aad c a = Ok t \<and> length t < 2 ^ 36))
     \<and> (\<forall>k. \<exists>t. sc_enc_keys c k = Ok t \<and> is_utf8 t \<and> sc_dec_keys c t = Ok k)
     \<and> (\<forall>k. \<exists>t. sc_enc_wrapped c k = Ok t \<and> sc_dec_wrapped c t = Some k)
     \<and> sc_dec_wrapped c [] = None"

definition record_at :: "secret_codec \<Rightarrow> fs \<Rightarrow> path \<Rightarrow> secret_revision option" where
  "record_at c s p =
     (case content s p of
        Some t \<Rightarrow> if is_utf8 t then (case sc_dec_record c t of Ok r \<Rightarrow> Some r | Err _ \<Rightarrow> None) else None
      | None \<Rightarrow> None)"

definition is_record_file :: "path \<Rightarrow> bool" where
  "is_record_file p \<longleftrightarrow> (\<exists>d n. p = SECRETS_DIR @ [d, n] \<and> name_extension n = Some ''json'')"

text \<open>Every record file decodes to a record of its own place, and no two of them have the same revision id.\<close>

definition secrets_ok :: "secret_codec \<Rightarrow> fs \<Rightarrow> bool" where
  "secrets_ok c s \<longleftrightarrow>
     (\<forall>p. is_record_file p \<and> content s p \<noteq> None \<longrightarrow> (\<exists>r. record_at c s p = Some r \<and> record_path r = p))
     \<and> (\<forall>d d' n. name_extension n = Some ''json'' \<and> content s (SECRETS_DIR @ [d, n]) \<noteq> None
          \<and> content s (SECRETS_DIR @ [d', n]) \<noteq> None \<longrightarrow> d = d')"

fun state_rank :: "secret_revision_state \<Rightarrow> nat" where
  "state_rank Active = 0"
| "state_rank Revoked = 1"
| "state_rank Destroyed = 2"

text \<open>A later form of the same revision: only the life cycle moves on, and destroying it drops the wrapped key.\<close>

definition evolves :: "secret_revision \<Rightarrow> secret_revision \<Rightarrow> bool" where
  "evolves r r' \<longleftrightarrow>
     state_rank (sr_state r) \<le> state_rank (sr_state r')
     \<and> r' = r\<lparr>sr_state := sr_state r', sr_wrapped_dek_hex := sr_wrapped_dek_hex r', sr_shredded := sr_shredded r'\<rparr>
     \<and> (if sr_state r' = Destroyed \<and> sr_state r \<noteq> Destroyed then sr_wrapped_dek_hex r' = [] \<and> sr_shredded r'
        else sr_wrapped_dek_hex r' = sr_wrapped_dek_hex r \<and> sr_shredded r' = sr_shredded r)"

definition keeps_history :: "secret_codec \<Rightarrow> fs \<Rightarrow> fs \<Rightarrow> bool" where
  "keeps_history c s t \<longleftrightarrow>
     (secrets_ok c s \<longrightarrow> secrets_ok c t
        \<and> (\<forall>p r. is_record_file p \<and> record_at c s p = Some r \<longrightarrow> (\<exists>r'. record_at c t p = Some r' \<and> evolves r r')))"

definition same_secrets :: "fs \<Rightarrow> fs \<Rightarrow> bool" where
  "same_secrets s t \<longleftrightarrow> (\<forall>d n. content t (SECRETS_DIR @ [d, n]) = content s (SECRETS_DIR @ [d, n]))"

section \<open>Lemmas: life cycle\<close>

lemma evolves_refl [simp]: "evolves r r"
  by (simp add: evolves_def)

lemma destroyed_last: "state_rank Destroyed \<le> state_rank x \<Longrightarrow> x = Destroyed"
  by (cases x) auto

lemma evolves_trans:
  assumes "evolves a b" "evolves b d"
  shows "evolves a d"
proof -
  have eq: "d = a\<lparr>sr_state := sr_state d, sr_wrapped_dek_hex := sr_wrapped_dek_hex d, sr_shredded := sr_shredded d\<rparr>"
  proof -
    have "d = b\<lparr>sr_state := sr_state d, sr_wrapped_dek_hex := sr_wrapped_dek_hex d, sr_shredded := sr_shredded d\<rparr>"
      and "b = a\<lparr>sr_state := sr_state b, sr_wrapped_dek_hex := sr_wrapped_dek_hex b, sr_shredded := sr_shredded b\<rparr>"
      using assms by (simp_all add: evolves_def)
    then show ?thesis by (cases a; cases b; cases d) simp
  qed
  have le: "state_rank (sr_state a) \<le> state_rank (sr_state b)" "state_rank (sr_state b) \<le> state_rank (sr_state d)"
    using assms by (simp_all add: evolves_def)
  have ab: "if sr_state b = Destroyed \<and> sr_state a \<noteq> Destroyed then sr_wrapped_dek_hex b = [] \<and> sr_shredded b
        else sr_wrapped_dek_hex b = sr_wrapped_dek_hex a \<and> sr_shredded b = sr_shredded a"
    and bd: "if sr_state d = Destroyed \<and> sr_state b \<noteq> Destroyed then sr_wrapped_dek_hex d = [] \<and> sr_shredded d
        else sr_wrapped_dek_hex d = sr_wrapped_dek_hex b \<and> sr_shredded d = sr_shredded b"
    using assms unfolding evolves_def by blast+
  have "sr_state b = Destroyed \<Longrightarrow> sr_state d = Destroyed" "sr_state a = Destroyed \<Longrightarrow> sr_state b = Destroyed"
    using le destroyed_last by simp_all
  then have "if sr_state d = Destroyed \<and> sr_state a \<noteq> Destroyed then sr_wrapped_dek_hex d = [] \<and> sr_shredded d
        else sr_wrapped_dek_hex d = sr_wrapped_dek_hex a \<and> sr_shredded d = sr_shredded a"
    using ab bd by (cases "sr_state d = Destroyed"; cases "sr_state b = Destroyed"; cases "sr_state a = Destroyed") simp_all
  then show ?thesis unfolding evolves_def using le eq by (intro conjI) simp_all
qed

lemma evolves_steps:
  "sr_state r \<noteq> Destroyed \<Longrightarrow> evolves r (r\<lparr>sr_state := Revoked\<rparr>)"
  "sr_state r \<noteq> Destroyed \<Longrightarrow> evolves r (r\<lparr>sr_state := Destroyed, sr_wrapped_dek_hex := [], sr_shredded := True\<rparr>)"
  by (cases "sr_state r"; simp add: evolves_def)+

lemma record_at_content: "content t p = content s p \<Longrightarrow> record_at c t p = record_at c s p"
  by (simp add: record_at_def)

lemma record_file_simps [simp]:
  "\<not> is_record_file [a]" "\<not> is_record_file [a, b]" "\<not> is_record_file []"
  "is_record_file (SECRETS_DIR @ [d, n]) \<longleftrightarrow> name_extension n = Some ''json''"
  by (auto simp: is_record_file_def SECRETS_DIR_def)

interpretation hist: frame_relation "keeps_history c" for c
proof
  show "keeps_history c s t" if "fs_inv s" "same_nodes s t" for s t
  proof -
    have "content t = content s" using that(2) by simp
    then show ?thesis by (auto simp: keeps_history_def secrets_ok_def record_at_def intro: exI [of _ r for r])
  qed
  show "keeps_history c s u" if "keeps_history c s t" "keeps_history c t u" for s t u
    using that unfolding keeps_history_def using evolves_trans by meson
qed

interpretation secs: frame_relation same_secrets
  by unfold_locales (auto simp: same_secrets_def)

lemma touched_elsewhere: "touches X s t \<Longrightarrow> fs_inv s \<Longrightarrow> (\<And>p. is_record_file p \<Longrightarrow> \<not> X p) \<Longrightarrow> keeps_history c s t"
proof -
  assume "touches X s t" "fs_inv s" and X: "\<And>p. is_record_file p \<Longrightarrow> \<not> X p"
  then have same: "content t p = content s p" if "is_record_file p" for p using that by (simp add: touches_def)
  then have "record_at c t p = record_at c s p" if "is_record_file p" for p using that record_at_content by blast
  moreover have "content t (SECRETS_DIR @ [d, n]) = content s (SECRETS_DIR @ [d, n])" if "name_extension n = Some ''json''" for d n
    using that same by simp
  ultimately show ?thesis using same unfolding keeps_history_def secrets_ok_def by (auto; blast)
qed

section \<open>Lemmas: where a write goes\<close>

lemma dec_of_nat_digits: "set (dec_of_nat n) \<subseteq> set ''0123456789''"
proof (induction n rule: dec_of_nat.induct)
  case (1 n)
  have digit: "digit_char k \<in> set ''0123456789''" if "k < 10" for k
  proof -
    have "k \<in> set [0..<10]" using that by simp
    moreover have "list_all (\<lambda>k. digit_char k \<in> set ''0123456789'') [0..<10]" by code_simp
    ultimately show ?thesis by (simp only: list_all_iff)
  qed
  show ?case
    using 1 digit [of "n mod 10"] digit [of n] by (subst dec_of_nat.simps) (simp del: digit_char.simps)
qed

lemma temp_extension:
  assumes "prefix \<in> {''.tmp-'', ''.tmp-index-'', ''.tmp-new-''}"
  shows "name_extension (temp_name prefix n k) = None"
proof -
  have "CHR ''.'' \<notin> set (dec_of_nat m)" for m
    using dec_of_nat_digits [of m] by auto
  then show ?thesis using assms by (auto simp: name_extension_def temp_name_def)
qed

lemma only_stamped:
  assumes "\<And>pid n. only X (f pid n)"
  shows "only X (\<lambda>s. case timestamp s of (n, s') \<Rightarrow> f (process_id s') n s')"
proof (rule onlyI)
  fix s r s'
  assume run: "(case timestamp s of (n, s') \<Rightarrow> f (process_id s') n s') = (r, s')"
  obtain n t where t: "timestamp s = (n, t)" by force
  then have "f (process_id t) n t = (r, s')" using run by simp
  then show "touches X s s'"
    using only_run [OF assms] touches_same [OF timestamp_nodes [OF t]] touches_trans by blast
qed

lemma only_calls [only_intros]:
  "X p \<Longrightarrow> only X (write_all p b)" "only X (sync_all p)" "X p \<Longrightarrow> X q \<Longrightarrow> only X (rename p q)" "X q \<Longrightarrow> only X (hard_link p q)"
proof -
  show "X p \<Longrightarrow> only X (write_all p b)"
    by (rule onlyI) (drule write_all_touches, auto elim: touches_mono)
  show "only X (sync_all p)" by (rule onlyI) (drule sync_all_same, erule touches_same)
  show "only X (rename p q)" if "X p" "X q"
  proof (rule onlyI)
    fix s r s'
    assume run: "rename p q s = (r, s')"
    have "fs_inv s' \<and> (\<forall>x. \<not> X x \<longrightarrow> content s' x = content s x)" if inv: "fs_inv s"
      using run inv
    proof (cases rule: rename_cases)
      case (moved b)
      have "x \<noteq> p" "x \<noteq> q" if "\<not> X x" for x using that \<open>X p\<close> \<open>X q\<close> by auto
      then show ?thesis using moved by simp
    qed (use inv in auto)
    then show "touches X s s'" by (simp add: touches_def)
  qed
  show "only X (hard_link p q)" if "X q"
  proof (rule onlyI)
    fix s r s'
    assume "hard_link p q s = (r, s')"
    then show "touches X s s'" unfolding hard_link_def
    proof (cases rule: perform_cases)
      case (run t x)
      have "s' = t \<or> (\<exists>b. s' = set_file q b t)" using run(2) by (auto split: option.splits if_splits)
      moreover have "touches X t (set_file q b t)" for b
        using \<open>X q\<close> by (auto simp: touches_def set_file_content set_file_inv)
      ultimately show ?thesis using touches_same [OF run(1)] touches_trans by blast
    qed (simp add: touches_same)
  qed
qed

text \<open>A published file and its temporary file, which has no extension.\<close>

definition beside :: "path \<Rightarrow> path \<Rightarrow> bool" where
  "beside p q \<longleftrightarrow> q = p \<or> q \<noteq> [] \<and> butlast q = butlast p \<and> name_extension (last q) = None"

lemma beside_temp: "prefix \<in> {''.tmp-'', ''.tmp-index-'', ''.tmp-new-''} \<Longrightarrow> beside p (butlast p @ [temp_name prefix n k])"
  by (simp add: beside_def temp_extension)

lemma publish_beside: "prefix \<in> {''.tmp-'', ''.tmp-index-'', ''.tmp-new-''} \<Longrightarrow> only (beside p) (publish prefix p b)"
  unfolding publish_def Let_def
  by (intro only_bind only_create only_stamped only_calls beside_temp) (simp_all add: beside_def)

lemma save_index_beside: "only (beside INDEX_FILE) (save_index c ix)"
proof -
  have t: "beside INDEX_FILE [temp_name ''.tmp-index-'' n k]" for n k
    using beside_temp [of "''.tmp-index-''" INDEX_FILE] by (simp add: INDEX_FILE_def)
  show ?thesis
    by (cases "enc_index c ix")
       (auto simp: save_index_def intro!: publish_beside only_bind only_create only_stamped only_basic t)
qed

lemma add_entry_beside: "only (beside INDEX_FILE) (add_entry c n e)"
proof -
  have "only (beside INDEX_FILE) (load_index c)" by (rule only_mono [OF reads_head(2)]) simp
  then show ?thesis unfolding add_entry_def stage_change_def by (intro only_bind save_index_beside)
qed

lemma no_clobber_dir: "only (\<lambda>q. q \<noteq> [] \<and> butlast q = [''keys'']) (publish_file_no_clobber KEYS_PATH b)"
proof -
  let ?X = "\<lambda>q. q \<noteq> [] \<and> butlast q = [''keys'']"
  have pub: "only ?X (publish ''.tmp-'' (butlast KEYS_PATH @ [x]) bytes)" for x bytes
    by (rule only_mono [OF publish_beside]) (auto simp: beside_def KEYS_PATH_def)
  have tail: "only ?X (\<lambda>t. case hard_link temp KEYS_PATH t of (linked, t') \<Rightarrow> (linked, snd (remove_file temp t')))"
    if "?X temp" for temp
  proof (rule onlyI)
    fix s r s'
    assume run: "(case hard_link temp KEYS_PATH s of (linked, t') \<Rightarrow> (linked, snd (remove_file temp t'))) = (r, s')"
    obtain x t where t: "hard_link temp KEYS_PATH s = (x, t)" by force
    obtain y u where u: "remove_file temp t = (y, u)" by force
    have "touches ?X s t" by (rule only_run [OF only_calls(4) t]) (simp add: KEYS_PATH_def)
    moreover have "touches ?X t u" by (rule only_run [OF only_remove u]) (rule that)
    ultimately show "touches ?X s s'" using run t u touches_trans by auto
  qed
  show ?thesis
    unfolding publish_file_no_clobber_def write_atomic_def Let_def
    by (intro only_bind only_create only_stamped tail pub) (simp add: KEYS_PATH_def)
qed

section \<open>Lemmas: programs that only read\<close>

definition vreads :: "('e, 'a) vio \<Rightarrow> bool" where
  "vreads m \<longleftrightarrow> (\<forall>w. same_nodes (vw_fs w) (vw_fs (snd (m w))))"

lemma vreadsI: "(\<And>w r w'. m w = (r, w') \<Longrightarrow> same_nodes (vw_fs w) (vw_fs w')) \<Longrightarrow> vreads m"
  unfolding vreads_def by (metis prod.collapse)

lemma vreadsD: "vreads m \<Longrightarrow> m w = (r, w') \<Longrightarrow> same_nodes (vw_fs w) (vw_fs w')"
  unfolding vreads_def by (metis snd_conv)

lemma vreads_bind: "vreads m \<Longrightarrow> (\<And>a. vreads (f a)) \<Longrightarrow> vreads (vbind m f)"
  unfolding vreads_def vbind_def by (auto split: prod.splits result.splits) (metis snd_conv same_nodes_trans)+

lemma vreads_pure: "vreads (vok a)" "vreads (verr e)" "vreads (vlift r)" "vreads (fill_bytes n)" "vreads clock_nanos"
  by (simp_all add: vreads_def vok_def verr_def vlift_def fill_bytes_def clock_nanos_def)

lemma vreads_std: "vreads (std_io (read_to_string p))" "vreads (std_io (read_dir p))"
proof -
  show "vreads (std_io (read_to_string p))"
    by (rule vreadsI) (auto simp: std_io_eq dest: read_to_string_nodes)
  have "same_nodes s s'" if "read_dir p s = (r, s')" for s r s'
    using that unfolding read_dir_def by (cases rule: perform_cases) (auto split: if_splits)
  then show "vreads (std_io (read_dir p))" by (intro vreadsI) (auto simp: std_io_eq)
qed

lemma vreads_keys: "vreads (read_project_keys v root)"
proof (rule vreadsI)
  fix w r w'
  assume run: "read_project_keys v root w = (r, w')"
  obtain x t where x: "std_io (read_to_string KEYS_PATH) w = (x, t)" by force
  then have "w' = t" using run by (cases x) (auto simp: read_project_keys_def split: if_splits)
  then show "same_nodes (vw_fs w) (vw_fs w')" using vreadsD [OF vreads_std(1) x] by simp
qed

lemma fold_vio_invariant:
  assumes "fold_vio f xs b w = (r, w')" "P b w"
    and "\<And>x b w b' w'. x \<in> set xs \<Longrightarrow> f x b w = (Ok b', w') \<Longrightarrow> P b w \<Longrightarrow> P b' w'"
    and "\<And>x b w e w'. x \<in> set xs \<Longrightarrow> f x b w = (Err e, w') \<Longrightarrow> P b w \<Longrightarrow> Q w'"
  shows "(\<forall>b'. r = Ok b' \<longrightarrow> P b' w') \<and> (\<forall>e. r = Err e \<longrightarrow> Q w')"
  using assms
proof (induction xs arbitrary: b w)
  case (Cons x xs)
  obtain y t where y: "f x b w = (y, t)" by force
  show ?case
  proof (cases y)
    case (Ok b1)
    then have "fold_vio f xs b1 t = (r, w')" using Cons.prems(1) y by (simp add: vbind_run)
    moreover have "P b1 t" using Cons.prems(2,3) y Ok by (metis list.set_intros(1))
    ultimately show ?thesis using Cons.IH Cons.prems(3,4) by (metis list.set_intros(2))
  next
    case (Err e)
    then have "r = Err e" "w' = t" using Cons.prems(1) y by (auto simp: vbind_run)
    then show ?thesis using Cons.prems(2,4) y Err by (metis list.set_intros(1) result.distinct(1))
  qed
qed simp

text \<open>A scanned record is the content of a record file.\<close>

definition scanned :: "secret_codec \<Rightarrow> environment_id option \<Rightarrow> fs \<Rightarrow> secret_revision list \<Rightarrow> bool" where
  "scanned c env s records \<longleftrightarrow>
     (\<forall>r \<in> set records. (env = None \<or> env = Some (sr_environment r)) \<and> (\<exists>p. is_record_file p \<and> record_at c s p = Some r))"

lemma scan_file_sound:
  assumes "scan_file v env (SECRETS_DIR @ [d]) n records w = (r, w')"
    and "same_nodes s (vw_fs w)" "scanned (sv_codec v) env s records"
  shows "same_nodes s (vw_fs w') \<and> (\<forall>rs. r = Ok rs \<longrightarrow> scanned (sv_codec v) env s rs)"
proof (cases "name_extension n = Some ''json''")
  case True
  obtain x t where x: "std_io (read_to_string (SECRETS_DIR @ [d, n])) w = (x, t)" by force
  then have t: "same_nodes s (vw_fs t)" using vreadsD [OF vreads_std(1) x] assms(2) same_nodes_trans by blast
  have w': "w' = t" using assms(1) x True
    by (cases x) (auto simp: scan_file_def secret_io_def vbind_def vmap_err_def vlift_def split: result.splits prod.splits)
  have "scanned (sv_codec v) env s rs" if ok: "r = Ok rs" for rs
  proof -
    obtain body rec where body: "x = Ok body" "sc_dec_record (sv_codec v) body = Ok rec"
      and rs: "rs = (if env = None \<or> env = Some (sr_environment rec) then records @ [rec] else records)"
      using assms(1) x True unfolding ok
      by (auto simp: scan_file_def secret_io_def vbind_Ok vmap_err_run map_err_Ok_iff eq_commute [of "Ok _" "map_err _ _"])
    have "content (vw_fs w) (SECRETS_DIR @ [d, n]) = Some body \<and> is_utf8 body"
      using x body(1) by (auto simp: std_io_eq map_err_Ok_iff eq_commute [of "Ok _" "map_err _ _"] dest: read_to_string_nodes)
    then have "record_at (sv_codec v) s (SECRETS_DIR @ [d, n]) = Some rec"
      using body(2) assms(2) by (simp add: record_at_def)
    moreover have "is_record_file (SECRETS_DIR @ [d, n])" using True by simp
    ultimately have "\<exists>p. is_record_file p \<and> record_at (sv_codec v) s p = Some rec" by blast
    then show ?thesis using rs assms(3) by (auto simp: scanned_def)
  qed
  then show ?thesis using t w' by blast
qed (use assms in \<open>auto simp: scan_file_def\<close>)

lemma scan_dir_sound:
  assumes "scan_secret_dir v env d records w = (r, w')"
    and "same_nodes s (vw_fs w)" "scanned (sv_codec v) env s records"
  shows "same_nodes s (vw_fs w') \<and> (\<forall>rs. r = Ok rs \<longrightarrow> scanned (sv_codec v) env s rs)"
proof -
  obtain x t where x: "std_io (read_dir (SECRETS_DIR @ [d])) w = (x, t)" by force
  then have t: "same_nodes s (vw_fs t)" using vreadsD [OF vreads_std(2) x] assms(2) same_nodes_trans by blast
  show ?thesis
  proof (cases x)
    case (Ok files)
    then have run: "fold_vio (scan_file v env (SECRETS_DIR @ [d])) files records t = (r, w')"
      using assms(1) x by (simp add: scan_secret_dir_def)
    show ?thesis
      using fold_vio_invariant [OF run, of "\<lambda>rs w. same_nodes s (vw_fs w) \<and> scanned (sv_codec v) env s rs" "\<lambda>w. same_nodes s (vw_fs w)"]
        t assms(3) scan_file_sound by (cases r) blast+
  qed (use assms x t in \<open>auto simp: scan_secret_dir_def split: if_splits\<close>)
qed

lemma scan_records_sound:
  assumes "scan_records v env w = (r, w')"
  shows "same_nodes (vw_fs w) (vw_fs w') \<and> (\<forall>rs. r = Ok rs \<longrightarrow> scanned (sv_codec v) env (vw_fs w) rs)"
proof -
  obtain x t where x: "std_io (read_dir SECRETS_DIR) w = (x, t)" by force
  then have t: "same_nodes (vw_fs w) (vw_fs t)" using vreadsD [OF vreads_std(2) x] by blast
  show ?thesis
  proof (cases x)
    case (Ok dirs)
    obtain y u where y: "fold_vio (scan_secret_dir v env) dirs [] t = (y, u)" by force
    have nil: "scanned (sv_codec v) env (vw_fs w) []" by (simp add: scanned_def)
    have "same_nodes (vw_fs w) (vw_fs u) \<and> (\<forall>rs. y = Ok rs \<longrightarrow> scanned (sv_codec v) env (vw_fs w) rs)"
      using fold_vio_invariant [OF y, of "\<lambda>rs w'. same_nodes (vw_fs w) (vw_fs w') \<and> scanned (sv_codec v) env (vw_fs w) rs"
          "\<lambda>w'. same_nodes (vw_fs w) (vw_fs w')"] t nil scan_dir_sound by (cases y) blast+
    then show ?thesis
      using assms x Ok y by (cases y) (auto simp: scan_records_def vbind_run scanned_def)
  qed (use assms x t in \<open>auto simp: scan_records_def scanned_def split: if_splits\<close>)
qed

lemma pick_latest_in: "pick_latest rs = Some r \<Longrightarrow> r \<in> set rs"
  by (induction rs arbitrary: r) (auto split: option.splits if_splits)

lemma latest_sound:
  assumes "latest_record v name env w = (r, w')"
  shows "same_nodes (vw_fs w) (vw_fs w')"
    and "r = Ok (Some (i, rec)) \<Longrightarrow> i = sr_secret rec \<and> sr_name rec = name \<and> sr_environment rec = env
      \<and> (\<exists>p. is_record_file p \<and> record_at (sv_codec v) (vw_fs w) p = Some rec)"
proof -
  obtain x t where x: "scan_records v (Some env) w = (x, t)" by force
  note sound = scan_records_sound [OF x]
  have run: "w' = t \<and> (\<forall>rs. x = Ok rs \<longrightarrow> r = Ok (map_option (\<lambda>r. (sr_secret r, r)) (pick_latest (filter (\<lambda>r. sr_name r = name) rs))))
      \<and> (is_err x \<longrightarrow> is_err r)"
    using assms x by (cases x) (auto simp: latest_record_def records_for_def vbind_def vok_def)
  then show "same_nodes (vw_fs w) (vw_fs w')" using sound by simp
  assume r: "r = Ok (Some (i, rec))"
  then obtain rs where rs: "x = Ok rs" using run by (cases x) auto
  then have "map_option (\<lambda>r. (sr_secret r, r)) (pick_latest (filter (\<lambda>r. sr_name r = name) rs)) = Some (i, rec)" using run r by auto
  then have "pick_latest (filter (\<lambda>r. sr_name r = name) rs) = Some rec" "i = sr_secret rec" by (auto simp: map_option_eq_Some)
  moreover have "scanned (sv_codec v) (Some env) (vw_fs w) rs" using sound rs by simp
  ultimately show "i = sr_secret rec \<and> sr_name rec = name \<and> sr_environment rec = env
      \<and> (\<exists>p. is_record_file p \<and> record_at (sv_codec v) (vw_fs w) p = Some rec)"
    using pick_latest_in [of "filter (\<lambda>r. sr_name r = name) rs" rec] by (auto simp: scanned_def)
qed

section \<open>Lemmas: draws\<close>

text \<open>A program draws at most \<open>k\<close> bytes.\<close>

definition draws :: "nat \<Rightarrow> ('e, 'a) vio \<Rightarrow> bool" where
  "draws k m \<longleftrightarrow> (\<forall>w. vw_rng (snd (m w)) = vw_rng w \<and> vw_drawn w \<le> vw_drawn (snd (m w)) \<and> vw_drawn (snd (m w)) \<le> vw_drawn w + k)"

lemma drawsD:
  "draws k m \<Longrightarrow> m w = (r, w') \<Longrightarrow> vw_rng w' = vw_rng w \<and> vw_drawn w \<le> vw_drawn w' \<and> vw_drawn w' \<le> vw_drawn w + k"
  unfolding draws_def by (metis snd_conv)

lemma draws_mono: "draws k m \<Longrightarrow> k \<le> l \<Longrightarrow> draws l m"
  unfolding draws_def by (meson add_left_mono le_trans)

lemma draws_bind:
  assumes "draws k m" "\<And>a. draws l (f a)" "k + l \<le> n"
  shows "draws n (vbind m f)"
  unfolding draws_def
proof
  fix w
  obtain x t where x: "m w = (x, t)" by force
  note m = drawsD [OF assms(1) x]
  show "vw_rng (snd (vbind m f w)) = vw_rng w \<and> vw_drawn w \<le> vw_drawn (snd (vbind m f w)) \<and> vw_drawn (snd (vbind m f w)) \<le> vw_drawn w + n"
  proof (cases x)
    case (Ok a)
    obtain y u where y: "f a t = (y, u)" by force
    then have "snd (vbind m f w) = u" using x Ok by (simp add: vbind_run)
    then show ?thesis using m drawsD [OF assms(2) y] assms(3) by simp
  qed (use x m assms(3) in \<open>simp add: vbind_run\<close>)
qed

lemma draws_pure:
  "draws n (vok a)" "draws n (vlift r)" "draws n (fill_bytes n)" "draws k m \<Longrightarrow> draws k (vmap_err g m)" "draws n (std_io n')"
  by (simp_all add: draws_def vok_def vlift_def fill_bytes_def vmap_err_def std_io_def on_fs_def split_beta)

lemmas draws_bind0 = draws_bind [where k = 0 and l = 0 and n = 0, simplified]

lemma draws_seal: "draws 12 (wrap_project_key c k x)" "draws 12 (wrap_fingerprint_key c k x)"
  unfolding wrap_project_key_def wrap_fingerprint_key_def wrap_child_def aead_encrypt_def
  by (rule draws_bind [where k = 12 and l = 0], rule draws_pure, intro draws_bind0 draws_pure, simp)+

lemma draws_or_else:
  assumes "draws 0 (m :: (string, unit) vio)" "\<And>e. draws 0 (g e)"
  shows "draws 0 (\<lambda>w. case m w of (Ok _, w') \<Rightarrow> (Ok a, w') | (Err e, w') \<Rightarrow> g e w')"
  unfolding draws_def
proof
  fix w
  obtain x t where x: "m w = (x, t)" by force
  let ?f = "\<lambda>w. case m w of (Ok _, w') \<Rightarrow> (Ok a, w') | (Err e, w') \<Rightarrow> g e w'"
  show "vw_rng (snd (?f w)) = vw_rng w \<and> vw_drawn w \<le> vw_drawn (snd (?f w)) \<and> vw_drawn (snd (?f w)) \<le> vw_drawn w + 0"
  proof (cases x)
    case (Err e)
    obtain y u where y: "g e t = (y, u)" by force
    then show ?thesis using x Err drawsD [OF assms(1) x] drawsD [OF assms(2) y] by simp
  qed (use x drawsD [OF assms(1) x] in simp)
qed

lemma draws_file: "draws 0 (file_load c p)" "draws 32 (file_obtain c p)"
proof -
  show load: "draws 0 (file_load c p)"
    unfolding file_load_def by (intro draws_bind0 draws_pure)
  have "draws 0 (\<lambda>w. case std_io m w of (Ok _, w') \<Rightarrow> (Ok bytes, w')
      | (Err e, w') \<Rightarrow> if e = ALREADY_EXISTS then file_load c p w' else (Err (g e), w'))" for m :: "unit io" and bytes g
    using draws_or_else [OF draws_pure(5), where g = "\<lambda>e w'. if e = ALREADY_EXISTS then file_load c p w' else (Err (g e), w')"] load
    by (simp add: draws_def)
  then show "draws 32 (file_obtain c p)"
    unfolding file_obtain_def by (intro draws_bind [where k = 32 and l = 0] draws_pure) simp_all
qed

lemma draws_keys: "draws 0 (read_project_keys v root)"
  unfolding draws_def
proof
  fix w
  obtain x t where x: "std_io (read_to_string KEYS_PATH) w = (x, t)" by force
  have "snd (read_project_keys v root w) = t"
    using x by (cases x) (auto simp: read_project_keys_def vlift_def)
  then show "vw_rng (snd (read_project_keys v root w)) = vw_rng w \<and> vw_drawn w \<le> vw_drawn (snd (read_project_keys v root w))
      \<and> vw_drawn (snd (read_project_keys v root w)) \<le> vw_drawn w + 0"
    using drawsD [OF draws_pure(5) [where n = 0] x] by simp
qed

lemma draws_bundle: "draws 88 (new_key_bundle v root)"
  unfolding new_key_bundle_def generate_key_def
  by (rule draws_bind [where k = 32 and l = 56], rule draws_pure, rule draws_bind [where k = 32 and l = 24], rule draws_pure,
      rule draws_bind [where k = 12 and l = 12], intro draws_pure draws_seal, rule draws_bind [where k = 12 and l = 0],
      intro draws_pure draws_seal, rule draws_pure, simp_all)

lemma draws_load: "draws 120 (load_or_init_keys (new_secret_service c i))"
proof -
  let ?v = "new_secret_service c i"
  have publish: "draws 0 (\<lambda>w. case std_io m w of (Ok _, w') \<Rightarrow> (Ok keys, w')
      | (Err e, w') \<Rightarrow> if e = ALREADY_EXISTS
          then vbind (read_project_keys ?v root) (\<lambda>again. vlift (ok_or err again)) w' else (Err (CoreIo e), w'))"
    for m :: "unit io" and keys root err
  proof -
    have "draws 0 (vbind (read_project_keys ?v root) (\<lambda>again. vlift (ok_or err again)))"
      by (intro draws_bind0 draws_keys draws_pure)
    then have "draws 0 (\<lambda>w'. if e = ALREADY_EXISTS
          then vbind (read_project_keys ?v root) (\<lambda>again. vlift (ok_or err again)) w' else (Err (CoreIo e), w'))" for e
      by (simp add: draws_def)
    then show ?thesis by (rule draws_or_else [OF draws_pure(5)])
  qed
  have init: "draws 88 (vbind (new_key_bundle ?v root) (\<lambda>(keys, stored).
           vbind (vlift (map_err CoreJson (sc_enc_keys (sv_codec ?v) stored))) (\<lambda>bytes w.
             case std_io (publish_file_no_clobber KEYS_PATH bytes) w of
               (Ok _, w') \<Rightarrow> (Ok keys, w')
             | (Err e, w') \<Rightarrow>
                 if e = ALREADY_EXISTS
                 then vbind (read_project_keys ?v root) (\<lambda>again.
                        vlift (ok_or (ProjectKeyError ''key bundle vanished between create and read'') again)) w'
                 else (Err (CoreIo e), w'))))" for root
    by (rule draws_bind [OF draws_bundle, where l = 0]) (auto intro!: draws_bind0 draws_pure publish split: prod.splits)
  have branch: "draws 88 (case present of Some keys \<Rightarrow> vok keys | None \<Rightarrow> f)" if "draws 88 f" for present :: "project_keys option" and f :: "project_keys core"
    using that by (cases present) (auto intro: draws_pure)
  have "draws 32 (vmap_err CoreCrypto (rk_obtain (sv_root ?v)))"
    by (auto simp: new_secret_service_def file_key_store_def intro!: draws_pure draws_file)
  then show ?thesis
    unfolding load_or_init_keys_def
    by (rule draws_bind [where l = 88]) (auto intro!: draws_bind [OF draws_keys, where l = 88] branch init)
qed

lemma draws_cached: "draws 120 (cached_keys (new_secret_service c i))"
proof -
  have "draws 120 (vbind (load_or_init_keys (new_secret_service c i)) (\<lambda>keys w'. (Ok keys, w'\<lparr>vw_cache := f keys\<rparr>)))" for f
    by (rule draws_bind [OF draws_load, where l = 0]) (simp_all add: draws_def)
  moreover have "draws 120 (\<lambda>w. (Ok keys, w))" for keys by (simp add: draws_def)
  ultimately show ?thesis unfolding draws_def cached_keys_def by (auto split: option.splits)
qed

section \<open>Lemmas: the kinds of writes\<close>

locale key_frame = frame_relation +
  assumes keys_write: "fs_inv s \<Longrightarrow> touches (\<lambda>q. q \<noteq> [] \<and> butlast q = [''keys'']) s t \<Longrightarrow> keeps_file KEYS_PATH s t \<Longrightarrow> R s t"
    and root_write: "fs_inv s \<Longrightarrow> touches (\<lambda>q. q = ROOT_KEY_PATH) s t \<Longrightarrow> keeps_file ROOT_KEY_PATH s t \<Longrightarrow> R s t"

locale vault_frame = key_frame +
  assumes index_write: "fs_inv s \<Longrightarrow> touches (beside INDEX_FILE) s t \<Longrightarrow> R s t"
    and record_write: "fs_inv s \<Longrightarrow> touches (\<lambda>q. take 1 q = SECRETS_DIR) s t \<Longrightarrow> R s t"

lemma hard_link_cases:
  assumes "hard_link p q s = (r, s')" "fs_inv s"
  obtains (failed) e where "r = Err (RepoIo e)" "same_nodes s s'"
  | (linked) b where "r = Ok ()" "content s p = Some b" "content s q = None" "content s' = (content s)(q \<mapsto> b)" "fs_inv s'"
  using assms(1) unfolding hard_link_def
proof (cases rule: perform_cases)
  case (run t x)
  show ?thesis
  proof (cases "content t p")
    case (Some b)
    show ?thesis
    proof (cases "bt_get (nodes t) q \<noteq> None \<or> \<not> is_dir_node t (butlast q)")
      case True
      then have "is_err x" "s' = t" using run(2) Some by (auto split: if_splits)
      then show ?thesis using that(1) run by (cases x) auto
    next
      case False
      then have "x = Ok ()" "s' = set_file q b t" "content t q = None" using run(2) Some by (auto simp: content_def)
      then show ?thesis using that(2) [of b] run(1,3) Some assms(2) by (simp add: set_file_content set_file_inv)
    qed
  qed (use that(1) run in auto)
qed (use that(1) in auto)

lemma no_clobber_keeps:
  assumes "publish_file_no_clobber KEYS_PATH b s = (r, s')" "fs_inv s"
  shows "keeps_file KEYS_PATH s s'"
proof -
  obtain r1 s1 where c1: "create_dir_all [''keys''] s = (r1, s1)" by force
  obtain n s2 where c2: "timestamp s1 = (n, s2)" by force
  let ?t = "[''keys'', temp_name ''.tmp-new-'' (process_id s2) n]"
  have ext: "name_extension ''project.json'' = Some ''json''" by code_simp
  have t: "\<not> beside ?t KEYS_PATH" "?t \<noteq> KEYS_PATH"
    using ext temp_extension [of "''.tmp-new-''" "process_id s2" n] by (auto simp: beside_def KEYS_PATH_def)
  obtain r3 s3 where c3: "write_atomic ?t b s2 = (r3, s3)" by force
  obtain r4 s4 where c4: "hard_link ?t KEYS_PATH s3 = (r4, s4)" by force
  obtain r5 s5 where c5: "remove_file ?t s4 = (r5, s5)" by force
  have s2: "touches (\<lambda>q. q \<noteq> KEYS_PATH) s s2"
    using touches_mono [OF create_dir_all_files [OF c1]] touches_same [OF timestamp_nodes [OF c2]] touches_trans by blast
  have "touches (\<lambda>q. q \<noteq> KEYS_PATH) s2 s3"
    by (rule touches_mono [OF only_run [OF publish_beside c3 [unfolded write_atomic_def]]]) (use t in auto)
  then have s3: "touches (\<lambda>q. q \<noteq> KEYS_PATH) s s3" using s2 touches_trans by blast
  have inv3: "fs_inv s3" using s3 assms(2) by (simp add: touches_def)
  have s4: "keeps_file KEYS_PATH s3 s4 \<and> fs_inv s4"
    using c4 inv3 by (cases rule: hard_link_cases) (use inv3 in \<open>auto simp: keeps_file_def\<close>)
  have "touches (\<lambda>q. q \<noteq> KEYS_PATH) s4 s5"
    using only_run [OF only_remove c5, of "\<lambda>q. q = ?t"] t by (auto elim: touches_mono)
  then have s5: "keeps_file KEYS_PATH s s5" "keeps_file KEYS_PATH s s2" "keeps_file KEYS_PATH s s3" "keeps_file KEYS_PATH s s1"
    using s2 s3 s4 assms(2) timestamp_nodes [OF c2] by (auto simp: touches_def keeps_file_def)
  have "s' \<in> {s1, s3, s5}"
    using assms(1) c1 c2 c3 c4 c5
    by (cases r1; cases r3) (auto simp: publish_file_no_clobber_def bind_io_run KEYS_PATH_def Let_def)
  then show ?thesis using s5 by auto
qed

context key_frame
begin

lemma keeps_read_keys: "vkeeps R (read_project_keys v root)"
  by (rule keeps_same) (metis vreads_keys vreads_def)

lemma keeps_or_else:
  assumes "vkeeps R (m :: (string, unit) vio)" "\<And>e. vkeeps R (g e)"
  shows "vkeeps R (\<lambda>w. case m w of (Ok _, w') \<Rightarrow> (Ok a, w') | (Err e, w') \<Rightarrow> g e w')"
proof (rule vkeepsI)
  fix w r w'
  assume run: "(case m w of (Ok _, w') \<Rightarrow> (Ok a, w') | (Err e, w') \<Rightarrow> g e w') = (r, w')" and inv: "fs_inv (vw_fs w)"
  obtain x t where x: "m w = (x, t)" by force
  note step = vkeepsD [OF assms(1) x inv]
  show "fs_inv (vw_fs w') \<and> R (vw_fs w) (vw_fs w')"
  proof (cases x)
    case (Err e)
    then have "g e t = (r, w')" using run x by simp
    then show ?thesis using step vkeepsD [OF assms(2)] trans [OF inv] by blast
  qed (use run x step in simp)
qed

lemma keeps_no_clobber: "vkeeps R (std_io (publish_file_no_clobber KEYS_PATH b))"
  unfolding std_io_def vkeeps_vmap
proof (rule vkeeps_on_fs)
  fix s r s'
  assume run: "publish_file_no_clobber KEYS_PATH b s = (r, s')" and inv: "fs_inv s"
  note t = only_run [OF no_clobber_dir run]
  show "fs_inv s' \<and> R s s'" using t keys_write [OF inv t no_clobber_keeps [OF run inv]] inv by (simp add: touches_def)
qed

lemma keeps_root: "vkeeps R (file_obtain c ROOT_KEY_PATH)"
  by (rule vkeeps_mono [OF file_obtain_keeps]) (auto intro: root_write)

lemma keeps_load: "vkeeps R (load_or_init_keys (new_secret_service c i))"
proof -
  let ?v = "new_secret_service c i"
  have again: "vkeeps R (\<lambda>w'. if e = ALREADY_EXISTS
      then vbind (read_project_keys ?v root) (\<lambda>again. vlift (ok_or err again)) w' else (Err (CoreIo e), w'))" for e root err
  proof -
    have "vkeeps R (vbind (read_project_keys ?v root) (\<lambda>again. vlift (ok_or err again)))"
      by (intro keeps_bind keeps_read_keys keeps_pure)
    moreover have "vkeeps R (\<lambda>w'. (Err (CoreIo e), w'))" by (rule keeps_same) simp
    ultimately show ?thesis by (cases "e = ALREADY_EXISTS") (simp_all cong: if_cong)
  qed
  have fresh_keys: "vkeeps R (new_key_bundle ?v root)" for root
    unfolding new_key_bundle_def by (intro keeps_bind keeps_crypto keeps_pure) (simp_all add: keeps_crypto)
  have pair: "vkeeps R (case ks of (keys, x) \<Rightarrow> f keys x)"
    if "\<And>keys x. vkeeps R (f keys x)" for ks :: "project_keys \<times> stored_project_keys" and f :: "project_keys \<Rightarrow> stored_project_keys \<Rightarrow> project_keys core"
    using that by (cases ks) simp
  have branch: "vkeeps R (case present of Some keys \<Rightarrow> vok keys | None \<Rightarrow> f)"
    if "vkeeps R f" for present :: "project_keys option" and f :: "project_keys core"
    using that by (cases present) (auto intro: keeps_pure)
  have root: "vkeeps R (vmap_err CoreCrypto (rk_obtain (sv_root ?v)))"
    using keeps_root by (simp add: new_secret_service_def file_key_store_def)
  show ?thesis
    unfolding load_or_init_keys_def
    by (rule keeps_bind [OF root], rule keeps_bind [OF keeps_read_keys], rule branch, rule keeps_bind [OF fresh_keys], rule pair,
        rule keeps_bind [OF keeps_pure(3)], rule keeps_or_else [OF keeps_no_clobber again])
qed

lemma keeps_cached: "vkeeps R (cached_keys (new_secret_service c i))"
proof -
  have "vkeeps R (\<lambda>w'. (Ok keys, w'\<lparr>vw_cache := f keys\<rparr>))" for f keys
    by (rule keeps_same) simp
  then have load: "vkeeps R (vbind (load_or_init_keys (new_secret_service c i)) (\<lambda>keys w'. (Ok keys, w'\<lparr>vw_cache := f keys\<rparr>)))" for f
    by (intro keeps_bind keeps_load)
  have "vkeeps R (\<lambda>w. (Ok keys, w))" for keys by (rule keeps_same) simp
  then show ?thesis using load unfolding vkeeps_def cached_keys_def by (auto split: option.splits)
qed

end

interpretation secs: key_frame same_secrets
proof
  show "same_secrets s t" if "fs_inv s" "touches (\<lambda>q. q \<noteq> [] \<and> butlast q = [''keys'']) s t" for s t
    using that by (auto simp: same_secrets_def touches_def SECRETS_DIR_def)
  show "same_secrets s t" if "fs_inv s" "touches (\<lambda>q. q = ROOT_KEY_PATH) s t" for s t
    using that by (auto simp: same_secrets_def touches_def SECRETS_DIR_def ROOT_KEY_PATH_def)
qed

text \<open>The two key files.\<close>

definition keeps_keys :: "fs \<Rightarrow> fs \<Rightarrow> bool" where
  "keeps_keys s t \<longleftrightarrow> keeps_file KEYS_PATH s t \<and> keeps_file ROOT_KEY_PATH s t"

lemma keeps_keys_touches: "touches X s t \<Longrightarrow> fs_inv s \<Longrightarrow> \<not> X KEYS_PATH \<Longrightarrow> \<not> X ROOT_KEY_PATH \<Longrightarrow> keeps_keys s t"
  unfolding keeps_keys_def using touches_keeps by blast

lemma keys_not_beside: "\<not> beside INDEX_FILE KEYS_PATH" "\<not> beside INDEX_FILE ROOT_KEY_PATH"
  by (simp_all add: beside_def INDEX_FILE_def KEYS_PATH_def ROOT_KEY_PATH_def name_extension_def)

interpretation keyring: vault_frame keeps_keys
proof
  show "keeps_keys s t" if "fs_inv s" "same_nodes s t" for s t
    using keepf.same [OF that] by (simp add: keeps_keys_def)
  show "keeps_keys s u" if "fs_inv s" "keeps_keys s t" "keeps_keys t u" for s t u
    using that by (auto simp: keeps_keys_def keeps_file_def)
  show "keeps_keys s t" if "fs_inv s" "touches (\<lambda>q. q \<noteq> [] \<and> butlast q = [''keys'']) s t" "keeps_file KEYS_PATH s t" for s t
    using that touches_keeps [OF that(2,1), of ROOT_KEY_PATH] by (simp add: keeps_keys_def ROOT_KEY_PATH_def)
  show "keeps_keys s t" if "fs_inv s" "touches (\<lambda>q. q = ROOT_KEY_PATH) s t" "keeps_file ROOT_KEY_PATH s t" for s t
    using that touches_keeps [OF that(2,1), of KEYS_PATH] by (simp add: keeps_keys_def ROOT_KEY_PATH_def KEYS_PATH_def)
  show "keeps_keys s t" if "fs_inv s" "touches (beside INDEX_FILE) s t" for s t
    by (rule keeps_keys_touches [OF that(2,1) keys_not_beside])
  show "keeps_keys s t" if "fs_inv s" "touches (\<lambda>q. take 1 q = SECRETS_DIR) s t" for s t
    by (rule keeps_keys_touches [OF that(2,1)]) (simp_all add: SECRETS_DIR_def KEYS_PATH_def ROOT_KEY_PATH_def)
qed

section \<open>Calls of the service\<close>

datatype secret_call =
    SetCall string string variable_kind string "secret_binding option"
  | RotateCall string string string
  | DestroyCall string string
  | MetadataCall string string
  | RevealCall string string
  | ResolveCall variable_name secret_revision_id
  | ListCall string
  | StateCall secret_revision_id
  | VerifyKeysCall

definition vrun :: "('e, 'a) vio \<Rightarrow> vault_world \<Rightarrow> vault_world" where
  "vrun m w = snd (m w)"

fun run_call :: "secret_service \<Rightarrow> secret_call \<Rightarrow> vault_world \<Rightarrow> vault_world" where
  "run_call v (SetCall name plaintext kind env b) = vrun (set_secret v name plaintext kind env b)"
| "run_call v (RotateCall name plaintext env) = vrun (rotate_secret v name plaintext env)"
| "run_call v (DestroyCall name env) = vrun (destroy_secret v name env)"
| "run_call v (MetadataCall name env) = vrun (secret_metadata v name env)"
| "run_call v (RevealCall name env) = vrun (reveal_secret v name env)"
| "run_call v (ResolveCall name revision) = vrun (resolve_revision v name revision)"
| "run_call v (ListCall env) = vrun (list_secrets v env)"
| "run_call v (StateCall revision) = vrun (revision_state v revision)"
| "run_call v VerifyKeysCall = vrun (verify_project_keys v)"

text \<open>
  Any sequence of calls by any processes: between two calls everything but the files may change, the faults to come,
  the random bytes, the clock, and the cached keys.
\<close>

inductive vault_run :: "secret_codec \<Rightarrow> (vault_world \<Rightarrow> secret_call \<Rightarrow> bool) \<Rightarrow> vault_world \<Rightarrow> vault_world \<Rightarrow> bool" for c guard where
  start: "vault_run c guard w w"
| call: "vault_run c guard w t \<Longrightarrow> guard t op \<Longrightarrow> vault_run c guard w (run_call (new_secret_service c i) op t)"
| process: "vault_run c guard w t \<Longrightarrow> same_nodes (vw_fs t) (vw_fs u) \<Longrightarrow> vault_run c guard w u"

context key_frame
begin

lemma keeps_scan: "vkeeps R (scan_records v env)"
  by (rule keeps_same) (metis prod.collapse scan_records_sound)

lemma keeps_latest: "vkeeps R (latest_record v name env)"
  by (rule keeps_same) (metis prod.collapse latest_sound(1))

lemma keeps_decrypt: "vkeeps R (decrypt_record (new_secret_service c i) r)"
  unfolding decrypt_record_def by (intro keeps_bind keeps_cached keeps_pure)

lemma keeps_queries:
  "vkeeps R (secret_metadata v name env)" "vkeeps R (list_secrets v env)" "vkeeps R (revision_state v revision)"
  unfolding secret_metadata_def list_secrets_def revision_state_def records_for_def
  by (intro keeps_bind keeps_pure keeps_scan)+

lemma keeps_verify: "vkeeps R (verify_project_keys (new_secret_service c i))"
proof -
  have "vkeeps R (file_load x p)" for x p by (rule keeps_same) (metis file_load_same prod.collapse)
  then show ?thesis
    unfolding verify_project_keys_def
    by (intro keeps_bind keeps_read_keys keeps_pure) (simp add: new_secret_service_def file_key_store_def)
qed

lemma keeps_reveals:
  "vkeeps R (reveal_secret (new_secret_service c i) name env)" "vkeeps R (resolve_revision (new_secret_service c i) name' revision)"
  unfolding reveal_secret_def resolve_revision_def
  by (intro keeps_bind keeps_pure keeps_latest keeps_scan;
      auto split: option.splits intro!: keeps_bind keeps_pure keeps_decrypt)+

lemmas keeps_reading = keeps_queries keeps_verify keeps_reveals

end

context vault_frame
begin

lemma keeps_stage: "vkeeps R (stage_binding v name b revision)"
  unfolding stage_binding_def vkeeps_vmap
  by (rule vkeeps_mono [OF vkeeps_only [OF add_entry_beside]]) (rule index_write)

lemma keeps_save: "vkeeps R (save_record v r)"
proof -
  have place: "take 1 q = SECRETS_DIR" if "beside (record_path r) q" for q
  proof -
    have "butlast q = SECRETS_DIR @ [sr_secret r]"
      using that by (auto simp: beside_def record_path_def butlast_append)
    then show ?thesis by (cases q rule: rev_cases) (auto simp: SECRETS_DIR_def)
  qed
  have "vkeeps R (on_fs (publish ''.tmp-'' (record_path r) b))" for b
    by (rule vkeeps_mono [OF vkeeps_only [OF publish_beside]]) (auto intro: record_write touches_mono place)
  then show ?thesis
    unfolding save_record_def secret_io_def std_io_def write_atomic_def by (intro keeps_bind keeps_pure) simp
qed

lemma keeps_ids: "vkeeps R (new_revision_id v)" "vkeeps R (new_secret_id v)"
  unfolding new_revision_id_def new_secret_id_def random_suffix_def by (intro keeps_bind keeps_pure)+

lemma keeps_write: "vkeeps R (write_revision (new_secret_service c i) ri previous)"
proof -
  have "vkeeps R (case previous of Some old \<Rightarrow> save_record v (f old) | None \<Rightarrow> vok ())" for v f
    by (cases previous) (simp_all add: keeps_save keeps_pure)
  moreover have "vkeeps R (vmap_err CoreCrypto (encrypt_with_dek x k m a))" "vkeeps R (vmap_err CoreCrypto (wrap_dek x k y))" for x k m a y
    by (simp_all add: keeps_crypto)
  ultimately show ?thesis
    unfolding write_revision_def Let_def
    by - (rule keeps_bind keeps_cached keeps_ids keeps_pure keeps_clock keeps_crypto keeps_save keeps_stage | assumption)+
qed

lemma keeps_updates:
  "vkeeps R (set_secret (new_secret_service c i) name plaintext kind env b)"
  "vkeeps R (rotate_secret (new_secret_service c i) name plaintext env)"
  "vkeeps R (destroy_secret (new_secret_service c i) name env)"
  unfolding set_secret_def rotate_secret_def destroy_secret_def
  by (intro keeps_bind keeps_pure keeps_latest keeps_write;
      auto split: option.splits intro: keeps_pure keeps_latest keeps_write keeps_save keeps_ids)+

lemma call_keeps:
  assumes "fs_inv (vw_fs w)"
  shows "fs_inv (vw_fs (run_call (new_secret_service c i) op w)) \<and> R (vw_fs w) (vw_fs (run_call (new_secret_service c i) op w))"
  using assms keeps_updates [unfolded vkeeps_def] keeps_reading [unfolded vkeeps_def] by (cases op) (simp_all add: vrun_def)

lemma run_keeps: "vault_run c guard w w' \<Longrightarrow> fs_inv (vw_fs w) \<Longrightarrow> fs_inv (vw_fs w') \<and> R (vw_fs w) (vw_fs w')"
proof (induction rule: vault_run.induct)
  case (start w)
  then show ?case using same by simp
next
  case (call w t i op)
  then show ?case using call_keeps trans by blast
next
  case (process w t u)
  then show ?case using same trans by (metis same_nodes_content(2))
qed

end

end
