(* ===== verification/Secret_Lifecycle.thy ===== *)
theory Secret_Lifecycle
  imports Secret_History
begin

text \<open>
  The life cycle of a revision over any sequence of calls: no record is lost or replaced, its state only moves from
  active to revoked to destroyed, and a destroyed revision stays unreadable.  A drawn revision id is assumed not to be
  the id of a stored revision (\<open>free_ids\<close>); a set call comes with the typed binding that the source requires.
\<close>

section \<open>Reference definitions\<close>

text \<open>The part of \<open>write_revision\<close> before the first write.\<close>

definition seal_revision :: "secret_service \<Rightarrow> revision_input \<Rightarrow> secret_revision core" where
  "seal_revision v i =
     vbind (cached_keys v) (\<lambda>keys.
     vbind (new_revision_id v) (\<lambda>revision.
     vbind generate_key (\<lambda>dek.
     vbind (vlift (map_err CoreId (parse_prefixed_id ''proj_'' LOCAL_PROJECT_ID))) (\<lambda>project.
       let aad = \<lparr>aad_project = project, aad_secret = ri_secret i, aad_revision = revision, aad_kind = ri_kind i,
                  aad_format = SECRET_FORMAT_VERSION\<rparr>
       in
     vbind (vlift (map_err CoreJson (sc_aad (sv_codec v) aad))) (\<lambda>aad_bytes.
     vbind (vmap_err CoreCrypto (encrypt_with_dek (crypto v) dek (ri_bytes i) aad_bytes)) (\<lambda>bundle.
     vbind (vmap_err CoreCrypto (wrap_dek (crypto v) (pk_project keys) dek)) (\<lambda>wrapped.
     vbind unix_now (\<lambda>now.
     vbind unix_nanos (\<lambda>nanos.
       vok \<lparr>sr_id = revision, sr_secret = ri_secret i, sr_name = ri_name i, sr_environment = ri_env i, sr_kind = ri_kind i,
         sr_brokered = ri_binding i, sr_state = Active, sr_created_at = now, sr_created_nanos = nanos,
         sr_ciphertext_hex = vc_hex_encode (crypto v) (cb_ciphertext bundle),
         sr_nonce_hex = vc_hex_encode (crypto v) (cb_nonce bundle),
         sr_wrapped_dek_hex = encode_wrapped (sv_codec v) wrapped, sr_aad = aad,
         sr_fingerprint_hex = keyed_fingerprint (crypto v) (pk_fingerprint keys) (ri_bytes i), sr_shredded = False\<rparr>)))))))))"

text \<open>The revision ids that the next \<open>k\<close> random bytes may give are not in use; a call draws fewer than 256.\<close>

definition free_ids :: "secret_codec \<Rightarrow> nat \<Rightarrow> vault_world \<Rightarrow> bool" where
  "free_ids c k w \<longleftrightarrow>
     (\<forall>n d. n < k \<longrightarrow> content (vw_fs w) (SECRETS_DIR @ [d, ''sec_rev_''
        @ vc_hex_encode (sc_crypto c) (map (vw_rng w) [vw_drawn w + n ..< vw_drawn w + n + 16]) @ ''.json'']) = None)"

fun valid_call :: "secret_call \<Rightarrow> bool" where
  "valid_call (SetCall _ _ _ _ b) \<longleftrightarrow> (case b of None \<Rightarrow> True | Some x \<Rightarrow> valid_binding x)"
| "valid_call _ \<longleftrightarrow> True"

definition fresh_call :: "secret_codec \<Rightarrow> vault_world \<Rightarrow> secret_call \<Rightarrow> bool" where
  "fresh_call c w op \<longleftrightarrow> free_ids c 256 w \<and> valid_call op"

definition valid_input :: "revision_input \<Rightarrow> bool" where
  "valid_input i \<longleftrightarrow> is_ok (parse_prefixed_id ''sec_'' (ri_secret i)) \<and> is_ok (parse_variable_name (ri_name i))
     \<and> is_ok (parse_prefixed_id ''env_'' (ri_env i)) \<and> (case ri_binding i of None \<Rightarrow> True | Some b \<Rightarrow> valid_binding b)"

section \<open>Lemmas: sealing a revision\<close>

lemma vbind_assoc: "vbind (vbind m f) g = vbind m (\<lambda>a. vbind (f a) g)"
  by (auto simp: vbind_def fun_eq_iff split: prod.splits result.splits)

lemma vbind_vok: "vbind (vok a) f = f a"
  by (auto simp: vbind_def vok_def fun_eq_iff)

lemma write_revision_eq:
  "write_revision v i previous =
     vbind (seal_revision v i) (\<lambda>r.
     vbind (save_record v r) (\<lambda>_.
     vbind (case previous of Some old \<Rightarrow> save_record v (old\<lparr>sr_state := Revoked\<rparr>) | None \<Rightarrow> vok ()) (\<lambda>_.
     vbind (stage_binding v (ri_name i) (ri_binding i) (sr_id r)) (\<lambda>_. vok (sr_id r)))))"
  unfolding write_revision_def seal_revision_def Let_def vbind_assoc vbind_vok by simp

lemma seal_same: "vkeeps same_secrets (seal_revision (new_secret_service c i) ri)"
proof -
  have "vkeeps same_secrets (vmap_err CoreCrypto (encrypt_with_dek x k m a))" "vkeeps same_secrets (vmap_err CoreCrypto (wrap_dek x k y))" for x k m a y
    by (simp_all add: secs.keeps_crypto)
  moreover have "vkeeps same_secrets (new_revision_id v)" for v
    unfolding new_revision_id_def random_suffix_def by (intro secs.keeps_bind secs.keeps_pure)
  ultimately show ?thesis
    unfolding seal_revision_def Let_def
    by - (rule secs.keeps_bind secs.keeps_cached secs.keeps_pure secs.keeps_clock secs.keeps_crypto | assumption)+
qed

lemma new_revision_id_run:
  "new_revision_id v w = (Ok revision, t) \<Longrightarrow>
     revision = ''sec_rev_'' @ vc_hex_encode (crypto v) (map (vw_rng w) [vw_drawn w ..< vw_drawn w + 16])
     \<and> is_ok (parse_prefixed_id ''sec_rev_'' revision)"
proof -
  let ?id = "''sec_rev_'' @ vc_hex_encode (crypto v) (map (vw_rng w) [vw_drawn w ..< vw_drawn w + 16])"
  assume "new_revision_id v w = (Ok revision, t)"
  then have "parse_prefixed_id ''sec_rev_'' ?id = Ok revision"
    by (auto simp: new_revision_id_def random_suffix_def vbind_Ok fill_bytes_def map_err_Ok_iff eq_commute [of "Ok _" "map_err _ _"])
  then show ?thesis using parse_prefixed_id_id by fastforce
qed

lemma to_hex_ascii: "is_ascii (to_hex b)"
proof -
  have digits: "is_ascii HEX_DIGITS" by code_simp
  have "HEX_DIGITS ! k \<in> set HEX_DIGITS" if "k < 16" for k using that by (intro nth_mem) (simp add: HEX_DIGITS_def)
  then have "is_ascii_byte (HEX_DIGITS ! k)" if "k < 16" for k using digits that by (simp add: is_ascii_def list_all_iff)
  moreover have "byte_of x div 16 < 16" for x :: char
    by (rule less_mult_imp_div_less) simp
  ultimately show ?thesis by (auto simp: to_hex_def is_ascii_def list_all_iff)
qed

lemma hex_utf8: "is_hex_of_len h n \<Longrightarrow> is_utf8 h"
  unfolding is_utf8_def using hex_id_char is_id_char_ascii utf8_lossy_ascii by blast

lemma last_split_on: "d \<notin> set ys \<Longrightarrow> last (split_on d (xs @ d # ys)) = ys"
  by (simp add: split_on_append split_on_no_sep_id)

lemma record_extension: "is_ok (parse_prefixed_id ''sec_rev_'' i) \<Longrightarrow> name_extension (i @ ''.json'') = Some ''json''"
  using last_split_on [of "CHR ''.''" "''json''" i]
  by (auto simp: name_extension_def is_ok_iff parse_prefixed_id_Ok_iff)


lemma seal_facts:
  assumes "seal_revision (new_secret_service c i) ri w = (Ok r, t)" "vault_crypto_ok (sc_crypto c)" "valid_input ri"
  shows "valid_record r \<and> sr_state r = Active \<and> sr_secret r = ri_secret ri
    \<and> (\<exists>n \<le> 120. sr_id r = ''sec_rev_'' @ vc_hex_encode (sc_crypto c) (map (vw_rng w) [vw_drawn w + n ..< vw_drawn w + n + 16]))"
proof -
  let ?v = "new_secret_service c i"
  have hex: "is_utf8 (vc_hex_encode (sc_crypto c) b)" for b
    using assms(2) hex_utf8 unfolding vault_crypto_ok_def by blast
  have nil: "is_utf8 []" by (simp add: is_utf8_def utf8_lossy_ascii is_ascii_def)
  have wrapped: "is_utf8 (encode_wrapped c x)" for x
    by (cases "sc_enc_wrapped c x") (simp_all add: encode_wrapped_def hex nil)
  have print: "is_utf8 (keyed_fingerprint x k m)" for x k m
    unfolding keyed_fingerprint_def is_utf8_def by (rule utf8_lossy_ascii [OF to_hex_ascii])
  have local: "is_ok (parse_prefixed_id ''proj_'' LOCAL_PROJECT_ID)" by code_simp
  obtain keys w1 revision w2 project where k: "cached_keys ?v w = (Ok keys, w1)" and rv: "new_revision_id ?v w1 = (Ok revision, w2)"
    and p: "parse_prefixed_id ''proj_'' LOCAL_PROJECT_ID = Ok project"
    and r: "sr_id r = revision" "sr_secret r = ri_secret ri" "sr_name r = ri_name ri" "sr_environment r = ri_env ri"
      "sr_brokered r = ri_binding ri" "sr_state r = Active" "aad_project (sr_aad r) = project" "aad_secret (sr_aad r) = ri_secret ri"
      "aad_revision (sr_aad r) = revision" "is_utf8 (sr_ciphertext_hex r)" "is_utf8 (sr_nonce_hex r)" "is_utf8 (sr_wrapped_dek_hex r)"
      "is_utf8 (sr_fingerprint_hex r)"
    using assms(1) unfolding seal_revision_def Let_def
    by (auto simp: vbind_Ok map_err_Ok_iff eq_commute [of "Ok _" "map_err _ _"] hex wrapped print new_secret_service_def)
  have "project = LOCAL_PROJECT_ID" using parse_prefixed_id_id [OF p] .
  then have "valid_record r"
    using r assms(3) conjunct2 [OF new_revision_id_run [OF rv]] local by (simp add: valid_record_def valid_aad_def valid_input_def)
  moreover have "\<exists>n \<le> 120. sr_id r = ''sec_rev_'' @ vc_hex_encode (sc_crypto c) (map (vw_rng w) [vw_drawn w + n ..< vw_drawn w + n + 16])"
    using new_revision_id_run [OF rv] drawsD [OF draws_cached k] r(1)
    by (intro exI [of _ "vw_drawn w1 - vw_drawn w"]) (auto simp: new_secret_service_def)
  ultimately show ?thesis using r by simp
qed

section \<open>Lemmas: saving a record\<close>

text \<open>The place of a record is free, or holds an earlier form of it.\<close>

definition may_save :: "secret_codec \<Rightarrow> fs \<Rightarrow> secret_revision \<Rightarrow> bool" where
  "may_save c s r \<longleftrightarrow> valid_record r
     \<and> ((\<forall>d. content s (SECRETS_DIR @ [d, sr_id r @ ''.json'']) = None)
        \<or> (\<exists>r0. record_at c s (record_path r) = Some r0 \<and> evolves r0 r))"

lemma evolves_same_place: "evolves r r' \<Longrightarrow> record_path r' = record_path r"
  unfolding evolves_def by (cases r; cases r') (auto simp: record_path_def)

lemma save_record_cases:
  assumes "secret_codec_ok c" "save_record (new_secret_service c i) r w = (x, w')" "fs_inv (vw_fs w)" "valid_record r"
  shows "fs_inv (vw_fs w')" "is_record_file (record_path r)"
    "\<And>p. is_record_file p \<Longrightarrow> p \<noteq> record_path r \<Longrightarrow> content (vw_fs w') p = content (vw_fs w) p"
    "(\<exists>t. content (vw_fs w') (record_path r) = Some t) \<and> record_at c (vw_fs w') (record_path r) = Some r
       \<or> is_err x \<and> content (vw_fs w') (record_path r) = content (vw_fs w) (record_path r)"
proof -
  obtain t where t: "sc_enc_record c r = Ok t" "is_utf8 t" "sc_dec_record c t = Ok r"
    using assms(1,4) unfolding secret_codec_ok_def by blast
  obtain y s' where y: "publish ''.tmp-'' (record_path r) t (vw_fs w) = (y, s')" by force
  then have run: "x = map_err CoreIo (map_err io_text y)" "vw_fs w' = s'"
    using assms(2) t(1) by (auto simp: save_record_def new_secret_service_def secret_io_def vbind_run std_io_def vmap_err_def on_fs_def write_atomic_def)
  have ok: "is_ok (parse_prefixed_id ''sec_rev_'' (sr_id r))" using assms(4) by (simp add: valid_record_def)
  then show place: "is_record_file (record_path r)" using record_extension by (simp add: record_path_def)
  have "\<not> is_temp ''.tmp-'' (record_path r)"
    using ok by (auto simp: is_temp_def record_path_def starts_with_iff is_ok_iff parse_prefixed_id_Ok_iff)
  note pub = publish_cases [OF y assms(3)] this
  show "fs_inv (vw_fs w')" using pub run by simp
  show "content (vw_fs w') p = content (vw_fs w) p" if "is_record_file p" "p \<noteq> record_path r" for p
  proof -
    have "\<not> beside (record_path r) p" using that by (auto simp: beside_def is_record_file_def)
    then show ?thesis using only_run [OF publish_beside y] assms(3) run by (simp add: touches_def)
  qed
  show "(\<exists>t. content (vw_fs w') (record_path r) = Some t) \<and> record_at c (vw_fs w') (record_path r) = Some r
       \<or> is_err x \<and> content (vw_fs w') (record_path r) = content (vw_fs w) (record_path r)"
    using pub run t by (cases y) (auto simp: record_at_def)
qed

lemma save_history:
  assumes "secret_codec_ok c" "save_record (new_secret_service c i) r w = (x, w')" "fs_inv (vw_fs w)" "may_save c (vw_fs w) r"
  shows "keeps_history c (vw_fs w) (vw_fs w')"
  unfolding keeps_history_def
proof (intro impI)
  assume ok: "secrets_ok c (vw_fs w)"
  have valid: "valid_record r" using assms(4) by (simp add: may_save_def)
  note cases = save_record_cases [OF assms(1-3) valid]
  show "secrets_ok c (vw_fs w') \<and> (\<forall>p r. is_record_file p \<and> record_at c (vw_fs w) p = Some r \<longrightarrow>
      (\<exists>r'. record_at c (vw_fs w') p = Some r' \<and> evolves r r'))"
  proof (cases "content (vw_fs w') (record_path r) = content (vw_fs w) (record_path r)")
    case True
    then have "touches (\<lambda>q. \<not> is_record_file q) (vw_fs w) (vw_fs w')" using cases by (auto simp: touches_def)
    then have "keeps_history c (vw_fs w) (vw_fs w')" using touched_elsewhere [OF _ assms(3)] by simp
    then show ?thesis using ok by (simp add: keeps_history_def)
  next
    case False
    then obtain t where now: "content (vw_fs w') (record_path r) = Some t" "record_at c (vw_fs w') (record_path r) = Some r"
      using cases(4) by blast
    have other: "record_at c (vw_fs w') p = record_at c (vw_fs w) p" if "is_record_file p" "p \<noteq> record_path r" for p
      using cases(3) [OF that] record_at_content by blast
    have "evolves r0 r" if "record_at c (vw_fs w) (record_path r) = Some r0" for r0
      using that assms(4) by (auto simp: may_save_def record_at_def record_path_def split: option.splits)
    then have all: "\<forall>p r0. is_record_file p \<and> record_at c (vw_fs w) p = Some r0 \<longrightarrow> (\<exists>r'. record_at c (vw_fs w') p = Some r' \<and> evolves r0 r')"
      using other now by (metis evolves_refl)
    have each: "\<exists>r0. record_at c (vw_fs w') p = Some r0 \<and> record_path r0 = p"
      if "is_record_file p" "content (vw_fs w') p \<noteq> None" for p
      using that now other cases(3) ok unfolding secrets_ok_def by metis
    have free: "content (vw_fs w) (record_path r) = None \<Longrightarrow> content (vw_fs w) (SECRETS_DIR @ [d, sr_id r @ ''.json'']) = None" for d
      using assms(4) by (auto simp: may_save_def record_at_def)
    have "d = d'" if n: "name_extension n = Some ''json''" and c1: "content (vw_fs w') (SECRETS_DIR @ [d, n]) \<noteq> None"
      and c2: "content (vw_fs w') (SECRETS_DIR @ [d', n]) \<noteq> None" for d d' n
    proof -
      have was: "content (vw_fs w) (SECRETS_DIR @ [e, n]) \<noteq> None \<or> e = sr_secret r \<and> n = sr_id r @ ''.json''"
        if "content (vw_fs w') (SECRETS_DIR @ [e, n]) \<noteq> None" for e
        using that n cases(3) [of "SECRETS_DIR @ [e, n]"] by (cases "SECRETS_DIR @ [e, n] = record_path r") (auto simp: record_path_def)
      have uniq: "e = e'" if "content (vw_fs w) (SECRETS_DIR @ [e, n]) \<noteq> None" "content (vw_fs w) (SECRETS_DIR @ [e', n]) \<noteq> None" for e e'
        using ok n that unfolding secrets_ok_def by blast
      have own: "e = sr_secret r" if "n = sr_id r @ ''.json''" "content (vw_fs w) (SECRETS_DIR @ [e, n]) \<noteq> None" for e
        using that free [of e] uniq [of e "sr_secret r"] by (fastforce simp: record_path_def)
      show ?thesis
      proof (cases "n = sr_id r @ ''.json''")
        case True
        then show ?thesis using was [OF c1] was [OF c2] own by blast
      qed (use was [OF c1] was [OF c2] uniq in blast)
    qed
    then have "secrets_ok c (vw_fs w')" unfolding secrets_ok_def using each by blast
    then show ?thesis using all by blast
  qed
qed

section \<open>Lemmas: the calls\<close>

lemma same_secrets_history: "same_secrets s t \<Longrightarrow> fs_inv s \<Longrightarrow> fs_inv t \<Longrightarrow> keeps_history c s t"
  by (rule touched_elsewhere [where X = "\<lambda>p. \<not> is_record_file p"]) (auto simp: touches_def same_secrets_def is_record_file_def)

lemma stage_history: "vkeeps (keeps_history c) (stage_binding v name b revision)"
proof -
  have "\<not> beside INDEX_FILE p" if "is_record_file p" for p
    using that by (auto simp: beside_def is_record_file_def INDEX_FILE_def SECRETS_DIR_def)
  then show ?thesis
    unfolding stage_binding_def vkeeps_vmap
    by (intro vkeeps_mono [OF vkeeps_only [OF add_entry_beside]]) (blast intro: touched_elsewhere)
qed

lemma decoded_valid: "secret_codec_ok c \<Longrightarrow> record_at c s p = Some r \<Longrightarrow> valid_record r"
  unfolding secret_codec_ok_def record_at_def by (auto split: option.splits if_splits result.splits)

lemma valid_later:
  "valid_record (r\<lparr>sr_state := st\<rparr>) = valid_record r"
  "valid_record r \<Longrightarrow> valid_record (r\<lparr>sr_state := st, sr_wrapped_dek_hex := [], sr_shredded := b\<rparr>)"
  by (simp_all add: valid_record_def is_utf8_def utf8_lossy_ascii is_ascii_def)

text \<open>The record to revoke is the one on disk.\<close>

definition on_disk :: "secret_codec \<Rightarrow> fs \<Rightarrow> secret_revision option \<Rightarrow> bool" where
  "on_disk c s previous \<longleftrightarrow>
     (case previous of None \<Rightarrow> True | Some old \<Rightarrow> sr_state old \<noteq> Destroyed \<and> record_at c s (record_path old) = Some old)"

lemma revoke_history:
  assumes "secret_codec_ok c" "on_disk c (vw_fs w) previous" "fs_inv (vw_fs w)"
    and "(case previous of Some old \<Rightarrow> save_record (new_secret_service c i) (old\<lparr>sr_state := Revoked\<rparr>) | None \<Rightarrow> vok ()) w = (x, w')"
  shows "keeps_history c (vw_fs w) (vw_fs w') \<and> fs_inv (vw_fs w')"
proof (cases previous)
  case None
  then show ?thesis using assms hist.same by auto
next
  case (Some old)
  let ?r = "old\<lparr>sr_state := Revoked\<rparr>"
  have disk: "sr_state old \<noteq> Destroyed" "record_at c (vw_fs w) (record_path old) = Some old"
    using assms(2) Some by (simp_all add: on_disk_def)
  have valid: "valid_record ?r" using decoded_valid [OF assms(1) disk(2)] by (simp add: valid_later)
  have "may_save c (vw_fs w) ?r"
    using valid disk evolves_steps(1) evolves_same_place unfolding may_save_def by metis
  then show ?thesis
    using save_history [OF assms(1)] save_record_cases(1) [OF assms(1)] assms(3,4) valid Some by auto
qed

lemma write_history:
  assumes "secret_codec_ok c" "write_revision (new_secret_service c i) ri previous w = (x, w')" "fs_inv (vw_fs w)" "valid_input ri"
    and free: "free_ids c 121 w" and "on_disk c (vw_fs w) previous"
  shows "keeps_history c (vw_fs w) (vw_fs w') \<and> fs_inv (vw_fs w')"
proof -
  let ?v = "new_secret_service c i"
  obtain y t where y: "seal_revision ?v ri w = (y, t)" by force
  note st = vkeepsD [OF seal_same y assms(3)]
  have ht: "keeps_history c (vw_fs w) (vw_fs t)" using same_secrets_history st assms(3) by blast
  show ?thesis
  proof (cases y)
    case (Err e)
    then show ?thesis using assms(2) y ht st by (auto simp: write_revision_eq vbind_run)
  next
    case (Ok r)
    have crypto: "vault_crypto_ok (sc_crypto c)" using assms(1) by (simp add: secret_codec_ok_def)
    note facts = seal_facts [OF y [unfolded Ok] crypto assms(4)]
    then have none: "content (vw_fs t) (SECRETS_DIR @ [d, sr_id r @ ''.json'']) = None" for d
      using free st by (auto simp: same_secrets_def free_ids_def)
    then have may: "may_save c (vw_fs t) r" using facts by (simp add: may_save_def)
    obtain z u where z: "save_record ?v r t = (z, u)" by force
    have hu: "keeps_history c (vw_fs t) (vw_fs u)" "fs_inv (vw_fs u)"
      using save_history [OF assms(1) z _ may] save_record_cases(1) [OF assms(1) z] st facts by auto
    then have hwu: "keeps_history c (vw_fs w) (vw_fs u)" using hist.trans ht assms(3) by blast
    show ?thesis
    proof (cases z)
      case (Err e)
      then show ?thesis using assms(2) y Ok z hu hwu by (auto simp: write_revision_eq vbind_run)
    next
      case (Ok x1)
      have "on_disk c (vw_fs u) previous"
      proof (cases previous)
        case (Some old)
        then have old: "record_at c (vw_fs w) (record_path old) = Some old" using assms(6) by (simp add: on_disk_def)
        then have place: "is_record_file (record_path old)"
          using decoded_valid [OF assms(1) old] record_extension by (simp add: valid_record_def record_path_def)
        have same: "record_at c (vw_fs t) (record_path old) = Some old"
          using old st record_at_content [of "vw_fs t"] by (simp add: same_secrets_def record_path_def)
        then have "record_path old \<noteq> record_path r" using none by (auto simp: record_at_def record_path_def)
        then have "record_at c (vw_fs u) (record_path old) = Some old"
          using same save_record_cases(3) [OF assms(1) z _ _ place] st facts record_at_content by metis
        then show ?thesis using assms(6) Some by (simp add: on_disk_def)
      qed (simp add: on_disk_def)
      obtain x2 u2 where p: "(case previous of Some old \<Rightarrow> save_record ?v (old\<lparr>sr_state := Revoked\<rparr>) | None \<Rightarrow> vok ()) u = (x2, u2)" by force
      note h2 = revoke_history [OF assms(1) \<open>on_disk c (vw_fs u) previous\<close> hu(2) p]
      have hw2: "keeps_history c (vw_fs w) (vw_fs u2)" using hist.trans hwu h2 assms(3) by blast
      show ?thesis
      proof (cases x2)
        case (Err e)
        then show ?thesis using assms(2) y \<open>y = Ok r\<close> z Ok p h2 hw2 by (auto simp: write_revision_eq vbind_run)
      next
        case (Ok x3)
        obtain x4 u4 where s: "stage_binding ?v (ri_name ri) (ri_binding ri) (sr_id r) u2 = (x4, u4)" by force
        note h4 = vkeepsD [OF stage_history s]
        have "w' = u4" using assms(2) y \<open>y = Ok r\<close> z \<open>z = Ok x1\<close> p Ok s by (cases x4) (auto simp: write_revision_eq vbind_run)
        then show ?thesis using h4 [of c] h2 hw2 hist.trans assms(3) by blast
      qed
    qed
  qed
qed

lemma latest_valid:
  assumes "secret_codec_ok c" "secrets_ok c (vw_fs w)" "latest_record (new_secret_service c i) name env w = (Ok (Some (secret, r)), w')"
  shows "valid_record r \<and> sr_secret r = secret \<and> sr_name r = name \<and> sr_environment r = env
    \<and> record_at c (vw_fs w) (record_path r) = Some r"
proof -
  obtain p where p: "is_record_file p" "record_at c (vw_fs w) p = Some r" "secret = sr_secret r" "sr_name r = name" "sr_environment r = env"
    using latest_sound(2) [OF assms(3)] by (auto simp: new_secret_service_def)
  then have "content (vw_fs w) p \<noteq> None" by (auto simp: record_at_def split: option.splits)
  then have "record_path r = p" using assms(2) p(1,2) unfolding secrets_ok_def by fastforce
  then show ?thesis using p decoded_valid [OF assms(1) p(2)] by auto
qed

lemma new_secret_id_run:
  "new_secret_id v w = (Ok secret, t) \<Longrightarrow> is_ok (parse_prefixed_id ''sec_'' secret)"
  by (auto simp: new_secret_id_def vbind_Ok map_err_Ok_iff eq_commute [of "Ok _" "map_err _ _"] is_ok_iff) (metis parse_prefixed_id_id)

lemma new_secret_id_frame: "new_secret_id v w = (x, t) \<Longrightarrow> vw_fs t = vw_fs w \<and> vw_rng t = vw_rng w \<and> vw_drawn t = vw_drawn w + 16"
  by (cases x) (auto simp: new_secret_id_def random_suffix_def vbind_Ok vbind_Err fill_bytes_def)

lemma draws_reads: "draws 0 (latest_record v name env)"
proof -
  have each: "draws 0 (scan_file v e d n rs)" for e d n rs
    unfolding scan_file_def secret_io_def by (auto intro!: draws_bind0 draws_pure)
  have fold: "draws 0 (fold_vio f xs b)" if "\<And>x b. draws 0 (f x b)" for f :: "string \<Rightarrow> secret_revision list \<Rightarrow> secret_revision list core" and xs b
    using that by (induction xs arbitrary: b) (auto intro!: draws_bind0 draws_pure)
  have rd: "draws 0 (\<lambda>w. case std_io m w of (Err e, w') \<Rightarrow> if P e then (Ok a, w') else (Err (CoreIo e), w') | (Ok b, w') \<Rightarrow> g b w')"
    if "\<And>b. draws 0 (g b)" for m :: "string list io" and P a and g :: "string list \<Rightarrow> secret_revision list core"
    unfolding draws_def
  proof
    fix w
    obtain x t where x: "std_io m w = (x, t)" by force
    let ?f = "\<lambda>w. case std_io m w of (Err e, w') \<Rightarrow> if P e then (Ok a, w') else (Err (CoreIo e), w') | (Ok b, w') \<Rightarrow> g b w'"
    show "vw_rng (snd (?f w)) = vw_rng w \<and> vw_drawn w \<le> vw_drawn (snd (?f w)) \<and> vw_drawn (snd (?f w)) \<le> vw_drawn w + 0"
      using x drawsD [OF draws_pure(5) [where n = 0] x] that [unfolded draws_def] by (cases x) auto
  qed
  have "draws 0 (scan_records v e)" for e
    unfolding scan_records_def scan_secret_dir_def
    by (intro rd draws_bind0 fold draws_pure each)
  then show ?thesis unfolding latest_record_def records_for_def by (intro draws_bind0 draws_pure)
qed

lemma free_ids_later:
  assumes "free_ids c k w" "same_nodes (vw_fs w) (vw_fs t)" "vw_rng t = vw_rng w" "vw_drawn w \<le> vw_drawn t" "vw_drawn t + l \<le> vw_drawn w + k"
  shows "free_ids c l t"
  unfolding free_ids_def
proof (intro allI impI)
  fix n d
  assume "n < l"
  define m where "m = vw_drawn t - vw_drawn w + n"
  have "m < k" "vw_drawn t + n = vw_drawn w + m" using \<open>n < l\<close> assms(4,5) by (simp_all add: m_def)
  then show "content (vw_fs t) (SECRETS_DIR @ [d, ''sec_rev_''
        @ vc_hex_encode (sc_crypto c) (map (vw_rng t) [vw_drawn t + n ..< vw_drawn t + n + 16]) @ ''.json'']) = None"
    using assms(1-3) by (simp add: free_ids_def)
qed

lemma history_keep:
  "same_nodes (vw_fs w) (vw_fs w') \<Longrightarrow> fs_inv (vw_fs w) \<Longrightarrow> keeps_history c (vw_fs w) (vw_fs w') \<and> fs_inv (vw_fs w')"
  using hist.same by simp

lemma history_refl [simp]: "keeps_history c s s"
  unfolding keeps_history_def using evolves_refl by blast

lemma environment_id_ok: "environment_id_of e = Ok env \<Longrightarrow> is_ok (parse_prefixed_id ''env_'' env)"
  unfolding environment_id_of_def map_err_Ok_iff by (frule parse_prefixed_id_id) simp

lemma secret_name_ok: "parse_secret_name n = Ok name \<Longrightarrow> is_ok (parse_variable_name name)"
proof -
  assume "parse_secret_name n = Ok name"
  then have p: "parse_variable_name n = Ok name" by (simp add: parse_secret_name_def)
  then have "name = n" unfolding parse_variable_name_def by (auto split: list.splits if_splits)
  then show "is_ok (parse_variable_name name)" using p by simp
qed

lemma set_history:
  assumes "secret_codec_ok c" "set_secret (new_secret_service c i) name plaintext kind env b w = (x, w')"
    and "fs_inv (vw_fs w)" "secrets_ok c (vw_fs w)" "fresh_call c w (SetCall name plaintext kind env b)"
  shows "keeps_history c (vw_fs w) (vw_fs w') \<and> fs_inv (vw_fs w')"
proof (cases "\<exists>n e bd pt. parse_secret_name name = Ok n \<and> environment_id_of env = Ok e \<and> validate_binding kind b name = Ok bd \<and> plaintext_bytes plaintext = Ok pt")
  case False
  then have "w' = w"
    using assms(2) by (cases "parse_secret_name name"; cases "environment_id_of env"; cases "validate_binding kind b name"; cases "plaintext_bytes plaintext")
       (auto simp: set_secret_def vbind_run)
  then show ?thesis using history_keep assms(3) by simp
next
  case True
  let ?v = "new_secret_service c i"
  obtain n e bd pt where parsed: "parse_secret_name name = Ok n" "environment_id_of env = Ok e" "validate_binding kind b name = Ok bd" "plaintext_bytes plaintext = Ok pt"
    using True by blast
  obtain latest t where t: "latest_record ?v n e w = (latest, t)" by force
  note same = latest_sound(1) [OF t] and drawn = drawsD [OF draws_reads t]
  show ?thesis
  proof (cases latest)
    case (Err er)
    then have "w' = t" using assms(2) parsed t by (auto simp: set_secret_def vbind_run)
    then show ?thesis using history_keep [OF same assms(3)] by simp
  next
    case (Ok l)
    obtain secret u where u: "(case l of Some (i, r) \<Rightarrow> if sr_state r \<noteq> Destroyed then vok i else new_secret_id ?v | None \<Rightarrow> new_secret_id ?v) t = (secret, u)"
      by force
    have fu: "vw_fs u = vw_fs t" "vw_rng u = vw_rng t" "vw_drawn t \<le> vw_drawn u" "vw_drawn u \<le> vw_drawn t + 16"
      using u by (auto split: option.splits prod.splits if_splits dest!: new_secret_id_frame)
    show ?thesis
    proof (cases secret)
      case (Err er)
      then have "w' = u" using assms(2) parsed t Ok u by (auto simp: set_secret_def vbind_run)
      then show ?thesis using history_keep [OF same assms(3)] fu by simp
    next
      case (Ok sec)
      let ?ri = "\<lparr>ri_name = n, ri_secret = sec, ri_env = e, ri_kind = kind, ri_binding = bd, ri_bytes = pt\<rparr>"
      have "is_ok (parse_prefixed_id ''sec_'' sec)"
        using u Ok latest_valid [OF assms(1,4)] t \<open>latest = Ok l\<close>
        by (auto split: option.splits prod.splits if_splits dest: new_secret_id_run simp: valid_record_def) (metis)
      moreover have "case bd of None \<Rightarrow> True | Some x \<Rightarrow> valid_binding x"
        using parsed(3) assms(5) by (auto simp: validate_binding_def fresh_call_def split: variable_kind.splits option.splits if_splits)
      ultimately have valid: "valid_input ?ri"
        using environment_id_ok [OF parsed(2)] secret_name_ok [OF parsed(1)] by (simp add: valid_input_def)
      have "free_ids c 121 u"
        using assms(5) free_ids_later [of c 256 w u 121] same fu drawn by (simp add: fresh_call_def)
      moreover have "write_revision ?v ?ri None u = (x, w')"
        using assms(2) parsed t \<open>latest = Ok l\<close> u Ok by (auto simp: set_secret_def vbind_run)
      ultimately have "keeps_history c (vw_fs u) (vw_fs w') \<and> fs_inv (vw_fs w')"
        using write_history [OF assms(1) _ _ valid, of i None u x w'] same fu assms(3) by (simp add: on_disk_def)
      then show ?thesis using history_keep [OF same assms(3), of c] hist.trans fu assms(3) by metis
    qed
  qed
qed

lemma rotate_history:
  assumes "secret_codec_ok c" "rotate_secret (new_secret_service c i) name plaintext env w = (x, w')"
    and "fs_inv (vw_fs w)" "secrets_ok c (vw_fs w)" "free_ids c 256 w"
  shows "keeps_history c (vw_fs w) (vw_fs w') \<and> fs_inv (vw_fs w')"
proof (cases "\<exists>n e pt. parse_secret_name name = Ok n \<and> environment_id_of env = Ok e \<and> plaintext_bytes plaintext = Ok pt")
  case False
  then have "w' = w"
    using assms(2) by (cases "parse_secret_name name"; cases "environment_id_of env"; cases "plaintext_bytes plaintext")
       (auto simp: rotate_secret_def vbind_run)
  then show ?thesis using history_keep assms(3) by simp
next
  case True
  let ?v = "new_secret_service c i"
  obtain n e pt where parsed: "parse_secret_name name = Ok n" "environment_id_of env = Ok e" "plaintext_bytes plaintext = Ok pt"
    using True by blast
  obtain latest t where t: "latest_record ?v n e w = (latest, t)" by force
  note same = latest_sound(1) [OF t] and drawn = drawsD [OF draws_reads t]
  show ?thesis
  proof (cases "\<exists>sec r. latest = Ok (Some (sec, r)) \<and> sr_state r \<noteq> Destroyed")
    case False
    then have "w' = t"
      using assms(2) parsed t by (cases latest) (auto simp: rotate_secret_def vbind_run split: option.splits prod.splits if_splits)
    then show ?thesis using history_keep [OF same assms(3)] by simp
  next
    case True
    then obtain sec r where r: "latest = Ok (Some (sec, r))" "sr_state r \<noteq> Destroyed" by blast
    let ?ri = "\<lparr>ri_name = n, ri_secret = sec, ri_env = e, ri_kind = sr_kind r, ri_binding = sr_brokered r, ri_bytes = pt\<rparr>"
    note l = latest_valid [OF assms(1,4) t [unfolded r(1)]]
    have "valid_input ?ri" using l by (auto simp: valid_input_def valid_record_def)
    moreover have "on_disk c (vw_fs t) (Some r)" using l r(2) record_at_content [of "vw_fs t"] same by (simp add: on_disk_def)
    moreover have "free_ids c 121 t" using assms(5) free_ids_later [of c 256 w t 121] same drawn by simp
    moreover have "write_revision ?v ?ri (Some r) t = (x, w')"
      using assms(2) parsed t r by (simp add: rotate_secret_def vbind_run)
    ultimately have "keeps_history c (vw_fs t) (vw_fs w') \<and> fs_inv (vw_fs w')"
      using write_history [OF assms(1)] same assms(3) by simp
    then show ?thesis using history_keep [OF same assms(3), of c] hist.trans assms(3) by metis
  qed
qed

lemma destroy_history:
  assumes "secret_codec_ok c" "destroy_secret (new_secret_service c i) name env w = (x, w')"
    and "fs_inv (vw_fs w)" "secrets_ok c (vw_fs w)"
  shows "keeps_history c (vw_fs w) (vw_fs w') \<and> fs_inv (vw_fs w')
    \<and> (x = Ok () \<longrightarrow> (\<exists>r n e. parse_secret_name name = Ok n \<and> environment_id_of env = Ok e \<and> sr_name r = n \<and> sr_environment r = e
          \<and> sr_state r = Destroyed \<and> record_at c (vw_fs w') (record_path r) = Some r))"
proof (cases "\<exists>n e. parse_secret_name name = Ok n \<and> environment_id_of env = Ok e")
  case False
  then have "w' = w" "is_err x"
    using assms(2) by (cases "parse_secret_name name"; cases "environment_id_of env"; auto simp: destroy_secret_def vbind_run)+
  then show ?thesis using history_keep assms(3) by auto
next
  case True
  let ?v = "new_secret_service c i"
  obtain n e where parsed: "parse_secret_name name = Ok n" "environment_id_of env = Ok e" using True by blast
  obtain latest t where t: "latest_record ?v n e w = (latest, t)" by force
  note same = latest_sound(1) [OF t]
  show ?thesis
  proof (cases "\<exists>sec r. latest = Ok (Some (sec, r))")
    case False
    then have "w' = t" "is_err x"
      using assms(2) parsed t by (cases latest; auto simp: destroy_secret_def vbind_run split: option.splits)+
    then show ?thesis using history_keep [OF same assms(3)] by auto
  next
    case True
    then obtain sec r where r: "latest = Ok (Some (sec, r))" by blast
    note l = latest_valid [OF assms(1,4) t [unfolded r]]
    have at: "record_at c (vw_fs t) (record_path r) = Some r" using l record_at_content [of "vw_fs t"] same by simp
    show ?thesis
    proof (cases "sr_state r = Destroyed")
      case True
      then have "w' = t" using assms(2) parsed t r by (simp add: destroy_secret_def vbind_run)
      then show ?thesis using history_keep [OF same assms(3)] l at True parsed by auto
    next
      case False
      let ?r = "r\<lparr>sr_state := Destroyed, sr_wrapped_dek_hex := [], sr_shredded := True\<rparr>"
      have run: "save_record ?v ?r t = (x, w')" using assms(2) parsed t r False by (simp add: destroy_secret_def vbind_run)
      have valid: "valid_record ?r" using l valid_later(2) by blast
      then have may: "may_save c (vw_fs t) ?r"
        using at evolves_steps(2) [OF False] evolves_same_place [OF evolves_steps(2) [OF False]] by (auto simp: may_save_def)
      have inv: "fs_inv (vw_fs t)" using same assms(3) by simp
      note cases = save_record_cases [OF assms(1) run inv valid]
      have "keeps_history c (vw_fs w) (vw_fs w')"
        using save_history [OF assms(1) run inv may] history_keep [OF same assms(3), of c] hist.trans assms(3) by blast
      moreover have "record_at c (vw_fs w') (record_path ?r) = Some ?r" if "x = Ok ()" using cases(4) that by auto
      ultimately show ?thesis using cases(1) l parsed by (auto intro!: exI [of _ ?r])
    qed
  qed
qed

lemma call_history:
  assumes "secret_codec_ok c" "fs_inv (vw_fs w)" "secrets_ok c (vw_fs w)" "fresh_call c w op"
  shows "keeps_history c (vw_fs w) (vw_fs (run_call (new_secret_service c i) op w)) \<and> fs_inv (vw_fs (run_call (new_secret_service c i) op w))"
proof -
  show ?thesis
  proof (cases op)
    case (SetCall n p k e b)
    then show ?thesis using set_history [OF assms(1) surjective_pairing assms(2,3)] assms(4) by (simp add: vrun_def)
  next
    case (RotateCall n p e)
    then show ?thesis using rotate_history [OF assms(1) surjective_pairing assms(2,3)] assms(4) by (simp add: vrun_def fresh_call_def)
  next
    case (DestroyCall n e)
    then show ?thesis using destroy_history [OF assms(1) surjective_pairing assms(2,3)] by (simp add: vrun_def)
  qed (use secs.keeps_reading [unfolded vkeeps_def] assms(2) same_secrets_history in \<open>simp_all add: vrun_def\<close>)
qed

lemma run_history:
  "vault_run c (fresh_call c) w w' \<Longrightarrow> secret_codec_ok c \<Longrightarrow> fs_inv (vw_fs w) \<Longrightarrow> secrets_ok c (vw_fs w)
    \<Longrightarrow> keeps_history c (vw_fs w) (vw_fs w') \<and> fs_inv (vw_fs w')"
proof (induction rule: vault_run.induct)
  case (start w)
  then show ?case using history_keep by simp
next
  case (call w t op i)
  then have "secrets_ok c (vw_fs t)" by (simp add: keeps_history_def)
  then show ?case using call call_history hist.trans by blast
next
  case (process w t u)
  then show ?case using history_keep [of t u c] hist.trans by blast
qed

end
