(* ===== verification/Secret_Roundtrip.thy ===== *)
theory Secret_Roundtrip
  imports Secret_Lifecycle Repository_Properties
begin

text \<open>
  The secret store without I/O failures: what a scan finds, that a written revision decrypts to its plaintext, and that
  storing a secret succeeds and stages it.
\<close>

section \<open>Reference definitions\<close>

text \<open>The secrets directory holds directories of files, and no directory has the name of a record.\<close>

definition tidy :: "fs \<Rightarrow> bool" where
  "tidy s \<longleftrightarrow> content s SECRETS_DIR = None
     \<and> (\<forall>d n. content s (SECRETS_DIR @ [d, n]) \<noteq> None \<longrightarrow> is_dir_node s SECRETS_DIR \<and> is_dir_node s (SECRETS_DIR @ [d]))
     \<and> (\<forall>p. is_record_file p \<longrightarrow> \<not> is_dir_node s p)"

text \<open>The keys that a process without a cache reads from disk.\<close>

definition disk_world :: "fs \<Rightarrow> vault_world" where
  "disk_world s = \<lparr>vw_fs = s\<lparr>faults := []\<rparr>, vw_rng = (\<lambda>_. CHR 0x00), vw_drawn = 0, vw_clock = (\<lambda>_. 0), vw_readings = 0,
     vw_memory_key = None, vw_cache = None\<rparr>"

definition keys_on_disk :: "secret_codec \<Rightarrow> fs \<Rightarrow> project_keys \<Rightarrow> bool" where
  "keys_on_disk c s keys \<longleftrightarrow>
     (case fst (file_load (sc_crypto c) ROOT_KEY_PATH (disk_world s)) of
        Ok root \<Rightarrow> fst (read_project_keys (new_secret_service c 0) root (disk_world s)) = Ok (Some keys)
      | Err _ \<Rightarrow> False)"

definition found :: "secret_codec \<Rightarrow> environment_id option \<Rightarrow> fs \<Rightarrow> secret_revision \<Rightarrow> bool" where
  "found c env s r \<longleftrightarrow> (env = None \<or> env = Some (sr_environment r)) \<and> (\<exists>p. is_record_file p \<and> record_at c s p = Some r)"

section \<open>Lemmas: scanning\<close>

lemma read_calm: "faults s = [] \<Longrightarrow> content s p = Some b \<Longrightarrow> is_utf8 b \<Longrightarrow> read_to_string p s = (Ok b, s)"
  by (simp add: read_to_string_def bind_io_run(1) [OF read_file_content])

lemma std_io_calm: "m (vw_fs w) = (Ok a, vw_fs w) \<Longrightarrow> std_io m w = (Ok a, w)" "m (vw_fs w) = (Err (RepoIo e), vw_fs w) \<Longrightarrow> std_io m w = (Err e, w)"
  by (simp_all add: std_io_def vmap_err_def on_fs_def)

lemma fold_vio_calm:
  "(\<And>x b. x \<in> set xs \<Longrightarrow> f x b w = (Ok (b @ g x), w)) \<Longrightarrow> fold_vio f xs b w = (Ok (b @ concat (map g xs)), w)"
  by (induction xs arbitrary: b) (simp_all add: vbind_run vok_def)

lemma secrets_readable:
  "secrets_ok c s \<Longrightarrow> is_record_file p \<Longrightarrow> content s p \<noteq> None \<Longrightarrow> \<exists>r. record_at c s p = Some r \<and> record_path r = p"
  unfolding secrets_ok_def by blast

lemma secrets_unique:
  "secrets_ok c s \<Longrightarrow> name_extension n = Some ''json'' \<Longrightarrow> content s (SECRETS_DIR @ [d, n]) \<noteq> None
    \<Longrightarrow> content s (SECRETS_DIR @ [d', n]) \<noteq> None \<Longrightarrow> d = d'"
  unfolding secrets_ok_def by blast

lemma scan_file_calm:
  assumes "faults (vw_fs w) = []" "secrets_ok c (vw_fs w)" "content (vw_fs w) (SECRETS_DIR @ [d, n]) \<noteq> None \<or> name_extension n \<noteq> Some ''json''"
  shows "scan_file (new_secret_service c i) env (SECRETS_DIR @ [d]) n rs w =
    (Ok (rs @ (if name_extension n = Some ''json'' then filter (\<lambda>r. env = None \<or> env = Some (sr_environment r))
       (case record_at c (vw_fs w) (SECRETS_DIR @ [d, n]) of Some r \<Rightarrow> [r] | None \<Rightarrow> []) else [])), w)"
proof (cases "name_extension n = Some ''json''")
  case True
  then obtain t where t: "content (vw_fs w) (SECRETS_DIR @ [d, n]) = Some t" using assms(3) by auto
  have "is_record_file (SECRETS_DIR @ [d, n])" using True by simp
  then obtain r where r: "record_at c (vw_fs w) (SECRETS_DIR @ [d, n]) = Some r"
    using secrets_readable [OF assms(2)] t by (metis option.distinct(1))
  then have "is_utf8 t" "sc_dec_record c t = Ok r" using t by (auto simp: record_at_def split: if_splits result.splits)
  then show ?thesis
    using True r std_io_calm(1) [of "read_to_string (SECRETS_DIR @ [d, n])" w t] read_calm [OF assms(1) t]
    by (auto simp: scan_file_def secret_io_def vmap_err_run vbind_run new_secret_service_def vok_def)
qed (simp add: scan_file_def vok_def)

lemma scan_calm:
  assumes "faults (vw_fs w) = []" "secrets_ok c (vw_fs w)" "tidy (vw_fs w)"
  obtains rs where "scan_records (new_secret_service c i) env w = (Ok rs, w)" "\<And>r. r \<in> set rs \<longleftrightarrow> found c env (vw_fs w) r"
proof (cases "is_dir_node (vw_fs w) SECRETS_DIR")
  case False
  then have "scan_records (new_secret_service c i) env w = (Ok [], w)"
    using read_dir_no_faults [OF assms(1), of SECRETS_DIR] assms(3) std_io_calm(2) [of "read_dir SECRETS_DIR" w]
    by (simp add: scan_records_def tidy_def NOT_FOUND_def)
  moreover have "\<not> found c env (vw_fs w) r" for r
    using assms(3) False by (auto simp: found_def tidy_def is_record_file_def record_at_def split: option.splits)
  ultimately show ?thesis using that by auto
next
  case True
  let ?v = "new_secret_service c i" and ?s = "vw_fs w"
  define G where "G d n = (if name_extension n = Some ''json'' then filter (\<lambda>r. env = None \<or> env = Some (sr_environment r))
       (case record_at c ?s (SECRETS_DIR @ [d, n]) of Some r \<Rightarrow> [r] | None \<Rightarrow> []) else [])" for d n
  obtain dirs where dirs: "read_dir SECRETS_DIR ?s = (Ok dirs, ?s)" "\<And>n. n \<in> set dirs \<longleftrightarrow> bt_get (nodes ?s) (SECRETS_DIR @ [n]) \<noteq> None"
    using read_dir_members [OF assms(1) True] by blast
  have "\<exists>g. (\<forall>rs. scan_secret_dir ?v env d rs w = (Ok (rs @ g), w)) \<and> (\<forall>r. r \<in> set g \<longleftrightarrow> (\<exists>n. r \<in> set (G d n)))" if "d \<in> set dirs" for d
  proof (cases "is_dir_node ?s (SECRETS_DIR @ [d])")
    case True
    obtain files where files: "read_dir (SECRETS_DIR @ [d]) ?s = (Ok files, ?s)" "\<And>n. n \<in> set files \<longleftrightarrow> bt_get (nodes ?s) ((SECRETS_DIR @ [d]) @ [n]) \<noteq> None"
      using read_dir_members [OF assms(1) True] by blast
    have "scan_file ?v env (SECRETS_DIR @ [d]) n rs w = (Ok (rs @ G d n), w)" if "n \<in> set files" for n rs
      unfolding G_def
    proof (rule scan_file_calm [OF assms(1,2)])
      have "\<not> is_dir_node ?s (SECRETS_DIR @ [d, n])" if "name_extension n = Some ''json''" using assms(3) that by (simp add: tidy_def)
      then show "content ?s (SECRETS_DIR @ [d, n]) \<noteq> None \<or> name_extension n \<noteq> Some ''json''"
        using that files(2) by (auto simp: content_def is_dir_node_def split: node.splits)
    qed
    then have "scan_secret_dir ?v env d rs w = (Ok (rs @ concat (map (G d) files)), w)" for rs
      using fold_vio_calm [of files "scan_file ?v env (SECRETS_DIR @ [d])" w "G d"] std_io_calm(1) [where w = w and m = "read_dir (SECRETS_DIR @ [d])", OF files(1)]
      by (simp add: scan_secret_dir_def)
    moreover have "n \<in> set files" if "r \<in> set (G d n)" for n r
      using that files(2) by (auto simp: G_def record_at_def content_def split: if_splits option.splits)
    then have "r \<in> set (concat (map (G d) files)) \<longleftrightarrow> (\<exists>n. r \<in> set (G d n))" for r by auto
    ultimately show ?thesis by blast
  next
    case False
    then have "content ?s (SECRETS_DIR @ [d]) \<noteq> None" using that dirs(2) by (auto simp: content_def is_dir_node_def split: node.splits)
    then have "scan_secret_dir ?v env d rs w = (Ok (rs @ []), w)" for rs
      using False read_dir_no_faults [OF assms(1), of "SECRETS_DIR @ [d]"] std_io_calm(2) [of "read_dir (SECRETS_DIR @ [d])" w]
      by (simp add: scan_secret_dir_def NOT_A_DIRECTORY_def)
    moreover have "G d n = []" for n
      using False assms(3) by (auto simp: G_def record_at_def tidy_def split: option.splits)
    ultimately show ?thesis by auto
  qed
  then obtain g where g: "\<And>d rs. d \<in> set dirs \<Longrightarrow> scan_secret_dir ?v env d rs w = (Ok (rs @ g d), w)"
      "\<And>d r. d \<in> set dirs \<Longrightarrow> r \<in> set (g d) \<longleftrightarrow> (\<exists>n. r \<in> set (G d n))" by metis
  let ?rs = "sort_key ordering_key (concat (map g dirs))"
  have "scan_records ?v env w = (Ok ?rs, w)"
    using fold_vio_calm [of dirs "scan_secret_dir ?v env" w g "[]"] g(1) std_io_calm(1) [where w = w and m = "read_dir SECRETS_DIR", OF dirs(1)]
    by (simp add: scan_records_def vbind_run vok_def)
  moreover have "r \<in> set ?rs \<longleftrightarrow> found c env ?s r" for r
  proof -
    have "d \<in> set dirs" if "r \<in> set (G d n)" for d n
    proof -
      have "content ?s (SECRETS_DIR @ [d, n]) \<noteq> None" using that by (auto simp: G_def record_at_def split: if_splits option.splits)
      then have "is_dir_node ?s (SECRETS_DIR @ [d])" using assms(3) unfolding tidy_def by blast
      then show ?thesis using dirs(2) by (simp add: is_dir_node_def)
    qed
    then have "r \<in> set ?rs \<longleftrightarrow> (\<exists>d n. r \<in> set (G d n))" using g(2) by fastforce
    also have "\<dots> \<longleftrightarrow> found c env ?s r"
      by (auto simp: G_def found_def is_record_file_def split: option.splits; metis)
    finally show ?thesis .
  qed
  ultimately show ?thesis by (rule that)
qed

section \<open>Lemmas: keys and sealing\<close>

lemma trim_hex: "is_hex_of_len h n \<Longrightarrow> trim h = h"
proof (cases "h = []")
  case True
  then show ?thesis by (simp add: trim_def)
next
  case False
  assume "is_hex_of_len h n"
  then show ?thesis using trim_line [OF hex_id_char False] by blast
qed

lemma crypto_laws:
  assumes "vault_crypto_ok x"
  shows "vc_open x k n a t = Some m \<longleftrightarrow> vc_seal x k n a m = Some t"
    "length k = 32 \<Longrightarrow> length n = 12 \<Longrightarrow> length a < 2 ^ 36 \<Longrightarrow> length m < 2 ^ 36 \<Longrightarrow> \<exists>t. vc_seal x k n a m = Some t"
    "decode_hex x (vc_hex_encode x b) = Ok b" "length b = 12 \<Longrightarrow> decode_nonce x (vc_hex_encode x b) = Ok b"
    "is_hex_of_len (vc_hex_encode x b) (2 * length b)"
proof -
  show "vc_open x k n a t = Some m \<longleftrightarrow> vc_seal x k n a m = Some t" using assms unfolding vault_crypto_ok_def by blast
  show "length k = 32 \<Longrightarrow> length n = 12 \<Longrightarrow> length a < 2 ^ 36 \<Longrightarrow> length m < 2 ^ 36 \<Longrightarrow> \<exists>t. vc_seal x k n a m = Some t"
    using assms unfolding vault_crypto_ok_def by (metis option.exhaust)
  show hex: "is_hex_of_len (vc_hex_encode x b) (2 * length b)" using assms unfolding vault_crypto_ok_def by blast
  have "vc_hex_decode x (vc_hex_encode x b) = Some b" using assms unfolding vault_crypto_ok_def by blast
  then show h: "decode_hex x (vc_hex_encode x b) = Ok b" by (simp add: decode_hex_def trim_hex [OF hex])
  show "length b = 12 \<Longrightarrow> decode_nonce x (vc_hex_encode x b) = Ok b" by (simp add: decode_nonce_def h)
qed

lemma encrypt_run:
  assumes "vault_crypto_ok x" "length k = 32" "length a < 2 ^ 36" "length m < 2 ^ 36"
  obtains b where "aead_encrypt x k m a w = (Ok b, w\<lparr>vw_drawn := vw_drawn w + 12\<rparr>)" "length (cb_nonce b) = 12" "aead_decrypt x k b a = Ok m"
proof -
  let ?n = "map (vw_rng w) [vw_drawn w ..< vw_drawn w + 12]"
  obtain t where t: "vc_seal x k ?n a m = Some t" using crypto_laws(2) [OF assms(1,2) _ assms(3,4), of ?n] by auto
  then have "vc_open x k ?n a t = Some m" using crypto_laws(1) [OF assms(1)] by blast
  then show thesis
    using t that [of "\<lparr>cb_nonce = ?n, cb_ciphertext = t\<rparr>"]
    by (simp add: aead_encrypt_def aead_decrypt_def fill_bytes_def vbind_def vlift_def vok_def)
qed

lemma read_calm_eq:
  "faults s = [] \<Longrightarrow> read_to_string p s =
     (case content s p of None \<Rightarrow> Err (RepoIo NOT_FOUND)
      | Some b \<Rightarrow> if is_utf8 b then Ok b else Err (RepoIo ''stream did not contain valid UTF-8''), s)"
  by (auto simp: read_to_string_def read_file_def perform_def no_next_fault bind_io_def return_io_def fail_io_def NOT_FOUND_def split: option.splits)

lemma load_calm:
  assumes "faults (vw_fs w) = []" "content (vw_fs w) p = content s p" "fst (file_load x p (disk_world s)) = Ok root"
  shows "file_load x p w = (Ok root, w)" "content (vw_fs w) p \<noteq> None"
proof -
  have perm: "set_permissions p s = (Ok (), s)" if "faults s = []" for s
    using that by (simp add: set_permissions_def perform_def no_next_fault)
  obtain t where t: "content (vw_fs w) p = Some t" "is_utf8 t" "decode_key_text x t p = Ok root"
    using assms(2,3) unfolding file_load_def disk_world_def
    by (cases "content s p")
       (auto simp: vbind_def vmap_err_def std_io_def on_fs_def read_calm_eq vlift_def vok_def split: if_splits result.splits prod.splits)
  then show "content (vw_fs w) p \<noteq> None" by simp
  show "file_load x p w = (Ok root, w)"
    using t assms(1) perm by (simp add: file_load_def vbind_def vmap_err_def std_io_def on_fs_def read_calm_eq vlift_def vok_def)
qed

lemma service_codec: "sv_codec (new_secret_service c i) = c"
  by (simp add: new_secret_service_def)

lemma read_keys_calm:
  assumes "faults (vw_fs w) = []" "content (vw_fs w) KEYS_PATH = content s KEYS_PATH"
    and "fst (read_project_keys (new_secret_service c 0) root (disk_world s)) = Ok (Some keys)"
  shows "read_project_keys (new_secret_service c i) root w = (Ok (Some keys), w)"
proof -
  let ?x = "\<lambda>s. std_io (read_to_string KEYS_PATH) s"
  obtain t where t: "content (vw_fs w) KEYS_PATH = Some t" "is_utf8 t"
    using assms(2,3) unfolding read_project_keys_def disk_world_def
    by (cases "content s KEYS_PATH") (auto simp: vmap_err_def std_io_def on_fs_def read_calm_eq split: if_splits)
  then have run: "?x w = (Ok t, w)" "?x (disk_world s) = (Ok t, disk_world s)"
    using assms(1,2) by (simp_all add: vmap_err_def std_io_def on_fs_def read_calm_eq disk_world_def)
  then show ?thesis
    using assms(3) unfolding read_project_keys_def service_codec by (simp add: vlift_def del: and_then_Ok_iff)
qed

lemma disk_key_length: "keys_on_disk c s keys \<Longrightarrow> length (pk_project keys) = 32"
proof -
  assume "keys_on_disk c s keys"
  then obtain root where r: "fst (read_project_keys (new_secret_service c 0) root (disk_world s)) = Ok (Some keys)"
    by (auto simp: keys_on_disk_def split: result.splits)
  have unwrap: "length k = 32" if "unwrap_project_key x root b = Ok k" for x b k
    using that by (auto simp: unwrap_project_key_def unwrap_child_def KEY_LEN_def split: if_splits)
  show ?thesis
    using r by (auto simp: read_project_keys_def vlift_def dest!: unwrap split: prod.splits result.splits if_splits)
qed

lemma cached_calm:
  assumes "faults (vw_fs w) = []" "is_dir_node (vw_fs w) []" "keys_on_disk c (vw_fs w) keys" "vw_cache w \<in> {None, Some (i, keys)}"
  obtains n where "cached_keys (new_secret_service c i) w = (Ok keys, w\<lparr>vw_drawn := vw_drawn w + n, vw_cache := Some (i, keys)\<rparr>)" "n \<le> 32"
proof (cases "vw_cache w")
  case (Some x)
  then show ?thesis using that [of 0] assms(4) by (simp add: cached_keys_def new_secret_service_def file_key_store_def)
next
  case None
  let ?v = "new_secret_service c i" and ?w = "w\<lparr>vw_drawn := vw_drawn w + 32\<rparr>"
  obtain root where root: "fst (file_load (sc_crypto c) ROOT_KEY_PATH (disk_world (vw_fs w))) = Ok root"
    and keys: "fst (read_project_keys (new_secret_service c 0) root (disk_world (vw_fs w))) = Ok (Some keys)"
    using assms(3) by (auto simp: keys_on_disk_def split: result.splits)
  note load = load_calm [of ?w, simplified, OF assms(1) HOL.refl root]
  have dir: "create_dir_all [] (vw_fs w) = (Ok (), vw_fs w)"
    using assms(1,2) by (simp add: create_dir_all_def no_next_fault path_prefixes_def is_dir_node_def)
  have "create_new_file ROOT_KEY_PATH (vw_fs w) = (Err (RepoIo ALREADY_EXISTS), vw_fs w)"
    using load(2) assms(1) by (auto simp: create_new_file_def perform_def no_next_fault content_def split: option.splits)
  then have "create_private_file_exclusive ROOT_KEY_PATH b (vw_fs w) = (Err (RepoIo ALREADY_EXISTS), vw_fs w)" for b
    using dir by (simp add: create_private_file_exclusive_def bind_io_run ROOT_KEY_PATH_def)
  then have obtain_root: "file_obtain (sc_crypto c) ROOT_KEY_PATH w = (Ok root, ?w)"
    using load(1) by (simp add: file_obtain_def vbind_def fill_bytes_def std_io_def vmap_err_def on_fs_def)
  have "load_or_init_keys ?v w = (Ok keys, ?w)"
    using obtain_root read_keys_calm [of ?w, simplified, OF assms(1) HOL.refl keys, of i]
    by (simp add: load_or_init_keys_def vbind_def vmap_err_def new_secret_service_def file_key_store_def vok_def)
  then show ?thesis
    using that [of 32] None by (simp add: cached_keys_def vbind_run new_secret_service_def file_key_store_def)
qed

lemma decrypt_sealed:
  assumes "secret_codec_ok c" "aead_decrypt (sc_crypto c) (pk_project keys) wk DEK_WRAP_AAD = Ok dek" "length dek = 32"
    and "aead_decrypt (sc_crypto c) dek b aad = Ok m" "length (cb_nonce b) = 12" "sc_aad c (sr_aad r) = Ok aad"
    and "sr_wrapped_dek_hex r = encode_wrapped c wk" "sr_nonce_hex r = vc_hex_encode (sc_crypto c) (cb_nonce b)"
    and "sr_ciphertext_hex r = vc_hex_encode (sc_crypto c) (cb_ciphertext b)"
    and "sr_fingerprint_hex r = keyed_fingerprint (sc_crypto c) (pk_fingerprint keys) m"
    and k: "cached_keys (new_secret_service c j) u = (Ok keys, u')"
  shows "decrypt_record (new_secret_service c j) r u = (Ok m, u')"
proof -
  have x: "vault_crypto_ok (sc_crypto c)" using assms(1) by (simp add: secret_codec_ok_def)
  obtain wt where wt: "sc_enc_wrapped c wk = Ok wt" "sc_dec_wrapped c wt = Some wk" using assms(1) unfolding secret_codec_ok_def by blast
  have "decode_wrapped_json c (sr_wrapped_dek_hex r) = Ok wk"
    using wt crypto_laws(3) [OF x] assms(7) by (simp add: decode_wrapped_json_def encode_wrapped_def)
  moreover have "unwrap_dek (sc_crypto c) (pk_project keys) wk = Ok dek"
    using assms(2,3) by (simp add: unwrap_dek_def unwrap_child_def KEY_LEN_def)
  moreover have "decode_nonce (sc_crypto c) (sr_nonce_hex r) = Ok (cb_nonce b)" "decode_hex (sc_crypto c) (sr_ciphertext_hex r) = Ok (cb_ciphertext b)"
    using crypto_laws(3,4) [OF x] assms(5,8,9) by simp_all
  moreover have "decrypt_with_dek (sc_crypto c) dek \<lparr>cb_nonce = cb_nonce b, cb_ciphertext = cb_ciphertext b\<rparr> aad = Ok m"
    using assms(4) by (simp add: decrypt_with_dek_def aead_decrypt_def)
  moreover have "verify_fingerprint (sc_crypto c) (pk_fingerprint keys) m (sr_fingerprint_hex r)"
    using assms(10) by (simp add: verify_fingerprint_def keyed_fingerprint_def)
  ultimately show ?thesis using k assms(6) unfolding decrypt_record_def service_codec by (simp add: vbind_run vlift_def)
qed

lemma seal_calm:
  assumes "secret_codec_ok c" "valid_input ri" "length (ri_bytes ri) < 2 ^ 36" "length (pk_project keys) = 32"
    and k: "cached_keys (new_secret_service c i) w = (Ok keys, w1)"
  obtains r t where "seal_revision (new_secret_service c i) ri w = (Ok r, t)" "vw_fs t = vw_fs w1" "vw_cache t = vw_cache w1" "vw_rng t = vw_rng w1"
    "sr_name r = ri_name ri" "sr_environment r = ri_env ri" "sr_kind r = ri_kind ri" "sr_brokered r = ri_binding ri"
    "sr_created_nanos r = of_nat (vw_clock w1 (Suc (vw_readings w1)))"
    "\<And>j u u'. cached_keys (new_secret_service c j) u = (Ok keys, u') \<Longrightarrow> decrypt_record (new_secret_service c j) r u = (Ok (ri_bytes ri), u')"
proof -
  let ?v = "new_secret_service c i" and ?x = "sc_crypto c"
  have x: "vault_crypto_ok ?x" using assms(1) by (simp add: secret_codec_ok_def)
  define revision where "revision = ''sec_rev_'' @ vc_hex_encode ?x (map (vw_rng w1) [vw_drawn w1 ..< vw_drawn w1 + 16])"
  define w2 where "w2 = w1\<lparr>vw_drawn := vw_drawn w1 + 16\<rparr>"
  define dek where "dek = map (vw_rng w1) [vw_drawn w2 ..< vw_drawn w2 + 32]"
  define w3 where "w3 = w2\<lparr>vw_drawn := vw_drawn w2 + 32\<rparr>"
  define a where "a = \<lparr>aad_project = LOCAL_PROJECT_ID, aad_secret = ri_secret ri, aad_revision = revision, aad_kind = ri_kind ri, aad_format = SECRET_FORMAT_VERSION\<rparr>"
  have id: "parse_prefixed_id ''sec_rev_'' revision = Ok revision"
    unfolding revision_def by (rule parse_hex_ident [OF crypto_laws(5) [OF x]]) (simp_all add: MAX_ID_CONTENT_LEN_def)
  have project: "parse_prefixed_id ''proj_'' LOCAL_PROJECT_ID = Ok LOCAL_PROJECT_ID" by code_simp
  have "valid_aad a" using id project assms(2) by (simp add: valid_aad_def a_def valid_input_def)
  then obtain aad where aad: "sc_aad c a = Ok aad" "length aad < 2 ^ 36" using assms(1) unfolding secret_codec_ok_def by blast
  have dek: "length dek = 32" by (simp add: dek_def)
  obtain b where b: "aead_encrypt ?x dek (ri_bytes ri) aad w3 = (Ok b, w3\<lparr>vw_drawn := vw_drawn w3 + 12\<rparr>)" "length (cb_nonce b) = 12" "aead_decrypt ?x dek b aad = Ok (ri_bytes ri)"
    using encrypt_run [OF x dek aad(2) assms(3)] by blast
  define w4 where "w4 = w3\<lparr>vw_drawn := vw_drawn w3 + 12\<rparr>"
  have short: "length DEK_WRAP_AAD < 2 ^ 36" "length dek < 2 ^ 36" by (simp_all add: DEK_WRAP_AAD_def dek)
  obtain wk where wk: "aead_encrypt ?x (pk_project keys) dek DEK_WRAP_AAD w4 = (Ok wk, w4\<lparr>vw_drawn := vw_drawn w4 + 12\<rparr>)"
    "aead_decrypt ?x (pk_project keys) wk DEK_WRAP_AAD = Ok dek"
    using encrypt_run [OF x assms(4) short] by blast
  define w5 where "w5 = w4\<lparr>vw_drawn := vw_drawn w4 + 12\<rparr>"
  define r where "r = \<lparr>sr_id = revision, sr_secret = ri_secret ri, sr_name = ri_name ri, sr_environment = ri_env ri, sr_kind = ri_kind ri,
         sr_brokered = ri_binding ri, sr_state = Active, sr_created_at = of_nat (vw_clock w5 (vw_readings w5) div 1000000000),
         sr_created_nanos = of_nat (vw_clock w5 (Suc (vw_readings w5))),
         sr_ciphertext_hex = vc_hex_encode ?x (cb_ciphertext b), sr_nonce_hex = vc_hex_encode ?x (cb_nonce b),
         sr_wrapped_dek_hex = encode_wrapped c wk, sr_aad = a,
         sr_fingerprint_hex = keyed_fingerprint ?x (pk_fingerprint keys) (ri_bytes ri), sr_shredded = False\<rparr>"
  define w6 where "w6 = w5\<lparr>vw_readings := Suc (Suc (vw_readings w5))\<rparr>"
  have rid: "new_revision_id ?v w1 = (Ok revision, w2)"
    using id by (simp add: new_revision_id_def random_suffix_def vbind_def fill_bytes_def vok_def vlift_def revision_def w2_def new_secret_service_def)
  have gen: "(generate_key :: (core_error, key) vio) w2 = (Ok dek, w3)" by (simp add: generate_key_def fill_bytes_def dek_def w3_def w2_def)
  have clocks: "(unix_now :: (core_error, u64) vio) w5 = (Ok (sr_created_at r), w5\<lparr>vw_readings := Suc (vw_readings w5)\<rparr>)"
    "(unix_nanos :: (core_error, u64) vio) (w5\<lparr>vw_readings := Suc (vw_readings w5)\<rparr>) = (Ok (sr_created_nanos r), w6)"
    by (simp_all add: unix_now_def unix_nanos_def clock_nanos_def vbind_def vok_def r_def w6_def)
  have enc: "vmap_err CoreCrypto (encrypt_with_dek ?x dek (ri_bytes ri) aad) w3 = (Ok b, w4)"
    "vmap_err CoreCrypto (wrap_dek ?x (pk_project keys) dek) w4 = (Ok wk, w5)"
    using b(1) wk(1) by (simp_all add: encrypt_with_dek_def wrap_dek_def wrap_child_def vmap_err_run w4_def w5_def)
  have run: "seal_revision ?v ri w = (Ok r, w6)"
    using aad(1) k rid gen enc clocks project unfolding seal_revision_def Let_def service_codec a_def
    by (simp add: vbind_run) (simp add: r_def a_def)
  have dec: "decrypt_record (new_secret_service c j) r u = (Ok (ri_bytes ri), u')"
    if "cached_keys (new_secret_service c j) u = (Ok keys, u')" for j u u'
    by (rule decrypt_sealed [OF assms(1) wk(2) dek b(3,2) _ _ _ _ _ that]) (simp_all add: r_def aad(1))
  show thesis
    by (rule that [OF run _ _ _ _ _ _ _ _ dec]) (simp_all add: r_def w6_def w5_def w4_def w3_def w2_def)
qed

lemma keys_kept:
  assumes "keys_on_disk c s keys" "content t KEYS_PATH = content s KEYS_PATH" "content t ROOT_KEY_PATH = content s ROOT_KEY_PATH"
  shows "keys_on_disk c t keys"
proof -
  have t: "faults (vw_fs (disk_world t)) = []" "content (vw_fs (disk_world t)) = content t" by (simp_all add: disk_world_def)
  obtain root where root: "fst (file_load (sc_crypto c) ROOT_KEY_PATH (disk_world s)) = Ok root"
    and keys: "fst (read_project_keys (new_secret_service c 0) root (disk_world s)) = Ok (Some keys)"
    using assms(1) by (auto simp: keys_on_disk_def split: result.splits)
  then show ?thesis
    using load_calm(1) [of "disk_world t", OF t(1) _ root] read_keys_calm [of "disk_world t", OF t(1) _ keys, of 0] t(2) assms(2,3)
    by (simp add: keys_on_disk_def)
qed

section \<open>Lemmas: storing a secret\<close>

text \<open>The files that storing a secret writes, once the keys are there.\<close>

definition vault_files :: "path set" where
  "vault_files = {SECRETS_DIR @ [d, i @ ''.json''] | d i. is_ok (parse_prefixed_id ''sec_'' d) \<and> is_ok (parse_prefixed_id ''sec_rev_'' i)} \<union> {INDEX_FILE}"

definition vault_ready :: "secret_codec \<Rightarrow> project_keys \<Rightarrow> staging_index \<Rightarrow> fs \<Rightarrow> bool" where
  "vault_ready c keys ix s \<longleftrightarrow> roomy vault_files s \<and> is_dir_node s [] \<and> tidy s \<and> secrets_ok c s \<and> keys_on_disk c s keys
     \<and> index_at (sc_repo c) s = Some ix \<and> valid_index ix"

lemma id_not_temp: "is_ok (parse_prefixed_id prefix i) \<Longrightarrow> prefix \<in> {''sec_'', ''sec_rev_''} \<Longrightarrow> \<not> starts_with ''.tmp-'' (i @ x)"
  by (auto simp: is_ok_iff parse_prefixed_id_Ok_iff starts_with_iff)

lemma two_prefixes: "path_prefixes [a, b] = [[], [a], [a, b]]"
  by (simp add: path_prefixes_def upt_rec)

lemma vault_layout: "layout vault_files"
  unfolding layout_def
proof (intro ballI)
  fix p
  assume "p \<in> vault_files"
  then consider d i where "p = SECRETS_DIR @ [d, i @ ''.json'']" "is_ok (parse_prefixed_id ''sec_'' d)" "is_ok (parse_prefixed_id ''sec_rev_'' i)" | "p = INDEX_FILE"
    by (auto simp: vault_files_def)
  then show "p \<noteq> [] \<and> \<not> is_temp ''.tmp-'' p \<and> (\<forall>q \<in> set (path_prefixes (butlast p)). q \<notin> vault_files \<and> \<not> is_temp ''.tmp-'' q)"
  proof cases
    case 1
    have "set (path_prefixes (butlast p)) = {[], [''secrets''], [''secrets'', d]}"
      using 1 two_prefixes by (simp add: SECRETS_DIR_def)
    moreover have "\<not> is_temp ''.tmp-'' [''secrets'', d]" using id_not_temp [OF 1(2), of "[]"] by (simp add: is_temp_def)
    moreover have "\<not> is_temp ''.tmp-'' p" using id_not_temp [OF 1(3)] 1 by (simp add: is_temp_def SECRETS_DIR_def)
    ultimately show ?thesis using 1(1) by (auto simp: vault_files_def SECRETS_DIR_def INDEX_FILE_def is_temp_def starts_with_iff)
  next
    case 2
    then show ?thesis by (auto simp: INDEX_FILE_def path_prefixes_def is_temp_def vault_files_def SECRETS_DIR_def starts_with_iff)
  qed
qed

lemma publish_tidy:
  assumes "roomy vault_files s" "tidy s" "is_dir_node s []" "p \<in> vault_files" "publish prefix p b s = (Ok (), s')"
    and "prefix = ''.tmp-'' \<or> prefix = ''.tmp-index-''"
  shows "tidy s' \<and> is_dir_node s' []"
proof -
  have temp: "is_temp prefix t \<Longrightarrow> is_temp ''.tmp-'' t" for t using assms(6) is_temp_index by auto
  have p: "p \<noteq> []" "\<not> is_temp prefix p" using vault_layout assms(4) temp unfolding layout_def by blast+
  have s: "faults s = []" "fs_inv s" "writable s p" "\<And>t. is_temp prefix t \<Longrightarrow> \<not> is_dir_node s t"
    using assms(1,4) temp unfolding roomy_def by blast+
  have dirs: "\<And>q. is_dir_node s' q \<longleftrightarrow> is_dir_node s q \<or> q \<in> set (path_prefixes (butlast p))"
    using publish_ok [OF s(1,2) p(1) s(3) p(2) s(4), of b] assms(5) by auto
  have shape: "p = INDEX_FILE \<or> (\<exists>d n. p = SECRETS_DIR @ [d, n])"
    using assms(4) by (auto simp: vault_files_def)
  then have prefixes: "set (path_prefixes (butlast p)) = (if p = INDEX_FILE then {[]} else {[], SECRETS_DIR, butlast p})"
  proof
    assume "p = INDEX_FILE"
    then show ?thesis by (simp add: INDEX_FILE_def path_prefixes_def)
  next
    assume "\<exists>d n. p = SECRETS_DIR @ [d, n]"
    then show ?thesis using two_prefixes by (auto simp: SECRETS_DIR_def INDEX_FILE_def)
  qed
  have "content s' SECRETS_DIR = content s SECRETS_DIR"
  proof -
    have "SECRETS_DIR \<noteq> p" "\<not> is_temp ''.tmp-'' SECRETS_DIR"
      using shape by (auto simp: SECRETS_DIR_def INDEX_FILE_def is_temp_def starts_with_iff)
    then show ?thesis using publish_cases [OF assms(5) s(2)] temp by blast
  qed
  moreover have "is_dir_node s' SECRETS_DIR \<and> is_dir_node s' (SECRETS_DIR @ [d])" if "content s' (SECRETS_DIR @ [d, n]) \<noteq> None" for d n
  proof (cases "beside p (SECRETS_DIR @ [d, n])")
    case True
    then have "p \<noteq> INDEX_FILE" "butlast p = SECRETS_DIR @ [d]" by (auto simp: beside_def INDEX_FILE_def SECRETS_DIR_def)
    then show ?thesis using dirs prefixes by auto
  next
    case False
    then have "content s (SECRETS_DIR @ [d, n]) \<noteq> None"
      using that only_run [OF publish_beside assms(5)] assms(6) s(2) by (auto simp: touches_def)
    then show ?thesis using assms(2) dirs unfolding tidy_def by blast
  qed
  moreover have "\<not> is_dir_node s' q" if q: "is_record_file q" for q
    using q dirs prefixes shape assms(2) by (auto simp: tidy_def is_record_file_def SECRETS_DIR_def split: if_splits)
  ultimately show ?thesis using assms(2,3) dirs by (simp add: tidy_def)
qed

lemma index_kept:
  assumes "roomy F s" "roomy F s'" "INDEX_FILE \<in> F" "content s' INDEX_FILE = content s INDEX_FILE"
  shows "index_at c s' = index_at c s"
proof -
  have "bt_get (nodes t) INDEX_FILE = None \<longleftrightarrow> content t INDEX_FILE = None" if "roomy F t" for t
    using that assms(3) by (auto simp: roomy_def writable_def content_def is_dir_node_def split: option.splits node.splits)
  then show ?thesis using assms by (simp add: index_at_def)
qed

lemma key_paths_elsewhere:
  "p \<in> vault_files \<Longrightarrow> KEYS_PATH \<noteq> p \<and> ROOT_KEY_PATH \<noteq> p" "\<not> is_temp ''.tmp-'' KEYS_PATH" "\<not> is_temp ''.tmp-'' ROOT_KEY_PATH"
  by (auto simp: vault_files_def KEYS_PATH_def ROOT_KEY_PATH_def SECRETS_DIR_def INDEX_FILE_def is_temp_def starts_with_iff)

lemma is_temp_index_file: "\<not> is_temp ''.tmp-'' INDEX_FILE"
  by (simp add: INDEX_FILE_def is_temp_def starts_with_iff)

lemma save_calm:
  assumes "secret_codec_ok c" "vault_ready c keys ix (vw_fs w)" "may_save c (vw_fs w) r"
  obtains s' where "save_record (new_secret_service c i) r w = (Ok (), w\<lparr>vw_fs := s'\<rparr>)" "vault_ready c keys ix s'"
    "record_at c s' (record_path r) = Some r" "\<And>p. is_record_file p \<Longrightarrow> p \<noteq> record_path r \<Longrightarrow> content s' p = content (vw_fs w) p"
proof -
  let ?s = "vw_fs w" and ?p = "record_path r"
  have ready: "roomy vault_files ?s" "is_dir_node ?s []" "tidy ?s" "secrets_ok c ?s" "keys_on_disk c ?s keys" "index_at (sc_repo c) ?s = Some ix" "valid_index ix"
    using assms(2) by (simp_all add: vault_ready_def)
  have valid: "valid_record r" using assms(3) by (simp add: may_save_def)
  then have F: "?p \<in> vault_files" "?p \<noteq> INDEX_FILE" by (auto simp: vault_files_def record_path_def valid_record_def SECRETS_DIR_def INDEX_FILE_def)
  obtain t where t: "sc_enc_record c r = Ok t" using assms(1) valid unfolding secret_codec_ok_def by blast
  obtain s' where s': "publish ''.tmp-'' ?p t ?s = (Ok (), s')" "roomy vault_files s'" "\<And>q. q \<noteq> ?p \<Longrightarrow> \<not> is_temp ''.tmp-'' q \<Longrightarrow> content s' q = content ?s q"
    using publish_roomy [OF vault_layout ready(1) F(1), of "''.tmp-''" t] by blast
  have run: "save_record (new_secret_service c i) r w = (Ok (), w\<lparr>vw_fs := s'\<rparr>)"
    using s'(1) t by (simp add: save_record_def service_codec vbind_run secret_io_def std_io_def vmap_err_def on_fs_def write_atomic_def)
  have inv: "fs_inv ?s" using ready(1) by (simp add: roomy_def)
  note cases = save_record_cases [OF assms(1) run inv valid]
  have "secrets_ok c s'" using save_history [OF assms(1) run inv assms(3)] ready(4) by (simp add: keeps_history_def)
  moreover have "content s' INDEX_FILE = content ?s INDEX_FILE"
    using s'(3) F(2) by (metis is_temp_index_file)
  then have "index_at (sc_repo c) s' = Some ix" using index_kept [OF ready(1) s'(2)] ready(6) by (simp add: vault_files_def)
  moreover have "keys_on_disk c s' keys" using keys_kept [OF ready(5)] s'(3) key_paths_elsewhere F(1) by metis
  ultimately have "vault_ready c keys ix s'"
    using publish_tidy [OF ready(1,3,2) F(1) s'(1)] s'(2) ready(7) by (simp add: vault_ready_def)
  then show thesis using that [OF run] cases(3,4) by auto
qed

definition binding_entry :: "secret_binding option \<Rightarrow> secret_revision_id \<Rightarrow> manifest_entry" where
  "binding_entry b revision = (case b of Some x \<Rightarrow> BrokeredEntry (sb_credential x) revision | None \<Rightarrow> SecretEntry revision)"

lemma valid_stage:
  "valid_index ix \<Longrightarrow> is_ok (parse_variable_name name) \<Longrightarrow> valid_entry e \<Longrightarrow> valid_index (bt_insert name (StagedSet e) ix)"
  using set_bt_insert [of name "StagedSet e" ix] by (fastforce simp: valid_index_def list_all_iff)

lemma stage_calm:
  assumes "repo_codec_ok (sc_repo c)" "vault_ready c keys ix (vw_fs w)" "is_ok (parse_variable_name name)" "valid_entry (binding_entry b revision)"
  obtains s' where "stage_binding (new_secret_service c i) name b revision w = (Ok (), w\<lparr>vw_fs := s'\<rparr>)"
    "vault_ready c keys (bt_insert name (StagedSet (binding_entry b revision)) ix) s'"
    "\<And>p. is_record_file p \<Longrightarrow> content s' p = content (vw_fs w) p"
proof -
  let ?s = "vw_fs w" and ?ix = "bt_insert name (StagedSet (binding_entry b revision)) ix"
  have ready: "roomy vault_files ?s" "is_dir_node ?s []" "tidy ?s" "secrets_ok c ?s" "keys_on_disk c ?s keys" "index_at (sc_repo c) ?s = Some ix" "valid_index ix"
    using assms(2) by (simp_all add: vault_ready_def)
  have F: "INDEX_FILE \<in> vault_files" by (simp add: vault_files_def)
  have inv: "fs_inv ?s" "faults ?s = []" using ready(1) by (simp_all add: roomy_def)
  have vi: "valid_index ?ix" by (rule valid_stage [OF ready(7) assms(3,4)])
  obtain e where e: "enc_index (sc_repo c) ?ix = Ok e" "is_utf8 e" "dec_index (sc_repo c) e = Ok ?ix"
    using codec_index(1) [OF assms(1) vi] by blast
  obtain s' where s': "publish ''.tmp-index-'' INDEX_FILE e ?s = (Ok (), s')" "roomy vault_files s'" "content s' INDEX_FILE = Some e"
    "\<And>q. q \<noteq> INDEX_FILE \<Longrightarrow> \<not> is_temp ''.tmp-'' q \<Longrightarrow> content s' q = content ?s q"
    using publish_roomy [OF vault_layout ready(1) F, of "''.tmp-index-''" e] by blast
  have change: "add_entry (sc_repo c) name (binding_entry b revision) ?s = (Ok (), s')"
    using load_index_no_faults [of ?s "sc_repo c" ix] inv ready(6) e(1) s'(1)
    by (simp add: add_entry_def stage_change_def save_index_def bind_io_run stage_intent_def)
  then have run: "stage_binding (new_secret_service c i) name b revision w = (Ok (), w\<lparr>vw_fs := s'\<rparr>)"
    by (simp add: stage_binding_def service_codec vmap_err_def on_fs_def binding_entry_def)
  have same: "content s' p = content ?s p" if "is_record_file p" for p
    using only_run [OF add_entry_beside change] inv that by (auto simp: touches_def beside_def is_record_file_def INDEX_FILE_def SECRETS_DIR_def)
  have "secrets_ok c s'"
    using vkeepsD [OF stage_history run inv(1), of c] ready(4) by (simp add: keeps_history_def)
  moreover have "keys_on_disk c s' keys" using keys_kept [OF ready(5)] s'(4) key_paths_elsewhere F by metis
  moreover have "index_at (sc_repo c) s' = Some ?ix" using index_at_content [OF s'(3) e(2,3)] .
  ultimately have "vault_ready c keys ?ix s'"
    using publish_tidy [OF ready(1,3,2) F s'(1)] s'(2) vi by (simp add: vault_ready_def)
  then show thesis using that [OF run] same by blast
qed

section \<open>Lemmas: reading a secret\<close>

lemma found_place: "secrets_ok c s \<Longrightarrow> found c env s r \<Longrightarrow> is_record_file (record_path r) \<and> record_at c s (record_path r) = Some r"
proof -
  assume ok: "secrets_ok c s" and f: "found c env s r"
  obtain p where p: "is_record_file p" "record_at c s p = Some r" using f by (auto simp: found_def)
  then have "content s p \<noteq> None" by (auto simp: record_at_def split: option.splits)
  then have "record_path r = p" using secrets_readable [OF ok p(1)] p(2) by auto
  then show ?thesis using p by simp
qed

lemma found_unique: "secrets_ok c s \<Longrightarrow> found c e s r \<Longrightarrow> found c e' s r' \<Longrightarrow> sr_id r = sr_id r' \<Longrightarrow> r = r'"
proof -
  assume ok: "secrets_ok c s" and f: "found c e s r" "found c e' s r'" and i: "sr_id r = sr_id r'"
  note p = found_place [OF ok f(1)] found_place [OF ok f(2)]
  have at: "content s (record_path r) \<noteq> None" "content s (record_path r') \<noteq> None" "name_extension (sr_id r @ ''.json'') = Some ''json''"
    using p by (auto simp: record_at_def record_path_def split: option.splits)
  have "sr_secret r = sr_secret r'"
    by (rule secrets_unique [OF ok at(3)]) (use at(1,2) i in \<open>simp_all add: record_path_def\<close>)
  then have "record_path r = record_path r'" using i by (simp only: record_path_def)
  then have "Some r = Some r'" using conjunct2 [OF p(1)] conjunct2 [OF p(2)] by argo
  then show ?thesis by simp
qed

lemma resolve_calm:
  assumes "faults (vw_fs w) = []" "secrets_ok c (vw_fs w)" "tidy (vw_fs w)" "found c None (vw_fs w) r" "sr_name r = name"
    and "sr_kind r \<noteq> Brokered" "sr_state r \<noteq> Destroyed" "decrypt_record (new_secret_service c i) r w = (Ok m, w')"
  shows "resolve_revision (new_secret_service c i) name (sr_id r) w = (Ok (Plain m), w')"
proof -
  obtain rs where rs: "scan_records (new_secret_service c i) None w = (Ok rs, w)" "\<And>r. r \<in> set rs \<longleftrightarrow> found c None (vw_fs w) r"
    using scan_calm [OF assms(1-3)] by blast
  have "find (\<lambda>x. sr_id x = sr_id r) rs = Some r"
  proof (cases "find (\<lambda>x. sr_id x = sr_id r) rs")
    case None
    then show ?thesis using rs(2) assms(4) by (auto simp: find_None_iff)
  next
    case (Some x)
    then have "x \<in> set rs" "sr_id x = sr_id r" by (auto simp: find_Some_iff)
    then show ?thesis using Some found_unique [OF assms(2) _ assms(4)] rs(2) by blast
  qed
  then show ?thesis using rs(1) assms(5-8) by (simp add: resolve_revision_def vbind_run vok_def)
qed

lemma pick_latest_max:
  "r \<in> set rs \<Longrightarrow> (\<And>x. x \<in> set rs \<Longrightarrow> x \<noteq> r \<Longrightarrow> ordering_key x < ordering_key r) \<Longrightarrow> pick_latest rs = Some r"
proof (induction rs)
  case (Cons a rs)
  show ?case
  proof (cases "r \<in> set rs")
    case True
    then have "pick_latest rs = Some r" using Cons by simp
    then show ?thesis using Cons.prems(2) [of a] by (cases "a = r") auto
  next
    case False
    then have "a = r" using Cons.prems(1) by simp
    then show ?thesis
      using Cons.prems(2) pick_latest_in [of rs] False by (cases "pick_latest rs") (auto dest: leD)
  qed
qed simp

lemma latest_calm:
  assumes "faults (vw_fs w) = []" "secrets_ok c (vw_fs w)" "tidy (vw_fs w)"
  obtains l where "latest_record (new_secret_service c i) name env w = (Ok l, w)"
    "\<And>r. found c (Some env) (vw_fs w) r \<Longrightarrow> sr_name r = name
       \<Longrightarrow> (\<And>x. found c (Some env) (vw_fs w) x \<Longrightarrow> sr_name x = name \<Longrightarrow> x \<noteq> r \<Longrightarrow> ordering_key x < ordering_key r)
       \<Longrightarrow> l = Some (sr_secret r, r)"
proof -
  obtain rs where rs: "scan_records (new_secret_service c i) (Some env) w = (Ok rs, w)" "\<And>r. r \<in> set rs \<longleftrightarrow> found c (Some env) (vw_fs w) r"
    using scan_calm [OF assms] by blast
  let ?rs = "filter (\<lambda>r. sr_name r = name) rs"
  have "latest_record (new_secret_service c i) name env w = (Ok (map_option (\<lambda>r. (sr_secret r, r)) (pick_latest ?rs)), w)"
    using rs(1) by (simp add: latest_record_def records_for_def vbind_run vbind_assoc vok_def)
  moreover have "pick_latest ?rs = Some r" if "found c (Some env) (vw_fs w) r" "sr_name r = name"
      "\<And>x. found c (Some env) (vw_fs w) x \<Longrightarrow> sr_name x = name \<Longrightarrow> x \<noteq> r \<Longrightarrow> ordering_key x < ordering_key r" for r
    using pick_latest_max [of r ?rs] that rs(2) by auto
  ultimately show thesis using that by force
qed

section \<open>Lemmas: writing a revision\<close>

text \<open>The record files after a write: the new one, the old ones, and the previous one revoked.\<close>

definition records_after :: "secret_codec \<Rightarrow> fs \<Rightarrow> secret_revision \<Rightarrow> secret_revision option \<Rightarrow> fs \<Rightarrow> bool" where
  "records_after c s r previous t \<longleftrightarrow> record_at c t (record_path r) = Some r
     \<and> (\<forall>p. is_record_file p \<and> p \<noteq> record_path r \<longrightarrow>
          record_at c t p = (case previous of Some old \<Rightarrow> if p = record_path old then Some (old\<lparr>sr_state := Revoked\<rparr>) else record_at c s p
                                            | None \<Rightarrow> record_at c s p))"

lemma revoke_calm:
  assumes "secret_codec_ok c" "vault_ready c keys ix (vw_fs w)" "on_disk c (vw_fs w) previous"
    and "records_after c s r None (vw_fs w)" "\<And>old. previous = Some old \<Longrightarrow> record_path old \<noteq> record_path r"
  obtains s' where "(case previous of Some old \<Rightarrow> save_record (new_secret_service c i) (old\<lparr>sr_state := Revoked\<rparr>) | None \<Rightarrow> vok ()) w = (Ok (), w\<lparr>vw_fs := s'\<rparr>)"
    "vault_ready c keys ix s'" "records_after c s r previous s'"
proof (cases previous)
  case None
  then show ?thesis using that [of "vw_fs w"] assms(2,4) by (simp add: vok_def)
next
  case (Some old)
  let ?old = "old\<lparr>sr_state := Revoked\<rparr>"
  have disk: "sr_state old \<noteq> Destroyed" "record_at c (vw_fs w) (record_path old) = Some old" using assms(3) Some by (simp_all add: on_disk_def)
  have place: "record_path ?old = record_path old" by (simp add: record_path_def)
  have "may_save c (vw_fs w) ?old"
    using decoded_valid [OF assms(1) disk(2)] disk evolves_steps(1) place by (auto simp: may_save_def valid_later)
  then obtain s' where s': "save_record (new_secret_service c i) ?old w = (Ok (), w\<lparr>vw_fs := s'\<rparr>)" "vault_ready c keys ix s'"
    "record_at c s' (record_path old) = Some ?old" "\<And>p. is_record_file p \<Longrightarrow> p \<noteq> record_path old \<Longrightarrow> content s' p = content (vw_fs w) p"
    using save_calm [OF assms(1,2), of ?old i] place by auto
  have r: "record_path old \<noteq> record_path r" using assms(5) Some by simp
  have same: "record_at c s' p = record_at c (vw_fs w) p" if "is_record_file p" "p \<noteq> record_path old" for p
    using s'(4) [OF that] record_at_content by blast
  have "is_record_file (record_path r)"
    using assms(1,4) decoded_valid record_extension unfolding records_after_def valid_record_def record_path_def record_file_simps(4) by blast
  then have "records_after c s r previous s'" using assms(4) same s'(3) Some r by (auto simp: records_after_def)
  then show ?thesis using that s'(1,2) Some by simp
qed

lemma write_calm:
  assumes "secret_codec_ok c" "repo_codec_ok (sc_repo c)" "vault_ready c keys ix (vw_fs w)" "vw_cache w \<in> {None, Some (i, keys)}"
    and "valid_input ri" "length (ri_bytes ri) < 2 ^ 36" "free_ids c 121 w" "on_disk c (vw_fs w) previous"
  obtains r w' where "write_revision (new_secret_service c i) ri previous w = (Ok (sr_id r), w')"
    "vault_ready c keys (bt_insert (ri_name ri) (StagedSet (binding_entry (ri_binding ri) (sr_id r))) ix) (vw_fs w')"
    "records_after c (vw_fs w) r previous (vw_fs w')" "content (vw_fs w) (record_path r) = None" "valid_record r" "sr_state r = Active" "sr_name r = ri_name ri" "sr_environment r = ri_env ri"
    "sr_kind r = ri_kind ri" "sr_created_nanos r = of_nat (vw_clock w (Suc (vw_readings w)))"
    "\<And>j u u'. cached_keys (new_secret_service c j) u = (Ok keys, u') \<Longrightarrow> decrypt_record (new_secret_service c j) r u = (Ok (ri_bytes ri), u')"
proof -
  let ?v = "new_secret_service c i" and ?s = "vw_fs w"
  have calm: "faults ?s = []" "is_dir_node ?s []" "keys_on_disk c ?s keys" using assms(3) by (simp_all add: vault_ready_def roomy_def)
  obtain n where k: "cached_keys ?v w = (Ok keys, w\<lparr>vw_drawn := vw_drawn w + n, vw_cache := Some (i, keys)\<rparr>)"
    using cached_calm [OF calm assms(4)] by blast
  obtain r t where r: "seal_revision ?v ri w = (Ok r, t)" "vw_fs t = ?s" "sr_name r = ri_name ri" "sr_environment r = ri_env ri" "sr_kind r = ri_kind ri"
    "sr_brokered r = ri_binding ri" "sr_created_nanos r = of_nat (vw_clock w (Suc (vw_readings w)))"
    and dec: "\<And>j u u'. cached_keys (new_secret_service c j) u = (Ok keys, u') \<Longrightarrow> decrypt_record (new_secret_service c j) r u = (Ok (ri_bytes ri), u')"
    by (rule seal_calm [OF assms(1,5,6) disk_key_length [OF calm(3)] k]) (rule that, assumption, simp_all)
  have x: "vault_crypto_ok (sc_crypto c)" using assms(1) by (simp add: secret_codec_ok_def)
  note facts = seal_facts [OF r(1) x assms(5)]
  have none: "content ?s (SECRETS_DIR @ [d, sr_id r @ ''.json'']) = None" for d using facts assms(7) by (auto simp: free_ids_def)
  then have may: "may_save c (vw_fs t) r" using facts r(2) by (simp add: may_save_def)
  obtain s1 where s1: "save_record ?v r t = (Ok (), t\<lparr>vw_fs := s1\<rparr>)" "vault_ready c keys ix s1" "record_at c s1 (record_path r) = Some r"
    "\<And>p. is_record_file p \<Longrightarrow> p \<noteq> record_path r \<Longrightarrow> content s1 p = content ?s p"
    by (rule save_calm [OF assms(1) _ may]) (use assms(3) r(2) in simp, rule that, assumption, simp_all add: r(2))
  have same: "record_at c s1 p = record_at c ?s p" if "is_record_file p" "p \<noteq> record_path r" for p
    using s1(4) [OF that] record_at_content by blast
  then have after1: "records_after c ?s r None s1" using s1(3) by (simp add: records_after_def)
  have apart: "record_path old \<noteq> record_path r" if "previous = Some old" for old
    using that assms(8) none by (auto simp: on_disk_def record_at_def record_path_def)
  have "on_disk c s1 previous"
  proof (cases previous)
    case (Some old)
    then have old: "record_at c ?s (record_path old) = Some old" using assms(8) by (simp add: on_disk_def)
    then have "is_record_file (record_path old)"
      using decoded_valid [OF assms(1) old] record_extension by (simp add: valid_record_def record_path_def)
    then have "record_at c s1 (record_path old) = Some old" using same [OF _ apart [OF Some]] old by simp
    then show ?thesis using assms(8) Some by (simp add: on_disk_def)
  qed (simp add: on_disk_def)
  then obtain s2 where s2: "(case previous of Some old \<Rightarrow> save_record ?v (old\<lparr>sr_state := Revoked\<rparr>) | None \<Rightarrow> vok ()) (t\<lparr>vw_fs := s1\<rparr>) = (Ok (), t\<lparr>vw_fs := s2\<rparr>)"
    "vault_ready c keys ix s2" "records_after c ?s r previous s2"
    using revoke_calm [OF assms(1), of keys ix "t\<lparr>vw_fs := s1\<rparr>" previous ?s r i] s1(2) after1 apart by auto
  have "valid_entry (binding_entry (ri_binding ri) (sr_id r))"
    using facts assms(5) by (auto simp: binding_entry_def valid_record_def valid_input_def valid_binding_def split: option.splits)
  then obtain s3 where s3: "stage_binding ?v (ri_name ri) (ri_binding ri) (sr_id r) (t\<lparr>vw_fs := s2\<rparr>) = (Ok (), t\<lparr>vw_fs := s3\<rparr>)"
    "vault_ready c keys (bt_insert (ri_name ri) (StagedSet (binding_entry (ri_binding ri) (sr_id r))) ix) s3" "\<And>p. is_record_file p \<Longrightarrow> content s3 p = content s2 p"
    using stage_calm [OF assms(2), of keys ix "t\<lparr>vw_fs := s2\<rparr>" "ri_name ri" "ri_binding ri" "sr_id r" i] s2(2) assms(5) by (auto simp: valid_input_def)
  have "is_record_file (record_path r)" using facts record_extension by (simp add: valid_record_def record_path_def)
  moreover have "record_at c s3 p = record_at c s2 p" if "is_record_file p" for p using s3(3) [OF that] record_at_content by blast
  ultimately have "records_after c ?s r previous s3" using s2(3) by (auto simp: records_after_def)
  moreover have "write_revision ?v ri previous w = (Ok (sr_id r), t\<lparr>vw_fs := s3\<rparr>)"
    using r(1) s1(1) s2(1) s3(1) by (simp add: write_revision_eq vbind_run vok_def)
  ultimately show thesis
    using that [of r "t\<lparr>vw_fs := s3\<rparr>"] s3(2) facts r dec none by (simp add: record_path_def)
qed

end
