(* ===== verification/Secret_Properties.thy ===== *)
theory Secret_Properties
  imports Secret_Roundtrip
begin

text \<open>What the secret store promises, with a sample of the parameters on which the laws hold.\<close>

section \<open>Sample parameters\<close>

instance variable_kind :: countable
  by countable_datatype

instance secret_revision_state :: countable
  by countable_datatype

instance injection_template_id :: countable
  by countable_datatype

fun from_hex :: "string \<Rightarrow> string" where
  "from_hex (h # l # rest) = char_of (16 * hex_value h + hex_value l) # from_hex rest"
| "from_hex _ = []"

definition sample_crypto :: vault_crypto where
  "sample_crypto = \<lparr>vc_seal = (\<lambda>k n a m. Some (k @ n @ a @ m)), vc_open = (\<lambda>k n a t. strip_prefix (k @ n @ a) t),
     vc_hmac = (\<lambda>k m. k @ m), vc_hex_encode = to_hex, vc_hex_decode = (\<lambda>h. Some (from_hex h))\<rparr>"

definition binding_tuple :: "secret_binding \<Rightarrow> credential_ref \<times> injection_template_id \<times> string option" where
  "binding_tuple b = (sb_credential b, sb_injection b, sb_provider b)"

definition tuple_binding :: "credential_ref \<times> injection_template_id \<times> string option \<Rightarrow> secret_binding" where
  "tuple_binding = (\<lambda>(cr, i, p). \<lparr>sb_credential = cr, sb_injection = i, sb_provider = p\<rparr>)"

definition aad_tuple :: "secret_revision_aad \<Rightarrow> string \<times> string \<times> string \<times> variable_kind \<times> nat" where
  "aad_tuple a = (aad_project a, aad_secret a, aad_revision a, aad_kind a, aad_format a)"

definition tuple_aad :: "string \<times> string \<times> string \<times> variable_kind \<times> nat \<Rightarrow> secret_revision_aad" where
  "tuple_aad = (\<lambda>(p, s, r, k, f). \<lparr>aad_project = p, aad_secret = s, aad_revision = r, aad_kind = k, aad_format = f\<rparr>)"

definition record_text :: "secret_revision \<Rightarrow> string" where
  "record_text r = unary ((sr_id r, sr_secret r, sr_name r, sr_environment r, sr_kind r, map_option binding_tuple (sr_brokered r), sr_state r),
     unat (sr_created_at r), unat (sr_created_nanos r), sr_ciphertext_hex r, sr_nonce_hex r, sr_wrapped_dek_hex r, aad_tuple (sr_aad r),
     sr_fingerprint_hex r, sr_shredded r)"

definition text_record :: "string \<Rightarrow> secret_revision" where
  "text_record t = (case from_unary t of ((i, s, n, e, k, b, st), at, na, ct, nonce, dek, a, fp, sh) \<Rightarrow>
     \<lparr>sr_id = i, sr_secret = s, sr_name = n, sr_environment = e, sr_kind = k, sr_brokered = map_option tuple_binding b, sr_state = st,
      sr_created_at = of_nat at, sr_created_nanos = of_nat na, sr_ciphertext_hex = ct, sr_nonce_hex = nonce, sr_wrapped_dek_hex = dek,
      sr_aad = tuple_aad a, sr_fingerprint_hex = fp, sr_shredded = sh\<rparr>)"

definition sample_secret_codec :: secret_codec where
  "sample_secret_codec =
     \<lparr>sc_crypto = sample_crypto, sc_aad = (\<lambda>a. Ok (aad_revision a)), sc_enc_record = (\<lambda>r. Ok (record_text r)),
      sc_dec_record = (\<lambda>t. checked valid_record (text_record t)),
      sc_enc_keys = (\<lambda>k. Ok (unary (sk_format k, sk_project_nonce_hex k, sk_project_ciphertext_hex k, sk_fingerprint_nonce_hex k,
        sk_fingerprint_ciphertext_hex k))),
      sc_dec_keys = (\<lambda>t. case from_unary t of (f, a, b, c, d) \<Rightarrow> Ok \<lparr>sk_format = f, sk_project_nonce_hex = a,
        sk_project_ciphertext_hex = b, sk_fingerprint_nonce_hex = c, sk_fingerprint_ciphertext_hex = d\<rparr>),
      sc_enc_wrapped = (\<lambda>k. Ok (CHR ''w'' # unary (cb_nonce k, cb_ciphertext k))),
      sc_dec_wrapped = (\<lambda>t. case t of [] \<Rightarrow> None | _ # u \<Rightarrow> (case from_unary u of (n, x) \<Rightarrow> Some \<lparr>cb_nonce = n, cb_ciphertext = x\<rparr>)),
      sc_repo = sample_repo_codec\<rparr>"

lemma text_record_text: "text_record (record_text r) = r"
proof -
  have b: "tuple_binding (binding_tuple b) = b" for b by (simp add: tuple_binding_def binding_tuple_def)
  have "tuple_aad (aad_tuple a) = a" for a by (simp add: tuple_aad_def aad_tuple_def)
  moreover have "map_option tuple_binding (map_option binding_tuple x) = x" for x by (cases x) (simp_all add: b)
  ultimately show ?thesis by (simp add: text_record_def record_text_def)
qed

lemma hex_digits:
  "k < 16 \<Longrightarrow> hex_value (HEX_DIGITS ! k) = k \<and> (is_ascii_digit (HEX_DIGITS ! k) \<or> 97 \<le> byte_of (HEX_DIGITS ! k) \<and> byte_of (HEX_DIGITS ! k) \<le> 102)"
proof -
  assume "k < 16"
  then have "k \<in> set [0..<16]" by simp
  moreover have "list_all (\<lambda>k. hex_value (HEX_DIGITS ! k) = k \<and> (is_ascii_digit (HEX_DIGITS ! k) \<or> 97 \<le> byte_of (HEX_DIGITS ! k) \<and> byte_of (HEX_DIGITS ! k) \<le> 102)) [0..<16]"
    by code_simp
  ultimately show ?thesis by (simp only: list_all_iff)
qed

lemma to_hex_facts: "from_hex (to_hex b) = b" "is_hex_of_len (to_hex b) (2 * length b)"
proof -
  have d: "byte_of x div 16 < 16" "byte_of x mod 16 < 16" for x :: char by (rule less_mult_imp_div_less) simp_all
  show "from_hex (to_hex b) = b"
    by (induction b) (simp_all add: to_hex_def hex_digits d)
  show "is_hex_of_len (to_hex b) (2 * length b)"
    by (induction b) (simp_all add: to_hex_def is_hex_of_len_def hex_digits d)
qed

lemma sample_crypto_ok: "vault_crypto_ok sample_crypto"
  by (auto simp: vault_crypto_ok_def sample_crypto_def strip_prefix_Some_iff to_hex_facts)

lemma sample_secret_codec_ok: "secret_codec_ok sample_secret_codec"
  unfolding secret_codec_ok_def
proof (intro conjI allI impI)
  show "\<exists>t. sc_aad sample_secret_codec a = Ok t \<and> length t < 2 ^ 36" if "valid_aad a" for a
    using that by (auto simp: valid_aad_def sample_secret_codec_def is_ok_iff parse_prefixed_id_Ok_iff MAX_ID_CONTENT_LEN_def)
  show "\<exists>t. sc_enc_record sample_secret_codec r = Ok t \<and> is_utf8 t \<and> sc_dec_record sample_secret_codec t = Ok r" if "valid_record r" for r
    using that by (simp add: sample_secret_codec_def text_record_text) (simp add: record_text_def unary_utf8)
qed (auto simp: sample_secret_codec_def sample_crypto_ok unary_utf8 split: prod.splits)

section \<open>Lemmas: reading back\<close>

lemma ready_same: "vault_ready c keys ix s \<Longrightarrow> same_nodes s t \<Longrightarrow> faults t = [] \<Longrightarrow> vault_ready c keys ix t"
proof -
  assume r: "vault_ready c keys ix s" and n: "same_nodes s t" and f: "faults t = []"
  have c: "content t = content s" "is_dir_node t = is_dir_node s" "fs_inv t = fs_inv s" using n by simp_all
  moreover have "nodes t = nodes s" using n by (simp only: same_nodes_def)
  then have "index_at x t = index_at x s" for x by (simp only: index_at_def c)
  moreover have "record_at x t = record_at x s" for x by (simp add: fun_eq_iff record_at_def c)
  ultimately show ?thesis
    using r f keys_kept [of c s keys t]
    by (simp add: vault_ready_def roomy_def writable_def tidy_def secrets_ok_def)
qed

lemma latest_is:
  assumes "faults (vw_fs w) = []" "secrets_ok c (vw_fs w)" "tidy (vw_fs w)" "found c (Some env) (vw_fs w) r" "sr_name r = name"
    and "\<And>x. found c (Some env) (vw_fs w) x \<Longrightarrow> sr_name x = name \<Longrightarrow> x \<noteq> r \<Longrightarrow> ordering_key x < ordering_key r"
  shows "latest_record (new_secret_service c i) name env w = (Ok (Some (sr_secret r, r)), w)"
  by (rule latest_calm [OF assms(1-3), of i name env]) (use assms(4-6) in blast)

lemma read_back:
  assumes "secret_codec_ok c" "vault_ready c keys ix (vw_fs u)" "vw_cache u \<in> {None, Some (j, keys)}" "records_after c s r previous (vw_fs u)"
    and "on_disk c s previous" "sr_state r = Active" "parse_secret_name name = Ok (sr_name r)" "environment_id_of env = Ok (sr_environment r)"
    and dec: "\<And>j u u'. cached_keys (new_secret_service c j) u = (Ok keys, u') \<Longrightarrow> decrypt_record (new_secret_service c j) r u = (Ok m, u')"
  shows "sr_kind r \<noteq> Brokered \<Longrightarrow> fst (reveal_revision (new_secret_service c j) (sr_name r) (sr_id r) u) = Ok m"
    and "(\<And>x. found c (Some (sr_environment r)) s x \<Longrightarrow> sr_name x = sr_name r \<Longrightarrow> sr_created_nanos x < sr_created_nanos r)
      \<Longrightarrow> fst (reveal_secret (new_secret_service c j) name env u) = Ok m"
proof -
  have u: "faults (vw_fs u) = []" "is_dir_node (vw_fs u) []" "keys_on_disk c (vw_fs u) keys" "secrets_ok c (vw_fs u)" "tidy (vw_fs u)"
    using assms(2) by (simp_all add: vault_ready_def roomy_def)
  obtain u' where run: "decrypt_record (new_secret_service c j) r u = (Ok m, u')"
    by (rule cached_calm [OF u(1-3) assms(3)]) (rule that [OF dec])
  have at: "record_at c (vw_fs u) (record_path r) = Some r" using assms(4) by (simp add: records_after_def)
  have place: "is_record_file (record_path r)" using decoded_valid [OF assms(1) at] record_extension by (simp add: valid_record_def record_path_def)
  have fr: "found c None (vw_fs u) r" "found c (Some (sr_environment r)) (vw_fs u) r" using at place by (auto simp: found_def)
  show "fst (reveal_revision (new_secret_service c j) (sr_name r) (sr_id r) u) = Ok m" if "sr_kind r \<noteq> Brokered"
    using resolve_calm [OF u(1,4,5) fr(1) _ that _ run] assms(6) by (simp add: reveal_revision_def vbind_run vok_def)
  assume later: "\<And>x. found c (Some (sr_environment r)) s x \<Longrightarrow> sr_name x = sr_name r \<Longrightarrow> sr_created_nanos x < sr_created_nanos r"
  have "ordering_key x < ordering_key r" if x: "found c (Some (sr_environment r)) (vw_fs u) x" "sr_name x = sr_name r" "x \<noteq> r" for x
  proof -
    have p: "is_record_file (record_path x)" "record_at c (vw_fs u) (record_path x) = Some x" using found_place [OF u(4) x(1)] by auto
    then have "record_path x \<noteq> record_path r" using at x(3) by auto
    then have "record_at c s (record_path x) = Some x \<or> (\<exists>old. previous = Some old \<and> x = old\<lparr>sr_state := Revoked\<rparr>)"
      using assms(4) p by (auto simp: records_after_def split: option.splits if_splits)
    then have "sr_created_nanos x < sr_created_nanos r"
    proof
      assume "record_at c s (record_path x) = Some x"
      then show ?thesis using later [of x] x p by (auto simp: found_def)
    next
      assume "\<exists>old. previous = Some old \<and> x = old\<lparr>sr_state := Revoked\<rparr>"
      then obtain old where old: "previous = Some old" "x = old\<lparr>sr_state := Revoked\<rparr>" by blast
      then have "record_at c s (record_path old) = Some old" using assms(5) by (simp add: on_disk_def)
      moreover have "record_path x = record_path old" "sr_environment old = sr_environment r" using old(2) x(1) by (auto simp: record_path_def found_def)
      ultimately have "found c (Some (sr_environment r)) s old" using p(1) by (auto simp: found_def)
      then show ?thesis using later [of old] old(2) x(2) by simp
    qed
    then show ?thesis by (simp add: ordering_key_def less_prod_def)
  qed
  then have "latest_record (new_secret_service c j) (sr_name r) (sr_environment r) u = (Ok (Some (sr_secret r, r)), u)"
    using latest_is [OF u(1,4,5) fr(2)] by blast
  then show "fst (reveal_secret (new_secret_service c j) name env u) = Ok m"
    using assms(6-8) run by (simp add: reveal_secret_def vbind_run)
qed

lemma set_calm:
  assumes "secret_codec_ok c" "repo_codec_ok (sc_repo c)" "vault_ready c keys ix (vw_fs w)" "vw_cache w \<in> {None, Some (i, keys)}" "free_ids c 256 w"
    and "parse_secret_name name = Ok n" "environment_id_of env = Ok e" "validate_binding kind b name = Ok bd"
    and "valid_call (SetCall name plaintext kind env b)" "plaintext \<noteq> []" "length plaintext < 2 ^ 36"
  obtains r w' where "set_secret (new_secret_service c i) name plaintext kind env b w = (Ok (sr_id r), w')"
    "vault_ready c keys (bt_insert n (StagedSet (binding_entry bd (sr_id r))) ix) (vw_fs w')"
    "records_after c (vw_fs w) r None (vw_fs w')" "sr_state r = Active" "sr_name r = n" "sr_environment r = e" "sr_kind r = kind"
    "sr_created_nanos r = of_nat (vw_clock w (Suc (vw_readings w)))"
    "\<And>j u u'. cached_keys (new_secret_service c j) u = (Ok keys, u') \<Longrightarrow> decrypt_record (new_secret_service c j) r u = (Ok plaintext, u')"
proof -
  let ?v = "new_secret_service c i"
  have w: "faults (vw_fs w) = []" "secrets_ok c (vw_fs w)" "tidy (vw_fs w)" using assms(3) by (simp_all add: vault_ready_def roomy_def)
  obtain l where l: "latest_record ?v n e w = (Ok l, w)" by (rule latest_calm [OF w]) (rule that)
  have x: "vault_crypto_ok (sc_crypto c)" using assms(1) by (simp add: secret_codec_ok_def)
  have new: "new_secret_id ?v w = (Ok (''sec_'' @ vc_hex_encode (sc_crypto c) (map (vw_rng w) [vw_drawn w ..< vw_drawn w + 16])), w\<lparr>vw_drawn := vw_drawn w + 16\<rparr>)"
    using parse_hex_ident [OF crypto_laws(5) [OF x], of "map (vw_rng w) [vw_drawn w ..< vw_drawn w + 16]" "''sec_''"]
    by (simp add: new_secret_id_def random_suffix_def vbind_def fill_bytes_def vok_def vlift_def service_codec MAX_ID_CONTENT_LEN_def)
  obtain sec k where sec: "(case l of Some (i, r) \<Rightarrow> if sr_state r \<noteq> Destroyed then vok i else new_secret_id ?v | None \<Rightarrow> new_secret_id ?v) w
      = (Ok sec, w\<lparr>vw_drawn := vw_drawn w + k\<rparr>)" "k \<le> 16" "is_ok (parse_prefixed_id ''sec_'' sec)"
  proof (cases "\<exists>i r. l = Some (i, r) \<and> sr_state r \<noteq> Destroyed")
    case True
    then obtain s r where r: "l = Some (s, r)" "sr_state r \<noteq> Destroyed" by blast
    then have "is_ok (parse_prefixed_id ''sec_'' s)" using latest_valid [OF assms(1) w(2), of i n e s r w] l by (auto simp: valid_record_def)
    then show ?thesis using that [of s 0] r by (simp add: vok_def)
  next
    case False
    then have "(case l of Some (i, r) \<Rightarrow> if sr_state r \<noteq> Destroyed then vok i else new_secret_id ?v | None \<Rightarrow> new_secret_id ?v) w = new_secret_id ?v w"
      by (auto split: option.splits)
    then show ?thesis using that new new_secret_id_run [OF new] by auto
  qed
  let ?w = "w\<lparr>vw_drawn := vw_drawn w + k\<rparr>"
  let ?ri = "\<lparr>ri_name = n, ri_secret = sec, ri_env = e, ri_kind = kind, ri_binding = bd, ri_bytes = plaintext\<rparr>"
  have bd: "case bd of None \<Rightarrow> True | Some x \<Rightarrow> valid_binding x"
    using assms(8,9) by (auto simp: validate_binding_def split: variable_kind.splits option.splits if_splits)
  then have valid: "valid_input ?ri" using sec(3) environment_id_ok [OF assms(7)] secret_name_ok [OF assms(6)] by (simp add: valid_input_def)
  have free: "free_ids c 121 ?w" by (rule free_ids_later [OF assms(5)]) (use sec(2) in simp_all)
  have at: "vault_ready c keys ix (vw_fs ?w)" "vw_cache ?w \<in> {None, Some (i, keys)}" "length (ri_bytes ?ri) < 2 ^ 36" "on_disk c (vw_fs ?w) None"
    using assms(3,4,11) by (simp_all add: on_disk_def)
  obtain r w' where r: "write_revision ?v ?ri None ?w = (Ok (sr_id r), w')"
    "vault_ready c keys (bt_insert n (StagedSet (binding_entry bd (sr_id r))) ix) (vw_fs w')"
    "records_after c (vw_fs w) r None (vw_fs w')" "sr_state r = Active" "sr_name r = n" "sr_environment r = e" "sr_kind r = kind"
    "sr_created_nanos r = of_nat (vw_clock w (Suc (vw_readings w)))"
    and dec: "\<And>j u u'. cached_keys (new_secret_service c j) u = (Ok keys, u') \<Longrightarrow> decrypt_record (new_secret_service c j) r u = (Ok plaintext, u')"
    by (rule write_calm [OF assms(1,2) at(1,2) valid at(3) free at(4)]) (rule that, assumption, simp_all)
  have "set_secret ?v name plaintext kind env b w = (Ok (sr_id r), w')"
    using assms(6-8,10) l sec(1) r(1) by (simp add: set_secret_def vbind_run plaintext_bytes_def)
  then show thesis using r dec by (intro that)
qed

lemma rotate_calm:
  assumes "secret_codec_ok c" "repo_codec_ok (sc_repo c)" "vault_ready c keys ix (vw_fs w)" "vw_cache w \<in> {None, Some (i, keys)}" "free_ids c 256 w"
    and "parse_secret_name name = Ok n" "environment_id_of env = Ok e" "plaintext \<noteq> []" "length plaintext < 2 ^ 36"
    and "latest_record (new_secret_service c i) n e w = (Ok (Some (sec, old)), w)" "sr_state old \<noteq> Destroyed"
  obtains r w' where "rotate_secret (new_secret_service c i) name plaintext env w = (Ok (sr_id r), w')"
    "vault_ready c keys (bt_insert n (StagedSet (binding_entry (sr_brokered old) (sr_id r))) ix) (vw_fs w')"
    "records_after c (vw_fs w) r (Some old) (vw_fs w')" "on_disk c (vw_fs w) (Some old)" "sr_state r = Active" "sr_name r = n" "sr_environment r = e"
    "sr_kind r = sr_kind old" "content (vw_fs w) (record_path r) = None" "sr_created_nanos r = of_nat (vw_clock w (Suc (vw_readings w)))"
    "\<And>j u u'. cached_keys (new_secret_service c j) u = (Ok keys, u') \<Longrightarrow> decrypt_record (new_secret_service c j) r u = (Ok plaintext, u')"
proof -
  let ?v = "new_secret_service c i"
  let ?ri = "\<lparr>ri_name = n, ri_secret = sec, ri_env = e, ri_kind = sr_kind old, ri_binding = sr_brokered old, ri_bytes = plaintext\<rparr>"
  have "secrets_ok c (vw_fs w)" using assms(3) by (simp add: vault_ready_def)
  note l = latest_valid [OF assms(1) this assms(10)]
  then have valid: "valid_input ?ri" by (auto simp: valid_input_def valid_record_def)
  have disk: "on_disk c (vw_fs w) (Some old)" using l assms(11) by (simp add: on_disk_def)
  have at: "length (ri_bytes ?ri) < 2 ^ 36" "free_ids c 121 w" using assms(5,9) by (simp_all add: free_ids_def)
  obtain r w' where r: "write_revision ?v ?ri (Some old) w = (Ok (sr_id r), w')"
    "vault_ready c keys (bt_insert n (StagedSet (binding_entry (sr_brokered old) (sr_id r))) ix) (vw_fs w')"
    "records_after c (vw_fs w) r (Some old) (vw_fs w')" "sr_state r = Active" "sr_name r = n" "sr_environment r = e" "sr_kind r = sr_kind old" "content (vw_fs w) (record_path r) = None"
    "sr_created_nanos r = of_nat (vw_clock w (Suc (vw_readings w)))"
    and dec: "\<And>j u u'. cached_keys (new_secret_service c j) u = (Ok keys, u') \<Longrightarrow> decrypt_record (new_secret_service c j) r u = (Ok plaintext, u')"
    by (rule write_calm [OF assms(1-4) valid at disk]) (rule that, assumption, simp_all)
  have "rotate_secret ?v name plaintext env w = (Ok (sr_id r), w')"
    using assms(6-8,10,11) r(1) by (simp add: rotate_secret_def vbind_run plaintext_bytes_def)
  then show thesis using r dec disk by (intro that)
qed

lemma destroy_calm:
  assumes "secret_codec_ok c" "vault_ready c keys ix (vw_fs w)" "parse_secret_name name = Ok n" "environment_id_of env = Ok e"
    and "latest_record (new_secret_service c i) n e w = (Ok (Some (sec, r)), w)"
  shows "\<exists>w'. destroy_secret (new_secret_service c i) name env w = (Ok (), w')"
proof (cases "sr_state r = Destroyed")
  case True
  then show ?thesis using assms(3-5) by (simp add: destroy_secret_def vbind_run vok_def)
next
  case False
  let ?r = "r\<lparr>sr_state := Destroyed, sr_wrapped_dek_hex := [], sr_shredded := True\<rparr>"
  have "secrets_ok c (vw_fs w)" using assms(2) by (simp add: vault_ready_def)
  note l = latest_valid [OF assms(1) this assms(5)]
  note ev = evolves_steps(2) [OF False]
  have "may_save c (vw_fs w) ?r" using l valid_later(2) ev evolves_same_place [OF ev] by (auto simp: may_save_def)
  then show ?thesis
    using save_calm [OF assms(1,2), of ?r i] assms(3-5) False by (simp add: destroy_secret_def vbind_run) blast
qed

lemma rotated_facts:
  assumes "secret_codec_ok c" "vault_ready c keys ix (vw_fs u)" "vw_cache u \<in> {None, Some (j, keys)}" "records_after c s r (Some old) (vw_fs u)"
    and "on_disk c s (Some old)" "secrets_ok c s" "record_path old \<noteq> record_path r"
  shows "fst (revision_state (new_secret_service c j) (sr_id old) u) = Ok (Some Revoked)"
proof -
  let ?old = "old\<lparr>sr_state := Revoked\<rparr>"
  have u: "faults (vw_fs u) = []" "secrets_ok c (vw_fs u)" "tidy (vw_fs u)" using assms(2) by (simp_all add: vault_ready_def roomy_def)
  have old: "record_at c s (record_path old) = Some old" using assms(5) by (simp add: on_disk_def)
  then have "is_record_file (record_path old)" using decoded_valid [OF assms(1) old] record_extension by (simp add: valid_record_def record_path_def)
  then have f: "found c None (vw_fs u) ?old" using assms(4,7) by (auto simp: records_after_def found_def)
  obtain rs where rs: "scan_records (new_secret_service c j) None u = (Ok rs, u)" "\<And>r. r \<in> set rs \<longleftrightarrow> found c None (vw_fs u) r"
    using scan_calm [OF u] by blast
  have "find (\<lambda>x. sr_id x = sr_id old) rs = Some ?old"
  proof (cases "find (\<lambda>x. sr_id x = sr_id old) rs")
    case None
    then show ?thesis using rs(2) f by (auto simp: find_None_iff)
  next
    case (Some x)
    then have "x \<in> set rs" "sr_id x = sr_id ?old" by (auto simp: find_Some_iff)
    then show ?thesis using Some found_unique [OF u(2) _ f] rs(2) by blast
  qed
  then show ?thesis using rs(1) by (simp add: revision_state_def vbind_run vok_def)
qed

text \<open>
  The latest revision is the one with the highest clock reading, whatever its state: after a rotation with the clock set back,
  \<open>reveal_secret\<close> goes on decrypting the revoked revision.
\<close>

lemma rotation_with_clock_back:
  assumes "secret_codec_ok c" "repo_codec_ok (sc_repo c)" "vault_ready c keys ix (vw_fs w)" "vw_cache w \<in> {None, Some (i, keys)}" "free_ids c 256 w"
    and "parse_secret_name name = Ok name" "environment_id_of env = Ok e" "plaintext \<noteq> []" "length plaintext < 2 ^ 36"
    and "latest_record (new_secret_service c i) name e w = (Ok (Some (sec, old)), w)" "sr_state old \<noteq> Destroyed"
    and only: "\<And>x. found c (Some e) (vw_fs w) x \<Longrightarrow> sr_name x = name \<Longrightarrow> x = old"
    and clock: "of_nat (vw_clock w (Suc (vw_readings w))) < sr_created_nanos old"
  shows "\<exists>revision w'. rotate_secret (new_secret_service c i) name plaintext env w = (Ok revision, w')
    \<and> reveal_secret (new_secret_service c i) name env (w'\<lparr>vw_cache := None\<rparr>) = decrypt_record (new_secret_service c i) old (w'\<lparr>vw_cache := None\<rparr>)"
proof -
  let ?v = "new_secret_service c i" and ?old = "old\<lparr>sr_state := Revoked\<rparr>"
  obtain r w' where r: "rotate_secret ?v name plaintext env w = (Ok (sr_id r), w')"
    "vault_ready c keys (bt_insert name (StagedSet (binding_entry (sr_brokered old) (sr_id r))) ix) (vw_fs w')"
    "records_after c (vw_fs w) r (Some old) (vw_fs w')" "on_disk c (vw_fs w) (Some old)"
    "content (vw_fs w) (record_path r) = None" "sr_created_nanos r = of_nat (vw_clock w (Suc (vw_readings w)))"
    by (rule rotate_calm [OF assms(1-11)]) (rule that, assumption+)
  have u: "faults (vw_fs w') = []" "secrets_ok c (vw_fs w')" "tidy (vw_fs w')" using r(2) by (simp_all add: vault_ready_def roomy_def)
  have old: "record_at c (vw_fs w) (record_path old) = Some old" using r(4) by (simp add: on_disk_def)
  have apart: "record_path old \<noteq> record_path r" using r(5) old by (auto simp: record_at_def)
  have "secrets_ok c (vw_fs w)" using assms(3) by (simp add: vault_ready_def)
  note l = latest_valid [OF assms(1) this assms(10)]
  have place: "is_record_file (record_path old)" using l record_extension by (simp add: valid_record_def record_path_def)
  have f: "found c (Some e) (vw_fs w') ?old" using r(3) apart place l by (auto simp: records_after_def found_def)
  have "ordering_key x < ordering_key ?old" if x: "found c (Some e) (vw_fs w') x" "sr_name x = name" "x \<noteq> ?old" for x
  proof -
    have p: "is_record_file (record_path x)" "record_at c (vw_fs w') (record_path x) = Some x" using found_place [OF u(2) x(1)] by auto
    have "x = r"
    proof (rule ccontr)
      assume "x \<noteq> r"
      then have "record_path x \<noteq> record_path r" using p r(3) by (auto simp: records_after_def)
      then have "record_at c (vw_fs w) (record_path x) = Some x \<and> record_path x \<noteq> record_path old"
        using r(3) p x(3) by (auto simp: records_after_def split: if_splits)
      then show False using only [of x] x(1,2) p(1) by (auto simp: found_def)
    qed
    then show ?thesis using r(6) clock by (simp add: ordering_key_def less_prod_def)
  qed
  then have "latest_record ?v name e (w'\<lparr>vw_cache := None\<rparr>) = (Ok (Some (sr_secret ?old, ?old)), w'\<lparr>vw_cache := None\<rparr>)"
    using latest_is [of "w'\<lparr>vw_cache := None\<rparr>" c e ?old name i] u f l by simp
  then have "reveal_secret ?v name env (w'\<lparr>vw_cache := None\<rparr>) = decrypt_record ?v old (w'\<lparr>vw_cache := None\<rparr>)"
    using assms(6,7) by (simp add: reveal_secret_def vbind_run decrypt_record_def)
  then show ?thesis using r(1) by blast
qed

lemma resolved_from:
  assumes "resolve_revision v name revision w = (Ok (Plain plain), w')"
  shows "\<exists>r p. is_record_file p \<and> record_at (sv_codec v) (vw_fs w) p = Some r \<and> sr_id r = revision \<and> sr_name r = name
     \<and> sr_kind r \<noteq> Brokered \<and> sr_state r \<noteq> Destroyed \<and> (\<exists>u. decrypt_record v r u = (Ok plain, w'))"
proof -
  obtain rs t where rs: "scan_records v None w = (Ok rs, t)"
    and rest: "vbind (vlift (ok_or (MissingRevision name revision) (find (\<lambda>r. sr_id r = revision) rs))) (\<lambda>r.
       if sr_name r \<noteq> name then verr (SecretNotFound name)
       else if sr_kind r = Brokered
       then verr (InconsistentBinding (''brokered credential ''
              @ backquoted (case sr_brokered r of Some b \<Rightarrow> sb_credential b | None \<Rightarrow> sr_name r)
              @ '' values are never revealed outside the broker''))
       else if sr_state r = Destroyed then vok DestroyedRevision
       else vbind (decrypt_record v r) (\<lambda>plaintext. vok (Plain plaintext))) t = (Ok (Plain plain), w')"
    using assms by (auto simp: resolve_revision_def vbind_Ok)
  obtain r where r: "find (\<lambda>r. sr_id r = revision) rs = Some r"
    using rest by (cases "find (\<lambda>r. sr_id r = revision) rs") (auto simp: vbind_run)
  then have "r \<in> set rs" "sr_id r = revision" by (auto simp: find_Some_iff)
  moreover have "scanned (sv_codec v) None (vw_fs w) rs" using scan_records_sound [OF rs] by simp
  moreover have "sr_name r = name \<and> sr_kind r \<noteq> Brokered \<and> sr_state r \<noteq> Destroyed \<and> decrypt_record v r t = (Ok plain, w')"
    using rest r by (auto simp: vbind_run vbind_Ok split: if_splits)
  ultimately show ?thesis unfolding scanned_def by blast
qed

section \<open>A sample vault\<close>

definition sample_keys :: project_keys where
  "sample_keys = \<lparr>pk_project = replicate 32 (CHR ''p''), pk_fingerprint = replicate 32 (CHR ''f'')\<rparr>"

definition sample_root :: key where
  "sample_root = replicate 32 (CHR ''r'')"

definition sample_nonce :: string where
  "sample_nonce = replicate 12 (CHR ''n'')"

definition sample_stored :: stored_project_keys where
  "sample_stored = \<lparr>sk_format = SECRET_FORMAT_VERSION, sk_project_nonce_hex = to_hex sample_nonce,
     sk_project_ciphertext_hex = to_hex (sample_root @ sample_nonce @ PROJECT_WRAP_AAD @ pk_project sample_keys),
     sk_fingerprint_nonce_hex = to_hex sample_nonce,
     sk_fingerprint_ciphertext_hex = to_hex (pk_project sample_keys @ sample_nonce @ FINGERPRINT_WRAP_AAD @ pk_fingerprint sample_keys)\<rparr>"

definition sample_record :: secret_revision where
  "sample_record = \<lparr>sr_id = ''sec_rev_a'', sr_secret = ''sec_a'', sr_name = ''TOKEN'', sr_environment = ''env_dev'', sr_kind = Secret,
     sr_brokered = None, sr_state = Active, sr_created_at = 1, sr_created_nanos = 1, sr_ciphertext_hex = ''00'', sr_nonce_hex = ''00'',
     sr_wrapped_dek_hex = ''00'',
     sr_aad = \<lparr>aad_project = LOCAL_PROJECT_ID, aad_secret = ''sec_a'', aad_revision = ''sec_rev_a'', aad_kind = Secret, aad_format = 1\<rparr>,
     sr_fingerprint_hex = ''00'', sr_shredded = False\<rparr>"

definition sample_vault_fs :: fs where
  "sample_vault_fs = empty_fs\<lparr>nodes := bt_insert [] Dir (bt_insert [''keys''] Dir (bt_insert SECRETS_DIR Dir (bt_insert (SECRETS_DIR @ [''sec_a'']) Dir
     (bt_insert ROOT_KEY_PATH (File (to_hex sample_root @ [newline])) (bt_insert KEYS_PATH (File (case sc_enc_keys sample_secret_codec sample_stored of Ok t \<Rightarrow> t | Err _ \<Rightarrow> []))
     (bt_insert (record_path sample_record) (File (record_text sample_record)) bt_empty))))))\<rparr>"

definition sample_vault :: vault_world where
  "sample_vault = \<lparr>vw_fs = sample_vault_fs, vw_rng = (\<lambda>_. CHR ''a''), vw_drawn = 0, vw_clock = (\<lambda>n. 5 + n), vw_readings = 0,
     vw_memory_key = None, vw_cache = None\<rparr>"

lemmas sample_paths = SECRETS_DIR_def KEYS_PATH_def ROOT_KEY_PATH_def record_path_def sample_record_def

lemma sample_nodes:
  "bt_get (nodes sample_vault_fs) p =
     (if p \<in> {[], [''keys''], [''secrets''], [''secrets'', ''sec_a'']} then Some Dir
      else if p = [''root.key''] then Some (File (to_hex sample_root @ [newline]))
      else if p = [''keys'', ''project.json''] then Some (File (case sc_enc_keys sample_secret_codec sample_stored of Ok t \<Rightarrow> t | Err _ \<Rightarrow> []))
      else if p = [''secrets'', ''sec_a'', ''sec_rev_a.json''] then Some (File (record_text sample_record)) else None)"
  by (simp add: sample_vault_fs_def empty_fs_def bt_get_insert sample_paths) (simp add: bt_empty_def)

lemma sample_dirs: "is_dir_node sample_vault_fs p \<longleftrightarrow> p \<in> {[], [''keys''], [''secrets''], [''secrets'', ''sec_a'']}"
  by (simp add: is_dir_node_def sample_nodes)

lemma sample_content:
  "content sample_vault_fs p = (if p = [''root.key''] then Some (to_hex sample_root @ [newline])
      else if p = [''keys'', ''project.json''] then Some (case sc_enc_keys sample_secret_codec sample_stored of Ok t \<Rightarrow> t | Err _ \<Rightarrow> [])
      else if p = [''secrets'', ''sec_a'', ''sec_rev_a.json''] then Some (record_text sample_record) else None)"
  by (simp add: content_def sample_nodes)

lemma sample_record_valid: "valid_record sample_record"
  by code_simp

lemma sample_secrets_ok: "secrets_ok sample_secret_codec sample_vault_fs"
proof -
  have "is_utf8 (record_text sample_record)" by (simp add: record_text_def unary_utf8)
  then have "record_at sample_secret_codec sample_vault_fs [''secrets'', ''sec_a'', ''sec_rev_a.json''] = Some sample_record"
    using sample_record_valid by (simp add: record_at_def sample_content sample_secret_codec_def text_record_text checked_def)
  moreover have "record_path sample_record = [''secrets'', ''sec_a'', ''sec_rev_a.json'']" by (simp add: sample_paths)
  ultimately show ?thesis
    by (auto simp: secrets_ok_def sample_content SECRETS_DIR_def split: if_splits)
qed

lemma sample_keys_on_disk: "keys_on_disk sample_secret_codec sample_vault_fs sample_keys"
proof -
  have hex: "trim (to_hex b) = to_hex b" for b by (rule trim_hex [OF to_hex_facts(2)])
  have "list_all is_id_char (to_hex sample_root)" "to_hex sample_root \<noteq> []" using hex_id_char [OF to_hex_facts(2)] by (simp, code_simp)
  note line = trim_line [OF this]
  have w: "faults (vw_fs (disk_world sample_vault_fs)) = []" "vw_fs (disk_world sample_vault_fs) = sample_vault_fs\<lparr>faults := []\<rparr>" by (simp_all add: disk_world_def)
  have root: "fst (file_load sample_crypto ROOT_KEY_PATH (disk_world sample_vault_fs)) = Ok sample_root"
    using line by (simp add: file_load_def vbind_def vmap_err_def std_io_def on_fs_def w read_calm_eq sample_content ROOT_KEY_PATH_def vlift_def vok_def
      decode_key_text_def sample_crypto_def to_hex_facts(1) sample_root_def set_permissions_def perform_def no_next_fault)
  have "fst (read_project_keys (new_secret_service sample_secret_codec 0) sample_root (disk_world sample_vault_fs)) = Ok (Some sample_keys)"
    by (simp add: read_project_keys_def std_io_def vmap_err_def on_fs_def w read_calm_eq sample_content KEYS_PATH_def sample_secret_codec_def unary_utf8
      vlift_def new_secret_service_def sample_stored_def decode_stored_wrapped_def decode_nonce_def decode_hex_def sample_crypto_def hex to_hex_facts(1)
      sample_nonce_def unwrap_project_key_def unwrap_fingerprint_key_def unwrap_child_def aead_decrypt_def KEY_LEN_def sample_keys_def strip_prefix_Some_iff)
  then show ?thesis using root by (simp add: keys_on_disk_def sample_secret_codec_def)
qed

lemma sample_ready: "vault_ready sample_secret_codec sample_keys bt_empty sample_vault_fs"
proof -
  have inv: "fs_inv sample_vault_fs" "faults sample_vault_fs = []" by (simp_all add: fs_inv_def sample_vault_fs_def empty_fs_def)
  have temp: "\<not> is_dir_node sample_vault_fs t" if "is_temp ''.tmp-'' t" for t using that by (auto simp: sample_dirs is_temp_def starts_with_iff)
  have files: "writable sample_vault_fs p" if "p \<in> vault_files" for p
  proof -
    have "p = INDEX_FILE \<or> (\<exists>d n. p = [''secrets'', d, n])" using that by (auto simp: vault_files_def SECRETS_DIR_def)
    then show ?thesis
    proof
      assume "p = INDEX_FILE"
      then show ?thesis by (simp add: writable_def sample_dirs sample_content INDEX_FILE_def path_prefixes_def)
    next
      assume "\<exists>d n. p = [''secrets'', d, n]"
      then show ?thesis using two_prefixes by (auto simp: writable_def sample_dirs sample_content)
    qed
  qed
  have "tidy sample_vault_fs"
    by (auto simp: tidy_def sample_content sample_dirs is_record_file_def SECRETS_DIR_def split: if_splits)
  moreover have "index_at x sample_vault_fs = Some bt_empty" for x by (simp add: index_at_def sample_nodes INDEX_FILE_def)
  moreover have "valid_index bt_empty" by (simp add: valid_index_def bt_empty_def)
  moreover have "is_dir_node sample_vault_fs []" by (simp add: sample_dirs)
  ultimately show ?thesis
    using inv temp files sample_secrets_ok sample_keys_on_disk by (simp add: vault_ready_def roomy_def)
qed

lemma sample_free: "free_ids sample_secret_codec k sample_vault"
proof -
  have "''sec_rev_'' @ vc_hex_encode (sc_crypto sample_secret_codec) (map f [m ..< m + 16]) @ ''.json'' \<noteq> ''sec_rev_a.json''" for f m
  proof -
    have "length (to_hex (map f [m ..< m + 16])) = 32" using to_hex_facts(2) [of "map f [m ..< m + 16]"] by (simp add: is_hex_of_len_def)
    then show ?thesis by (auto simp: sample_secret_codec_def sample_crypto_def dest!: arg_cong [where f = length])
  qed
  then show ?thesis by (auto simp: free_ids_def sample_vault_def sample_content SECRETS_DIR_def)
qed

lemma sample_names: "parse_secret_name ''TOKEN'' = Ok ''TOKEN''" "environment_id_of ''dev'' = Ok ''env_dev''"
  by code_simp+

lemma sample_found: "found sample_secret_codec env sample_vault_fs x \<longleftrightarrow> x = sample_record \<and> (env = None \<or> env = Some ''env_dev'')"
proof -
  have "record_at sample_secret_codec sample_vault_fs (record_path sample_record) = Some sample_record"
    using secrets_readable [OF sample_secrets_ok, of "record_path sample_record"] sample_record_valid
    by (simp add: record_at_def sample_content sample_paths sample_secret_codec_def text_record_text checked_def) (simp add: record_text_def unary_utf8)
  moreover have "is_record_file (record_path sample_record)" by (simp add: sample_paths is_record_file_def) code_simp
  moreover have "p = record_path sample_record" if "record_at sample_secret_codec sample_vault_fs p = Some x" "is_record_file p" for p
    using that by (auto simp: record_at_def sample_content sample_paths is_record_file_def split: if_splits)
  ultimately show ?thesis by (auto simp: found_def) (simp_all add: sample_record_def)
qed

lemma sample_latest: "latest_record (new_secret_service sample_secret_codec i) ''TOKEN'' ''env_dev'' sample_vault = (Ok (Some (''sec_a'', sample_record)), sample_vault)"
proof -
  have r: "faults (vw_fs sample_vault) = []" "secrets_ok sample_secret_codec (vw_fs sample_vault)" "tidy (vw_fs sample_vault)"
    using sample_ready by (simp_all add: vault_ready_def roomy_def sample_vault_def)
  have "latest_record (new_secret_service sample_secret_codec i) ''TOKEN'' ''env_dev'' sample_vault = (Ok (Some (sr_secret sample_record, sample_record)), sample_vault)"
    by (rule latest_is [OF r]) (simp_all add: sample_vault_def sample_found, simp add: sample_record_def)
  then show ?thesis by (simp add: sample_record_def)
qed

section \<open>Properties\<close>

text \<open>
  C10. A stored secret reads back.  On a vault with its keys and room on disk, when no system call fails, \<open>set_secret\<close>
  returns a revision and stages it; any process, with or without cached keys, then reads exactly the given plaintext:
  \<open>reveal_revision\<close> for a plain secret, and \<open>reveal_secret\<close> when the clock is past the earlier revisions of the name.
\<close>

theorem stored_secret_reads_back:
  assumes "secret_codec_ok c" "repo_codec_ok (sc_repo c)" "vault_ready c keys ix (vw_fs w)" "vw_cache w \<in> {None, Some (i, keys)}" "free_ids c 256 w"
    and "parse_secret_name name = Ok name" "environment_id_of env = Ok e" "validate_binding kind b name = Ok b"
    and "valid_call (SetCall name plaintext kind env b)" "plaintext \<noteq> []" "length plaintext < 2 ^ 36"
  shows "\<exists>revision w'. set_secret (new_secret_service c i) name plaintext kind env b w = (Ok revision, w')
     \<and> index_at (sc_repo c) (vw_fs w') = Some (bt_insert name (StagedSet (binding_entry b revision)) ix)
     \<and> (\<forall>j u. same_nodes (vw_fs w') (vw_fs u) \<and> faults (vw_fs u) = [] \<and> vw_cache u \<in> {None, Some (j, keys)} \<longrightarrow>
          (kind = Secret \<longrightarrow> fst (reveal_revision (new_secret_service c j) name revision u) = Ok plaintext)
          \<and> ((\<forall>x. found c (Some e) (vw_fs w) x \<and> sr_name x = name \<longrightarrow> sr_created_nanos x < of_nat (vw_clock w (Suc (vw_readings w))))
               \<longrightarrow> fst (reveal_secret (new_secret_service c j) name env u) = Ok plaintext))"
proof -
  obtain r w' where r: "set_secret (new_secret_service c i) name plaintext kind env b w = (Ok (sr_id r), w')"
    "vault_ready c keys (bt_insert name (StagedSet (binding_entry b (sr_id r))) ix) (vw_fs w')"
    "records_after c (vw_fs w) r None (vw_fs w')" "sr_state r = Active" "sr_name r = name" "sr_environment r = e" "sr_kind r = kind"
    "sr_created_nanos r = of_nat (vw_clock w (Suc (vw_readings w)))"
    and dec: "\<And>j u u'. cached_keys (new_secret_service c j) u = (Ok keys, u') \<Longrightarrow> decrypt_record (new_secret_service c j) r u = (Ok plaintext, u')"
    by (rule set_calm [OF assms]) (rule that)
  have "(kind = Secret \<longrightarrow> fst (reveal_revision (new_secret_service c j) name (sr_id r) u) = Ok plaintext)
      \<and> ((\<forall>x. found c (Some e) (vw_fs w) x \<and> sr_name x = name \<longrightarrow> sr_created_nanos x < of_nat (vw_clock w (Suc (vw_readings w))))
          \<longrightarrow> fst (reveal_secret (new_secret_service c j) name env u) = Ok plaintext)"
    if u: "same_nodes (vw_fs w') (vw_fs u)" "faults (vw_fs u) = []" "vw_cache u \<in> {None, Some (j, keys)}" for j u
  proof -
    note ready = ready_same [OF r(2) u(1,2)]
    have kept: "records_after c (vw_fs w) r None (vw_fs u)" using r(3) u(1) by (simp add: records_after_def record_at_def)
    note reads = read_back [OF assms(1) ready u(3) kept _ r(4) _ _ dec, of name env]
    show ?thesis using reads assms(6,7) r(5-8) by (auto simp: on_disk_def)
  qed
  moreover have "index_at (sc_repo c) (vw_fs w') = Some (bt_insert name (StagedSet (binding_entry b (sr_id r))) ix)"
    using r(2) by (simp add: vault_ready_def)
  ultimately show ?thesis using r(1) by blast
qed

theorem stored_secret_reads_back_witness:
  "\<exists>revision w'. set_secret (new_secret_service sample_secret_codec 1) ''TOKEN'' ''hunter2'' Secret ''dev'' None sample_vault = (Ok revision, w')
     \<and> index_at sample_repo_codec (vw_fs w') = Some [(''TOKEN'', StagedSet (SecretEntry revision))]
     \<and> (\<forall>u. same_nodes (vw_fs w') (vw_fs u) \<and> faults (vw_fs u) = [] \<and> vw_cache u = None \<longrightarrow>
          fst (reveal_revision (new_secret_service sample_secret_codec 2) ''TOKEN'' revision u) = Ok ''hunter2''
          \<and> fst (reveal_secret (new_secret_service sample_secret_codec 2) ''TOKEN'' ''dev'' u) = Ok ''hunter2'')"
proof -
  let ?c = sample_secret_codec
  have c: "secret_codec_ok ?c" "repo_codec_ok (sc_repo ?c)" using sample_secret_codec_ok sample_repo_codec_ok by (simp_all add: sample_secret_codec_def)
  have w: "vault_ready ?c sample_keys bt_empty (vw_fs sample_vault)" "vw_cache sample_vault \<in> {None, Some (1, sample_keys)}"
    using sample_ready by (simp_all add: sample_vault_def)
  have args: "validate_binding Secret None ''TOKEN'' = Ok None" "valid_call (SetCall ''TOKEN'' ''hunter2'' Secret ''dev'' None)"
    "''hunter2'' \<noteq> []" "length ''hunter2'' < 2 ^ 36" by (simp_all add: validate_binding_def)
  have "\<forall>x. found ?c (Some ''env_dev'') (vw_fs sample_vault) x \<and> sr_name x = ''TOKEN'' \<longrightarrow>
      sr_created_nanos x < of_nat (vw_clock sample_vault (Suc (vw_readings sample_vault)))"
    by (simp add: sample_vault_def sample_found) (simp add: sample_record_def)
  then show ?thesis
    using stored_secret_reads_back [OF c w sample_free sample_names args]
    by (fastforce simp: binding_entry_def bt_empty_def sample_secret_codec_def)
qed

text \<open>
  C11. Keys are never replaced.  Whatever calls of the secret store any processes make, in any order, and whatever system
  calls fail half-way, the root key file and the wrapped key bundle keep their content once they are there: no value
  encrypted under them is lost to a new key.
\<close>

theorem key_files_never_replaced:
  assumes "fs_inv (vw_fs w)" "vault_run c guard w w'" "p = ROOT_KEY_PATH \<or> p = KEYS_PATH" "content (vw_fs w) p = Some bytes"
  shows "content (vw_fs w') p = Some bytes"
  using keyring.run_keeps [OF assms(2,1)] assms(3,4) by (auto simp: keeps_keys_def keeps_file_def)

theorem key_files_never_replaced_witness:
  "content (vw_fs (run_call (new_secret_service sample_secret_codec 1) (RotateCall ''TOKEN'' ''new'' ''dev'')
     (sample_vault\<lparr>vw_fs := sample_vault_fs\<lparr>faults := [None, None, Some (3, ''disk full'')]\<rparr>\<rparr>))) ROOT_KEY_PATH = Some (to_hex sample_root @ [newline])"
proof -
  let ?w = "sample_vault\<lparr>vw_fs := sample_vault_fs\<lparr>faults := [None, None, Some (3, ''disk full'')]\<rparr>\<rparr>"
  have "vault_run sample_secret_codec (\<lambda>_ _. True) ?w (run_call (new_secret_service sample_secret_codec 1) (RotateCall ''TOKEN'' ''new'' ''dev'') ?w)"
    by (rule vault_run.call [OF vault_run.start]) simp
  moreover have "fs_inv (vw_fs ?w)" using sample_ready by (simp add: vault_ready_def roomy_def)
  moreover have "content (vw_fs ?w) ROOT_KEY_PATH = Some (to_hex sample_root @ [newline])" by (simp add: sample_content ROOT_KEY_PATH_def)
  ultimately show ?thesis using key_files_never_replaced by blast
qed

text \<open>
  C12. The history of revisions is append-only.  Through any calls of any processes, with any system calls failing, every
  stored revision stays stored in its place; its values, name, environment and binding never change; its
  state only moves from active to revoked to destroyed; and the wrapped key is kept until the revision is destroyed, when
  it is erased.  Assumed is that drawn revision ids are not in use.
\<close>

theorem revision_history_append_only:
  assumes "secret_codec_ok c" "fs_inv (vw_fs w)" "secrets_ok c (vw_fs w)" "vault_run c (fresh_call c) w w'"
    and "is_record_file p" "record_at c (vw_fs w) p = Some r"
  shows "\<exists>r'. record_at c (vw_fs w') p = Some r' \<and> evolves r r'"
  using run_history [OF assms(4,1-3)] assms(3,5,6) unfolding keeps_history_def by blast

theorem revision_history_append_only_witness:
  "\<exists>r'. record_at sample_secret_codec (vw_fs (run_call (new_secret_service sample_secret_codec 1) (RotateCall ''TOKEN'' ''new'' ''dev'')
      (sample_vault\<lparr>vw_fs := sample_vault_fs\<lparr>faults := [None, None, Some (3, ''disk full'')]\<rparr>\<rparr>))) (record_path sample_record) = Some r'
     \<and> evolves sample_record r'"
proof -
  let ?w = "sample_vault\<lparr>vw_fs := sample_vault_fs\<lparr>faults := [None, None, Some (3, ''disk full'')]\<rparr>\<rparr>" and ?c = sample_secret_codec
  have same: "same_nodes (vw_fs sample_vault) (vw_fs ?w)" by (simp add: sample_vault_def same_nodes_def)
  have "free_ids ?c 256 ?w" by (rule free_ids_later [OF sample_free [of 256] same]) simp_all
  then have "vault_run ?c (fresh_call ?c) ?w (run_call (new_secret_service ?c 1) (RotateCall ''TOKEN'' ''new'' ''dev'') ?w)"
    by (intro vault_run.call [OF vault_run.start]) (simp add: fresh_call_def)
  moreover have "fs_inv (vw_fs ?w)" "secrets_ok ?c (vw_fs ?w)"
    using sample_ready by (simp_all add: vault_ready_def roomy_def secrets_ok_def record_at_def)
  moreover have "is_record_file (record_path sample_record)" "record_at ?c (vw_fs ?w) (record_path sample_record) = Some sample_record"
    using found_place [OF sample_secrets_ok, of None sample_record] sample_found by (simp_all add: record_at_def)
  ultimately show ?thesis using revision_history_append_only [OF sample_secret_codec_ok] by blast
qed

text \<open>
  C15. Rotation replaces the value and revokes the old one.  On a ready vault without I/O failures and with the clock past the
  earlier revisions, \<open>rotate_secret\<close> returns a new revision; every process then reveals the new plaintext, and the
  former latest revision is reported as revoked.
\<close>

theorem rotation_replaces_value:
  assumes "secret_codec_ok c" "repo_codec_ok (sc_repo c)" "vault_ready c keys ix (vw_fs w)" "vw_cache w \<in> {None, Some (i, keys)}" "free_ids c 256 w"
    and "parse_secret_name name = Ok name" "environment_id_of env = Ok e" "plaintext \<noteq> []" "length plaintext < 2 ^ 36"
    and "latest_record (new_secret_service c i) name e w = (Ok (Some (secret, old)), w)" "sr_state old \<noteq> Destroyed"
    and "\<forall>x. found c (Some e) (vw_fs w) x \<and> sr_name x = name \<longrightarrow> sr_created_nanos x < of_nat (vw_clock w (Suc (vw_readings w)))"
  shows "\<exists>revision w'. rotate_secret (new_secret_service c i) name plaintext env w = (Ok revision, w')
     \<and> (\<forall>j u. same_nodes (vw_fs w') (vw_fs u) \<and> faults (vw_fs u) = [] \<and> vw_cache u \<in> {None, Some (j, keys)} \<longrightarrow>
          fst (reveal_secret (new_secret_service c j) name env u) = Ok plaintext
          \<and> fst (revision_state (new_secret_service c j) (sr_id old) u) = Ok (Some Revoked))"
proof -
  obtain r w' where r: "rotate_secret (new_secret_service c i) name plaintext env w = (Ok (sr_id r), w')"
    "vault_ready c keys (bt_insert name (StagedSet (binding_entry (sr_brokered old) (sr_id r))) ix) (vw_fs w')"
    "records_after c (vw_fs w) r (Some old) (vw_fs w')" "on_disk c (vw_fs w) (Some old)" "sr_state r = Active" "sr_name r = name" "sr_environment r = e"
    "content (vw_fs w) (record_path r) = None" "sr_created_nanos r = of_nat (vw_clock w (Suc (vw_readings w)))"
    and dec: "\<And>j u u'. cached_keys (new_secret_service c j) u = (Ok keys, u') \<Longrightarrow> decrypt_record (new_secret_service c j) r u = (Ok plaintext, u')"
    by (rule rotate_calm [OF assms(1-11)]) (rule that)
  have apart: "record_path old \<noteq> record_path r" using r(4,8) by (auto simp: on_disk_def record_at_def)
  have "secrets_ok c (vw_fs w)" using assms(3) by (simp add: vault_ready_def)
  then have "fst (reveal_secret (new_secret_service c j) name env u) = Ok plaintext
      \<and> fst (revision_state (new_secret_service c j) (sr_id old) u) = Ok (Some Revoked)"
    if u: "same_nodes (vw_fs w') (vw_fs u)" "faults (vw_fs u) = []" "vw_cache u \<in> {None, Some (j, keys)}" for j u
  proof -
    note ready = ready_same [OF r(2) u(1,2)]
    have kept: "records_after c (vw_fs w) r (Some old) (vw_fs u)" using r(3) u(1) by (simp add: records_after_def record_at_def)
    have "fst (reveal_secret (new_secret_service c j) name env u) = Ok plaintext"
      by (rule read_back(2) [OF assms(1) ready u(3) kept r(4,5) _ _ dec]) (use assms(6,7,12) r(6,7,9) in auto)
    then show ?thesis using rotated_facts [OF assms(1) ready u(3) kept r(4) \<open>secrets_ok c (vw_fs w)\<close> apart] by simp
  qed
  then show ?thesis using r(1) by blast
qed

theorem rotation_replaces_value_witness:
  "\<exists>revision w'. rotate_secret (new_secret_service sample_secret_codec 1) ''TOKEN'' ''hunter3'' ''dev'' sample_vault = (Ok revision, w')
     \<and> (\<forall>u. same_nodes (vw_fs w') (vw_fs u) \<and> faults (vw_fs u) = [] \<and> vw_cache u = None \<longrightarrow>
          fst (reveal_secret (new_secret_service sample_secret_codec 2) ''TOKEN'' ''dev'' u) = Ok ''hunter3''
          \<and> fst (revision_state (new_secret_service sample_secret_codec 2) ''sec_rev_a'' u) = Ok (Some Revoked))"
proof -
  let ?c = sample_secret_codec
  have c: "secret_codec_ok ?c" "repo_codec_ok (sc_repo ?c)" using sample_secret_codec_ok sample_repo_codec_ok by (simp_all add: sample_secret_codec_def)
  have w: "vault_ready ?c sample_keys bt_empty (vw_fs sample_vault)" "vw_cache sample_vault \<in> {None, Some (1, sample_keys)}"
    using sample_ready by (simp_all add: sample_vault_def)
  have args: "''hunter3'' \<noteq> []" "length ''hunter3'' < 2 ^ 36" "sr_state sample_record \<noteq> Destroyed" "sr_id sample_record = ''sec_rev_a''"
    by (simp_all add: sample_record_def)
  have "\<forall>x. found ?c (Some ''env_dev'') (vw_fs sample_vault) x \<and> sr_name x = ''TOKEN'' \<longrightarrow>
      sr_created_nanos x < of_nat (vw_clock sample_vault (Suc (vw_readings sample_vault)))"
    by (simp add: sample_vault_def sample_found) (simp add: sample_record_def)
  then show ?thesis
    using rotation_replaces_value [OF c w sample_free sample_names args(1,2) sample_latest args(3)] args(4) by fastforce
qed

text \<open>
  C13. Destruction is final.  Once \<open>destroy_secret\<close> has returned, the latest revision of the name is recorded as destroyed; no
  sequence of calls by any processes, with any failures, brings it back: reading it never gives a value again.
\<close>

theorem destroyed_stays_destroyed:
  assumes "secret_codec_ok c" "fs_inv (vw_fs w)" "secrets_ok c (vw_fs w)" "destroy_secret (new_secret_service c i) name env w = (Ok (), w')"
  shows "\<exists>r. parse_secret_name name = Ok (sr_name r) \<and> environment_id_of env = Ok (sr_environment r)
     \<and> record_at c (vw_fs w') (record_path r) = Some r \<and> sr_state r = Destroyed
     \<and> (\<forall>w2 j asked plain w3. vault_run c (fresh_call c) w' w2 \<longrightarrow>
          resolve_revision (new_secret_service c j) asked (sr_id r) w2 \<noteq> (Ok (Plain plain), w3)
          \<and> reveal_revision (new_secret_service c j) asked (sr_id r) w2 \<noteq> (Ok plain, w3))"
proof -
  note h = destroy_history [OF assms(1,4,2,3)]
  then obtain r where r: "parse_secret_name name = Ok (sr_name r)" "environment_id_of env = Ok (sr_environment r)" "sr_state r = Destroyed"
    "record_at c (vw_fs w') (record_path r) = Some r" by blast
  have ok: "secrets_ok c (vw_fs w')" using h assms(3) by (simp add: keeps_history_def)
  have place: "is_record_file (record_path r)"
    using decoded_valid [OF assms(1) r(4)] record_extension by (simp add: valid_record_def record_path_def)
  have "resolve_revision (new_secret_service c j) asked (sr_id r) w2 \<noteq> (Ok (Plain plain), w3)"
    if run: "vault_run c (fresh_call c) w' w2" for w2 j asked plain w3
  proof -
    note k = run_history [OF run assms(1) conjunct1 [OF conjunct2 [OF h]] ok]
    then obtain r' where r': "record_at c (vw_fs w2) (record_path r) = Some r'" "evolves r r'" using ok place r(4) unfolding keeps_history_def by blast
    then have st: "sr_state r' = Destroyed" using r(3) destroyed_last by (simp add: evolves_def)
    have ok2: "secrets_ok c (vw_fs w2)" using k ok by (simp add: keeps_history_def)
    have f: "found c None (vw_fs w2) r'" using r' place by (auto simp: found_def)
    have id: "sr_id r' = sr_id r" using evolves_same_place [OF r'(2)] by (simp add: record_path_def)
    have "sr_state y = Destroyed" if "is_record_file p" "record_at c (vw_fs w2) p = Some y" "sr_id y = sr_id r" for y p
      using found_unique [OF ok2 _ f, of None y] that id st by (auto simp: found_def)
    then show ?thesis
      using resolved_from [of "new_secret_service c j" asked "sr_id r" w2 plain w3] by (auto simp: service_codec)
  qed
  then have "resolve_revision (new_secret_service c j) asked (sr_id r) w2 \<noteq> (Ok (Plain plain), w3)
      \<and> reveal_revision (new_secret_service c j) asked (sr_id r) w2 \<noteq> (Ok plain, w3)"
    if "vault_run c (fresh_call c) w' w2" for w2 j asked plain w3
    using that by (auto simp: reveal_revision_def vbind_Ok split: resolved_revision.splits)
  then show ?thesis using r by blast
qed

theorem destroyed_stays_destroyed_witness:
  "\<exists>w' r. destroy_secret (new_secret_service sample_secret_codec 1) ''TOKEN'' ''dev'' sample_vault = (Ok (), w')
     \<and> sr_state r = Destroyed \<and> record_at sample_secret_codec (vw_fs w') (record_path r) = Some r
     \<and> (\<forall>j plain w3. reveal_revision (new_secret_service sample_secret_codec j) ''TOKEN'' (sr_id r) w' \<noteq> (Ok plain, w3))"
proof -
  have ready: "vault_ready sample_secret_codec sample_keys bt_empty (vw_fs sample_vault)" using sample_ready by (simp add: sample_vault_def)
  then have w: "fs_inv (vw_fs sample_vault)" "secrets_ok sample_secret_codec (vw_fs sample_vault)" by (simp_all add: vault_ready_def roomy_def)
  obtain w' where d: "destroy_secret (new_secret_service sample_secret_codec 1) ''TOKEN'' ''dev'' sample_vault = (Ok (), w')"
    using destroy_calm [OF sample_secret_codec_ok ready sample_names sample_latest] by blast
  have "vault_run sample_secret_codec (fresh_call sample_secret_codec) w' w'" by (rule vault_run.start)
  then show ?thesis using destroyed_stays_destroyed [OF sample_secret_codec_ok w d] d by metis
qed



text \<open>
  Brokered credentials are never resolved to a value.  Whatever happens on disk, a value that \<open>resolve_revision\<close>
  returns is the decryption of a stored record of the asked revision and name that is neither brokered nor destroyed.
\<close>

lemma resolved_value_never_brokered:
  assumes "resolve_revision v name revision w = (Ok (Plain plain), w')"
  shows "\<exists>r p. is_record_file p \<and> record_at (sv_codec v) (vw_fs w) p = Some r \<and> sr_id r = revision \<and> sr_name r = name
     \<and> sr_kind r \<noteq> Brokered \<and> sr_state r \<noteq> Destroyed \<and> (\<exists>u. decrypt_record v r u = (Ok plain, w'))"
  by (rule resolved_from [OF assms])

lemma resolved_value_never_brokered_witness:
  "\<exists>revision w' plain w'' r p. resolve_revision (new_secret_service sample_secret_codec 1) ''TOKEN'' revision w' = (Ok (Plain plain), w'')
     \<and> is_record_file p \<and> record_at sample_secret_codec (vw_fs w') p = Some r \<and> sr_id r = revision \<and> sr_kind r \<noteq> Brokered"
proof -
  let ?c = sample_secret_codec
  have c: "secret_codec_ok ?c" "repo_codec_ok (sc_repo ?c)" using sample_secret_codec_ok sample_repo_codec_ok by (simp_all add: sample_secret_codec_def)
  have w: "vault_ready ?c sample_keys bt_empty (vw_fs sample_vault)" "vw_cache sample_vault \<in> {None, Some (1, sample_keys)}"
    using sample_ready by (simp_all add: sample_vault_def)
  have args: "validate_binding Secret None ''TOKEN'' = Ok None" "valid_call (SetCall ''TOKEN'' ''hunter2'' Secret ''dev'' None)"
    "''hunter2'' \<noteq> []" "length ''hunter2'' < 2 ^ 36" by (simp_all add: validate_binding_def)
  obtain r w' where "set_secret (new_secret_service ?c 1) ''TOKEN'' ''hunter2'' Secret ''dev'' None sample_vault = (Ok (sr_id r), w')"
    and r: "vault_ready ?c sample_keys (bt_insert ''TOKEN'' (StagedSet (binding_entry None (sr_id r))) bt_empty) (vw_fs w')"
    "records_after ?c (vw_fs sample_vault) r None (vw_fs w')" "sr_state r = Active" "sr_name r = ''TOKEN''" "sr_environment r = ''env_dev''" "sr_kind r = Secret"
    and "sr_created_nanos r = of_nat (vw_clock sample_vault (Suc (vw_readings sample_vault)))"
    and dec: "\<And>j u u'. cached_keys (new_secret_service ?c j) u = (Ok sample_keys, u') \<Longrightarrow> decrypt_record (new_secret_service ?c j) r u = (Ok ''hunter2'', u')"
    by (rule set_calm [OF c w sample_free sample_names args]) (rule that)
  let ?u = "w'\<lparr>vw_cache := None\<rparr>"
  have "fst (reveal_revision (new_secret_service ?c 1) (sr_name r) (sr_id r) ?u) = Ok ''hunter2''"
    by (rule read_back(1) [OF c(1) _ _ _ _ r(3) _ _ dec, where s = "vw_fs sample_vault" and previous = None and name = "''TOKEN''" and env = "''dev''"])
       (use r sample_names in \<open>simp_all add: on_disk_def\<close>)
  then obtain u where u: "reveal_revision (new_secret_service ?c 1) ''TOKEN'' (sr_id r) ?u = (Ok ''hunter2'', u)" using r(4) by (metis prod.collapse)
  then obtain a t where a: "resolve_revision (new_secret_service ?c 1) ''TOKEN'' (sr_id r) ?u = (Ok a, t)"
    "(case a of Plain plaintext \<Rightarrow> vok plaintext | DestroyedRevision \<Rightarrow> verr (SecretDestroyed ''TOKEN'')) t = (Ok ''hunter2'', u)"
    by (auto simp: reveal_revision_def vbind_Ok)
  then have res: "resolve_revision (new_secret_service ?c 1) ''TOKEN'' (sr_id r) ?u = (Ok (Plain ''hunter2''), u)" by (cases a) auto
  then show ?thesis using resolved_value_never_brokered [OF res, unfolded service_codec] by blast
qed

end
