(* ===== verification/Spec2Isabelle.thy ===== *)
theory Spec2Isabelle
  imports Canonical_Url Policy_Engine Session_Properties Broker_Wiring Manifest_Diff Repository_Properties Merge_Base
    Policy_Packs Control_Properties Sync_Properties Secret_Properties
begin

text \<open>
  A verification development for vaultx, a command line vault with a credential broker for agents (Rust; the crates
  are under \<open>src/crates\<close>).

  \<^bold>\<open>The program.\<close>  An agent holds a bearer token of a session and sends HTTP requests to the broker instead of calling an
  upstream service itself.  The broker validates the token and its chain of delegations (\<open>vaultx-broker/src/session.rs\<close>),
  canonicalizes the URL (\<open>vaultx-http\<close>), asks the policy engine (\<open>vaultx-policy\<close>), checks replay and network policy, injects the
  credential that the agent never sees, sends the request, scrubs the response and records exactly one event in a
  hash-chained audit log (\<open>vaultx-audit\<close>).  Beside the broker, \<open>vaultx-repository\<close> keeps variables and policies in a
  content-addressed repository with signed commits, branches and protected environments.  A team shares a project through the
  control plane (\<open>vaultx-control-plane\<close>), an HTTP server for objects, refs, policies and agents; \<open>vaultx-sync-client\<close> moves objects
  and refs between it and the local repository.  \<open>vaultx-policy-packs\<close> compiles capability templates to policy documents.  Secret
  values live outside the repository: \<open>vaultx-core/src/secrets.rs\<close> stores each as an encrypted revision under keys of
  \<open>vaultx-crypto\<close> that a root key of \<open>vaultx-keyring\<close> wraps, and stages the revision's identifier in the repository.

  \<^bold>\<open>Theories and sources.\<close>
  \<^item> \<open>Prelude\<close>, \<open>Ordered_Map\<close>: results, bytes, UTF-8, string functions of the standard library; \<open>BTreeMap\<close> as a sorted
    association list behind the locale \<open>finite_map\<close>.
  \<^item> \<open>Ids\<close>: identifiers and names (\<open>vaultx-types\<close>).
  \<^item> \<open>Net_Policy\<close>, \<open>Http_Controls\<close>, \<open>Canonical_Url\<close>: address classes and egress guards, header filters, limits and
    redaction, canonical URLs and redirects (\<open>vaultx-http\<close>).
  \<^item> \<open>Policy_Model\<close>, \<open>Policy_Engine\<close>: documents, path matcher, loader and the two-pass decision (\<open>vaultx-policy\<close>), refined
    to a set-level specification.
  \<^item> \<open>Session_Constraints\<close>, \<open>Session_Store\<close>, \<open>Session_Properties\<close>: constraint narrowing, the in-memory session store with
    creation, delegation, validation, budgets and revocation as a step relation (\<open>session.rs\<close>).
  \<^item> \<open>Injection\<close>, \<open>Body_Scrub\<close>, \<open>Replay_Cache\<close>, \<open>Broker_Request\<close>, \<open>Broker_Engine\<close>, \<open>Broker_Properties\<close>: credential injection, response
    scrubbing, the replay window, and the request pipeline with its gates in source order (\<open>inject.rs\<close>, \<open>request.rs\<close>,
    \<open>engine.rs\<close>); the pipeline threads a world of stores and returns the trace of its outside effects.
  \<^item> \<open>Audit_Event\<close>, \<open>Audit_Log\<close>: the event schema and the JSONL store on the bytes of its file (\<open>vaultx-audit\<close>).
  \<^item> \<open>Broker_Wiring\<close>: \<open>BrokerEngine::new\<close> on these components, through the locale \<open>session_authority\<close>.
  \<^item> \<open>Manifest\<close>, \<open>Manifest_Diff\<close>, \<open>Manifest_Merge\<close>: manifests, their differences and the three-way merge (\<open>manifest.rs\<close>,
    \<open>diff.rs\<close>, \<open>merge.rs\<close>, \<open>error.rs\<close>).
  \<^item> \<open>Vault_Fs\<close>: \<open>std::fs\<close> on the \<open>.vaultx\<close> directory.  Every call first takes the next entry of a list of pending faults; a
    fault makes it fail, a write after any number of bytes.  The locale \<open>atomic_files\<close> is the contract of the
    write-to-temporary-then-rename pattern.
  \<^item> \<open>Object_Store\<close>, \<open>Ref_Store\<close>, \<open>History\<close>, \<open>Repository\<close>, \<open>Repository_Properties\<close>, \<open>Merge_Base\<close>: the object store (locale
    \<open>content_store\<close>), refs and staging, commits and history, the facade with every operation, and the merge-base search
    (\<open>object.rs\<close>, \<open>store.rs\<close>, \<open>refs.rs\<close>, \<open>staging.rs\<close>, \<open>commit.rs\<close>, \<open>history.rs\<close>, \<open>repo.rs\<close>).
  \<^item> \<open>Policy_Packs\<close>: schema, validation, compiler and directory loader of \<open>vaultx-policy-packs\<close>.
  \<^item> \<open>Control_Store\<close>, \<open>Control_Api\<close>, \<open>Control_Properties\<close>: the in-memory store of the control plane with each method as an atomic step,
    the routes with their guards (\<open>serve\<close> is the router), and the locale \<open>store_frame\<close> of what every route keeps.
  \<^item> \<open>Sync_Client\<close>, \<open>Sync_Contract\<close>, \<open>Sync_Workspace\<close>, \<open>Sync_Properties\<close>: the sync client over any workspace and any transport, the
    locale \<open>sync_workspace\<close> of what it relies on, its interpretation on the adapter over the repository (\<open>local.rs\<close>) with every
    file-system call allowed to fail, and the properties of pull and push.
  \<^item> \<open>Vault_Keys\<close>, \<open>Secret_Store\<close>, \<open>Secret_History\<close>, \<open>Secret_Lifecycle\<close>, \<open>Secret_Roundtrip\<close>, \<open>Secret_Properties\<close>: the key envelope and root-key
    stores, every operation of the secret service over a world of files, random bytes, clock and key cache, runs of any
    processes as a step relation, and the properties of stored, rotated and destroyed values.

  \<^bold>\<open>What is shown.\<close>  This theory holds the properties of the assembled broker: no request of a revoked subtree, none
  that the policies deny or do not grant and none beyond an ancestor's constraints leaves the broker, and every answer is one event on the
  audit chain.  Below it, the policy engine is its specification, delegation only attenuates, revocation cascades, budgets and
  the replay window hold, caller credentials are stripped, metadata addresses are unreachable, and the audit
  file is append-only and tamper-evident under every pattern of write failures.  For the repository: refs
  never dangle whatever calls fail, a commit does what it says, protected environments move only by force, the log is never
  truncated, the merge is exact and no strategy decides over a secret, the diff is exact and replays, and
  the merge-base search terminates with the nearest common ancestor.  For the server: each route refuses exactly when its guard says so and
  then changes nothing, sessions have the class their token shows, objects are immutable and content-addressed, no ref update is
  lost in any interleaving, protected environments hold, and the audit events of a project are one hash chain.  For the client:
  a pull moves refs only forward and applies downloads all or not at all, reconciliation is the verdict of the commit graph, a push
  returns and sends exactly the fast-forwards.  A directory of packs authorizes exactly what its packs describe.  For
  the secret store: a stored value reads back in every process, key files are never replaced, revisions are only added and their state only
  advances, a destroyed one stays unreadable, and of a plaintext only its sealing and fingerprint are written.

  \<^bold>\<open>Parameters.\<close>  Code outside \<open>src\<close> is an argument with named laws: the \<open>url\<close> crate (\<open>url_api\<close>), \<open>serde_json\<close> with
  \<open>sha2\<close>, \<open>hex\<close> and Ed25519 (the codec records and their \<open>_ok\<close> predicates), AES-256-GCM and HMAC
  (\<open>vault_crypto\<close>), base64, entropy, clocks, and the HTTP transport of the broker.
  Every law has a sample instance that the witnesses evaluate.  Hash functions are never assumed injective: the theorems name
  the collision that would break them.

  \<^bold>\<open>Bounds.\<close>  The recursive listing of refs has fuel, one more than the number of file-system nodes: each level enters a
  longer existing directory.  The pull loop and the ancestry search of the client are \<open>partial_function (option)\<close>, where \<open>None\<close> means
  not returning.  The other loops that are not structural end by a measure: the log by its limit, the
  ancestor walk of a session by the number of stored sessions, the replay eviction by the cache size, the merge-base search by the
  finitely many identifiers that can name a stored commit.  One call of the secret
  store draws fewer than 256 random bytes, the window in which its identifiers are assumed unused.  Machine integers are words of the source's width where they can wrap.

  \<^bold>\<open>Not modelled.\<close>  The socket IPC, the reqwest transport, the file-backed session store (the same rules behind file locks),
  the configuration files and the HTTP transport of the sync client, the MCP server, terminal interface and command line, which are I/O around
  the modelled parts; signature keys and zeroized strings of \<open>vaultx-crypto\<close>, which wrap external code; file modes; the extraction of
  paths and bodies by axum; and the other core services over the repository (exports, project files, diagnostics).
\<close>

section \<open>Lemmas: the sample broker\<close>

lemma sample_broker:
  "wi_sha sample_wiring = (\<lambda>t. t)" "wi_url sample_wiring = sample_url_api" "wi_codec sample_wiring = sample_codec"
  "wi_project sample_wiring = ''proj_core''"
  "session_token (leaf_request v) = ''leaf''" "method (leaf_request v) = GET" "broker_request.credential (leaf_request v) = ''github''"
  "ww_sessions (world (sample_world s)) = s" "ww_clock (world (sample_world s)) = 104"
  "effects (sample_world s) = []" "ww_audit (world (sample_world s)) = None"
  by (simp_all add: sample_wiring_def leaf_request_def sample_world_def)

lemma sample_leaf_record:
  obtains r where "bt_get (sessions sample_store) ''sess_c3'' = Some r" "token_hash r = ''leaf''"
  using sample_records(4) by auto

lemma sample_leaf_valid:
  obtains r where "validate (\<lambda>t. t) sample_store 104 ''leaf'' = Ok r" "environment r = ''env_dev''" "agent r = ''agent_ci''"
proof -
  have "(case validate (\<lambda>t. t) sample_store 104 ''leaf'' of Ok r \<Rightarrow> Some (environment r, agent r) | Err _ \<Rightarrow> None)
      = Some (''env_dev'', ''agent_ci'')" by code_simp
  then show thesis using that by (auto split: result.splits)
qed

lemma sample_leaf_url: "canonical_parse sample_url_api (url (leaf_request v)) = Ok ''https://api.example.com/v1''"
  unfolding leaf_request_def broker_request.simps by code_simp

section \<open>Properties across components\<close>

text \<open>
  C1. Revoking a session stops its whole subtree at the broker.  After \<open>revoke\<close> of a session, and any
  further calls on the store, a request with the token of any session delegated from it makes no
  outbound call, whatever the policies, the credentials and the network do.
\<close>

theorem revoked_subtree_sends_nothing:
  assumes "reachable (wi_sha k) s" "descends (sessions s) x a"
    and "bt_get (sessions s) x = Some r" "token_hash r = wi_sha k (session_token req)"
    and "revoke s a = (Ok (), s1)" "fresh_steps (wi_sha k) s1 (ww_sessions (world st))"
    and "execute_pipeline (wired_deps k) req st = (out, st')" "effects st' = effects st @ new"
  shows "Sent ob v \<notin> set new"
proof (rule wired.dead_never_sends)
  show "dead_in k (world st) (session_token req)"
    unfolding dead_in_def using revoked_ancestor_refused [OF assms(1-6)] .
qed (use assms in auto)

theorem revoked_subtree_sends_nothing_witness:
  "\<forall>ob v. Sent ob v \<notin> set (effects (snd (execute_pipeline (wired_deps sample_wiring) (leaf_request 1)
     (sample_world (snd (revoke sample_store ''sess_a1''))))))"
proof (intro allI)
  fix ob v
  let ?st = "sample_world (snd (revoke sample_store ''sess_a1''))"
  obtain out st' where run: "execute_pipeline (wired_deps sample_wiring) (leaf_request 1) ?st = (out, st')"
    by (metis surj_pair)
  obtain r where r: "bt_get (sessions sample_store) ''sess_c3'' = Some r" "token_hash r = ''leaf''"
    by (rule sample_leaf_record)
  have "revoke sample_store ''sess_a1'' = (Ok (), snd (revoke sample_store ''sess_a1''))"
    using sample_records(5) by (auto simp: revoke_def)
  with r show "Sent ob v \<notin> set (effects (snd (execute_pipeline (wired_deps sample_wiring) (leaf_request 1) ?st)))"
    using reachable_sample sample_descends fresh_steps.fresh_refl
      revoked_subtree_sends_nothing [OF _ _ r(1) _ _ _ run, of "''sess_a1''"]
    by (simp add: sample_broker run)
qed

text \<open>
  C2. Policy is enforced at the broker.  A request whose canonical form, for the agent of its session, is
  denied by a loaded document or granted by none, makes no outbound call.
\<close>

theorem unpermitted_sends_nothing:
  assumes "execute_pipeline (wired_deps k) req st = (out, st')" "effects st' = effects st @ new"
    and "validate (wi_sha k) (ww_sessions (world st)) (ww_clock (world st)) (session_token req) = Ok rcd"
    and "agent_principal (agent rcd) = Ok actor" "canonical_parse (wi_url k) (url req) = Ok u"
    and "authz = build_authorization_request (wired_deps k) req actor u (Some (environment rcd))"
    and "(\<exists>d \<in> set (policies (wi_engine k)). denies d authz) \<or> (\<forall>d \<in> set (policies (wi_engine k)). \<not> grants d authz)"
  shows "Sent ob v \<notin> set new"
proof
  assume "Sent ob v \<in> set new"
  from assms(1,2) this obtain policy where "authorize (wi_engine k) authz = Allow policy"
    by (rule sent_cases) (use assms(3-6) in auto)
  then have "permitted (set (policies (wi_engine k))) authz" using re.allow_iff_permitted by blast
  with assms(7) show False by (auto simp: permitted_def)
qed

theorem unpermitted_sends_nothing_witness:
  "\<forall>ob v. Sent ob v \<notin> set (effects (snd (execute_pipeline (wired_deps sample_wiring) (leaf_request 1)
     (sample_world sample_store))))"
proof (intro allI)
  fix ob v
  let ?st = "sample_world sample_store"
  obtain out st' where run: "execute_pipeline (wired_deps sample_wiring) (leaf_request 1) ?st = (out, st')"
    by (metis surj_pair)
  obtain r where r: "validate (\<lambda>t. t) sample_store 104 ''leaf'' = Ok r" "environment r = ''env_dev''" "agent r = ''agent_ci''"
    by (rule sample_leaf_valid)
  have actor: "agent_principal (agent r) = Ok ''agent:ci''" unfolding r(3) by code_simp
  let ?authz = "build_authorization_request (wired_deps sample_wiring) (leaf_request 1) ''agent:ci''
    ''https://api.example.com/v1'' (Some (environment r))"
  have "\<exists>d \<in> set (policies (wi_engine sample_wiring)). denies d ?authz"
    unfolding denies_iff r(2) by code_simp
  with unpermitted_sends_nothing [OF run _ _ actor _ HOL.refl, of _ "''https://api.example.com/v1''"]
  show "Sent ob v \<notin> set (effects (snd (execute_pipeline (wired_deps sample_wiring) (leaf_request 1) ?st)))"
    by (simp add: sample_broker run r(1) sample_leaf_url)
qed

text \<open>
  C5. A delegated token can do no more than any session above it.  A request that an ancestor's
  constraints do not admit makes no outbound call with a token delegated from that ancestor, in any
  number of steps, in any store reached from the empty one.
\<close>

theorem beyond_ancestor_sends_nothing:
  assumes "reachable (wi_sha k) (ww_sessions (world st))" "descends (sessions (ww_sessions (world st))) x a"
    and "bt_get (sessions (ww_sessions (world st))) x = Some r" "token_hash r = wi_sha k (session_token req)"
    and "bt_get (sessions (ww_sessions (world st))) a = Some ar" "canonical_parse (wi_url k) (url req) = Ok u"
    and "\<not> admits ar (broker_request.credential req) (environment ar) (canonical_host (wi_url k) u)
           (method_str (method req)) (url_path (wi_url k) u)"
    and "execute_pipeline (wired_deps k) req st = (out, st')" "effects st' = effects st @ new"
  shows "Sent ob v \<notin> set new"
proof
  assume sent: "Sent ob v \<in> set new"
  let ?s = "ww_sessions (world st)"
  note inv = reachable_inv [OF assms(1)]
  have att: "environment r = environment ar"
    "\<And>cred env host m path. admits r cred env host m path \<Longrightarrow> admits ar cred env host m path"
    using descends_attenuates [OF assms(2) inv attenuated_reachable [OF assms(1)] assms(3,5)] by auto
  obtain rcd where rcd: "validate (wi_sha k) ?s (ww_clock (world st)) (session_token req) = Ok rcd"
      "within_delegation (wired_deps k) req rcd u"
    using assms(8,9) sent by (rule sent_cases) (use assms(6) in auto)
  have "bt_get (sessions ?s) (session_id rcd) = Some rcd" "token_hash rcd = wi_sha k (session_token req)"
    using rcd(1) validate_Ok_iff [OF inv] by auto
  then have "rcd = r" using assms(3,4) inv unfolding session_inv_def by (metis option.inject)
  with rcd(2) have "admits r (broker_request.credential req) (environment r) (canonical_host (wi_url k) u)
      (method_str (method req)) (url_path (wi_url k) u)"
    by (simp add: within_delegation_def admits_def)
  with att assms(7) show False by simp
qed

theorem beyond_ancestor_sends_nothing_witness:
  "\<forall>ob v. Sent ob v \<notin> set (effects (snd (execute_pipeline (wired_deps sample_wiring) (leaf_request 1)
     (sample_world sample_store))))"
proof (intro allI)
  fix ob v
  let ?st = "sample_world sample_store"
  obtain out st' where run: "execute_pipeline (wired_deps sample_wiring) (leaf_request 1) ?st = (out, st')"
    by (metis surj_pair)
  obtain r where r: "bt_get (sessions sample_store) ''sess_c3'' = Some r" "token_hash r = ''leaf''"
    by (rule sample_leaf_record)
  have "(case bt_get (sessions sample_store) ''sess_b2'' of None \<Rightarrow> False | Some ar \<Rightarrow>
      (case constraints ar of None \<Rightarrow> False | Some c \<Rightarrow> is_err (check_request c ''github'' (environment ar)
        (canonical_host sample_url_api ''https://api.example.com/v1'') (method_str GET)
        (url_path sample_url_api ''https://api.example.com/v1''))))" by code_simp
  then obtain ar where ar: "bt_get (sessions sample_store) ''sess_b2'' = Some ar"
      "\<not> admits ar ''github'' (environment ar) (canonical_host sample_url_api ''https://api.example.com/v1'')
        (method_str GET) (url_path sample_url_api ''https://api.example.com/v1'')"
    by (auto simp: admits_def is_err_def is_ok_iff split: option.splits)
  have "descends (sessions sample_store) ''sess_c3'' ''sess_b2''"
    using sample_records(1) by (auto intro: descends.intros)
  then show "Sent ob v \<notin> set (effects (snd (execute_pipeline (wired_deps sample_wiring) (leaf_request 1) ?st)))"
    using beyond_ancestor_sends_nothing [OF _ _ _ _ _ _ _ run, of "''sess_c3''" "''sess_b2''" r ar
        "''https://api.example.com/v1''" "effects st'"] r ar reachable_sample sample_leaf_url
    by (simp add: sample_broker run)
qed

text \<open>
  C7. Every answer of the broker is on the audit chain, or is the failure answer.  When the JSONL file
  holds a verified chain, answering a request extends it by exactly one event for this project and this
  credential: an allow event when the caller gets an upstream response, and a deny event with the
  (bounded) reason when the caller is refused.  If the event could not be written, the caller gets the
  audit failure answer and no upstream response, whatever file-system failure happened.
\<close>

theorem answer_on_audit_chain:
  assumes "execute_pipeline (wired_deps k) req st = (Returned resp, st')"
    and "codec_ok (wi_codec k)" "holds_log (wi_codec k) (ww_audit (world st)) es" "chain_ok (wi_codec k) es"
    and "is_ok (parse_prefixed_id ''proj_'' (wi_project k))" "is_ok (parse_plain_id 128 (broker_request.credential req))"
    and "\<forall>rcd. validate (wi_sha k) (ww_sessions (world st)) (ww_clock (world st)) (session_token req) = Ok rcd \<longrightarrow>
           is_ok (parse_prefixed_id ''env_'' (environment rcd))"
  shows "(\<exists>e. holds_log (wi_codec k) (ww_audit (world st')) (es @ [e]) \<and> chain_ok (wi_codec k) (es @ [e])
            \<and> ev_project e = wi_project k \<and> ev_credential e = Some (broker_request.credential req)
            \<and> (resp_decision resp = AllowDecision \<and> ev_decision e = AuAllow
               \<or> (\<exists>reason policy. resp_decision resp = DenyDecision reason policy \<and> ev_decision e = AuDeny (bounded_reason reason))))
     \<or> (\<exists>rid. resp = audit_write_failed_response rid)"
  using assms(1)
proof (cases rule: answered_append)
  case (1 c w e res good)
  have same: "ww_audit w = ww_audit (world st)" using 1(2) by (rule wired_world_steps)
  have app: "append_event (wi_codec k) (wi_io k) (wi_event_hex k w) e (ww_audit w) = (res, ww_audit (world st'))"
    using 1(3) by (cases "append_event (wi_codec k) (wi_io k) (wi_event_hex k w) e (ww_audit w)")
      (auto simp: wired_deps_def dest: arg_cong [where f = ww_audit])
  have valid: "valid_new_event e"
    using 1(5) request_context_valid [OF 1(1)] assms(5-7) by (auto simp: wired_deps_def)
  have fields: "ev_project e = wi_project k" "ev_credential e = Some (broker_request.credential req)"
    using 1(5) request_context_credential [OF 1(1)] by (auto simp: deny_event_def allow_event_def Let_def wired_deps_def)
  have dec: "resp_decision good = AllowDecision \<and> ev_decision e = AuAllow
      \<or> (\<exists>reason policy. resp_decision good = DenyDecision reason policy \<and> ev_decision e = AuDeny (bounded_reason reason))"
    using 1(5) by (auto simp: denied_def sanitized_response_def)
  from assms(2) assms(3) [folded same] assms(4) valid show ?thesis
  proof (cases rule: append_event_cases [where io = "wi_io k" and random_hex = "wi_event_hex k w"])
    case (written stored)
    have "ev_project stored = ev_project e" "ev_credential stored = ev_credential e" "ev_decision stored = ev_decision e"
      using written(4) by (auto simp: new_audit_event.truncate_def)
    then show ?thesis
      using written(1-3) app 1(4) dec fields holds_log_snoc [OF assms(3) [folded same] written(2)] by auto
  qed (use app 1(4) in auto)
qed

theorem answer_on_audit_chain_witness:
  "\<exists>resp st'. execute_pipeline (wired_deps sample_wiring) (leaf_request 7) (sample_world sample_store) = (Returned resp, st')
     \<and> ((\<exists>e. holds_log sample_codec (ww_audit (world st')) [e] \<and> ev_project e = ''proj_core'')
        \<or> (\<exists>rid. resp = audit_write_failed_response rid))"
proof -
  let ?run = "execute_pipeline (wired_deps sample_wiring) (leaf_request 7) (sample_world sample_store)"
  have "bootstrap (wired_deps sample_wiring) (leaf_request 7) (world (sample_world sample_store)) \<noteq> None"
    by (rule bootstrap_returns) (simp add: leaf_request_def)
  then obtain rid corr cap where "bootstrap (wired_deps sample_wiring) (leaf_request 7) (world (sample_world sample_store))
      = Some (rid, corr, cap)" by auto
  then have "?run = deny (wired_deps sample_wiring) (initial_context (leaf_request 7) rid corr cap)
      ''protocol_unsupported'' None (sample_world sample_store)"
    by (simp add: execute_pipeline_def stage_protocol_def leaf_request_def PROTOCOL_VERSION_def)
  then obtain resp st' where run: "?run = (Returned resp, st')"
    using deny_result by (metis surj_pair)
  obtain r where r: "validate (\<lambda>t. t) sample_store 104 ''leaf'' = Ok r" "environment r = ''env_dev''" "agent r = ''agent_ci''"
    by (rule sample_leaf_valid)
  have ids: "is_ok (parse_prefixed_id ''proj_'' ''proj_core'')" "is_ok (parse_plain_id 128 ''github'')"
    "is_ok (parse_prefixed_id ''env_'' ''env_dev'')" by code_simp+
  have "holds_log sample_codec None []" "chain_ok sample_codec []"
    by (simp_all add: holds_log_def chain_ok_def file_bytes_def)
  with answer_on_audit_chain [OF run, of "[]"] sample_codec_ok ids r run show ?thesis
    by (auto simp: sample_broker)
qed

end
